(* ===== verification/Prelude.thy ===== *)
theory Prelude
  imports Main "HOL-Library.List_Lexorder" "HOL-Library.Char_ord"
begin

text \<open>
  Shared vocabulary of the development: the exceptions the modelled code throws, the
  process type of a JavaScript method (a state transformer whose state survives a throw),
  the durable \<open>MapStore\<close> / \<open>SetStore\<close> collections as sorted association lists behind an
  interface locale, and the generic machine locale the component invariants are proved in.
\<close>

named_theorems proc_simps \<open>evaluation rules of the process combinators\<close>
named_theorems keeps_intros \<open>rules that show a process keeps an invariant\<close>
named_theorems store_simps \<open>lookup rules of the store operations\<close>

section \<open>Exceptions\<close>

text \<open>
  One constructor for every \<open>throw\<close>, \<open>Fail\<close> and failing library call of the modelled
  code. The text of a message is not modelled, only which site threw. \<open>Diverges\<close> is not an
  exception: it marks a loop of the model that would not end, and is shown never to occur.
\<close>

text \<open>The sites are grouped by the part of the program that throws, and each is named by an
  abbreviation of type \<open>error\<close>.\<close>

datatype store_error =
    KeyNotFound
  | KeyAlreadyRegistered
  | AlreadySeen
  | NoAdvancingTx
  | AlreadyInProgress
  | TxHashMismatch
  | NotANat
  | NonPositiveCount
  | TargetExceeded
  | MaxMatchDepth
  | MalformedAccountId
  | DivisionByZero
  | InfiniteRatio
  | AssertFailed

datatype pool_error =
    CannotDeposit
  | UnexpectedAllocation
  | PoolInconsistent
  | CannotWithdraw
  | CannotBorrow
  | CannotRepay
  | RequestBelowFees
  | SeatExited
  | MissingKeyword
  | InsufficientAllocation
  | TransferMalformed
  | RightsNotConserved
  | OfferUnsafe
  | CannotCommit
  | ConflictingEvidence
  | OperatorDisabled
  | UnknownBech32Prefix
  | JsonSyntax
  | NotABigInt
  | BadAddressHook

datatype plan_error =
    InvalidNodeIndex
  | DependencyCycle
  | DependencyLoop
  | DuplicateNode
  | NotANode
  | Diverges
  | UnknownChain
  | BadPlaceRef
  | PlaceNotAllowed
  | PlanNotSupported
  | UnauthorizedPosition
  | UnfundedMovement
  | ObservationMissing
  | ObservationUnexpected
  | WeightExceeded
  | VaultLimitExceeded
  | AllocationExceeded
  | InsufficientFunds
  | NoTargetWeights
  | NowhereToPlace
  | NoSuchChain
  | NegativeBalance

datatype policy_error =
    ZeroPortions
  | NotAuthorized
  | PolicyOutOfSync
  | BadObservations
  | ShapeMismatch
  | PermissionNotSupported
  | NoSuchAgent
  | DelegationInactive
  | AgentMismatch
  | FlowStillRunning
  | FlowAlreadyResolved
  | NoPendingOperation
  | PolicyChanged
  | MandateMissing
  | TargetMissing
  | EvmOwned
  | EvmOwnerRequired
  | PlannerDelegation
  | AutoFeatureDisabled
  | AllocationRequired

datatype wallet_error =
    BadEvmAddress
  | WrongOwner
  | WrongToken
  | BadRepresentative
  | DepositUnsupported
  | EmptyAllocations
  | NoOwnerTransfer
  | DeadlinePassed
  | DeadlineTooFar
  | AlreadyProvisioning
  | NotSigned
  | NotObservations
  | NotYetIssued
  | TooOld
  | HashMismatch
  | NonceUsed
  | MissingPermit
  | InvalidAgentId
  | NoSuchPortfolio

datatype error =
    StoreError store_error
  | PoolError pool_error
  | PlanError plan_error
  | PolicyError policy_error
  | WalletError wallet_error

abbreviation KeyNotFound :: error where "KeyNotFound \<equiv> StoreError store_error.KeyNotFound"
abbreviation KeyAlreadyRegistered :: error where "KeyAlreadyRegistered \<equiv> StoreError store_error.KeyAlreadyRegistered"
abbreviation AlreadySeen :: error where "AlreadySeen \<equiv> StoreError store_error.AlreadySeen"
abbreviation NoAdvancingTx :: error where "NoAdvancingTx \<equiv> StoreError store_error.NoAdvancingTx"
abbreviation AlreadyInProgress :: error where "AlreadyInProgress \<equiv> StoreError store_error.AlreadyInProgress"
abbreviation TxHashMismatch :: error where "TxHashMismatch \<equiv> StoreError store_error.TxHashMismatch"
abbreviation NotANat :: error where "NotANat \<equiv> StoreError store_error.NotANat"
abbreviation NonPositiveCount :: error where "NonPositiveCount \<equiv> StoreError store_error.NonPositiveCount"
abbreviation TargetExceeded :: error where "TargetExceeded \<equiv> StoreError store_error.TargetExceeded"
abbreviation MaxMatchDepth :: error where "MaxMatchDepth \<equiv> StoreError store_error.MaxMatchDepth"
abbreviation MalformedAccountId :: error where "MalformedAccountId \<equiv> StoreError store_error.MalformedAccountId"
abbreviation DivisionByZero :: error where "DivisionByZero \<equiv> StoreError store_error.DivisionByZero"
abbreviation InfiniteRatio :: error where "InfiniteRatio \<equiv> StoreError store_error.InfiniteRatio"
abbreviation AssertFailed :: error where "AssertFailed \<equiv> StoreError store_error.AssertFailed"

abbreviation CannotDeposit :: error where "CannotDeposit \<equiv> PoolError pool_error.CannotDeposit"
abbreviation UnexpectedAllocation :: error where "UnexpectedAllocation \<equiv> PoolError pool_error.UnexpectedAllocation"
abbreviation PoolInconsistent :: error where "PoolInconsistent \<equiv> PoolError pool_error.PoolInconsistent"
abbreviation CannotWithdraw :: error where "CannotWithdraw \<equiv> PoolError pool_error.CannotWithdraw"
abbreviation CannotBorrow :: error where "CannotBorrow \<equiv> PoolError pool_error.CannotBorrow"
abbreviation CannotRepay :: error where "CannotRepay \<equiv> PoolError pool_error.CannotRepay"
abbreviation RequestBelowFees :: error where "RequestBelowFees \<equiv> PoolError pool_error.RequestBelowFees"
abbreviation SeatExited :: error where "SeatExited \<equiv> PoolError pool_error.SeatExited"
abbreviation MissingKeyword :: error where "MissingKeyword \<equiv> PoolError pool_error.MissingKeyword"
abbreviation InsufficientAllocation :: error where "InsufficientAllocation \<equiv> PoolError pool_error.InsufficientAllocation"
abbreviation TransferMalformed :: error where "TransferMalformed \<equiv> PoolError pool_error.TransferMalformed"
abbreviation RightsNotConserved :: error where "RightsNotConserved \<equiv> PoolError pool_error.RightsNotConserved"
abbreviation OfferUnsafe :: error where "OfferUnsafe \<equiv> PoolError pool_error.OfferUnsafe"
abbreviation CannotCommit :: error where "CannotCommit \<equiv> PoolError pool_error.CannotCommit"
abbreviation ConflictingEvidence :: error where "ConflictingEvidence \<equiv> PoolError pool_error.ConflictingEvidence"
abbreviation OperatorDisabled :: error where "OperatorDisabled \<equiv> PoolError pool_error.OperatorDisabled"
abbreviation UnknownBech32Prefix :: error where "UnknownBech32Prefix \<equiv> PoolError pool_error.UnknownBech32Prefix"
abbreviation JsonSyntax :: error where "JsonSyntax \<equiv> PoolError pool_error.JsonSyntax"
abbreviation NotABigInt :: error where "NotABigInt \<equiv> PoolError pool_error.NotABigInt"
abbreviation BadAddressHook :: error where "BadAddressHook \<equiv> PoolError pool_error.BadAddressHook"

abbreviation InvalidNodeIndex :: error where "InvalidNodeIndex \<equiv> PlanError plan_error.InvalidNodeIndex"
abbreviation DependencyCycle :: error where "DependencyCycle \<equiv> PlanError plan_error.DependencyCycle"
abbreviation DependencyLoop :: error where "DependencyLoop \<equiv> PlanError plan_error.DependencyLoop"
abbreviation DuplicateNode :: error where "DuplicateNode \<equiv> PlanError plan_error.DuplicateNode"
abbreviation NotANode :: error where "NotANode \<equiv> PlanError plan_error.NotANode"
abbreviation Diverges :: error where "Diverges \<equiv> PlanError plan_error.Diverges"
abbreviation UnknownChain :: error where "UnknownChain \<equiv> PlanError plan_error.UnknownChain"
abbreviation BadPlaceRef :: error where "BadPlaceRef \<equiv> PlanError plan_error.BadPlaceRef"
abbreviation PlaceNotAllowed :: error where "PlaceNotAllowed \<equiv> PlanError plan_error.PlaceNotAllowed"
abbreviation PlanNotSupported :: error where "PlanNotSupported \<equiv> PlanError plan_error.PlanNotSupported"
abbreviation UnauthorizedPosition :: error where "UnauthorizedPosition \<equiv> PlanError plan_error.UnauthorizedPosition"
abbreviation UnfundedMovement :: error where "UnfundedMovement \<equiv> PlanError plan_error.UnfundedMovement"
abbreviation ObservationMissing :: error where "ObservationMissing \<equiv> PlanError plan_error.ObservationMissing"
abbreviation ObservationUnexpected :: error where "ObservationUnexpected \<equiv> PlanError plan_error.ObservationUnexpected"
abbreviation WeightExceeded :: error where "WeightExceeded \<equiv> PlanError plan_error.WeightExceeded"
abbreviation VaultLimitExceeded :: error where "VaultLimitExceeded \<equiv> PlanError plan_error.VaultLimitExceeded"
abbreviation AllocationExceeded :: error where "AllocationExceeded \<equiv> PlanError plan_error.AllocationExceeded"
abbreviation InsufficientFunds :: error where "InsufficientFunds \<equiv> PlanError plan_error.InsufficientFunds"
abbreviation NoTargetWeights :: error where "NoTargetWeights \<equiv> PlanError plan_error.NoTargetWeights"
abbreviation NowhereToPlace :: error where "NowhereToPlace \<equiv> PlanError plan_error.NowhereToPlace"
abbreviation NoSuchChain :: error where "NoSuchChain \<equiv> PlanError plan_error.NoSuchChain"
abbreviation NegativeBalance :: error where "NegativeBalance \<equiv> PlanError plan_error.NegativeBalance"

abbreviation ZeroPortions :: error where "ZeroPortions \<equiv> PolicyError policy_error.ZeroPortions"
abbreviation NotAuthorized :: error where "NotAuthorized \<equiv> PolicyError policy_error.NotAuthorized"
abbreviation PolicyOutOfSync :: error where "PolicyOutOfSync \<equiv> PolicyError policy_error.PolicyOutOfSync"
abbreviation BadObservations :: error where "BadObservations \<equiv> PolicyError policy_error.BadObservations"
abbreviation ShapeMismatch :: error where "ShapeMismatch \<equiv> PolicyError policy_error.ShapeMismatch"
abbreviation PermissionNotSupported :: error where "PermissionNotSupported \<equiv> PolicyError policy_error.PermissionNotSupported"
abbreviation NoSuchAgent :: error where "NoSuchAgent \<equiv> PolicyError policy_error.NoSuchAgent"
abbreviation DelegationInactive :: error where "DelegationInactive \<equiv> PolicyError policy_error.DelegationInactive"
abbreviation AgentMismatch :: error where "AgentMismatch \<equiv> PolicyError policy_error.AgentMismatch"
abbreviation FlowStillRunning :: error where "FlowStillRunning \<equiv> PolicyError policy_error.FlowStillRunning"
abbreviation FlowAlreadyResolved :: error where "FlowAlreadyResolved \<equiv> PolicyError policy_error.FlowAlreadyResolved"
abbreviation NoPendingOperation :: error where "NoPendingOperation \<equiv> PolicyError policy_error.NoPendingOperation"
abbreviation PolicyChanged :: error where "PolicyChanged \<equiv> PolicyError policy_error.PolicyChanged"
abbreviation MandateMissing :: error where "MandateMissing \<equiv> PolicyError policy_error.MandateMissing"
abbreviation TargetMissing :: error where "TargetMissing \<equiv> PolicyError policy_error.TargetMissing"
abbreviation EvmOwned :: error where "EvmOwned \<equiv> PolicyError policy_error.EvmOwned"
abbreviation EvmOwnerRequired :: error where "EvmOwnerRequired \<equiv> PolicyError policy_error.EvmOwnerRequired"
abbreviation PlannerDelegation :: error where "PlannerDelegation \<equiv> PolicyError policy_error.PlannerDelegation"
abbreviation AutoFeatureDisabled :: error where "AutoFeatureDisabled \<equiv> PolicyError policy_error.AutoFeatureDisabled"
abbreviation AllocationRequired :: error where "AllocationRequired \<equiv> PolicyError policy_error.AllocationRequired"

abbreviation BadEvmAddress :: error where "BadEvmAddress \<equiv> WalletError wallet_error.BadEvmAddress"
abbreviation WrongOwner :: error where "WrongOwner \<equiv> WalletError wallet_error.WrongOwner"
abbreviation WrongToken :: error where "WrongToken \<equiv> WalletError wallet_error.WrongToken"
abbreviation BadRepresentative :: error where "BadRepresentative \<equiv> WalletError wallet_error.BadRepresentative"
abbreviation DepositUnsupported :: error where "DepositUnsupported \<equiv> WalletError wallet_error.DepositUnsupported"
abbreviation EmptyAllocations :: error where "EmptyAllocations \<equiv> WalletError wallet_error.EmptyAllocations"
abbreviation NoOwnerTransfer :: error where "NoOwnerTransfer \<equiv> WalletError wallet_error.NoOwnerTransfer"
abbreviation DeadlinePassed :: error where "DeadlinePassed \<equiv> WalletError wallet_error.DeadlinePassed"
abbreviation DeadlineTooFar :: error where "DeadlineTooFar \<equiv> WalletError wallet_error.DeadlineTooFar"
abbreviation AlreadyProvisioning :: error where "AlreadyProvisioning \<equiv> WalletError wallet_error.AlreadyProvisioning"
abbreviation NotSigned :: error where "NotSigned \<equiv> WalletError wallet_error.NotSigned"
abbreviation NotObservations :: error where "NotObservations \<equiv> WalletError wallet_error.NotObservations"
abbreviation NotYetIssued :: error where "NotYetIssued \<equiv> WalletError wallet_error.NotYetIssued"
abbreviation TooOld :: error where "TooOld \<equiv> WalletError wallet_error.TooOld"
abbreviation HashMismatch :: error where "HashMismatch \<equiv> WalletError wallet_error.HashMismatch"
abbreviation NonceUsed :: error where "NonceUsed \<equiv> WalletError wallet_error.NonceUsed"
abbreviation MissingPermit :: error where "MissingPermit \<equiv> WalletError wallet_error.MissingPermit"
abbreviation InvalidAgentId :: error where "InvalidAgentId \<equiv> WalletError wallet_error.InvalidAgentId"
abbreviation NoSuchPortfolio :: error where "NoSuchPortfolio \<equiv> WalletError wallet_error.NoSuchPortfolio"

subsection \<open>Fallible expressions\<close>

definition bindr :: "error + 'a \<Rightarrow> ('a \<Rightarrow> error + 'b) \<Rightarrow> error + 'b" where
  "bindr r f = (case r of Inl e \<Rightarrow> Inl e | Inr x \<Rightarrow> f x)"

definition requirer :: "bool \<Rightarrow> error \<Rightarrow> error + unit" where
  "requirer b e = (if b then Inr () else Inl e)"

fun mapr :: "('a \<Rightarrow> error + 'b) \<Rightarrow> 'a list \<Rightarrow> error + 'b list" where
  "mapr f [] = Inr []"
| "mapr f (x # xs) = bindr (f x) (\<lambda>y. bindr (mapr f xs) (\<lambda>ys. Inr (y # ys)))"

lemma bindr_simps [simp]: "bindr (Inl e) f = Inl e" "bindr (Inr x) f = f x"
  by (simp_all add: bindr_def)

lemma bindr_Inr_iff: "bindr r f = Inr y \<longleftrightarrow> (\<exists>x. r = Inr x \<and> f x = Inr y)"
  by (cases r) auto

lemma requirer_simps [simp]: "requirer True e = Inr ()" "requirer False e = Inl e"
  by (simp_all add: requirer_def)

lemma requirer_Inr [simp]: "requirer b e = Inr u \<longleftrightarrow> b"
  by (simp add: requirer_def)

section \<open>Processes\<close>

text \<open>
  A method body reads and writes the state and then returns or throws. A throw does not
  undo the writes made before it, so the new state is returned with the exception.
\<close>

type_synonym ('s, 'a) proc = "'s \<Rightarrow> (error + 'a) \<times> 's"

definition ret :: "'a \<Rightarrow> ('s, 'a) proc" where
  "ret x = (\<lambda>s. (Inr x, s))"

definition throw :: "error \<Rightarrow> ('s, 'a) proc" where
  "throw e = (\<lambda>s. (Inl e, s))"

definition bindp :: "('s, 'a) proc \<Rightarrow> ('a \<Rightarrow> ('s, 'b) proc) \<Rightarrow> ('s, 'b) proc" where
  "bindp m f = (\<lambda>s. case m s of (Inl e, s') \<Rightarrow> (Inl e, s') | (Inr x, s') \<Rightarrow> f x s')"

definition thenp :: "('s, 'a) proc \<Rightarrow> ('s, 'b) proc \<Rightarrow> ('s, 'b) proc" where
  "thenp m k = bindp m (\<lambda>_. k)"

definition getsp :: "('s \<Rightarrow> 'a) \<Rightarrow> ('s, 'a) proc" where
  "getsp f = (\<lambda>s. (Inr (f s), s))"

definition modifyp :: "('s \<Rightarrow> 's) \<Rightarrow> ('s, unit) proc" where
  "modifyp f = (\<lambda>s. (Inr (), f s))"

definition requirep :: "bool \<Rightarrow> error \<Rightarrow> ('s, unit) proc" where
  "requirep b e = (if b then ret () else throw e)"

definition liftp :: "error + 'a \<Rightarrow> ('s, 'a) proc" where
  "liftp r = (\<lambda>s. (r, s))"

definition catchp :: "('s, 'a) proc \<Rightarrow> (error \<Rightarrow> ('s, 'a) proc) \<Rightarrow> ('s, 'a) proc" where
  "catchp m h = (\<lambda>s. case m s of (Inl e, s') \<Rightarrow> h e s' | (Inr x, s') \<Rightarrow> (Inr x, s'))"

definition whenp :: "bool \<Rightarrow> ('s, unit) proc \<Rightarrow> ('s, unit) proc" where
  "whenp b m = (if b then m else ret ())"

fun for_eachp :: "'a list \<Rightarrow> ('a \<Rightarrow> ('s, unit) proc) \<Rightarrow> ('s, unit) proc" where
  "for_eachp [] f = ret ()"
| "for_eachp (x # xs) f = thenp (f x) (for_eachp xs f)"

text \<open>Running a method of a component on its part of a larger state.\<close>

definition zoomp :: "('s \<Rightarrow> 'p) \<Rightarrow> ('p \<Rightarrow> 's \<Rightarrow> 's) \<Rightarrow> ('p, 'a) proc \<Rightarrow> ('s, 'a) proc" where
  "zoomp get put m = (\<lambda>s. case m (get s) of (r, p) \<Rightarrow> (r, put p s))"

text \<open>\<open>try { m } finally { k }\<close>: \<open>k\<close> runs either way; its own throw wins.\<close>

definition finallyp :: "('s, 'a) proc \<Rightarrow> ('s, unit) proc \<Rightarrow> ('s, 'a) proc" where
  "finallyp m k = (\<lambda>s. case m s of (r, s') \<Rightarrow>
     (case k s' of (Inl e, s'') \<Rightarrow> (Inl e, s'') | (Inr _, s'') \<Rightarrow> (r, s'')))"

lemma zoomp_apply [proc_simps, simp]: "zoomp get put m s = (case m (get s) of (r, p) \<Rightarrow> (r, put p s))"
  by (simp add: zoomp_def)

lemma finallyp_apply [proc_simps, simp]:
  "finallyp m k s = (case m s of (r, s') \<Rightarrow>
     (case k s' of (q, s'') \<Rightarrow> (case q of Inl e \<Rightarrow> (Inl e, s'') | Inr _ \<Rightarrow> (r, s''))))"
  by (simp add: finallyp_def split: prod.splits sum.splits)

lemma ret_apply [proc_simps, simp]: "ret x s = (Inr x, s)"
  by (simp add: ret_def)

lemma throw_apply [proc_simps, simp]: "throw e s = (Inl e, s)"
  by (simp add: throw_def)

lemma bindp_apply [proc_simps, simp]:
  "bindp m f s = (case m s of (r, s') \<Rightarrow> (case r of Inl e \<Rightarrow> (Inl e, s') | Inr x \<Rightarrow> f x s'))"
  by (simp add: bindp_def split: prod.splits sum.splits)

lemma thenp_apply [proc_simps, simp]:
  "thenp m k s = (case m s of (r, s') \<Rightarrow> (case r of Inl e \<Rightarrow> (Inl e, s') | Inr x \<Rightarrow> k s'))"
  by (simp add: thenp_def)

lemma getsp_apply [proc_simps, simp]: "getsp f s = (Inr (f s), s)"
  by (simp add: getsp_def)

lemma modifyp_apply [proc_simps, simp]: "modifyp f s = (Inr (), f s)"
  by (simp add: modifyp_def)

lemma requirep_apply [proc_simps, simp]: "requirep b e s = (if b then Inr () else Inl e, s)"
  by (simp add: requirep_def)

lemma liftp_apply [proc_simps, simp]: "liftp r s = (r, s)"
  by (simp add: liftp_def)

lemma catchp_apply [proc_simps, simp]:
  "catchp m h s = (case m s of (r, s') \<Rightarrow> (case r of Inl e \<Rightarrow> h e s' | Inr x \<Rightarrow> (Inr x, s')))"
  by (simp add: catchp_def split: prod.splits sum.splits)

lemma whenp_apply [proc_simps, simp]: "whenp b m s = (if b then m s else (Inr (), s))"
  by (simp add: whenp_def)

subsection \<open>Invariants of processes\<close>

definition keeps :: "('s \<Rightarrow> bool) \<Rightarrow> ('s, 'a) proc \<Rightarrow> bool" where
  "keeps I m \<longleftrightarrow> (\<forall>s. I s \<longrightarrow> I (snd (m s)))"

lemma keepsI: "(\<And>s. I s \<Longrightarrow> I (snd (m s))) \<Longrightarrow> keeps I m"
  by (simp add: keeps_def)

lemma keepsD: "keeps I m \<Longrightarrow> I s \<Longrightarrow> I (snd (m s))"
  by (simp add: keeps_def)

lemma keeps_ret [keeps_intros]: "keeps I (ret x)"
  and keeps_throw [keeps_intros]: "keeps I (throw e)"
  and keeps_getsp [keeps_intros]: "keeps I (getsp f)"
  and keeps_liftp [keeps_intros]: "keeps I (liftp r)"
  and keeps_requirep [keeps_intros]: "keeps I (requirep b e)"
  by (simp_all add: keeps_def)

lemma keeps_modifyp: "(\<And>s. I s \<Longrightarrow> I (f s)) \<Longrightarrow> keeps I (modifyp f)"
  by (simp add: keeps_def)

lemma keeps_bindp [keeps_intros]: "keeps I m \<Longrightarrow> (\<And>x. keeps I (f x)) \<Longrightarrow> keeps I (bindp m f)"
  by (auto simp: keeps_def split: prod.splits sum.splits)

lemma keeps_thenp [keeps_intros]: "keeps I m \<Longrightarrow> keeps I k \<Longrightarrow> keeps I (thenp m k)"
  by (simp add: thenp_def keeps_bindp)

lemma keeps_catchp [keeps_intros]: "keeps I m \<Longrightarrow> (\<And>e. keeps I (h e)) \<Longrightarrow> keeps I (catchp m h)"
  by (auto simp: keeps_def split: prod.splits sum.splits)

lemma keeps_whenp [keeps_intros]: "(b \<Longrightarrow> keeps I m) \<Longrightarrow> keeps I (whenp b m)"
  by (simp add: keeps_def)

lemma keeps_for_eachp [keeps_intros]: "(\<And>x. x \<in> set xs \<Longrightarrow> keeps I (f x)) \<Longrightarrow> keeps I (for_eachp xs f)"
  by (induction xs) (auto intro!: keeps_intros)

lemma keeps_finallyp [keeps_intros]: "keeps I m \<Longrightarrow> keeps I k \<Longrightarrow> keeps I (finallyp m k)"
  unfolding keeps_def finallyp_def by (force split: prod.splits sum.splits)

lemma keeps_conj: "keeps I m \<Longrightarrow> keeps J m \<Longrightarrow> keeps (\<lambda>s. I s \<and> J s) m"
  by (simp add: keeps_def)

lemma keeps_case_sum [keeps_intros]: "(\<And>e. keeps I (f e)) \<Longrightarrow> (\<And>x. keeps I (g x)) \<Longrightarrow> keeps I (case r of Inl e \<Rightarrow> f e | Inr x \<Rightarrow> g x)"
  by (cases r) simp_all

lemma keeps_case_option [keeps_intros]: "keeps I f \<Longrightarrow> (\<And>x. keeps I (g x)) \<Longrightarrow> keeps I (case r of None \<Rightarrow> f | Some x \<Rightarrow> g x)"
  by (cases r) simp_all

lemma keeps_case_prod [keeps_intros]: "(\<And>a b. keeps I (f a b)) \<Longrightarrow> keeps I (case p of (a, b) \<Rightarrow> f a b)"
  by (cases p) simp

lemma keeps_if [keeps_intros]: "(b \<Longrightarrow> keeps I m) \<Longrightarrow> (\<not> b \<Longrightarrow> keeps I k) \<Longrightarrow> keeps I (if b then m else k)"
  by simp

section \<open>State machines\<close>

text \<open>
  The contract shared by the components that are state machines: an invariant that holds
  initially and that every step keeps holds in every reachable state.
\<close>

locale machine =
  fixes start :: "'s \<Rightarrow> bool"
    and step :: "'s \<Rightarrow> 's \<Rightarrow> bool"
    and inv :: "'s \<Rightarrow> bool"
  assumes inv_start: "start s \<Longrightarrow> inv s"
    and inv_step: "step s t \<Longrightarrow> inv s \<Longrightarrow> inv t"
begin

lemma inv_steps: "step\<^sup>*\<^sup>* s t \<Longrightarrow> inv s \<Longrightarrow> inv t"
  by (induction rule: rtranclp_induct) (auto intro: inv_step)

lemma inv_reachable: "start s \<Longrightarrow> step\<^sup>*\<^sup>* s t \<Longrightarrow> inv t"
  by (blast intro: inv_steps inv_start)

end

end
