(* ===== verification/RouteHealth.thy ===== *)
theory RouteHealth
  imports Prelude
begin

text \<open>
  The relayer-route health tracker (\<open>utils/route-health.ts\<close>): a heap map of consecutive
  failures per chain, with event handlers called on every report and on the transitions
  between the Working and Derelict states. The handlers act on the rest of the contract's
  state, the type parameter \<open>'w\<close>; they can read the failure counts through
  \<open>isWorking\<close>, so they receive the counts as they stand when they are called.
\<close>

type_synonym chain_id = string
type_synonym failures = "chain_id \<rightharpoonup> nat"

section \<open>State, handlers, operations\<close>

record 'w event_handler =
  onEachFailure :: "chain_id \<Rightarrow> failures \<Rightarrow> 'w \<Rightarrow> 'w"
  onEachSuccess :: "chain_id \<Rightarrow> failures \<Rightarrow> 'w \<Rightarrow> 'w"
  onWorking :: "chain_id \<Rightarrow> failures \<Rightarrow> 'w \<Rightarrow> 'w"
  onDerelict :: "chain_id \<Rightarrow> failures \<Rightarrow> 'w \<Rightarrow> 'w"

text \<open>A \<open>Partial<EventHandler>\<close>: each callback may be absent.\<close>

record 'w partial_handler =
  cbEachFailure :: "(chain_id \<Rightarrow> failures \<Rightarrow> 'w \<Rightarrow> 'w) option"
  cbEachSuccess :: "(chain_id \<Rightarrow> failures \<Rightarrow> 'w \<Rightarrow> 'w) option"
  cbWorking :: "(chain_id \<Rightarrow> failures \<Rightarrow> 'w \<Rightarrow> 'w) option"
  cbDerelict :: "(chain_id \<Rightarrow> failures \<Rightarrow> 'w \<Rightarrow> 'w) option"

definition default_handlers :: "'w event_handler" where
  "default_handlers = \<lparr>onEachFailure = (\<lambda>_ _ w. w), onEachSuccess = (\<lambda>_ _ w. w),
     onWorking = (\<lambda>_ _ w. w), onDerelict = (\<lambda>_ _ w. w)\<rparr>"

definition override :: "'a \<Rightarrow> 'a option \<Rightarrow> 'a" where
  "override x y = (case y of None \<Rightarrow> x | Some v \<Rightarrow> v)"

definition setEventHandlers :: "'w event_handler \<Rightarrow> 'w partial_handler \<Rightarrow> 'w event_handler" where
  "setEventHandlers h cb =
     \<lparr>onEachFailure = override (onEachFailure h) (cbEachFailure cb),
      onEachSuccess = override (onEachSuccess h) (cbEachSuccess cb),
      onWorking = override (onWorking h) (cbWorking cb),
      onDerelict = override (onDerelict h) (cbDerelict cb)\<rparr>"

definition getFailureCount :: "failures \<Rightarrow> chain_id \<Rightarrow> nat" where
  "getFailureCount f route = (case f route of None \<Rightarrow> 0 | Some n \<Rightarrow> n)"

definition isWorking :: "nat \<Rightarrow> failures \<Rightarrow> chain_id \<Rightarrow> bool" where
  "isWorking maxFailures f route \<longleftrightarrow> getFailureCount f route < maxFailures"

definition noteFailure ::
  "nat \<Rightarrow> 'w event_handler \<Rightarrow> chain_id \<Rightarrow> failures \<times> 'w \<Rightarrow> failures \<times> 'w" where
  "noteFailure maxFailures h route fw =
     (let (f, w) = fw;
          oldCount = getFailureCount f route;
          newCount = oldCount + 1;
          f' = f(route \<mapsto> newCount);
          w' = onEachFailure h route f' w
      in (f', if newCount = maxFailures \<and> oldCount < maxFailures
              then onDerelict h route f' w' else w'))"

definition noteSuccess ::
  "nat \<Rightarrow> 'w event_handler \<Rightarrow> chain_id \<Rightarrow> failures \<times> 'w \<Rightarrow> failures \<times> 'w" where
  "noteSuccess maxFailures h route fw =
     (let (f, w) = fw;
          oldCount = getFailureCount f route;
          f' = f(route := None);
          w' = onEachSuccess h route f' w
      in (f', if oldCount \<ge> maxFailures then onWorking h route f' w' else w'))"

section \<open>Basic lemmas\<close>

lemma getFailureCount_upd [simp]:
  "getFailureCount (f(r \<mapsto> n)) r' = (if r' = r then n else getFailureCount f r')"
  "getFailureCount (f(r := None)) r' = (if r' = r then 0 else getFailureCount f r')"
  "getFailureCount Map.empty r' = 0"
  by (simp_all add: getFailureCount_def)

lemma fst_noteFailure: "fst (noteFailure m h r (f, w)) = f(r \<mapsto> getFailureCount f r + 1)"
  by (simp add: noteFailure_def Let_def)

lemma fst_noteSuccess: "fst (noteSuccess m h r (f, w)) = f(r := None)"
  by (simp add: noteSuccess_def Let_def)

lemma count_noteFailure [simp]:
  "getFailureCount (fst (noteFailure m h r fw)) r' =
     (if r' = r then Suc (getFailureCount (fst fw) r) else getFailureCount (fst fw) r')"
  by (cases fw) (simp add: fst_noteFailure)

lemma count_noteSuccess [simp]:
  "getFailureCount (fst (noteSuccess m h r fw)) r' =
     (if r' = r then 0 else getFailureCount (fst fw) r')"
  by (cases fw) (simp add: fst_noteSuccess)

lemma setEventHandlers_absent:
  "setEventHandlers h \<lparr>cbEachFailure = None, cbEachSuccess = None, cbWorking = None, cbDerelict = None\<rparr> = h"
  by (simp add: setEventHandlers_def override_def)

section \<open>Runs of reports\<close>

text \<open>A report is a chain and whether its transfer succeeded.\<close>

type_synonym report = "chain_id \<times> bool"

definition noteReport :: "nat \<Rightarrow> 'w event_handler \<Rightarrow> report \<Rightarrow> failures \<times> 'w \<Rightarrow> failures \<times> 'w" where
  "noteReport m h rep = (if snd rep then noteSuccess m h (fst rep) else noteFailure m h (fst rep))"

fun note_all :: "nat \<Rightarrow> 'w event_handler \<Rightarrow> report list \<Rightarrow> failures \<times> 'w \<Rightarrow> failures \<times> 'w" where
  "note_all m h [] fw = fw"
| "note_all m h (rep # reps) fw = note_all m h reps (noteReport m h rep fw)"

text \<open>The specification: the number of failures of a route since its last success.\<close>

definition streak :: "chain_id \<Rightarrow> report list \<Rightarrow> nat" where
  "streak r reps = length (takeWhile (\<lambda>rep. \<not> snd rep) (rev (filter (\<lambda>rep. fst rep = r) reps)))"

lemma note_all_append: "note_all m h (xs @ ys) fw = note_all m h ys (note_all m h xs fw)"
  by (induction xs arbitrary: fw) auto

lemma streak_snoc:
  "streak r (reps @ [rep]) =
     (if fst rep = r then (if snd rep then 0 else Suc (streak r reps)) else streak r reps)"
  by (simp add: streak_def)

lemma count_note_all: "getFailureCount (fst (note_all m h reps (Map.empty, w))) r = streak r reps"
proof (induction reps rule: rev_induct)
  case Nil
  then show ?case by (simp add: streak_def)
next
  case (snoc rep reps)
  then show ?case by (auto simp: note_all_append noteReport_def streak_snoc)
qed

section \<open>Transition events\<close>

datatype route_event = EachFailure chain_id | EachSuccess chain_id | Working chain_id | Derelict chain_id

text \<open>Handlers that only record the events they are called for.\<close>

definition recorder :: "route_event list event_handler" where
  "recorder = \<lparr>onEachFailure = (\<lambda>r _ w. w @ [EachFailure r]), onEachSuccess = (\<lambda>r _ w. w @ [EachSuccess r]),
     onWorking = (\<lambda>r _ w. w @ [Working r]), onDerelict = (\<lambda>r _ w. w @ [Derelict r])\<rparr>"

lemma noteFailure_events:
  "snd (noteFailure m recorder r (f, w)) =
     w @ EachFailure r #
       (if isWorking m f r \<and> \<not> isWorking m (fst (noteFailure m recorder r (f, w))) r then [Derelict r] else [])"
  by (auto simp: noteFailure_def Let_def recorder_def isWorking_def)

lemma noteSuccess_events:
  "snd (noteSuccess m recorder r (f, w)) =
     w @ EachSuccess r # (if isWorking m f r then [] else [Working r])"
  by (auto simp: noteSuccess_def Let_def recorder_def isWorking_def)

section \<open>Properties\<close>

text \<open>after any sequence of success and failure reports, a route is working exactly when
  the number of its failures since its last success is below the threshold, whatever the
  handlers do.\<close>

theorem route_working_iff_streak:
  "isWorking maxF (fst (note_all maxF h reps (Map.empty, w))) route \<longleftrightarrow> streak route reps < maxF"
  by (simp add: isWorking_def count_note_all)

text \<open>A report calls the per-report handler always, and the transition handlers exactly
  when the route crosses the threshold: \<open>onDerelict\<close> when it stops working and
  \<open>onWorking\<close> when a success finds it derelict.\<close>

theorem route_transition_events:
  "snd (noteFailure m recorder r (f, w)) =
     w @ EachFailure r #
       (if isWorking m f r \<and> \<not> isWorking m (fst (noteFailure m recorder r (f, w))) r then [Derelict r] else [])
   \<and> snd (noteSuccess m recorder r (f, w)) =
     w @ EachSuccess r # (if isWorking m f r then [] else [Working r])"
  using noteFailure_events noteSuccess_events by blast

end
