(* ===== verification/Store.thy ===== *)
theory Store
  imports Prelude
begin

text \<open>
  The durable collections the contract keeps its state in: \<open>MapStore\<close> and \<open>SetStore\<close>
  (\<open>packages/swingset-liveslots/src/collectionManager.js\<close>). A store iterates in the rank
  order of its keys, so it is modelled as an association list kept sorted by key;
  \<open>init\<close>, \<open>get\<close>, \<open>set\<close> and \<open>delete\<close> throw as the collection does. The locale
  \<open>map_interface\<close> states the laws every client relies on.
\<close>

type_synonym ('k, 'v) mapstore = "('k \<times> 'v) list"

section \<open>Raw entry operations\<close>

fun put_entry :: "'k::linorder \<Rightarrow> 'v \<Rightarrow> ('k, 'v) mapstore \<Rightarrow> ('k, 'v) mapstore" where
  "put_entry k v [] = [(k, v)]"
| "put_entry k v ((k', v') # s) =
     (if k < k' then (k, v) # (k', v') # s
      else if k = k' then (k, v) # s
      else (k', v') # put_entry k v s)"

definition drop_entry :: "'k \<Rightarrow> ('k, 'v) mapstore \<Rightarrow> ('k, 'v) mapstore" where
  "drop_entry k s = filter (\<lambda>(k', _). k' \<noteq> k) s"

definition store_ok :: "('k::linorder, 'v) mapstore \<Rightarrow> bool" where
  "store_ok s \<longleftrightarrow> sorted_wrt (<) (map fst s)"

section \<open>The MapStore methods\<close>

definition store_has :: "('k, 'v) mapstore \<Rightarrow> 'k \<Rightarrow> bool" where
  "store_has s k \<longleftrightarrow> map_of s k \<noteq> None"

definition store_get :: "('k, 'v) mapstore \<Rightarrow> 'k \<Rightarrow> error + 'v" where
  "store_get s k = (case map_of s k of None \<Rightarrow> Inl KeyNotFound | Some v \<Rightarrow> Inr v)"

definition store_init :: "('k::linorder, 'v) mapstore \<Rightarrow> 'k \<Rightarrow> 'v \<Rightarrow> error + ('k, 'v) mapstore" where
  "store_init s k v = (if store_has s k then Inl KeyAlreadyRegistered else Inr (put_entry k v s))"

definition store_set :: "('k::linorder, 'v) mapstore \<Rightarrow> 'k \<Rightarrow> 'v \<Rightarrow> error + ('k, 'v) mapstore" where
  "store_set s k v = (if store_has s k then Inr (put_entry k v s) else Inl KeyNotFound)"

definition store_delete :: "('k, 'v) mapstore \<Rightarrow> 'k \<Rightarrow> error + ('k, 'v) mapstore" where
  "store_delete s k = (if store_has s k then Inr (drop_entry k s) else Inl KeyNotFound)"

definition store_keys :: "('k, 'v) mapstore \<Rightarrow> 'k list" where
  "store_keys s = map fst s"

definition store_values :: "('k, 'v) mapstore \<Rightarrow> 'v list" where
  "store_values s = map snd s"

definition store_size :: "('k, 'v) mapstore \<Rightarrow> nat" where
  "store_size s = length s"

text \<open>A \<open>SetStore\<close> is a store of units; adding a member twice is allowed.\<close>

definition set_add :: "('k::linorder, unit) mapstore \<Rightarrow> 'k \<Rightarrow> ('k, unit) mapstore" where
  "set_add s k = (if store_has s k then s else put_entry k () s)"

text \<open>Reading and writing a store that is part of a larger state.\<close>

definition readStore :: "('s \<Rightarrow> ('k, 'v) mapstore) \<Rightarrow> 'k \<Rightarrow> ('s, 'v) proc" where
  "readStore get k = (\<lambda>s. (store_get (get s) k, s))"

definition writeStore :: "('s \<Rightarrow> 'm) \<Rightarrow> ('m \<Rightarrow> 's \<Rightarrow> 's) \<Rightarrow> ('m \<Rightarrow> error + 'm) \<Rightarrow> ('s, unit) proc" where
  "writeStore get put f = (\<lambda>s. case f (get s) of Inl e \<Rightarrow> (Inl e, s) | Inr m \<Rightarrow> (Inr (), put m s))"

lemma readStore_apply [proc_simps, simp]: "readStore get k s = (store_get (get s) k, s)"
  by (simp add: readStore_def)

lemma writeStore_apply [proc_simps, simp]:
  "writeStore get put f s = (case f (get s) of Inl e \<Rightarrow> (Inl e, s) | Inr m \<Rightarrow> (Inr (), put m s))"
  by (simp add: writeStore_def)

section \<open>Laws\<close>

lemma map_of_put_entry [store_simps, simp]: "map_of (put_entry k v s) = (map_of s)(k \<mapsto> v)"
  by (induction k v s rule: put_entry.induct) auto

lemma map_of_drop_entry [store_simps, simp]: "map_of (drop_entry k s) = (map_of s)(k := None)"
  by (induction s) (auto simp: drop_entry_def)

lemma store_has_put_entry [store_simps, simp]: "store_has (put_entry k v s) k' \<longleftrightarrow> k' = k \<or> store_has s k'"
  by (simp add: store_has_def)

lemma store_has_drop_entry [store_simps, simp]: "store_has (drop_entry k s) k' \<longleftrightarrow> k' \<noteq> k \<and> store_has s k'"
  by (simp add: store_has_def)

lemma store_has_Nil [simp]: "\<not> store_has [] k"
  by (simp add: store_has_def)

lemma store_has_iff: "store_has s k \<longleftrightarrow> (\<exists>v. map_of s k = Some v)"
  by (auto simp: store_has_def)

lemma store_has_set_add [store_simps, simp]: "store_has (set_add s k) k' \<longleftrightarrow> k' = k \<or> store_has s k'"
  by (auto simp: set_add_def)

lemma set_put_entry_subset: "set (put_entry k v s) \<subseteq> insert (k, v) (set s)"
  by (induction k v s rule: put_entry.induct) auto

lemma fst_set_put_entry: "fst ` set (put_entry k v s) = insert k (fst ` set s)"
  by (induction k v s rule: put_entry.induct) auto

lemma set_drop_entry: "set (drop_entry k s) = {e \<in> set s. fst e \<noteq> k}"
  by (auto simp: drop_entry_def)

lemma store_ok_Nil [simp]: "store_ok []"
  by (simp add: store_ok_def)

lemma store_ok_put_entry [intro]: "store_ok s \<Longrightarrow> store_ok (put_entry k v s)"
proof (induction k v s rule: put_entry.induct)
  case (2 k v k' v' s)
  have "fst ` set (put_entry k v s) = insert k (fst ` set s)"
    by (rule fst_set_put_entry)
  with 2 show ?case by (auto simp: store_ok_def)
qed (simp add: store_ok_def)

lemma store_ok_drop_entry [intro]: "store_ok s \<Longrightarrow> store_ok (drop_entry k s)"
  by (induction s) (auto simp: store_ok_def drop_entry_def)

lemma store_ok_distinct: "store_ok s \<Longrightarrow> distinct (map fst s)"
  by (simp add: store_ok_def strict_sorted_iff)

lemma store_ok_map_of_iff: "store_ok s \<Longrightarrow> map_of s k = Some v \<longleftrightarrow> (k, v) \<in> set s"
  by (simp add: store_ok_distinct)

text \<open>The two-entry order \<open>put\<close> produces does not depend on the order of the puts.\<close>

lemma store_ext: "store_ok s \<Longrightarrow> store_ok t \<Longrightarrow> map_of s = map_of t \<Longrightarrow> s = t"
proof -
  assume ok: "store_ok s" "store_ok t" and eq: "map_of s = map_of t"
  have "sorted (map fst s)" "sorted (map fst t)" "distinct (map fst s)" "distinct (map fst t)"
    using ok by (auto simp: store_ok_def strict_sorted_iff)
  moreover have "set s = set t"
    using ok eq by (simp add: map_of_inject_set store_ok_distinct)
  ultimately show "s = t"
    by (intro map_sorted_distinct_set_unique [where f = fst]) (auto simp: eq_key_imp_eq_value distinct_map)
qed

subsection \<open>The interface of a map\<close>

text \<open>
  What the components rely on when they keep state in a keyed store: the lookup after each
  update. Proved once here for any such interface; the model's stores interpret it.
\<close>

locale map_interface =
  fixes lookup :: "'m \<Rightarrow> 'k \<Rightarrow> 'v option"
    and put :: "'k \<Rightarrow> 'v \<Rightarrow> 'm \<Rightarrow> 'm"
    and del :: "'k \<Rightarrow> 'm \<Rightarrow> 'm"
  assumes lookup_put: "lookup (put k v m) k' = (if k' = k then Some v else lookup m k')"
    and lookup_del: "lookup (del k m) k' = (if k' = k then None else lookup m k')"
begin

definition holds_all :: "('k \<Rightarrow> 'v \<Rightarrow> bool) \<Rightarrow> 'm \<Rightarrow> bool" where
  "holds_all P m \<longleftrightarrow> (\<forall>k v. lookup m k = Some v \<longrightarrow> P k v)"

lemma holds_allD: "holds_all P m \<Longrightarrow> lookup m k = Some v \<Longrightarrow> P k v"
  by (simp add: holds_all_def)

lemma holds_all_put: "holds_all P m \<Longrightarrow> P k v \<Longrightarrow> holds_all P (put k v m)"
  by (simp add: holds_all_def lookup_put)

lemma holds_all_del: "holds_all P m \<Longrightarrow> holds_all P (del k m)"
  by (simp add: holds_all_def lookup_del)

lemma put_put_lookup: "lookup (put k v (put k w m)) k' = lookup (put k v m) k'"
  by (simp add: lookup_put)

lemma del_put_lookup: "lookup m k = None \<Longrightarrow> lookup (del k (put k v m)) k' = lookup m k'"
  by (simp add: lookup_del lookup_put)

end

interpretation ms: map_interface map_of put_entry drop_entry
  by unfold_locales simp_all

end
