(* ===== verification/Types.thy ===== *)
theory Types
  imports Store
begin

text \<open>
  The data of the Fast USDC contract (\<open>packages/fast-usdc/src/types.ts\<close>,
  \<open>constants.js\<close>, \<open>fast-usdc-contract/src/typeGuards.ts\<close>): transaction evidence, the
  status values, pending transactions, failed forwards and the records published to
  vstorage; and the CAIP-10 account identifiers of \<open>orchestration/src/utils/address.js\<close>.
  A \<open>bigint\<close> is an \<open>int\<close>; the guards \<open>M.nat()\<close> become well-formedness predicates.
\<close>

type_synonym evm_hash = string
type_synonym noble_address = string
type_synonym account_id = string

section \<open>Statuses\<close>

datatype pending_status = Advancing | AdvanceFailed | Advanced | AdvanceSkipped

datatype tx_status =
    Observed
  | Pending pending_status
  | Disbursed
  | ForwardedSkipped
  | Forwarded
  | ForwardFailed

fun TerminalTxStatus :: "tx_status \<Rightarrow> bool" where
  "TerminalTxStatus Forwarded = True"
| "TerminalTxStatus ForwardFailed = True"
| "TerminalTxStatus Disbursed = True"
| "TerminalTxStatus _ = False"

section \<open>Evidence\<close>

record cctp_aux =
  forwardingChannel :: string
  recipientAddress :: string

record cctp_tx =
  amount :: int
  forwardingAddress :: noble_address
  sender :: string

record evidence =
  aux :: cctp_aux
  blockHash :: evm_hash
  blockNumber :: int
  blockTimestamp :: int
  evmChainId :: int
  tx :: cctp_tx
  txHash :: evm_hash

record pending_tx = evidence +
  status :: pending_status

text \<open>\<open>{ ...evidence, status }\<close>\<close>

definition with_status :: "evidence \<Rightarrow> pending_status \<Rightarrow> pending_tx" where
  "with_status ev st = evidence.extend ev \<lparr>status = st\<rparr>"

abbreviation tx_amount :: "'a evidence_scheme \<Rightarrow> int" where
  "tx_amount p \<equiv> amount (tx p)"

abbreviation tx_nfa :: "'a evidence_scheme \<Rightarrow> noble_address" where
  "tx_nfa p \<equiv> forwardingAddress (tx p)"

text \<open>The \<open>M.nat()\<close> fields of \<open>CctpTxEvidenceShape\<close>.\<close>

definition evidence_shape :: "'a evidence_scheme \<Rightarrow> bool" where
  "evidence_shape ev \<longleftrightarrow> tx_amount ev \<ge> 0 \<and> blockNumber ev \<ge> 0 \<and> blockTimestamp ev \<ge> 0"

lemma with_status_sel [simp]:
  "tx (with_status ev st) = tx ev" "txHash (with_status ev st) = txHash ev"
  "aux (with_status ev st) = aux ev" "status (with_status ev st) = st"
  "blockNumber (with_status ev st) = blockNumber ev" "blockTimestamp (with_status ev st) = blockTimestamp ev"
  by (simp_all add: with_status_def evidence.extend_def)

lemma evidence_shape_with_status [simp]: "evidence_shape (with_status ev st) = evidence_shape ev"
  by (simp add: evidence_shape_def)

record risk_assessment =
  risksIdentified :: "string list option"

record evidence_with_risk =
  evidence :: evidence
  risk :: risk_assessment

section \<open>Repayment splits\<close>

record repay_split =
  Principal :: int
  PoolFee :: int
  ContractFee :: int
  RelayFee :: int

section \<open>CAIP-10 account identifiers\<close>

text \<open>\<open>s.split(':')\<close> on a string, for a one-character separator.\<close>

fun split_on :: "char \<Rightarrow> string \<Rightarrow> string list" where
  "split_on c [] = [[]]"
| "split_on c (x # xs) =
     (if x = c then [] # split_on c xs
      else case split_on c xs of [] \<Rightarrow> [[x]] | w # ws \<Rightarrow> (x # w) # ws)"

record caip10 =
  namespace :: string
  reference :: string
  accountAddress :: string

definition parseAccountId :: "account_id \<Rightarrow> error + caip10" where
  "parseAccountId accountId =
     (case split_on CHR '':'' accountId of
        [ns, rf, ad] \<Rightarrow> Inr \<lparr>namespace = ns, reference = rf, accountAddress = ad\<rparr>
      | _ \<Rightarrow> Inl MalformedAccountId)"

text \<open>
  An \<open>AccountIdArg\<close> is a CAIP-10 string or a \<open>CosmosChainAddress\<close> record.
\<close>

datatype account_id_arg = AccountId account_id | CosmosAddress (chainId: string) (addrValue: string)

definition coerceAccountId :: "account_id_arg \<Rightarrow> account_id" where
  "coerceAccountId idArg =
     (case idArg of
        AccountId s \<Rightarrow> s
      | CosmosAddress c v \<Rightarrow> ''cosmos:'' @ c @ '':'' @ v)"

definition parseAccountIdArg :: "account_id_arg \<Rightarrow> error + caip10" where
  "parseAccountIdArg idArg =
     (case idArg of
        AccountId s \<Rightarrow> parseAccountId s
      | CosmosAddress c v \<Rightarrow> Inr \<lparr>namespace = ''cosmos'', reference = c, accountAddress = v\<rparr>)"

definition chainOfAccount :: "account_id \<Rightarrow> error + string" where
  "chainOfAccount acct =
     map_sum id (\<lambda>p. namespace p @ '':'' @ reference p) (parseAccountId acct)"

lemma split_on_neq_Nil: "split_on c s \<noteq> []"
  by (induction s) (auto split: list.splits)

lemma split_on_single: "c \<notin> set s \<Longrightarrow> split_on c s = [s]"
  by (induction s) auto

lemma split_on_append: "c \<notin> set s \<Longrightarrow> split_on c (s @ c # t) = s # split_on c t"
  by (induction s) auto

lemma parseAccountId_join:
  "CHR '':'' \<notin> set n \<Longrightarrow> CHR '':'' \<notin> set r \<Longrightarrow> CHR '':'' \<notin> set a \<Longrightarrow>
     parseAccountId (n @ '':'' @ r @ '':'' @ a) = Inr \<lparr>namespace = n, reference = r, accountAddress = a\<rparr>"
  by (simp add: parseAccountId_def split_on_append split_on_single)

lemma split_on_join: "concat (map (\<lambda>w. w @ [c]) (butlast (split_on c s))) @ last (split_on c s) = s"
proof (induction s)
  case Nil
  then show ?case by simp
next
  case (Cons x s)
  obtain w ws where ws: "split_on c s = w # ws" by (cases "split_on c s") (auto simp: split_on_neq_Nil)
  with Cons.IH show ?case by (auto split: if_splits)
qed

text \<open>Parsing inverts: the three parts of a parsed identifier join back to it.\<close>

lemma parseAccountId_parts:
  "parseAccountId s = Inr p \<Longrightarrow> s = namespace p @ '':'' @ reference p @ '':'' @ accountAddress p"
  using split_on_join [of "CHR '':''" s]
  by (auto simp: parseAccountId_def split: list.splits)

text \<open>A Cosmos address record and its coerced string denote the same account.\<close>

lemma parse_coerce_CosmosAddress:
  "CHR '':'' \<notin> set c \<Longrightarrow> CHR '':'' \<notin> set v \<Longrightarrow>
     parseAccountId (coerceAccountId (CosmosAddress c v)) = parseAccountIdArg (CosmosAddress c v)"
  using parseAccountId_join [of "''cosmos''" c v]
  by (simp add: coerceAccountId_def parseAccountIdArg_def)

section \<open>Failed forwards and published records\<close>

record forward_failed_tx =
  fwDestination :: account_id
  fwAmount :: int
  fwTxHash :: evm_hash
  fundsInNobleIca :: "bool option"
  fwChainId :: "string option"

text \<open>What \<open>publishTxnRecord\<close> writes under a transaction's vstorage node.\<close>

record txn_record =
  recEvidence :: "evidence option"
  recSplit :: "repay_split option"
  recRisks :: "string list option"
  recStatus :: tx_status

definition status_record :: "tx_status \<Rightarrow> txn_record" where
  "status_record st = \<lparr>recEvidence = None, recSplit = None, recRisks = None, recStatus = st\<rparr>"

end
