(* ===== verification/StoreUtils.thy ===== *)
theory StoreUtils
  imports Store "HOL-Library.Multiset"
begin

text \<open>
  The helpers of \<open>utils/store.ts\<close>: a bag (multiset) API over a \<open>MapStore\<close> of counts, and
  the insertion of an item into an array kept sorted by a comparator.
\<close>

section \<open>asMultiset\<close>

type_synonym 'k bag = "('k, int) mapstore"

definition bag_add :: "'k::linorder bag \<Rightarrow> 'k \<Rightarrow> int \<Rightarrow> error + 'k bag" where
  "bag_add s item n =
     (if \<not> n > 0 then Inl NonPositiveCount
      else case map_of s item of
             Some currentCount \<Rightarrow> store_set s item (currentCount + n)
           | None \<Rightarrow> store_init s item n)"

definition bag_remove :: "'k::linorder bag \<Rightarrow> 'k \<Rightarrow> int \<Rightarrow> error + (bool \<times> 'k bag)" where
  "bag_remove s item n =
     (if \<not> n > 0 then Inl NonPositiveCount
      else case map_of s item of
             None \<Rightarrow> Inr (False, s)
           | Some currentCount \<Rightarrow>
               if currentCount < n then Inr (False, s)
               else if currentCount = n then map_sum id (Pair True) (store_delete s item)
               else map_sum id (Pair True) (store_set s item (currentCount - n)))"

definition bag_count :: "'k bag \<Rightarrow> 'k \<Rightarrow> int" where
  "bag_count s item = (case map_of s item of None \<Rightarrow> 0 | Some n \<Rightarrow> n)"

definition bag_has :: "'k bag \<Rightarrow> 'k \<Rightarrow> bool" where
  "bag_has s item = store_has s item"

definition bag_keys :: "'k bag \<Rightarrow> 'k list" where
  "bag_keys s = store_keys s"

definition bag_entries :: "'k bag \<Rightarrow> ('k \<times> int) list" where
  "bag_entries s = s"

definition bag_size :: "'k bag \<Rightarrow> nat" where
  "bag_size s = store_size s"

definition bag_clear :: "'k bag \<Rightarrow> 'k bag" where
  "bag_clear s = []"

text \<open>A bag is well formed when it is a store and every stored count is positive.\<close>

definition bag_ok :: "'k::linorder bag \<Rightarrow> bool" where
  "bag_ok s \<longleftrightarrow> store_ok s \<and> ms.holds_all (\<lambda>_ n. n > 0) s"

text \<open>The multiset a bag stands for.\<close>

definition bag_mset :: "'k bag \<Rightarrow> 'k multiset" where
  "bag_mset s = sum_list (map (\<lambda>(k, n). replicate_mset (nat n) k) s)"

lemma count_bag_mset: "store_ok s \<Longrightarrow> count (bag_mset s) k = nat (bag_count s k)"
proof (induction s)
  case Nil
  then show ?case by (simp add: bag_mset_def bag_count_def)
next
  case (Cons e s)
  obtain k' n where e: "e = (k', n)" by (cases e)
  have ok: "store_ok s" and new: "map_of s k' = None"
    using Cons.prems by (auto simp: e store_ok_def map_of_eq_None_iff)
  have "count (bag_mset (e # s)) k = (if k = k' then nat n else 0) + nat (bag_count s k)"
    using Cons.IH [OF ok] by (simp add: e bag_mset_def)
  with new show ?case by (simp add: e bag_count_def)
qed

lemma bag_ok_pos: "bag_ok s \<Longrightarrow> map_of s k = Some n \<Longrightarrow> n > 0"
  by (auto simp: bag_ok_def dest: ms.holds_allD)

lemma bag_add_Inr:
  "n > 0 \<Longrightarrow> bag_add s k n = Inr (put_entry k (bag_count s k + n) s)"
  by (simp add: bag_add_def bag_count_def store_set_def store_init_def store_has_def split: option.split)

lemma bag_remove_Inr:
  assumes "n > 0"
  shows "bag_remove s k n =
    Inr (if bag_count s k < n \<or> map_of s k = None then (False, s)
         else (True, if bag_count s k = n then drop_entry k s
                     else put_entry k (bag_count s k - n) s))"
  using assms
  by (auto simp: bag_remove_def bag_count_def store_set_def store_delete_def store_has_def split: option.split)

lemma bag_ok_add: "bag_ok s \<Longrightarrow> bag_add s k n = Inr s' \<Longrightarrow> bag_ok s'"
proof -
  assume ok: "bag_ok s" and add: "bag_add s k n = Inr s'"
  then have n: "n > 0" by (auto simp: bag_add_def split: if_splits)
  have "bag_count s k \<ge> 0"
    using bag_ok_pos [OF ok] by (fastforce simp: bag_count_def split: option.split)
  with n ok add show ?thesis
    by (auto simp: bag_add_Inr bag_ok_def intro: ms.holds_all_put)
qed

lemma bag_ok_remove: "bag_ok s \<Longrightarrow> bag_remove s k n = Inr (b, s') \<Longrightarrow> bag_ok s'"
proof -
  assume ok: "bag_ok s" and rem: "bag_remove s k n = Inr (b, s')"
  then have n: "n > 0" by (auto simp: bag_remove_def split: if_splits)
  from ok rem show ?thesis
    unfolding bag_remove_Inr [OF n]
    by (auto simp: bag_ok_def intro: ms.holds_all_put ms.holds_all_del split: if_splits)
qed

subsection \<open>The interface the settler uses\<close>

text \<open>
  A counter of early mints: what \<open>add\<close>, \<open>remove\<close> and \<open>has\<close> promise in terms of the count.
\<close>

locale counting_bag =
  fixes ok :: "'b \<Rightarrow> bool"
    and cnt :: "'b \<Rightarrow> 'k \<Rightarrow> int"
    and add :: "'b \<Rightarrow> 'k \<Rightarrow> 'b"
    and rem :: "'b \<Rightarrow> 'k \<Rightarrow> 'b"
    and has :: "'b \<Rightarrow> 'k \<Rightarrow> bool"
  assumes ok_add: "ok b \<Longrightarrow> ok (add b k)"
    and ok_rem: "ok b \<Longrightarrow> ok (rem b k)"
    and cnt_add: "ok b \<Longrightarrow> cnt (add b k) k' = (if k' = k then cnt b k + 1 else cnt b k')"
    and cnt_rem: "ok b \<Longrightarrow> cnt (rem b k) k' = (if k' = k \<and> has b k then cnt b k - 1 else cnt b k')"
    and has_iff: "ok b \<Longrightarrow> has b k \<longleftrightarrow> cnt b k > 0"
begin

lemma add_has: "ok b \<Longrightarrow> cnt b k \<ge> 0 \<Longrightarrow> has (add b k) k"
  by (simp add: has_iff ok_add cnt_add)

lemma rem_add_cnt: "ok b \<Longrightarrow> cnt b k \<ge> 0 \<Longrightarrow> cnt (rem (add b k) k) k' = cnt b k'"
  by (simp add: cnt_rem ok_add cnt_add add_has)

end

definition bag_incr :: "'k::linorder bag \<Rightarrow> 'k \<Rightarrow> 'k bag" where
  "bag_incr s k = (case bag_add s k 1 of Inl _ \<Rightarrow> s | Inr s' \<Rightarrow> s')"

definition bag_decr :: "'k::linorder bag \<Rightarrow> 'k \<Rightarrow> 'k bag" where
  "bag_decr s k = (case bag_remove s k 1 of Inl _ \<Rightarrow> s | Inr (_, s') \<Rightarrow> s')"

lemma bag_incr_eq: "bag_incr s k = put_entry k (bag_count s k + 1) s"
  by (simp add: bag_incr_def bag_add_Inr)

lemma bag_decr_eq:
  "bag_decr s k = (if bag_count s k < 1 \<or> map_of s k = None then s
     else if bag_count s k = 1 then drop_entry k s else put_entry k (bag_count s k - 1) s)"
  by (simp add: bag_decr_def bag_remove_Inr)

lemma bag_count_put [simp]: "bag_count (put_entry k n s) k' = (if k' = k then n else bag_count s k')"
  by (simp add: bag_count_def)

lemma bag_count_drop [simp]: "bag_count (drop_entry k s) k' = (if k' = k then 0 else bag_count s k')"
  by (simp add: bag_count_def)

lemma bag_has_iff: "bag_ok s \<Longrightarrow> bag_has s k \<longleftrightarrow> bag_count s k > 0"
  by (auto simp: bag_has_def store_has_def bag_count_def dest: bag_ok_pos split: option.split)

interpretation counted: counting_bag bag_ok bag_count bag_incr bag_decr bag_has
proof (unfold_locales, goal_cases)
  case (1 b k)
  then show ?case using bag_ok_add [of b k 1] by (simp add: bag_incr_def bag_add_Inr)
next
  case (2 b k)
  then show ?case using bag_ok_remove [of b k 1] by (auto simp: bag_decr_def split: sum.split prod.split)
next
  case (3 b k k')
  then show ?case by (simp add: bag_incr_eq)
next
  case (4 b k k')
  then show ?case
    by (auto simp: bag_decr_eq bag_has_iff) (auto simp: bag_count_def bag_has_def store_has_def dest: bag_ok_pos split: option.splits)
next
  case (5 b k)
  then show ?case by (rule bag_has_iff)
qed

section \<open>insertIntoSortedArray\<close>

fun insert_scan :: "('v \<Rightarrow> 'v \<Rightarrow> int) \<Rightarrow> 'v \<Rightarrow> 'v list \<Rightarrow> nat \<Rightarrow> nat" where
  "insert_scan compare item array 0 = 0"
| "insert_scan compare item array (Suc i) =
     (if compare item (array ! i) < 0 then insert_scan compare item array i else Suc i)"

definition insertIntoSortedArray :: "'v list \<Rightarrow> 'v \<Rightarrow> ('v \<Rightarrow> 'v \<Rightarrow> int) \<Rightarrow> 'v list" where
  "insertIntoSortedArray array item compare =
     (let i = insert_scan compare item array (length array) in take i array @ item # drop i array)"

lemma insert_scan_le: "insert_scan c x xs n \<le> n"
  by (induction n) auto

lemma insert_scan_after: "insert_scan c x xs n \<le> j \<Longrightarrow> j < n \<Longrightarrow> c x (xs ! j) < 0"
proof (induction n)
  case (Suc n)
  then show ?case by (cases "j = n") (auto split: if_splits)
qed simp

lemma insert_scan_before: "insert_scan c x xs n = Suc j \<Longrightarrow> \<not> c x (xs ! j) < 0"
  by (induction n) (auto split: if_splits)

lemma mset_insertIntoSortedArray: "mset (insertIntoSortedArray xs x c) = add_mset x (mset xs)"
proof -
  have "mset (take i xs) + mset (drop i xs) = mset xs" for i
    by (metis append_take_drop_id mset_append)
  then show ?thesis by (simp add: insertIntoSortedArray_def Let_def)
qed

text \<open>What a comparator must satisfy for an array to be sorted by it.\<close>

locale comparator =
  fixes cmp :: "'v \<Rightarrow> 'v \<Rightarrow> int"
  assumes cmp_flip: "cmp a b < 0 \<longleftrightarrow> cmp b a > 0"
    and cmp_trans: "cmp a b \<le> 0 \<Longrightarrow> cmp b c \<le> 0 \<Longrightarrow> cmp a c \<le> 0"
begin

definition ordered :: "'v list \<Rightarrow> bool" where
  "ordered xs \<longleftrightarrow> sorted_wrt (\<lambda>a b. cmp a b \<le> 0) xs"

lemma cmp_not_less: "\<not> cmp a b < 0 \<Longrightarrow> cmp b a \<le> 0"
  using cmp_flip [of a b] by linarith

lemma ordered_insert:
  assumes "ordered xs"
  shows "ordered (insertIntoSortedArray xs x cmp)"
proof -
  let ?i = "insert_scan cmp x xs (length xs)"
  have le: "?i \<le> length xs" by (rule insert_scan_le)
  have srt: "sorted_wrt (\<lambda>a b. cmp a b \<le> 0) (take ?i xs @ drop ?i xs)"
    using assms by (simp add: ordered_def)
  have after: "cmp x y \<le> 0" if y: "y \<in> set (drop ?i xs)" for y
  proof -
    from y obtain j where "?i \<le> j" "j < length xs" "y = xs ! j"
      using le by (auto simp: in_set_conv_nth) (metis le_add1 less_diff_conv add.commute)
    then show ?thesis using insert_scan_after [of cmp x xs "length xs" j] by simp
  qed
  have before: "cmp y x \<le> 0" if y: "y \<in> set (take ?i xs)" for y
  proof (cases ?i)
    case 0
    with y show ?thesis by simp
  next
    case (Suc j)
    have last: "cmp (xs ! j) x \<le> 0"
      using insert_scan_before [OF Suc] by (rule cmp_not_less)
    from y obtain k where k: "k \<le> j" "y = xs ! k"
      using Suc by (auto simp: in_set_conv_nth less_Suc_eq_le)
    show ?thesis
    proof (cases "k = j")
      case True
      with k last show ?thesis by simp
    next
      case False
      then have "cmp (xs ! k) (xs ! j) \<le> 0"
        using assms k Suc le by (auto simp: ordered_def sorted_wrt_iff_nth_less)
      with last k show ?thesis by (auto intro: cmp_trans)
    qed
  qed
  show ?thesis
    using srt [unfolded sorted_wrt_append] after before
    by (auto simp: ordered_def insertIntoSortedArray_def Let_def sorted_wrt_append)
qed

text \<open>The new item goes after every element it ties with.\<close>

lemma insert_after_ties:
  assumes "ordered xs" and "insertIntoSortedArray xs x cmp = ys @ x # zs"
    and "length ys = insert_scan cmp x xs (length xs)"
  shows "\<forall>z \<in> set zs. cmp x z < 0"
proof -
  let ?i = "insert_scan cmp x xs (length xs)"
  have le: "?i \<le> length xs" by (rule insert_scan_le)
  have "zs = drop ?i xs"
    using assms(2,3) le by (auto simp: insertIntoSortedArray_def Let_def append_eq_append_conv)
  then show ?thesis
    using insert_scan_after [of cmp x xs "length xs"] le
    by (auto simp: in_set_conv_nth)
qed

end

end
