(* ===== verification/SettlementMatcher.thy ===== *)
theory SettlementMatcher
  imports Types StoreUtils
begin

text \<open>
  Settlement matching (\<open>utils/settlement-matcher.ts\<close>): the pending transactions of each
  Noble forwarding address, kept in descending order of amount, and the search for the
  transactions a mint settles: an exact amount first, then a depth-first, memoised,
  largest-first combination. A chosen transaction is identified by its index in the list,
  which is what the source's identity comparison amounts to.
\<close>

type_synonym pending_store = "(noble_address, pending_tx list) mapstore"

definition MAX_MATCH_DEPTH :: nat where
  "MAX_MATCH_DEPTH = 25"

definition comparePendingTxDesc :: "pending_tx \<Rightarrow> pending_tx \<Rightarrow> int" where
  "comparePendingTxDesc a b = tx_amount b - tx_amount a"

section \<open>The depth-first search\<close>

text \<open>
  \<open>dfs\<close> and its loop \<open>scan\<close> over \<open>i\<close> return the completed path, or none with the set of
  dead ends found so far, or throw. The amounts are those of the pending list.
\<close>

type_synonym dead_ends = "(nat \<times> int) set"

function dfs :: "int list \<Rightarrow> int \<Rightarrow> nat \<Rightarrow> int \<Rightarrow> nat list \<Rightarrow> dead_ends \<Rightarrow> error + (nat list option \<times> dead_ends)"
  and scan :: "int list \<Rightarrow> int \<Rightarrow> nat \<Rightarrow> nat \<Rightarrow> int \<Rightarrow> nat list \<Rightarrow> dead_ends \<Rightarrow> error + (nat list option \<times> dead_ends)"
where
  "dfs pending target index sm path dead =
     (if sm = target then Inr (Some path, dead)
      else if sm > target then Inl TargetExceeded
      else if length path \<ge> MAX_MATCH_DEPTH then Inl MaxMatchDepth
      else if index \<ge> length pending then Inr (None, dead)
      else if (index, sm) \<in> dead then Inr (None, dead)
      else scan pending target index index sm path dead)"
| "scan pending target index i sm path dead =
     (if i \<ge> length pending then Inr (None, insert (index, sm) dead)
      else let nextSum = sm + pending ! i in
        if nextSum > target then scan pending target index (Suc i) sm path dead
        else case dfs pending target (Suc i) nextSum (path @ [i]) dead of
               Inl e \<Rightarrow> Inl e
             | Inr (Some p, dead') \<Rightarrow> Inr (Some p, dead')
             | Inr (None, dead') \<Rightarrow> scan pending target index (Suc i) sm path dead')"
  by pat_completeness auto
termination
  by (relation "measure (case_sum (\<lambda>(ps, t, index, _). 2 * (length ps - index) + 1)
                                  (\<lambda>(ps, t, index, i, _). 2 * (length ps - i)))") auto

declare dfs.simps [simp del] scan.simps [simp del]

definition greedyMatch :: "pending_tx list \<Rightarrow> int \<Rightarrow> error + nat list" where
  "greedyMatch pending target =
     (if target = 0 then Inr []
      else if pending = [] then Inr []
      else case dfs (map tx_amount pending) target 0 0 [] {} of
             Inl e \<Rightarrow> Inl e
           | Inr (Some path, _) \<Rightarrow> Inr path
           | Inr (None, _) \<Rightarrow> Inr [])"

section \<open>The queue operations\<close>

definition addPendingSettleTx :: "pending_store \<Rightarrow> pending_tx \<Rightarrow> error + pending_store" where
  "addPendingSettleTx pendingSettleTxs pending =
     (let nfa = tx_nfa pending in
      case map_of pendingSettleTxs nfa of
        None \<Rightarrow> store_init pendingSettleTxs nfa [pending]
      | Some list \<Rightarrow>
          store_set pendingSettleTxs nfa (insertIntoSortedArray list pending comparePendingTxDesc))"

fun findIndex :: "('a \<Rightarrow> bool) \<Rightarrow> 'a list \<Rightarrow> nat option" where
  "findIndex p [] = None"
| "findIndex p (x # xs) = (if p x then Some 0 else map_option Suc (findIndex p xs))"

text \<open>\<open>list.filter(tx => !matchedSet.has(tx))\<close>, the elements whose index was not chosen.\<close>

definition remove_at :: "nat list \<Rightarrow> 'a list \<Rightarrow> 'a list" where
  "remove_at idxs xs = map ((!) xs) (filter (\<lambda>i. i \<notin> set idxs) [0..<length xs])"

definition matchAndDequeueSettlement ::
  "pending_store \<Rightarrow> noble_address \<Rightarrow> int \<Rightarrow> error + (pending_tx list \<times> pending_store)" where
  "matchAndDequeueSettlement pendingSettleTxs nfa amt =
     (case map_of pendingSettleTxs nfa of
        None \<Rightarrow> Inr ([], pendingSettleTxs)
      | Some list \<Rightarrow>
          (case findIndex (\<lambda>p. tx_amount p = amt) list of
             Some ix \<Rightarrow>
               (if length list > 1
                then map_sum id (Pair [list ! ix])
                       (store_set pendingSettleTxs nfa (take ix list @ drop (Suc ix) list))
                else map_sum id (Pair [list ! ix]) (store_delete pendingSettleTxs nfa))
           | None \<Rightarrow>
               (case greedyMatch list amt of
                  Inl e \<Rightarrow> Inl e
                | Inr combo \<Rightarrow>
                    if combo = [] then Inr ([], pendingSettleTxs)
                    else if length combo \<noteq> length list
                    then map_sum id (Pair (map ((!) list) combo))
                           (store_set pendingSettleTxs nfa (remove_at combo list))
                    else map_sum id (Pair (map ((!) list) combo))
                           (store_delete pendingSettleTxs nfa))))"

section \<open>Reference search\<close>

text \<open>
  The same search with no memo and no depth limit: take the first item if the rest can
  then be completed, else skip it.
\<close>

fun pick :: "int list \<Rightarrow> nat \<Rightarrow> int \<Rightarrow> nat list option" where
  "pick [] i r = (if r = 0 then Some [] else None)"
| "pick (a # as) i r =
     (if r = 0 then Some []
      else if a \<le> r
      then (case pick as (Suc i) (r - a) of
              Some p \<Rightarrow> Some (i # p)
            | None \<Rightarrow> pick as (Suc i) r)
      else pick as (Suc i) r)"

text \<open>An increasing list of indexes of \<open>as\<close> (starting at offset \<open>i\<close>) whose amounts sum to \<open>r\<close>.\<close>

definition is_combo :: "int list \<Rightarrow> nat list \<Rightarrow> int \<Rightarrow> bool" where
  "is_combo as idxs r \<longleftrightarrow>
     sorted_wrt (<) idxs \<and> (\<forall>i \<in> set idxs. i < length as) \<and> sum_list (map ((!) as) idxs) = r"

lemma is_combo_Nil: "is_combo as [] r \<longleftrightarrow> r = 0"
  by (auto simp: is_combo_def)

lemma is_combo_shift: "is_combo (a # as) (map Suc idxs) r \<longleftrightarrow> is_combo as idxs r"
  by (auto simp: is_combo_def sorted_wrt_map comp_def)

lemma is_combo_take: "is_combo (a # as) (0 # map Suc idxs) r \<longleftrightarrow> is_combo as idxs (r - a)"
  by (auto simp: is_combo_def sorted_wrt_map comp_def)

lemma increasing_cases:
  assumes "sorted_wrt (<) (idxs :: nat list)"
  obtains js where "idxs = map Suc js" | js where "idxs = 0 # map Suc js"
proof -
  have pos: "xs = map Suc (map (\<lambda>i. i - 1) xs)" if "\<forall>i \<in> set xs. 0 < i" for xs :: "nat list"
    using that by (induction xs) auto
  show ?thesis
  proof (cases "0 \<in> set idxs")
    case True
    with assms obtain xs where "idxs = 0 # xs" "\<forall>i \<in> set xs. 0 < i"
      by (cases idxs) auto
    with pos [of xs] that(2) show ?thesis by metis
  next
    case False
    then have "\<forall>i \<in> set idxs. 0 < i" by (metis gr0I)
    with pos [of idxs] that(1) show ?thesis by metis
  qed
qed

lemma pick_offset: "pick as (i + k) r = map_option (map (\<lambda>j. j + k)) (pick as i r)"
proof (induction as i r rule: pick.induct)
  case (2 a as i r)
  then show ?case by (auto split: option.splits)
qed simp

lemma pick_Suc: "pick as (Suc i) r = map_option (map Suc) (pick as i r)"
  using pick_offset [of as i 1 r] by simp

lemma pick_sound: "pick as 0 r = Some p \<Longrightarrow> is_combo as p r"
proof (induction as arbitrary: r p)
  case Nil
  then show ?case by (auto simp: is_combo_def split: if_splits)
next
  case (Cons a as)
  show ?case
  proof (cases "r = 0")
    case True
    with Cons.prems show ?thesis by (simp add: is_combo_Nil)
  next
    case False
    with Cons.prems consider
        q where "pick as 0 (r - a) = Some q" "p = 0 # map Suc q"
      | q where "pick as 0 r = Some q" "p = map Suc q"
      by (auto simp: pick_Suc split: if_splits option.splits)
    then show ?thesis
      by cases (auto simp: is_combo_take is_combo_shift dest: Cons.IH)
  qed
qed

lemma is_combo_nonneg: "is_combo as idxs r \<Longrightarrow> \<forall>a \<in> set as. 0 \<le> a \<Longrightarrow> 0 \<le> r"
  by (auto simp: is_combo_def intro!: sum_list_nonneg)

lemma pick_complete:
  "\<forall>a \<in> set as. 0 \<le> a \<Longrightarrow> pick as 0 r = None \<Longrightarrow> \<not> is_combo as idxs r"
proof (induction as arbitrary: r idxs)
  case Nil
  then show ?case by (auto simp: is_combo_def split: if_splits)
next
  case (Cons a as)
  show ?case
  proof
    assume combo: "is_combo (a # as) idxs r"
    then have "sorted_wrt (<) idxs" by (simp add: is_combo_def)
    then show False
    proof (cases rule: increasing_cases)
      case (1 js)
      with combo have "is_combo as js r" by (simp add: is_combo_shift)
      moreover have "pick as 0 r = None"
        using Cons.prems(2) by (auto simp: pick_Suc split: if_splits option.splits)
      ultimately show False using Cons.IH Cons.prems(1) by auto
    next
      case (2 js)
      with combo have c: "is_combo as js (r - a)" by (simp add: is_combo_take)
      then have "0 \<le> r - a" using Cons.prems(1) by (auto dest: is_combo_nonneg)
      with Cons.prems(2) have "pick as 0 (r - a) = None"
        by (auto simp: pick_Suc split: if_splits option.splits)
      with c Cons.IH Cons.prems(1) show False by auto
    qed
  qed
qed

section \<open>The memoised search computes the reference search\<close>

definition dead_ok :: "int list \<Rightarrow> int \<Rightarrow> dead_ends \<Rightarrow> bool" where
  "dead_ok ps target dead \<longleftrightarrow> (\<forall>(j, s) \<in> dead. pick (drop j ps) j (target - s) = None)"

lemma dead_ok_empty [simp]: "dead_ok ps target {}"
  by (simp add: dead_ok_def)

lemma dead_okD: "dead_ok ps target dead \<Longrightarrow> (j, s) \<in> dead \<Longrightarrow> pick (drop j ps) j (target - s) = None"
  by (auto simp: dead_ok_def)

lemma dead_ok_insert:
  "dead_ok ps target (insert (j, s) dead) \<longleftrightarrow>
     pick (drop j ps) j (target - s) = None \<and> dead_ok ps target dead"
  by (auto simp: dead_ok_def)

lemma pick_drop_step:
  assumes "i < length ps" and "r \<noteq> 0"
  shows "pick (drop i ps) i r =
    (if ps ! i \<le> r
     then (case pick (drop (Suc i) ps) (Suc i) (r - ps ! i) of
             Some p \<Rightarrow> Some (i # p) | None \<Rightarrow> pick (drop (Suc i) ps) (Suc i) r)
     else pick (drop (Suc i) ps) (Suc i) r)"
  using assms by (simp add: Cons_nth_drop_Suc [symmetric])

lemma dfs_scan_pick:
  "dfs ps target index sm path dead = Inr (res, dead') \<Longrightarrow> dead_ok ps target dead \<Longrightarrow>
     dead_ok ps target dead' \<and> res = map_option ((@) path) (pick (drop index ps) index (target - sm))"
  "scan ps target index i sm path dead = Inr (res, dead') \<Longrightarrow> dead_ok ps target dead \<Longrightarrow>
     sm < target \<Longrightarrow> pick (drop index ps) index (target - sm) = pick (drop i ps) i (target - sm) \<Longrightarrow>
     dead_ok ps target dead' \<and> res = map_option ((@) path) (pick (drop i ps) i (target - sm))"
proof (induction ps target index sm path dead and ps target index i sm path dead
       arbitrary: res dead' and res dead' rule: dfs_scan.induct)
  case (1 ps target index sm path dead)
  have zero: "pick (drop index ps) index 0 = Some []" by (cases "drop index ps") auto
  show ?case
  proof (cases "sm = target")
    case True
    have "dfs ps target index sm path dead = Inr (Some path, dead)"
      using True by (subst dfs.simps) simp
    with True "1.prems" zero show ?thesis by simp
  next
    case False
    with 1 show ?thesis
      by (auto simp: dfs.simps [of ps target index sm path dead] dead_okD split: if_splits)
  qed
next
  case (2 ps target index i sm path dead)
  show ?case
  proof (cases "i \<ge> length ps")
    case True
    with 2 show ?thesis by (auto simp: scan.simps [of ps target index i sm path dead] dead_ok_insert)
  next
    case False
    note step = pick_drop_step [of i ps "target - sm"]
    show ?thesis
    proof (cases "sm + ps ! i > target")
      case True
      with False 2 step show ?thesis
        by (auto simp: scan.simps [of ps target index i sm path dead] Let_def)
    next
      case fits: False
      from False fits "2.prems"(1) obtain r d where
        dfs: "dfs ps target (Suc i) (sm + ps ! i) (path @ [i]) dead = Inr (r, d)"
        by (auto simp: scan.simps [of ps target index i sm path dead] Let_def split: sum.splits)
      have r: "dead_ok ps target d"
        "r = map_option ((@) (path @ [i])) (pick (drop (Suc i) ps) (Suc i) (target - (sm + ps ! i)))"
        using "2.IH"(2) [OF False refl fits dfs "2.prems"(2)] by blast+
      show ?thesis
      proof (cases r)
        case (Some p)
        have "Some p = map_option ((@) (path @ [i])) (pick (drop (Suc i) ps) (Suc i) (target - sm - ps ! i))"
          using r(2) Some by (simp add: algebra_simps)
        then obtain q where q: "pick (drop (Suc i) ps) (Suc i) (target - sm - ps ! i) = Some q"
          "p = path @ i # q" by (auto elim!: map_option_eq_Some [THEN iffD1, OF sym, elim_format])
        have "res = Some p" "dead' = d"
          using "2.prems"(1) False fits dfs Some
          by (simp_all add: scan.simps [of ps target index i sm path dead] Let_def)
        with q r(1) step False fits "2.prems"(3) show ?thesis by simp
      next
        case None
        have "scan ps target index (Suc i) sm path d = Inr (res, dead')"
          using "2.prems"(1) False fits dfs None
          by (simp add: scan.simps [of ps target index i sm path dead] Let_def)
        moreover have "pick (drop i ps) i (target - sm) = pick (drop (Suc i) ps) (Suc i) (target - sm)"
          using step False fits r None "2.prems"(3) by (auto simp: algebra_simps)
        ultimately show ?thesis
          using "2.IH"(3) [OF False refl fits dfs refl None] r None "2.prems"(3,4) by auto
      qed
    qed
  qed
qed

text \<open>The search throws at most for its depth, and not even that on short queues.\<close>

lemma dfs_scan_no_throw:
  "sm \<le> target \<Longrightarrow> length path + (length ps - index) < MAX_MATCH_DEPTH \<Longrightarrow>
     \<exists>r. dfs ps target index sm path dead = Inr r"
  "sm < target \<Longrightarrow> length path + (length ps - i) < MAX_MATCH_DEPTH \<Longrightarrow>
     \<exists>r. scan ps target index i sm path dead = Inr r"
proof (induction ps target index sm path dead and ps target index i sm path dead rule: dfs_scan.induct)
  case (1 ps target index sm path dead)
  then show ?case by (auto simp: dfs.simps [of ps target index sm path dead])
next
  case (2 ps target index i sm path dead)
  show ?case
  proof (cases "i \<ge> length ps")
    case True
    then show ?thesis by (auto simp: scan.simps [of ps target index i sm path dead])
  next
    case i: False
    show ?thesis
    proof (cases "sm + ps ! i > target")
      case True
      with i 2 show ?thesis by (auto simp: scan.simps [of ps target index i sm path dead] Let_def)
    next
      case fits: False
      have "\<exists>r. dfs ps target (Suc i) (sm + ps ! i) (path @ [i]) dead = Inr r"
        using "2.IH"(2) [OF i refl] fits i "2.prems" by auto
      then obtain r d where dfs: "dfs ps target (Suc i) (sm + ps ! i) (path @ [i]) dead = Inr (r, d)"
        by (auto simp: prod_eq_iff)
      show ?thesis
      proof (cases r)
        case (Some p)
        with i fits dfs show ?thesis
          by (auto simp: scan.simps [of ps target index i sm path dead] Let_def)
      next
        case None
        have "\<exists>r. scan ps target index (Suc i) sm path d = Inr r"
          using "2.IH"(3) [OF i refl fits dfs refl None] i "2.prems" by auto
        with None i fits dfs show ?thesis
          by (auto simp: scan.simps [of ps target index i sm path dead] Let_def)
      qed
    qed
  qed
qed

section \<open>The matcher's results\<close>

definition amounts :: "pending_tx list \<Rightarrow> int list" where
  "amounts list = map tx_amount list"

lemma greedyMatch_Inr:
  assumes "greedyMatch list target = Inr combo"
  shows "combo = (case pick (amounts list) 0 target of Some p \<Rightarrow> p | None \<Rightarrow> [])"
proof (cases "target = 0 \<or> list = []")
  case True
  moreover have "pick (amounts list) 0 0 = Some []" by (cases "amounts list") auto
  ultimately show ?thesis using assms by (cases "target = 0") (simp_all add: greedyMatch_def amounts_def)
next
  case False
  with assms obtain res d where d: "dfs (amounts list) target 0 0 [] {} = Inr (res, d)"
    and c: "combo = (case res of Some p \<Rightarrow> p | None \<Rightarrow> [])"
    by (auto simp: greedyMatch_def amounts_def split: sum.splits option.splits)
  from dfs_scan_pick(1) [OF d] c show ?thesis by (auto split: option.splits)
qed

lemma greedyMatch_combo:
  "greedyMatch list target = Inr combo \<Longrightarrow> combo \<noteq> [] \<Longrightarrow> is_combo (amounts list) combo target"
  by (auto dest!: greedyMatch_Inr split: option.splits intro: pick_sound)

lemma greedyMatch_none:
  "greedyMatch list target = Inr [] \<Longrightarrow> target \<noteq> 0 \<Longrightarrow> \<forall>a \<in> set (amounts list). 0 \<le> a \<Longrightarrow>
     \<not> is_combo (amounts list) idxs target"
  by (drule greedyMatch_Inr)
    (auto split: option.splits dest: pick_complete [where idxs = idxs] dest!: pick_sound simp: is_combo_Nil)

lemma greedyMatch_returns:
  "0 \<le> target \<Longrightarrow> length list < MAX_MATCH_DEPTH \<Longrightarrow> \<exists>combo. greedyMatch list target = Inr combo"
  using dfs_scan_no_throw(1) [of 0 target "[]" "amounts list" 0 "{}"]
  by (auto simp: greedyMatch_def amounts_def prod_eq_iff split: option.splits)

lemma findIndex_Some:
  "findIndex p xs = Some i \<longleftrightarrow> i < length xs \<and> p (xs ! i) \<and> (\<forall>j < i. \<not> p (xs ! j))"
proof (induction xs arbitrary: i)
  case (Cons x xs)
  then show ?case by (cases i) (auto simp: nth_Cons less_Suc_eq_0_disj split: nat.splits)
qed simp

lemma findIndex_None: "findIndex p xs = None \<longleftrightarrow> (\<forall>x \<in> set xs. \<not> p x)"
  by (induction xs) auto

text \<open>Removing chosen positions loses exactly the chosen elements.\<close>

lemma mset_map_nth_upt: "mset (map ((!) xs) [0..<length xs]) = mset xs"
  by (simp add: map_nth)

lemma mset_remove_at:
  assumes "sorted_wrt (<) idxs" and "\<forall>i \<in> set idxs. i < length xs"
  shows "mset xs = mset (map ((!) xs) idxs) + mset (remove_at idxs xs)"
proof -
  have "filter (\<lambda>i. i \<in> set idxs) [0..<length xs] = idxs"
    using assms
    by (intro sorted_distinct_set_unique)
      (auto simp: strict_sorted_iff intro: sorted_filter [where f = id, simplified])
  then have "mset [0..<length xs] = mset idxs + mset (filter (\<lambda>i. i \<notin> set idxs) [0..<length xs])"
    by (metis mset_filter multiset_partition)
  then have "image_mset ((!) xs) (mset [0..<length xs]) =
      image_mset ((!) xs) (mset idxs) + mset (remove_at idxs xs)"
    by (simp add: remove_at_def)
  with mset_map_nth_upt [of xs] show ?thesis by simp
qed

lemma set_remove_at: "set (remove_at idxs xs) \<subseteq> set xs"
  by (auto simp: remove_at_def)

lemma remove_at_empty:
  assumes "sorted_wrt (<) idxs" "\<forall>i \<in> set idxs. i < length xs"
  shows "remove_at idxs xs = [] \<longleftrightarrow> length idxs = length xs"
  using arg_cong [OF mset_remove_at [OF assms], of size] by auto

lemma sorted_wrt_remove_at:
  assumes "sorted_wrt R xs"
  shows "sorted_wrt R (remove_at idxs xs)"
proof -
  have "sorted_wrt (\<lambda>i j. R (xs ! i) (xs ! j)) (filter (\<lambda>i. i \<notin> set idxs) [0..<length xs])"
    using assms by (intro sorted_wrt_filter) (auto simp: sorted_wrt_iff_nth_less)
  then show ?thesis by (simp add: remove_at_def sorted_wrt_map)
qed

section \<open>The invariant of the pending queues\<close>

interpretation desc: comparator comparePendingTxDesc
  by unfold_locales (auto simp: comparePendingTxDesc_def)

text \<open>
  A stored list is never empty, is in descending order of amount, and holds only
  transactions of its own forwarding address, of non-negative amount (the type guard's
  \<open>M.nat()\<close>).
\<close>

definition queue_ok :: "noble_address \<Rightarrow> pending_tx list \<Rightarrow> bool" where
  "queue_ok nfa list \<longleftrightarrow> list \<noteq> [] \<and> desc.ordered list \<and> (\<forall>p \<in> set list. tx_nfa p = nfa \<and> 0 \<le> tx_amount p)"

definition pending_ok :: "pending_store \<Rightarrow> bool" where
  "pending_ok s \<longleftrightarrow> store_ok s \<and> (\<forall>nfa list. map_of s nfa = Some list \<longrightarrow> queue_ok nfa list)"

text \<open>The transactions queued under an address, and its queue (empty when there is none).\<close>

definition queue_of :: "pending_store \<Rightarrow> noble_address \<Rightarrow> pending_tx list" where
  "queue_of s nfa = (case map_of s nfa of None \<Rightarrow> [] | Some list \<Rightarrow> list)"

lemma pending_ok_Nil [simp]: "pending_ok []"
  by (simp add: pending_ok_def)

lemma pending_okD: "pending_ok s \<Longrightarrow> map_of s nfa = Some list \<Longrightarrow> queue_ok nfa list"
  by (simp add: pending_ok_def)

lemma pending_ok_put: "pending_ok s \<Longrightarrow> queue_ok nfa list \<Longrightarrow> pending_ok (put_entry nfa list s)"
  by (auto simp: pending_ok_def)

lemma pending_ok_drop: "pending_ok s \<Longrightarrow> pending_ok (drop_entry nfa s)"
  by (auto simp: pending_ok_def)

lemma queue_of_put [simp]: "queue_of (put_entry n l s) nfa = (if nfa = n then l else queue_of s nfa)"
  by (simp add: queue_of_def)

lemma queue_of_drop [simp]: "queue_of (drop_entry n s) nfa = (if nfa = n then [] else queue_of s nfa)"
  by (simp add: queue_of_def)

lemma queue_ok_insert:
  assumes "queue_ok nfa list" "tx_nfa p = nfa" "0 \<le> tx_amount p"
  shows "queue_ok nfa (insertIntoSortedArray list p comparePendingTxDesc)"
proof -
  let ?l = "insertIntoSortedArray list p comparePendingTxDesc"
  have m: "mset ?l = add_mset p (mset list)" by (rule mset_insertIntoSortedArray)
  then have "?l \<noteq> []" "set ?l = insert p (set list)"
    by (auto dest: arg_cong [where f = set_mset])
  with assms show ?thesis by (auto simp: queue_ok_def intro: desc.ordered_insert)
qed

lemma addPendingSettleTx_step:
  "addPendingSettleTx s p =
     Inr (put_entry (tx_nfa p)
           (case map_of s (tx_nfa p) of None \<Rightarrow> [p]
            | Some list \<Rightarrow> insertIntoSortedArray list p comparePendingTxDesc) s)"
  by (auto simp: addPendingSettleTx_def store_init_def store_set_def store_has_def Let_def
      split: option.splits)

lemma addPendingSettleTx_ok:
  assumes "pending_ok s" "0 \<le> tx_amount p"
  obtains s' where "addPendingSettleTx s p = Inr s'" "pending_ok s'"
    "mset (queue_of s' (tx_nfa p)) = add_mset p (mset (queue_of s (tx_nfa p)))"
    "\<And>nfa. nfa \<noteq> tx_nfa p \<Longrightarrow> queue_of s' nfa = queue_of s nfa"
proof (cases "map_of s (tx_nfa p)")
  case None
  have "queue_ok (tx_nfa p) [p]" using assms(2) by (simp add: queue_ok_def desc.ordered_def)
  with None assms that [of "put_entry (tx_nfa p) [p] s"] show ?thesis
    by (simp add: addPendingSettleTx_step pending_ok_put queue_of_def)
next
  case (Some list)
  then have "queue_ok (tx_nfa p) (insertIntoSortedArray list p comparePendingTxDesc)"
    using assms by (auto intro: queue_ok_insert pending_okD)
  with Some assms that [of "put_entry (tx_nfa p) (insertIntoSortedArray list p comparePendingTxDesc) s"]
  show ?thesis
    by (simp add: addPendingSettleTx_step pending_ok_put queue_of_def mset_insertIntoSortedArray)
qed

text \<open>What the two branches of a match leave behind.\<close>

lemma queue_ok_remove_at:
  "queue_ok nfa list \<Longrightarrow> remove_at idxs list \<noteq> [] \<Longrightarrow> queue_ok nfa (remove_at idxs list)"
  using set_remove_at [of idxs list]
  by (auto simp: queue_ok_def desc.ordered_def intro: sorted_wrt_remove_at)

lemma remove_at_single:
  assumes "ix < length xs"
  shows "remove_at [ix] xs = take ix xs @ drop (Suc ix) xs"
proof -
  have split: "[0..<length xs] = [0..<ix] @ ix # [Suc ix..<length xs]"
    using assms upt_add_eq_append [of 0 ix "length xs - ix"] by (simp add: upt_conv_Cons)
  have "filter (\<lambda>i. i \<notin> set [ix]) [0..<length xs] = [0..<ix] @ [Suc ix..<length xs]"
    by (subst split) (auto simp: filter_id_conv)
  moreover have "map ((!) xs) [0..<ix] = take ix xs" "map ((!) xs) [Suc ix..<length xs] = drop (Suc ix) xs"
    using assms by (auto intro: nth_equalityI)
  ultimately show ?thesis by (simp add: remove_at_def)
qed

text \<open>
  Every branch in one equation: the chosen indexes are an exact hit or a combination; the
  chosen transactions are returned and the rest stays queued, the entry going with its last
  transaction.
\<close>

definition chosen :: "pending_tx list \<Rightarrow> int \<Rightarrow> error + nat list" where
  "chosen list amt =
     (case findIndex (\<lambda>p. tx_amount p = amt) list of Some ix \<Rightarrow> Inr [ix] | None \<Rightarrow> greedyMatch list amt)"

definition requeue :: "pending_store \<Rightarrow> noble_address \<Rightarrow> pending_tx list \<Rightarrow> pending_store" where
  "requeue s nfa rest = (if rest = [] then drop_entry nfa s else put_entry nfa rest s)"

lemma chosen_combo:
  assumes "chosen list amt = Inr idxs" "idxs \<noteq> []"
  shows "is_combo (amounts list) idxs amt"
proof (cases "findIndex (\<lambda>p. tx_amount p = amt) list")
  case None
  with assms show ?thesis by (simp add: chosen_def greedyMatch_combo)
next
  case (Some ix)
  with assms show ?thesis by (auto simp: chosen_def is_combo_def amounts_def findIndex_Some)
qed

lemma chosen_complete:
  assumes "chosen list amt = Inr []" "amt \<noteq> 0" "\<forall>a \<in> set (amounts list). 0 \<le> a"
  shows "\<not> is_combo (amounts list) idxs amt"
  using assms by (auto simp: chosen_def greedyMatch_none split: option.splits)

lemma match_step:
  assumes "pending_ok s"
  shows "matchAndDequeueSettlement s nfa amt =
    (case chosen (queue_of s nfa) amt of
       Inl e \<Rightarrow> Inl e
     | Inr idxs \<Rightarrow>
         if idxs = [] then Inr ([], s)
         else Inr (map ((!) (queue_of s nfa)) idxs, requeue s nfa (remove_at idxs (queue_of s nfa))))"
proof (cases "map_of s nfa")
  case None
  then show ?thesis
    by (simp add: matchAndDequeueSettlement_def queue_of_def chosen_def greedyMatch_def)
next
  case list: (Some list)
  show ?thesis
  proof (cases "findIndex (\<lambda>p. tx_amount p = amt) list")
    case (Some ix)
    then have ix: "ix < length list" by (simp add: findIndex_Some)
    then have "take ix list @ drop (Suc ix) list = [] \<longleftrightarrow> \<not> length list > 1" by auto
    with ix Some list show ?thesis
      by (simp add: matchAndDequeueSettlement_def queue_of_def chosen_def requeue_def remove_at_single
          store_set_def store_delete_def store_has_def del: append_is_Nil_conv)
  next
    case None
    show ?thesis
    proof (cases "greedyMatch list amt")
      case (Inr combo)
      have "remove_at combo list = [] \<longleftrightarrow> length combo = length list" if "combo \<noteq> []"
        using chosen_combo [of list amt combo] None Inr that
        by (intro remove_at_empty) (auto simp: chosen_def is_combo_def amounts_def)
      with None Inr list show ?thesis
        by (simp add: matchAndDequeueSettlement_def queue_of_def chosen_def requeue_def
            store_set_def store_delete_def store_has_def)
    qed (use None list in \<open>simp add: matchAndDequeueSettlement_def queue_of_def chosen_def\<close>)
  qed
qed

text \<open>The facts every client of a match uses, whatever branch it took.\<close>

lemma match_result:
  assumes ok: "pending_ok s" and m: "matchAndDequeueSettlement s nfa amt = Inr (matched, s')"
  shows "pending_ok s'"
    and "mset (queue_of s nfa) = mset matched + mset (queue_of s' nfa)"
    and "n \<noteq> nfa \<Longrightarrow> queue_of s' n = queue_of s n"
    and "matched \<noteq> [] \<Longrightarrow> sum_list (amounts matched) = amt"
proof -
  let ?q = "queue_of s nfa"
  from m obtain idxs where c: "chosen ?q amt = Inr idxs"
    and r: "matched = map ((!) ?q) idxs"
           "s' = (if idxs = [] then s else requeue s nfa (remove_at idxs ?q))"
    by (auto simp: match_step [OF ok] split: sum.splits if_splits)
  have combo: "is_combo (amounts ?q) idxs amt" if "idxs \<noteq> []"
    using chosen_combo [OF c that] .
  have qok: "queue_ok nfa ?q" if "idxs \<noteq> []"
    using combo [OF that] ok that
    by (cases "map_of s nfa") (auto simp: queue_of_def is_combo_def amounts_def pending_okD)
  show "pending_ok s'"
    using ok qok r(2) by (auto simp: requeue_def pending_ok_drop intro!: pending_ok_put queue_ok_remove_at)
  show "mset ?q = mset matched + mset (queue_of s' nfa)"
  proof (cases "idxs = []")
    case False
    with combo mset_remove_at [of idxs ?q] show ?thesis
      by (auto simp: r requeue_def is_combo_def amounts_def)
  qed (simp add: r)
  show "n \<noteq> nfa \<Longrightarrow> queue_of s' n = queue_of s n" by (simp add: r requeue_def)
  show "sum_list (amounts matched) = amt" if "matched \<noteq> []"
  proof -
    have ne: "idxs \<noteq> []" using that r(1) by auto
    have "amounts matched = map ((!) (amounts ?q)) idxs"
      using combo [OF ne] by (auto simp: is_combo_def amounts_def r)
    with combo [OF ne] show ?thesis by (simp add: is_combo_def)
  qed
qed

section \<open>Properties\<close>

text \<open>C10: a settlement takes from the queue of its address exactly the transactions it
  returns, whose amounts sum to the minted amount; the queues of the other addresses and the
  queue invariant (descending, non-empty, own address) are kept.\<close>

theorem match_conserves_pending:
  assumes "pending_ok s" and "matchAndDequeueSettlement s nfa amt = Inr (matched, s')"
  shows "pending_ok s' \<and> mset (queue_of s nfa) = mset matched + mset (queue_of s' nfa)
    \<and> (\<forall>n. n \<noteq> nfa \<longrightarrow> queue_of s' n = queue_of s n)
    \<and> (matched \<noteq> [] \<longrightarrow> sum_list (amounts matched) = amt)"
  using match_result [OF assms] by simp

text \<open>C36: when a settlement of a non-zero amount matches nothing, no combination at all of
  the pending transactions of that address sums to it, and nothing is dequeued: the memo of
  dead ends and the overshoot skip lose no solution.\<close>

theorem match_complete:
  assumes "pending_ok s" and "amt \<noteq> 0" and "matchAndDequeueSettlement s nfa amt = Inr ([], s')"
  shows "s' = s \<and> \<not> is_combo (amounts (queue_of s nfa)) idxs amt"
proof -
  have c: "chosen (queue_of s nfa) amt = Inr []" "s' = s"
    using assms(3) by (auto simp: match_step [OF assms(1)] split: sum.splits if_splits)
  have "\<forall>a \<in> set (amounts (queue_of s nfa)). 0 \<le> a"
    using pending_okD [OF assms(1), of nfa]
    by (cases "map_of s nfa") (auto simp: queue_of_def amounts_def queue_ok_def)
  with c assms(2) show ?thesis by (simp add: chosen_complete)
qed

text \<open>on a queue shorter than \<open>MAX_MATCH_DEPTH\<close> a settlement of a non-negative amount
  never throws.\<close>

theorem match_never_throws:
  assumes "pending_ok s" and "0 \<le> amt" and "length (queue_of s nfa) < MAX_MATCH_DEPTH"
  shows "\<exists>r. matchAndDequeueSettlement s nfa amt = Inr r"
  using greedyMatch_returns [OF assms(2,3)]
  by (auto simp: match_step [OF assms(1)] chosen_def split: option.split)

text \<open>the search finds the combination the plain recursive search would: the first
  one, taking the largest transactions first.\<close>

theorem greedyMatch_is_first_combination:
  assumes "greedyMatch list target = Inr combo"
  shows "combo = (case pick (amounts list) 0 target of Some p \<Rightarrow> p | None \<Rightarrow> [])"
  by (rule greedyMatch_Inr [OF assms])

section \<open>Examples\<close>

definition ex_tx :: "string \<Rightarrow> int \<Rightarrow> pending_tx" where
  "ex_tx h a = with_status
     \<lparr>aux = \<lparr>forwardingChannel = ''channel-21'', recipientAddress = ''agoric1x''\<rparr>, blockHash = ''0xb'',
      blockNumber = 1, blockTimestamp = 10, evmChainId = 42161,
      tx = \<lparr>amount = a, forwardingAddress = ''noble1a'', sender = ''0x5''\<rparr>, txHash = h\<rparr> Advanced"

lemma ex_tx_sel [simp]:
  "tx_amount (ex_tx h a) = a" "tx_nfa (ex_tx h a) = ''noble1a''" "txHash (ex_tx h a) = h"
  "status (ex_tx h a) = Advanced" "blockTimestamp (ex_tx h a) = 10"
  by (simp_all add: ex_tx_def)

definition ex_store :: pending_store where
  "ex_store = [(''noble1a'', [ex_tx ''h1'' 50, ex_tx ''h2'' 30, ex_tx ''h3'' 20])]"

lemma ex_store_ok: "pending_ok ex_store"
  by (auto simp: pending_ok_def ex_store_def store_ok_def queue_ok_def desc.ordered_def
      comparePendingTxDesc_def split: if_splits)

lemma ex_queue: "queue_of ex_store ''noble1a'' = [ex_tx ''h1'' 50, ex_tx ''h2'' 30, ex_tx ''h3'' 20]"
  by (simp add: queue_of_def ex_store_def)

lemma ex_greedy: "greedyMatch [ex_tx ''h1'' 50, ex_tx ''h2'' 30, ex_tx ''h3'' 20] 70 = Inr [0, 2]"
  "greedyMatch [ex_tx ''h1'' 50, ex_tx ''h2'' 30, ex_tx ''h3'' 20] 65 = Inr []"
  by (simp_all add: greedyMatch_def dfs.simps scan.simps MAX_MATCH_DEPTH_def)

lemma ex_match_70:
  "matchAndDequeueSettlement ex_store ''noble1a'' 70 =
     Inr ([ex_tx ''h1'' 50, ex_tx ''h3'' 20], [(''noble1a'', [ex_tx ''h2'' 30])])"
  by (subst match_step [OF ex_store_ok])
    (simp add: ex_queue chosen_def ex_greedy, simp add: requeue_def remove_at_def ex_store_def upt_rec)

lemma ex_match_65: "matchAndDequeueSettlement ex_store ''noble1a'' 65 = Inr ([], ex_store)"
  by (simp add: match_step [OF ex_store_ok] ex_queue chosen_def ex_greedy)

theorem match_conserves_pending_witness:
  "sum_list (amounts [ex_tx ''h1'' 50, ex_tx ''h3'' 20]) = 70 \<and>
     pending_ok [(''noble1a'', [ex_tx ''h2'' 30])]"
  using match_conserves_pending [OF ex_store_ok ex_match_70] by simp

theorem match_complete_witness: "\<not> is_combo (amounts (queue_of ex_store ''noble1a'')) [0, 1] 65"
  using match_complete [OF ex_store_ok _ ex_match_65, of "[0, 1]"] by simp

theorem match_never_throws_witness: "\<exists>r. matchAndDequeueSettlement ex_store ''noble1a'' 99 = Inr r"
  by (rule match_never_throws [OF ex_store_ok]) (simp_all add: ex_queue MAX_MATCH_DEPTH_def)

theorem greedyMatch_is_first_combination_witness:
  "[0, 2] = (case pick (amounts [ex_tx ''h1'' 50, ex_tx ''h2'' 30, ex_tx ''h3'' 20]) 0 70 of
               Some p \<Rightarrow> p | None \<Rightarrow> [])"
  by (rule greedyMatch_is_first_combination [OF ex_greedy(1)])

end
