(* ===== verification/StatusManager.thy ===== *)
theory StatusManager
  imports RouteHealth SettlementMatcher
begin

text \<open>
  The status manager exo (\<open>exos/status-manager.ts\<close>): the transactions seen so far, those
  awaiting a mint, the forwards that failed or are in flight, and the records published to
  vstorage. Each method is a process over \<open>sm_state\<close>. The route-health tracker it calls is
  passed in as its threshold and handlers (\<open>rh\<close>); the failure counts are part of the state.
\<close>

record sm_state =
  pendingSettleTxs :: pending_store
  seenTxs :: "(evm_hash, int) mapstore"
  failedForwards :: "(evm_hash, forward_failed_tx) mapstore"
  forwardInProgress :: "(evm_hash, unit) mapstore"
  storedCompletedTxs :: "(evm_hash, unit) mapstore"
  published :: "(evm_hash \<times> txn_record) list"
  deletions :: "evm_hash list"
  routeFailures :: failures
  startedForwards :: "forward_failed_tx list"

text \<open>
  \<open>published\<close> is the log of the writes sent to the transaction nodes, \<open>deletions\<close> the
  deletion writes that were sent and not yet acknowledged, and \<open>startedForwards\<close> the calls
  to the \<open>forwardFunds\<close> flow, which only start to run in a later turn.
\<close>

record route_health =
  maxFailures :: nat
  handlers :: "sm_state event_handler"

abbreviation upd_pending where "upd_pending s v \<equiv> s\<lparr>pendingSettleTxs := v\<rparr>"

section \<open>Start-up\<close>

fun addAll :: "pending_store \<Rightarrow> pending_tx list \<Rightarrow> error + pending_store" where
  "addAll store [] = Inr store"
| "addAll store (p # ps) =
     (case addPendingSettleTx store p of Inl e \<Rightarrow> Inl e | Inr store' \<Rightarrow> addAll store' ps)"

text \<open>
  The schema migration run when the exo class is prepared: version 0 kept the queues under
  \<open>pendingTx:amount:address\<close> keys; all its values are added again under their addresses.
\<close>

definition migrateSchema :: "nat option \<Rightarrow> pending_store \<Rightarrow> error + (nat option \<times> pending_store)" where
  "migrateSchema schemaVersion store =
     (if (case schemaVersion of None \<Rightarrow> 0 | Some v \<Rightarrow> v) < 1
      then (case addAll [] (concat (store_values store)) of
              Inl e \<Rightarrow> Inl e
            | Inr store' \<Rightarrow>
                (if schemaVersion = None then Inr (Some 1, store') else Inl KeyAlreadyRegistered))
      else Inr (schemaVersion, store))"

section \<open>Helpers\<close>

definition noteRouteHealth :: "route_health \<Rightarrow> account_id \<Rightarrow> bool \<Rightarrow> (sm_state, unit) proc" where
  "noteRouteHealth rh destination working =
     bindp (liftp (chainOfAccount destination)) (\<lambda>chainId.
       modifyp (\<lambda>s.
         (let (f, s') = noteReport (maxFailures rh) (handlers rh) (chainId, working) (routeFailures s, s)
          in s'\<lparr>routeFailures := f\<rparr>)))"

definition publishTxnRecord :: "evm_hash \<Rightarrow> txn_record \<Rightarrow> (sm_state, unit) proc" where
  "publishTxnRecord txId rec =
     modifyp (\<lambda>s. s\<lparr>storedCompletedTxs :=
                     (if TerminalTxStatus (recStatus rec) then set_add (storedCompletedTxs s) txId
                      else storedCompletedTxs s),
                    published := published s @ [(txId, rec)]\<rparr>)"

definition publishEvidence :: "evm_hash \<Rightarrow> evidence \<Rightarrow> (sm_state, unit) proc" where
  "publishEvidence hash ev = publishTxnRecord hash ((status_record Observed)\<lparr>recEvidence := Some ev\<rparr>)"

definition initPendingTx :: "evidence \<Rightarrow> pending_status \<Rightarrow> string list option \<Rightarrow> (sm_state, unit) proc" where
  "initPendingTx ev st risks =
     bindp (getsp (\<lambda>s. store_has (seenTxs s) (txHash ev))) (\<lambda>seen.
     thenp (requirep (\<not> seen) AlreadySeen)
    (bindp (getsp (\<lambda>s. store_init (seenTxs s) (txHash ev) (blockTimestamp ev))) (\<lambda>r.
     bindp (liftp r) (\<lambda>seenTxs'.
     thenp (modifyp (\<lambda>s. s\<lparr>seenTxs := seenTxs'\<rparr>))
    (bindp (getsp (\<lambda>s. addPendingSettleTx (pendingSettleTxs s) (with_status ev st))) (\<lambda>r2.
     bindp (liftp r2) (\<lambda>pending'.
     thenp (modifyp (\<lambda>s. upd_pending s pending'))
    (thenp (publishEvidence (txHash ev) ev)
    (if st = AdvanceSkipped
     then publishTxnRecord (txHash ev) ((status_record (Pending st))\<lparr>recRisks := risks\<rparr>)
     else publishTxnRecord (txHash ev) (status_record (Pending st)))))))))))"

definition setPendingTxStatus :: "noble_address \<Rightarrow> int \<Rightarrow> pending_status \<Rightarrow> (sm_state, unit) proc" where
  "setPendingTxStatus nfa amt st =
     bindp (getsp (\<lambda>s. store_get (pendingSettleTxs s) nfa)) (\<lambda>r.
     bindp (liftp r) (\<lambda>pending.
       case findIndex (\<lambda>p. status p = Advancing \<and> tx_amount p = amt) pending of
         None \<Rightarrow> throw NoAdvancingTx
       | Some ix \<Rightarrow>
           (let (prefix, t, suffix) = (take ix pending, pending ! ix, drop (Suc ix) pending);
                txpost = t\<lparr>status := st\<rparr>
            in bindp (getsp (\<lambda>s. store_set (pendingSettleTxs s) nfa (prefix @ [txpost] @ suffix))) (\<lambda>r2.
               bindp (liftp r2) (\<lambda>pending'.
               thenp (modifyp (\<lambda>s. upd_pending s pending'))
                     (publishTxnRecord (txHash t) (status_record (Pending st))))))))"

section \<open>Methods\<close>

definition advance :: "evidence \<Rightarrow> (sm_state, unit) proc" where
  "advance ev = initPendingTx ev Advancing None"

definition skipAdvance :: "evidence \<Rightarrow> string list \<Rightarrow> (sm_state, unit) proc" where
  "skipAdvance ev risks = initPendingTx ev AdvanceSkipped (Some risks)"

definition noteOptional :: "route_health \<Rightarrow> account_id option \<Rightarrow> bool \<Rightarrow> (sm_state, unit) proc" where
  "noteOptional rh dest working =
     (case dest of None \<Rightarrow> ret () | Some d \<Rightarrow> noteRouteHealth rh d working)"

definition advanceOutcome ::
  "route_health \<Rightarrow> noble_address \<Rightarrow> int \<Rightarrow> bool \<Rightarrow> account_id option \<Rightarrow> (sm_state, unit) proc" where
  "advanceOutcome rh nfa amt success dest =
     thenp (noteOptional rh dest success)
           (setPendingTxStatus nfa amt (if success then Advanced else AdvanceFailed))"

definition advanceOutcomeForMintedEarly ::
  "route_health \<Rightarrow> evm_hash \<Rightarrow> bool \<Rightarrow> account_id option \<Rightarrow> (sm_state, unit) proc" where
  "advanceOutcomeForMintedEarly rh hash success dest =
     thenp (noteOptional rh dest success)
           (publishTxnRecord hash (status_record (Pending (if success then Advanced else AdvanceFailed))))"

definition advanceOutcomeForUnknownMint :: "evidence \<Rightarrow> (sm_state, unit) proc" where
  "advanceOutcomeForUnknownMint ev =
     bindp (getsp (\<lambda>s. store_has (seenTxs s) (txHash ev))) (\<lambda>seen.
     thenp (requirep (\<not> seen) AlreadySeen)
    (bindp (getsp (\<lambda>s. store_init (seenTxs s) (txHash ev) (blockTimestamp ev))) (\<lambda>r.
     bindp (liftp r) (\<lambda>seenTxs'.
     thenp (modifyp (\<lambda>s. s\<lparr>seenTxs := seenTxs'\<rparr>))
           (publishEvidence (txHash ev) ev)))))"

definition getForwardsToRetry :: "sm_state \<Rightarrow> chain_id \<Rightarrow> forward_failed_tx list" where
  "getForwardsToRetry s chain =
     filter (\<lambda>t. \<not> store_has (forwardInProgress s) (fwTxHash t))
       (filter (\<lambda>t. fwChainId t = Some chain) (store_values (failedForwards s)))"

definition hasBeenObserved :: "sm_state \<Rightarrow> evidence \<Rightarrow> bool" where
  "hasBeenObserved s ev = store_has (seenTxs s) (txHash ev)"

text \<open>
  \<open>deleteCompletedTxs\<close> only sends the deleting writes; the reaction that runs when one of
  them is acknowledged is \<open>deletionDone\<close>.
\<close>

definition deleteCompletedTxs :: "(sm_state, unit) proc" where
  "deleteCompletedTxs =
     modifyp (\<lambda>s. s\<lparr>deletions := deletions s @ store_keys (storedCompletedTxs s)\<rparr>)"

definition deletionDone :: "evm_hash \<Rightarrow> (sm_state, unit) proc" where
  "deletionDone hash =
     bindp (getsp (\<lambda>s. store_delete (storedCompletedTxs s) hash)) (\<lambda>r.
     bindp (liftp r) (\<lambda>c. modifyp (\<lambda>s. s\<lparr>storedCompletedTxs := c\<rparr>)))"

definition matchSettlement :: "noble_address \<Rightarrow> int \<Rightarrow> (sm_state, pending_tx list) proc" where
  "matchSettlement nfa amt =
     bindp (getsp (\<lambda>s. matchAndDequeueSettlement (pendingSettleTxs s) nfa amt)) (\<lambda>r.
     bindp (liftp r) (\<lambda>(matched, pending').
     thenp (modifyp (\<lambda>s. upd_pending s pending')) (ret matched)))"

definition disbursed :: "evm_hash \<Rightarrow> repay_split \<Rightarrow> (sm_state, unit) proc" where
  "disbursed hash split = publishTxnRecord hash ((status_record Disbursed)\<lparr>recSplit := Some split\<rparr>)"

definition forwarding :: "evm_hash \<Rightarrow> (sm_state, unit) proc" where
  "forwarding hash =
     bindp (getsp (\<lambda>s. store_has (forwardInProgress s) hash)) (\<lambda>busy.
     thenp (requirep (\<not> busy) AlreadyInProgress)
           (modifyp (\<lambda>s. s\<lparr>forwardInProgress := set_add (forwardInProgress s) hash\<rparr>)))"

definition clearInProgress :: "evm_hash \<Rightarrow> (sm_state, unit) proc" where
  "clearInProgress hash = modifyp (\<lambda>s. s\<lparr>forwardInProgress := drop_entry hash (forwardInProgress s)\<rparr>)"

definition forwarded :: "route_health \<Rightarrow> evm_hash \<Rightarrow> forward_failed_tx option \<Rightarrow> (sm_state, unit) proc" where
  "forwarded rh hash t =
     thenp (clearInProgress hash)
    (thenp (case t of
              None \<Rightarrow> ret ()
            | Some ff \<Rightarrow>
                thenp (modifyp (\<lambda>s. s\<lparr>failedForwards := drop_entry hash (failedForwards s)\<rparr>))
                      (noteRouteHealth rh (fwDestination ff) True))
           (publishTxnRecord hash (status_record Forwarded)))"

definition registerFailed :: "forward_failed_tx \<Rightarrow> chain_id \<Rightarrow> (sm_state, unit) proc" where
  "registerFailed ff chain =
     modifyp (\<lambda>s. if store_has (failedForwards s) (fwTxHash ff) then s
                  else s\<lparr>failedForwards :=
                           put_entry (fwTxHash ff) (ff\<lparr>fwChainId := Some chain\<rparr>) (failedForwards s)\<rparr>)"

definition forwardFailed :: "route_health \<Rightarrow> evm_hash \<Rightarrow> forward_failed_tx option \<Rightarrow> (sm_state, unit) proc" where
  "forwardFailed rh hash t =
     thenp (clearInProgress hash)
    (thenp (case t of
              None \<Rightarrow> ret ()
            | Some ff \<Rightarrow>
                thenp (requirep (fwTxHash ff = hash) TxHashMismatch)
               (bindp (liftp (chainOfAccount (fwDestination ff))) (\<lambda>chain.
                thenp (registerFailed ff chain)
                      (noteRouteHealth rh (fwDestination ff) False))))
           (publishTxnRecord hash (status_record ForwardFailed)))"

definition forwardSkipped :: "evm_hash \<Rightarrow> (sm_state, unit) proc" where
  "forwardSkipped hash = publishTxnRecord hash (status_record ForwardedSkipped)"

definition lookupPending :: "sm_state \<Rightarrow> noble_address \<Rightarrow> int \<Rightarrow> pending_tx list" where
  "lookupPending s nfa amt =
     (case map_of (pendingSettleTxs s) nfa of
        None \<Rightarrow> []
      | Some pendingTxs \<Rightarrow> filter (\<lambda>p. tx_amount p = amt) pendingTxs)"

end
