(* ===== verification/ForwardRetrier.thy ===== *)
theory ForwardRetrier
  imports StatusManager
begin

text \<open>
  The forward retrier (\<open>utils/forward-retrier.ts\<close>): the route-health handlers that start a
  failed forward again, one on each failure of a route that still works, all of them when a
  route works again. Starting a forward is a call of the \<open>forwardFunds\<close> flow, recorded in
  \<open>startedForwards\<close>; the flow runs in a later turn.
\<close>

definition startForward :: "forward_failed_tx \<Rightarrow> sm_state \<Rightarrow> sm_state" where
  "startForward ff s =
     s\<lparr>startedForwards := startedForwards s @
        [\<lparr>fwDestination = fwDestination ff, fwAmount = fwAmount ff, fwTxHash = fwTxHash ff,
          fundsInNobleIca = None, fwChainId = None\<rparr>]\<rparr>"

text \<open>The loop of \<open>attemptToClear\<close>, which stops once the chain is not working.\<close>

fun clearLoop :: "nat \<Rightarrow> chain_id \<Rightarrow> failures \<Rightarrow> forward_failed_tx list \<Rightarrow> sm_state \<Rightarrow> sm_state" where
  "clearLoop maxF chain f [] s = s"
| "clearLoop maxF chain f (ff # ffs) s =
     (if \<not> isWorking maxF f chain then s
      else clearLoop maxF chain f ffs (startForward ff s))"

definition attemptToClear :: "nat \<Rightarrow> chain_id \<Rightarrow> failures \<Rightarrow> sm_state \<Rightarrow> sm_state" where
  "attemptToClear maxF chain f s =
     (let failed = getForwardsToRetry s chain in
      if failed = [] then s else clearLoop maxF chain f failed s)"

definition attemptOne :: "chain_id \<Rightarrow> sm_state \<Rightarrow> sm_state" where
  "attemptOne chain s =
     (case getForwardsToRetry s chain of [] \<Rightarrow> s | ff # _ \<Rightarrow> startForward ff s)"

definition retrier_handlers :: "nat \<Rightarrow> sm_state partial_handler" where
  "retrier_handlers maxF =
     \<lparr>cbEachFailure = Some (\<lambda>chain f s. if isWorking maxF f chain then attemptOne chain s else s),
      cbEachSuccess = None,
      cbWorking = Some (\<lambda>chain f s. attemptToClear maxF chain f s),
      cbDerelict = Some (\<lambda>chain f s. s)\<rparr>"

definition startForwardRetrier :: "route_health \<Rightarrow> route_health" where
  "startForwardRetrier rh =
     rh\<lparr>handlers := setEventHandlers (handlers rh) (retrier_handlers (maxFailures rh))\<rparr>"

definition makeRouteHealth :: "nat \<Rightarrow> route_health" where
  "makeRouteHealth maxF = \<lparr>maxFailures = maxF, handlers = default_handlers\<rparr>"

abbreviation retrier :: "nat \<Rightarrow> route_health" where
  "retrier maxF \<equiv> startForwardRetrier (makeRouteHealth maxF)"

section \<open>What the handlers do\<close>

definition as_started :: "forward_failed_tx \<Rightarrow> forward_failed_tx" where
  "as_started ff = ff\<lparr>fundsInNobleIca := None, fwChainId := None\<rparr>"

lemma startForward_eq: "startForward ff s = s\<lparr>startedForwards := startedForwards s @ [as_started ff]\<rparr>"
  by (simp add: startForward_def as_started_def)

lemma clearLoop_eq:
  "clearLoop m c f ffs s =
     (if isWorking m f c then s\<lparr>startedForwards := startedForwards s @ map as_started ffs\<rparr> else s)"
  by (induction ffs arbitrary: s) (auto simp: startForward_eq)

lemma attemptToClear_eq:
  "attemptToClear m c f s =
     (if isWorking m f c
      then s\<lparr>startedForwards := startedForwards s @ map as_started (getForwardsToRetry s c)\<rparr> else s)"
  by (simp add: attemptToClear_def clearLoop_eq Let_def)

lemma attemptOne_eq:
  "attemptOne c s = s\<lparr>startedForwards := startedForwards s @ map as_started (take 1 (getForwardsToRetry s c))\<rparr>"
  by (simp add: attemptOne_def startForward_eq split: list.split)

lemma maxFailures_retrier [simp]: "maxFailures (retrier m) = m"
  by (simp add: startForwardRetrier_def makeRouteHealth_def)

lemma retrier_handlers_eqs [simp]:
  "onEachFailure (handlers (retrier m)) c f s = (if isWorking m f c then attemptOne c s else s)"
  "onEachSuccess (handlers (retrier m)) c f s = s"
  "onWorking (handlers (retrier m)) c f s = attemptToClear m c f s"
  "onDerelict (handlers (retrier m)) c f s = s"
  by (simp_all add: startForwardRetrier_def makeRouteHealth_def setEventHandlers_def
      retrier_handlers_def override_def default_handlers_def)

text \<open>
  The forwards a report starts: after a failure the first one to retry, as long as the route
  stays below the threshold; after a success all of them, when the route was derelict.
\<close>

definition retries :: "nat \<Rightarrow> sm_state \<Rightarrow> chain_id \<Rightarrow> bool \<Rightarrow> forward_failed_tx list" where
  "retries m s c working =
     (if working
      then (if \<not> isWorking m (routeFailures s) c \<and> m > 0 then getForwardsToRetry s c else [])
      else (if Suc (getFailureCount (routeFailures s) c) < m then take 1 (getForwardsToRetry s c) else []))"

definition after_report :: "failures \<Rightarrow> chain_id \<Rightarrow> bool \<Rightarrow> failures" where
  "after_report f c working = (if working then f(c := None) else f(c \<mapsto> Suc (getFailureCount f c)))"

lemma noteReport_retrier:
  "noteReport m (handlers (retrier m)) (c, w) (routeFailures s, s) =
     (after_report (routeFailures s) c w,
      s\<lparr>startedForwards := startedForwards s @ map as_started (retries m s c w)\<rparr>)"
  by (auto simp: noteReport_def noteFailure_def noteSuccess_def Let_def retries_def after_report_def
      attemptToClear_eq attemptOne_eq isWorking_def)

lemma noteRouteHealth_retrier:
  "noteRouteHealth (retrier m) d w s =
     (case chainOfAccount d of
        Inl e \<Rightarrow> (Inl e, s)
      | Inr c \<Rightarrow> (Inr (), s\<lparr>startedForwards := startedForwards s @ map as_started (retries m s c w),
                            routeFailures := after_report (routeFailures s) c w\<rparr>))"
  by (simp add: noteRouteHealth_def noteReport_retrier split: sum.split)

end
