(* ===== verification/StatusMachine.thy ===== *)
theory StatusMachine
  imports ForwardRetrier
begin

text \<open>
  The status manager as a state machine: every method call as a step, the invariant of its
  stores, and the proof that each method keeps it, for the handlers the contract installs.
\<close>

section \<open>Calls\<close>

datatype sm_call =
    CAdvance evidence
  | CSkipAdvance evidence "string list"
  | CAdvanceOutcome noble_address int bool "account_id option"
  | CMintedEarlyOutcome evm_hash bool "account_id option"
  | CUnknownMint evidence
  | CDeleteCompleted
  | CDeletionDone evm_hash
  | CMatch noble_address int
  | CDisbursed evm_hash repay_split
  | CForwarding evm_hash
  | CForwarded evm_hash "forward_failed_tx option"
  | CForwardFailed evm_hash "forward_failed_tx option"
  | CForwardSkipped evm_hash

fun sm_run :: "route_health \<Rightarrow> sm_call \<Rightarrow> (sm_state, unit) proc" where
  "sm_run rh (CAdvance ev) = advance ev"
| "sm_run rh (CSkipAdvance ev risks) = skipAdvance ev risks"
| "sm_run rh (CAdvanceOutcome nfa amt ok d) = advanceOutcome rh nfa amt ok d"
| "sm_run rh (CMintedEarlyOutcome h ok d) = advanceOutcomeForMintedEarly rh h ok d"
| "sm_run rh (CUnknownMint ev) = advanceOutcomeForUnknownMint ev"
| "sm_run rh CDeleteCompleted = deleteCompletedTxs"
| "sm_run rh (CDeletionDone h) = deletionDone h"
| "sm_run rh (CMatch nfa amt) = bindp (matchSettlement nfa amt) (\<lambda>_. ret ())"
| "sm_run rh (CDisbursed h sp) = disbursed h sp"
| "sm_run rh (CForwarding h) = forwarding h"
| "sm_run rh (CForwarded h t) = forwarded rh h t"
| "sm_run rh (CForwardFailed h t) = forwardFailed rh h t"
| "sm_run rh (CForwardSkipped h) = forwardSkipped h"

text \<open>The interface guard of the exo class.\<close>

fun sm_guard :: "sm_call \<Rightarrow> bool" where
  "sm_guard (CAdvance ev) = evidence_shape ev"
| "sm_guard (CSkipAdvance ev risks) = evidence_shape ev"
| "sm_guard (CAdvanceOutcome nfa amt ok d) = (0 \<le> amt)"
| "sm_guard (CUnknownMint ev) = evidence_shape ev"
| "sm_guard _ = True"

inductive sm_step :: "nat \<Rightarrow> sm_state \<Rightarrow> sm_state \<Rightarrow> bool" for maxF where
  sm_stepI: "sm_guard c \<Longrightarrow> sm_run (retrier maxF) c s = (r, s') \<Longrightarrow> sm_step maxF s s'"

inductive_cases sm_stepE: "sm_step maxF s s'"

definition sm_init :: sm_state where
  "sm_init = \<lparr>pendingSettleTxs = [], seenTxs = [], failedForwards = [], forwardInProgress = [],
     storedCompletedTxs = [], published = [], deletions = [], routeFailures = Map.empty,
     startedForwards = []\<rparr>"

section \<open>The invariant\<close>

definition pend_hashes :: "pending_store \<Rightarrow> noble_address \<Rightarrow> evm_hash multiset" where
  "pend_hashes p nfa = image_mset txHash (mset (queue_of p nfa))"

definition observed_count :: "(evm_hash \<times> txn_record) list \<Rightarrow> evm_hash \<Rightarrow> nat" where
  "observed_count pub h = length (filter (\<lambda>(k, rec). k = h \<and> recStatus rec = Observed) pub)"

text \<open>The queues hold seen transactions only, each hash once over all the addresses.\<close>

definition pending_unique :: "pending_store \<Rightarrow> (evm_hash, int) mapstore \<Rightarrow> bool" where
  "pending_unique p seen \<longleftrightarrow>
     (\<forall>nfa h. count (pend_hashes p nfa) h \<le> 1) \<and>
     (\<forall>nfa h. h \<in># pend_hashes p nfa \<longrightarrow> store_has seen h) \<and>
     (\<forall>n m h. h \<in># pend_hashes p n \<longrightarrow> h \<in># pend_hashes p m \<longrightarrow> n = m)"

definition failed_ok :: "(evm_hash, forward_failed_tx) mapstore \<Rightarrow> bool" where
  "failed_ok f \<longleftrightarrow> store_ok f \<and>
     ms.holds_all (\<lambda>h ff. fwTxHash ff = h \<and> (\<exists>c. fwChainId ff = Some c \<and>
                           chainOfAccount (fwDestination ff) = Inr c)) f"

text \<open>A transaction is published as observed exactly once, when it is first seen.\<close>

definition observed_ok :: "(evm_hash \<times> txn_record) list \<Rightarrow> (evm_hash, int) mapstore \<Rightarrow> bool" where
  "observed_ok pub seen \<longleftrightarrow> (\<forall>h. observed_count pub h = (if store_has seen h then 1 else 0))"

definition completed_ok :: "(evm_hash, unit) mapstore \<Rightarrow> (evm_hash \<times> txn_record) list \<Rightarrow> bool" where
  "completed_ok c pub \<longleftrightarrow> store_ok c \<and>
     (\<forall>h. store_has c h \<longrightarrow> (\<exists>rec. (h, rec) \<in> set pub \<and> TerminalTxStatus (recStatus rec)))"

definition sm_ok :: "sm_state \<Rightarrow> bool" where
  "sm_ok s \<longleftrightarrow> pending_ok (pendingSettleTxs s) \<and> store_ok (seenTxs s) \<and>
     store_ok (forwardInProgress s) \<and> failed_ok (failedForwards s) \<and>
     pending_unique (pendingSettleTxs s) (seenTxs s) \<and> observed_ok (published s) (seenTxs s) \<and>
     completed_ok (storedCompletedTxs s) (published s)"

lemma sm_ok_init: "sm_ok sm_init"
  by (simp add: sm_ok_def sm_init_def failed_ok_def ms.holds_all_def pending_unique_def
      pend_hashes_def queue_of_def observed_ok_def observed_count_def completed_ok_def)

section \<open>Each part is kept\<close>

lemma observed_count_snoc [simp]:
  "observed_count (pub @ [(k, rec)]) h = observed_count pub h + (if k = h \<and> recStatus rec = Observed then 1 else 0)"
  by (simp add: observed_count_def)

lemma store_ok_set_add [simp]: "store_ok s \<Longrightarrow> store_ok (set_add s k)"
  by (auto simp: set_add_def)

lemma status_record_sel [simp]:
  "recStatus (status_record st) = st" "recEvidence (status_record st) = None"
  "recRisks (status_record st) = None" "recSplit (status_record st) = None"
  by (simp_all add: status_record_def)

lemma completed_ok_publish:
  "completed_ok c pub \<Longrightarrow> completed_ok c (pub @ [e])"
  "completed_ok c pub \<Longrightarrow> TerminalTxStatus (recStatus rec) \<Longrightarrow>
     completed_ok (set_add c h) (pub @ [(h, rec)])"
  by (auto simp: completed_ok_def)

lemma observed_ok_publish:
  "observed_ok pub seen \<Longrightarrow> recStatus rec \<noteq> Observed \<Longrightarrow> observed_ok (pub @ [(h, rec)]) seen"
  by (simp add: observed_ok_def)

definition publish :: "evm_hash \<Rightarrow> txn_record \<Rightarrow> sm_state \<Rightarrow> sm_state" where
  "publish h rec s =
     s\<lparr>storedCompletedTxs :=
         (if TerminalTxStatus (recStatus rec) then set_add (storedCompletedTxs s) h else storedCompletedTxs s),
       published := published s @ [(h, rec)]\<rparr>"

lemma publishTxnRecord_eq: "publishTxnRecord h rec s = (Inr (), publish h rec s)"
  by (simp add: publishTxnRecord_def publish_def)

lemma sm_ok_publish: "sm_ok s \<Longrightarrow> recStatus rec \<noteq> Observed \<Longrightarrow> sm_ok (publish h rec s)"
  by (simp add: sm_ok_def publish_def observed_ok_publish completed_ok_publish)

lemma keeps_publish [keeps_intros]:
  "recStatus rec \<noteq> Observed \<Longrightarrow> keeps sm_ok (publishTxnRecord h rec)"
  by (rule keepsI) (simp add: publishTxnRecord_eq sm_ok_publish)

lemma after_report_ok: "sm_ok (s\<lparr>startedForwards := x, routeFailures := y\<rparr>) = sm_ok s"
  by (simp add: sm_ok_def)

lemma keeps_noteRouteHealth [keeps_intros]: "keeps sm_ok (noteRouteHealth (retrier m) d w)"
  by (rule keepsI) (simp add: noteRouteHealth_retrier after_report_ok split: sum.split)

lemma keeps_noteOptional [keeps_intros]: "keeps sm_ok (noteOptional (retrier m) d w)"
  by (cases d) (auto simp: noteOptional_def intro: keeps_intros)

text \<open>Recording a transaction seen for the first time.\<close>

definition see :: "evidence \<Rightarrow> sm_state \<Rightarrow> sm_state" where
  "see ev s = s\<lparr>seenTxs := put_entry (txHash ev) (blockTimestamp ev) (seenTxs s),
                published := published s @ [(txHash ev, (status_record Observed)\<lparr>recEvidence := Some ev\<rparr>)]\<rparr>"

lemma sm_ok_see: "sm_ok s \<Longrightarrow> \<not> store_has (seenTxs s) (txHash ev) \<Longrightarrow> sm_ok (see ev s)"
  by (simp add: sm_ok_def see_def pending_unique_def observed_ok_def completed_ok_publish
      store_ok_put_entry)

lemma advanceOutcomeForUnknownMint_eq:
  "advanceOutcomeForUnknownMint ev s =
     (if store_has (seenTxs s) (txHash ev) then (Inl AlreadySeen, s) else (Inr (), see ev s))"
  by (simp add: advanceOutcomeForUnknownMint_def store_init_def publishEvidence_def publishTxnRecord_def
      see_def)

lemma keeps_unknownMint [keeps_intros]: "keeps sm_ok (advanceOutcomeForUnknownMint ev)"
  by (rule keepsI) (simp add: advanceOutcomeForUnknownMint_eq sm_ok_see)

text \<open>Adding a pending transaction.\<close>

definition enqueue :: "pending_store \<Rightarrow> pending_tx \<Rightarrow> pending_store" where
  "enqueue store p = (case addPendingSettleTx store p of Inl _ \<Rightarrow> store | Inr store' \<Rightarrow> store')"

lemma enqueue_ok: "pending_ok st \<Longrightarrow> 0 \<le> tx_amount p \<Longrightarrow> pending_ok (enqueue st p)"
  by (erule (1) addPendingSettleTx_ok [of st p]) (simp add: enqueue_def)

lemma enqueue_hashes:
  "pending_ok st \<Longrightarrow> 0 \<le> tx_amount p \<Longrightarrow>
     pend_hashes (enqueue st p) nfa =
       (if nfa = tx_nfa p then add_mset (txHash p) (pend_hashes st nfa) else pend_hashes st nfa)"
  by (erule (1) addPendingSettleTx_ok [of st p]) (simp add: enqueue_def pend_hashes_def)

lemma initPendingTx_eq:
  "initPendingTx ev st risks s =
     (if store_has (seenTxs s) (txHash ev) then (Inl AlreadySeen, s)
      else (Inr (),
        publish (txHash ev)
          (if st = AdvanceSkipped then (status_record (Pending st))\<lparr>recRisks := risks\<rparr>
           else status_record (Pending st))
          ((see ev s)\<lparr>pendingSettleTxs := enqueue (pendingSettleTxs s) (with_status ev st)\<rparr>)))"
  by (simp add: initPendingTx_def store_init_def publishEvidence_def publishTxnRecord_eq see_def
      publish_def enqueue_def addPendingSettleTx_step)

lemma pending_unique_enqueue:
  assumes "pending_ok p" "0 \<le> tx_amount t" "pending_unique p seen" "\<not> store_has seen (txHash t)"
  shows "pending_unique (enqueue p t) (put_entry (txHash t) ts seen)"
proof -
  have new: "\<forall>nfa. txHash t \<notin># pend_hashes p nfa"
    using assms(3,4) by (auto simp: pending_unique_def)
  then have "count (pend_hashes p (tx_nfa t)) (txHash t) = 0" by (simp add: not_in_iff)
  with new assms show ?thesis
    by (simp add: pending_unique_def enqueue_hashes) blast
qed

lemma keeps_initPendingTx [keeps_intros]:
  assumes "evidence_shape ev"
  shows "keeps sm_ok (initPendingTx ev st risks)"
proof (rule keepsI)
  fix s assume ok: "sm_ok s"
  show "sm_ok (snd (initPendingTx ev st risks s))"
  proof (cases "store_has (seenTxs s) (txHash ev)")
    case False
    have "sm_ok (see ev s)" using ok False by (rule sm_ok_see)
    moreover have "pending_ok (enqueue (pendingSettleTxs s) (with_status ev st))"
      using ok assms by (intro enqueue_ok) (auto simp: sm_ok_def evidence_shape_def)
    moreover have "pending_unique (enqueue (pendingSettleTxs s) (with_status ev st)) (seenTxs (see ev s))"
      using pending_unique_enqueue [of "pendingSettleTxs s" "with_status ev st" "seenTxs s"] ok assms False
      by (simp add: sm_ok_def see_def evidence_shape_def)
    ultimately have "sm_ok ((see ev s)\<lparr>pendingSettleTxs := enqueue (pendingSettleTxs s) (with_status ev st)\<rparr>)"
      by (simp add: sm_ok_def)
    then show ?thesis using False by (simp add: initPendingTx_eq sm_ok_publish)
  qed (simp add: initPendingTx_eq ok)
qed

text \<open>Changing the status of one queued transaction.\<close>

definition set_status :: "pending_tx list \<Rightarrow> nat \<Rightarrow> pending_status \<Rightarrow> pending_tx list" where
  "set_status list ix st = list[ix := (list ! ix)\<lparr>status := st\<rparr>]"

definition advancing_ix :: "pending_tx list \<Rightarrow> int \<Rightarrow> nat option" where
  "advancing_ix list amt = findIndex (\<lambda>p. status p = Advancing \<and> tx_amount p = amt) list"

lemma advancing_ix_lt: "advancing_ix list amt = Some ix \<Longrightarrow> ix < length list"
  by (simp add: advancing_ix_def findIndex_Some)

lemma setPendingTxStatus_eq:
  "setPendingTxStatus nfa amt st s =
     (case map_of (pendingSettleTxs s) nfa of
        None \<Rightarrow> (Inl KeyNotFound, s)
      | Some list \<Rightarrow>
          (case advancing_ix list amt of
             None \<Rightarrow> (Inl NoAdvancingTx, s)
           | Some ix \<Rightarrow>
               (Inr (), publish (txHash (list ! ix)) (status_record (Pending st))
                  (upd_pending s (put_entry nfa (set_status list ix st) (pendingSettleTxs s))))))"
  by (cases "map_of (pendingSettleTxs s) nfa";
      cases "advancing_ix (the (map_of (pendingSettleTxs s) nfa)) amt")
    (simp_all add: setPendingTxStatus_def store_get_def store_set_def store_has_def publishTxnRecord_eq
      set_status_def upd_conv_take_nth_drop advancing_ix_lt [unfolded advancing_ix_def] advancing_ix_def)

lemma status_update_sel [simp]:
  "tx (p\<lparr>status := st\<rparr>) = tx p" "txHash (p\<lparr>status := st\<rparr>) = txHash (p :: pending_tx)"
  by simp_all

lemma map_set_status:
  "ix < length list \<Longrightarrow> (\<And>p. f (p\<lparr>status := st\<rparr>) = f p) \<Longrightarrow> map f (set_status list ix st) = map f list"
  by (simp add: set_status_def map_update list_update_same_conv)

lemma queue_ok_set_status:
  assumes "queue_ok nfa list" "ix < length list"
  shows "queue_ok nfa (set_status list ix st)"
proof -
  let ?l = "set_status list ix st"
  have t: "map tx ?l = map tx list" using assms(2) by (rule map_set_status) simp
  then have n: "length ?l = length list" "\<And>i. i < length list \<Longrightarrow> tx (?l ! i) = tx (list ! i)"
    by (auto dest: map_eq_imp_length_eq) (metis map_eq_imp_length_eq nth_map t)
  have "desc.ordered ?l"
    using assms(1) n by (simp add: queue_ok_def desc.ordered_def sorted_wrt_iff_nth_less comparePendingTxDesc_def)
  moreover have "?l \<noteq> []" using assms n by auto
  ultimately show ?thesis
    using assms(1) n by (auto simp: queue_ok_def in_set_conv_nth) (metis nth_mem)+
qed

lemma pend_hashes_set_status:
  "map_of p nfa = Some list \<Longrightarrow> ix < length list \<Longrightarrow>
     pend_hashes (put_entry nfa (set_status list ix st) p) = pend_hashes p"
  by (rule ext)
    (simp add: pend_hashes_def map_set_status queue_of_def flip: mset_map)

lemma keeps_setPendingTxStatus [keeps_intros]: "keeps sm_ok (setPendingTxStatus nfa amt st)"
proof (rule keepsI)
  fix s assume ok: "sm_ok s"
  have "sm_ok (upd_pending s (put_entry nfa (set_status list ix st) (pendingSettleTxs s)))"
    if "map_of (pendingSettleTxs s) nfa = Some list" "advancing_ix list amt = Some ix" for list ix
  proof -
    have ix: "ix < length list" using that(2) by (rule advancing_ix_lt)
    have "queue_ok nfa list" using ok that(1) by (auto simp: sm_ok_def intro: pending_okD)
    then have "pending_ok (put_entry nfa (set_status list ix st) (pendingSettleTxs s))"
      using ok ix by (auto simp: sm_ok_def intro: pending_ok_put queue_ok_set_status)
    with ok that(1) ix show ?thesis
      by (simp add: sm_ok_def pending_unique_def pend_hashes_set_status)
  qed
  then show "sm_ok (snd (setPendingTxStatus nfa amt st s))"
    using ok by (auto simp: setPendingTxStatus_eq intro!: sm_ok_publish split: option.split)
qed

text \<open>Dequeuing a settlement, and the stores of the forwards.\<close>

lemma matchSettlement_eq:
  "matchSettlement nfa amt s =
     (case matchAndDequeueSettlement (pendingSettleTxs s) nfa amt of
        Inl e \<Rightarrow> (Inl e, s)
      | Inr (matched, p) \<Rightarrow> (Inr matched, upd_pending s p))"
  by (simp add: matchSettlement_def split: sum.split prod.split)

lemma pending_unique_sub:
  "pending_unique p seen \<Longrightarrow> (\<And>nfa. pend_hashes p' nfa \<subseteq># pend_hashes p nfa) \<Longrightarrow> pending_unique p' seen"
  unfolding pending_unique_def
  by (meson mset_subset_eqD mset_subset_eq_count order_trans)

lemma match_hashes:
  assumes "pending_ok p" "matchAndDequeueSettlement p nfa amt = Inr (matched, p')"
  shows "pend_hashes p' n \<subseteq># pend_hashes p n"
  using match_result(2,3) [OF assms] by (cases "n = nfa") (simp_all add: pend_hashes_def)

lemma keeps_matchSettlement [keeps_intros]: "keeps sm_ok (matchSettlement nfa amt)"
  by (rule keepsI)
    (auto simp: matchSettlement_eq sm_ok_def intro: match_result(1) pending_unique_sub match_hashes
      split: sum.split)

lemma keeps_forwarding [keeps_intros]: "keeps sm_ok (forwarding h)"
  unfolding forwarding_def by (intro keeps_intros keeps_modifyp) (simp add: sm_ok_def)

lemma keeps_clearInProgress [keeps_intros]: "keeps sm_ok (clearInProgress h)"
  unfolding clearInProgress_def by (rule keeps_modifyp) (simp add: sm_ok_def store_ok_drop_entry)

lemma keeps_dropFailed [keeps_intros]:
  "keeps sm_ok (modifyp (\<lambda>s. s\<lparr>failedForwards := drop_entry h (failedForwards s)\<rparr>))"
  by (rule keeps_modifyp)
    (simp add: sm_ok_def failed_ok_def store_ok_drop_entry ms.holds_all_del)

lemma keeps_forwarded [keeps_intros]: "keeps sm_ok (forwarded (retrier m) h t)"
  unfolding forwarded_def by (cases t) (auto intro!: keeps_intros)

lemma forwardFailed_reg:
  "sm_ok s \<Longrightarrow> chainOfAccount (fwDestination ff) = Inr chain \<Longrightarrow> sm_ok (snd (registerFailed ff chain s))"
  by (simp add: registerFailed_def sm_ok_def failed_ok_def store_ok_put_entry ms.holds_all_put)

lemma keeps_forwardFailed [keeps_intros]: "keeps sm_ok (forwardFailed (retrier m) h t)"
proof -
  have "keeps sm_ok (bindp (liftp (chainOfAccount (fwDestination ff)))
          (\<lambda>chain. thenp (registerFailed ff chain) (noteRouteHealth (retrier m) (fwDestination ff) False)))" for ff
    using keepsD [OF keeps_noteRouteHealth] forwardFailed_reg
    by (intro keepsI) (fastforce split: sum.splits prod.splits simp: registerFailed_def)
  then show ?thesis
    unfolding forwardFailed_def
    by (cases t) (simp_all add: keeps_thenp keeps_clearInProgress keeps_publish keeps_ret keeps_requirep)
qed

lemma keeps_deletions [keeps_intros]: "keeps sm_ok deleteCompletedTxs" "keeps sm_ok (deletionDone h)"
  by (auto simp: deleteCompletedTxs_def deletionDone_def keeps_def sm_ok_def store_delete_def completed_ok_def
      store_ok_drop_entry)

lemma keeps_sm_run: "sm_guard c \<Longrightarrow> keeps sm_ok (sm_run (retrier m) c)"
  by (cases c)
    (auto simp: advance_def skipAdvance_def advanceOutcome_def advanceOutcomeForMintedEarly_def
      disbursed_def forwardSkipped_def intro!: keeps_intros)

interpretation sm: machine "\<lambda>s. s = sm_init" "sm_step maxF" sm_ok for maxF
proof
  show "sm_ok s" if "s = sm_init" for s using that sm_ok_init by simp
  show "sm_ok t" if "sm_step maxF s t" "sm_ok s" for s t
    using that by (elim sm_stepE) (metis keepsD keeps_sm_run snd_conv)
qed

section \<open>Properties\<close>

lemma note_eq_no_route:
  "chainOfAccount d = Inl e \<Longrightarrow> noteRouteHealth rh d w s = (Inl e, s)"
  by (simp add: noteRouteHealth_def)

text \<open>C38: in every state the method calls can reach, a transaction hash is queued at most
  once over all the forwarding addresses, only transactions that have been seen are queued,
  and each seen transaction was published as observed exactly once.\<close>

theorem pending_at_most_once:
  assumes "(sm_step maxF)\<^sup>*\<^sup>* sm_init s"
  shows "count (pend_hashes (pendingSettleTxs s) nfa) h \<le> 1
    \<and> (h \<in># pend_hashes (pendingSettleTxs s) nfa \<longrightarrow> store_has (seenTxs s) h)
    \<and> (h \<in># pend_hashes (pendingSettleTxs s) nfa \<longrightarrow> h \<in># pend_hashes (pendingSettleTxs s) nfa' \<longrightarrow> nfa' = nfa)
    \<and> observed_count (published s) h = (if store_has (seenTxs s) h then 1 else 0)"
proof -
  have "sm_ok s" using sm.inv_reachable [OF refl assms] .
  then show ?thesis
    unfolding sm_ok_def pending_unique_def observed_ok_def by blast
qed

text \<open>the outcome of an advance changes the status of one transaction only: the first one
  of that address that is advancing with that amount; it is published under its hash. With
  no such transaction the call throws and leaves the queues alone.\<close>

theorem advanceOutcome_updates_first_advancing:
  assumes "map_of (pendingSettleTxs s) nfa = Some list"
  shows "advanceOutcome rh nfa amt ok None s =
    (case advancing_ix list amt of
       None \<Rightarrow> (Inl NoAdvancingTx, s)
     | Some ix \<Rightarrow>
         (Inr (), publish (txHash (list ! ix))
            (status_record (Pending (if ok then Advanced else AdvanceFailed)))
            (upd_pending s (put_entry nfa
               (set_status list ix (if ok then Advanced else AdvanceFailed)) (pendingSettleTxs s)))))"
  using assms by (simp add: advanceOutcome_def noteOptional_def setPendingTxStatus_eq)

text \<open>whatever is reported about a route, the forwards it starts are failed forwards of
  that very chain that are not in flight; a failing route retries at most one, and none once
  it reached the threshold.\<close>

theorem retries_only_idle_failures:
  assumes "ff \<in> set (retries maxF s chain working)"
  shows "fwChainId ff = Some chain \<and> \<not> store_has (forwardInProgress s) (fwTxHash ff)
    \<and> ff \<in> set (store_values (failedForwards s))
    \<and> (\<not> working \<longrightarrow> length (retries maxF s chain working) = 1
         \<and> isWorking maxF (after_report (routeFailures s) chain working) chain)"
proof -
  have g: "x \<in> set (getForwardsToRetry s chain) \<Longrightarrow> fwChainId x = Some chain
      \<and> \<not> store_has (forwardInProgress s) (fwTxHash x) \<and> x \<in> set (store_values (failedForwards s))" for x
    by (auto simp: getForwardsToRetry_def)
  from assms have "ff \<in> set (getForwardsToRetry s chain)"
    by (auto simp: retries_def split: if_splits dest: in_set_takeD)
  moreover have "length (retries maxF s chain working) = 1 \<and>
      isWorking maxF (after_report (routeFailures s) chain working) chain" if "\<not> working"
    using that assms
    by (cases "getForwardsToRetry s chain") (auto simp: retries_def isWorking_def after_report_def split: if_splits)
  ultimately show ?thesis using g by blast
qed

text \<open>a failed forward with its details is registered for retry under its hash (once),
  leaves the in-flight set, counts one failure of its route, and is published as failed; the
  retry it triggers is chosen after the registration.\<close>

theorem forwardFailed_registers:
  assumes "chainOfAccount (fwDestination ff) = Inr chain" and "\<not> store_has (failedForwards s) (fwTxHash ff)"
  shows "(let s1 = s\<lparr>forwardInProgress := drop_entry (fwTxHash ff) (forwardInProgress s),
                     failedForwards := put_entry (fwTxHash ff) (ff\<lparr>fwChainId := Some chain\<rparr>) (failedForwards s)\<rparr>
          in forwardFailed (retrier maxF) (fwTxHash ff) (Some ff) s =
               (Inr (), publish (fwTxHash ff) (status_record ForwardFailed)
                  (s1\<lparr>startedForwards := startedForwards s @ map as_started (retries maxF s1 chain False),
                      routeFailures := (routeFailures s)(chain \<mapsto> Suc (getFailureCount (routeFailures s) chain))\<rparr>)))"
  using assms
  by (simp add: forwardFailed_def clearInProgress_def registerFailed_def noteRouteHealth_retrier
      publishTxnRecord_eq after_report_def Let_def)

text \<open>a forward reported as done without its details leaves its failed-forward
  entry in place, so once it is idle again the transaction is still offered for retry.\<close>

theorem forwarded_without_details_keeps_retry:
  assumes "map_of (failedForwards s) h = Some ff" and "fwTxHash ff = h" and "fwChainId ff = Some chain"
  shows "ff \<in> set (getForwardsToRetry (snd (forwarded rh h None s)) chain)"
  using assms
  by (auto simp: forwarded_def clearInProgress_def publishTxnRecord_eq publish_def getForwardsToRetry_def
      store_values_def intro!: image_eqI [where x = "(h, ff)"] map_of_SomeD)

section \<open>Examples\<close>

definition ex_ff :: forward_failed_tx where
  "ex_ff = \<lparr>fwDestination = ''eip155:8453:0xabc'', fwAmount = 100, fwTxHash = ''h1'',
     fundsInNobleIca = None, fwChainId = None\<rparr>"

definition ex_failed :: sm_state where
  "ex_failed = sm_init\<lparr>failedForwards := [(''h1'', ex_ff\<lparr>fwChainId := Some ''eip155:8453''\<rparr>)]\<rparr>"

lemma ex_chain: "chainOfAccount (fwDestination ex_ff) = Inr ''eip155:8453''"
  by (simp add: ex_ff_def chainOfAccount_def parseAccountId_def)

definition ex_ev :: evidence where
  "ex_ev = evidence.truncate (ex_tx ''h1'' 50)"

lemma ex_reach: "(sm_step 6)\<^sup>*\<^sup>* sm_init (snd (sm_run (retrier 6) (CAdvance ex_ev) sm_init))"
proof -
  have "sm_guard (CAdvance ex_ev)"
    by (simp add: evidence_shape_def ex_ev_def ex_tx_def with_status_def evidence.defs)
  then have "sm_step 6 sm_init (snd (sm_run (retrier 6) (CAdvance ex_ev) sm_init))"
    by (rule sm_stepI [where r = "fst (sm_run (retrier 6) (CAdvance ex_ev) sm_init)"]) simp
  then show ?thesis by simp
qed

theorem pending_at_most_once_witness:
  "count (pend_hashes (pendingSettleTxs (snd (sm_run (retrier 6) (CAdvance ex_ev) sm_init))) ''noble1a'') ''h1'' \<le> 1"
  using pending_at_most_once [OF ex_reach] by blast

theorem advanceOutcome_updates_first_advancing_witness:
  "fst (advanceOutcome (retrier 6) ''noble1a'' 50 True None (sm_init\<lparr>pendingSettleTxs := ex_store\<rparr>)) =
     Inl NoAdvancingTx"
  by (subst advanceOutcome_updates_first_advancing [where list = "queue_of ex_store ''noble1a''"])
    (simp_all add: ex_queue advancing_ix_def, simp add: ex_store_def)

theorem retries_only_idle_failures_witness:
  "isWorking 6 (after_report (routeFailures ex_failed) ''eip155:8453'' False) ''eip155:8453''"
  using retries_only_idle_failures [of "ex_ff\<lparr>fwChainId := Some ''eip155:8453''\<rparr>" 6 ex_failed "''eip155:8453''" False]
  by (simp add: retries_def getForwardsToRetry_def ex_failed_def sm_init_def store_values_def)

theorem forwardFailed_registers_witness:
  "fst (forwardFailed (retrier 6) ''h1'' (Some ex_ff) sm_init) = Inr ()"
  using forwardFailed_registers [OF ex_chain, of sm_init 6]
  by (simp add: sm_init_def Let_def, simp add: ex_ff_def)

theorem forwarded_without_details_keeps_retry_witness:
  "ex_ff\<lparr>fwChainId := Some ''eip155:8453''\<rparr> \<in>
     set (getForwardsToRetry (snd (forwarded (retrier 6) ''h1'' None ex_failed)) ''eip155:8453'')"
  by (rule forwarded_without_details_keeps_retry) (simp_all add: ex_failed_def ex_ff_def)

end
