(* ===== verification/Amounts.thy ===== *)
theory Amounts
  imports Prelude
begin

text \<open>
  Natural amounts and ratios (\<open>ERTP/src/safeMath.js\<close>, \<open>amountMath.js\<close>, \<open>ratio.js\<close>). A
  value is an \<open>int\<close>; \<open>Nat(x)\<close> throws on a negative one. The brand checks of \<open>AmountMath\<close>
  are not modelled: every amount of the modelled code is of one known brand.
\<close>

section \<open>natSafeMath\<close>

definition Nat' :: "int \<Rightarrow> error + int" where
  "Nat' x = (if x < 0 then Inl NotANat else Inr x)"

definition nat_subtract :: "int \<Rightarrow> int \<Rightarrow> error + int" where
  "nat_subtract x y = bindr (Nat' x) (\<lambda>x. bindr (Nat' y) (\<lambda>y. Nat' (x - y)))"

definition bankersDivide :: "int \<Rightarrow> int \<Rightarrow> error + int" where
  "bankersDivide a b =
     bindr (Nat' a) (\<lambda>a. bindr (Nat' b) (\<lambda>b.
       if b = 0 then Inl DivisionByZero
       else let q = a div b; r = a mod b in
         if r * 2 > b then Inr (q + 1)
         else if r * 2 = b then (if q mod 2 = 1 then Inr (q + 1) else Inr q)
         else Inr q))"

section \<open>Ratios\<close>

record ratio =
  numerator :: int
  denominator :: int

definition ratio_ok :: "ratio \<Rightarrow> bool" where
  "ratio_ok r \<longleftrightarrow> numerator r \<ge> 0 \<and> denominator r > 0"

definition makeRatioFromAmounts :: "int \<Rightarrow> int \<Rightarrow> error + ratio" where
  "makeRatioFromAmounts n d =
     (if d > 0 then Inr \<lparr>numerator = n, denominator = d\<rparr> else Inl InfiniteRatio)"

definition multiplyBy :: "int \<Rightarrow> ratio \<Rightarrow> error + int" where
  "multiplyBy amt r = bankersDivide (amt * numerator r) (denominator r)"

definition divideBy :: "int \<Rightarrow> ratio \<Rightarrow> error + int" where
  "divideBy amt r = bankersDivide (amt * denominator r) (numerator r)"

section \<open>Rounding\<close>

text \<open>The nearest multiple, ties to the even one.\<close>

definition rounds_to :: "int \<Rightarrow> int \<Rightarrow> int \<Rightarrow> bool" where
  "rounds_to a b q \<longleftrightarrow> \<bar>2 * (a - q * b)\<bar> \<le> b \<and> (\<bar>2 * (a - q * b)\<bar> = b \<longrightarrow> even q)"

lemma bankersDivide_eq:
  assumes "0 \<le> a" "0 < b"
  shows "bankersDivide a b =
    Inr (if a mod b * 2 > b \<or> a mod b * 2 = b \<and> odd (a div b) then a div b + 1 else a div b)"
  using assms by (auto simp: bankersDivide_def Nat'_def Let_def odd_iff_mod_2_eq_one)

lemma bankersDivide_rounds:
  assumes "0 \<le> a" "0 < b"
  obtains q where "bankersDivide a b = Inr q" "rounds_to a b q" "0 \<le> q"
proof -
  define q r where qr: "q = a div b" "r = a mod b"
  have r: "0 \<le> r" "r < b" and q: "0 \<le> q" using assms by (simp_all add: qr pos_imp_zdiv_nonneg_iff)
  have "a - q * b = r" by (simp add: qr minus_div_mult_eq_mod)
  then have d: "\<bar>2 * (a - q * b)\<bar> = 2 * r" "\<bar>2 * (a - (q + 1) * b)\<bar> = 2 * (b - r)"
    using r by (simp_all add: distrib_right)
  show thesis
  proof (cases "r * 2 > b \<or> r * 2 = b \<and> odd q")
    case True
    with d q r show thesis
      by (intro that [of "q + 1"])
        (auto simp: bankersDivide_eq [OF assms] rounds_to_def simp flip: qr)
  next
    case False
    with d q r show thesis
      by (intro that [of q])
        (auto simp: bankersDivide_eq [OF assms] rounds_to_def simp flip: qr)
  qed
qed

lemma rounds_to_unique:
  assumes "rounds_to a b q" "rounds_to a b q'" "0 < b"
  shows "q = q'"
proof (rule ccontr)
  assume ne: "q \<noteq> q'"
  have half: "\<bar>2 * (a - q * b)\<bar> \<le> b" "\<bar>2 * (a - q' * b)\<bar> \<le> b"
    using assms(1,2) by (simp_all add: rounds_to_def)
  have diff: "2 * (a - q * b) - 2 * (a - q' * b) = 2 * ((q' - q) * b)"
    by (simp add: algebra_simps)
  have "\<bar>(q' - q) * b\<bar> \<ge> b"
    using ne assms(3) by (simp add: abs_mult mult_le_cancel_right1)
  with diff half have tie: "\<bar>2 * (a - q * b)\<bar> = b" "\<bar>2 * (a - q' * b)\<bar> = b" "\<bar>(q' - q) * b\<bar> = b"
    by linarith+
  with assms(1,2) have "even q" "even q'" by (simp_all add: rounds_to_def)
  moreover have "\<bar>q' - q\<bar> = 1" using tie(3) assms(3) by (simp add: abs_mult)
  ultimately show False by presburger
qed

lemma rounds_to_mult: "0 < b \<Longrightarrow> rounds_to (q * b) b q"
  by (simp add: rounds_to_def)

lemma rounds_to_le: "rounds_to a b q \<Longrightarrow> a \<le> n * b \<Longrightarrow> 0 < b \<Longrightarrow> q \<le> n"
proof (rule ccontr)
  assume r: "rounds_to a b q" and a: "a \<le> n * b" and b: "0 < b" and "\<not> q \<le> n"
  then have "n * b + b \<le> q * b" by (metis add.commute add1_zle_eq distrib_right mult.left_neutral
        mult_right_mono not_le order_less_imp_le)
  with r a b show False by (auto simp: rounds_to_def)
qed

lemma rounds_to_ge: "rounds_to a b q \<Longrightarrow> n * b \<le> a \<Longrightarrow> 0 < b \<Longrightarrow> n \<le> q"
proof (rule ccontr)
  assume r: "rounds_to a b q" and a: "n * b \<le> a" and b: "0 < b" and "\<not> n \<le> q"
  then have "q * b + b \<le> n * b" by (metis add.commute add1_zle_eq distrib_right mult.left_neutral
        mult_right_mono not_le order_less_imp_le)
  with r a b show False by (auto simp: rounds_to_def)
qed

lemma multiplyBy_rounds:
  assumes "0 \<le> amt" "ratio_ok r"
  obtains q where "multiplyBy amt r = Inr q" "rounds_to (amt * numerator r) (denominator r) q" "0 \<le> q"
  using assms bankersDivide_rounds [of "amt * numerator r" "denominator r"]
  by (auto simp: multiplyBy_def ratio_ok_def)

lemma divideBy_rounds:
  assumes "0 \<le> amt" "ratio_ok r" "numerator r > 0"
  obtains q where "divideBy amt r = Inr q" "rounds_to (amt * denominator r) (numerator r) q" "0 \<le> q"
  using assms bankersDivide_rounds [of "amt * denominator r" "numerator r"]
  by (auto simp: divideBy_def ratio_ok_def)

end
