(* ===== verification/PoolShareMath.thy ===== *)
theory PoolShareMath
  imports Amounts Types
begin

text \<open>
  The calculations of the liquidity pool (\<open>packages/fast-usdc/src/pool-share-math.js\<close>):
  share worth, deposits, withdrawals, borrowing and repayment, and the check that the pool's
  allocation and the share worth agree.
\<close>

type_synonym allocation = "(string \<times> int) list"

record pool_stats =
  totalBorrows :: int
  totalContractFees :: int
  totalPoolFees :: int
  totalRepays :: int

section \<open>Definitions\<close>

definition makeParity :: ratio where
  "makeParity = \<lparr>numerator = 1, denominator = 1\<rparr>"

definition depositCalc :: "ratio \<Rightarrow> int \<Rightarrow> int option \<Rightarrow> error + (int \<times> ratio)" where
  "depositCalc worth giveUSDC wantShare =
     bindr (requirer (giveUSDC \<noteq> 0) AssertFailed) (\<lambda>_.
     bindr (divideBy giveUSDC worth) (\<lambda>fairPoolShare.
     bindr (requirer (case wantShare of None \<Rightarrow> True | Some w \<Rightarrow> fairPoolShare \<ge> w) CannotDeposit) (\<lambda>_.
     let outstandingPost = denominator worth + fairPoolShare;
         balancePost = numerator worth + giveUSDC
     in bindr (makeRatioFromAmounts balancePost outstandingPost) (\<lambda>worthPost.
        Inr (fairPoolShare, worthPost)))))"

definition usdcOf :: "allocation \<Rightarrow> int" where
  "usdcOf alloc = (case map_of alloc ''USDC'' of None \<Rightarrow> 0 | Some v \<Rightarrow> v)"

definition checkPoolBalance :: "allocation \<Rightarrow> ratio \<Rightarrow> int \<Rightarrow> error + (int \<times> int)" where
  "checkPoolBalance poolAlloc worth encumbered =
     (let unencumbered = usdcOf poolAlloc;
          kwds = map fst poolAlloc in
      bindr (requirer (length kwds = 0 \<or> (length kwds = 1 \<and> kwds ! 0 = ''USDC'')) UnexpectedAllocation) (\<lambda>_.
      let dust = 1; gross = unencumbered + dust + encumbered in
      bindr (requirer (gross = numerator worth) PoolInconsistent) (\<lambda>_.
        Inr (unencumbered, gross))))"

definition withdrawCalc ::
  "ratio \<Rightarrow> int \<Rightarrow> int \<Rightarrow> allocation \<Rightarrow> int \<Rightarrow> error + (ratio \<times> int)" where
  "withdrawCalc worth giveShare wantUSDC poolAlloc encumbered =
     bindr (checkPoolBalance poolAlloc worth encumbered) (\<lambda>(unencumbered, _).
     bindr (requirer (giveShare \<noteq> 0) AssertFailed) (\<lambda>_.
     bindr (requirer (wantUSDC \<noteq> 0) AssertFailed) (\<lambda>_.
     bindr (multiplyBy giveShare worth) (\<lambda>payout.
     bindr (requirer (payout \<ge> wantUSDC) CannotWithdraw) (\<lambda>_.
     let sharesOutstanding = denominator worth; poolBalance = numerator worth in
     bindr (requirer (\<not> wantUSDC \<ge> poolBalance) CannotWithdraw) (\<lambda>_.
     bindr (requirer (unencumbered \<ge> wantUSDC) CannotWithdraw) (\<lambda>_.
     bindr (nat_subtract poolBalance payout) (\<lambda>balancePost.
     bindr (nat_subtract sharesOutstanding giveShare) (\<lambda>outstandingPost.
     bindr (makeRatioFromAmounts balancePost outstandingPost) (\<lambda>worthPost.
       Inr (worthPost, payout)))))))))))"

definition withFees :: "ratio \<Rightarrow> int \<Rightarrow> error + ratio" where
  "withFees worth fees = makeRatioFromAmounts (numerator worth + fees) (denominator worth)"

definition borrowCalc :: "int \<Rightarrow> int \<Rightarrow> int \<Rightarrow> pool_stats \<Rightarrow> error + (int \<times> pool_stats)" where
  "borrowCalc requested poolSeatAllocation encumbered stats =
     bindr (requirer (\<not> requested \<ge> poolSeatAllocation) CannotBorrow) (\<lambda>_.
       Inr (encumbered + requested, stats\<lparr>totalBorrows := totalBorrows stats + requested\<rparr>))"

definition repayCalc ::
  "ratio \<Rightarrow> repay_split \<Rightarrow> int \<Rightarrow> pool_stats \<Rightarrow> error + (ratio \<times> int \<times> pool_stats)" where
  "repayCalc worth split encumbered stats =
     bindr (requirer (encumbered \<ge> Principal split) CannotRepay) (\<lambda>_.
     bindr (withFees worth (PoolFee split)) (\<lambda>worthPost.
     bindr (nat_subtract encumbered (Principal split)) (\<lambda>encumberedPost.
       Inr (worthPost, encumberedPost,
         stats\<lparr>totalRepays := totalRepays stats + Principal split,
               totalPoolFees := totalPoolFees stats + PoolFee split,
               totalContractFees := totalContractFees stats + ContractFee split + RelayFee split\<rparr>))))"

section \<open>What each calculation computes\<close>

definition pool_alloc_ok :: "allocation \<Rightarrow> bool" where
  "pool_alloc_ok alloc \<longleftrightarrow> (alloc = [] \<or> (\<exists>v. alloc = [(''USDC'', v)] \<and> 0 \<le> v))"

lemma usdcOf_simps [simp]: "usdcOf [] = 0" "usdcOf [(''USDC'', v)] = v"
  by (simp_all add: usdcOf_def)

lemma pool_alloc_ok_nonneg: "pool_alloc_ok a \<Longrightarrow> 0 \<le> usdcOf a"
  by (auto simp: pool_alloc_ok_def)

lemma checkPoolBalance_eq:
  "pool_alloc_ok alloc \<Longrightarrow> checkPoolBalance alloc worth enc =
     (if usdcOf alloc + 1 + enc = numerator worth then Inr (usdcOf alloc, numerator worth)
      else Inl PoolInconsistent)"
  by (auto simp: checkPoolBalance_def pool_alloc_ok_def Let_def)

lemma depositCalc_Inr:
  assumes "ratio_ok worth" "0 < numerator worth" "0 < give"
    and "depositCalc worth give wantShare = Inr (shares, worth')"
  shows "0 \<le> shares" "rounds_to (give * denominator worth) (numerator worth) shares"
    "worth' = \<lparr>numerator = numerator worth + give, denominator = denominator worth + shares\<rparr>"
    "ratio_ok worth'" "\<And>w. wantShare = Some w \<Longrightarrow> w \<le> shares"
proof -
  obtain q where q: "divideBy give worth = Inr q"
    "rounds_to (give * denominator worth) (numerator worth) q" "0 \<le> q"
    using divideBy_rounds [of give worth] assms by auto
  with assms have "shares = q"
    "worth' = \<lparr>numerator = numerator worth + give, denominator = denominator worth + shares\<rparr>"
    "case wantShare of None \<Rightarrow> True | Some w \<Rightarrow> shares \<ge> w"
    by (auto simp: depositCalc_def bindr_Inr_iff Let_def makeRatioFromAmounts_def split: if_splits)
  with q assms(1-3) show "0 \<le> shares" "rounds_to (give * denominator worth) (numerator worth) shares"
    "worth' = \<lparr>numerator = numerator worth + give, denominator = denominator worth + shares\<rparr>"
    "ratio_ok worth'" "\<And>w. wantShare = Some w \<Longrightarrow> w \<le> shares"
    by (auto simp: ratio_ok_def)
qed

lemma depositCalc_total:
  assumes "ratio_ok worth" "0 < numerator worth" "0 < give"
  shows "\<exists>r. depositCalc worth give None = Inr r"
proof -
  obtain q where "divideBy give worth = Inr q" "0 \<le> q"
    using divideBy_rounds [of give worth] assms by auto
  then show ?thesis
    using assms by (simp add: depositCalc_def Let_def makeRatioFromAmounts_def ratio_ok_def)
qed

lemma withdrawCalc_Inr:
  assumes "ratio_ok worth" "0 < give" "pool_alloc_ok alloc"
    and w: "withdrawCalc worth give want alloc enc = Inr (worth', payout)"
  shows "usdcOf alloc + 1 + enc = numerator worth" "want \<le> payout" "want \<le> usdcOf alloc"
    "rounds_to (give * numerator worth) (denominator worth) payout" "0 \<le> payout"
    "payout \<le> numerator worth"
    "worth' = \<lparr>numerator = numerator worth - payout, denominator = denominator worth - give\<rparr>"
    "give < denominator worth"
proof -
  obtain q where q: "multiplyBy give worth = Inr q"
    "rounds_to (give * numerator worth) (denominator worth) q" "0 \<le> q"
    using multiplyBy_rounds [of give worth] assms by auto
  from w have c: "usdcOf alloc + 1 + enc = numerator worth"
    by (auto simp: withdrawCalc_def checkPoolBalance_eq [OF assms(3)] split: if_splits)
  with w q assms(3) have
    all: "payout = q" "want \<le> q" "want \<le> usdcOf alloc" "q \<le> numerator worth"
    "worth' = \<lparr>numerator = numerator worth - q, denominator = denominator worth - give\<rparr>"
    "give < denominator worth"
    by (auto simp: withdrawCalc_def bindr_Inr_iff checkPoolBalance_eq Let_def makeRatioFromAmounts_def
        nat_subtract_def Nat'_def split: if_splits)
  with c q show "usdcOf alloc + 1 + enc = numerator worth" "want \<le> payout" "want \<le> usdcOf alloc"
    "rounds_to (give * numerator worth) (denominator worth) payout" "0 \<le> payout"
    "payout \<le> numerator worth"
    "worth' = \<lparr>numerator = numerator worth - payout, denominator = denominator worth - give\<rparr>"
    "give < denominator worth"
    by simp_all
qed

lemma borrowCalc_Inr:
  "borrowCalc req alloc enc stats = Inr (enc', stats') \<longleftrightarrow>
     req < alloc \<and> enc' = enc + req \<and> stats' = stats\<lparr>totalBorrows := totalBorrows stats + req\<rparr>"
  by (auto simp: borrowCalc_def bindr_Inr_iff)

lemma repayCalc_Inr:
  assumes "repayCalc worth split enc stats = Inr (worth', enc', stats')"
  shows "Principal split \<le> enc" "enc' = enc - Principal split"
    "worth' = \<lparr>numerator = numerator worth + PoolFee split, denominator = denominator worth\<rparr>"
    "0 < denominator worth"
  using assms
  by (auto simp: repayCalc_def bindr_Inr_iff withFees_def makeRatioFromAmounts_def nat_subtract_def
      Nat'_def split: if_splits)

section \<open>Fair prices\<close>

text \<open>
  The price of a share only moves by rounding: the exact share amount and the paid one differ
  by at most half a unit, so a deposit followed by the withdrawal of the shares it bought
  returns at most the deposit plus the rounding of both steps.
\<close>

lemma rounds_to_bound: "rounds_to a b q \<Longrightarrow> 2 * a - b \<le> 2 * q * b \<and> 2 * q * b \<le> 2 * a + b"
  by (auto simp: rounds_to_def algebra_simps abs_le_iff)

text \<open>Giving every share but the dust never pays more than the pool holds.\<close>

lemma payout_le_balance:
  "rounds_to (give * n) d payout \<Longrightarrow> 0 < d \<Longrightarrow> 0 \<le> n \<Longrightarrow> give \<le> d \<Longrightarrow> payout \<le> n"
  by (erule rounds_to_le) (auto simp: mult.commute mult_right_mono mult_left_mono)

end
