(* ===== verification/Fees.thy ===== *)
theory Fees
  imports PoolShareMath
begin

text \<open>
  The fee tools (\<open>packages/fast-usdc/src/utils/fees.js\<close>): base and relay fees of an advance
  with per-destination overrides, the net advance, and the split of a repayment.
\<close>

record fee_override =
  ovFlat :: "int option"
  ovVariableRate :: "ratio option"
  ovContractRate :: "ratio option"
  ovRelay :: "int option"

record fee_config =
  flat :: int
  variableRate :: ratio
  contractRate :: ratio
  relay :: "int option"
  destinationOverrides :: "(string \<times> fee_override) list option"

section \<open>Definitions\<close>

definition getConfigValue ::
  "fee_config \<Rightarrow> (fee_override \<Rightarrow> 'v option) \<Rightarrow> (fee_config \<Rightarrow> 'v) \<Rightarrow> account_id \<Rightarrow> error + 'v" where
  "getConfigValue cfg ov base destination =
     bindr (chainOfAccount destination) (\<lambda>chainId.
       case destinationOverrides cfg of
         None \<Rightarrow> Inr (base cfg)
       | Some ovs \<Rightarrow>
           (case map_of ovs chainId of
              None \<Rightarrow> Inr (base cfg)
            | Some o' \<Rightarrow> (case ov o' of None \<Rightarrow> Inr (base cfg) | Some v \<Rightarrow> Inr v)))"

definition calculateBaseFee :: "fee_config \<Rightarrow> int \<Rightarrow> account_id \<Rightarrow> error + int" where
  "calculateBaseFee cfg requested destination =
     bindr (getConfigValue cfg ovFlat flat destination) (\<lambda>fl.
     bindr (getConfigValue cfg ovVariableRate variableRate destination) (\<lambda>rate.
     bindr (multiplyBy requested rate) (\<lambda>v. Inr (v + fl))))"

definition calculateRelayFee :: "fee_config \<Rightarrow> account_id \<Rightarrow> error + int" where
  "calculateRelayFee cfg destination =
     bindr (getConfigValue cfg (map_option Some \<circ> ovRelay) relay destination) (\<lambda>r.
       Inr (case r of Some v \<Rightarrow> v | None \<Rightarrow> 0))"

definition calculateAdvanceFee :: "fee_config \<Rightarrow> int \<Rightarrow> account_id \<Rightarrow> error + int" where
  "calculateAdvanceFee cfg requested destination =
     bindr (calculateBaseFee cfg requested destination) (\<lambda>baseFee.
     bindr (calculateRelayFee cfg destination) (\<lambda>relayFee.
     let fee = baseFee + relayFee in
     bindr (requirer (\<not> fee \<ge> requested) RequestBelowFees) (\<lambda>_. Inr fee)))"

definition calculateAdvance :: "fee_config \<Rightarrow> int \<Rightarrow> account_id \<Rightarrow> error + int" where
  "calculateAdvance cfg requested destination =
     bindr (calculateAdvanceFee cfg requested destination) (\<lambda>fee. nat_subtract requested fee)"

definition calculateSplit :: "fee_config \<Rightarrow> int \<Rightarrow> account_id \<Rightarrow> error + repay_split" where
  "calculateSplit cfg requested destination =
     bindr (calculateBaseFee cfg requested destination) (\<lambda>baseFee.
     bindr (calculateRelayFee cfg destination) (\<lambda>relayFee.
     let totalFee = baseFee + relayFee in
     bindr (requirer (\<not> totalFee \<ge> requested) RequestBelowFees) (\<lambda>_.
     bindr (getConfigValue cfg ovContractRate contractRate destination) (\<lambda>rate.
     bindr (nat_subtract requested totalFee) (\<lambda>principal.
     bindr (multiplyBy baseFee rate) (\<lambda>contractFee.
     bindr (nat_subtract baseFee contractFee) (\<lambda>poolFee.
       Inr \<lparr>Principal = principal, PoolFee = poolFee, ContractFee = contractFee, RelayFee = relayFee\<rparr>)))))))"

section \<open>Well-formed configurations\<close>

definition rate_ok :: "ratio \<Rightarrow> bool" where
  "rate_ok r \<longleftrightarrow> ratio_ok r \<and> numerator r \<le> denominator r"

definition opt_all :: "('v \<Rightarrow> bool) \<Rightarrow> 'v option \<Rightarrow> bool" where
  "opt_all P x \<longleftrightarrow> (case x of None \<Rightarrow> True | Some v \<Rightarrow> P v)"

definition override_ok :: "fee_override \<Rightarrow> bool" where
  "override_ok o' \<longleftrightarrow> opt_all (\<lambda>v. 0 \<le> v) (ovFlat o') \<and> opt_all ratio_ok (ovVariableRate o')
     \<and> opt_all rate_ok (ovContractRate o') \<and> opt_all (\<lambda>v. 0 \<le> v) (ovRelay o')"

text \<open>
  \<open>FeeConfigShape\<close> gives natural amounts and ratios; that a contract rate is at most one is
  what the configuration means by a proportion.
\<close>

definition fee_config_ok :: "fee_config \<Rightarrow> bool" where
  "fee_config_ok cfg \<longleftrightarrow> 0 \<le> flat cfg \<and> ratio_ok (variableRate cfg) \<and> rate_ok (contractRate cfg)
     \<and> opt_all (\<lambda>v. 0 \<le> v) (relay cfg)
     \<and> opt_all (\<lambda>ovs. \<forall>o' \<in> snd ` set ovs. override_ok o') (destinationOverrides cfg)"

lemma getConfigValue_all:
  assumes "getConfigValue cfg ov base d = Inr v" "P (base cfg)"
    and "\<And>o'. override_ok o' \<Longrightarrow> opt_all P (ov o')" "fee_config_ok cfg"
  shows "P v"
proof -
  have "opt_all P (ov o')" if "destinationOverrides cfg = Some ovs" "map_of ovs c = Some o'" for ovs c o'
    using assms(3,4) that by (auto simp: fee_config_ok_def opt_all_def dest!: map_of_SomeD)
  with assms(1,2) show ?thesis
    by (auto simp: getConfigValue_def bindr_Inr_iff opt_all_def split: option.splits) fastforce
qed

lemma getConfigValue_total:
  "chainOfAccount d = Inr chain \<Longrightarrow> \<exists>v. getConfigValue cfg ov base d = Inr v"
  by (simp add: getConfigValue_def split: option.split)

lemma baseFee_nonneg:
  assumes "calculateBaseFee cfg req d = Inr b" "fee_config_ok cfg" "0 \<le> req"
  shows "0 \<le> b"
proof -
  from assms(1) obtain fl rate v where
    f: "getConfigValue cfg ovFlat flat d = Inr fl"
       "getConfigValue cfg ovVariableRate variableRate d = Inr rate"
       "multiplyBy req rate = Inr v" "b = v + fl"
    by (auto simp: calculateBaseFee_def bindr_Inr_iff)
  have "0 \<le> fl" by (rule getConfigValue_all [OF f(1)])
      (use assms(2) in \<open>auto simp: fee_config_ok_def override_ok_def\<close>)
  moreover have "ratio_ok rate" by (rule getConfigValue_all [OF f(2)])
      (use assms(2) in \<open>auto simp: fee_config_ok_def override_ok_def\<close>)
  then have "0 \<le> v" using multiplyBy_rounds [of req rate] f(3) assms(3) by force
  ultimately show ?thesis using f(4) by simp
qed

lemma relayFee_nonneg:
  assumes "calculateRelayFee cfg d = Inr r" "fee_config_ok cfg"
  shows "0 \<le> r"
proof -
  from assms(1) obtain x where x: "getConfigValue cfg (map_option Some \<circ> ovRelay) relay d = Inr x"
    "r = (case x of Some v \<Rightarrow> v | None \<Rightarrow> 0)"
    by (auto simp: calculateRelayFee_def bindr_Inr_iff)
  have "opt_all (\<lambda>v. 0 \<le> v) x" by (rule getConfigValue_all [OF x(1)])
      (use assms(2) in \<open>auto simp: fee_config_ok_def override_ok_def opt_all_def split: option.splits\<close>)
  then show ?thesis by (auto simp: x(2) opt_all_def split: option.split)
qed

lemma contractFee_bounds:
  assumes "multiplyBy b rate = Inr c" "rate_ok rate" "0 \<le> b"
  shows "0 \<le> c" "c \<le> b"
proof -
  obtain q where q: "multiplyBy b rate = Inr q" "rounds_to (b * numerator rate) (denominator rate) q" "0 \<le> q"
    using multiplyBy_rounds [of b rate] assms by (auto simp: rate_ok_def)
  with assms have "c = q" by simp
  moreover have "q \<le> b"
    using q(2) assms(2,3) by (elim rounds_to_le) (auto simp: rate_ok_def ratio_ok_def mult_left_mono)
  ultimately show "0 \<le> c" "c \<le> b" using q(3) by simp_all
qed

section \<open>Properties\<close>

text \<open>a fee split gives back the whole requested amount: principal, pool fee, contract
  fee and relay fee are natural, sum to it, and the principal is positive and is the net
  advance.\<close>

theorem split_is_exact:
  assumes "fee_config_ok cfg" and "0 \<le> requested" and "calculateSplit cfg requested d = Inr sp"
  shows "Principal sp + PoolFee sp + ContractFee sp + RelayFee sp = requested
    \<and> 0 < Principal sp \<and> 0 \<le> PoolFee sp \<and> 0 \<le> ContractFee sp \<and> 0 \<le> RelayFee sp
    \<and> calculateAdvance cfg requested d = Inr (Principal sp)"
proof -
  from assms(3) obtain b r rate where
    b: "calculateBaseFee cfg requested d = Inr b" "calculateRelayFee cfg d = Inr r" and lt: "b + r < requested"
    and rate: "getConfigValue cfg ovContractRate contractRate d = Inr rate"
    and sp: "nat_subtract requested (b + r) = Inr (Principal sp)" "multiplyBy b rate = Inr (ContractFee sp)"
      "nat_subtract b (ContractFee sp) = Inr (PoolFee sp)" "RelayFee sp = r"
    by (auto simp: calculateSplit_def bindr_Inr_iff Let_def)
  note nn = baseFee_nonneg [OF b(1) assms(1,2)] relayFee_nonneg [OF b(2) assms(1)]
  have "rate_ok rate" by (rule getConfigValue_all [OF rate])
      (use assms(1) in \<open>auto simp: fee_config_ok_def override_ok_def\<close>)
  with sp(2) nn(1) have c: "0 \<le> ContractFee sp" "ContractFee sp \<le> b"
    by (auto dest: contractFee_bounds)
  have "calculateAdvance cfg requested d = Inr (Principal sp)"
    using b lt sp(1) by (simp add: calculateAdvance_def calculateAdvanceFee_def Let_def)
  with nn lt c sp show ?thesis
    by (auto simp: nat_subtract_def Nat'_def split: if_splits)
qed

text \<open>fee and advance are computed for any well-formed destination when the request
  exceeds the fee, and the request is refused when it does not.\<close>

theorem advance_fee_cases:
  assumes "fee_config_ok cfg" and "0 \<le> requested" and "chainOfAccount d = Inr chain"
  shows "\<exists>fee. (if fee < requested
                then calculateAdvanceFee cfg requested d = Inr fee \<and> calculateAdvance cfg requested d = Inr (requested - fee)
                else calculateAdvanceFee cfg requested d = Inl RequestBelowFees
                     \<and> calculateSplit cfg requested d = Inl RequestBelowFees) \<and> 0 \<le> fee"
proof -
  note get = getConfigValue_total [OF assms(3)]
  obtain fl rate where g: "getConfigValue cfg ovFlat flat d = Inr fl"
    "getConfigValue cfg ovVariableRate variableRate d = Inr rate" using get by meson
  have "ratio_ok rate" by (rule getConfigValue_all [OF g(2)])
      (use assms(1) in \<open>auto simp: fee_config_ok_def override_ok_def\<close>)
  then obtain v where v: "multiplyBy requested rate = Inr v"
    using multiplyBy_rounds [of requested rate] assms(2) by blast
  obtain b where b: "calculateBaseFee cfg requested d = Inr b"
    using g v by (simp add: calculateBaseFee_def)
  obtain x where "getConfigValue cfg (map_option Some \<circ> ovRelay) relay d = Inr x" using get by meson
  then obtain r where r: "calculateRelayFee cfg d = Inr r" by (simp add: calculateRelayFee_def)
  note nn = baseFee_nonneg [OF b assms(1,2)] relayFee_nonneg [OF r assms(1)]
  show ?thesis
    by (rule exI [of _ "b + r"])
      (use b r nn assms(2) in \<open>auto simp: calculateAdvanceFee_def calculateAdvance_def calculateSplit_def Let_def
        nat_subtract_def Nat'_def\<close>)
qed

definition ex_fees :: fee_config where
  "ex_fees = \<lparr>flat = 10, variableRate = \<lparr>numerator = 2, denominator = 100\<rparr>,
     contractRate = \<lparr>numerator = 20, denominator = 100\<rparr>, relay = None,
     destinationOverrides = Some [(''eip155:1'',
       \<lparr>ovFlat = None, ovVariableRate = None, ovContractRate = None, ovRelay = Some 7\<rparr>)]\<rparr>"

lemma ex_fees_ok: "fee_config_ok ex_fees"
  by (simp add: ex_fees_def fee_config_ok_def ratio_ok_def rate_ok_def opt_all_def override_ok_def)

theorem split_is_exact_witness:
  "calculateAdvance ex_fees 1000 ''eip155:1:0xab'' = Inr 963"
proof -
  have "calculateSplit ex_fees 1000 ''eip155:1:0xab'' =
    Inr \<lparr>Principal = 963, PoolFee = 24, ContractFee = 6, RelayFee = 7\<rparr>"
    by (simp add: calculateSplit_def calculateBaseFee_def calculateRelayFee_def getConfigValue_def
        chainOfAccount_def parseAccountId_def ex_fees_def multiplyBy_def bankersDivide_def Nat'_def
        nat_subtract_def Let_def)
  from split_is_exact [OF ex_fees_ok _ this] show ?thesis by simp
qed

theorem advance_fee_cases_witness:
  "\<exists>fee \<ge> 0. (fee < 9 \<and> calculateAdvance ex_fees 9 ''eip155:1:0xab'' = Inr (9 - fee)) \<or>
     calculateSplit ex_fees 9 ''eip155:1:0xab'' = Inl RequestBelowFees"
  using advance_fee_cases [OF ex_fees_ok, of 9 "''eip155:1:0xab''" "''eip155:1''"]
  by (simp add: chainOfAccount_def parseAccountId_def) metis

end
