(* ===== verification/Zcf.thy ===== *)
theory Zcf
  imports PoolShareMath
begin

text \<open>
  The part of ZCF the contract moves money with (\<open>packages/zoe/src/contractFacet\<close>): active
  seats with their allocations and proposals, \<open>atomicRearrange\<close> with its conservation and
  offer-safety checks (\<open>zcfSeat.js\<close>, \<open>reallocate.js\<close>, \<open>allocationMath.js\<close>,
  \<open>rightsConservation.js\<close>, \<open>offerSafety.js\<close>), and minting and burning (\<open>zcfMint.js\<close>). An
  allocation maps keywords to values; the brand of an amount is that of its keyword.
\<close>

type_synonym seat_id = nat

datatype brand = UsdcBrand | PoolSharesBrand

definition keyword_brand :: "string \<Rightarrow> brand" where
  "keyword_brand kw = (if kw = ''PoolShare'' then PoolSharesBrand else UsdcBrand)"

section \<open>Allocation arithmetic\<close>

definition allKeywords :: "allocation \<Rightarrow> allocation \<Rightarrow> string list" where
  "allKeywords alloc rec = map fst alloc @ filter (\<lambda>k. k \<notin> fst ` set alloc) (map fst rec)"

definition doOperation ::
  "(int option \<Rightarrow> int option \<Rightarrow> error + int option) \<Rightarrow> allocation \<Rightarrow> allocation \<Rightarrow> error + allocation" where
  "doOperation op alloc rec =
     bindr (mapr (\<lambda>k. bindr (op (map_of alloc k) (map_of rec k)) (\<lambda>v. Inr (k, v))) (allKeywords alloc rec))
       (\<lambda>entries. Inr (List.map_filter (\<lambda>(k, v). map_option (Pair k) v) entries))"

fun add_op :: "int option \<Rightarrow> int option \<Rightarrow> error + int option" where
  "add_op (Some a) (Some b) = Inr (Some (a + b))"
| "add_op (Some a) None = Inr (Some a)"
| "add_op None b = Inr b"

fun subtract_op :: "int option \<Rightarrow> int option \<Rightarrow> error + int option" where
  "subtract_op a None = Inr a"
| "subtract_op a (Some b) =
     (if b = 0 then Inr a
      else case a of
             None \<Rightarrow> Inl MissingKeyword
           | Some x \<Rightarrow> if \<not> x \<ge> b then Inl InsufficientAllocation else Inr (Some (x - b)))"

definition addToAllocation :: "allocation \<Rightarrow> allocation \<Rightarrow> error + allocation" where
  "addToAllocation = doOperation add_op"

definition subtractFromAllocation :: "allocation \<Rightarrow> allocation \<Rightarrow> error + allocation" where
  "subtractFromAllocation = doOperation subtract_op"

section \<open>Conservation and offer safety\<close>

definition brand_total :: "brand \<Rightarrow> allocation list \<Rightarrow> int" where
  "brand_total b allocs =
     sum_list (map (\<lambda>(k, v). if keyword_brand k = b then v else 0) (concat allocs))"

definition rights_conserved :: "allocation list \<Rightarrow> allocation list \<Rightarrow> bool" where
  "rights_conserved prev new \<longleftrightarrow>
     brand_total UsdcBrand prev = brand_total UsdcBrand new \<and>
     brand_total PoolSharesBrand prev = brand_total PoolSharesBrand new"

definition satisfies :: "allocation \<Rightarrow> allocation \<Rightarrow> bool" where
  "satisfies giveOrWant alloc =
     list_all (\<lambda>(k, req). case map_of alloc k of None \<Rightarrow> False | Some v \<Rightarrow> v \<ge> req) giveOrWant"

record zcf_seat =
  allocated :: allocation
  give :: allocation
  want :: allocation

definition isOfferSafe :: "zcf_seat \<Rightarrow> allocation \<Rightarrow> bool" where
  "isOfferSafe seat alloc \<longleftrightarrow> satisfies (give seat) alloc \<or> satisfies (want seat) alloc"

section \<open>Seats\<close>

record zcf_state =
  activeSeats :: "(seat_id, zcf_seat) mapstore"
  nextSeat :: seat_id
  paidOut :: "(seat_id \<times> allocation) list"
  shareSupply :: int

definition getCurrentAllocation :: "zcf_state \<Rightarrow> seat_id \<Rightarrow> error + allocation" where
  "getCurrentAllocation z seat =
     (case map_of (activeSeats z) seat of None \<Rightarrow> Inl SeatExited | Some s \<Rightarrow> Inr (allocated s))"

definition getAmountAllocated :: "zcf_state \<Rightarrow> seat_id \<Rightarrow> string \<Rightarrow> error + int" where
  "getAmountAllocated z seat kw =
     bindr (getCurrentAllocation z seat) (\<lambda>a. Inr (case map_of a kw of None \<Rightarrow> 0 | Some v \<Rightarrow> v))"

definition set_alloc :: "seat_id \<Rightarrow> allocation \<Rightarrow> zcf_state \<Rightarrow> zcf_state" where
  "set_alloc seat a z =
     (case map_of (activeSeats z) seat of
        None \<Rightarrow> z
      | Some s \<Rightarrow> z\<lparr>activeSeats := put_entry seat (s\<lparr>allocated := a\<rparr>) (activeSeats z)\<rparr>)"

definition makeSeat :: "allocation \<Rightarrow> allocation \<Rightarrow> allocation \<Rightarrow> (zcf_state, seat_id) proc" where
  "makeSeat a gv wt =
     bindp (getsp nextSeat) (\<lambda>n.
     thenp (modifyp (\<lambda>z. z\<lparr>activeSeats := put_entry n \<lparr>allocated = a, give = gv, want = wt\<rparr> (activeSeats z),
                            nextSeat := Suc n\<rparr>))
           (ret n))"

definition makeEmptySeatKit :: "(zcf_state, seat_id) proc" where
  "makeEmptySeatKit = makeSeat [] [] []"

definition seatExit :: "seat_id \<Rightarrow> (zcf_state, unit) proc" where
  "seatExit seat =
     bindp (getsp (\<lambda>z. getCurrentAllocation z seat)) (\<lambda>r.
     bindp (liftp r) (\<lambda>a.
       modifyp (\<lambda>z. z\<lparr>activeSeats := drop_entry seat (activeSeats z), paidOut := paidOut z @ [(seat, a)]\<rparr>)))"

section \<open>atomicRearrange\<close>

record transfer_part =
  fromSeat :: "seat_id option"
  toSeat :: "seat_id option"
  fromAmounts :: "allocation option"
  toAmounts :: "allocation option"

definition transferP :: "seat_id \<Rightarrow> seat_id \<Rightarrow> allocation \<Rightarrow> transfer_part" where
  "transferP f t a = \<lparr>fromSeat = Some f, toSeat = Some t, fromAmounts = Some a, toAmounts = None\<rparr>"

definition fromOnly :: "seat_id \<Rightarrow> allocation \<Rightarrow> transfer_part" where
  "fromOnly f a = \<lparr>fromSeat = Some f, toSeat = None, fromAmounts = Some a, toAmounts = None\<rparr>"

definition toOnly :: "seat_id \<Rightarrow> allocation \<Rightarrow> transfer_part" where
  "toOnly t a = \<lparr>fromSeat = None, toSeat = Some t, fromAmounts = None, toAmounts = Some a\<rparr>"

type_synonym changes = "(seat_id \<times> (allocation list \<times> allocation list)) list"

fun incrementAllocation :: "seat_id \<Rightarrow> allocation \<Rightarrow> changes \<Rightarrow> changes" where
  "incrementAllocation seat a [] = [(seat, ([a], []))]"
| "incrementAllocation seat a ((s, (incr, decr)) # cs) =
     (if s = seat then (s, (incr @ [a], decr)) # cs
      else (s, (incr, decr)) # incrementAllocation seat a cs)"

fun decrementAllocation :: "seat_id \<Rightarrow> allocation \<Rightarrow> changes \<Rightarrow> changes" where
  "decrementAllocation seat a [] = [(seat, ([], [a]))]"
| "decrementAllocation seat a ((s, (incr, decr)) # cs) =
     (if s = seat then (s, (incr, decr @ [a])) # cs
      else (s, (incr, decr)) # decrementAllocation seat a cs)"

definition addTransfer :: "transfer_part \<Rightarrow> changes \<Rightarrow> error + changes" where
  "addTransfer t cs =
     (case fromSeat t of
        Some f \<Rightarrow>
          (case fromAmounts t of
             None \<Rightarrow> Inl TransferMalformed
           | Some fa \<Rightarrow>
               let cs' = decrementAllocation f fa cs in
               (case toSeat t of
                  Some s \<Rightarrow>
                    (case toAmounts t of
                       Some ta \<Rightarrow>
                         if rights_conserved [fa] [ta] then Inr (incrementAllocation s ta cs')
                         else Inl RightsNotConserved
                     | None \<Rightarrow> Inr (incrementAllocation s fa cs'))
                | None \<Rightarrow> if toAmounts t = None then Inr cs' else Inl TransferMalformed))
      | None \<Rightarrow>
          (case toSeat t of
             None \<Rightarrow> Inl TransferMalformed
           | Some s \<Rightarrow>
               if fromAmounts t \<noteq> None then Inl TransferMalformed
               else (case toAmounts t of
                       None \<Rightarrow> Inl TransferMalformed
                     | Some ta \<Rightarrow> Inr (incrementAllocation s ta cs))))"

fun addTransfers :: "transfer_part list \<Rightarrow> changes \<Rightarrow> error + changes" where
  "addTransfers [] cs = Inr cs"
| "addTransfers (t # ts) cs = bindr (addTransfer t cs) (addTransfers ts)"

fun foldAlloc :: "(allocation \<Rightarrow> allocation \<Rightarrow> error + allocation) \<Rightarrow> allocation list \<Rightarrow> allocation \<Rightarrow> error + allocation" where
  "foldAlloc f [] a = Inr a"
| "foldAlloc f (r # rs) a = bindr (f a r) (foldAlloc f rs)"

definition newAllocation :: "zcf_state \<Rightarrow> seat_id \<times> (allocation list \<times> allocation list) \<Rightarrow> error + (seat_id \<times> allocation)" where
  "newAllocation z c =
     (case c of (seat, (incr, decr)) \<Rightarrow>
        bindr (getCurrentAllocation z seat) (\<lambda>a.
        bindr (foldAlloc addToAllocation incr a) (\<lambda>a'.
        bindr (foldAlloc subtractFromAllocation decr a') (\<lambda>a''. Inr (seat, a'')))))"

definition makeAllocationMap :: "zcf_state \<Rightarrow> transfer_part list \<Rightarrow> error + (seat_id \<times> allocation) list" where
  "makeAllocationMap z transfers =
     bindr (addTransfers transfers []) (\<lambda>cs. mapr (newAllocation z) cs)"

definition checkRearrange :: "zcf_state \<Rightarrow> (seat_id \<times> allocation) list \<Rightarrow> error + unit" where
  "checkRearrange z news =
     bindr (mapr (\<lambda>(seat, _). getCurrentAllocation z seat) news) (\<lambda>prev.
     bindr (requirer (rights_conserved prev (map snd news)) RightsNotConserved) (\<lambda>_.
     requirer (list_all (\<lambda>(seat, a). case map_of (activeSeats z) seat of
                 None \<Rightarrow> False | Some s \<Rightarrow> isOfferSafe s a) news) OfferUnsafe))"

definition atomicRearrange :: "transfer_part list \<Rightarrow> (zcf_state, unit) proc" where
  "atomicRearrange transfers =
     bindp (getsp (\<lambda>z. makeAllocationMap z transfers)) (\<lambda>r.
     bindp (liftp r) (\<lambda>news.
     bindp (getsp (\<lambda>z. checkRearrange z news)) (\<lambda>ok.
     thenp (liftp ok)
           (modifyp (\<lambda>z. fold (\<lambda>(seat, a). set_alloc seat a) news z)))))"

section \<open>Minting and burning\<close>

definition total_of :: "allocation \<Rightarrow> int" where
  "total_of a = sum_list (map snd a)"

definition mintGains :: "allocation \<Rightarrow> seat_id \<Rightarrow> (zcf_state, unit) proc" where
  "mintGains gains seat =
     bindp (getsp (\<lambda>z. bindr (getCurrentAllocation z seat) (\<lambda>a. addToAllocation a gains))) (\<lambda>r.
     bindp (liftp r) (\<lambda>a.
     bindp (getsp (\<lambda>z. case map_of (activeSeats z) seat of None \<Rightarrow> False | Some s \<Rightarrow> isOfferSafe s a)) (\<lambda>safe.
     thenp (requirep safe OfferUnsafe)
           (modifyp (\<lambda>z. (set_alloc seat a z)\<lparr>shareSupply := shareSupply z + total_of gains\<rparr>)))))"

definition burnLosses :: "allocation \<Rightarrow> seat_id \<Rightarrow> (zcf_state, unit) proc" where
  "burnLosses losses seat =
     bindp (getsp (\<lambda>z. bindr (getCurrentAllocation z seat) (\<lambda>a. subtractFromAllocation a losses))) (\<lambda>r.
     bindp (liftp r) (\<lambda>a.
     bindp (getsp (\<lambda>z. case map_of (activeSeats z) seat of None \<Rightarrow> False | Some s \<Rightarrow> isOfferSafe s a)) (\<lambda>safe.
     thenp (requirep safe OfferUnsafe)
           (modifyp (\<lambda>z. (set_alloc seat a z)\<lparr>shareSupply := shareSupply z - total_of losses\<rparr>)))))"

section \<open>Laws of allocations\<close>

text \<open>The amount under a keyword, zero when there is none.\<close>

definition amt :: "allocation \<Rightarrow> string \<Rightarrow> int" where
  "amt a k = (case map_of a k of None \<Rightarrow> 0 | Some v \<Rightarrow> v)"

definition alloc_ok :: "allocation \<Rightarrow> bool" where
  "alloc_ok a \<longleftrightarrow> distinct (map fst a) \<and> (\<forall>e \<in> set a. 0 \<le> snd e)"

lemma amt_simps [simp]: "amt [] k = 0" "amt ((k', v) # a) k = (if k = k' then v else amt a k)"
  by (auto simp: amt_def)

lemma usdcOf_amt: "usdcOf a = amt a ''USDC''"
  by (simp add: usdcOf_def amt_def)

definition keep_some :: "(string \<times> int option) list \<Rightarrow> allocation" where
  "keep_some es = List.map_filter (\<lambda>(k, v). map_option (Pair k) v) es"

lemma keep_some_simps [simp]:
  "keep_some [] = []" "keep_some ((k, None) # es) = keep_some es"
  "keep_some ((k, Some v) # es) = (k, v) # keep_some es"
  by (simp_all add: keep_some_def map_filter_simps)

lemma keys_keep_some: "fst ` set (keep_some es) \<subseteq> fst ` set es"
  by (induction es rule: list.induct) (auto simp: keep_some_def map_filter_simps split: option.splits)

lemma distinct_keep_some: "distinct (map fst es) \<Longrightarrow> distinct (map fst (keep_some es))"
proof (induction es)
  case (Cons e es)
  then show ?case using keys_keep_some [of es]
    by (cases e; cases "snd e") auto
qed simp

lemma map_of_keep_some:
  "distinct (map fst es) \<Longrightarrow> map_of (keep_some es) k = (case map_of es k of None \<Rightarrow> None | Some v \<Rightarrow> v)"
proof (induction es)
  case (Cons e es)
  have "map_of (keep_some es) (fst e) = None"
    using keys_keep_some [of es] Cons.prems by (auto simp: map_of_eq_None_iff)
  with Cons show ?case by (cases e; cases "snd e") auto
qed simp

lemma mapr_keyed:
  "mapr (\<lambda>k. bindr (f k) (\<lambda>v. Inr (k, v))) ks = Inr es \<Longrightarrow> map fst es = ks"
  "mapr (\<lambda>k. bindr (f k) (\<lambda>v. Inr (k, v))) ks = Inr es \<Longrightarrow> (k, v) \<in> set es \<Longrightarrow> f k = Inr v"
  by (induction ks arbitrary: es) (auto simp: bindr_Inr_iff)

lemma mapr_keyed_ok:
  "(\<And>k. k \<in> set ks \<Longrightarrow> \<exists>v. f k = Inr v) \<Longrightarrow> \<exists>es. mapr (\<lambda>k. bindr (f k) (\<lambda>v. Inr (k, v))) ks = Inr es"
proof (induction ks)
  case (Cons k ks)
  then obtain v es where "f k = Inr v" "mapr (\<lambda>k. bindr (f k) (\<lambda>v. Inr (k, v))) ks = Inr es"
    by (metis list.set_intros)
  then show ?case by simp
qed simp

lemma distinct_allKeywords:
  "distinct (map fst a) \<Longrightarrow> distinct (map fst r) \<Longrightarrow> distinct (allKeywords a r)"
  by (auto simp: allKeywords_def)

lemma set_allKeywords: "set (allKeywords a r) = fst ` set a \<union> fst ` set r"
  by (auto simp: allKeywords_def)

lemma doOperation_Inr:
  assumes "doOperation op a r = Inr a'" "distinct (map fst a)" "distinct (map fst r)" "op None None = Inr None"
  shows "op (map_of a k) (map_of r k) = Inr (map_of a' k)" "distinct (map fst a')"
    "fst ` set a' \<subseteq> fst ` set a \<union> fst ` set r"
proof -
  obtain es where es: "mapr (\<lambda>k. bindr (op (map_of a k) (map_of r k)) (\<lambda>v. Inr (k, v))) (allKeywords a r) = Inr es"
    and a': "a' = keep_some es"
    using assms(1) by (auto simp: doOperation_def bindr_Inr_iff keep_some_def)
  have keys: "map fst es = allKeywords a r" by (rule mapr_keyed(1) [OF es])
  have ks: "fst ` set es = set (allKeywords a r)" by (simp flip: keys)
  have d: "distinct (map fst es)" using keys assms(2,3) by (simp add: distinct_allKeywords)
  show "op (map_of a k) (map_of r k) = Inr (map_of a' k)"
  proof (cases "map_of es k")
    case None
    then have "k \<notin> set (allKeywords a r)" by (simp add: map_of_eq_None_iff ks)
    then have "map_of a k = None" "map_of r k = None"
      by (simp_all add: map_of_eq_None_iff set_allKeywords)
    with None assms(4) show ?thesis by (simp add: a' map_of_keep_some [OF d])
  next
    case (Some v)
    then have "op (map_of a k) (map_of r k) = Inr v"
      using mapr_keyed(2) [OF es] by (auto dest: map_of_SomeD)
    with Some show ?thesis by (simp add: a' map_of_keep_some [OF d])
  qed
  show "distinct (map fst a')" unfolding a' using d by (rule distinct_keep_some)
  show "fst ` set a' \<subseteq> fst ` set a \<union> fst ` set r"
    using keys_keep_some [of es] ks by (simp add: a' set_allKeywords)
qed

lemma doOperation_ok:
  assumes "\<And>k. \<exists>v. op (map_of a k) (map_of r k) = Inr v"
  shows "\<exists>a'. doOperation op a r = Inr a'"
  using mapr_keyed_ok [of "allKeywords a r" "\<lambda>k. op (map_of a k) (map_of r k)"] assms
  by (auto simp: doOperation_def)

lemma alloc_ok_Some: "alloc_ok a \<Longrightarrow> map_of a k = Some v \<Longrightarrow> 0 \<le> v"
  by (auto simp: alloc_ok_def dest!: map_of_SomeD)

lemma alloc_okI: "distinct (map fst a) \<Longrightarrow> (\<And>k v. map_of a k = Some v \<Longrightarrow> 0 \<le> v) \<Longrightarrow> alloc_ok a"
  by (auto simp: alloc_ok_def)

lemma amt_nonneg: "alloc_ok a \<Longrightarrow> 0 \<le> amt a k"
  by (auto simp: amt_def split: option.split dest: alloc_ok_Some)

lemma addToAllocation_spec:
  assumes "alloc_ok a" "alloc_ok r"
  obtains a' where "addToAllocation a r = Inr a'" "alloc_ok a'" "\<And>k. amt a' k = amt a k + amt r k"
    "\<And>k. map_of a' k = None \<longleftrightarrow> map_of a k = None \<and> map_of r k = None"
    "fst ` set a' \<subseteq> fst ` set a \<union> fst ` set r"
proof -
  have op: "\<exists>v. add_op x y = Inr v" for x y by (cases x; cases y) auto
  then obtain a' where a': "doOperation add_op a r = Inr a'" using doOperation_ok [of add_op a r] by blast
  have d: "distinct (map fst a)" "distinct (map fst r)" using assms by (simp_all add: alloc_ok_def)
  note spec = doOperation_Inr [OF a' d]
  have v: "add_op (map_of a k) (map_of r k) = Inr (map_of a' k)" for k by (rule spec(1)) simp
  show thesis
  proof (rule that)
    show "addToAllocation a r = Inr a'" by (simp add: addToAllocation_def a')
    show "amt a' k = amt a k + amt r k" for k
      using v [of k] by (cases "map_of a k"; cases "map_of r k") (auto simp: amt_def split: option.split)
    show "map_of a' k = None \<longleftrightarrow> map_of a k = None \<and> map_of r k = None" for k
      using v [of k] by (cases "map_of a k"; cases "map_of r k"; cases "map_of a' k") auto
    show "alloc_ok a'"
    proof (rule alloc_okI)
      show "0 \<le> v'" if "map_of a' k = Some v'" for k v'
        using v [of k] that assms
        by (cases "map_of a k"; cases "map_of r k") (auto dest: alloc_ok_Some intro: add_nonneg_nonneg)
    qed (rule spec(2), simp)
  qed (rule spec(3), simp)
qed

lemma subtract_op_eq:
  "subtract_op x y =
     (case y of None \<Rightarrow> Inr x | Some b \<Rightarrow> if b = 0 then Inr x else
        (case x of None \<Rightarrow> Inl MissingKeyword
         | Some v \<Rightarrow> if v < b then Inl InsufficientAllocation else Inr (Some (v - b))))"
  by (cases y) (auto split: option.split)

lemma subtractFromAllocation_spec:
  assumes "alloc_ok a" "alloc_ok r" "\<And>k. amt r k \<le> amt a k"
  obtains a' where "subtractFromAllocation a r = Inr a'" "alloc_ok a'" "\<And>k. amt a' k = amt a k - amt r k"
    "\<And>k. map_of a' k = None \<longleftrightarrow> map_of a k = None"
    "fst ` set a' \<subseteq> fst ` set a \<union> fst ` set r"
proof -
  have op: "\<exists>v. subtract_op (map_of a k) (map_of r k) = Inr v" for k
    using assms(3) [of k] amt_nonneg [OF assms(2), of k]
    by (auto simp: subtract_op_eq amt_def split: option.split)
  then obtain a' where a': "doOperation subtract_op a r = Inr a'"
    using doOperation_ok [of subtract_op a r] by blast
  have d: "distinct (map fst a)" "distinct (map fst r)" using assms by (simp_all add: alloc_ok_def)
  note spec = doOperation_Inr [OF a' d]
  have v: "subtract_op (map_of a k) (map_of r k) = Inr (map_of a' k)" for k by (rule spec(1)) simp
  show thesis
  proof (rule that)
    show "subtractFromAllocation a r = Inr a'" by (simp add: subtractFromAllocation_def a')
    show "amt a' k = amt a k - amt r k" for k
      using v [of k] by (auto simp: subtract_op_eq amt_def split: option.splits if_splits)
    show "map_of a' k = None \<longleftrightarrow> map_of a k = None" for k
      using v [of k] by (cases "map_of a' k") (auto simp: subtract_op_eq split: option.splits if_splits)
    show "alloc_ok a'"
    proof (rule alloc_okI)
      show "0 \<le> v'" if "map_of a' k = Some v'" for k v'
        using v [of k] that assms(1)
        by (auto simp: subtract_op_eq dest: alloc_ok_Some split: option.splits if_splits)
    qed (rule spec(2), simp)
  qed (rule spec(3), simp)
qed

lemma subtractFromAllocation_Inl:
  assumes "alloc_ok a" "amt a k < amt r k" "r = [(k, x)]"
  shows "\<exists>e. subtractFromAllocation a r = Inl e"
proof (rule ccontr)
  assume "\<not> ?thesis"
  then obtain a' where "doOperation subtract_op a r = Inr a'"
    by (cases "subtractFromAllocation a r") (auto simp: subtractFromAllocation_def)
  from doOperation_Inr(1) [OF this, of k] assms amt_nonneg [OF assms(1), of k]
  show False by (auto simp: alloc_ok_def subtract_op_eq amt_def split: option.splits if_splits)
qed

section \<open>Totals\<close>

lemma brand_total_append: "brand_total b (xs @ ys) = brand_total b xs + brand_total b ys"
  by (simp add: brand_total_def)

lemma brand_total_Cons: "brand_total b (x # xs) = brand_total b [x] + brand_total b xs"
  using brand_total_append [of b "[x]" xs] by simp

lemma brand_total_Nil [simp]: "brand_total b [] = 0"
  by (simp add: brand_total_def)

lemma brand_total_amt:
  assumes "alloc_ok a" "finite K" "fst ` set a \<subseteq> K"
  shows "brand_total b [a] = (\<Sum>k\<in>K. if keyword_brand k = b then amt a k else 0)"
proof -
  have d: "distinct (map fst a)" using assms(1) by (simp add: alloc_ok_def)
  then have "brand_total b [a] = (\<Sum>e\<in>set a. if keyword_brand (fst e) = b then snd e else 0)"
    by (simp add: brand_total_def case_prod_beta sum_list_distinct_conv_sum_set distinct_map)
  also have "\<dots> = (\<Sum>e\<in>set a. if keyword_brand (fst e) = b then amt a (fst e) else 0)"
    using d by (intro sum.cong) (auto simp: amt_def)
  also have "\<dots> = (\<Sum>k\<in>fst ` set a. if keyword_brand k = b then amt a k else 0)"
    using d by (simp add: sum.reindex distinct_map)
  also have "\<dots> = (\<Sum>k\<in>K. if keyword_brand k = b then amt a k else 0)"
    by (rule sum.mono_neutral_left [OF assms(2,3)])
      (auto simp: amt_def map_of_eq_None_iff split: option.split dest!: map_of_SomeD intro: rev_image_eqI)
  finally show ?thesis .
qed

lemma brand_total_pointwise:
  assumes ok: "alloc_ok a" "alloc_ok r" "alloc_ok a'"
    and eq: "\<And>k. amt a' k = amt a k + c * amt r k" and dom: "fst ` set a' \<subseteq> fst ` set a \<union> fst ` set r"
  shows "brand_total b [a'] = brand_total b [a] + c * brand_total b [r]"
proof -
  let ?K = "fst ` set a \<union> fst ` set r"
  have "brand_total b [x] = (\<Sum>k\<in>?K. if keyword_brand k = b then amt x k else 0)"
    if "alloc_ok x" "fst ` set x \<subseteq> ?K" for x
    using that by (intro brand_total_amt) auto
  note this [OF ok(1)] this [OF ok(2)] this [OF ok(3) dom]
  moreover have "(\<Sum>k\<in>?K. if keyword_brand k = b then amt a' k else 0) =
      (\<Sum>k\<in>?K. (if keyword_brand k = b then amt a k else 0) + c * (if keyword_brand k = b then amt r k else 0))"
    by (rule sum.cong) (auto simp: eq)
  ultimately show ?thesis by (simp add: sum.distrib sum_distrib_left)
qed

lemma brand_total_add:
  assumes "alloc_ok a" "alloc_ok r" "addToAllocation a r = Inr a'"
  shows "brand_total b [a'] = brand_total b [a] + brand_total b [r]"
proof (rule addToAllocation_spec [OF assms(1,2)])
  fix x assume x: "addToAllocation a r = Inr x" "alloc_ok x" "fst ` set x \<subseteq> fst ` set a \<union> fst ` set r"
    and eq: "\<And>k. amt x k = amt a k + amt r k"
  have "x = a'" using x(1) assms(3) by simp
  with x eq assms(1,2) show ?thesis using brand_total_pointwise [of a r a' 1 b] by simp
qed

lemma brand_total_subtract:
  assumes "alloc_ok a" "alloc_ok r" "\<And>k. amt r k \<le> amt a k" "subtractFromAllocation a r = Inr a'"
  shows "brand_total b [a'] = brand_total b [a] - brand_total b [r]"
proof (rule subtractFromAllocation_spec [OF assms(1-3)])
  fix x assume x: "subtractFromAllocation a r = Inr x" "alloc_ok x" "fst ` set x \<subseteq> fst ` set a \<union> fst ` set r"
    and eq: "\<And>k. amt x k = amt a k - amt r k"
  have "x = a'" using x(1) assms(4) by simp
  with x eq assms(1,2) show ?thesis using brand_total_pointwise [of a r a' "-1" b] by simp
qed

section \<open>Total versions\<close>

definition plus_alloc :: "allocation \<Rightarrow> allocation \<Rightarrow> allocation" where
  "plus_alloc a r = (case addToAllocation a r of Inr x \<Rightarrow> x | Inl _ \<Rightarrow> a)"

definition minus_alloc :: "allocation \<Rightarrow> allocation \<Rightarrow> allocation" where
  "minus_alloc a r = (case subtractFromAllocation a r of Inr x \<Rightarrow> x | Inl _ \<Rightarrow> a)"

definition covers :: "allocation \<Rightarrow> allocation \<Rightarrow> bool" where
  "covers a r \<longleftrightarrow> (\<forall>k. amt r k \<le> amt a k)"

named_theorems alloc_simps \<open>laws of well-formed allocations\<close>

lemma plus_alloc_laws [alloc_simps]:
  assumes "alloc_ok a" "alloc_ok r"
  shows "addToAllocation a r = Inr (plus_alloc a r)" "alloc_ok (plus_alloc a r)"
    "amt (plus_alloc a r) k = amt a k + amt r k"
    "map_of (plus_alloc a r) k = None \<longleftrightarrow> map_of a k = None \<and> map_of r k = None"
    "brand_total b [plus_alloc a r] = brand_total b [a] + brand_total b [r]"
  by (rule addToAllocation_spec [OF assms]; simp add: plus_alloc_def brand_total_add [OF assms])+

lemma minus_alloc_laws [alloc_simps]:
  assumes "alloc_ok a" "alloc_ok r" "covers a r"
  shows "subtractFromAllocation a r = Inr (minus_alloc a r)" "alloc_ok (minus_alloc a r)"
    "amt (minus_alloc a r) k = amt a k - amt r k"
    "map_of (minus_alloc a r) k = None \<longleftrightarrow> map_of a k = None"
    "brand_total b [minus_alloc a r] = brand_total b [a] - brand_total b [r]"
  by (rule subtractFromAllocation_spec [OF assms(1,2)];
      use assms(3) in \<open>simp add: covers_def minus_alloc_def brand_total_subtract [OF assms(1,2)]\<close>)+

lemma covers_single: "alloc_ok a \<Longrightarrow> covers a [(k, x)] \<longleftrightarrow> x \<le> amt a k"
  by (auto simp: covers_def amt_nonneg)

lemma alloc_ok_single [simp]: "alloc_ok [(k, x)] \<longleftrightarrow> 0 \<le> x"
  by (simp add: alloc_ok_def)

lemma alloc_ok_Nil [simp]: "alloc_ok []"
  by (simp add: alloc_ok_def)

lemma brand_total_single: "brand_total b [[(k, x)]] = (if keyword_brand k = b then x else 0)"
  by (simp add: brand_total_def)

lemma map_of_amt: "map_of a k = (if map_of a k = None then None else Some (amt a k))"
  by (auto simp: amt_def)

section \<open>Seats\<close>

definition zcf_ok :: "zcf_state \<Rightarrow> bool" where
  "zcf_ok z \<longleftrightarrow> store_ok (activeSeats z) \<and>
     ms.holds_all (\<lambda>n s. n < nextSeat z \<and> alloc_ok (allocated s)) (activeSeats z)"

lemma zcf_okD: "zcf_ok z \<Longrightarrow> map_of (activeSeats z) n = Some s \<Longrightarrow> n < nextSeat z \<and> alloc_ok (allocated s)"
  by (auto simp: zcf_ok_def dest: ms.holds_allD)

lemma set_alloc_seat [simp]:
  "map_of (activeSeats (set_alloc n a z)) m =
     (if m = n then map_option (\<lambda>s. s\<lparr>allocated := a\<rparr>) (map_of (activeSeats z) n) else map_of (activeSeats z) m)"
  by (auto simp: set_alloc_def split: option.splits)

lemma set_alloc_fields [simp]:
  "nextSeat (set_alloc n a z) = nextSeat z" "shareSupply (set_alloc n a z) = shareSupply z"
  "paidOut (set_alloc n a z) = paidOut z"
  by (simp_all add: set_alloc_def split: option.split)

lemma zcf_ok_set_alloc: "zcf_ok z \<Longrightarrow> alloc_ok a \<Longrightarrow> zcf_ok (set_alloc n a z)"
  by (auto simp: zcf_ok_def set_alloc_def store_ok_put_entry intro!: ms.holds_all_put dest: ms.holds_allD
      split: option.split)

lemma makeSeat_eq:
  "makeSeat a g w z = (Inr (nextSeat z),
     z\<lparr>activeSeats := put_entry (nextSeat z) \<lparr>allocated = a, give = g, want = w\<rparr> (activeSeats z),
       nextSeat := Suc (nextSeat z)\<rparr>)"
  by (simp add: makeSeat_def)

lemma zcf_ok_makeSeat: "zcf_ok z \<Longrightarrow> alloc_ok a \<Longrightarrow> zcf_ok (snd (makeSeat a g w z))"
  by (auto simp: makeSeat_eq zcf_ok_def store_ok_put_entry ms.holds_all_def less_Suc_eq)

lemma seatExit_eq:
  "seatExit n z =
     (case map_of (activeSeats z) n of
        None \<Rightarrow> (Inl SeatExited, z)
      | Some s \<Rightarrow> (Inr (), z\<lparr>activeSeats := drop_entry n (activeSeats z),
                            paidOut := paidOut z @ [(n, allocated s)]\<rparr>))"
  by (simp add: seatExit_def getCurrentAllocation_def split: option.split)

lemma zcf_ok_seatExit: "zcf_ok z \<Longrightarrow> zcf_ok (snd (seatExit n z))"
  by (auto simp: seatExit_eq zcf_ok_def store_ok_drop_entry intro!: ms.holds_all_del dest: ms.holds_allD
      split: option.split)

text \<open>A rearrangement either commits the new allocations or changes nothing.\<close>

lemma atomicRearrange_eq:
  "atomicRearrange ts z =
     (case makeAllocationMap z ts of
        Inl e \<Rightarrow> (Inl e, z)
      | Inr news \<Rightarrow>
          (case checkRearrange z news of
             Inl e \<Rightarrow> (Inl e, z)
           | Inr _ \<Rightarrow> (Inr (), fold (\<lambda>(seat, a). set_alloc seat a) news z)))"
  by (simp add: atomicRearrange_def split: sum.split)

lemma atomicRearrange_throw: "atomicRearrange ts z = (Inl e, z') \<Longrightarrow> z' = z"
  by (auto simp: atomicRearrange_eq split: sum.splits)

lemma fold_set_alloc_fields:
  "nextSeat (fold (\<lambda>(seat, a). set_alloc seat a) news z) = nextSeat z"
  "shareSupply (fold (\<lambda>(seat, a). set_alloc seat a) news z) = shareSupply z"
  by (induction news arbitrary: z) auto

section \<open>The rearrangements the contract makes\<close>

lemma isOfferSafe_empty [simp]: "give s = [] \<Longrightarrow> isOfferSafe s a"
  by (simp add: isOfferSafe_def satisfies_def)

lemmas rearrange_unfold =
  atomicRearrange_eq makeAllocationMap_def addTransfer_def newAllocation_def getCurrentAllocation_def
  checkRearrange_def transferP_def fromOnly_def toOnly_def requirer_def

lemma all_brand: "(\<forall>b. P b) \<longleftrightarrow> P UsdcBrand \<and> P PoolSharesBrand"
  by (metis (full_types) brand.exhaust)

lemma rights_pair:
  "rights_conserved [x, y] [x', y'] \<longleftrightarrow>
     (\<forall>b. brand_total b [x] + brand_total b [y] = brand_total b [x'] + brand_total b [y'])"
  by (simp add: rights_conserved_def all_brand brand_total_Cons [of _ _ "[_]"])

lemma rights_triple:
  "rights_conserved [x, y, w] [x', y', w'] \<longleftrightarrow>
     (\<forall>b. brand_total b [x] + brand_total b [y] + brand_total b [w] =
          brand_total b [x'] + brand_total b [y'] + brand_total b [w'])"
  by (simp add: rights_conserved_def all_brand brand_total_Cons [of _ _ "[_]"]
      brand_total_Cons [of _ _ "[_, _]"] add.assoc)

text \<open>One transfer between two seats.\<close>

lemma rearrange_transfer:
  assumes seats: "map_of (activeSeats z) f = Some sf" "map_of (activeSeats z) t = Some st" "f \<noteq> t"
    and ok: "alloc_ok (allocated sf)" "alloc_ok (allocated st)" "alloc_ok a" "covers (allocated sf) a"
  shows "atomicRearrange [transferP f t a] z =
    (if isOfferSafe sf (minus_alloc (allocated sf) a) \<and> isOfferSafe st (plus_alloc (allocated st) a)
     then (Inr (), set_alloc t (plus_alloc (allocated st) a) (set_alloc f (minus_alloc (allocated sf) a) z))
     else (Inl OfferUnsafe, z))"
  using seats ok by (simp add: rearrange_unfold Let_def alloc_simps rights_pair)

lemma rearrange_transfer_short:
  assumes seats: "map_of (activeSeats z) f = Some sf" "map_of (activeSeats z) t = Some st" "f \<noteq> t"
    and ok: "alloc_ok (allocated sf)" "amt (allocated sf) k < x"
  shows "\<exists>e. atomicRearrange [transferP f t [(k, x)]] z = (Inl e, z)"
proof -
  obtain e where "subtractFromAllocation (allocated sf) [(k, x)] = Inl e"
    using subtractFromAllocation_Inl [OF ok(1), of k "[(k, x)]" x] ok by auto
  with seats show ?thesis by (auto simp: rearrange_unfold Let_def)
qed

text \<open>\<open>a\<close> gives \<open>x\<close> to \<open>b\<close> and receives \<open>y\<close> from \<open>c\<close>: deposits and withdrawals.\<close>

lemma rearrange_swap:
  assumes seats: "map_of (activeSeats z) a = Some sa" "map_of (activeSeats z) b = Some sb"
      "map_of (activeSeats z) c = Some sc" and ne: "a \<noteq> b" "a \<noteq> c" "b \<noteq> c"
    and ok: "alloc_ok (allocated sa)" "alloc_ok (allocated sb)" "alloc_ok (allocated sc)" "alloc_ok x" "alloc_ok y"
      "covers (allocated sa) x" "covers (allocated sc) y"
  shows "atomicRearrange [transferP a b x, transferP c a y] z =
    (let na = minus_alloc (plus_alloc (allocated sa) y) x; nb = plus_alloc (allocated sb) x;
         nc = minus_alloc (allocated sc) y
     in if isOfferSafe sa na \<and> isOfferSafe sb nb \<and> isOfferSafe sc nc
        then (Inr (), set_alloc c nc (set_alloc b nb (set_alloc a na z)))
        else (Inl OfferUnsafe, z))"
proof -
  have "covers (plus_alloc (allocated sa) y) x"
    using ok(6) amt_nonneg [OF ok(5)] ok(1,5)
    by (simp add: covers_def alloc_simps) (meson add_increasing2 le_add_same_cancel1 order_trans)
  with seats ne ok show ?thesis
    by (simp add: rearrange_unfold Let_def alloc_simps rights_triple)
qed

lemma rearrange_swap_short:
  assumes seats: "map_of (activeSeats z) a = Some sa" "map_of (activeSeats z) b = Some sb"
      "map_of (activeSeats z) c = Some sc" and ne: "a \<noteq> b" "a \<noteq> c" "b \<noteq> c"
    and ok: "alloc_ok (allocated sa)" "alloc_ok (allocated sb)" "alloc_ok (allocated sc)" "alloc_ok x"
      "covers (allocated sa) x" "amt (allocated sc) k < v" "0 \<le> v"
  shows "\<exists>e. atomicRearrange [transferP a b x, transferP c a [(k, v)]] z = (Inl e, z)"
proof -
  obtain e where "subtractFromAllocation (allocated sc) [(k, v)] = Inl e"
    using subtractFromAllocation_Inl [OF ok(3), of k "[(k, v)]" v] ok by auto
  moreover have "covers (plus_alloc (allocated sa) [(k, v)]) x"
    using ok(5) amt_nonneg [of "[(k, v)]"] ok(1,7)
    by (simp add: covers_def alloc_simps) (meson add_increasing2 le_add_same_cancel1 order_trans)
  ultimately show ?thesis
    using seats ne ok by (auto simp: rearrange_unfold Let_def alloc_simps)
qed

text \<open>\<open>s\<close> pays \<open>x\<close>, split between \<open>p\<close> and \<open>q\<close>: repayments.\<close>

lemma rearrange_split:
  assumes seats: "map_of (activeSeats z) s = Some ss" "map_of (activeSeats z) p = Some sp"
      "map_of (activeSeats z) q = Some sq" and ne: "s \<noteq> p" "s \<noteq> q" "p \<noteq> q"
    and ok: "alloc_ok (allocated ss)" "alloc_ok (allocated sp)" "alloc_ok (allocated sq)"
      "alloc_ok x" "alloc_ok y" "alloc_ok w" "covers (allocated ss) x"
  shows "atomicRearrange [fromOnly s x, toOnly p y, toOnly q w] z =
    (let ns = minus_alloc (allocated ss) x; np = plus_alloc (allocated sp) y; nq = plus_alloc (allocated sq) w
     in if \<not> (\<forall>b. brand_total b [x] = brand_total b [y] + brand_total b [w]) then (Inl RightsNotConserved, z)
        else if isOfferSafe ss ns \<and> isOfferSafe sp np \<and> isOfferSafe sq nq
        then (Inr (), set_alloc q nq (set_alloc p np (set_alloc s ns z)))
        else (Inl OfferUnsafe, z))"
proof -
  have iff: "(\<forall>b. brand_total b [y] + (brand_total b [w] - brand_total b [x]) = 0) \<longleftrightarrow>
      (\<forall>b. brand_total b [x] = brand_total b [y] + brand_total b [w])"
    by (simp add: all_brand) linarith
  show ?thesis
    using seats ne ok iff
    by (simp add: rearrange_unfold Let_def alloc_simps rights_triple algebra_simps)
qed

text \<open>A rearrangement that succeeds names active seats only.\<close>

lemma mapr_newAllocation_active:
  "mapr (newAllocation z) cs = Inr news \<Longrightarrow> c \<in> set cs \<Longrightarrow> map_of (activeSeats z) (fst c) \<noteq> None"
  by (induction cs arbitrary: news)
    (auto simp: bindr_Inr_iff newAllocation_def getCurrentAllocation_def split: option.splits prod.splits)

lemma rearrange_active:
  assumes "atomicRearrange ts z = (Inr u, z')" "addTransfers ts [] = Inr cs" "c \<in> set cs"
  shows "map_of (activeSeats z) (fst c) \<noteq> None"
  using assms mapr_newAllocation_active [of z cs _ c]
  by (auto simp: atomicRearrange_eq makeAllocationMap_def split: sum.splits)

lemma rearrange_transfer_Inr:
  assumes r: "atomicRearrange [transferP f t [(k, x)]] z = (Inr u, z')" and "f \<noteq> t" "zcf_ok z" "0 \<le> x"
  obtains sf st where "map_of (activeSeats z) f = Some sf" "map_of (activeSeats z) t = Some st"
    "alloc_ok (allocated sf)" "alloc_ok (allocated st)" "x \<le> amt (allocated sf) k"
    "z' = set_alloc t (plus_alloc (allocated st) [(k, x)]) (set_alloc f (minus_alloc (allocated sf) [(k, x)]) z)"
proof -
  have cs: "addTransfers [transferP f t [(k, x)]] [] = Inr [(f, ([], [[(k, x)]])), (t, ([[(k, x)]], []))]"
    using assms(2) by (simp add: transferP_def addTransfer_def Let_def)
  obtain sf st where s: "map_of (activeSeats z) f = Some sf" "map_of (activeSeats z) t = Some st"
    using rearrange_active [OF r cs] by fastforce
  have ok: "alloc_ok (allocated sf)" "alloc_ok (allocated st)"
    using s zcf_okD [OF assms(3)] by blast+
  have "x \<le> amt (allocated sf) k"
    using rearrange_transfer_short [OF s assms(2) ok(1), of k x] r by force
  moreover have "z' = set_alloc t (plus_alloc (allocated st) [(k, x)]) (set_alloc f (minus_alloc (allocated sf) [(k, x)]) z)"
    using r rearrange_transfer [OF s assms(2) ok, of "[(k, x)]"] ok calculation assms(4)
    by (simp add: covers_single split: if_splits)
  ultimately show thesis using that s ok by blast
qed

lemma rearrange_split_Inr:
  assumes r: "atomicRearrange [fromOnly s [(k, x)], toOnly p y, toOnly q w] z = (Inr u, z')"
    and ne: "s \<noteq> p" "s \<noteq> q" "p \<noteq> q" and "zcf_ok z" "0 \<le> x" "alloc_ok y" "alloc_ok w"
  obtains ss sp sq where "map_of (activeSeats z) s = Some ss" "map_of (activeSeats z) p = Some sp"
    "map_of (activeSeats z) q = Some sq"
    "alloc_ok (allocated ss)" "alloc_ok (allocated sp)" "alloc_ok (allocated sq)" "x \<le> amt (allocated ss) k"
    "\<forall>b. brand_total b [[(k, x)]] = brand_total b [y] + brand_total b [w]"
    "z' = set_alloc q (plus_alloc (allocated sq) w) (set_alloc p (plus_alloc (allocated sp) y)
            (set_alloc s (minus_alloc (allocated ss) [(k, x)]) z))"
proof -
  have cs: "addTransfers [fromOnly s [(k, x)], toOnly p y, toOnly q w] [] =
      Inr [(s, ([], [[(k, x)]])), (p, ([y], [])), (q, ([w], []))]"
    using ne by (simp add: fromOnly_def toOnly_def addTransfer_def Let_def)
  obtain ss sp sq where a: "map_of (activeSeats z) s = Some ss" "map_of (activeSeats z) p = Some sp"
    "map_of (activeSeats z) q = Some sq"
    using rearrange_active [OF r cs] by fastforce
  have ok: "alloc_ok (allocated ss)" "alloc_ok (allocated sp)" "alloc_ok (allocated sq)"
    using a zcf_okD [OF assms(5)] by blast+
  have le: "x \<le> amt (allocated ss) k"
  proof (rule ccontr)
    assume "\<not> ?thesis"
    then obtain e where "subtractFromAllocation (allocated ss) [(k, x)] = Inl e"
      using subtractFromAllocation_Inl [OF ok(1), of k "[(k, x)]" x] by auto
    with r a ne show False by (simp add: rearrange_unfold Let_def)
  qed
  have "\<forall>b. brand_total b [[(k, x)]] = brand_total b [y] + brand_total b [w]"
    "z' = set_alloc q (plus_alloc (allocated sq) w) (set_alloc p (plus_alloc (allocated sp) y)
            (set_alloc s (minus_alloc (allocated ss) [(k, x)]) z))"
    using r rearrange_split [OF a ne ok, of "[(k, x)]" y w] ok le assms(6-8)
    by (auto simp: covers_single Let_def split: if_splits)
  with that a ok le show thesis by blast
qed

end
