(* ===== verification/LiquidityPool.thy ===== *)
theory LiquidityPool
  imports Fees Zcf
begin

text \<open>
  The liquidity pool exo (\<open>exos/liquidity-pool.ts\<close>): borrowing and repayment of advances,
  deposits and withdrawals of the liquidity providers, and withdrawal of the contract fees,
  over the seats of the ZCF model. Its invariant is what \<open>checkPoolBalance\<close> tests: the
  pool's allocation, the dust and the outstanding borrows make up the share-worth numerator.
\<close>

record pool_state =
  zcf :: zcf_state
  shareWorth :: ratio
  encumberedBalance :: int
  poolStats :: pool_stats
  poolSeat :: seat_id
  feeSeat :: seat_id
  metrics :: "(int \<times> ratio \<times> pool_stats) list"

definition onZcf :: "(zcf_state, 'a) proc \<Rightarrow> (pool_state, 'a) proc" where
  "onZcf m = zoomp zcf (\<lambda>z p. p\<lparr>zcf := z\<rparr>) m"

section \<open>Methods\<close>

definition initLiquidityPool :: "zcf_state \<Rightarrow> pool_state" where
  "initLiquidityPool z =
     (case makeEmptySeatKit z of (_, z1) \<Rightarrow>
        (case makeEmptySeatKit z1 of (_, z2) \<Rightarrow>
           \<lparr>zcf = z2, shareWorth = makeParity, encumberedBalance = 0,
            poolStats = \<lparr>totalBorrows = 0, totalContractFees = 0, totalPoolFees = 0, totalRepays = 0\<rparr>,
            poolSeat = nextSeat z, feeSeat = nextSeat z1, metrics = []\<rparr>))"

definition publishPoolMetrics :: "(pool_state, unit) proc" where
  "publishPoolMetrics =
     modifyp (\<lambda>p. p\<lparr>metrics := metrics p @ [(encumberedBalance p, shareWorth p, poolStats p)]\<rparr>)"

definition borrow :: "seat_id \<Rightarrow> int \<Rightarrow> (pool_state, unit) proc" where
  "borrow toSeat' amount' =
     bindp (getsp (\<lambda>p. getAmountAllocated (zcf p) (poolSeat p) ''USDC'')) (\<lambda>r.
     bindp (liftp r) (\<lambda>available.
     bindp (getsp (\<lambda>p. borrowCalc amount' available (encumberedBalance p) (poolStats p))) (\<lambda>r2.
     bindp (liftp r2) (\<lambda>(encumbered', stats').
     bindp (getsp poolSeat) (\<lambda>ps.
     thenp (onZcf (atomicRearrange [transferP ps toSeat' [(''USDC'', amount')]]))
    (thenp (modifyp (\<lambda>p. p\<lparr>encumberedBalance := encumbered', poolStats := stats'\<rparr>))
           publishPoolMetrics))))))"

definition repay :: "transfer_part \<Rightarrow> repay_split \<Rightarrow> (pool_state, unit) proc" where
  "repay sourceTransfer split =
     bindp (getsp (\<lambda>p. bindr (getCurrentAllocation (zcf p) (poolSeat p)) (\<lambda>a.
        checkPoolBalance a (shareWorth p) (encumberedBalance p)))) (\<lambda>r.
     bindp (liftp r) (\<lambda>_.
     bindp (getsp (\<lambda>p. repayCalc (shareWorth p) split (encumberedBalance p) (poolStats p))) (\<lambda>r2.
     bindp (liftp r2) (\<lambda>(worth', encumbered', stats').
     bindp (getsp (\<lambda>p. (poolSeat p, feeSeat p))) (\<lambda>(ps, fs).
     thenp (onZcf (atomicRearrange
              [sourceTransfer,
               toOnly ps [(''USDC'', PoolFee split + Principal split)],
               toOnly fs [(''USDC'', ContractFee split + RelayFee split)]]))
    (thenp (modifyp (\<lambda>p. p\<lparr>shareWorth := worth', encumberedBalance := encumbered', poolStats := stats'\<rparr>))
           publishPoolMetrics))))))"

definition returnToPool :: "seat_id \<Rightarrow> int \<Rightarrow> (pool_state, unit) proc" where
  "returnToPool borrowSeat amount' =
     (let returnAmounts = \<lparr>Principal = amount', PoolFee = 0, ContractFee = 0, RelayFee = 0\<rparr> in
      bindp (getsp (\<lambda>p. getCurrentAllocation (zcf p) borrowSeat)) (\<lambda>r.
      bindp (liftp r) (\<lambda>alloc.
      thenp (requirep (case map_of alloc ''USDC'' of None \<Rightarrow> False | Some v \<Rightarrow> v \<ge> amount') InsufficientAllocation)
     (thenp (repay (fromOnly borrowSeat [(''USDC'', amount')]) returnAmounts)
            (onZcf (seatExit borrowSeat))))))"

definition getProposal :: "zcf_state \<Rightarrow> seat_id \<Rightarrow> error + (allocation \<times> allocation)" where
  "getProposal z seat =
     (case map_of (activeSeats z) seat of None \<Rightarrow> Inl SeatExited | Some s \<Rightarrow> Inr (give s, want s))"

definition depositHandle :: "seat_id \<Rightarrow> (pool_state, unit) proc" where
  "depositHandle lp =
     bindp (getsp (\<lambda>p. getProposal (zcf p) lp)) (\<lambda>r.
     bindp (liftp r) (\<lambda>(pgive, pwant).
     bindp (getsp (\<lambda>p. bindr (getCurrentAllocation (zcf p) (poolSeat p)) (\<lambda>a.
        checkPoolBalance a (shareWorth p) (encumberedBalance p)))) (\<lambda>r2.
     bindp (liftp r2) (\<lambda>_.
     bindp (getsp (\<lambda>p. depositCalc (shareWorth p) (usdcOf pgive) (map_of pwant ''PoolShare''))) (\<lambda>r3.
     bindp (liftp r3) (\<lambda>(shares, worthPost).
     bindp (onZcf makeEmptySeatKit) (\<lambda>sharePayout.
     thenp (onZcf (mintGains [(''PoolShare'', shares)] sharePayout))
    (bindp (getsp poolSeat) (\<lambda>ps.
     thenp (finallyp
              (catchp
                 (thenp (modifyp (\<lambda>p. p\<lparr>shareWorth := worthPost\<rparr>))
                        (onZcf (atomicRearrange
                           [transferP lp ps pgive, transferP sharePayout lp [(''PoolShare'', shares)]])))
                 (\<lambda>_. throw CannotCommit))
              (thenp (onZcf (seatExit lp)) (onZcf (seatExit sharePayout))))
           publishPoolMetrics)))))))))"

definition withdrawHandle :: "seat_id \<Rightarrow> (pool_state, unit) proc" where
  "withdrawHandle lp =
     bindp (getsp (\<lambda>p. getProposal (zcf p) lp)) (\<lambda>r.
     bindp (liftp r) (\<lambda>(pgive, pwant).
     bindp (onZcf makeEmptySeatKit) (\<lambda>burn.
     bindp (getsp (\<lambda>p. bindr (getCurrentAllocation (zcf p) (poolSeat p)) (\<lambda>a.
        withdrawCalc (shareWorth p) (amt pgive ''PoolShare'') (usdcOf pwant) a (encumberedBalance p)))) (\<lambda>r2.
     bindp (liftp r2) (\<lambda>(worthPost, payout).
     bindp (getsp poolSeat) (\<lambda>ps.
     thenp (finallyp
              (catchp
                 (thenp (modifyp (\<lambda>p. p\<lparr>shareWorth := worthPost\<rparr>))
                 (thenp (onZcf (atomicRearrange
                           [transferP lp burn pgive, transferP ps lp [(''USDC'', payout)]]))
                        (onZcf (burnLosses pgive burn))))
                 (\<lambda>_. throw CannotCommit))
              (thenp (onZcf (seatExit lp)) (onZcf (seatExit burn))))
           publishPoolMetrics))))))"

definition withdrawFeesHandle :: "seat_id \<Rightarrow> (pool_state, unit) proc" where
  "withdrawFeesHandle seat =
     bindp (getsp (\<lambda>p. getProposal (zcf p) seat)) (\<lambda>r.
     bindp (liftp r) (\<lambda>(_, pwant).
     bindp (getsp (\<lambda>p. getAmountAllocated (zcf p) (feeSeat p) ''USDC'')) (\<lambda>r2.
     bindp (liftp r2) (\<lambda>available.
     thenp (requirep (available \<ge> usdcOf pwant) CannotWithdraw)
    (bindp (getsp feeSeat) (\<lambda>fs.
     thenp (onZcf (atomicRearrange [transferP fs seat pwant]))
           (onZcf (seatExit seat))))))))"

definition getContractFeeBalance :: "pool_state \<Rightarrow> error + int" where
  "getContractFeeBalance p =
     bindr (getCurrentAllocation (zcf p) (feeSeat p)) (\<lambda>a.
       case map_of a ''USDC'' of None \<Rightarrow> Inl MissingKeyword | Some v \<Rightarrow> Inr v)"

section \<open>The invariant\<close>

definition pool_usdc :: "pool_state \<Rightarrow> int" where
  "pool_usdc p = (case map_of (activeSeats (zcf p)) (poolSeat p) of None \<Rightarrow> 0 | Some s \<Rightarrow> usdcOf (allocated s))"

definition fee_usdc :: "pool_state \<Rightarrow> int" where
  "fee_usdc p = (case map_of (activeSeats (zcf p)) (feeSeat p) of None \<Rightarrow> 0 | Some s \<Rightarrow> usdcOf (allocated s))"

definition seats_ok :: "pool_state \<Rightarrow> bool" where
  "seats_ok p \<longleftrightarrow> zcf_ok (zcf p) \<and> poolSeat p \<noteq> feeSeat p \<and>
     (\<exists>s. map_of (activeSeats (zcf p)) (poolSeat p) = Some s \<and> give s = [] \<and> pool_alloc_ok (allocated s)) \<and>
     (\<exists>s. map_of (activeSeats (zcf p)) (feeSeat p) = Some s \<and> give s = [])"

definition pool_ok :: "pool_state \<Rightarrow> bool" where
  "pool_ok p \<longleftrightarrow> seats_ok p
     \<and> pool_usdc p + 1 + encumberedBalance p = numerator (shareWorth p)
     \<and> denominator (shareWorth p) = shareSupply (zcf p) + 1 \<and> 0 \<le> shareSupply (zcf p)
     \<and> 0 \<le> encumberedBalance p
     \<and> encumberedBalance p = totalBorrows (poolStats p) - totalRepays (poolStats p)
     \<and> 0 \<le> totalPoolFees (poolStats p) \<and> fee_usdc p \<le> totalContractFees (poolStats p)"

lemma pool_alloc_ok_iff: "pool_alloc_ok a \<longleftrightarrow> alloc_ok a \<and> (\<forall>k. k \<noteq> ''USDC'' \<longrightarrow> map_of a k = None)"
proof
  assume a: "alloc_ok a \<and> (\<forall>k. k \<noteq> ''USDC'' \<longrightarrow> map_of a k = None)"
  show "pool_alloc_ok a"
  proof (cases a)
    case Nil
    then show ?thesis by (simp add: pool_alloc_ok_def)
  next
    case (Cons e es)
    have k: "\<forall>e \<in> set a. fst e = ''USDC''"
      using a by (metis map_of_eq_None_iff image_eqI)
    then have "es = []" using a Cons by (cases es) (auto simp: alloc_ok_def)
    with k a Cons show ?thesis by (cases e) (auto simp: pool_alloc_ok_def alloc_ok_def)
  qed
qed (auto simp: pool_alloc_ok_def alloc_ok_def)

lemma onZcf_apply [simp]: "onZcf m p = (case m (zcf p) of (r, z) \<Rightarrow> (r, p\<lparr>zcf := z\<rparr>))"
  by (simp add: onZcf_def)

lemma pool_okE:
  assumes "pool_ok p"
  obtains sp sf where "map_of (activeSeats (zcf p)) (poolSeat p) = Some sp" "give sp = []"
    "pool_alloc_ok (allocated sp)" "alloc_ok (allocated sp)"
    "map_of (activeSeats (zcf p)) (feeSeat p) = Some sf" "give sf = []" "alloc_ok (allocated sf)"
    "zcf_ok (zcf p)" "poolSeat p \<noteq> feeSeat p" "pool_usdc p = amt (allocated sp) ''USDC''"
    "fee_usdc p = amt (allocated sf) ''USDC''" "0 \<le> pool_usdc p" "ratio_ok (shareWorth p)"
    "0 < numerator (shareWorth p)"
proof -
  from assms obtain sp sf where
    s: "map_of (activeSeats (zcf p)) (poolSeat p) = Some sp" "give sp = []" "pool_alloc_ok (allocated sp)"
      "map_of (activeSeats (zcf p)) (feeSeat p) = Some sf" "give sf = []" "zcf_ok (zcf p)" "poolSeat p \<noteq> feeSeat p"
    by (auto simp: pool_ok_def seats_ok_def)
  have "alloc_ok (allocated sp)" "alloc_ok (allocated sf)" using s(1,4) zcf_okD [OF s(6)] by blast+
  moreover have "0 \<le> pool_usdc p" "pool_usdc p = amt (allocated sp) ''USDC''" "fee_usdc p = amt (allocated sf) ''USDC''"
    using s pool_alloc_ok_nonneg [OF s(3)] by (simp_all add: pool_usdc_def fee_usdc_def usdcOf_amt)
  moreover have "ratio_ok (shareWorth p)" "0 < numerator (shareWorth p)"
    using assms \<open>0 \<le> pool_usdc p\<close> by (auto simp: pool_ok_def ratio_ok_def)
  ultimately show thesis using that s by blast
qed

lemma pool_okI:
  assumes "zcf_ok (zcf p)" "poolSeat p \<noteq> feeSeat p"
    "map_of (activeSeats (zcf p)) (poolSeat p) = Some sp" "give sp = []" "alloc_ok (allocated sp)"
    "\<And>k. k \<noteq> ''USDC'' \<Longrightarrow> map_of (allocated sp) k = None"
    "map_of (activeSeats (zcf p)) (feeSeat p) = Some sf" "give sf = []"
    "amt (allocated sp) ''USDC'' + 1 + encumberedBalance p = numerator (shareWorth p)"
    "denominator (shareWorth p) = shareSupply (zcf p) + 1" "0 \<le> shareSupply (zcf p)" "0 \<le> encumberedBalance p"
    "encumberedBalance p = totalBorrows (poolStats p) - totalRepays (poolStats p)"
    "0 \<le> totalPoolFees (poolStats p)" "amt (allocated sf) ''USDC'' \<le> totalContractFees (poolStats p)"
  shows "pool_ok p"
  using assms by (simp add: pool_ok_def seats_ok_def pool_alloc_ok_iff pool_usdc_def fee_usdc_def usdcOf_amt)

lemma pool_ok_metrics [simp]: "pool_ok (p\<lparr>metrics := m\<rparr>) = pool_ok p"
  by (simp add: pool_ok_def seats_ok_def pool_usdc_def fee_usdc_def)

lemma zcf_same [simp]: "p\<lparr>zcf := zcf p\<rparr> = p"
  by simp

section \<open>Borrowing\<close>

text \<open>The common part of the borrow proof: what a committed borrow leaves.\<close>

definition borrowed :: "pool_state \<Rightarrow> int \<Rightarrow> zcf_state \<Rightarrow> pool_state" where
  "borrowed p a z = p\<lparr>zcf := z, encumberedBalance := encumberedBalance p + a,
     poolStats := (poolStats p)\<lparr>totalBorrows := totalBorrows (poolStats p) + a\<rparr>,
     metrics := metrics p @ [(encumberedBalance p + a, shareWorth p,
        (poolStats p)\<lparr>totalBorrows := totalBorrows (poolStats p) + a\<rparr>)]\<rparr>"

lemma borrow_cases:
  assumes "pool_ok p"
  shows "borrow t a p =
    (if a < pool_usdc p
     then (case atomicRearrange [transferP (poolSeat p) t [(''USDC'', a)]] (zcf p) of
             (Inl e, z) \<Rightarrow> (Inl e, p\<lparr>zcf := z\<rparr>)
           | (Inr _, z) \<Rightarrow> (Inr (), borrowed p a z))
     else (Inl CannotBorrow, p))"
proof -
  obtain sp where sp: "map_of (activeSeats (zcf p)) (poolSeat p) = Some sp" "pool_usdc p = amt (allocated sp) ''USDC''"
    using pool_okE [OF assms] by blast
  then have "getAmountAllocated (zcf p) (poolSeat p) ''USDC'' = Inr (pool_usdc p)"
    by (simp add: getAmountAllocated_def getCurrentAllocation_def amt_def)
  then show ?thesis
    by (simp add: borrow_def borrowCalc_def publishPoolMetrics_def borrowed_def split: prod.split sum.split)
qed

lemma borrow_Inr:
  assumes ok: "pool_ok p" and t: "t \<noteq> poolSeat p" "t \<noteq> feeSeat p" and a: "0 \<le> a"
    and b: "borrow t a p = (Inr u, p')"
  shows "pool_ok p'" "a < pool_usdc p" "pool_usdc p' = pool_usdc p - a"
    "encumberedBalance p' = encumberedBalance p + a" "shareWorth p' = shareWorth p"
proof -
  from b obtain z' where lt: "a < pool_usdc p" and p': "p' = borrowed p a z'"
    and r: "atomicRearrange [transferP (poolSeat p) t [(''USDC'', a)]] (zcf p) = (Inr (), z')"
    by (auto simp: borrow_cases [OF ok] split: if_splits prod.splits sum.splits)
  note view = pool_okE [OF ok]
  obtain sp sf where s: "map_of (activeSeats (zcf p)) (poolSeat p) = Some sp" "give sp = []"
    "pool_alloc_ok (allocated sp)" "alloc_ok (allocated sp)"
    "map_of (activeSeats (zcf p)) (feeSeat p) = Some sf" "give sf = []" "alloc_ok (allocated sf)"
    "zcf_ok (zcf p)" "poolSeat p \<noteq> feeSeat p" "pool_usdc p = amt (allocated sp) ''USDC''"
    "fee_usdc p = amt (allocated sf) ''USDC''" "0 \<le> pool_usdc p" "ratio_ok (shareWorth p)"
    "0 < numerator (shareWorth p)"
    by (rule view)

  obtain sa st where x:
    "map_of (activeSeats (zcf p)) (poolSeat p) = Some sa" "map_of (activeSeats (zcf p)) t = Some st"
    "alloc_ok (allocated sa)" "alloc_ok (allocated st)" "a \<le> amt (allocated sa) ''USDC''"
    and z0: "z' = set_alloc t (plus_alloc (allocated st) [(''USDC'', a)]) (set_alloc (poolSeat p) (minus_alloc (allocated sa) [(''USDC'', a)]) (zcf p))"
    by (rule rearrange_transfer_Inr [OF r t(1) [symmetric] s(8) a])
  have sa: "sa = sp" using x(1) s(1) by simp
  note st = x(2,4) and z' = z0 [unfolded sa]
  have cov: "covers (allocated sp) [(''USDC'', a)]" using s lt by (simp add: covers_single)
  have a1: "alloc_ok [(''USDC'', a)]" using a by simp
  note laws = minus_alloc_laws [OF s(4) a1 cov] plus_alloc_laws [OF st(2) a1]
  have zok: "zcf_ok z'" unfolding z' by (intro zcf_ok_set_alloc s(8) laws)
  show "pool_ok p'"
  proof (rule pool_okI [where sp = "sp\<lparr>allocated := minus_alloc (allocated sp) [(''USDC'', a)]\<rparr>" and sf = sf])
    show "map_of (activeSeats (zcf p')) (poolSeat p') = Some (sp\<lparr>allocated := minus_alloc (allocated sp) [(''USDC'', a)]\<rparr>)"
      using s t by (simp add: p' borrowed_def z')
    show "map_of (activeSeats (zcf p')) (feeSeat p') = Some sf"
      using s t by (simp add: p' borrowed_def z')
  qed (use ok s a zok in \<open>simp_all add: p' borrowed_def z' laws pool_ok_def pool_alloc_ok_iff\<close>)
  show "a < pool_usdc p" by (rule lt)
  show "pool_usdc p' = pool_usdc p - a"
    using s t by (simp add: p' borrowed_def pool_usdc_def z' laws usdcOf_amt)
  show "encumberedBalance p' = encumberedBalance p + a" "shareWorth p' = shareWorth p"
    by (simp_all add: p' borrowed_def)
qed

lemma borrow_Inl: "pool_ok p \<Longrightarrow> borrow t a p = (Inl e, p') \<Longrightarrow> p' = p"
  by (auto simp: borrow_cases dest: atomicRearrange_throw split: if_splits prod.splits sum.splits)

section \<open>Repayment\<close>

definition split_nonneg :: "repay_split \<Rightarrow> bool" where
  "split_nonneg sp \<longleftrightarrow> 0 \<le> Principal sp \<and> 0 \<le> PoolFee sp \<and> 0 \<le> ContractFee sp \<and> 0 \<le> RelayFee sp"

definition repaid :: "pool_state \<Rightarrow> repay_split \<Rightarrow> zcf_state \<Rightarrow> pool_state" where
  "repaid p sp z =
     (let w = \<lparr>numerator = numerator (shareWorth p) + PoolFee sp, denominator = denominator (shareWorth p)\<rparr>;
          e = encumberedBalance p - Principal sp;
          st = (poolStats p)\<lparr>totalRepays := totalRepays (poolStats p) + Principal sp,
                 totalPoolFees := totalPoolFees (poolStats p) + PoolFee sp,
                 totalContractFees := totalContractFees (poolStats p) + ContractFee sp + RelayFee sp\<rparr>
      in p\<lparr>zcf := z, shareWorth := w, encumberedBalance := e, poolStats := st,
           metrics := metrics p @ [(e, w, st)]\<rparr>)"

definition repay_parts :: "pool_state \<Rightarrow> transfer_part \<Rightarrow> repay_split \<Rightarrow> transfer_part list" where
  "repay_parts p src sp =
     [src, toOnly (poolSeat p) [(''USDC'', PoolFee sp + Principal sp)],
      toOnly (feeSeat p) [(''USDC'', ContractFee sp + RelayFee sp)]]"

lemma pool_check_ok:
  assumes "pool_ok p"
  shows "bindr (getCurrentAllocation (zcf p) (poolSeat p)) (\<lambda>a.
      checkPoolBalance a (shareWorth p) (encumberedBalance p)) = Inr (pool_usdc p, numerator (shareWorth p))"
proof -
  obtain s where "map_of (activeSeats (zcf p)) (poolSeat p) = Some s" "pool_alloc_ok (allocated s)"
    using assms by (auto simp: pool_ok_def seats_ok_def)
  with assms show ?thesis
    by (simp add: getCurrentAllocation_def checkPoolBalance_eq pool_ok_def pool_usdc_def)
qed

lemma repay_cases:
  assumes "pool_ok p" "0 \<le> Principal sp"
  shows "repay src sp p =
    (if Principal sp \<le> encumberedBalance p
     then (case atomicRearrange (repay_parts p src sp) (zcf p) of
             (Inl e, z) \<Rightarrow> (Inl e, p\<lparr>zcf := z\<rparr>)
           | (Inr _, z) \<Rightarrow> (Inr (), repaid p sp z))
     else (Inl CannotRepay, p))"
proof -
  have d: "0 < denominator (shareWorth p)" "0 \<le> encumberedBalance p"
    using assms(1) by (simp_all add: pool_ok_def)
  show ?thesis
    using d assms(2)
    by (simp add: repay_def pool_check_ok [OF assms(1)] repayCalc_def withFees_def makeRatioFromAmounts_def
        nat_subtract_def Nat'_def repaid_def Let_def publishPoolMetrics_def repay_parts_def
        split: prod.split sum.split)
qed

lemma repay_Inl: "pool_ok p \<Longrightarrow> 0 \<le> Principal sp \<Longrightarrow> repay src sp p = (Inl e, p') \<Longrightarrow> p' = p"
  by (auto simp: repay_cases dest: atomicRearrange_throw split: if_splits prod.splits sum.splits)

lemma repay_Inr:
  assumes ok: "pool_ok p" and s: "s \<noteq> poolSeat p" "s \<noteq> feeSeat p" and nn: "split_nonneg sp" "0 \<le> x"
    and r: "repay (fromOnly s [(kw, x)]) sp p = (Inr u, p')"
  shows "pool_ok p'" "Principal sp \<le> encumberedBalance p"
    "kw \<noteq> ''PoolShare'' \<Longrightarrow> x = Principal sp + PoolFee sp + ContractFee sp + RelayFee sp"
    "pool_usdc p' = pool_usdc p + Principal sp + PoolFee sp"
    "fee_usdc p' = fee_usdc p + ContractFee sp + RelayFee sp"
    "\<exists>ss z'. map_of (activeSeats (zcf p)) s = Some ss \<and> x \<le> amt (allocated ss) kw \<and> p' = repaid p sp z' \<and>
       map_of (activeSeats z') s = Some (ss\<lparr>allocated := minus_alloc (allocated ss) [(kw, x)]\<rparr>)"
proof -
  have pr: "0 \<le> Principal sp" using nn by (simp add: split_nonneg_def)
  from r obtain z' where le: "Principal sp \<le> encumberedBalance p" and p': "p' = repaid p sp z'"
    and ar: "atomicRearrange (repay_parts p (fromOnly s [(kw, x)]) sp) (zcf p) = (Inr (), z')"
    by (auto simp: repay_cases [OF ok pr] split: if_splits prod.splits sum.splits)
  let ?y = "[(''USDC'', PoolFee sp + Principal sp)]" and ?w = "[(''USDC'', ContractFee sp + RelayFee sp)]"
  obtain pp pf where v: "map_of (activeSeats (zcf p)) (poolSeat p) = Some pp" "give pp = []"
    "pool_alloc_ok (allocated pp)" "alloc_ok (allocated pp)"
    "map_of (activeSeats (zcf p)) (feeSeat p) = Some pf" "give pf = []" "alloc_ok (allocated pf)"
    "zcf_ok (zcf p)" "poolSeat p \<noteq> feeSeat p" "pool_usdc p = amt (allocated pp) ''USDC''"
    "fee_usdc p = amt (allocated pf) ''USDC''" "0 \<le> pool_usdc p" "ratio_ok (shareWorth p)"
    "0 < numerator (shareWorth p)"
    by (rule pool_okE [OF ok])
  have yw: "alloc_ok ?y" "alloc_ok ?w" using nn by (simp_all add: split_nonneg_def)
  obtain ss p1 p2 where a: "map_of (activeSeats (zcf p)) s = Some ss"
    "map_of (activeSeats (zcf p)) (poolSeat p) = Some p1" "map_of (activeSeats (zcf p)) (feeSeat p) = Some p2"
    "alloc_ok (allocated ss)" "alloc_ok (allocated p1)" "alloc_ok (allocated p2)" "x \<le> amt (allocated ss) kw"
    and bal: "\<forall>b. brand_total b [[(kw, x)]] = brand_total b [?y] + brand_total b [?w]"
    and z0: "z' = set_alloc (feeSeat p) (plus_alloc (allocated p2) ?w) (set_alloc (poolSeat p) (plus_alloc (allocated p1) ?y)
            (set_alloc s (minus_alloc (allocated ss) [(kw, x)]) (zcf p)))"
    by (rule rearrange_split_Inr [OF ar [unfolded repay_parts_def] s v(9,8) nn(2) yw])
  have same: "p1 = pp" "p2 = pf" using a v by simp_all
  note z' = z0 [unfolded same]
  have x1: "alloc_ok [(kw, x)]" using nn by simp
  have cov: "covers (allocated ss) [(kw, x)]" using a by (simp add: covers_single)
  note laws = minus_alloc_laws [OF a(4) x1 cov] plus_alloc_laws [OF v(4) yw(1)] plus_alloc_laws [OF v(7) yw(2)]
  have zok: "zcf_ok z'" unfolding z' by (intro zcf_ok_set_alloc v(8) laws)
  show "pool_ok p'"
  proof (rule pool_okI [where sp = "pp\<lparr>allocated := plus_alloc (allocated pp) ?y\<rparr>"
        and sf = "pf\<lparr>allocated := plus_alloc (allocated pf) ?w\<rparr>"])
    show "map_of (activeSeats (zcf p')) (poolSeat p') = Some (pp\<lparr>allocated := plus_alloc (allocated pp) ?y\<rparr>)"
      using v s by (simp add: p' repaid_def Let_def z')
    show "map_of (activeSeats (zcf p')) (feeSeat p') = Some (pf\<lparr>allocated := plus_alloc (allocated pf) ?w\<rparr>)"
      using v s by (simp add: p' repaid_def Let_def z')
  qed (use ok v nn le zok in \<open>simp_all add: p' repaid_def Let_def z' laws pool_ok_def pool_alloc_ok_iff split_nonneg_def\<close>)
  show "Principal sp \<le> encumberedBalance p" by (rule le)
  show "x = Principal sp + PoolFee sp + ContractFee sp + RelayFee sp" if "kw \<noteq> ''PoolShare''"
    using bal [rule_format, of UsdcBrand] that by (simp add: brand_total_single keyword_brand_def)
  show "pool_usdc p' = pool_usdc p + Principal sp + PoolFee sp"
    using v s by (simp add: p' repaid_def Let_def pool_usdc_def z' laws usdcOf_amt)
  show "fee_usdc p' = fee_usdc p + ContractFee sp + RelayFee sp"
    using v s by (simp add: p' repaid_def Let_def fee_usdc_def z' laws usdcOf_amt)
  show "\<exists>ss z'. map_of (activeSeats (zcf p)) s = Some ss \<and> x \<le> amt (allocated ss) kw \<and> p' = repaid p sp z' \<and>
       map_of (activeSeats z') s = Some (ss\<lparr>allocated := minus_alloc (allocated ss) [(kw, x)]\<rparr>)"
    using a s v by (intro exI [of _ ss] exI [of _ z']) (simp add: p' z')
qed

section \<open>Seats leaving\<close>

lemma pool_ok_seatExit:
  assumes "pool_ok p" "s \<noteq> poolSeat p" "s \<noteq> feeSeat p"
  shows "pool_ok (p\<lparr>zcf := snd (seatExit s (zcf p))\<rparr>)"
proof (rule pool_okE [OF assms(1)])
  fix sp sf assume v: "map_of (activeSeats (zcf p)) (poolSeat p) = Some sp"
    "give sp = []" "pool_alloc_ok (allocated sp)"
    "map_of (activeSeats (zcf p)) (feeSeat p) = Some sf" "give sf = []" "zcf_ok (zcf p)" "poolSeat p \<noteq> feeSeat p"
    "pool_usdc p = amt (allocated sp) ''USDC''" "fee_usdc p = amt (allocated sf) ''USDC''"
  have z: "zcf_ok (snd (seatExit s (zcf p)))" "shareSupply (snd (seatExit s (zcf p))) = shareSupply (zcf p)"
    using zcf_ok_seatExit [OF v(6)] by (auto simp: seatExit_eq split: option.split)
  have seats: "map_of (activeSeats (snd (seatExit s (zcf p)))) (poolSeat p) = Some sp"
    "map_of (activeSeats (snd (seatExit s (zcf p)))) (feeSeat p) = Some sf"
    using v assms by (auto simp: seatExit_eq split: option.split)
  show ?thesis
    by (rule pool_okI [where sp = sp and sf = sf])
      (use assms(1) v z seats in \<open>simp_all add: pool_ok_def pool_alloc_ok_iff\<close>)
qed

lemma returnToPool_keeps:
  assumes ok: "pool_ok p" and s: "s \<noteq> poolSeat p" "s \<noteq> feeSeat p" and a: "0 \<le> a"
  shows "pool_ok (snd (returnToPool s a p))"
proof -
  let ?sp = "\<lparr>Principal = a, PoolFee = 0, ContractFee = 0, RelayFee = 0\<rparr>"
  have nn: "split_nonneg ?sp" "0 \<le> Principal ?sp" using a by (simp_all add: split_nonneg_def)
  obtain r p' where r: "repay (fromOnly s [(''USDC'', a)]) ?sp p = (r, p')" by fastforce
  have k: "pool_ok p' \<and> poolSeat p' = poolSeat p \<and> feeSeat p' = feeSeat p"
  proof (cases r)
    case (Inl e)
    have "p' = p" by (rule repay_Inl [OF ok nn(2) r [unfolded Inl]])
    with ok show ?thesis by simp
  next
    case (Inr u)
    note R = repay_Inr [OF ok s nn(1) a r [unfolded Inr]]
    from R(6) obtain z' where "p' = repaid p ?sp z'" by blast
    with R(1) show ?thesis by (simp add: repaid_def Let_def)
  qed
  have "pool_ok (p'\<lparr>zcf := snd (seatExit s (zcf p'))\<rparr>)" using k s by (intro pool_ok_seatExit) simp_all
  with r k ok show ?thesis
    by (cases "getCurrentAllocation (zcf p) s"; cases r; cases "seatExit s (zcf p')")
      (simp_all add: returnToPool_def)
qed

section \<open>Deposits\<close>

text \<open>
  What Zoe guarantees of an offer to deposit: its seat is neither of the pool's, its proposal
  has the deposit shape, and its allocation holds what it gives.
\<close>

definition deposit_offer :: "pool_state \<Rightarrow> seat_id \<Rightarrow> int \<Rightarrow> int \<Rightarrow> bool" where
  "deposit_offer p lp g w \<longleftrightarrow> lp \<noteq> poolSeat p \<and> lp \<noteq> feeSeat p \<and> 1 \<le> g \<and>
     (\<exists>s. map_of (activeSeats (zcf p)) lp = Some s \<and> give s = [(''USDC'', g)] \<and> want s = [(''PoolShare'', w)]
          \<and> g \<le> amt (allocated s) ''USDC'')"

definition withdraw_offer :: "pool_state \<Rightarrow> seat_id \<Rightarrow> int \<Rightarrow> int \<Rightarrow> bool" where
  "withdraw_offer p lp g w \<longleftrightarrow> lp \<noteq> poolSeat p \<and> lp \<noteq> feeSeat p \<and> 1 \<le> g \<and> 1 \<le> w \<and>
     (\<exists>s. map_of (activeSeats (zcf p)) lp = Some s \<and> give s = [(''PoolShare'', g)] \<and> want s = [(''USDC'', w)]
          \<and> g \<le> amt (allocated s) ''PoolShare'')"

text \<open>A seat made for the occasion, and the pool's view of the seats it does not touch.\<close>

definition new_seat :: "allocation \<Rightarrow> zcf_state \<Rightarrow> zcf_state" where
  "new_seat a z = z\<lparr>activeSeats := put_entry (nextSeat z) \<lparr>allocated = a, give = [], want = []\<rparr> (activeSeats z),
                    nextSeat := Suc (nextSeat z)\<rparr>"

lemma makeEmptySeatKit_eq: "makeEmptySeatKit z = (Inr (nextSeat z), new_seat [] z)"
  by (simp add: makeEmptySeatKit_def makeSeat_eq new_seat_def)

lemma new_seat_seats [simp]:
  "map_of (activeSeats (new_seat a z)) n =
     (if n = nextSeat z then Some \<lparr>allocated = a, give = [], want = []\<rparr> else map_of (activeSeats z) n)"
  "shareSupply (new_seat a z) = shareSupply z" "nextSeat (new_seat a z) = Suc (nextSeat z)"
  by (simp_all add: new_seat_def)

lemma zcf_ok_new_seat: "zcf_ok z \<Longrightarrow> alloc_ok a \<Longrightarrow> zcf_ok (new_seat a z)"
  using zcf_ok_makeSeat [of z a "[]" "[]"] by (simp add: makeSeat_eq new_seat_def)

lemma active_lt: "zcf_ok z \<Longrightarrow> map_of (activeSeats z) n = Some s \<Longrightarrow> n < nextSeat z"
  using zcf_okD by blast

lemma mintGains_new:
  assumes "map_of (activeSeats z) n = Some s" "give s = []" "allocated s = []" "0 \<le> v"
  shows "mintGains [(''PoolShare'', v)] n z =
    (Inr (), (set_alloc n (plus_alloc [] [(''PoolShare'', v)]) z)\<lparr>shareSupply := shareSupply z + v\<rparr>)"
  using assms plus_alloc_laws(1) [of "[]" "[(''PoolShare'', v)]"]
  by (simp add: mintGains_def getCurrentAllocation_def total_of_def)

lemma burnLosses_all:
  assumes "map_of (activeSeats z) n = Some s" "give s = []" "alloc_ok (allocated s)" "0 \<le> v"
    "v \<le> amt (allocated s) ''PoolShare''"
  shows "burnLosses [(''PoolShare'', v)] n z =
    (Inr (), (set_alloc n (minus_alloc (allocated s) [(''PoolShare'', v)]) z)\<lparr>shareSupply := shareSupply z - v\<rparr>)"
  using assms minus_alloc_laws(1) [of "allocated s" "[(''PoolShare'', v)]"]
  by (simp add: burnLosses_def getCurrentAllocation_def total_of_def covers_single)

lemma zcf_ok_supply [simp]: "zcf_ok (z\<lparr>shareSupply := n\<rparr>) = zcf_ok z"
  by (simp add: zcf_ok_def)

lemma set_alloc_supply [simp]:
  "set_alloc n a (z\<lparr>shareSupply := v\<rparr>) = (set_alloc n a z)\<lparr>shareSupply := v\<rparr>"
  by (simp add: set_alloc_def split: option.split)

text \<open>Leaving two seats, as the handlers' \<open>finally\<close> does.\<close>

lemma two_exits:
  assumes "pool_ok p" "s \<noteq> t" "s \<noteq> poolSeat p" "s \<noteq> feeSeat p" "t \<noteq> poolSeat p" "t \<noteq> feeSeat p"
    and "map_of (activeSeats (zcf p)) s = Some a" "map_of (activeSeats (zcf p)) t \<noteq> None"
  obtains za zb where "seatExit s (zcf p) = (Inr (), za)" "seatExit t za = (Inr (), zb)"
    "pool_ok (p\<lparr>zcf := zb\<rparr>)" "pool_usdc (p\<lparr>zcf := zb\<rparr>) = pool_usdc p"
    "shareSupply zb = shareSupply (zcf p)" "(s, allocated a) \<in> set (paidOut zb)"
proof -
  obtain b where b: "map_of (activeSeats (zcf p)) t = Some b" using assms(8) by auto
  let ?p1 = "p\<lparr>zcf := snd (seatExit s (zcf p))\<rparr>"
  let ?p2 = "?p1\<lparr>zcf := snd (seatExit t (zcf ?p1))\<rparr>"
  have k1: "pool_ok ?p1" using assms by (intro pool_ok_seatExit)
  have k2: "pool_ok ?p2" by (rule pool_ok_seatExit [OF k1]) (use assms in simp_all)
  show thesis
    by (rule that [of "snd (seatExit s (zcf p))" "zcf ?p2"])
      (use k2 b assms(2-7) in \<open>simp_all add: seatExit_eq pool_usdc_def\<close>)
qed

text \<open>The swap in the middle of a deposit or a withdrawal keeps the pool consistent.\<close>

lemma getProposal_active:
  "map_of (activeSeats z) n = Some s \<Longrightarrow> getProposal z n = Inr (give s, want s)"
  by (simp add: getProposal_def)

lemma deposit_swap:
  assumes ok: "pool_ok p" and off: "deposit_offer p lp g w"
    and calc: "depositCalc (shareWorth p) g (Some w) = Inr (shares, worth')"
  obtains z1 z s where
    "mintGains [(''PoolShare'', shares)] (nextSeat (zcf p)) (new_seat [] (zcf p)) = (Inr (), z1)"
    "atomicRearrange [transferP lp (poolSeat p) [(''USDC'', g)],
       transferP (nextSeat (zcf p)) lp [(''PoolShare'', shares)]] z1 = (Inr (), z)"
    "pool_ok (p\<lparr>zcf := z, shareWorth := worth'\<rparr>)" "shareSupply z = shareSupply (zcf p) + shares"
    "pool_usdc (p\<lparr>zcf := z, shareWorth := worth'\<rparr>) = pool_usdc p + g"
    "map_of (activeSeats z) lp = Some s" "amt (allocated s) ''PoolShare'' \<ge> shares"
    "map_of (activeSeats z) (nextSeat (zcf p)) \<noteq> None" "nextSeat (zcf p) \<notin> {lp, poolSeat p, feeSeat p}"
proof -
  let ?z = "zcf p" let ?n = "nextSeat ?z" let ?x = "[(''USDC'', g)]" let ?y = "[(''PoolShare'', shares)]"
  obtain pp pf where v: "map_of (activeSeats ?z) (poolSeat p) = Some pp" "give pp = []"
    "pool_alloc_ok (allocated pp)" "alloc_ok (allocated pp)"
    "map_of (activeSeats ?z) (feeSeat p) = Some pf" "give pf = []" "alloc_ok (allocated pf)"
    "zcf_ok ?z" "poolSeat p \<noteq> feeSeat p" "pool_usdc p = amt (allocated pp) ''USDC''"
    "fee_usdc p = amt (allocated pf) ''USDC''" "0 \<le> pool_usdc p" "ratio_ok (shareWorth p)"
    "0 < numerator (shareWorth p)"
    by (rule pool_okE [OF ok])
  obtain sl where l: "lp \<noteq> poolSeat p" "lp \<noteq> feeSeat p" "1 \<le> g" "map_of (activeSeats ?z) lp = Some sl"
    "give sl = ?x" "want sl = [(''PoolShare'', w)]" "g \<le> amt (allocated sl) ''USDC''"
    using off by (auto simp: deposit_offer_def)
  have lok: "alloc_ok (allocated sl)" using zcf_okD [OF v(8) l(4)] by simp
  have g0: "0 < g" using l(3) by simp
  note D = depositCalc_Inr [OF v(13,14) g0 calc]
  have fresh: "?n \<noteq> lp" "?n \<noteq> poolSeat p" "?n \<noteq> feeSeat p"
    using active_lt [OF v(8) l(4)] active_lt [OF v(8) v(1)] active_lt [OF v(8) v(5)] by simp_all
  define z1 where "z1 = (set_alloc ?n (plus_alloc [] ?y) (new_seat [] ?z))\<lparr>shareSupply := shareSupply ?z + shares\<rparr>"
  have yok: "alloc_ok ?y" "alloc_ok ?x" using D(1) l(3) by simp_all
  note ylaws = plus_alloc_laws [OF alloc_ok_Nil yok(1)]
  have mint: "mintGains ?y ?n (new_seat [] ?z) = (Inr (), z1)"
    using mintGains_new [of "new_seat [] ?z" ?n "\<lparr>allocated = [], give = [], want = []\<rparr>"] D(1) by (simp add: z1_def)
  let ?sn = "\<lparr>allocated = plus_alloc [] ?y, give = [], want = []\<rparr>"
  have s1: "map_of (activeSeats z1) lp = Some sl" "map_of (activeSeats z1) (poolSeat p) = Some pp"
    "map_of (activeSeats z1) ?n = Some ?sn" "map_of (activeSeats z1) (feeSeat p) = Some pf" "zcf_ok z1"
    using l v fresh ylaws by (simp_all add: z1_def zcf_ok_set_alloc zcf_ok_new_seat)
  let ?nl = "minus_alloc (plus_alloc (allocated sl) ?y) ?x"
  let ?np = "plus_alloc (allocated pp) ?x" and ?nn = "minus_alloc (plus_alloc [] ?y) ?y"
  note laws = plus_alloc_laws [OF lok yok(1)] plus_alloc_laws [OF v(4) yok(2)]
  have covl: "covers (allocated sl) ?x" using lok l(7) by (simp add: covers_single)
  have covl': "covers (plus_alloc (allocated sl) ?y) ?x" using laws l(7) by (simp add: covers_single)
  have covn: "covers (plus_alloc [] ?y) ?y" using ylaws by (simp add: covers_single)
  note laws2 = minus_alloc_laws [OF laws(2) yok(2) covl'] minus_alloc_laws [OF ylaws(2) yok(1) covn]
  have wle: "w \<le> shares" using D(5) by simp
  have "map_of ?nl ''PoolShare'' \<noteq> None" using laws laws2 by simp
  then have "map_of ?nl ''PoolShare'' = Some (amt ?nl ''PoolShare'')" by (auto simp: amt_def)
  then have "satisfies (want sl) ?nl"
    using l laws laws2 wle amt_nonneg [OF lok, of "''PoolShare''"] by (simp add: satisfies_def)
  then have safe: "isOfferSafe sl ?nl" by (simp add: isOfferSafe_def)
  define z where "z = set_alloc ?n ?nn (set_alloc (poolSeat p) ?np (set_alloc lp ?nl z1))"
  have sn: "alloc_ok (allocated ?sn)" "covers (allocated ?sn) ?y" using ylaws covn by simp_all
  have swap: "atomicRearrange [transferP lp (poolSeat p) ?x, transferP ?n lp ?y] z1 = (Inr (), z)"
    using rearrange_swap [OF s1(1,2,3) l(1) fresh(1) [symmetric] fresh(2) [symmetric] lok v(4) sn(1) yok(2,1) covl sn(2)]
      safe v(2) by (simp add: z_def Let_def)
  have zok: "zcf_ok z" unfolding z_def by (intro zcf_ok_set_alloc s1 laws2 laws)
  have seats: "map_of (activeSeats z) (poolSeat p) = Some (pp\<lparr>allocated := ?np\<rparr>)"
    "map_of (activeSeats z) (feeSeat p) = Some pf" "map_of (activeSeats z) lp = Some (sl\<lparr>allocated := ?nl\<rparr>)"
    "map_of (activeSeats z) ?n \<noteq> None" "shareSupply z = shareSupply ?z + shares"
    using s1 l v fresh by (simp_all add: z_def z1_def)
  have pok: "pool_ok (p\<lparr>zcf := z, shareWorth := worth'\<rparr>)"
    by (rule pool_okI [where sp = "pp\<lparr>allocated := ?np\<rparr>" and sf = pf])
      (use ok v(3,10,11) seats(5) D l(3) in \<open>simp_all add: v seats(1-4) zok laws pool_ok_def pool_alloc_ok_iff\<close>)
  show thesis
  proof (rule that [OF mint swap pok seats(5) _ seats(3) _ seats(4)])
    show "pool_usdc (p\<lparr>zcf := z, shareWorth := worth'\<rparr>) = pool_usdc p + g"
      using seats v laws by (simp add: pool_usdc_def usdcOf_amt)
  qed (use laws laws2 fresh amt_nonneg [OF lok, of "''PoolShare''"] in \<open>simp_all\<close>)
qed

lemma depositHandle_cases:
  assumes ok: "pool_ok p" and off: "deposit_offer p lp g w"
  shows "(case depositCalc (shareWorth p) g (Some w) of
       Inl e \<Rightarrow> depositHandle lp p = (Inl e, p)
     | Inr (shares, worth') \<Rightarrow>
         (\<exists>p' a. depositHandle lp p = (Inr (), p') \<and> pool_ok p' \<and> shareWorth p' = worth'
            \<and> pool_usdc p' = pool_usdc p + g \<and> shareSupply (zcf p') = shareSupply (zcf p) + shares
            \<and> encumberedBalance p' = encumberedBalance p
            \<and> (lp, a) \<in> set (paidOut (zcf p')) \<and> shares \<le> amt a ''PoolShare''))"
proof -
  obtain sl where l: "lp \<noteq> poolSeat p" "lp \<noteq> feeSeat p" "map_of (activeSeats (zcf p)) lp = Some sl"
    "give sl = [(''USDC'', g)]" "want sl = [(''PoolShare'', w)]"
    using off by (auto simp: deposit_offer_def)
  show ?thesis
  proof (cases "depositCalc (shareWorth p) g (Some w)")
    case (Inl e)
    with l show ?thesis
      by (simp add: depositHandle_def getProposal_active [OF l(3)] pool_check_ok [OF ok])
  next
    case (Inr sw)
    obtain shares worth' where sw: "sw = (shares, worth')" by (cases sw)
    note calc = Inr [unfolded sw]
    obtain z1 z s where m:
      "mintGains [(''PoolShare'', shares)] (nextSeat (zcf p)) (new_seat [] (zcf p)) = (Inr (), z1)"
      "atomicRearrange [transferP lp (poolSeat p) [(''USDC'', g)],
         transferP (nextSeat (zcf p)) lp [(''PoolShare'', shares)]] z1 = (Inr (), z)"
      and k: "pool_ok (p\<lparr>zcf := z, shareWorth := worth'\<rparr>)" "shareSupply z = shareSupply (zcf p) + shares"
      "pool_usdc (p\<lparr>zcf := z, shareWorth := worth'\<rparr>) = pool_usdc p + g"
      "map_of (activeSeats z) lp = Some s" "amt (allocated s) ''PoolShare'' \<ge> shares"
      "map_of (activeSeats z) (nextSeat (zcf p)) \<noteq> None" "nextSeat (zcf p) \<notin> {lp, poolSeat p, feeSeat p}"
      by (rule deposit_swap [OF ok off calc])
    let ?p1 = "p\<lparr>zcf := z, shareWorth := worth'\<rparr>"
    have e: "lp \<noteq> nextSeat (zcf p)" "lp \<noteq> poolSeat ?p1" "lp \<noteq> feeSeat ?p1"
      "nextSeat (zcf p) \<noteq> poolSeat ?p1" "nextSeat (zcf p) \<noteq> feeSeat ?p1"
      "map_of (activeSeats (zcf ?p1)) lp = Some s" "map_of (activeSeats (zcf ?p1)) (nextSeat (zcf p)) \<noteq> None"
      using k l by auto
    obtain za zb where x: "seatExit lp (zcf ?p1) = (Inr (), za)" "seatExit (nextSeat (zcf p)) za = (Inr (), zb)"
      "pool_ok (?p1\<lparr>zcf := zb\<rparr>)" "pool_usdc (?p1\<lparr>zcf := zb\<rparr>) = pool_usdc ?p1"
      "shareSupply zb = shareSupply (zcf ?p1)" "(lp, allocated s) \<in> set (paidOut zb)"
      by (rule two_exits [OF k(1) e])
    let ?p2 = "p\<lparr>zcf := zb, shareWorth := worth'\<rparr>"
    have comm: "p\<lparr>shareWorth := worth', zcf := zb\<rparr> = ?p2" by simp
    have h: "depositHandle lp p = publishPoolMetrics ?p2"
      using m x(1,2) l(4,5) unfolding comm [symmetric]
      by (simp add: depositHandle_def getProposal_active [OF l(3)] pool_check_ok [OF ok] calc makeEmptySeatKit_eq)
    have "pool_usdc (?p2\<lparr>metrics := y\<rparr>) = pool_usdc ?p2" for y by (simp add: pool_usdc_def)
    moreover have "pool_ok ?p2" "pool_usdc ?p2 = pool_usdc p + g"
      using x(3,4) k(3) unfolding comm [symmetric] by simp_all
    ultimately show ?thesis using h x k by (auto simp: calc publishPoolMetrics_def)
  qed
qed

section \<open>Withdrawals\<close>

lemma withdraw_start:
  assumes ok: "pool_ok p" and off: "withdraw_offer p lp g w"
  obtains sl pp where
    "map_of (activeSeats (zcf p)) lp = Some sl" "give sl = [(''PoolShare'', g)]" "want sl = [(''USDC'', w)]"
    "alloc_ok (allocated sl)" "g \<le> amt (allocated sl) ''PoolShare''"
    "map_of (activeSeats (zcf p)) (poolSeat p) = Some pp" "give pp = []" "alloc_ok (allocated pp)"
    "pool_usdc p = amt (allocated pp) ''USDC''" "pool_alloc_ok (allocated pp)"
    "nextSeat (zcf p) \<noteq> lp" "nextSeat (zcf p) \<noteq> poolSeat p" "nextSeat (zcf p) \<noteq> feeSeat p"
    "lp \<noteq> poolSeat p" "lp \<noteq> feeSeat p" "1 \<le> g" "1 \<le> w" "zcf_ok (zcf p)" "ratio_ok (shareWorth p)"
proof -
  obtain pp pf where v: "map_of (activeSeats (zcf p)) (poolSeat p) = Some pp" "give pp = []"
    "pool_alloc_ok (allocated pp)" "alloc_ok (allocated pp)"
    "map_of (activeSeats (zcf p)) (feeSeat p) = Some pf" "give pf = []" "alloc_ok (allocated pf)"
    "zcf_ok (zcf p)" "poolSeat p \<noteq> feeSeat p" "pool_usdc p = amt (allocated pp) ''USDC''"
    "fee_usdc p = amt (allocated pf) ''USDC''" "0 \<le> pool_usdc p" "ratio_ok (shareWorth p)"
    "0 < numerator (shareWorth p)"
    by (rule pool_okE [OF ok])
  obtain sl where l: "lp \<noteq> poolSeat p" "lp \<noteq> feeSeat p" "1 \<le> g" "1 \<le> w" "map_of (activeSeats (zcf p)) lp = Some sl"
    "give sl = [(''PoolShare'', g)]" "want sl = [(''USDC'', w)]" "g \<le> amt (allocated sl) ''PoolShare''"
    using off by (auto simp: withdraw_offer_def)
  have "alloc_ok (allocated sl)" using zcf_okD [OF v(8) l(5)] by simp
  moreover have "nextSeat (zcf p) \<noteq> lp" "nextSeat (zcf p) \<noteq> poolSeat p" "nextSeat (zcf p) \<noteq> feeSeat p"
    using active_lt [OF v(8) l(5)] active_lt [OF v(8) v(1)] active_lt [OF v(8) v(5)] by simp_all
  ultimately show thesis using that v l by blast
qed

abbreviation withdraw_parts :: "pool_state \<Rightarrow> seat_id \<Rightarrow> int \<Rightarrow> int \<Rightarrow> transfer_part list" where
  "withdraw_parts p lp g payout \<equiv>
     [transferP lp (nextSeat (zcf p)) [(''PoolShare'', g)], transferP (poolSeat p) lp [(''USDC'', payout)]]"

lemma withdraw_swap:
  assumes ok: "pool_ok p" and off: "withdraw_offer p lp g w"
    and calc: "worth' = \<lparr>numerator = numerator (shareWorth p) - payout, denominator = denominator (shareWorth p) - g\<rparr>"
      "g < denominator (shareWorth p)" "w \<le> payout" "payout \<le> pool_usdc p"
  obtains z1 z s where
    "atomicRearrange (withdraw_parts p lp g payout) (new_seat [] (zcf p)) = (Inr (), z1)"
    "burnLosses [(''PoolShare'', g)] (nextSeat (zcf p)) z1 = (Inr (), z)"
    "pool_ok (p\<lparr>shareWorth := worth', zcf := z\<rparr>)" "shareSupply z = shareSupply (zcf p) - g"
    "pool_usdc (p\<lparr>shareWorth := worth', zcf := z\<rparr>) = pool_usdc p - payout"
    "map_of (activeSeats z) lp = Some s" "payout \<le> amt (allocated s) ''USDC''"
    "map_of (activeSeats z) (nextSeat (zcf p)) \<noteq> None"
proof -
  let ?z = "zcf p" let ?n = "nextSeat ?z" let ?x = "[(''PoolShare'', g)]" let ?y = "[(''USDC'', payout)]"
  let ?zn = "new_seat [] ?z" let ?sn = "\<lparr>allocated = [], give = [], want = []\<rparr>"
  obtain sl pp where v: "map_of (activeSeats ?z) lp = Some sl" "give sl = ?x" "want sl = [(''USDC'', w)]"
    "alloc_ok (allocated sl)" "g \<le> amt (allocated sl) ''PoolShare''"
    "map_of (activeSeats ?z) (poolSeat p) = Some pp" "give pp = []" "alloc_ok (allocated pp)"
    "pool_usdc p = amt (allocated pp) ''USDC''" "pool_alloc_ok (allocated pp)"
    "?n \<noteq> lp" "?n \<noteq> poolSeat p" "?n \<noteq> feeSeat p"
    "lp \<noteq> poolSeat p" "lp \<noteq> feeSeat p" "1 \<le> g" "1 \<le> w" "zcf_ok ?z" "ratio_ok (shareWorth p)"
    by (rule withdraw_start [OF ok off])
  obtain pf where f: "map_of (activeSeats ?z) (feeSeat p) = Some pf" "give pf = []" "poolSeat p \<noteq> feeSeat p"
    using ok by (auto simp: pool_ok_def seats_ok_def)
  have xy: "alloc_ok ?x" "alloc_ok ?y" using v(16,17) calc(3) by simp_all
  let ?nl = "minus_alloc (plus_alloc (allocated sl) ?y) ?x"
  let ?np = "minus_alloc (allocated pp) ?y" and ?nn = "plus_alloc [] ?x"
  note laws = plus_alloc_laws [OF v(4) xy(2)] plus_alloc_laws [OF alloc_ok_Nil xy(1)]
  have covl: "covers (allocated sl) ?x" using v by (simp add: covers_single)
  have covl': "covers (plus_alloc (allocated sl) ?y) ?x" using laws v by (simp add: covers_single)
  have covp: "covers (allocated pp) ?y" using v calc by (simp add: covers_single)
  have covn: "covers ?nn ?x" using laws by (simp add: covers_single)
  note laws2 = minus_alloc_laws [OF laws(2) xy(1) covl'] minus_alloc_laws [OF v(8) xy(2) covp]
    minus_alloc_laws [OF laws(7) xy(1) covn]
  have "map_of ?nl ''USDC'' \<noteq> None" using laws laws2 by simp
  then have "map_of ?nl ''USDC'' = Some (amt ?nl ''USDC'')" by (auto simp: amt_def)
  then have "satisfies (want sl) ?nl"
    using v(3) laws laws2 calc(3) amt_nonneg [OF v(4), of "''USDC''"] by (simp add: satisfies_def)
  then have safe: "isOfferSafe sl ?nl" by (simp add: isOfferSafe_def)
  define z1 where "z1 = set_alloc (poolSeat p) ?np (set_alloc ?n ?nn (set_alloc lp ?nl ?zn))"
  have s0: "map_of (activeSeats ?zn) lp = Some sl" "map_of (activeSeats ?zn) ?n = Some ?sn"
    "map_of (activeSeats ?zn) (poolSeat p) = Some pp" "zcf_ok ?zn"
    using v by (simp_all add: zcf_ok_new_seat)
  have sn: "alloc_ok (allocated ?sn)" by simp
  have swap: "atomicRearrange (withdraw_parts p lp g payout) ?zn = (Inr (), z1)"
    using rearrange_swap [OF s0(1,2,3) v(11) [symmetric] v(14) v(12) v(4) sn v(8) xy covl covp] safe v(7)
    by (simp add: z1_def Let_def)
  have n1: "map_of (activeSeats z1) ?n = Some (?sn\<lparr>allocated := ?nn\<rparr>)" using v by (simp add: z1_def)
  define z where "z = (set_alloc ?n (minus_alloc ?nn ?x) z1)\<lparr>shareSupply := shareSupply ?z - g\<rparr>"
  have burn: "burnLosses ?x ?n z1 = (Inr (), z)"
    using burnLosses_all [OF n1, of g] laws v(16) by (simp add: z_def z1_def)
  have zok: "zcf_ok z" unfolding z_def z1_def zcf_ok_supply by (intro zcf_ok_set_alloc s0 laws2 laws)
  have seats: "map_of (activeSeats z) (poolSeat p) = Some (pp\<lparr>allocated := ?np\<rparr>)"
    "map_of (activeSeats z) (feeSeat p) = Some pf" "map_of (activeSeats z) lp = Some (sl\<lparr>allocated := ?nl\<rparr>)"
    "map_of (activeSeats z) ?n \<noteq> None" "shareSupply z = shareSupply ?z - g"
    using v f by (simp_all add: z_def z1_def)
  have pok: "pool_ok (p\<lparr>shareWorth := worth', zcf := z\<rparr>)"
    by (rule pool_okI [where sp = "pp\<lparr>allocated := ?np\<rparr>" and sf = pf])
      (use ok v(9,10) f(1) seats(5) calc(2,4) in
        \<open>simp_all add: v f seats(1-4) zok laws2 calc(1) pool_ok_def pool_alloc_ok_iff fee_usdc_def usdcOf_amt\<close>)
  show thesis
    by (rule that [OF swap burn pok seats(5) _ seats(3) _ seats(4)])
      (use seats v laws laws2 amt_nonneg [OF v(4), of "''USDC''"] in \<open>simp_all add: pool_usdc_def usdcOf_amt\<close>)
qed

text \<open>A withdrawal the pool cannot pay: the rearrangement throws after the share worth changed.\<close>

lemma withdraw_short:
  assumes ok: "pool_ok p" and off: "withdraw_offer p lp g w" and short: "pool_usdc p < payout" "0 \<le> payout"
  shows "\<exists>e. atomicRearrange (withdraw_parts p lp g payout) (new_seat [] (zcf p)) = (Inl e, new_seat [] (zcf p))"
proof -
  let ?z = "zcf p" let ?n = "nextSeat ?z" let ?zn = "new_seat [] ?z"
  obtain sl pp where v: "map_of (activeSeats ?z) lp = Some sl" "give sl = [(''PoolShare'', g)]" "want sl = [(''USDC'', w)]"
    "alloc_ok (allocated sl)" "g \<le> amt (allocated sl) ''PoolShare''"
    "map_of (activeSeats ?z) (poolSeat p) = Some pp" "give pp = []" "alloc_ok (allocated pp)"
    "pool_usdc p = amt (allocated pp) ''USDC''" "pool_alloc_ok (allocated pp)"
    "?n \<noteq> lp" "?n \<noteq> poolSeat p" "?n \<noteq> feeSeat p"
    "lp \<noteq> poolSeat p" "lp \<noteq> feeSeat p" "1 \<le> g" "1 \<le> w" "zcf_ok ?z" "ratio_ok (shareWorth p)"
    by (rule withdraw_start [OF ok off])
  have s: "map_of (activeSeats ?zn) lp = Some sl"
    "map_of (activeSeats ?zn) ?n = Some \<lparr>allocated = [], give = [], want = []\<rparr>"
    "map_of (activeSeats ?zn) (poolSeat p) = Some pp" using v by simp_all
  show ?thesis
    by (rule rearrange_swap_short [OF s v(11) [symmetric] v(14) v(12) v(4)])
      (use v short in \<open>simp_all add: covers_single\<close>)
qed

lemma withdrawHandle_unfold:
  assumes ok: "pool_ok p" and off: "withdraw_offer p lp g w"
    and alloc: "map_of (activeSeats (zcf p)) (poolSeat p) = Some pp"
  shows "withdrawHandle lp p =
    (case withdrawCalc (shareWorth p) g w (allocated pp) (encumberedBalance p) of
       Inl e \<Rightarrow> (Inl e, p\<lparr>zcf := new_seat [] (zcf p)\<rparr>)
     | Inr (worth', payout) \<Rightarrow>
         thenp (finallyp
           (catchp
             (thenp (modifyp (\<lambda>p. p\<lparr>shareWorth := worth'\<rparr>))
               (thenp (onZcf (atomicRearrange (withdraw_parts p lp g payout)))
                      (onZcf (burnLosses [(''PoolShare'', g)] (nextSeat (zcf p))))))
             (\<lambda>_. throw CannotCommit))
           (thenp (onZcf (seatExit lp)) (onZcf (seatExit (nextSeat (zcf p))))))
         publishPoolMetrics (p\<lparr>zcf := new_seat [] (zcf p)\<rparr>))"
proof -
  obtain sl where l: "map_of (activeSeats (zcf p)) lp = Some sl" "give sl = [(''PoolShare'', g)]" "want sl = [(''USDC'', w)]"
    using off by (auto simp: withdraw_offer_def)
  have "poolSeat p \<noteq> nextSeat (zcf p)"
    using ok active_lt [OF _ alloc] by (auto simp: pool_ok_def seats_ok_def)
  with l alloc show ?thesis
    by (simp add: withdrawHandle_def getProposal_active [OF l(1)] makeEmptySeatKit_eq getCurrentAllocation_def
        split: sum.split prod.split del: thenp_apply finallyp_apply catchp_apply)
qed

lemma pool_ok_new_seat: "pool_ok p \<Longrightarrow> pool_ok (p\<lparr>zcf := new_seat [] (zcf p)\<rparr>)"
proof (rule pool_okE)
  fix sp sf assume ok: "pool_ok p" and v: "map_of (activeSeats (zcf p)) (poolSeat p) = Some sp"
    "give sp = []" "pool_alloc_ok (allocated sp)"
    "map_of (activeSeats (zcf p)) (feeSeat p) = Some sf" "give sf = []" "zcf_ok (zcf p)" "poolSeat p \<noteq> feeSeat p"
    "pool_usdc p = amt (allocated sp) ''USDC''" "fee_usdc p = amt (allocated sf) ''USDC''"
  have "poolSeat p \<noteq> nextSeat (zcf p)" "feeSeat p \<noteq> nextSeat (zcf p)"
    using active_lt [OF v(6) v(1)] active_lt [OF v(6) v(4)] by simp_all
  then show "pool_ok (p\<lparr>zcf := new_seat [] (zcf p)\<rparr>)"
    by (intro pool_okI [where sp = sp and sf = sf])
      (use ok v in \<open>simp_all add: pool_ok_def pool_alloc_ok_iff zcf_ok_new_seat\<close>)
qed

text \<open>The three outcomes of a withdrawal.\<close>

lemma withdraw_refused:
  assumes ok: "pool_ok p" and off: "withdraw_offer p lp g w"
    and alloc: "map_of (activeSeats (zcf p)) (poolSeat p) = Some pp"
    and c: "withdrawCalc (shareWorth p) g w (allocated pp) (encumberedBalance p) = Inl e"
  shows "withdrawHandle lp p = (Inl e, p\<lparr>zcf := new_seat [] (zcf p)\<rparr>)"
    "pool_ok (p\<lparr>zcf := new_seat [] (zcf p)\<rparr>)"
  using withdrawHandle_unfold [OF ok off alloc] c pool_ok_new_seat [OF ok] by simp_all

lemma withdraw_paid:
  assumes ok: "pool_ok p" and off: "withdraw_offer p lp g w"
    and alloc: "map_of (activeSeats (zcf p)) (poolSeat p) = Some pp"
    and c: "withdrawCalc (shareWorth p) g w (allocated pp) (encumberedBalance p) = Inr (worth', payout)"
    and le: "payout \<le> pool_usdc p"
  shows "\<exists>p' a. withdrawHandle lp p = (Inr (), p') \<and> pool_ok p' \<and> shareWorth p' = worth'
    \<and> pool_usdc p' = pool_usdc p - payout \<and> shareSupply (zcf p') = shareSupply (zcf p) - g
    \<and> (lp, a) \<in> set (paidOut (zcf p')) \<and> payout \<le> amt a ''USDC''"
proof -
  have pa: "pool_alloc_ok (allocated pp)" "0 < g" "lp \<noteq> poolSeat p" "lp \<noteq> feeSeat p"
    and rok: "ratio_ok (shareWorth p)"
    using ok off alloc pool_okE [OF ok] by (auto simp: pool_ok_def seats_ok_def withdraw_offer_def)
  note W = withdrawCalc_Inr [OF rok pa(2,1) c]
  obtain z1 z s where m:
    "atomicRearrange (withdraw_parts p lp g payout) (new_seat [] (zcf p)) = (Inr (), z1)"
    "burnLosses [(''PoolShare'', g)] (nextSeat (zcf p)) z1 = (Inr (), z)"
    and k: "pool_ok (p\<lparr>shareWorth := worth', zcf := z\<rparr>)" "shareSupply z = shareSupply (zcf p) - g"
    "pool_usdc (p\<lparr>shareWorth := worth', zcf := z\<rparr>) = pool_usdc p - payout"
    "map_of (activeSeats z) lp = Some s" "payout \<le> amt (allocated s) ''USDC''"
    "map_of (activeSeats z) (nextSeat (zcf p)) \<noteq> None"
    by (rule withdraw_swap [OF ok off W(7,8,2) le])
  obtain sl pp' where st: "nextSeat (zcf p) \<noteq> lp" "nextSeat (zcf p) \<noteq> poolSeat p" "nextSeat (zcf p) \<noteq> feeSeat p"
    by (rule withdraw_start [OF ok off])
  let ?p1 = "p\<lparr>shareWorth := worth', zcf := z\<rparr>"
  have e: "lp \<noteq> nextSeat (zcf p)" "lp \<noteq> poolSeat ?p1" "lp \<noteq> feeSeat ?p1"
      "nextSeat (zcf p) \<noteq> poolSeat ?p1" "nextSeat (zcf p) \<noteq> feeSeat ?p1"
      "map_of (activeSeats (zcf ?p1)) lp = Some s" "map_of (activeSeats (zcf ?p1)) (nextSeat (zcf p)) \<noteq> None"
    using k pa st by auto
  obtain za zb where x: "seatExit lp (zcf ?p1) = (Inr (), za)" "seatExit (nextSeat (zcf p)) za = (Inr (), zb)"
      "pool_ok (?p1\<lparr>zcf := zb\<rparr>)" "pool_usdc (?p1\<lparr>zcf := zb\<rparr>) = pool_usdc ?p1"
      "shareSupply zb = shareSupply (zcf ?p1)" "(lp, allocated s) \<in> set (paidOut zb)"
    by (rule two_exits [OF k(1) e])
  let ?p2 = "p\<lparr>shareWorth := worth', zcf := zb\<rparr>"
  have h: "withdrawHandle lp p = publishPoolMetrics ?p2"
    using m x(1,2) by (simp add: withdrawHandle_unfold [OF ok off alloc] c)
  have "pool_usdc (?p2\<lparr>metrics := y\<rparr>) = pool_usdc ?p2" for y by (simp add: pool_usdc_def)
  with h x k show ?thesis by (auto simp: publishPoolMetrics_def)
qed

lemma withdraw_breaks:
  assumes ok: "pool_ok p" and off: "withdraw_offer p lp g w"
    and alloc: "map_of (activeSeats (zcf p)) (poolSeat p) = Some pp"
    and c: "withdrawCalc (shareWorth p) g w (allocated pp) (encumberedBalance p) = Inr (worth', payout)"
    and gt: "pool_usdc p < payout"
  shows "\<exists>p'. withdrawHandle lp p = (Inl CannotCommit, p') \<and> shareWorth p' = worth'
    \<and> map_of (activeSeats (zcf p')) (poolSeat p') = Some pp \<and> encumberedBalance p' = encumberedBalance p
    \<and> poolSeat p' = poolSeat p"
proof -
  have pa: "pool_alloc_ok (allocated pp)" "0 < g" "lp \<noteq> poolSeat p" and rok: "ratio_ok (shareWorth p)"
    using ok off alloc pool_okE [OF ok] by (auto simp: pool_ok_def seats_ok_def withdraw_offer_def)
  note W = withdrawCalc_Inr [OF rok pa(2,1) c]
  obtain e where m:
    "atomicRearrange (withdraw_parts p lp g payout) (new_seat [] (zcf p)) = (Inl e, new_seat [] (zcf p))"
    using withdraw_short [OF ok off gt W(5)] by blast
  obtain sl pp' where st: "map_of (activeSeats (zcf p)) lp = Some sl"
    "nextSeat (zcf p) \<noteq> lp" "nextSeat (zcf p) \<noteq> poolSeat p"
    by (rule withdraw_start [OF ok off])
  show ?thesis
    using m st pa(3) alloc by (simp add: withdrawHandle_unfold [OF ok off alloc] c seatExit_eq)
qed

section \<open>Covered movements go through\<close>

text \<open>A seat that is not the pool's, is active, gives nothing and holds at least \<open>x\<close>.\<close>

definition plain_seat :: "pool_state \<Rightarrow> seat_id \<Rightarrow> int \<Rightarrow> string \<Rightarrow> bool" where
  "plain_seat p s x kw \<longleftrightarrow> s \<noteq> poolSeat p \<and> s \<noteq> feeSeat p \<and>
     (\<exists>st. map_of (activeSeats (zcf p)) s = Some st \<and> give st = [] \<and> x \<le> amt (allocated st) kw)"

lemma repay_succeeds:
  assumes ok: "pool_ok p" and s: "plain_seat p s x kw" and nn: "split_nonneg sp"
    and x: "x = Principal sp + PoolFee sp + ContractFee sp + RelayFee sp" and kw: "kw \<noteq> ''PoolShare''"
    and le: "Principal sp \<le> encumberedBalance p"
  shows "\<exists>p'. repay (fromOnly s [(kw, x)]) sp p = (Inr (), p')"
proof -
  let ?y = "[(''USDC'', PoolFee sp + Principal sp)]" and ?w = "[(''USDC'', ContractFee sp + RelayFee sp)]"
  obtain pp pf where v: "map_of (activeSeats (zcf p)) (poolSeat p) = Some pp" "give pp = []"
    "pool_alloc_ok (allocated pp)" "alloc_ok (allocated pp)"
    "map_of (activeSeats (zcf p)) (feeSeat p) = Some pf" "give pf = []" "alloc_ok (allocated pf)"
    "zcf_ok (zcf p)" "poolSeat p \<noteq> feeSeat p" "pool_usdc p = amt (allocated pp) ''USDC''"
    "fee_usdc p = amt (allocated pf) ''USDC''" "0 \<le> pool_usdc p" "ratio_ok (shareWorth p)"
    "0 < numerator (shareWorth p)"
    by (rule pool_okE [OF ok])
  obtain st where st: "s \<noteq> poolSeat p" "s \<noteq> feeSeat p" "map_of (activeSeats (zcf p)) s = Some st"
    "give st = []" "x \<le> amt (allocated st) kw"
    using s by (auto simp: plain_seat_def)
  have aok: "alloc_ok (allocated st)" "alloc_ok [(kw, x)]" "alloc_ok ?y" "alloc_ok ?w" "0 \<le> Principal sp"
    using zcf_okD [OF v(8) st(3)] nn x by (auto simp: split_nonneg_def)
  have cov: "covers (allocated st) [(kw, x)]" using st(5) aok(1) by (simp add: covers_single)
  have "\<forall>b. brand_total b [[(kw, x)]] = brand_total b [?y] + brand_total b [?w]"
    using kw x by (simp add: brand_total_single keyword_brand_def)
  then show ?thesis
    using rearrange_split [OF st(3) v(1,5) st(1,2) v(9) aok(1) v(4,7) aok(2,3,4) cov] st(4) v(2,6) le
    by (simp add: repay_cases [OF ok aok(5)] repay_parts_def Let_def)
qed

lemma returnToPool_succeeds:
  assumes ok: "pool_ok p" and s: "plain_seat p s a ''USDC''" and a: "1 \<le> a" "a \<le> encumberedBalance p"
  shows "\<exists>p'. returnToPool s a p = (Inr (), p') \<and> pool_ok p' \<and> pool_usdc p' = pool_usdc p + a
    \<and> fee_usdc p' = fee_usdc p \<and> encumberedBalance p' = encumberedBalance p - a"
proof -
  let ?sp = "\<lparr>Principal = a, PoolFee = 0, ContractFee = 0, RelayFee = 0\<rparr>"
  have nn: "split_nonneg ?sp" and own: "s \<noteq> poolSeat p" "s \<noteq> feeSeat p"
    using s a by (auto simp: split_nonneg_def plain_seat_def)
  obtain p1 where r: "repay (fromOnly s [(''USDC'', a)]) ?sp p = (Inr (), p1)"
    using repay_succeeds [OF ok s nn] a by auto
  have a0: "0 \<le> a" using a by simp
  note R = repay_Inr [OF ok own nn a0 r]
  obtain st z where st: "map_of (activeSeats (zcf p)) s = Some st" "a \<le> amt (allocated st) ''USDC''"
    "p1 = repaid p ?sp z" "map_of (activeSeats z) s = Some (st\<lparr>allocated := minus_alloc (allocated st) [(''USDC'', a)]\<rparr>)"
    using R(6) by blast
  have own1: "s \<noteq> poolSeat p1" "s \<noteq> feeSeat p1" "zcf p1 = z" "encumberedBalance p1 = encumberedBalance p - a"
    using own st(3) by (simp_all add: repaid_def Let_def)
  let ?p = "p1\<lparr>zcf := snd (seatExit s z)\<rparr>"
  have "getCurrentAllocation (zcf p) s = Inr (allocated st)" using st(1) by (simp add: getCurrentAllocation_def)
  moreover have "\<exists>v. map_of (allocated st) ''USDC'' = Some v \<and> a \<le> v"
    using st(2) a by (cases "map_of (allocated st) ''USDC''") (auto simp: amt_def)
  ultimately have "returnToPool s a p = (Inr (), ?p)"
    using r st(4) own1(3) by (auto simp: returnToPool_def seatExit_eq)
  moreover have "pool_ok ?p" using pool_ok_seatExit [OF R(1) own1(1,2)] own1(3) by simp
  moreover have "pool_usdc ?p = pool_usdc p1" "fee_usdc ?p = fee_usdc p1"
    using own1 by (simp_all add: pool_usdc_def fee_usdc_def seatExit_eq split: option.split)
  ultimately show ?thesis using R(4,5) own1(4) by simp
qed

lemma borrow_succeeds:
  assumes ok: "pool_ok p" and s: "plain_seat p s 0 ''USDC''" and a: "0 \<le> a" "a < pool_usdc p"
  shows "\<exists>p'. borrow s a p = (Inr (), p')"
proof -
  obtain pp pf where v: "map_of (activeSeats (zcf p)) (poolSeat p) = Some pp" "give pp = []"
    "pool_alloc_ok (allocated pp)" "alloc_ok (allocated pp)"
    "map_of (activeSeats (zcf p)) (feeSeat p) = Some pf" "give pf = []" "alloc_ok (allocated pf)"
    "zcf_ok (zcf p)" "poolSeat p \<noteq> feeSeat p" "pool_usdc p = amt (allocated pp) ''USDC''"
    "fee_usdc p = amt (allocated pf) ''USDC''" "0 \<le> pool_usdc p" "ratio_ok (shareWorth p)"
    "0 < numerator (shareWorth p)"
    by (rule pool_okE [OF ok])
  obtain st where st: "s \<noteq> poolSeat p" "map_of (activeSeats (zcf p)) s = Some st" "give st = []"
    using s by (auto simp: plain_seat_def)
  have aok: "alloc_ok (allocated st)" "alloc_ok [(''USDC'', a)]" using zcf_okD [OF v(8) st(2)] a by simp_all
  have cov: "covers (allocated pp) [(''USDC'', a)]" using a v(10) v(4) by (simp add: covers_single)
  show ?thesis
    using rearrange_transfer [OF v(1) st(2) st(1) [symmetric] v(4) aok cov] st(3) v(2) a
    by (simp add: borrow_cases [OF ok])
qed

end
