(* ===== verification/PoolMachine.thy ===== *)
theory PoolMachine
  imports LiquidityPool
begin

text \<open>
  The liquidity pool as a state machine, the properties of its operations, and the
  withdrawal that leaves the pool inconsistent.
\<close>

section \<open>Fee withdrawal\<close>

lemma withdrawFees_keeps:
  assumes ok: "pool_ok p" and s: "seat \<noteq> poolSeat p" "seat \<noteq> feeSeat p"
    and gp: "getProposal (zcf p) seat = Inr (g, [(''USDC'', w)])" "0 \<le> w"
  shows "pool_ok (snd (withdrawFeesHandle seat p))"
proof -
  obtain pp pf where v: "map_of (activeSeats (zcf p)) (poolSeat p) = Some pp" "give pp = []"
    "pool_alloc_ok (allocated pp)" "alloc_ok (allocated pp)"
    "map_of (activeSeats (zcf p)) (feeSeat p) = Some pf" "give pf = []" "alloc_ok (allocated pf)"
    "zcf_ok (zcf p)" "poolSeat p \<noteq> feeSeat p" "pool_usdc p = amt (allocated pp) ''USDC''"
    "fee_usdc p = amt (allocated pf) ''USDC''" "0 \<le> pool_usdc p" "ratio_ok (shareWorth p)"
    "0 < numerator (shareWorth p)"
    by (rule pool_okE [OF ok])
  have avail: "getAmountAllocated (zcf p) (feeSeat p) ''USDC'' = Inr (fee_usdc p)"
    using v by (simp add: getAmountAllocated_def getCurrentAllocation_def amt_def)
  show ?thesis
  proof (cases "w \<le> fee_usdc p")
    case False
    with avail gp ok show ?thesis by (simp add: withdrawFeesHandle_def)
  next
    case True
    obtain r z where ar: "atomicRearrange [transferP (feeSeat p) seat [(''USDC'', w)]] (zcf p) = (r, z)"
      by fastforce
    show ?thesis
    proof (cases r)
      case (Inl e)
      with ar have "z = zcf p" by (auto dest: atomicRearrange_throw)
      with Inl avail gp ar True ok show ?thesis by (simp add: withdrawFeesHandle_def)
    next
      case (Inr u)
      obtain sf st where x: "map_of (activeSeats (zcf p)) (feeSeat p) = Some sf"
        "map_of (activeSeats (zcf p)) seat = Some st" "alloc_ok (allocated sf)" "alloc_ok (allocated st)"
        "w \<le> amt (allocated sf) ''USDC''"
        and z0: "z = set_alloc seat (plus_alloc (allocated st) [(''USDC'', w)])
                   (set_alloc (feeSeat p) (minus_alloc (allocated sf) [(''USDC'', w)]) (zcf p))"
        by (rule rearrange_transfer_Inr [OF ar [unfolded Inr] s(2) [symmetric] v(8) gp(2)])
      have same: "sf = pf" using x(1) v(5) by simp
      note z = z0 [unfolded same]
      have a1: "alloc_ok [(''USDC'', w)]" using gp(2) by simp
      have cov: "covers (allocated pf) [(''USDC'', w)]" using x same v by (simp add: covers_single)
      note laws = minus_alloc_laws [OF v(7) a1 cov] plus_alloc_laws [OF x(4) a1]
      have zok: "zcf_ok z" unfolding z by (intro zcf_ok_set_alloc v(8) laws)
      have "pool_ok (p\<lparr>zcf := z\<rparr>)"
      proof (rule pool_okI [where sp = pp and sf = "pf\<lparr>allocated := minus_alloc (allocated pf) [(''USDC'', w)]\<rparr>"])
        show "map_of (activeSeats (zcf (p\<lparr>zcf := z\<rparr>))) (poolSeat (p\<lparr>zcf := z\<rparr>)) = Some pp"
          using v s by (simp add: z)
        show "map_of (activeSeats (zcf (p\<lparr>zcf := z\<rparr>))) (feeSeat (p\<lparr>zcf := z\<rparr>)) =
            Some (pf\<lparr>allocated := minus_alloc (allocated pf) [(''USDC'', w)]\<rparr>)"
          using v s by (simp add: z)
      qed (use ok v zok laws gp(2) in \<open>simp_all add: z pool_ok_def pool_alloc_ok_iff\<close>)
      from pool_ok_seatExit [OF this, of seat] s have "pool_ok (p\<lparr>zcf := snd (seatExit seat z)\<rparr>)" by simp
      with Inr avail gp ar True show ?thesis
        by (cases "seatExit seat z") (simp add: withdrawFeesHandle_def)
    qed
  qed
qed

section \<open>Calls and steps\<close>

datatype pool_call =
    PBorrow seat_id int
  | PReturn seat_id int
  | PRepay seat_id string int repay_split
  | PDeposit seat_id int int
  | PWithdraw seat_id int int
  | PWithdrawFees seat_id int

fun pool_run :: "pool_call \<Rightarrow> (pool_state, unit) proc" where
  "pool_run (PBorrow s a) = borrow s a"
| "pool_run (PReturn s a) = returnToPool s a"
| "pool_run (PRepay s kw x sp) = repay (fromOnly s [(kw, x)]) sp"
| "pool_run (PDeposit s g w) = depositHandle s"
| "pool_run (PWithdraw s g w) = withdrawHandle s"
| "pool_run (PWithdrawFees s w) = withdrawFeesHandle s"

text \<open>
  What holds when a method is called: the guards of the exo, the other seats not being the
  pool's own, and what Zoe checked of an offer. A withdrawal is included only when its payout
  is covered by the unencumbered balance; see \<open>withdrawal_can_break_the_pool\<close> below.
\<close>

definition own_seat :: "pool_state \<Rightarrow> seat_id \<Rightarrow> bool" where
  "own_seat p s \<longleftrightarrow> s = poolSeat p \<or> s = feeSeat p"

definition covered :: "pool_state \<Rightarrow> int \<Rightarrow> bool" where
  "covered p g \<longleftrightarrow> (case multiplyBy g (shareWorth p) of Inl _ \<Rightarrow> True | Inr payout \<Rightarrow> payout \<le> pool_usdc p)"

fun pool_guard :: "pool_call \<Rightarrow> pool_state \<Rightarrow> bool" where
  "pool_guard (PBorrow s a) p = (\<not> own_seat p s \<and> 1 \<le> a)"
| "pool_guard (PReturn s a) p = (\<not> own_seat p s \<and> 1 \<le> a)"
| "pool_guard (PRepay s kw x sp) p = (\<not> own_seat p s \<and> 0 \<le> x \<and> split_nonneg sp)"
| "pool_guard (PDeposit s g w) p = deposit_offer p s g w"
| "pool_guard (PWithdraw s g w) p = (withdraw_offer p s g w \<and> covered p g)"
| "pool_guard (PWithdrawFees s w) p =
     (\<not> own_seat p s \<and> 0 \<le> w \<and> (\<exists>g. getProposal (zcf p) s = Inr (g, [(''USDC'', w)])))"

text \<open>New offers arrive on fresh seats with an allocation covering what they give.\<close>

definition arrive :: "allocation \<Rightarrow> allocation \<Rightarrow> allocation \<Rightarrow> pool_state \<Rightarrow> pool_state" where
  "arrive a g w p = p\<lparr>zcf := snd (makeSeat a g w (zcf p))\<rparr>"

inductive pool_step :: "pool_state \<Rightarrow> pool_state \<Rightarrow> bool" where
  call: "pool_guard c p \<Longrightarrow> pool_run c p = (r, p') \<Longrightarrow> pool_step p p'"
| offer: "alloc_ok a \<Longrightarrow> pool_step p (arrive a g w p)"

inductive_cases pool_stepE: "pool_step p p'"

lemma withdraw_covered_keeps:
  assumes ok: "pool_ok p" and off: "withdraw_offer p s g w" and cov: "covered p g"
  shows "pool_ok (snd (withdrawHandle s p))"
proof -
  obtain pp where v: "map_of (activeSeats (zcf p)) (poolSeat p) = Some pp"
    using ok by (auto simp: pool_ok_def seats_ok_def)
  show ?thesis
  proof (cases "withdrawCalc (shareWorth p) g w (allocated pp) (encumberedBalance p)")
    case (Inl e)
    with withdraw_refused [OF ok off v] show ?thesis by simp
  next
    case (Inr wp)
    obtain worth' payout where wp: "wp = (worth', payout)" by (cases wp)
    with Inr have "multiplyBy g (shareWorth p) = Inr payout"
      by (auto simp: withdrawCalc_def bindr_Inr_iff Let_def)
    with cov have "payout \<le> pool_usdc p" by (simp add: covered_def)
    with withdraw_paid [OF ok off v Inr [unfolded wp]] show ?thesis by auto
  qed
qed

lemma arrive_keeps: "pool_ok p \<Longrightarrow> alloc_ok a \<Longrightarrow> pool_ok (arrive a g w p)"
proof (rule pool_okE)
  fix sp sf assume ok: "pool_ok p" "alloc_ok a" and v: "map_of (activeSeats (zcf p)) (poolSeat p) = Some sp"
    "give sp = []" "pool_alloc_ok (allocated sp)"
    "map_of (activeSeats (zcf p)) (feeSeat p) = Some sf" "give sf = []" "zcf_ok (zcf p)" "poolSeat p \<noteq> feeSeat p"
    "pool_usdc p = amt (allocated sp) ''USDC''" "fee_usdc p = amt (allocated sf) ''USDC''"
  have "poolSeat p \<noteq> nextSeat (zcf p)" "feeSeat p \<noteq> nextSeat (zcf p)"
    using active_lt [OF v(6) v(1)] active_lt [OF v(6) v(4)] by simp_all
  moreover have "zcf_ok (snd (makeSeat a g w (zcf p)))" using v(6) ok(2) by (rule zcf_ok_makeSeat)
  ultimately show "pool_ok (arrive a g w p)"
    by (intro pool_okI [where sp = sp and sf = sf])
      (use ok v in \<open>simp_all add: arrive_def makeSeat_eq pool_ok_def pool_alloc_ok_iff\<close>)
qed

lemma pool_run_keeps: "pool_ok p \<Longrightarrow> pool_guard c p \<Longrightarrow> pool_ok (snd (pool_run c p))"
proof (cases c)
  case (PBorrow s a)
  assume ok: "pool_ok p" "pool_guard c p"
  obtain r p' where b: "borrow s a p = (r, p')" by fastforce
  have g: "s \<noteq> poolSeat p" "s \<noteq> feeSeat p" "0 \<le> a" using ok PBorrow by (simp_all add: own_seat_def)
  show ?thesis
  proof (cases r)
    case (Inl e)
    with b borrow_Inl [OF ok(1)] ok PBorrow show ?thesis by auto
  next
    case (Inr u)
    with b borrow_Inr(1) [OF ok(1) g] PBorrow show ?thesis by simp
  qed
next
  case (PReturn s a)
  assume "pool_ok p" "pool_guard c p"
  with PReturn show ?thesis by (auto simp: own_seat_def intro: returnToPool_keeps)
next
  case (PRepay s kw x sp)
  assume ok: "pool_ok p" "pool_guard c p"
  obtain r p' where r: "repay (fromOnly s [(kw, x)]) sp p = (r, p')" by fastforce
  with ok PRepay repay_Inl [OF ok(1)] repay_Inr(1) [OF ok(1)] show ?thesis
    by (cases r) (auto simp: own_seat_def split_nonneg_def)
next
  case (PDeposit s g w)
  assume ok: "pool_ok p" "pool_guard c p"
  with PDeposit depositHandle_cases [OF ok(1), of s g w] show ?thesis
    by (auto split: sum.splits)
next
  case (PWithdraw s g w)
  assume "pool_ok p" "pool_guard c p"
  with PWithdraw show ?thesis by (auto intro: withdraw_covered_keeps)
next
  case (PWithdrawFees s w)
  assume "pool_ok p" "pool_guard c p"
  with PWithdrawFees show ?thesis by (auto simp: own_seat_def intro: withdrawFees_keeps)
qed

definition pool_start :: "pool_state \<Rightarrow> bool" where
  "pool_start p \<longleftrightarrow> (\<exists>z. zcf_ok z \<and> shareSupply z = 0 \<and> p = initLiquidityPool z)"

lemma pool_ok_start: "pool_start p \<Longrightarrow> pool_ok p"
proof -
  assume "pool_start p"
  then obtain z where z: "zcf_ok z" "shareSupply z = 0" "p = initLiquidityPool z" by (auto simp: pool_start_def)
  have e: "zcf_ok (new_seat [] (new_seat [] z))" using z(1) by (intro zcf_ok_new_seat) simp_all
  let ?s = "\<lparr>allocated = [], give = [], want = []\<rparr>"
  show ?thesis
    by (rule pool_okI [where sp = ?s and sf = ?s])
      (use z e in \<open>simp_all add: initLiquidityPool_def makeEmptySeatKit_eq makeParity_def\<close>)
qed

interpretation pool: machine pool_start pool_step pool_ok
proof
  show "pool_ok p" if "pool_start p" for p using that by (rule pool_ok_start)
  show "pool_ok p'" if "pool_step p p'" "pool_ok p" for p p'
    using that by (elim pool_stepE) (auto intro: arrive_keeps dest: pool_run_keeps)
qed

section \<open>Properties\<close>


text \<open>C39: borrowing onto another seat of the contract succeeds exactly when the amount is less
  than the pool's balance (a borrow never empties the pool). It then moves the amount from the
  balance to the outstanding borrows and keeps the share worth; otherwise it throws and
  nothing changes.\<close>

theorem borrow_accounts:
  assumes "pool_ok p" and "plain_seat p t 0 ''USDC''" and "1 \<le> a"
  shows "if a < pool_usdc p
    then \<exists>p'. borrow t a p = (Inr (), p') \<and> pool_ok p' \<and> pool_usdc p' = pool_usdc p - a
        \<and> encumberedBalance p' = encumberedBalance p + a \<and> shareWorth p' = shareWorth p
    else borrow t a p = (Inl CannotBorrow, p)"
proof (cases "a < pool_usdc p")
  case True
  have nat: "0 \<le> a" using assms(3) by simp
  obtain p' where b: "borrow t a p = (Inr (), p')"
    using borrow_succeeds [OF assms(1,2) nat True] by blast
  have t: "t \<noteq> poolSeat p" "t \<noteq> feeSeat p" using assms(2) by (simp_all add: plain_seat_def)
  show ?thesis using borrow_Inr [OF assms(1) t nat b] b True by auto
qed (simp add: borrow_cases [OF assms(1)])

text \<open>a repayment from another seat succeeds exactly when the seat holds what is taken, the
  parts of the split add up to it, and the principal is outstanding. It returns the principal
  and the pool fee to the pool and the contract and relay fees to the fee seat, reduces the
  outstanding borrows by the principal, and raises the share worth by the pool fee; otherwise
  it throws and nothing changes.\<close>

theorem repay_accounts:
  assumes "pool_ok p" and "map_of (activeSeats (zcf p)) s = Some st" and "give st = []" and "\<not> own_seat p s"
    and "split_nonneg sp" and "0 \<le> x" and "kw \<noteq> ''PoolShare''" and "1 \<le> Principal sp"
  shows "if x = Principal sp + PoolFee sp + ContractFee sp + RelayFee sp \<and> x \<le> amt (allocated st) kw
        \<and> Principal sp \<le> encumberedBalance p
    then \<exists>p'. repay (fromOnly s [(kw, x)]) sp p = (Inr (), p') \<and> pool_ok p'
        \<and> pool_usdc p' = pool_usdc p + Principal sp + PoolFee sp
        \<and> fee_usdc p' = fee_usdc p + ContractFee sp + RelayFee sp
        \<and> encumberedBalance p' = encumberedBalance p - Principal sp
        \<and> shareWorth p' = (shareWorth p)\<lparr>numerator := numerator (shareWorth p) + PoolFee sp\<rparr>
    else \<exists>e. repay (fromOnly s [(kw, x)]) sp p = (Inl e, p)"
proof -
  have t: "s \<noteq> poolSeat p" "s \<noteq> feeSeat p" using assms(4) by (simp_all add: own_seat_def)
  obtain r p' where b: "repay (fromOnly s [(kw, x)]) sp p = (r, p')" by fastforce
  show ?thesis
  proof (cases r)
    case (Inl e)
    have "p' = p" using repay_Inl [OF assms(1) _ b [unfolded Inl]] assms(5) by (simp add: split_nonneg_def)
    moreover have "\<not> (x = Principal sp + PoolFee sp + ContractFee sp + RelayFee sp \<and> x \<le> amt (allocated st) kw
        \<and> Principal sp \<le> encumberedBalance p)"
      using repay_succeeds [of p s x kw sp] assms t b Inl by (auto simp: plain_seat_def)
    ultimately show ?thesis using b Inl by auto
  next
    case (Inr u)
    note R = repay_Inr [OF assms(1) t assms(5,6) b [unfolded Inr]]
    from R(6) assms(2) obtain z' where "p' = repaid p sp z'" "x \<le> amt (allocated st) kw" by auto
    with R(1-5) assms(7) b Inr show ?thesis by (simp add: repaid_def Let_def)
  qed
qed

text \<open>a deposit offer is either refused with the pool unchanged, or the provider leaves
  with at least the shares the calculation gives (nearest to the deposit at the share worth
  before it, and no less than wanted), the pool gains the deposit, and the shares are minted.\<close>

theorem deposit_outcome:
  assumes "pool_ok p" and "deposit_offer p lp g w"
  shows "(\<exists>e. depositHandle lp p = (Inl e, p)) \<or>
    (\<exists>p' a shares. depositHandle lp p = (Inr (), p') \<and> pool_ok p' \<and> w \<le> shares
       \<and> rounds_to (g * denominator (shareWorth p)) (numerator (shareWorth p)) shares
       \<and> pool_usdc p' = pool_usdc p + g \<and> shareSupply (zcf p') = shareSupply (zcf p) + shares
       \<and> (lp, a) \<in> set (paidOut (zcf p')) \<and> shares \<le> amt a ''PoolShare'')"
proof (cases "depositCalc (shareWorth p) g (Some w)")
  case (Inl e)
  then show ?thesis using depositHandle_cases [OF assms] by auto
next
  case (Inr sw)
  obtain shares worth' where sw: "sw = (shares, worth')" by (cases sw)
  have r: "ratio_ok (shareWorth p)" "0 < numerator (shareWorth p)" "0 < g"
    using pool_okE [OF assms(1)] assms(2) by (auto simp: deposit_offer_def)
  note D = depositCalc_Inr [OF r Inr [unfolded sw]]
  show ?thesis using depositHandle_cases [OF assms] D(2) D(5) [OF refl] by (simp add: Inr sw) metis
qed

text \<open>a withdrawal accepted by the calculation and covered by the pool's balance pays the
  provider at least what it wanted, nearest to the shares at the current share worth, burns
  exactly the shares given, and leaves the pool consistent.\<close>

theorem withdraw_outcome:
  assumes "pool_ok p" and "withdraw_offer p lp g w"
    and "map_of (activeSeats (zcf p)) (poolSeat p) = Some pp"
    and "withdrawCalc (shareWorth p) g w (allocated pp) (encumberedBalance p) = Inr (worth', payout)"
    and "payout \<le> pool_usdc p"
  shows "\<exists>p' a. withdrawHandle lp p = (Inr (), p') \<and> pool_ok p' \<and> w \<le> payout
    \<and> rounds_to (g * numerator (shareWorth p)) (denominator (shareWorth p)) payout
    \<and> pool_usdc p' = pool_usdc p - payout \<and> shareSupply (zcf p') = shareSupply (zcf p) - g
    \<and> (lp, a) \<in> set (paidOut (zcf p')) \<and> payout \<le> amt a ''USDC''"
proof -
  have pa: "pool_alloc_ok (allocated pp)" "0 < g" "ratio_ok (shareWorth p)"
    using assms(1-3) pool_okE [OF assms(1)] by (auto simp: pool_ok_def seats_ok_def withdraw_offer_def)
  note W = withdrawCalc_Inr [OF pa(3,2,1) assms(4)]
  show ?thesis using withdraw_paid [OF assms] W(2,4) by metis
qed

text \<open>the calculation checks the wanted amount against the unencumbered balance and not
  the payout. When the payout exceeds that balance the handler throws after it has already
  replaced the share worth, and from then on every repayment and every deposit throws
  because the pool is inconsistent.\<close>

theorem withdrawal_can_break_the_pool:
  assumes "pool_ok p" and "withdraw_offer p lp g w"
    and "map_of (activeSeats (zcf p)) (poolSeat p) = Some pp"
    and "withdrawCalc (shareWorth p) g w (allocated pp) (encumberedBalance p) = Inr (worth', payout)"
    and "pool_usdc p < payout"
  shows "\<exists>p'. withdrawHandle lp p = (Inl CannotCommit, p') \<and> shareWorth p' = worth'
    \<and> (\<forall>src sp. repay src sp p' = (Inl PoolInconsistent, p'))
    \<and> (\<forall>lp' r. getProposal (zcf p') lp' = Inr r \<longrightarrow> depositHandle lp' p' = (Inl PoolInconsistent, p'))"
proof -
  obtain p' where p': "withdrawHandle lp p = (Inl CannotCommit, p')" "shareWorth p' = worth'"
    "map_of (activeSeats (zcf p')) (poolSeat p') = Some pp" "encumberedBalance p' = encumberedBalance p"
    using withdraw_breaks [OF assms] by blast
  have pa: "pool_alloc_ok (allocated pp)" "0 < g" "ratio_ok (shareWorth p)" "1 \<le> w"
    using assms(1-3) pool_okE [OF assms(1)] by (auto simp: pool_ok_def seats_ok_def withdraw_offer_def)
  note W = withdrawCalc_Inr [OF pa(3,2,1) assms(4)]
  have "checkPoolBalance (allocated pp) worth' (encumberedBalance p) = Inl PoolInconsistent"
    using W(1,2,7) pa(4) by (simp add: checkPoolBalance_eq [OF pa(1)])
  then have chk: "bindr (getCurrentAllocation (zcf p') (poolSeat p')) (\<lambda>a.
      checkPoolBalance a (shareWorth p') (encumberedBalance p')) = Inl PoolInconsistent"
    using p' by (simp add: getCurrentAllocation_def)
  have "repay src sp p' = (Inl PoolInconsistent, p')" for src sp
    by (simp add: repay_def chk)
  moreover have "depositHandle lp' p' = (Inl PoolInconsistent, p')" if "getProposal (zcf p') lp' = Inr r" for lp' r
    using that by (cases r) (simp add: depositHandle_def chk)
  ultimately show ?thesis using p'(1,2) by blast
qed

section \<open>Examples\<close>

text \<open>
  A pool of a thousand shares with half of its USDC lent out: seat 2 is a provider who gives
  nine hundred shares and wants at least 1 micro-USDC, 3 a borrower, 4 a depositor, 5 a
  modest withdrawal, 6 a repayment.
\<close>

definition ex_zcf :: zcf_state where
  "ex_zcf = \<lparr>activeSeats =
      [(0, \<lparr>allocated = [(''USDC'', 500)], give = [], want = []\<rparr>),
       (1, \<lparr>allocated = [], give = [], want = []\<rparr>),
       (2, \<lparr>allocated = [(''PoolShare'', 900)], give = [(''PoolShare'', 900)], want = [(''USDC'', 1)]\<rparr>),
       (3, \<lparr>allocated = [], give = [], want = []\<rparr>),
       (4, \<lparr>allocated = [(''USDC'', 100)], give = [(''USDC'', 100)], want = [(''PoolShare'', 90)]\<rparr>),
       (5, \<lparr>allocated = [(''PoolShare'', 100)], give = [(''PoolShare'', 100)], want = [(''USDC'', 100)]\<rparr>),
       (6, \<lparr>allocated = [(''In'', 210)], give = [], want = []\<rparr>)],
     nextSeat = 7, paidOut = [], shareSupply = 1000\<rparr>"

definition ex_pool :: pool_state where
  "ex_pool = \<lparr>zcf = ex_zcf, shareWorth = \<lparr>numerator = 1001, denominator = 1001\<rparr>, encumberedBalance = 500,
     poolStats = \<lparr>totalBorrows = 500, totalContractFees = 0, totalPoolFees = 0, totalRepays = 0\<rparr>,
     poolSeat = 0, feeSeat = 1, metrics = []\<rparr>"

lemma ex_seats:
  "map_of (activeSeats (zcf ex_pool)) 0 = Some \<lparr>allocated = [(''USDC'', 500)], give = [], want = []\<rparr>"
  "map_of (activeSeats (zcf ex_pool)) 1 = Some \<lparr>allocated = [], give = [], want = []\<rparr>"
  by (simp_all add: ex_pool_def ex_zcf_def)

lemma ex_zcf_ok: "zcf_ok ex_zcf"
  by (auto simp: zcf_ok_def ex_zcf_def store_ok_def ms.holds_all_def alloc_ok_def split: if_splits)

lemma ex_pool_ok: "pool_ok ex_pool"
  by (rule pool_okI [where sp = "\<lparr>allocated = [(''USDC'', 500)], give = [], want = []\<rparr>"
        and sf = "\<lparr>allocated = [], give = [], want = []\<rparr>"])
    (simp_all add: ex_pool_def ex_zcf_ok, simp_all add: ex_zcf_def)

lemma ex_own [simp]: "poolSeat ex_pool = 0" "feeSeat ex_pool = 1" "encumberedBalance ex_pool = 500"
  by (simp_all add: ex_pool_def)

lemma ex_offers:
  "withdraw_offer ex_pool 2 900 1" "withdraw_offer ex_pool 5 100 100" "deposit_offer ex_pool 4 100 90"
  by (simp_all add: withdraw_offer_def deposit_offer_def ex_pool_def ex_zcf_def)

lemma ex_pool_usdc: "pool_usdc ex_pool = 500"
  by (simp add: pool_usdc_def ex_pool_def ex_zcf_def)

lemma ex_calcs:
  "withdrawCalc (shareWorth ex_pool) 900 1 [(''USDC'', 500)] (encumberedBalance ex_pool) =
     Inr (\<lparr>numerator = 101, denominator = 101\<rparr>, 900)"
  "withdrawCalc (shareWorth ex_pool) 100 100 [(''USDC'', 500)] (encumberedBalance ex_pool) =
     Inr (\<lparr>numerator = 901, denominator = 901\<rparr>, 100)"
  by (simp_all add: withdrawCalc_def checkPoolBalance_def ex_pool_def multiplyBy_def bankersDivide_def Nat'_def
      nat_subtract_def makeRatioFromAmounts_def Let_def)

definition ex_start :: pool_state where
  "ex_start = initLiquidityPool \<lparr>activeSeats = [], nextSeat = 0, paidOut = [], shareSupply = 0\<rparr>"


theorem borrow_accounts_witness:
  "\<exists>p'. borrow 3 200 ex_pool = (Inr (), p') \<and> pool_usdc p' = 300"
proof -
  have "plain_seat ex_pool 3 0 ''USDC''" by (simp add: plain_seat_def) (simp add: ex_pool_def ex_zcf_def)
  from borrow_accounts [OF ex_pool_ok this, of 200] show ?thesis by (auto simp: ex_pool_usdc)
qed

theorem repay_accounts_witness:
  "\<exists>p'. repay (fromOnly 6 [(''In'', 210)]) \<lparr>Principal = 200, PoolFee = 5, ContractFee = 3, RelayFee = 2\<rparr> ex_pool = (Inr (), p')
     \<and> pool_usdc p' = 705"
proof -
  have "map_of (activeSeats (zcf ex_pool)) 6 = Some \<lparr>allocated = [(''In'', 210)], give = [], want = []\<rparr>"
    by (simp add: ex_pool_def ex_zcf_def)
  from repay_accounts [OF ex_pool_ok this, of "\<lparr>Principal = 200, PoolFee = 5, ContractFee = 3, RelayFee = 2\<rparr>" 210 "''In''"]
  show ?thesis by (auto simp: own_seat_def split_nonneg_def ex_pool_usdc)
qed

theorem deposit_outcome_witness:
  "(\<exists>e. depositHandle 4 ex_pool = (Inl e, ex_pool)) \<or>
   (\<exists>p'. depositHandle 4 ex_pool = (Inr (), p') \<and> pool_usdc p' = 600)"
  using deposit_outcome [OF ex_pool_ok ex_offers(3)] ex_pool_usdc by auto

theorem withdraw_outcome_witness:
  "\<exists>p'. withdrawHandle 5 ex_pool = (Inr (), p') \<and> pool_usdc p' = 400"
  using withdraw_outcome [OF ex_pool_ok ex_offers(2), of "\<lparr>allocated = [(''USDC'', 500)], give = [], want = []\<rparr>"]
    ex_calcs(2) ex_seats(1) ex_pool_usdc by simp blast

theorem withdrawal_can_break_the_pool_witness:
  "\<exists>p'. withdrawHandle 2 ex_pool = (Inl CannotCommit, p') \<and> shareWorth p' = \<lparr>numerator = 101, denominator = 101\<rparr>"
  using withdrawal_can_break_the_pool [OF ex_pool_ok ex_offers(1), of "\<lparr>allocated = [(''USDC'', 500)], give = [], want = []\<rparr>"]
    ex_calcs(1) ex_seats(1) ex_pool_usdc by simp blast

end
