(* ===== verification/TransactionFeed.thy ===== *)
theory TransactionFeed
  imports Types
begin

text \<open>
  The transaction feed (\<open>exos/transaction-feed.ts\<close>) and the operator kits
  (\<open>exos/operator-kit.ts\<close>): each operator's evidence and risk assessments are stored per
  transaction hash; an attestation that brings the reports to half of the operators
  publishes the evidence with the union of the risks.
\<close>

section \<open>State\<close>

record operator_kit =
  operatorId :: string
  disabled :: bool

text \<open>
  Kits are objects the operators keep after their removal: \<open>kits\<close> is the list of all that
  were made, and the \<open>operators\<close> store refers to them by their position.
\<close>

record feed_state =
  kits :: "operator_kit list"
  operators :: "(string, nat) mapstore"
  pending :: "(string, (evm_hash, evidence) mapstore) mapstore"
  risks :: "(string, (evm_hash, risk_assessment) mapstore) mapstore"
  feedLog :: "evidence_with_risk list"

section \<open>attest\<close>

definition allRisksIdentified :: "(evm_hash, risk_assessment) mapstore list \<Rightarrow> evm_hash \<Rightarrow> error + string list" where
  "allRisksIdentified riskStores h =
     bindr (mapr (\<lambda>st. store_get st h) riskStores) (\<lambda>rs.
       Inr (sort (remdups (concat (map (\<lambda>r. case risksIdentified r of None \<Rightarrow> [] | Some xs \<Rightarrow> xs) rs)))))"

fun checkAgreement :: "evm_hash \<Rightarrow> evidence option \<Rightarrow> (evm_hash, evidence) mapstore list \<Rightarrow> error + unit" where
  "checkAgreement h lastEvidence [] = Inr ()"
| "checkAgreement h lastEvidence (st # sts) =
     bindr (store_get st h) (\<lambda>next.
       if (case lastEvidence of None \<Rightarrow> False | Some l \<Rightarrow> l \<noteq> next) then Inl ConflictingEvidence
       else checkAgreement h (Some next) sts)"

definition storesWith :: "evm_hash \<Rightarrow> (string, (evm_hash, 'v) mapstore) mapstore \<Rightarrow> (evm_hash, 'v) mapstore list" where
  "storesWith h stores = filter (\<lambda>st. store_has st h) (store_values stores)"

definition minAttestations :: "feed_state \<Rightarrow> nat" where
  "minAttestations s = (store_size (operators s) + 1) div 2"

text \<open>The evidence is accepted unless this operator already reported the transaction.\<close>

definition acceptEvidence :: "evidence \<Rightarrow> risk_assessment \<Rightarrow> string \<Rightarrow> (feed_state, unit) proc" where
  "acceptEvidence ev ra opId =
     bindp (getsp (\<lambda>s. store_get (pending s) opId)) (\<lambda>r.
     bindp (liftp r) (\<lambda>pendingStore.
       if store_has pendingStore (txHash ev) then ret ()
       else
         thenp (modifyp (\<lambda>s. s\<lparr>pending := put_entry opId
                  (put_entry (txHash ev) ev pendingStore) (pending s)\<rparr>))
        (bindp (getsp (\<lambda>s. store_get (risks s) opId)) (\<lambda>r2.
         bindp (liftp r2) (\<lambda>riskStore.
         bindp (liftp (store_init riskStore (txHash ev) ra)) (\<lambda>riskStore'.
           modifyp (\<lambda>s. s\<lparr>risks := put_entry opId riskStore' (risks s)\<rparr>)))))))"

text \<open>Every store that has the transaction forgets it.\<close>

definition dropAll :: "evm_hash \<Rightarrow> (string, (evm_hash, 'v) mapstore) mapstore \<Rightarrow> (string, (evm_hash, 'v) mapstore) mapstore" where
  "dropAll h stores = map (\<lambda>(k, st). (k, drop_entry h st)) stores"

definition attest :: "evidence \<Rightarrow> risk_assessment \<Rightarrow> string \<Rightarrow> (feed_state, unit) proc" where
  "attest ev ra opId =
     thenp (acceptEvidence ev ra opId)
    (bindp (getsp (\<lambda>s. storesWith (txHash ev) (pending s))) (\<lambda>found.
     thenp (liftp (checkAgreement (txHash ev) None found))
    (bindp (getsp minAttestations) (\<lambda>minA.
       if length found < minA then ret ()
       else
         bindp (getsp (\<lambda>s. storesWith (txHash ev) (risks s))) (\<lambda>riskStores.
           if length found = minA
           then bindp (liftp (allRisksIdentified riskStores (txHash ev))) (\<lambda>rs.
                  modifyp (\<lambda>s. s\<lparr>feedLog := feedLog s @
                     [\<lparr>evidence = ev, risk = \<lparr>risksIdentified = Some rs\<rparr>\<rparr>]\<rparr>))
           else bindp (getsp (\<lambda>s. store_size (pending s))) (\<lambda>n.
                  whenp (length found = n)
                    (modifyp (\<lambda>s. s\<lparr>pending := dropAll (txHash ev) (pending s),
                                   risks := dropAll (txHash ev) (risks s)\<rparr>))))))))"

section \<open>Operators\<close>

text \<open>
  A kit becomes part of the state when \<open>operators.init\<close> has accepted it; the one made for a
  refused id is referenced by nothing.
\<close>

definition initOperator :: "string \<Rightarrow> (feed_state, nat) proc" where
  "initOperator opId =
     bindp (getsp (\<lambda>s. length (kits s))) (\<lambda>kit.
     bindp (getsp (\<lambda>s. store_init (operators s) opId kit)) (\<lambda>r.
     bindp (liftp r) (\<lambda>ops.
     thenp (modifyp (\<lambda>s. s\<lparr>kits := kits s @ [\<lparr>operatorId = opId, disabled = False\<rparr>], operators := ops\<rparr>))
    (bindp (getsp (\<lambda>s. store_init (pending s) opId [])) (\<lambda>r2.
     bindp (liftp r2) (\<lambda>pend.
     thenp (modifyp (\<lambda>s. s\<lparr>pending := pend\<rparr>))
    (bindp (getsp (\<lambda>s. store_init (risks s) opId [])) (\<lambda>r3.
     bindp (liftp r3) (\<lambda>rks.
     thenp (modifyp (\<lambda>s. s\<lparr>risks := rks\<rparr>)) (ret kit))))))))))"

definition disable :: "nat \<Rightarrow> (feed_state, unit) proc" where
  "disable kit = modifyp (\<lambda>s. s\<lparr>kits := (kits s)[kit := (kits s ! kit)\<lparr>disabled := True\<rparr>]\<rparr>)"

definition deleteFrom :: "(feed_state \<Rightarrow> (string, 'v) mapstore) \<Rightarrow>
    ((string, 'v) mapstore \<Rightarrow> feed_state \<Rightarrow> feed_state) \<Rightarrow> string \<Rightarrow> (feed_state, unit) proc" where
  "deleteFrom get put k =
     bindp (getsp (\<lambda>s. store_delete (get s) k)) (\<lambda>r. bindp (liftp r) (\<lambda>st. modifyp (put st)))"

definition removeOperator :: "string \<Rightarrow> (feed_state, unit) proc" where
  "removeOperator opId =
     bindp (getsp (\<lambda>s. store_get (operators s) opId)) (\<lambda>r.
     bindp (liftp r) (\<lambda>kit.
     thenp (disable kit)
    (thenp (deleteFrom operators (\<lambda>st s. s\<lparr>operators := st\<rparr>) opId)
    (thenp (deleteFrom pending (\<lambda>st s. s\<lparr>pending := st\<rparr>) opId)
           (deleteFrom risks (\<lambda>st s. s\<lparr>risks := st\<rparr>) opId)))))"

text \<open>An operator submits evidence through its kit (\<open>operator-kit.ts\<close>).\<close>

definition submitEvidence :: "nat \<Rightarrow> evidence \<Rightarrow> risk_assessment \<Rightarrow> (feed_state, unit) proc" where
  "submitEvidence kit ev ra =
     bindp (getsp (\<lambda>s. kits s ! kit)) (\<lambda>k.
     thenp (requirep (\<not> disabled k) OperatorDisabled)
           (attest ev ra (operatorId k)))"

definition getStatus :: "feed_state \<Rightarrow> nat \<Rightarrow> bool \<times> string" where
  "getStatus s kit = (disabled (kits s ! kit), operatorId (kits s ! kit))"

section \<open>The invariant\<close>

definition same_keys :: "(string, (evm_hash, 'v) mapstore) mapstore \<Rightarrow> (string, (evm_hash, 'w) mapstore) mapstore \<Rightarrow> bool" where
  "same_keys p q \<longleftrightarrow> map fst p = map fst q \<and>
     (\<forall>k st st' h. map_of p k = Some st \<longrightarrow> map_of q k = Some st' \<longrightarrow> store_has st' h = store_has st h)"

definition kits_ok :: "operator_kit list \<Rightarrow> (string, nat) mapstore \<Rightarrow> bool" where
  "kits_ok ks ops \<longleftrightarrow>
     (\<forall>k i. map_of ops k = Some i \<longrightarrow> i < length ks \<and> operatorId (ks ! i) = k \<and> \<not> disabled (ks ! i)) \<and>
     (\<forall>i < length ks. \<not> disabled (ks ! i) \<longrightarrow> map_of ops (operatorId (ks ! i)) = Some i)"

definition evidence_keyed :: "(string, (evm_hash, evidence) mapstore) mapstore \<Rightarrow> bool" where
  "evidence_keyed p \<longleftrightarrow> (\<forall>k st h e. map_of p k = Some st \<longrightarrow> map_of st h = Some e \<longrightarrow> txHash e = h)"

definition feed_ok :: "feed_state \<Rightarrow> bool" where
  "feed_ok s \<longleftrightarrow> store_ok (operators s) \<and> map fst (pending s) = map fst (operators s) \<and>
     same_keys (pending s) (risks s) \<and> kits_ok (kits s) (operators s) \<and> evidence_keyed (pending s)"

definition feed_init :: feed_state where
  "feed_init = \<lparr>kits = [], operators = [], pending = [], risks = [], feedLog = []\<rparr>"

lemma feed_ok_init: "feed_ok feed_init"
  by (simp add: feed_ok_def feed_init_def same_keys_def kits_ok_def evidence_keyed_def)

section \<open>What an attestation does\<close>

text \<open>The evidence an operator has on record for a transaction.\<close>

definition reported :: "feed_state \<Rightarrow> string \<Rightarrow> evm_hash \<Rightarrow> evidence option" where
  "reported s k h = (case map_of (pending s) k of None \<Rightarrow> None | Some st \<Rightarrow> map_of st h)"

definition reporters :: "feed_state \<Rightarrow> evm_hash \<Rightarrow> string set" where
  "reporters s h = {k. reported s k h \<noteq> None}"

lemma feed_ok_store:
  assumes "feed_ok s"
  shows "store_ok (operators s)" "store_ok (pending s)" "store_ok (risks s)"
    "map_of (pending s) k = None \<longleftrightarrow> map_of (operators s) k = None"
    "map_of (risks s) k = None \<longleftrightarrow> map_of (operators s) k = None"
proof -
  have k: "map fst (pending s) = map fst (operators s)" "map fst (risks s) = map fst (operators s)"
    using assms by (auto simp: feed_ok_def same_keys_def)
  then show "store_ok (operators s)" "store_ok (pending s)" "store_ok (risks s)"
    using assms by (simp_all add: feed_ok_def store_ok_def)
  have "fst ` set (pending s) = fst ` set (operators s)" "fst ` set (risks s) = fst ` set (operators s)"
    using k by (metis set_map)+
  then show "map_of (pending s) k = None \<longleftrightarrow> map_of (operators s) k = None"
    "map_of (risks s) k = None \<longleftrightarrow> map_of (operators s) k = None"
    by (simp_all add: map_of_eq_None_iff)
qed

lemma store_values_iff: "store_ok s \<Longrightarrow> v \<in> set (store_values s) \<longleftrightarrow> (\<exists>k. map_of s k = Some v)"
  by (auto simp: store_values_def store_ok_map_of_iff) force

lemma length_storesWith:
  assumes "feed_ok s"
  shows "length (storesWith h (pending s)) = card (reporters s h)"
proof -
  have d: "distinct (map fst (pending s))" using feed_ok_store(2) [OF assms] by (rule store_ok_distinct)
  let ?l = "map fst (filter (\<lambda>e. store_has (snd e) h) (pending s))"
  have "length (storesWith h (pending s)) = length ?l"
    by (simp add: storesWith_def store_values_def filter_map comp_def)
  also have "\<dots> = card (set ?l)"
    using d by (intro distinct_card [symmetric]) (auto simp: distinct_map intro: inj_on_subset)
  also have "set ?l = reporters s h"
  proof -
    have "k \<in> set ?l \<longleftrightarrow> (\<exists>st. (k, st) \<in> set (pending s) \<and> store_has st h)" for k
      by force
    then show ?thesis
      by (auto simp: reporters_def reported_def store_has_def map_of_eq_Some_iff [OF d, symmetric]
          split: option.splits)
  qed
  finally show ?thesis .
qed

definition agrees :: "feed_state \<Rightarrow> evm_hash \<Rightarrow> bool" where
  "agrees s h \<longleftrightarrow> (\<exists>e. \<forall>k \<in> reporters s h. reported s k h = Some e)"

lemma checkAgreement_Inr:
  "\<forall>st \<in> set sts. store_has st h \<Longrightarrow>
     checkAgreement h l sts = (if \<exists>e. (l = None \<or> l = Some e) \<and> (\<forall>st \<in> set sts. map_of st h = Some e)
                               then Inr () else Inl ConflictingEvidence)"
proof (induction h l sts rule: checkAgreement.induct)
  case (1 h l)
  then show ?case by (cases l) auto
next
  case (2 h l st sts)
  obtain e where e: "map_of st h = Some e" using "2.prems" by (auto simp: store_has_iff)
  show ?case
  proof (cases "l = None \<or> l = Some e")
    case True
    with 2 e show ?thesis by (auto simp: store_get_def)
  next
    case False
    with e show ?thesis by (auto simp: store_get_def)
  qed
qed

lemma checkAgreement_found:
  assumes "feed_ok s"
  shows "checkAgreement h None (storesWith h (pending s)) =
    (if agrees s h then Inr () else Inl ConflictingEvidence)"
proof -
  have "(\<exists>e. \<forall>st \<in> set (storesWith h (pending s)). map_of st h = Some e) \<longleftrightarrow> agrees s h"
    unfolding agrees_def storesWith_def reporters_def reported_def
    using store_values_iff [OF feed_ok_store(2) [OF assms]]
    by (auto simp: store_has_def split: option.splits) (metis option.distinct(1))+
  then show ?thesis
    by (subst checkAgreement_Inr) (auto simp: storesWith_def)
qed

definition accept :: "evidence \<Rightarrow> risk_assessment \<Rightarrow> string \<Rightarrow> feed_state \<Rightarrow> feed_state" where
  "accept ev ra k s =
     (if reported s k (txHash ev) \<noteq> None then s
      else s\<lparr>pending := put_entry k (put_entry (txHash ev) ev (the (map_of (pending s) k))) (pending s),
             risks := put_entry k (put_entry (txHash ev) ra (the (map_of (risks s) k))) (risks s)\<rparr>)"

lemma acceptEvidence_eq:
  assumes "feed_ok s"
  shows "acceptEvidence ev ra k s =
    (if map_of (operators s) k = None then (Inl KeyNotFound, s) else (Inr (), accept ev ra k s))"
proof (cases "map_of (operators s) k")
  case None
  then have "map_of (pending s) k = None" using feed_ok_store(4) [OF assms] by simp
  with None show ?thesis by (simp add: acceptEvidence_def store_get_def)
next
  case (Some i)
  then obtain st rt where st: "map_of (pending s) k = Some st" "map_of (risks s) k = Some rt"
    using feed_ok_store(4,5) [OF assms, of k] by auto
  then have "store_has rt h = store_has st h" for h
    using assms by (auto simp: feed_ok_def same_keys_def)
  with Some st show ?thesis
    by (auto simp: acceptEvidence_def store_get_def accept_def reported_def store_has_def store_init_def)
qed

lemma map_fst_put_entry:
  "store_ok s \<Longrightarrow> map_of s k \<noteq> None \<Longrightarrow> map fst (put_entry k v s) = map fst s"
proof (induction k v s rule: put_entry.induct)
  case (2 k v k' v' s)
  then have "k' < k" if "k \<noteq> k'"
    using that by (auto simp: store_ok_def dest!: map_of_SomeD)
  with 2 show ?case by (auto simp: store_ok_def)
qed simp

lemma feed_ok_accept:
  assumes ok: "feed_ok s" and op: "map_of (operators s) k \<noteq> None"
  shows "feed_ok (accept ev ra k s)"
proof (cases "reported s k (txHash ev)")
  case None
  from op obtain st rt where st: "map_of (pending s) k = Some st" "map_of (risks s) k = Some rt"
    using feed_ok_store(4,5) [OF ok, of k] by auto
  note keys = map_fst_put_entry [OF feed_ok_store(2) [OF ok]] map_fst_put_entry [OF feed_ok_store(3) [OF ok]]
  have h: "store_has rt h = store_has st h" for h
    using ok st by (auto simp: feed_ok_def same_keys_def)
  show ?thesis
    using ok None st h keys
    by (auto simp: accept_def feed_ok_def same_keys_def evidence_keyed_def split: if_splits)
qed (simp add: accept_def ok)

lemma reported_accept:
  "map_of (pending s) k \<noteq> None \<Longrightarrow>
   reported (accept ev ra k s) k' h =
     (if k' = k \<and> h = txHash ev \<and> reported s k h = None then Some ev else reported s k' h)"
  by (auto simp: accept_def reported_def split: option.splits)

lemma accept_fields [simp]:
  "operators (accept ev ra k s) = operators s" "kits (accept ev ra k s) = kits s"
  "feedLog (accept ev ra k s) = feedLog s" "minAttestations (accept ev ra k s) = minAttestations s"
  by (simp_all add: accept_def minAttestations_def)

definition cleanup :: "evm_hash \<Rightarrow> feed_state \<Rightarrow> feed_state" where
  "cleanup h s = s\<lparr>pending := dropAll h (pending s), risks := dropAll h (risks s)\<rparr>"

definition risk_union :: "feed_state \<Rightarrow> evm_hash \<Rightarrow> string list" where
  "risk_union s h = sort (remdups (concat (map (\<lambda>st. case map_of st h of None \<Rightarrow> []
      | Some r \<Rightarrow> (case risksIdentified r of None \<Rightarrow> [] | Some xs \<Rightarrow> xs)) (storesWith h (risks s)))))"

lemma mapr_store_get:
  "\<forall>st \<in> set sts. store_has st h \<Longrightarrow> mapr (\<lambda>st. store_get st h) sts = Inr (map (\<lambda>st. the (map_of st h)) sts)"
  by (induction sts) (auto simp: store_get_def store_has_def)

lemma allRisks_eq: "allRisksIdentified (storesWith h (risks s)) h = Inr (risk_union s h)"
proof -
  have "concat (map (\<lambda>r. case risksIdentified r of None \<Rightarrow> [] | Some xs \<Rightarrow> xs)
          (map (\<lambda>st. the (map_of st h)) (storesWith h (risks s)))) =
        concat (map (\<lambda>st. case map_of st h of None \<Rightarrow> []
          | Some r \<Rightarrow> (case risksIdentified r of None \<Rightarrow> [] | Some xs \<Rightarrow> xs)) (storesWith h (risks s)))"
    by (auto simp: storesWith_def store_has_def intro!: arg_cong [where f = concat])
  then show ?thesis
    by (simp add: allRisksIdentified_def risk_union_def mapr_store_get storesWith_def)
qed

text \<open>The whole method in one equation.\<close>

lemma attest_eq:
  assumes "feed_ok s" "map_of (operators s) k \<noteq> None"
  shows "attest ev ra k s =
    (let s1 = accept ev ra k s; h = txHash ev; n = card (reporters s1 h) in
     if \<not> agrees s1 h then (Inl ConflictingEvidence, s1)
     else if n < minAttestations s then (Inr (), s1)
     else if n = minAttestations s
     then (Inr (), s1\<lparr>feedLog := feedLog s @ [\<lparr>evidence = ev, risk = \<lparr>risksIdentified = Some (risk_union s1 h)\<rparr>\<rparr>]\<rparr>)
     else if n = store_size (pending s1) then (Inr (), cleanup h s1)
     else (Inr (), s1))"
proof -
  note ok1 = feed_ok_accept [OF assms, of ev ra]
  show ?thesis
    using assms(2)
    by (simp add: attest_def acceptEvidence_eq [OF assms(1)] checkAgreement_found [OF ok1]
        length_storesWith [OF ok1] allRisks_eq Let_def cleanup_def)
qed

section \<open>Every method keeps the invariant\<close>

lemma map_of_dropAll: "map_of (dropAll h p) k = map_option (drop_entry h) (map_of p k)"
  by (induction p) (auto simp: dropAll_def)

lemma feed_ok_cleanup: "feed_ok s \<Longrightarrow> feed_ok (cleanup h s)"
  unfolding feed_ok_def cleanup_def same_keys_def evidence_keyed_def
  by (auto simp: map_of_dropAll) (auto simp: dropAll_def comp_def case_prod_beta split: if_splits)

lemma feed_ok_log [simp]: "feed_ok (s\<lparr>feedLog := l\<rparr>) = feed_ok s"
  by (simp add: feed_ok_def)

lemma attest_unknown: "feed_ok s \<Longrightarrow> map_of (operators s) k = None \<Longrightarrow> attest ev ra k s = (Inl KeyNotFound, s)"
  by (simp add: attest_def acceptEvidence_eq)

lemma keeps_attest: "keeps feed_ok (attest ev ra k)"
proof (rule keepsI)
  fix s assume ok: "feed_ok s"
  show "feed_ok (snd (attest ev ra k s))"
  proof (cases "map_of (operators s) k = None")
    case False
    with ok show ?thesis
      by (simp add: attest_eq Let_def feed_ok_accept feed_ok_cleanup)
  qed (simp add: attest_unknown ok)
qed

lemma keeps_submitEvidence: "keeps feed_ok (submitEvidence kit ev ra)"
  unfolding submitEvidence_def by (intro keeps_intros keeps_attest)

lemma map_fst_put_new:
  "map_of s k = None \<Longrightarrow> map_of t k = None \<Longrightarrow> map fst s = map fst t \<Longrightarrow>
     map fst (put_entry k v s) = map fst (put_entry k w t)"
proof (induction k v s arbitrary: t rule: put_entry.induct)
  case (1 k v)
  then show ?case by simp
next
  case (2 k v k' v' s)
  then obtain w' t' where "t = (k', w') # t'" "map fst s = map fst t'" by (cases t) auto
  with 2 show ?case by auto
qed

lemma initOperator_eq:
  assumes "feed_ok s"
  shows "initOperator k s =
    (if map_of (operators s) k \<noteq> None then (Inl KeyAlreadyRegistered, s)
     else (Inr (length (kits s)),
           s\<lparr>kits := kits s @ [\<lparr>operatorId = k, disabled = False\<rparr>],
             operators := put_entry k (length (kits s)) (operators s),
             pending := put_entry k [] (pending s), risks := put_entry k [] (risks s)\<rparr>))"
  using feed_ok_store(4,5) [OF assms, of k]
  by (auto simp: initOperator_def store_init_def store_has_def)

lemma kits_ok_new:
  assumes "kits_ok ks ops" "map_of ops k = None"
  shows "kits_ok (ks @ [\<lparr>operatorId = k, disabled = False\<rparr>]) (put_entry k (length ks) ops)"
  using assms by (fastforce simp: kits_ok_def nth_append less_Suc_eq)

lemma keeps_initOperator: "keeps feed_ok (initOperator k)"
proof (rule keepsI)
  fix s assume ok: "feed_ok s"
  show "feed_ok (snd (initOperator k s))"
  proof (cases "map_of (operators s) k")
    case None
    then have n: "map_of (pending s) k = None" "map_of (risks s) k = None"
      using feed_ok_store(4,5) [OF ok] by simp_all
    have keys: "map fst (put_entry k [] (pending s)) = map fst (put_entry k (length (kits s)) (operators s))"
      "map fst (put_entry k [] (pending s)) = map fst (put_entry k [] (risks s))"
      using ok n None by (auto simp: feed_ok_def same_keys_def intro: map_fst_put_new)
    with ok n None show ?thesis
      by (auto simp: initOperator_eq [OF ok] feed_ok_def same_keys_def evidence_keyed_def
          kits_ok_new store_ok_put_entry split: if_splits)
  qed (simp add: initOperator_eq [OF ok] ok)
qed

definition removed :: "string \<Rightarrow> nat \<Rightarrow> feed_state \<Rightarrow> feed_state" where
  "removed k i s = s\<lparr>kits := (kits s)[i := (kits s ! i)\<lparr>disabled := True\<rparr>],
     operators := drop_entry k (operators s), pending := drop_entry k (pending s), risks := drop_entry k (risks s)\<rparr>"

lemma removeOperator_eq:
  assumes "feed_ok s"
  shows "removeOperator k s =
    (case map_of (operators s) k of None \<Rightarrow> (Inl KeyNotFound, s) | Some i \<Rightarrow> (Inr (), removed k i s))"
  using feed_ok_store(4,5) [OF assms, of k]
  by (auto simp: removeOperator_def store_get_def disable_def deleteFrom_def store_delete_def store_has_def
      removed_def split: option.split)

lemma map_fst_drop: "map fst s = map fst t \<Longrightarrow> map fst (drop_entry k s) = map fst (drop_entry k t)"
  by (induction s arbitrary: t) (auto simp: drop_entry_def Cons_eq_map_conv)

lemma kits_ok_removed:
  assumes "kits_ok ks ops" "map_of ops k = Some i"
  shows "kits_ok (ks[i := (ks ! i)\<lparr>disabled := True\<rparr>]) (drop_entry k ops)"
  unfolding kits_ok_def
proof (intro conjI allI impI)
  have reg: "map_of ops k' = Some j \<Longrightarrow> j < length ks \<and> operatorId (ks ! j) = k' \<and> \<not> disabled (ks ! j)" for k' j
    using assms(1) by (simp add: kits_ok_def)
  let ?ks = "ks[i := (ks ! i)\<lparr>disabled := True\<rparr>]"
  show "j < length ?ks" "operatorId (?ks ! j) = k'" "\<not> disabled (?ks ! j)"
    if "map_of (drop_entry k ops) k' = Some j" for k' j
  proof -
    have j: "k' \<noteq> k" "map_of ops k' = Some j" using that by (simp_all split: if_splits)
    then have "j \<noteq> i" using reg [OF j(2)] reg [OF assms(2)] by auto
    with reg [OF j(2)] show "j < length ?ks" "operatorId (?ks ! j) = k'" "\<not> disabled (?ks ! j)" by simp_all
  qed
  show "map_of (drop_entry k ops) (operatorId (?ks ! j)) = Some j"
    if "j < length ?ks" "\<not> disabled (?ks ! j)" for j
  proof -
    have j: "j < length ks" "j \<noteq> i" using that by (auto simp: nth_list_update)
    then have "map_of ops (operatorId (ks ! j)) = Some j"
      using assms(1) that by (simp add: kits_ok_def)
    moreover from this have "operatorId (ks ! j) \<noteq> k" using assms(2) j by auto
    ultimately show ?thesis using j by simp
  qed
qed

lemma keeps_removeOperator: "keeps feed_ok (removeOperator k)"
proof (rule keepsI)
  fix s assume ok: "feed_ok s"
  show "feed_ok (snd (removeOperator k s))"
  proof (cases "map_of (operators s) k")
    case (Some i)
    have keys: "map fst (drop_entry k (pending s)) = map fst (drop_entry k (operators s))"
      "map fst (drop_entry k (pending s)) = map fst (drop_entry k (risks s))"
      using ok by (auto simp: feed_ok_def same_keys_def intro!: map_fst_drop)
    have "same_keys (drop_entry k (pending s)) (drop_entry k (risks s))"
      using ok keys(2) by (auto simp: feed_ok_def same_keys_def)
    moreover have "evidence_keyed (drop_entry k (pending s))"
      using ok by (auto simp: feed_ok_def evidence_keyed_def)
    ultimately show ?thesis
      using ok Some keys(1)
      by (simp add: removeOperator_eq [OF ok] removed_def feed_ok_def kits_ok_removed store_ok_drop_entry)
  qed (simp add: removeOperator_eq [OF ok] ok)
qed

section \<open>The feed as a machine\<close>

datatype feed_call = FInit string | FRemove string | FSubmit nat evidence risk_assessment

fun feed_run :: "feed_call \<Rightarrow> (feed_state, unit) proc" where
  "feed_run (FInit k) = bindp (initOperator k) (\<lambda>_. ret ())"
| "feed_run (FRemove k) = removeOperator k"
| "feed_run (FSubmit kit ev ra) = submitEvidence kit ev ra"

text \<open>Only kits that were made can be used to submit.\<close>

fun feed_guard :: "feed_call \<Rightarrow> feed_state \<Rightarrow> bool" where
  "feed_guard (FSubmit kit ev ra) s = (kit < length (kits s))"
| "feed_guard _ s = True"

inductive feed_step :: "feed_state \<Rightarrow> feed_state \<Rightarrow> bool" where
  feed_stepI: "feed_guard c s \<Longrightarrow> feed_run c s = (r, s') \<Longrightarrow> feed_step s s'"

inductive_cases feed_stepE: "feed_step s s'"

lemma keeps_feed_run: "keeps feed_ok (feed_run c)"
  by (cases c) (auto intro!: keeps_intros keeps_initOperator keeps_removeOperator keeps_submitEvidence)

interpretation feed: machine "\<lambda>s. s = feed_init" feed_step feed_ok
proof
  show "feed_ok s" if "s = feed_init" for s using that feed_ok_init by simp
  show "feed_ok t" if "feed_step s t" "feed_ok s" for s t
    using that by (elim feed_stepE) (metis keepsD keeps_feed_run snd_conv)
qed

lemma feed_reachable_ok: "feed_step\<^sup>*\<^sup>* feed_init s \<Longrightarrow> feed_ok s"
  by (rule feed.inv_reachable [OF refl])

section \<open>Disabled kits stay disabled\<close>

lemma kits_only_disabled:
  assumes "feed_step s t" "feed_ok s" "i < length (kits s)" "disabled (kits s ! i)"
  shows "i < length (kits t) \<and> disabled (kits t ! i)"
proof -
  from assms(1) obtain c r where c: "feed_run c s = (r, t)" by (auto elim: feed_stepE)
  have att: "kits (snd (attest ev ra k s)) = kits s" for ev ra k
    by (cases "map_of (operators s) k = None")
      (simp_all add: attest_unknown attest_eq assms(2) Let_def cleanup_def)
  show ?thesis
  proof (cases c)
    case (FInit k)
    with c assms show ?thesis
      by (auto simp: initOperator_eq nth_append split: if_splits)
  next
    case (FRemove k)
    with c assms(3,4) show ?thesis
      by (cases "map_of (operators s) k"; cases "map_of (operators s) k = Some i")
        (auto simp: removeOperator_eq [OF assms(2)] removed_def)
  next
    case (FSubmit kit ev ra)
    with c att [of ev ra "operatorId (kits s ! kit)"] assms show ?thesis
      by (auto simp: submitEvidence_def split: if_splits)
  qed
qed

section \<open>Properties\<close>

lemma reporters_accept:
  assumes "feed_ok s" "map_of (operators s) k \<noteq> None"
  shows "reporters (accept ev ra k s) h = (if h = txHash ev then insert k (reporters s h) else reporters s h)"
proof -
  have "map_of (pending s) k \<noteq> None" using assms feed_ok_store(4) [OF assms(1), of k] by simp
  then show ?thesis by (auto simp: reporters_def reported_accept)
qed


text \<open>once two operators have conflicting evidence on record for a transaction, every
  further attestation of it throws and publishes nothing.\<close>

theorem conflict_blocks:
  assumes "feed_step\<^sup>*\<^sup>* feed_init s" and "reported s i h = Some e1" and "reported s j h = Some e2" and "e1 \<noteq> e2"
    and "txHash ev = h" and "map_of (operators s) k \<noteq> None"
  shows "\<exists>s'. attest ev ra k s = (Inl ConflictingEvidence, s') \<and> feedLog s' = feedLog s"
proof -
  have ok: "feed_ok s" by (rule feed_reachable_ok [OF assms(1)])
  have pk: "map_of (pending s) k \<noteq> None" using assms(6) feed_ok_store(4) [OF ok, of k] by simp
  let ?s = "accept ev ra k s"
  have "reported ?s i h = Some e1" "reported ?s j h = Some e2"
    using assms(2,3) by (auto simp: reported_accept [OF pk])
  with assms(4) have "\<not> agrees ?s h"
    by (auto simp: agrees_def reporters_def) (metis option.inject option.distinct(1))
  then show ?thesis using assms(5) by (simp add: attest_eq [OF ok assms(6)])
qed

text \<open>a removed operator's kit can never submit again, even after an operator with the
  same id is added: the call throws and changes nothing.\<close>

theorem removed_operator_is_cut_off:
  assumes "feed_step\<^sup>*\<^sup>* feed_init s" and "map_of (operators s) k = Some kit"
    and "removeOperator k s = (r, s1)" and "feed_step\<^sup>*\<^sup>* s1 s2"
  shows "submitEvidence kit ev ra s2 = (Inl OperatorDisabled, s2)"
proof -
  have ok: "feed_ok s" by (rule feed_reachable_ok [OF assms(1)])
  then have kit: "kit < length (kits s)" using assms(2) by (auto simp: feed_ok_def kits_ok_def)
  have s1: "s1 = removed k kit s" using assms(2,3) by (simp add: removeOperator_eq [OF ok])
  have ok1: "feed_ok s1"
    using keepsD [OF keeps_removeOperator ok, of k] assms(3) by simp
  have "kit < length (kits s2) \<and> disabled (kits s2 ! kit)"
    using assms(4)
  proof (induction rule: rtranclp_induct)
    case base
    show ?case using kit by (simp add: s1 removed_def)
  next
    case (step t u)
    have "feed_ok t" by (rule feed.inv_steps [OF step.hyps(1) ok1])
    with step show ?case using kits_only_disabled by blast
  qed
  then show ?thesis by (simp add: submitEvidence_def)
qed

section \<open>Examples\<close>

definition ex_evidence :: "string \<Rightarrow> int \<Rightarrow> evidence" where
  "ex_evidence h a =
     \<lparr>aux = \<lparr>forwardingChannel = ''channel-21'', recipientAddress = ''agoric1x''\<rparr>, blockHash = ''0xb'',
      blockNumber = 1, blockTimestamp = 10, evmChainId = 42161,
      tx = \<lparr>amount = a, forwardingAddress = ''noble1a'', sender = ''0x5''\<rparr>, txHash = h\<rparr>"

abbreviation ex_risk :: "string \<Rightarrow> risk_assessment" where
  "ex_risk r \<equiv> \<lparr>risksIdentified = Some [r]\<rparr>"

definition run_calls :: "feed_call list \<Rightarrow> feed_state \<Rightarrow> feed_state" where
  "run_calls cs s = fold (\<lambda>c s. snd (feed_run c s)) cs s"

fun guarded :: "feed_call list \<Rightarrow> feed_state \<Rightarrow> bool" where
  "guarded [] s = True"
| "guarded (c # cs) s = (feed_guard c s \<and> guarded cs (snd (feed_run c s)))"

lemma run_calls_reach: "guarded cs s \<Longrightarrow> feed_step\<^sup>*\<^sup>* s (run_calls cs s)"
proof (induction cs arbitrary: s)
  case (Cons c cs)
  have "feed_step s (snd (feed_run c s))"
    using Cons.prems by (intro feed_stepI [where c = c and r = "fst (feed_run c s)"]) simp_all
  with Cons show ?case by (auto simp: run_calls_def intro: converse_rtranclp_into_rtranclp)
qed (simp add: run_calls_def)

lemmas feed_eval = run_calls_def initOperator_def submitEvidence_def attest_def acceptEvidence_def
  store_init_def store_get_def store_has_def storesWith_def store_values_def store_size_def minAttestations_def
  allRisksIdentified_def ex_evidence_def feed_init_def removeOperator_def disable_def deleteFrom_def
  store_delete_def drop_entry_def

text \<open>Three operators; one has reported.\<close>

definition ex_one :: "feed_call list" where
  "ex_one = [FInit ''a'', FInit ''b'', FInit ''c'', FSubmit 0 (ex_evidence ''h'' 5) (ex_risk ''r1'')]"

definition ex_s1 :: feed_state where
  "ex_s1 = \<lparr>kits = [\<lparr>operatorId = ''a'', disabled = False\<rparr>, \<lparr>operatorId = ''b'', disabled = False\<rparr>,
      \<lparr>operatorId = ''c'', disabled = False\<rparr>],
     operators = [(''a'', 0), (''b'', 1), (''c'', 2)],
     pending = [(''a'', [(''h'', ex_evidence ''h'' 5)]), (''b'', []), (''c'', [])],
     risks = [(''a'', [(''h'', ex_risk ''r1'')]), (''b'', []), (''c'', [])], feedLog = []\<rparr>"

lemma ex_s1_run: "run_calls ex_one feed_init = ex_s1"
  by (simp add: ex_one_def ex_s1_def feed_eval)

lemma ex_s1_reach: "feed_step\<^sup>*\<^sup>* feed_init ex_s1"
proof -
  have "guarded ex_one feed_init" by (simp add: ex_one_def feed_eval)
  then show ?thesis using run_calls_reach ex_s1_run by metis
qed


text \<open>A second operator reports the same transaction with other evidence.\<close>

definition ex_s2 :: feed_state where
  "ex_s2 = snd (attest (ex_evidence ''h'' 6) (ex_risk ''r2'') ''b'' ex_s1)"

lemma ex_s2_reach: "feed_step\<^sup>*\<^sup>* feed_init ex_s2"
proof -
  have "snd (feed_run (FSubmit 1 (ex_evidence ''h'' 6) (ex_risk ''r2'')) ex_s1) = ex_s2"
    by (simp add: ex_s2_def submitEvidence_def) (simp add: ex_s1_def)
  moreover have "feed_guard (FSubmit 1 (ex_evidence ''h'' 6) (ex_risk ''r2'')) ex_s1" by (simp add: ex_s1_def)
  ultimately have "feed_step ex_s1 ex_s2"
    by (metis feed_stepI prod.collapse)
  with ex_s1_reach show ?thesis by simp
qed

theorem conflict_blocks_witness:
  "\<exists>s'. attest (ex_evidence ''h'' 5) (ex_risk ''r3'') ''c'' ex_s2 = (Inl ConflictingEvidence, s')"
proof -
  have "reported ex_s2 ''a'' ''h'' = Some (ex_evidence ''h'' 5)" "reported ex_s2 ''b'' ''h'' = Some (ex_evidence ''h'' 6)"
    by (simp_all add: reported_def ex_s2_def, simp_all add: ex_s1_def feed_eval)
  moreover have "ex_evidence ''h'' 5 \<noteq> ex_evidence ''h'' 6" "txHash (ex_evidence ''h'' 5) = ''h''"
    by (simp_all add: ex_evidence_def)
  moreover have "map_of (operators ex_s2) ''c'' \<noteq> None"
    by (simp add: ex_s2_def, simp add: ex_s1_def feed_eval)
  ultimately show ?thesis using conflict_blocks [OF ex_s2_reach] by blast
qed

theorem removed_operator_is_cut_off_witness:
  "submitEvidence 0 (ex_evidence ''h'' 7) (ex_risk ''r'') (snd (removeOperator ''a'' ex_s1)) =
     (Inl OperatorDisabled, snd (removeOperator ''a'' ex_s1))"
proof -
  have k: "map_of (operators ex_s1) ''a'' = Some 0" by (simp add: ex_s1_def)
  have r: "removeOperator ''a'' ex_s1 = (fst (removeOperator ''a'' ex_s1), snd (removeOperator ''a'' ex_s1))" by simp
  show ?thesis by (rule removed_operator_is_cut_off [OF ex_s1_reach k r rtranclp.rtrancl_refl])
qed

text \<open>an attestation by an operator that already reported the transaction is checked by
  the evidence it stored then, yet the evidence it passes now is what gets published: after
  two of three operators agreed, one of them alone can have evidence published that no
  operator has on record.\<close>

theorem publishes_unrecorded_evidence:
  "\<exists>s ev r s'. feed_step\<^sup>*\<^sup>* feed_init s \<and> attest ev (ex_risk ''r'') ''a'' s = (r, s')
     \<and> feedLog s' = feedLog s @ [\<lparr>evidence = ev, risk = \<lparr>risksIdentified = Some [''r1'', ''r2'']\<rparr>\<rparr>]
     \<and> (\<forall>j. reported s' j (txHash ev) \<noteq> Some ev)"
proof -
  define s where "s = run_calls [FSubmit 1 (ex_evidence ''h'' 5) (ex_risk ''r2'')] ex_s1"
  define ev where "ev = ex_evidence ''h'' 99"
  have "feed_step\<^sup>*\<^sup>* ex_s1 s" unfolding s_def by (rule run_calls_reach) (simp add: ex_s1_def)
  then have reach: "feed_step\<^sup>*\<^sup>* feed_init s" using ex_s1_reach by simp
  have p: "pending s = [(''a'', [(''h'', ex_evidence ''h'' 5)]), (''b'', [(''h'', ex_evidence ''h'' 5)]), (''c'', [])]"
    "risks s = [(''a'', [(''h'', ex_risk ''r1'')]), (''b'', [(''h'', ex_risk ''r2'')]), (''c'', [])]"
    "operators s = operators ex_s1"
    by (simp_all add: s_def ex_s1_def feed_eval)
  have a: "attest ev (ex_risk ''r'') ''a'' s =
      (Inr (), s\<lparr>feedLog := feedLog s @ [\<lparr>evidence = ev, risk = \<lparr>risksIdentified = Some [''r1'', ''r2'']\<rparr>\<rparr>]\<rparr>)"
    using p by (simp add: ev_def feed_eval) (simp add: ex_s1_def)
  moreover have "reported (s\<lparr>feedLog := l\<rparr>) j (txHash ev) \<noteq> Some ev" for l j
    using p by (simp add: ev_def reported_def ex_evidence_def)
  ultimately show ?thesis using reach by fastforce
qed

end
