(* ===== verification/MintedEarlyKey.thy ===== *)
theory MintedEarlyKey
  imports Types
begin

text \<open>
  The keys of the settler's early mints (\<open>makeMintedEarlyKey\<close>, \<open>parseMintedEarlyKey\<close> in
  \<open>exos/settler.ts\<close>) with the parts of JavaScript they are made of: \<open>JSON.stringify\<close> and
  \<open>JSON.parse\<close> of a pair of strings, \<open>String\<close> and \<open>BigInt\<close> of an integer. Characters are code
  units up to 255.
\<close>

section \<open>JSON strings\<close>

definition quote_char :: char where "quote_char = CHR 0x22"
definition backslash :: char where "backslash = CHR 0x5C"

definition hex_digit :: "nat \<Rightarrow> char" where
  "hex_digit n = (if n < 10 then char_of (48 + n) else char_of (87 + n))"

definition hex_value :: "char \<Rightarrow> nat option" where
  "hex_value c =
     (let n = of_char c :: nat in
      if 48 \<le> n \<and> n \<le> 57 then Some (n - 48)
      else if 97 \<le> n \<and> n \<le> 102 then Some (n - 87)
      else if 65 \<le> n \<and> n \<le> 70 then Some (n - 55)
      else None)"

text \<open>The short escapes of JSON: the letter after the backslash and what it stands for.\<close>

definition json_escapes :: "(char \<times> char) list" where
  "json_escapes = [(CHR ''b'', CHR 0x08), (CHR ''t'', CHR 0x09), (CHR ''n'', CHR 0x0A),
     (CHR ''f'', CHR 0x0C), (CHR ''r'', CHR 0x0D), (quote_char, quote_char), (backslash, backslash)]"

definition json_char :: "char \<Rightarrow> string" where
  "json_char c =
     (case map_of (map prod.swap json_escapes) c of
        Some l \<Rightarrow> [backslash, l]
      | None \<Rightarrow>
          (let n = of_char c :: nat in
           if n < 32 then [backslash, CHR ''u'', CHR ''0'', CHR ''0'', hex_digit (n div 16), hex_digit (n mod 16)]
           else [c]))"

definition json_string :: "string \<Rightarrow> string" where
  "json_string s = quote_char # concat (map json_char s) @ [quote_char]"

fun hex4 :: "string \<Rightarrow> (char \<times> string) option" where
  "hex4 (a # b # c # d # rest) =
     (case (hex_value a, hex_value b, hex_value c, hex_value d) of
        (Some p, Some q, Some r, Some s) \<Rightarrow>
          (let n = ((p * 16 + q) * 16 + r) * 16 + s in
           if n < 256 then Some (char_of n, rest) else None)
      | _ \<Rightarrow> None)"
| "hex4 _ = None"

lemma hex4_length: "hex4 s = Some (c, rest) \<Longrightarrow> length rest < length s"
  by (induction s rule: hex4.induct) (auto simp: Let_def split: option.splits if_splits)

text \<open>Reading a string after its opening quote: the text and what follows the closing quote.\<close>

function read_chars :: "string \<Rightarrow> (string \<times> string) option" where
  "read_chars [] = None"
| "read_chars (c # cs) =
     (if c = quote_char then Some ([], cs)
      else if c = backslash
      then (case cs of
              [] \<Rightarrow> None
            | d # ds \<Rightarrow>
                (if d = CHR ''u''
                 then (case hex4 ds of None \<Rightarrow> None
                       | Some (x, rest) \<Rightarrow> map_option (apfst (Cons x)) (read_chars rest))
                 else (case map_of ((CHR ''/'', CHR ''/'') # json_escapes) d of None \<Rightarrow> None
                       | Some x \<Rightarrow> map_option (apfst (Cons x)) (read_chars ds))))
      else if (of_char c :: nat) < 32 then None
      else map_option (apfst (Cons c)) (read_chars cs))"
  by pat_completeness auto
termination
  by (relation "measure length") (auto dest: hex4_length)

section \<open>Integers as text\<close>

fun show_nat :: "nat \<Rightarrow> string" where
  "show_nat n = (if n < 10 then [char_of (48 + n)] else show_nat (n div 10) @ [char_of (48 + n mod 10)])"

declare show_nat.simps [simp del]

definition show_int :: "int \<Rightarrow> string" where
  "show_int i = (if i < 0 then CHR ''-'' # show_nat (nat (- i)) else show_nat (nat i))"

text \<open>\<open>BigInt(text)\<close>: white space around, an empty text is zero, a sign only for decimals.\<close>

definition is_blank :: "char \<Rightarrow> bool" where
  "is_blank c \<longleftrightarrow> c \<in> {CHR '' '', CHR 0x09, CHR 0x0A, CHR 0x0B, CHR 0x0C, CHR 0x0D, CHR 0xA0}"

definition trim :: "string \<Rightarrow> string" where
  "trim s = rev (dropWhile is_blank (rev (dropWhile is_blank s)))"

fun digits_value :: "nat \<Rightarrow> nat \<Rightarrow> string \<Rightarrow> nat option" where
  "digits_value base acc [] = Some acc"
| "digits_value base acc (c # cs) =
     (case hex_value c of None \<Rightarrow> None
      | Some d \<Rightarrow> if d < base then digits_value base (acc * base + d) cs else None)"

definition nonempty_digits :: "nat \<Rightarrow> string \<Rightarrow> nat option" where
  "nonempty_digits base s = (if s = [] then None else digits_value base 0 s)"

definition bigint_of :: "string \<Rightarrow> int option" where
  "bigint_of text =
     (let s = trim text in
      case s of
        [] \<Rightarrow> Some 0
      | [c] \<Rightarrow> map_option int (nonempty_digits 10 [c])
      | c # d # rest \<Rightarrow>
          if c = CHR ''0'' \<and> d \<in> {CHR ''x'', CHR ''X''} then map_option int (nonempty_digits 16 rest)
          else if c = CHR ''0'' \<and> d \<in> {CHR ''o'', CHR ''O''} then map_option int (nonempty_digits 8 rest)
          else if c = CHR ''0'' \<and> d \<in> {CHR ''b'', CHR ''B''} then map_option int (nonempty_digits 2 rest)
          else if c = CHR ''-'' then map_option (\<lambda>n. - int n) (nonempty_digits 10 (d # rest))
          else if c = CHR ''+'' then map_option int (nonempty_digits 10 (d # rest))
          else map_option int (nonempty_digits 10 s))"

section \<open>The keys\<close>

text \<open>\<open>JSON.stringify([a, b])\<close> and its inverse on what it makes.\<close>

definition json_pair :: "string \<Rightarrow> string \<Rightarrow> string" where
  "json_pair a b = CHR ''['' # json_string a @ CHR '','' # json_string b @ [CHR '']'']"

definition parse_json_pair :: "string \<Rightarrow> error + (string \<times> string)" where
  "parse_json_pair s =
     (case s of
        o1 # q1 # rest \<Rightarrow>
          if o1 = CHR ''['' \<and> q1 = quote_char
          then (case read_chars rest of
                  Some (a, c # q2 # rest2) \<Rightarrow>
                    if c = CHR '','' \<and> q2 = quote_char
                    then (case read_chars rest2 of
                            Some (b, [e]) \<Rightarrow> if e = CHR '']'' then Inr (a, b) else Inl JsonSyntax
                          | _ \<Rightarrow> Inl JsonSyntax)
                    else Inl JsonSyntax
                | _ \<Rightarrow> Inl JsonSyntax)
          else Inl JsonSyntax
      | _ \<Rightarrow> Inl JsonSyntax)"

definition makeMintedEarlyKey :: "noble_address \<Rightarrow> int \<Rightarrow> string" where
  "makeMintedEarlyKey addr amt = ''pendingTx:'' @ json_pair addr (show_int amt)"

definition parseMintedEarlyKey :: "string \<Rightarrow> error + (noble_address \<times> int)" where
  "parseMintedEarlyKey key =
     (let parts = split_on CHR '':'' key in
      if length parts < 2 then Inl JsonSyntax
      else bindr (parse_json_pair (parts ! 1)) (\<lambda>(address, amt).
           case bigint_of amt of None \<Rightarrow> Inl NotABigInt | Some n \<Rightarrow> Inr (address, n)))"

section \<open>Round trips\<close>

lemma quote_neq [simp]: "quote_char \<noteq> backslash" "backslash \<noteq> quote_char"
  by (simp_all add: quote_char_def backslash_def)

lemma hex_value_digit: "n < 16 \<Longrightarrow> hex_value (hex_digit n) = Some n"
  by (simp add: hex_value_def hex_digit_def Let_def)

lemma hex_value_zero: "hex_value CHR ''0'' = Some 0"
  by (simp add: hex_value_def)

lemma read_chars_escape:
  "map_of ((CHR ''/'', CHR ''/'') # json_escapes) l = Some x \<Longrightarrow> l \<noteq> CHR ''u'' \<Longrightarrow>
     read_chars (backslash # l # rest) = map_option (apfst (Cons x)) (read_chars rest)"
  by (subst read_chars.simps) (simp add: quote_char_def backslash_def)

lemma escape_inverse:
  "map_of (map prod.swap json_escapes) c = Some l \<Longrightarrow>
     map_of ((CHR ''/'', CHR ''/'') # json_escapes) l = Some c \<and> l \<noteq> CHR ''u''"
  by (auto simp: json_escapes_def quote_char_def backslash_def split: if_splits)

lemma read_json_char:
  "read_chars (json_char c @ rest) = map_option (apfst (Cons c)) (read_chars rest)"
proof (cases "map_of (map prod.swap json_escapes) c")
  case (Some l)
  with escape_inverse [OF Some] show ?thesis by (simp add: json_char_def read_chars_escape del: map_of.simps)
next
  case None
  let ?n = "of_char c :: nat"
  have ne: "c \<noteq> quote_char" "c \<noteq> backslash"
    using None by (auto simp: json_escapes_def split: if_splits)
  show ?thesis
  proof (cases "?n < 32")
    case True
    then have h: "?n div 16 < 16" "?n mod 16 < 16" and n: "?n div 16 * 16 + ?n mod 16 = ?n" "?n < 256" by simp_all
    have "hex4 (CHR ''0'' # CHR ''0'' # hex_digit (?n div 16) # hex_digit (?n mod 16) # rest) = Some (c, rest)"
      using n by (simp add: hex_value_digit [OF h(1)] hex_value_digit [OF h(2)] hex_value_zero Let_def)
    with None True show ?thesis
      by (simp add: json_char_def Let_def del: hex4.simps)
  next
    case False
    with None ne show ?thesis by (simp add: json_char_def Let_def)
  qed
qed

lemma read_json_string: "read_chars (concat (map json_char s) @ quote_char # rest) = Some (s, rest)"
  by (induction s) (auto simp: read_json_char)

lemma parse_json_pair: "parse_json_pair (json_pair a b) = Inr (a, b)"
  by (simp add: parse_json_pair_def json_pair_def json_string_def read_json_string)

lemma digits_value_append:
  "digits_value base acc (xs @ ys) =
     (case digits_value base acc xs of None \<Rightarrow> None | Some n \<Rightarrow> digits_value base n ys)"
  by (induction base acc xs rule: digits_value.induct) (auto split: option.splits)

lemma hex_value_dec: "n < 10 \<Longrightarrow> hex_value (char_of (48 + n)) = Some n"
  by (simp add: hex_value_def Let_def)

lemma digits_show_nat: "digits_value 10 0 (show_nat n) = Some n"
proof (induction n rule: show_nat.induct)
  case (1 n)
  show ?case
  proof (cases "n < 10")
    case True
    then show ?thesis by (subst show_nat.simps) (simp add: hex_value_dec)
  next
    case False
    with 1 have "digits_value 10 0 (show_nat (n div 10)) = Some (n div 10)" by simp
    with False show ?thesis
      by (subst show_nat.simps) (simp add: digits_value_append hex_value_dec)
  qed
qed

lemma show_nat_digits: "c \<in> set (show_nat n) \<Longrightarrow> 48 \<le> (of_char c :: nat) \<and> (of_char c :: nat) \<le> 57"
proof (induction n rule: show_nat.induct)
  case (1 n)
  then show ?case by (subst (asm) (2) show_nat.simps) (auto split: if_splits)
qed

lemma show_nat_ne: "show_nat n \<noteq> []"
  by (subst show_nat.simps) simp

lemma digit_not_blank: "48 \<le> (of_char c :: nat) \<Longrightarrow> (of_char c :: nat) \<le> 57 \<Longrightarrow> \<not> is_blank c"
  by (auto simp: is_blank_def)

lemma dropWhile_hd: "s \<noteq> [] \<Longrightarrow> \<not> p (hd s) \<Longrightarrow> dropWhile p s = s"
  by (cases s) auto

lemma trim_id: "\<forall>c \<in> set s. \<not> is_blank c \<Longrightarrow> trim s = s"
  by (cases "s = []") (simp_all add: trim_def dropWhile_hd hd_rev)

lemma show_nat_nonblank: "\<forall>c \<in> set (show_nat n). \<not> is_blank c"
proof
  fix c assume "c \<in> set (show_nat n)"
  then show "\<not> is_blank c" using show_nat_digits [of c n] by (intro digit_not_blank) simp_all
qed

lemma bigint_nat: "bigint_of (show_nat n) = Some (int n)"
proof -
  have t: "trim (show_nat n) = show_nat n" by (rule trim_id [OF show_nat_nonblank])
  obtain c cs where s: "show_nat n = c # cs" using show_nat_ne [of n] by (cases "show_nat n") auto
  have d: "nonempty_digits 10 (show_nat n) = Some n"
    by (simp add: nonempty_digits_def digits_show_nat show_nat_ne)
  have c: "48 \<le> (of_char c :: nat)" "(of_char c :: nat) \<le> 57"
    using show_nat_digits [of c n] s by simp_all
  show ?thesis
  proof (cases cs)
    case Nil
    with t s d show ?thesis by (simp add: bigint_of_def)
  next
    case (Cons x xs)
    have x: "48 \<le> (of_char x :: nat)" "(of_char x :: nat) \<le> 57"
      using show_nat_digits [of x n] s Cons by simp_all
    have "c \<noteq> CHR ''-''" "c \<noteq> CHR ''+''"
      "x \<notin> {CHR ''x'', CHR ''X''}" "x \<notin> {CHR ''o'', CHR ''O''}" "x \<notin> {CHR ''b'', CHR ''B''}"
      using c x by auto
    with t s d Cons show ?thesis by (simp add: bigint_of_def)
  qed
qed

lemma bigint_show: "bigint_of (show_int i) = Some i"
proof (cases "i < 0")
  case True
  have "trim (CHR ''-'' # show_nat (nat (- i))) = CHR ''-'' # show_nat (nat (- i))"
    using show_nat_nonblank by (intro trim_id) (auto simp: is_blank_def)
  moreover obtain c cs where "show_nat (nat (- i)) = c # cs"
    using show_nat_ne by (cases "show_nat (nat (- i))") auto
  moreover have "nonempty_digits 10 (show_nat (nat (- i))) = Some (nat (- i))"
    by (simp add: nonempty_digits_def digits_show_nat show_nat_ne)
  ultimately show ?thesis using True by (simp add: bigint_of_def show_int_def)
qed (simp add: show_int_def bigint_nat)

lemma hex_digit_not_colon: "n < 16 \<Longrightarrow> hex_digit n \<noteq> CHR '':''"
proof
  assume "n < 16" "hex_digit n = CHR '':''"
  then have "of_char (hex_digit n) = (58 :: nat)" by simp
  with \<open>n < 16\<close> show False by (simp add: hex_digit_def split: if_splits)
qed

lemma json_char_colon: "CHR '':'' \<in> set (json_char c) \<Longrightarrow> c = CHR '':''"
proof (cases "map_of (map prod.swap json_escapes) c")
  case (Some l)
  assume "CHR '':'' \<in> set (json_char c)"
  with Some have "l = CHR '':''" by (simp add: json_char_def backslash_def)
  with Some show ?thesis
    by (auto simp: json_escapes_def quote_char_def backslash_def split: if_splits)
next
  case None
  assume c: "CHR '':'' \<in> set (json_char c)"
  let ?n = "of_char c :: nat"
  show ?thesis
  proof (cases "?n < 32")
    case True
    then have "?n div 16 < 16" "?n mod 16 < 16" by simp_all
    then have "hex_digit (?n div 16) \<noteq> CHR '':''" "hex_digit (?n mod 16) \<noteq> CHR '':''"
      by (simp_all only: hex_digit_not_colon not_False_eq_True)
    with c None True show ?thesis by (auto simp: json_char_def Let_def backslash_def)
  next
    case False
    with c None show ?thesis by (simp add: json_char_def Let_def)
  qed
qed

lemma json_string_colon: "CHR '':'' \<notin> set s \<Longrightarrow> CHR '':'' \<notin> set (json_string s)"
  by (auto simp: json_string_def quote_char_def dest: json_char_colon)

lemma show_int_colon: "CHR '':'' \<notin> set (show_int i)"
  using show_nat_digits [of "CHR '':''"] by (auto simp: show_int_def)

text \<open>a key tells the address and the amount it was made of apart from every other, and
  as long as the address has no colon it is parsed back to them.\<close>

theorem minted_early_key_round_trip:
  assumes "CHR '':'' \<notin> set addr"
  shows "parseMintedEarlyKey (makeMintedEarlyKey addr amt) = Inr (addr, amt)"
proof -
  have nc: "CHR '':'' \<notin> set (json_pair addr (show_int amt))"
    using json_string_colon [OF assms] json_string_colon [OF show_int_colon [of amt]]
    by (simp add: json_pair_def)
  have "split_on CHR '':'' (makeMintedEarlyKey addr amt) = [''pendingTx'', json_pair addr (show_int amt)]"
    using split_on_append [of "CHR '':''" "''pendingTx''" "json_pair addr (show_int amt)"]
      split_on_single [OF nc] by (simp add: makeMintedEarlyKey_def)
  then show ?thesis by (simp add: parseMintedEarlyKey_def parse_json_pair bigint_show)
qed

theorem minted_early_key_round_trip_witness:
  "parseMintedEarlyKey (makeMintedEarlyKey ''noble1a'' 150) = Inr (''noble1a'', 150)"
  by (rule minted_early_key_round_trip) simp

text \<open>Keys are distinct for distinct mints, whatever the address.\<close>

lemma makeMintedEarlyKey_inject:
  "makeMintedEarlyKey a m = makeMintedEarlyKey b n \<longleftrightarrow> a = b \<and> m = n"
proof
  assume "makeMintedEarlyKey a m = makeMintedEarlyKey b n"
  then have "json_pair a (show_int m) = json_pair b (show_int n)" by (simp add: makeMintedEarlyKey_def)
  then have "(a, show_int m) = (b, show_int n)"
    by (metis parse_json_pair sum.inject(2))
  then show "a = b \<and> m = n" using bigint_show by (metis option.inject prod.inject)
qed simp

end
