(* ===== verification/ChainHub.thy ===== *)
theory ChainHub
  imports Types
begin

text \<open>
  What the contract asks of the chain hub (\<open>packages/orchestration/src/exos/chain-hub.js\<close>,
  \<open>utils/address.js\<close>): resolving an address to a CAIP-10 account, and whether a chain is a
  CCTP destination (\<open>fast-usdc-contract/src/utils/cctp.ts\<close>). The registered chains are the
  maps \<open>prefixChain\<close> (bech32 prefix to Cosmos chain id) and \<open>cctpDomain\<close> (CAIP-2 id to
  whether its info has a numeric \<open>cctpDestinationDomain\<close>).
\<close>

record chain_hub =
  prefixChain :: "string \<rightharpoonup> string"
  cctpDomain :: "string \<rightharpoonup> bool"

text \<open>\<open>address.lastIndexOf('1')\<close>: the part before the last \<open>1\<close>.\<close>

definition getBech32Prefix :: "string \<Rightarrow> error + string" where
  "getBech32Prefix address =
     (if address = [] then Inl AssertFailed
      else if CHR ''1'' \<notin> set address then Inl UnknownBech32Prefix
      else let pre = rev (tl (dropWhile (\<lambda>c. c \<noteq> CHR ''1'') (rev address))) in
           if pre = [] then Inl UnknownBech32Prefix else Inr pre)"

definition resolveCosmosChainId :: "chain_hub \<Rightarrow> string \<Rightarrow> error + string" where
  "resolveCosmosChainId hub address =
     bindr (getBech32Prefix address) (\<lambda>pre.
       case prefixChain hub pre of None \<Rightarrow> Inl UnknownBech32Prefix | Some cid \<Rightarrow> Inr cid)"

definition resolveAccountId :: "chain_hub \<Rightarrow> string \<Rightarrow> error + account_id" where
  "resolveAccountId hub partialId =
     (if length (split_on CHR '':'' partialId) = 3 then Inr partialId
      else bindr (resolveCosmosChainId hub partialId) (\<lambda>cid.
        Inr (''cosmos:'' @ cid @ '':'' @ partialId)))"

definition supportsCctp :: "chain_hub \<Rightarrow> account_id \<Rightarrow> error + bool" where
  "supportsCctp hub dest =
     bindr (parseAccountId dest) (\<lambda>p.
       if namespace p \<noteq> ''eip155'' then Inr False
       else Inr (case cctpDomain hub (namespace p @ '':'' @ reference p) of None \<Rightarrow> False | Some b \<Rightarrow> b))"

lemma length3_parse: "length (split_on CHR '':'' s) = 3 \<Longrightarrow> \<exists>p. parseAccountId s = Inr p"
  by (auto simp: parseAccountId_def numeral_3_eq_3 length_Suc_conv)

text \<open>A resolved account is a CAIP-10 identifier when the chain ids and the address have no colon.\<close>

lemma resolveAccountId_parses:
  assumes "resolveAccountId hub s = Inr a" "\<And>p c. prefixChain hub p = Some c \<Longrightarrow> CHR '':'' \<notin> set c"
    "length (split_on CHR '':'' s) \<in> {1, 3}"
  shows "\<exists>p. parseAccountId a = Inr p"
proof (cases "length (split_on CHR '':'' s) = 3")
  case True
  with assms(1) show ?thesis by (simp add: resolveAccountId_def length3_parse)
next
  case False
  with assms(1) obtain c where c: "resolveCosmosChainId hub s = Inr c" "a = ''cosmos:'' @ c @ '':'' @ s"
    by (auto simp: resolveAccountId_def bindr_Inr_iff)
  then have nc: "CHR '':'' \<notin> set c"
    using assms(2) by (auto simp: resolveCosmosChainId_def bindr_Inr_iff split: option.splits)
  have "length (split_on CHR '':'' s) = 1" using False assms(3) by simp
  then have "CHR '':'' \<notin> set s"
    by (metis One_nat_def length_Cons length_0_conv split_on_append split_list list.size(3) nat.inject
        split_on_neq_Nil zero_neq_one split_list_first)
  with nc parseAccountId_join [of "''cosmos''" c s] show ?thesis by (simp add: c(2))
qed

end
