(* ===== verification/Settler.thy ===== *)
theory Settler
  imports StatusMachine LiquidityPool MintedEarlyKey ChainHub
begin

text \<open>
  The settler exo (\<open>exos/settler.ts\<close>): it is told of every transfer into the settlement
  account, matches it with the pending transactions, and disburses to the pool, forwards to
  the payee or remembers an early mint. Asynchronous calls are split where they await:
  \<open>disburse\<close> up to the withdrawal it waits for is \<open>disburse\<close> here, the rest is
  \<open>disburseResumed\<close>; a started \<open>forwardFunds\<close> flow is recorded by the status manager's part
  of the state.
\<close>

section \<open>State and powers\<close>

record pending_disburse =
  settlingSeat :: seat_id
  dbTxHash :: evm_hash
  received :: int
  dbSplit :: repay_split

record settler_state =
  sm :: sm_state
  pool :: pool_state
  mintedEarly :: "string bag"
  disbursing :: "pending_disburse list"

text \<open>
  \<open>decodeHook\<close> stands for \<open>decodeAddressHook\<close> (bech32 decoding from a third-party package)
  followed by the shape check: the base address and the EUD of the query.
\<close>

record settler_powers =
  rh :: route_health
  fees :: fee_config
  hub :: chain_hub
  sourceChannel :: string
  remoteDenom :: string
  decodeHook :: "string \<Rightarrow> (string \<times> string) option"

record ft_packet_data =
  ftDenom :: string
  ftAmount :: string
  ftSender :: string
  ftReceiver :: string

text \<open>A packet with the JSON object its data encodes, none when it cannot be parsed.\<close>

record ibc_packet =
  source_channel :: string
  destination_channel :: string
  packetData :: "ft_packet_data option"

definition onSm :: "(sm_state, 'a) proc \<Rightarrow> (settler_state, 'a) proc" where
  "onSm m = zoomp sm (\<lambda>x s. s\<lparr>sm := x\<rparr>) m"

definition onPool :: "(pool_state, 'a) proc \<Rightarrow> (settler_state, 'a) proc" where
  "onPool m = zoomp pool (\<lambda>x s. s\<lparr>pool := x\<rparr>) m"

text \<open>\<open>void self.m()\<close> of an async method: a rejection is not seen by the caller.\<close>

definition voidp :: "('s, unit) proc \<Rightarrow> ('s, unit) proc" where
  "voidp m = catchp m (\<lambda>_. ret ())"

section \<open>decodeEventPacket\<close>

definition decodeEventPacket ::
  "settler_powers \<Rightarrow> ibc_packet \<Rightarrow> (noble_address \<times> int \<times> string) option" where
  "decodeEventPacket pw packet =
     (case packetData packet of
        None \<Rightarrow> None
      | Some t \<Rightarrow>
          if ftDenom t \<noteq> remoteDenom pw then None
          else (case decodeHook pw (ftReceiver t) of
                  None \<Rightarrow> None
                | Some (_, eud) \<Rightarrow>
                    (case bigint_of (ftAmount t) of
                       None \<Rightarrow> None
                     | Some a \<Rightarrow> Some (ftSender t, a, eud))))"

section \<open>self\<close>

definition bagp :: "(string bag \<Rightarrow> error + string bag) \<Rightarrow> (settler_state, unit) proc" where
  "bagp f = bindp (getsp (\<lambda>s. f (mintedEarly s))) (\<lambda>r.
     bindp (liftp r) (\<lambda>b. modifyp (\<lambda>s. s\<lparr>mintedEarly := b\<rparr>)))"

definition addMintedEarly :: "noble_address \<Rightarrow> int \<Rightarrow> (settler_state, unit) proc" where
  "addMintedEarly address a = bagp (\<lambda>b. bag_add b (makeMintedEarlyKey address a) 1)"

definition disburse :: "settler_powers \<Rightarrow> evm_hash \<Rightarrow> int \<Rightarrow> string \<Rightarrow> (settler_state, unit) proc" where
  "disburse pw h rcv eud =
     bindp (onPool (onZcf makeEmptySeatKit)) (\<lambda>seat.
     bindp (liftp (resolveAccountId (hub pw) eud)) (\<lambda>accountId.
     bindp (liftp (calculateSplit (fees pw) rcv accountId)) (\<lambda>split.
       modifyp (\<lambda>s. s\<lparr>disbursing := disbursing s @
         [\<lparr>settlingSeat = seat, dbTxHash = h, received = rcv, dbSplit = split\<rparr>]\<rparr>))))"

text \<open>
  The rest of \<open>disburse\<close> once the withdrawal settled. A successful one has put the amount on
  the settling seat under the keyword \<open>In\<close>.
\<close>

definition withdrawn :: "seat_id \<Rightarrow> int \<Rightarrow> (settler_state, unit) proc" where
  "withdrawn seat a = onPool (onZcf (modifyp (set_alloc seat [(''In'', a)])))"

definition disburseResumed :: "pending_disburse \<Rightarrow> bool \<Rightarrow> (settler_state, unit) proc" where
  "disburseResumed d ok =
     thenp (modifyp (\<lambda>s. s\<lparr>disbursing := remove1 d (disbursing s)\<rparr>))
    (if \<not> ok then ret ()
     else
       thenp (withdrawn (settlingSeat d) (received d))
      (thenp (onPool (repay (fromOnly (settlingSeat d) [(''In'', received d)]) (dbSplit d)))
      (thenp (onPool (onZcf (seatExit (settlingSeat d))))
             (onSm (disbursed (dbTxHash d) (dbSplit d))))))"

definition forward :: "settler_powers \<Rightarrow> evm_hash \<Rightarrow> int \<Rightarrow> string \<Rightarrow> (settler_state, unit) proc" where
  "forward pw h fullValue eud =
     (case resolveAccountId (hub pw) eud of
        Inl _ \<Rightarrow> onSm (forwardSkipped h)
      | Inr dest \<Rightarrow>
          if dest = [] then ret ()
          else onSm (modifyp (startForward
                 \<lparr>fwDestination = dest, fwAmount = fullValue, fwTxHash = h, fundsInNobleIca = None, fwChainId = None\<rparr>)))"

section \<open>tap\<close>

definition settleFound :: "settler_powers \<Rightarrow> noble_address \<Rightarrow> string \<Rightarrow> pending_tx \<Rightarrow> (settler_state, unit) proc" where
  "settleFound pw nfa eud found =
     (case status found of
        Advanced \<Rightarrow> voidp (disburse pw (txHash found) (tx_amount found) eud)
      | Advancing \<Rightarrow> addMintedEarly nfa (tx_amount found)
      | AdvanceSkipped \<Rightarrow> forward pw (txHash found) (tx_amount found) eud
      | AdvanceFailed \<Rightarrow> forward pw (txHash found) (tx_amount found) eud)"

definition receiveUpcall :: "settler_powers \<Rightarrow> ibc_packet \<Rightarrow> (settler_state, unit) proc" where
  "receiveUpcall pw packet =
     (if source_channel packet \<noteq> sourceChannel pw then ret ()
      else case decodeEventPacket pw packet of
             None \<Rightarrow> ret ()
           | Some (nfa, a, eud) \<Rightarrow>
               bindp (onSm (matchSettlement nfa a)) (\<lambda>dequeued.
                 if dequeued = []
                 then thenp (requirep (0 \<le> a) NotANat) (addMintedEarly nfa a)
                 else for_eachp dequeued (settleFound pw nfa eud)))"

section \<open>notifier\<close>

definition removeMintedEarly :: "string \<Rightarrow> (settler_state, unit) proc" where
  "removeMintedEarly key = bagp (\<lambda>b. map_sum id snd (bag_remove b key 1))"

definition notifyAdvancingResult ::
  "settler_powers \<Rightarrow> evm_hash \<Rightarrow> noble_address \<Rightarrow> int \<Rightarrow> account_id_arg \<Rightarrow> bool \<Rightarrow> (settler_state, unit) proc" where
  "notifyAdvancingResult pw h nfa fullValue destArg success =
     (let key = makeMintedEarlyKey nfa fullValue;
          destination = coerceAccountId destArg in
      bindp (getsp (\<lambda>s. store_has (mintedEarly s) key)) (\<lambda>early.
        if early
        then thenp (removeMintedEarly key)
            (thenp (onSm (advanceOutcomeForMintedEarly (rh pw) h success None))
            (if success then voidp (disburse pw h fullValue destination)
             else forward pw h fullValue destination))
        else onSm (advanceOutcome (rh pw) nfa fullValue success (Some destination))))"

definition checkMintedEarly :: "settler_powers \<Rightarrow> evidence \<Rightarrow> account_id \<Rightarrow> (settler_state, bool) proc" where
  "checkMintedEarly pw ev destination =
     (let key = makeMintedEarlyKey (tx_nfa ev) (tx_amount ev) in
      bindp (getsp (\<lambda>s. store_has (mintedEarly s) key)) (\<lambda>early.
        if early
        then thenp (removeMintedEarly key)
            (thenp (onSm (advanceOutcomeForUnknownMint ev))
            (thenp (forward pw (txHash ev) (tx_amount ev) destination) (ret True)))
        else ret False))"

section \<open>creator\<close>

definition remediateOnce :: "settler_powers \<Rightarrow> string \<Rightarrow> noble_address \<Rightarrow> int \<Rightarrow> (settler_state, unit) proc" where
  "remediateOnce pw key address a =
     bindp (onSm (matchSettlement address a)) (\<lambda>pendingTxs.
     thenp (for_eachp pendingTxs (\<lambda>p. voidp (disburse pw (txHash p) (tx_amount p) (recipientAddress (aux p)))))
           (bagp (\<lambda>b. store_delete b key)))"

definition remediateEntry :: "settler_powers \<Rightarrow> int \<Rightarrow> string \<times> int \<Rightarrow> (settler_state, unit) proc" where
  "remediateEntry pw minUusdc e =
     (case e of (key, cnt) \<Rightarrow>
        bindp (liftp (parseMintedEarlyKey key)) (\<lambda>(address, a).
          if a < minUusdc then ret ()
          else bindp (getsp (\<lambda>s. lookupPending (sm s) address a)) (\<lambda>allPending.
            if \<exists>p \<in> set allPending. status p \<noteq> Advanced then ret ()
            else for_eachp (replicate (nat cnt) ()) (\<lambda>_. remediateOnce pw key address a))))"

definition remediateMintedEarly :: "settler_powers \<Rightarrow> int \<Rightarrow> (settler_state, unit) proc" where
  "remediateMintedEarly pw minUusdc =
     bindp (getsp (\<lambda>s. bag_entries (mintedEarly s))) (\<lambda>batches. for_eachp batches (remediateEntry pw minUusdc))"

section \<open>Handlers of vows made before the forwarding flow\<close>

definition transferHandler :: "settler_powers \<Rightarrow> bool \<Rightarrow> evm_hash \<Rightarrow> (settler_state, unit) proc" where
  "transferHandler pw fulfilled h =
     (if fulfilled then onSm (forwarded (rh pw) h None) else onSm (forwardFailed (rh pw) h None))"

text \<open>The \<open>depositForBurn\<close> started for a fulfilled intermediate transfer is returned.\<close>

definition intermediateTransferHandler ::
  "settler_powers \<Rightarrow> bool \<Rightarrow> int \<Rightarrow> account_id \<Rightarrow> evm_hash \<Rightarrow> (settler_state, (account_id \<times> int \<times> evm_hash) option) proc" where
  "intermediateTransferHandler pw fulfilled a dest h =
     (if fulfilled then ret (Some (dest, a, h))
      else thenp (onSm (forwardFailed (rh pw) h None)) (ret None))"

definition depositForBurnHandler :: "settler_powers \<Rightarrow> bool \<Rightarrow> evm_hash \<Rightarrow> (settler_state, unit) proc" where
  "depositForBurnHandler pw fulfilled h =
     (if fulfilled then onSm (forwarded (rh pw) h None) else onSm (forwardFailed (rh pw) h None))"

end
