(* ===== verification/Flows.thy ===== *)
theory Flows
  imports Settler
begin

text \<open>
  The two orchestration flows of \<open>fast-usdc.flows.ts\<close>, \<open>forwardFunds\<close> and \<open>advanceFunds\<close>.
  Each is cut where it awaits: the part up to the next await is one definition, the run that
  is waiting is kept in the state with the place it waits at, and \<open>resumeForward\<close> and
  \<open>resumeAdvance\<close> are what runs when the awaited call settles (\<open>ok\<close>: whether it was
  fulfilled). The calls made to the orchestration accounts are logged in order.
\<close>

section \<open>State and powers\<close>

datatype account_call =
    SettlementSend account_id int
  | SettlementTransfer account_id int
  | SettlementToNoble int
  | NobleBurn account_id int
  | PoolSend account_id int
  | PoolTransfer account_id int
  | PoolToNoble int
  | NobleToPool int
  | PoolWithdraw seat_id int

datatype forward_await = AwaitCompletion | AwaitIntermediate | AwaitBurn

record forward_run =
  fwdTx :: forward_failed_tx
  fwdAwait :: forward_await

datatype advance_await =
    AwaitDeposit
  | AwaitTransfer
  | AwaitToNoble
  | AwaitAdvanceBurn
  | AwaitReturnFromNoble
  | AwaitWithdraw seat_id

record advance_run =
  advTxHash :: evm_hash
  advNfa :: noble_address
  fullAmount :: int
  advDestination :: account_id
  advanceAmount :: int
  tmpSeat :: seat_id
  advAwait :: advance_await

record flow_state =
  core :: settler_state
  accountCalls :: "account_call list"
  nobleICA :: "string option"
  forwardRuns :: "forward_run list"
  advanceRuns :: "advance_run list"
  startedAdvances :: "evidence_with_risk list"

text \<open>\<open>messageOf\<close> is the message of an error, published as a risk.\<close>

record flow_powers =
  settlerPw :: settler_powers
  currentChainReference :: string
  settlementAddress :: string
  settlementChainId :: string
  messageOf :: "error \<Rightarrow> string"

definition onCore :: "(settler_state, 'a) proc \<Rightarrow> (flow_state, 'a) proc" where
  "onCore m = zoomp core (\<lambda>x s. s\<lparr>core := x\<rparr>) m"

abbreviation smCall :: "(sm_state, 'a) proc \<Rightarrow> (flow_state, 'a) proc" where
  "smCall m \<equiv> onCore (onSm m)"

abbreviation poolCall :: "(pool_state, 'a) proc \<Rightarrow> (flow_state, 'a) proc" where
  "poolCall m \<equiv> onCore (onPool m)"

abbreviation routes :: "flow_powers \<Rightarrow> route_health" where
  "routes pw \<equiv> rh (settlerPw pw)"

definition callAccount :: "account_call \<Rightarrow> (flow_state, unit) proc" where
  "callAccount c = modifyp (\<lambda>s. s\<lparr>accountCalls := accountCalls s @ [c]\<rparr>)"

text \<open>\<open>baggage.get(NOBLE_ICA_BAGGAGE_KEY)\<close>, which throws until \<open>connectToNoble\<close> was called.\<close>

definition getNobleICA :: "(flow_state, string) proc" where
  "getNobleICA = bindp (getsp nobleICA) (\<lambda>a. case a of None \<Rightarrow> throw KeyNotFound | Some x \<Rightarrow> ret x)"

section \<open>forwardFunds\<close>

definition awaitForward :: "forward_failed_tx \<Rightarrow> forward_await \<Rightarrow> (flow_state, unit) proc" where
  "awaitForward t w = modifyp (\<lambda>s. s\<lparr>forwardRuns := forwardRuns s @ [\<lparr>fwdTx = t, fwdAwait = w\<rparr>]\<rparr>)"

definition reportFailed :: "flow_powers \<Rightarrow> forward_failed_tx \<Rightarrow> bool option \<Rightarrow> (flow_state, unit) proc" where
  "reportFailed pw t inIca =
     smCall (forwardFailed (routes pw) (fwTxHash t) (Some (t\<lparr>fundsInNobleIca := inIca, fwChainId := None\<rparr>)))"

definition forwardFunds :: "flow_powers \<Rightarrow> forward_failed_tx \<Rightarrow> (flow_state, unit) proc" where
  "forwardFunds pw t =
     (let destination = fwDestination t; h = fwTxHash t; a = fwAmount t in
      bindp (liftp (parseAccountId destination)) (\<lambda>p.
      bindp getNobleICA (\<lambda>_.
        if namespace p = ''cosmos''
        then thenp (callAccount (if reference p = currentChainReference pw
                                 then SettlementSend destination a else SettlementTransfer destination a))
                   (catchp (thenp (smCall (forwarding h)) (awaitForward t AwaitCompletion))
                           (\<lambda>_. reportFailed pw t None))
        else bindp (liftp (supportsCctp (hub (settlerPw pw)) destination)) (\<lambda>cctp.
          if cctp
          then catchp (thenp (smCall (forwarding h))
                      (thenp (callAccount (SettlementToNoble a)) (awaitForward t AwaitIntermediate)))
                      (\<lambda>_. reportFailed pw t None)
          else smCall (forwardSkipped h)))))"

definition resumeForward :: "flow_powers \<Rightarrow> forward_run \<Rightarrow> bool \<Rightarrow> (flow_state, unit) proc" where
  "resumeForward pw run ok =
     (let t = fwdTx run; h = fwTxHash t in
      thenp (modifyp (\<lambda>s. s\<lparr>forwardRuns := remove1 run (forwardRuns s)\<rparr>))
        (case fwdAwait run of
           AwaitCompletion \<Rightarrow>
             (if ok
              then catchp (smCall (forwarded (routes pw) h (Some (t\<lparr>fundsInNobleIca := None, fwChainId := None\<rparr>))))
                          (\<lambda>_. reportFailed pw t None)
              else reportFailed pw t None)
         | AwaitIntermediate \<Rightarrow>
             (if ok
              then catchp (bindp getNobleICA (\<lambda>_.
                             thenp (callAccount (NobleBurn (fwDestination t) (fwAmount t))) (awaitForward t AwaitBurn)))
                          (\<lambda>_. reportFailed pw t (Some True))
              else reportFailed pw t None)
         | AwaitBurn \<Rightarrow>
             (if ok
              then catchp (smCall (forwarded (routes pw) h None)) (\<lambda>_. reportFailed pw t (Some True))
              else reportFailed pw t (Some True))))"

text \<open>A started flow begins to run; its result is not observed.\<close>

definition runForward :: "flow_powers \<Rightarrow> forward_failed_tx \<Rightarrow> (flow_state, unit) proc" where
  "runForward pw t =
     thenp (smCall (modifyp (\<lambda>s. s\<lparr>startedForwards := remove1 t (startedForwards s)\<rparr>)))
           (catchp (forwardFunds pw t) (\<lambda>_. ret ()))"

section \<open>advanceFunds\<close>

definition awaitAdvance :: "advance_run \<Rightarrow> advance_await \<Rightarrow> (flow_state, unit) proc" where
  "awaitAdvance r w = modifyp (\<lambda>s. s\<lparr>advanceRuns := advanceRuns s @ [r\<lparr>advAwait := w\<rparr>]\<rparr>)"

definition decodeEud :: "flow_powers \<Rightarrow> string \<Rightarrow> error + string" where
  "decodeEud pw recipient =
     (case decodeHook (settlerPw pw) recipient of
        None \<Rightarrow> Inl BadAddressHook
      | Some (base, eud) \<Rightarrow> if base \<noteq> settlementAddress pw then Inl BadAddressHook else Inr eud)"

definition advanceUnlessMinted :: "flow_powers \<Rightarrow> evidence \<Rightarrow> account_id \<Rightarrow> (flow_state, unit) proc" where
  "advanceUnlessMinted pw ev destination =
     thenp (requirep (0 \<le> tx_amount ev) NotANat)
    (bindp (onCore (checkMintedEarly (settlerPw pw) ev destination)) (\<lambda>minted.
       if minted then ret ()
       else
         bindp (liftp (calculateAdvance (fees (settlerPw pw)) (tx_amount ev) destination)) (\<lambda>adv.
         bindp (poolCall (onZcf makeEmptySeatKit)) (\<lambda>seat.
         thenp (poolCall (borrow seat adv))
        (thenp (smCall (advance ev))
               (awaitAdvance \<lparr>advTxHash = txHash ev, advNfa = tx_nfa ev, fullAmount = tx_amount ev,
                  advDestination = destination, advanceAmount = adv, tmpSeat = seat, advAwait = AwaitDeposit\<rparr>
                  AwaitDeposit))))))"

definition advanceChecks :: "flow_powers \<Rightarrow> evidence \<Rightarrow> string list option \<Rightarrow> (flow_state, unit) proc" where
  "advanceChecks pw ev risks =
     bindp (getsp (\<lambda>s. hasBeenObserved (sm (core s)) ev)) (\<lambda>seen.
       if seen then ret ()
       else if risks \<noteq> None \<and> risks \<noteq> Some [] then smCall (skipAdvance ev (the risks))
       else
         bindp (liftp (decodeEud pw (recipientAddress (aux ev)))) (\<lambda>eud.
         bindp (liftp (resolveAccountId (hub (settlerPw pw)) eud)) (\<lambda>destination.
         bindp (liftp (parseAccountId destination)) (\<lambda>accountId.
         bindp (liftp (if namespace accountId = ''cosmos'' then Inr True
                       else supportsCctp (hub (settlerPw pw)) destination)) (\<lambda>supported.
           if \<not> supported
           then bindp (liftp (chainOfAccount destination)) (\<lambda>destChain.
                  smCall (skipAdvance ev [''Transfer to '' @ destChain @ '' not supported.'']))
           else advanceUnlessMinted pw ev destination)))))"

definition advanceFunds :: "flow_powers \<Rightarrow> evidence_with_risk \<Rightarrow> (flow_state, unit) proc" where
  "advanceFunds pw er =
     catchp (advanceChecks pw (evidence er) (risksIdentified (risk er)))
            (\<lambda>e. smCall (skipAdvance (evidence er) [messageOf pw e]))"

subsection \<open>Its local functions\<close>

definition notifyResult :: "flow_powers \<Rightarrow> advance_run \<Rightarrow> bool \<Rightarrow> (flow_state, unit) proc" where
  "notifyResult pw r success =
     onCore (notifyAdvancingResult (settlerPw pw) (advTxHash r) (advNfa r) (fullAmount r)
       (AccountId (advDestination r)) success)"

definition depositRejected :: "flow_powers \<Rightarrow> advance_run \<Rightarrow> (flow_state, unit) proc" where
  "depositRejected pw r =
     catchp (thenp (notifyResult pw r False)
            (thenp (poolCall (returnToPool (tmpSeat r) (advanceAmount r)))
                   (poolCall (onZcf (seatExit (tmpSeat r))))))
            (\<lambda>_. ret ())"

definition repayPool :: "advance_run \<Rightarrow> (flow_state, unit) proc" where
  "repayPool r =
     bindp (poolCall (onZcf makeEmptySeatKit)) (\<lambda>tmpReturnSeat.
     thenp (callAccount (PoolWithdraw tmpReturnSeat (advanceAmount r)))
           (awaitAdvance r (AwaitWithdraw tmpReturnSeat)))"

definition transferRejected :: "flow_powers \<Rightarrow> advance_run \<Rightarrow> (flow_state, unit) proc" where
  "transferRejected pw r = thenp (notifyResult pw r False) (repayPool r)"

definition withdrawRejected :: "seat_id \<Rightarrow> (flow_state, unit) proc" where
  "withdrawRejected tmpReturnSeat = poolCall (onZcf (seatExit tmpReturnSeat))"

definition cctpFromNobleRejected :: "flow_powers \<Rightarrow> advance_run \<Rightarrow> (flow_state, unit) proc" where
  "cctpFromNobleRejected pw r =
     thenp (notifyResult pw r False)
           (bindp (getsp nobleICA) (\<lambda>ica.
              if ica = None then repayPool r
              else thenp (callAccount (NobleToPool (advanceAmount r))) (awaitAdvance r AwaitReturnFromNoble)))"

text \<open>
  \<open>localTransfer\<close> (zoe-tools) moves the amount from the seat to the pool account; when it
  fails it leaves the seat as it was.
\<close>

definition takenFrom :: "seat_id \<Rightarrow> int \<Rightarrow> zcf_state \<Rightarrow> zcf_state" where
  "takenFrom seat a z =
     (case map_of (activeSeats z) seat of
        None \<Rightarrow> z
      | Some st \<Rightarrow> set_alloc seat (minus_alloc (allocated st) [(''USDC'', a)]) z)"

definition deposited :: "flow_powers \<Rightarrow> advance_run \<Rightarrow> (flow_state, unit) proc" where
  "deposited pw r =
     (let destination = advDestination r; a = advanceAmount r in
      thenp (poolCall (onZcf (seatExit (tmpSeat r))))
     (bindp getNobleICA (\<lambda>_.
      bindp (liftp (parseAccountIdArg (AccountId destination))) (\<lambda>p.
        if namespace p = ''cosmos''
        then thenp (callAccount (if reference p = settlementChainId pw
                                 then PoolSend destination a else PoolTransfer destination a))
                   (awaitAdvance r AwaitTransfer)
        else bindp (liftp (supportsCctp (hub (settlerPw pw)) destination)) (\<lambda>cctp.
          if cctp then thenp (callAccount (PoolToNoble a)) (awaitAdvance r AwaitToNoble)
          else throw AssertFailed)))))"

definition resumeAdvance :: "flow_powers \<Rightarrow> advance_run \<Rightarrow> bool \<Rightarrow> (flow_state, unit) proc" where
  "resumeAdvance pw r ok =
     thenp (modifyp (\<lambda>s. s\<lparr>advanceRuns := remove1 r (advanceRuns s)\<rparr>))
       (case advAwait r of
          AwaitDeposit \<Rightarrow>
            (if ok
             then thenp (poolCall (onZcf (modifyp (takenFrom (tmpSeat r) (advanceAmount r)))))
                        (catchp (deposited pw r) (\<lambda>_. depositRejected pw r))
             else depositRejected pw r)
        | AwaitTransfer \<Rightarrow>
            catchp (if ok then catchp (notifyResult pw r True) (\<lambda>_. transferRejected pw r)
                    else transferRejected pw r)
                   (\<lambda>_. depositRejected pw r)
        | AwaitToNoble \<Rightarrow>
            (if ok
             then catchp (bindp getNobleICA (\<lambda>_.
                            thenp (callAccount (NobleBurn (advDestination r) (advanceAmount r)))
                                  (awaitAdvance r AwaitAdvanceBurn)))
                         (\<lambda>_. depositRejected pw r)
             else transferRejected pw r)
        | AwaitAdvanceBurn \<Rightarrow>
            (if ok then catchp (notifyResult pw r True) (\<lambda>_. depositRejected pw r)
             else cctpFromNobleRejected pw r)
        | AwaitReturnFromNoble \<Rightarrow> repayPool r
        | AwaitWithdraw tmpReturnSeat \<Rightarrow>
            (if ok
             then thenp (poolCall (onZcf (modifyp (set_alloc tmpReturnSeat [(''USDC'', advanceAmount r)]))))
                        (catchp (poolCall (returnToPool tmpReturnSeat (advanceAmount r))) (\<lambda>_. ret ()))
             else withdrawRejected tmpReturnSeat))"

text \<open>\<open>handleTransactionEvent\<close> starts the flow, which begins to run in a later turn.\<close>

definition handleTransactionEvent :: "evidence_with_risk \<Rightarrow> (flow_state, unit) proc" where
  "handleTransactionEvent er = modifyp (\<lambda>s. s\<lparr>startedAdvances := startedAdvances s @ [er]\<rparr>)"

definition runAdvance :: "flow_powers \<Rightarrow> evidence_with_risk \<Rightarrow> (flow_state, unit) proc" where
  "runAdvance pw er =
     thenp (modifyp (\<lambda>s. s\<lparr>startedAdvances := remove1 er (startedAdvances s)\<rparr>))
           (catchp (advanceFunds pw er) (\<lambda>_. ret ()))"

end
