(* ===== verification/SettlerFacts.thy ===== *)
theory SettlerFacts
  imports Settler PoolMachine
begin

text \<open>What the settler does with a mint, an advance's result and a settled withdrawal.\<close>

section \<open>Steps\<close>

lemma onSm_apply [simp]: "onSm m s = (case m (sm s) of (r, x) \<Rightarrow> (r, s\<lparr>sm := x\<rparr>))"
  by (simp add: onSm_def)

lemma onPool_apply [simp]: "onPool m s = (case m (pool s) of (r, x) \<Rightarrow> (r, s\<lparr>pool := x\<rparr>))"
  by (simp add: onPool_def)

lemma voidp_apply [simp]: "voidp m s = (Inr (), snd (m s))"
  by (simp add: voidp_def split: prod.split sum.split)

lemma addMintedEarly_eq:
  "addMintedEarly nfa a s = (Inr (), s\<lparr>mintedEarly := bag_incr (mintedEarly s) (makeMintedEarlyKey nfa a)\<rparr>)"
  by (simp add: addMintedEarly_def bagp_def bag_incr_eq bag_add_Inr)

lemma count_addMintedEarly:
  "bag_count (bag_incr b k) k' = bag_count b k' + (if k' = k then 1 else 0)"
  by (simp add: bag_incr_eq)

definition disburse_entry :: "settler_state \<Rightarrow> evm_hash \<Rightarrow> int \<Rightarrow> repay_split \<Rightarrow> pending_disburse" where
  "disburse_entry s h a sp =
     \<lparr>settlingSeat = nextSeat (zcf (pool s)), dbTxHash = h, received = a, dbSplit = sp\<rparr>"

definition with_seat :: "settler_state \<Rightarrow> settler_state" where
  "with_seat s = s\<lparr>pool := (pool s)\<lparr>zcf := new_seat [] (zcf (pool s))\<rparr>\<rparr>"

lemma with_seat_sel [simp]:
  "sm (with_seat s) = sm s" "mintedEarly (with_seat s) = mintedEarly s" "disbursing (with_seat s) = disbursing s"
  by (simp_all add: with_seat_def)

lemma disburse_eq:
  "disburse pw h a eud s =
     (case bindr (resolveAccountId (hub pw) eud) (calculateSplit (fees pw) a) of
        Inl e \<Rightarrow> (Inl e, with_seat s)
      | Inr sp \<Rightarrow> (Inr (), (with_seat s)\<lparr>disbursing := disbursing s @ [disburse_entry s h a sp]\<rparr>))"
  by (simp add: disburse_def makeEmptySeatKit_eq with_seat_def disburse_entry_def bindr_def split: sum.split)

definition forward_entry :: "evm_hash \<Rightarrow> int \<Rightarrow> account_id \<Rightarrow> forward_failed_tx" where
  "forward_entry h a dest =
     \<lparr>fwDestination = dest, fwAmount = a, fwTxHash = h, fundsInNobleIca = None, fwChainId = None\<rparr>"

definition start_forward :: "evm_hash \<Rightarrow> int \<Rightarrow> account_id \<Rightarrow> settler_state \<Rightarrow> settler_state" where
  "start_forward h a dest s =
     s\<lparr>sm := (sm s)\<lparr>startedForwards := startedForwards (sm s) @ [forward_entry h a dest]\<rparr>\<rparr>"

lemma forward_resolved:
  "resolveAccountId (hub pw) eud = Inr dest \<Longrightarrow> dest \<noteq> [] \<Longrightarrow>
     forward pw h a eud s = (Inr (), start_forward h a dest s)"
  by (simp add: forward_def startForward_def start_forward_def forward_entry_def)

lemma resolve_nonempty: "resolveAccountId hb s = Inr dest \<Longrightarrow> dest \<noteq> []"
  by (auto simp: resolveAccountId_def bindr_Inr_iff split: if_splits)

section \<open>Settling what a mint matched\<close>

definition to_forward :: "pending_tx \<Rightarrow> bool" where
  "to_forward p \<longleftrightarrow> status p = AdvanceSkipped \<or> status p = AdvanceFailed"

text \<open>The destination resolves and the fee split of what was advanced is defined.\<close>

definition settleable :: "settler_powers \<Rightarrow> account_id \<Rightarrow> pending_tx list \<Rightarrow> bool" where
  "settleable pw dest ps \<longleftrightarrow>
     (\<forall>p \<in> set ps. status p = Advanced \<longrightarrow> (\<exists>sp. calculateSplit (fees pw) (tx_amount p) dest = Inr sp))"

definition early_among :: "noble_address \<Rightarrow> string \<Rightarrow> pending_tx list \<Rightarrow> pending_tx list" where
  "early_among nfa k ps = filter (\<lambda>p. status p = Advancing \<and> makeMintedEarlyKey nfa (tx_amount p) = k) ps"

lemma settle_all:
  assumes "resolveAccountId (hub pw) eud = Inr dest" "settleable pw dest ps"
  shows "\<exists>s'. for_eachp ps (settleFound pw nfa eud) s = (Inr (), s')
    \<and> map (\<lambda>d. (dbTxHash d, received d)) (disbursing s') =
        map (\<lambda>d. (dbTxHash d, received d)) (disbursing s) @
        map (\<lambda>p. (txHash p, tx_amount p)) (filter (\<lambda>p. status p = Advanced) ps)
    \<and> startedForwards (sm s') = startedForwards (sm s) @
        map (\<lambda>p. forward_entry (txHash p) (tx_amount p) dest) (filter to_forward ps)
    \<and> (\<forall>k. bag_count (mintedEarly s') k = bag_count (mintedEarly s) k + int (length (early_among nfa k ps)))
    \<and> sm s' = (sm s)\<lparr>startedForwards := startedForwards (sm s')\<rparr>"
  using assms(2)
proof (induction ps arbitrary: s)
  case Nil
  then show ?case by (simp add: early_among_def)
next
  case (Cons p ps)
  have set': "settleable pw dest ps" using Cons.prems by (simp add: settleable_def)
  have d: "dest \<noteq> []" using assms(1) by (rule resolve_nonempty)
  show ?case
  proof (cases "status p")
    case Advanced
    then obtain sp where sp: "calculateSplit (fees pw) (tx_amount p) dest = Inr sp"
      using Cons.prems by (auto simp: settleable_def)
    let ?s = "(with_seat s)\<lparr>disbursing := disbursing s @ [disburse_entry s (txHash p) (tx_amount p) sp]\<rparr>"
    have "settleFound pw nfa eud p s = (Inr (), ?s)"
      using Advanced sp assms(1) by (simp add: settleFound_def disburse_eq)
    with Cons.IH [OF set', of ?s] Advanced show ?thesis
      by (auto simp: disburse_entry_def to_forward_def early_among_def)
  next
    case Advancing
    let ?s = "s\<lparr>mintedEarly := bag_incr (mintedEarly s) (makeMintedEarlyKey nfa (tx_amount p))\<rparr>"
    have "settleFound pw nfa eud p s = (Inr (), ?s)"
      using Advancing by (simp add: settleFound_def addMintedEarly_eq)
    with Cons.IH [OF set', of ?s] Advancing show ?thesis
      by (auto simp: to_forward_def early_among_def count_addMintedEarly)
  next
    case AdvanceSkipped
    have "settleFound pw nfa eud p s = (Inr (), start_forward (txHash p) (tx_amount p) dest s)"
      using AdvanceSkipped forward_resolved [OF assms(1) d] by (simp add: settleFound_def)
    with Cons.IH [OF set', of "start_forward (txHash p) (tx_amount p) dest s"] AdvanceSkipped show ?thesis
      by (auto simp: to_forward_def early_among_def start_forward_def)
  next
    case AdvanceFailed
    have "settleFound pw nfa eud p s = (Inr (), start_forward (txHash p) (tx_amount p) dest s)"
      using AdvanceFailed forward_resolved [OF assms(1) d] by (simp add: settleFound_def)
    with Cons.IH [OF set', of "start_forward (txHash p) (tx_amount p) dest s"] AdvanceFailed show ?thesis
      by (auto simp: to_forward_def early_among_def start_forward_def)
  qed
qed

section \<open>Properties\<close>


text \<open>a mint that matches nothing is remembered once under its address and amount, and
  nothing else changes.\<close>

theorem unmatched_mint_is_remembered:
  assumes "source_channel packet = sourceChannel pw"
    and "decodeEventPacket pw packet = Some (nfa, a, eud)" and "0 \<le> a"
    and "matchAndDequeueSettlement (pendingSettleTxs (sm s)) nfa a = Inr ([], pendingSettleTxs (sm s))"
  shows "receiveUpcall pw packet s =
    (Inr (), s\<lparr>mintedEarly := bag_incr (mintedEarly s) (makeMintedEarlyKey nfa a)\<rparr>)"
  using assms by (simp add: receiveUpcall_def matchSettlement_eq addMintedEarly_eq)

lemma removeMintedEarly_eq:
  assumes "bag_ok (mintedEarly s)" "store_has (mintedEarly s) k"
  shows "removeMintedEarly k s = (Inr (), s\<lparr>mintedEarly := bag_decr (mintedEarly s) k\<rparr>)"
  by (simp add: removeMintedEarly_def bagp_def bag_decr_def bag_remove_Inr)

text \<open>the result of an advance consumes at most one early mint of its address and
  amount. If there is one, the outcome is published and the amount is disbursed (success) or
  forwarded (failure); otherwise the pending transaction is updated.\<close>

theorem advancing_result_uses_one_early_mint:
  assumes "bag_ok (mintedEarly s)" and "resolveAccountId (hub pw) dest = Inr dest'"
    and "calculateSplit (fees pw) a dest' = Inr sp"
  shows "notifyAdvancingResult pw h nfa a (AccountId dest) success s =
    (let key = makeMintedEarlyKey nfa a;
         st = status_record (Pending (if success then Advanced else AdvanceFailed));
         s1 = s\<lparr>mintedEarly := bag_decr (mintedEarly s) key, sm := publish h st (sm s)\<rparr>
     in if bag_count (mintedEarly s) key > 0
        then (if success then (Inr (), (with_seat s1)\<lparr>disbursing := disbursing s @ [disburse_entry s1 h a sp]\<rparr>)
              else (Inr (), start_forward h a dest' s1))
        else (case advanceOutcome (rh pw) nfa a success (Some dest) (sm s) of (r, x) \<Rightarrow> (r, s\<lparr>sm := x\<rparr>)))"
proof -
  have h: "store_has (mintedEarly s) k \<longleftrightarrow> bag_count (mintedEarly s) k > 0" for k
    using bag_has_iff [OF assms(1)] by (simp add: bag_has_def)
  show ?thesis
    using assms(2,3) resolve_nonempty [OF assms(2)]
    by (auto simp: notifyAdvancingResult_def coerceAccountId_def Let_def h removeMintedEarly_eq [OF assms(1)]
        advanceOutcomeForMintedEarly_def noteOptional_def publishTxnRecord_eq disburse_eq forward_resolved)
qed

lemma pool_ok_set_alloc:
  assumes "pool_ok p" "n \<noteq> poolSeat p" "n \<noteq> feeSeat p" "alloc_ok a"
  shows "pool_ok (p\<lparr>zcf := set_alloc n a (zcf p)\<rparr>)"
  using assms
  by (simp add: pool_ok_def seats_ok_def pool_usdc_def fee_usdc_def zcf_ok_set_alloc)

text \<open>when the withdrawal of a disbursement succeeds, the rest of it succeeds too, provided
  its split adds up to what was received and the principal is outstanding: the pool stays
  consistent and gains the principal and the pool fee, the fee seat gains the contract and relay
  fees, and the transaction is published as disbursed with that split.\<close>

theorem disbursement_repays_pool:
  assumes "pool_ok (pool s)" and "plain_seat (pool s) (settlingSeat d) 0 ''In''" and "split_nonneg (dbSplit d)"
    and "received d = Principal (dbSplit d) + PoolFee (dbSplit d) + ContractFee (dbSplit d) + RelayFee (dbSplit d)"
    and "Principal (dbSplit d) \<le> encumberedBalance (pool s)"
    and "1 \<le> Principal (dbSplit d)"
  shows "\<exists>s'. disburseResumed d True s = (Inr (), s') \<and> pool_ok (pool s')
    \<and> pool_usdc (pool s') = pool_usdc (pool s) + Principal (dbSplit d) + PoolFee (dbSplit d)
    \<and> fee_usdc (pool s') = fee_usdc (pool s) + ContractFee (dbSplit d) + RelayFee (dbSplit d)
    \<and> sm s' = publish (dbTxHash d) ((status_record Disbursed)\<lparr>recSplit := Some (dbSplit d)\<rparr>) (sm s)
    \<and> disbursing s' = remove1 d (disbursing s)"
proof -
  let ?n = "settlingSeat d" and ?a = "[(''In'', received d)]" and ?sp = "dbSplit d"
  let ?p0 = "(pool s)\<lparr>zcf := set_alloc ?n ?a (zcf (pool s))\<rparr>"
  have n: "?n \<noteq> poolSeat (pool s)" "?n \<noteq> feeSeat (pool s)" using assms(2) by (simp_all add: plain_seat_def)
  have rcv: "0 \<le> received d" using assms(3,4) by (simp add: split_nonneg_def)
  have ok0: "pool_ok ?p0" using rcv by (intro pool_ok_set_alloc assms(1) n) simp
  have n0: "?n \<noteq> poolSeat ?p0" "?n \<noteq> feeSeat ?p0" using n by simp_all
  have pl: "plain_seat ?p0 ?n (received d) ''In''" using assms(2) by (auto simp: plain_seat_def)
  obtain p1 where r: "repay (fromOnly ?n ?a) ?sp ?p0 = (Inr (), p1)"
    using repay_succeeds [OF ok0 pl assms(3,4)] assms(5) by auto
  note R = repay_Inr [OF ok0 n0 assms(3) rcv r]
  obtain z1 st where z1: "p1 = repaid ?p0 ?sp z1" "map_of (activeSeats z1) ?n = Some st"
    using R(6) by blast
  have n1: "?n \<noteq> poolSeat p1" "?n \<noteq> feeSeat p1" "zcf p1 = z1"
    using n by (simp_all add: z1 repaid_def Let_def)
  obtain z2 where e: "seatExit ?n z1 = (Inr (), z2)" using z1(2) by (simp add: seatExit_eq)
  then have z2: "z2 = snd (seatExit ?n z1)" by simp
  have keep: "pool_usdc (p1\<lparr>zcf := z2\<rparr>) = pool_usdc p1" "fee_usdc (p1\<lparr>zcf := z2\<rparr>) = fee_usdc p1"
    using n1 by (simp_all add: z2 pool_usdc_def fee_usdc_def seatExit_eq split: option.split)
  have base: "pool_usdc ?p0 = pool_usdc (pool s)" "fee_usdc ?p0 = fee_usdc (pool s)"
    using n by (simp_all add: pool_usdc_def fee_usdc_def)
  have "disburseResumed d True s = (Inr (), s\<lparr>disbursing := remove1 d (disbursing s), pool := p1\<lparr>zcf := z2\<rparr>,
        sm := publish (dbTxHash d) ((status_record Disbursed)\<lparr>recSplit := Some ?sp\<rparr>) (sm s)\<rparr>)"
    using r e n1(3) by (simp add: disburseResumed_def withdrawn_def disbursed_def publishTxnRecord_eq)
  then show ?thesis
    using pool_ok_seatExit [OF R(1) n1(1,2)] R(4,5) keep base n1(3) by (simp add: z2)
qed

lemma for_each_disburse:
  fixes ps :: "pending_tx list"
  shows "\<exists>s1. for_eachp ps (\<lambda>p. voidp (disburse pw (txHash p) (tx_amount p) (recipientAddress (aux p)))) s
     = (Inr (), s1) \<and> mintedEarly s1 = mintedEarly s"
proof -
  define g :: "pending_tx \<Rightarrow> (settler_state, unit) proc" where "g = (\<lambda>p. voidp (disburse pw (txHash p) (tx_amount p) (recipientAddress (aux p))))"
  have g: "fst (g p s) = Inr ()" "mintedEarly (snd (g p s)) = mintedEarly s" for p s
    by (simp_all add: g_def disburse_eq split: sum.split)
  have "\<exists>s1. for_eachp ps g s = (Inr (), s1) \<and> mintedEarly s1 = mintedEarly s"
  proof (induction ps arbitrary: s)
    case (Cons p ps)
    obtain s1 where "g p s = (Inr (), s1)" "mintedEarly s1 = mintedEarly s"
      using g [of p s] by (metis prod.collapse)
    with Cons.IH [of s1] show ?case by simp
  qed simp
  then show ?thesis by (simp only: g_def)
qed

lemma remediateOnce_done:
  assumes "remediateOnce pw key address a s = (Inr (), s')"
  shows "store_has (mintedEarly s) key" "\<not> store_has (mintedEarly s') key"
proof -
  obtain ps rest where m: "matchAndDequeueSettlement (pendingSettleTxs (sm s)) address a = Inr (ps, rest)"
    using assms by (cases "matchAndDequeueSettlement (pendingSettleTxs (sm s)) address a")
      (simp_all add: remediateOnce_def matchSettlement_eq prod_eq_iff)
  obtain s1 where s1: "for_eachp ps (\<lambda>p. voidp (disburse pw (txHash p) (tx_amount p) (recipientAddress (aux p))))
      (s\<lparr>sm := upd_pending (sm s) rest\<rparr>) = (Inr (), s1)" "mintedEarly s1 = mintedEarly s"
    using for_each_disburse [of ps pw "s\<lparr>sm := upd_pending (sm s) rest\<rparr>"] by auto
  have "bagp (\<lambda>b. store_delete b key) s1 = (Inr (), s')"
    using assms by (simp add: remediateOnce_def matchSettlement_eq m s1)
  then show "store_has (mintedEarly s) key" "\<not> store_has (mintedEarly s') key"
    by (auto simp: bagp_def store_delete_def s1(2) split: if_splits)
qed

text \<open>the remediation of early mints deletes the key inside its loop over the count, so
  it throws for every entry with a count of two or more that it acts on.\<close>

theorem remediation_throws_on_repeated_mint:
  assumes "parseMintedEarlyKey key = Inr (address, a)" and "minUusdc \<le> a" and "2 \<le> cnt"
    and "\<not> (\<exists>p \<in> set (lookupPending (sm s) address a). status p \<noteq> Advanced)"
  shows "\<exists>e. fst (remediateEntry pw minUusdc (key, cnt) s) = Inl e"
proof -
  define R where "R = remediateOnce pw key address a"
  obtain n where n: "nat cnt = Suc (Suc n)"
    using assms(3) by (cases "nat cnt"; cases "nat cnt - 1") auto
  have E: "remediateEntry pw minUusdc (key, cnt) s = for_eachp (replicate (nat cnt) ()) (\<lambda>_. R) s"
    using assms by (simp add: remediateEntry_def R_def)
  obtain r1 s1 where r1: "R s = (r1, s1)" by (cases "R s")
  obtain r2 s2 where r2: "R s1 = (r2, s2)" by (cases "R s1")
  have "\<not> (r1 = Inr () \<and> r2 = Inr ())"
    using remediateOnce_done [of pw key address a s s1] remediateOnce_done [of pw key address a s1 s2] r1 r2
    by (auto simp: R_def)
  then show ?thesis
    by (cases r1; cases r2) (simp_all add: E n r1 r2)
qed

text \<open>a mint that arrives while its transaction is still advancing is remembered under
  address and amount only. When a second transaction with the same address and amount is
  observed before the advance settles, that mint is taken for it: the second transaction is
  forwarded, the outcome of the first then throws, and no disbursement to the pool is made.\<close>

theorem early_mint_taken_by_second_transaction:
  assumes "map_of (pendingSettleTxs (sm s)) nfa = Some [p]" and "status p = Advancing" and "tx_amount p = a"
    and "source_channel packet = sourceChannel pw" and "decodeEventPacket pw packet = Some (nfa, a, eud)"
    and "bag_ok (mintedEarly s)"
    and "tx_nfa ev2 = nfa" and "tx_amount ev2 = a" and "\<not> store_has (seenTxs (sm s)) (txHash ev2)"
    and "resolveAccountId (hub pw) dest2 = Inr dest2'"
    and "receiveUpcall pw packet s = (r1, s1)"
    and "bag_count (mintedEarly s) (makeMintedEarlyKey nfa a) = 0"
    and "checkMintedEarly pw ev2 dest2 s1 = (r2, s2)"
    and "notifyAdvancingResult pw (txHash p) nfa a destArg True s2 = (r3, s3)"
    and "rh pw = retrier m"
  shows "r1 = Inr () \<and> r2 = Inr True \<and> (\<exists>e. r3 = Inl e) \<and> disbursing s3 = disbursing s
    \<and> startedForwards (sm s2) = startedForwards (sm s) @ [forward_entry (txHash ev2) a dest2']
    \<and> bag_count (mintedEarly s3) (makeMintedEarlyKey nfa a) = 0"
proof -
  let ?k = "makeMintedEarlyKey nfa a"
  let ?P = "drop_entry nfa (pendingSettleTxs (sm s))"
  let ?s1 = "s\<lparr>sm := upd_pending (sm s) ?P, mintedEarly := bag_incr (mintedEarly s) ?k\<rparr>"
  have "store_has (pendingSettleTxs (sm s)) nfa" using assms(1) by (simp add: store_has_def)
  then have "matchAndDequeueSettlement (pendingSettleTxs (sm s)) nfa a = Inr ([p], ?P)"
    using assms(1,3) by (simp add: matchAndDequeueSettlement_def store_delete_def)
  then have s1: "r1 = Inr ()" "s1 = ?s1"
    using assms(2-5,11) by (simp_all add: receiveUpcall_def matchSettlement_eq settleFound_def addMintedEarly_eq)
  have ok1: "bag_ok (mintedEarly s1)" using counted.ok_add [OF assms(6)] by (simp add: s1)
  have early1: "store_has (mintedEarly s1) ?k"
    using counted.add_has [OF assms(6), of ?k] assms(12) by (simp add: s1 bag_has_def)
  obtain x where x: "advanceOutcomeForUnknownMint ev2 (sm s1) = (Inr (), x)"
    and px: "pendingSettleTxs x = ?P" "startedForwards x = startedForwards (sm s)"
    using assms(9) by (simp add: advanceOutcomeForUnknownMint_def store_init_def s1 publishEvidence_def
        publishTxnRecord_eq publish_def)
  have s2: "r2 = Inr True" "s2 = start_forward (txHash ev2) a dest2' (s1\<lparr>mintedEarly := bag_decr (mintedEarly s1) ?k, sm := x\<rparr>)"
    using assms(13,7,8) early1 removeMintedEarly_eq [OF ok1] x
      forward_resolved [OF assms(10) resolve_nonempty [OF assms(10)]]
    by (simp_all add: checkMintedEarly_def Let_def)
  have m2: "mintedEarly s2 = bag_decr (bag_incr (mintedEarly s) ?k) ?k"
    by (simp add: s2 s1 start_forward_def)
  have c2: "bag_count (mintedEarly s2) ?k = 0"
    using counted.rem_add_cnt [OF assms(6), of ?k ?k] assms(12) by (simp add: m2)
  have late: "\<not> store_has (mintedEarly s2) ?k"
    using bag_has_iff [of "mintedEarly s2" ?k] counted.ok_rem [OF ok1, of ?k] c2
    by (simp add: bag_has_def m2 s1)
  have none: "map_of (pendingSettleTxs (sm s2)) nfa = None" by (simp add: s2 start_forward_def px)
  obtain rr y where y: "advanceOutcome (rh pw) nfa a True (Some (coerceAccountId destArg)) (sm s2) = (rr, y)"
    by (cases "advanceOutcome (rh pw) nfa a True (Some (coerceAccountId destArg)) (sm s2)")
  have "\<exists>e. rr = Inl e"
    using y none by (auto simp: assms(15) advanceOutcome_def noteOptional_def noteRouteHealth_retrier
        setPendingTxStatus_eq after_report_def Let_def split: sum.splits)
  moreover have "r3 = rr" "s3 = s2\<lparr>sm := y\<rparr>"
    using assms(14) late y by (simp_all add: notifyAdvancingResult_def Let_def)
  moreover have "disbursing s2 = disbursing s" by (simp add: s2 s1 start_forward_def)
  ultimately show ?thesis using c2 s1 s2 px by (simp add: start_forward_def)
qed

section \<open>Concrete runs\<close>

definition ex_powers :: settler_powers where
  "ex_powers = \<lparr>rh = retrier 6, fees = ex_fees,
     hub = \<lparr>prefixChain = [''agoric'' \<mapsto> ''agoric-3'', ''noble'' \<mapsto> ''noble-1''], cctpDomain = [''eip155:8453'' \<mapsto> True]\<rparr>,
     sourceChannel = ''channel-21'', remoteDenom = ''uusdc'',
     decodeHook = (\<lambda>r. if r = ''agoric10hook'' then Some (''agoric1base'', ''agoric1x'') else None)\<rparr>"

definition ex_packet :: "string \<Rightarrow> ibc_packet" where
  "ex_packet a = \<lparr>source_channel = ''channel-21'', destination_channel = ''channel-62'',
     packetData = Some \<lparr>ftDenom = ''uusdc'', ftAmount = a, ftSender = ''noble1a'', ftReceiver = ''agoric10hook''\<rparr>\<rparr>"

definition ex_settler :: settler_state where
  "ex_settler = \<lparr>sm = sm_init\<lparr>pendingSettleTxs := ex_store\<rparr>, pool = ex_pool, mintedEarly = [], disbursing = []\<rparr>"

lemma ex_settler_sel [simp]:
  "pendingSettleTxs (sm ex_settler) = ex_store" "mintedEarly ex_settler = []" "disbursing ex_settler = []"
  "pool ex_settler = ex_pool" "startedForwards (sm ex_settler) = []"
  by (simp_all add: ex_settler_def sm_init_def)

lemma ex_powers_sel [simp]: "rh ex_powers = retrier 6" "sourceChannel ex_powers = ''channel-21''" "fees ex_powers = ex_fees"
  by (simp_all add: ex_powers_def)

lemma ex_packet_sel [simp]: "source_channel (ex_packet a) = ''channel-21''"
  by (simp add: ex_packet_def)

lemma ex_decoded:
  "decodeEventPacket ex_powers (ex_packet ''70'') = Some (''noble1a'', 70, ''agoric1x'')"
  "decodeEventPacket ex_powers (ex_packet ''65'') = Some (''noble1a'', 65, ''agoric1x'')"
  "decodeEventPacket ex_powers (ex_packet ''50'') = Some (''noble1a'', 50, ''agoric1x'')"
  by code_simp+

lemma ex_resolved: "resolveAccountId (hub ex_powers) ''agoric1x'' = Inr ''cosmos:agoric-3:agoric1x''"
  by code_simp

lemma ex_splits:
  "calculateSplit ex_fees 50 ''cosmos:agoric-3:agoric1x'' = Inr \<lparr>Principal = 39, PoolFee = 9, ContractFee = 2, RelayFee = 0\<rparr>"
  "calculateSplit ex_fees 20 ''cosmos:agoric-3:agoric1x'' = Inr \<lparr>Principal = 10, PoolFee = 8, ContractFee = 2, RelayFee = 0\<rparr>"
  by code_simp+


theorem unmatched_mint_is_remembered_witness:
  "mintedEarly (snd (receiveUpcall ex_powers (ex_packet ''65'') ex_settler)) = [(makeMintedEarlyKey ''noble1a'' 65, 1)]"
  using unmatched_mint_is_remembered [OF _ ex_decoded(2), of ex_settler]
  by (simp add: ex_match_65 bag_incr_eq bag_count_def)

definition ex_early :: settler_state where
  "ex_early = ex_settler\<lparr>mintedEarly := [(makeMintedEarlyKey ''noble1a'' 50, 1)]\<rparr>"

theorem advancing_result_uses_one_early_mint_witness:
  "map received (disbursing (snd (notifyAdvancingResult ex_powers ''h9'' ''noble1a'' 50 (AccountId ''agoric1x'') True ex_early))) = [50]"
proof -
  have "bag_ok (mintedEarly ex_early)" by (simp add: ex_early_def bag_ok_def ms.holds_all_def store_ok_def)
  moreover have "bag_count (mintedEarly ex_early) (makeMintedEarlyKey ''noble1a'' 50) = 1"
    by (simp add: ex_early_def bag_count_def)
  ultimately show ?thesis
    using advancing_result_uses_one_early_mint [OF _ ex_resolved, of ex_early 50 _ "''h9''" "''noble1a''" True] ex_splits(1)
    by (simp add: Let_def disburse_entry_def ex_early_def)
qed

definition ex_disburse :: pending_disburse where
  "ex_disburse = \<lparr>settlingSeat = 6, dbTxHash = ''h1'', received = 210,
     dbSplit = \<lparr>Principal = 200, PoolFee = 5, ContractFee = 3, RelayFee = 2\<rparr>\<rparr>"

theorem disbursement_repays_pool_witness:
  "\<exists>s'. disburseResumed ex_disburse True ex_settler = (Inr (), s') \<and> pool_usdc (pool s') = 705"
proof -
  have "plain_seat (pool ex_settler) (settlingSeat ex_disburse) 0 ''In''"
    by (simp add: plain_seat_def ex_disburse_def) (simp add: ex_pool_def ex_zcf_def)
  from disbursement_repays_pool [OF _ this] show ?thesis
    using ex_pool_ok ex_pool_usdc by (auto simp: ex_disburse_def split_nonneg_def)
qed

theorem remediation_throws_on_repeated_mint_witness:
  "\<exists>e. fst (remediateEntry ex_powers 10 (makeMintedEarlyKey ''noble1a'' 50, 2) ex_settler) = Inl e"
proof -
  have "parseMintedEarlyKey (makeMintedEarlyKey ''noble1a'' 50) = Inr (''noble1a'', 50)" by code_simp
  then show ?thesis
    by (rule remediation_throws_on_repeated_mint) (simp_all add: lookupPending_def, simp add: ex_store_def)
qed

definition ex_racing :: settler_state where
  "ex_racing = ex_settler\<lparr>sm := sm_init\<lparr>pendingSettleTxs := [(''noble1a'', [(ex_tx ''h1'' 50)\<lparr>status := Advancing\<rparr>])]\<rparr>\<rparr>"

theorem early_mint_taken_by_second_transaction_witness:
  "\<exists>r1 s1 r2 s2 r3 s3. receiveUpcall ex_powers (ex_packet ''50'') ex_racing = (r1, s1)
     \<and> checkMintedEarly ex_powers (evidence.truncate (ex_tx ''h2'' 50)) ''agoric1x'' s1 = (r2, s2)
     \<and> notifyAdvancingResult ex_powers ''h1'' ''noble1a'' 50 (AccountId ''agoric1x'') True s2 = (r3, s3)
     \<and> r1 = Inr () \<and> r2 = Inr True \<and> (\<exists>e. r3 = Inl e) \<and> disbursing s3 = []"
proof -
  let ?ev2 = "evidence.truncate (ex_tx ''h2'' 50)"
  obtain r1 s1 where r1: "receiveUpcall ex_powers (ex_packet ''50'') ex_racing = (r1, s1)"
    by (cases "receiveUpcall ex_powers (ex_packet ''50'') ex_racing")
  obtain r2 s2 where r2: "checkMintedEarly ex_powers ?ev2 ''agoric1x'' s1 = (r2, s2)"
    by (cases "checkMintedEarly ex_powers ?ev2 ''agoric1x'' s1")
  obtain r3 s3 where r3: "notifyAdvancingResult ex_powers ''h1'' ''noble1a'' 50 (AccountId ''agoric1x'') True s2 = (r3, s3)"
    by (cases "notifyAdvancingResult ex_powers ''h1'' ''noble1a'' 50 (AccountId ''agoric1x'') True s2")
  let ?p = "(ex_tx ''h1'' 50)\<lparr>status := Advancing\<rparr>"
  have p: "map_of (pendingSettleTxs (sm ex_racing)) ''noble1a'' = Some [?p]" "txHash ?p = ''h1''"
    "\<not> store_has (seenTxs (sm ex_racing)) (txHash ?ev2)" "mintedEarly ex_racing = []" "disbursing ex_racing = []"
    by (simp_all add: ex_racing_def sm_init_def ex_tx_def with_status_def evidence.defs)
  have "tx_amount ?p = 50" "tx_nfa ?ev2 = ''noble1a''" "tx_amount ?ev2 = 50"
    by (simp_all add: ex_tx_def with_status_def evidence.defs)
  note E = early_mint_taken_by_second_transaction [OF p(1) _ this(1) _ ex_decoded(3) _ this(2,3) p(3) ex_resolved r1 _ r2,
      unfolded p, OF _ _ _ _ r3]
  show ?thesis using E r1 r2 r3 by (auto simp: bag_ok_def ms.holds_all_def bag_count_def)
qed

end
