(* ===== verification/FlowFacts.thy ===== *)
theory FlowFacts
  imports Flows SettlerFacts
begin

text \<open>What one run of the flows does to the queues, the pool and the accounts.\<close>

section \<open>Steps\<close>

lemma onCore_apply [simp]: "onCore m s = (case m (core s) of (r, x) \<Rightarrow> (r, s\<lparr>core := x\<rparr>))"
  by (simp add: onCore_def)

lemma callAccount_apply [simp]: "callAccount c s = (Inr (), s\<lparr>accountCalls := accountCalls s @ [c]\<rparr>)"
  by (simp add: callAccount_def)

lemma getNobleICA_apply [simp]:
  "getNobleICA s = (case nobleICA s of None \<Rightarrow> Inl KeyNotFound | Some x \<Rightarrow> Inr x, s)"
  by (simp add: getNobleICA_def split: option.split)

lemma core_same [simp]: "s\<lparr>core := core s\<rparr> = s" and sm_same [simp]: "c\<lparr>sm := sm c\<rparr> = c"
  and pool_same [simp]: "c\<lparr>pool := pool c\<rparr> = c"
  by simp_all

abbreviation seenBy :: "settler_state \<Rightarrow> evm_hash \<Rightarrow> bool" where
  "seenBy c h \<equiv> store_has (seenTxs (sm c)) h"

lemma publish_sel [simp]:
  "seenTxs (publish h rec s) = seenTxs s" "pendingSettleTxs (publish h rec s) = pendingSettleTxs s"
  "startedForwards (publish h rec s) = startedForwards s" "failedForwards (publish h rec s) = failedForwards s"
  "forwardInProgress (publish h rec s) = forwardInProgress s" "routeFailures (publish h rec s) = routeFailures s"
  "published (publish h rec s) = published s @ [(h, rec)]"
  by (simp_all add: publish_def)

lemma see_sel [simp]:
  "store_has (seenTxs (see ev s)) h \<longleftrightarrow> h = txHash ev \<or> store_has (seenTxs s) h"
  "startedForwards (see ev s) = startedForwards s" "pendingSettleTxs (see ev s) = pendingSettleTxs s"
  by (simp_all add: see_def)

lemma skipAdvance_new:
  "\<not> store_has (seenTxs x) (txHash ev) \<Longrightarrow>
     \<exists>x'. skipAdvance ev risks x = (Inr (), x') \<and> store_has (seenTxs x') (txHash ev)"
  by (simp add: skipAdvance_def initPendingTx_eq)

lemma advance_new:
  "\<not> store_has (seenTxs x) (txHash ev) \<Longrightarrow>
     \<exists>x'. advance ev x = (Inr (), x') \<and> store_has (seenTxs x') (txHash ev)"
  by (simp add: advance_def initPendingTx_eq)

lemma forward_total:
  "\<exists>x. forward pw h a d c = (Inr (), c\<lparr>sm := x\<rparr>) \<and> seenTxs x = seenTxs (sm c)"
proof (cases "resolveAccountId (hub pw) d")
  case (Inl e)
  then show ?thesis
    by (intro exI [of _ "publish h (status_record ForwardedSkipped) (sm c)"])
      (simp add: forward_def forwardSkipped_def publishTxnRecord_eq)
next
  case (Inr dest)
  have "start_forward h a dest c = c\<lparr>sm := (sm c)\<lparr>startedForwards := startedForwards (sm c) @ [forward_entry h a dest]\<rparr>\<rparr>"
    by (simp add: start_forward_def)
  with forward_resolved [OF Inr resolve_nonempty [OF Inr], of h a c] show ?thesis
    by (intro exI [of _ "(sm c)\<lparr>startedForwards := startedForwards (sm c) @ [forward_entry h a dest]\<rparr>"]) simp
qed

lemma checkMintedEarly_cases:
  assumes "bag_ok (mintedEarly c)" "\<not> seenBy c (txHash ev)"
  shows "checkMintedEarly pw ev d c = (Inr False, c) \<or>
    (\<exists>c'. checkMintedEarly pw ev d c = (Inr True, c') \<and> seenBy c' (txHash ev) \<and> pool c' = pool c)"
proof (cases "store_has (mintedEarly c) (makeMintedEarlyKey (tx_nfa ev) (tx_amount ev))")
  case True
  let ?c1 = "c\<lparr>mintedEarly := bag_decr (mintedEarly c) (makeMintedEarlyKey (tx_nfa ev) (tx_amount ev)), sm := see ev (sm c)\<rparr>"
  obtain x where x: "forward pw (txHash ev) (tx_amount ev) d ?c1 = (Inr (), ?c1\<lparr>sm := x\<rparr>)"
    "seenTxs x = seenTxs (sm ?c1)"
    using forward_total [of pw "txHash ev" "tx_amount ev" d ?c1] by blast
  have "store_has (seenTxs x) (txHash ev)" unfolding x(2) by simp
  with True assms x(1) show ?thesis
    by (simp add: checkMintedEarly_def Let_def removeMintedEarly_eq advanceOutcomeForUnknownMint_eq)
qed (simp add: checkMintedEarly_def Let_def)

section \<open>Starting an advance\<close>

text \<open>What a run of the first part leaves when it started no advance, and when it did.\<close>

definition not_advanced :: "flow_state \<Rightarrow> flow_state \<Rightarrow> bool" where
  "not_advanced s s' \<longleftrightarrow> advanceRuns s' = advanceRuns s \<and> accountCalls s' = accountCalls s
     \<and> pool_usdc (pool (core s')) = pool_usdc (pool (core s))
     \<and> encumberedBalance (pool (core s')) = encumberedBalance (pool (core s))"

definition advancing_started :: "flow_powers \<Rightarrow> evidence \<Rightarrow> flow_state \<Rightarrow> flow_state \<Rightarrow> bool" where
  "advancing_started pw ev s s' \<longleftrightarrow>
     (\<exists>r. advanceRuns s' = advanceRuns s @ [r] \<and> advTxHash r = txHash ev \<and> advNfa r = tx_nfa ev
        \<and> fullAmount r = tx_amount ev \<and> advAwait r = AwaitDeposit
        \<and> calculateAdvance (fees (settlerPw pw)) (tx_amount ev) (advDestination r) = Inr (advanceAmount r)
        \<and> pool_usdc (pool (core s')) = pool_usdc (pool (core s)) - advanceAmount r
        \<and> encumberedBalance (pool (core s')) = encumberedBalance (pool (core s)) + advanceAmount r
        \<and> accountCalls s' = accountCalls s)"

text \<open>A throw of the first part: nothing but an empty seat was added.\<close>

definition refused :: "flow_state \<Rightarrow> flow_state \<Rightarrow> bool" where
  "refused s s' \<longleftrightarrow> s' = s \<or> s' = s\<lparr>core := with_seat (core s)\<rparr>"

lemma not_advanced_refl: "not_advanced s s"
  by (simp add: not_advanced_def)

lemma with_seat_pool:
  assumes "pool_ok (pool c)"
  shows "pool_usdc (pool (with_seat c)) = pool_usdc (pool c)" "pool_ok (pool (with_seat c))"
    "encumberedBalance (pool (with_seat c)) = encumberedBalance (pool c)"
    "nextSeat (zcf (pool c)) \<noteq> poolSeat (pool c)" "nextSeat (zcf (pool c)) \<noteq> feeSeat (pool c)"
    "poolSeat (pool (with_seat c)) = poolSeat (pool c)" "feeSeat (pool (with_seat c)) = feeSeat (pool c)"
proof -
  obtain sp sf where v: "map_of (activeSeats (zcf (pool c))) (poolSeat (pool c)) = Some sp"
    "map_of (activeSeats (zcf (pool c))) (feeSeat (pool c)) = Some sf" "zcf_ok (zcf (pool c))"
    using assms by (auto simp: pool_ok_def seats_ok_def)
  show n: "nextSeat (zcf (pool c)) \<noteq> poolSeat (pool c)" "nextSeat (zcf (pool c)) \<noteq> feeSeat (pool c)"
    using active_lt [OF v(3) v(1)] active_lt [OF v(3) v(2)] by simp_all
  show "pool_ok (pool (with_seat c))" using pool_ok_new_seat [OF assms] by (simp add: with_seat_def)
  show "pool_usdc (pool (with_seat c)) = pool_usdc (pool c)" using n by (simp add: with_seat_def pool_usdc_def)
qed (simp_all add: with_seat_def)

lemma refused_facts:
  assumes "refused s s'" "pool_ok (pool (core s))"
  shows "not_advanced s s'" "sm (core s') = sm (core s)"
  using assms with_seat_pool [OF assms(2)] by (auto simp: refused_def not_advanced_def)

lemma calculateAdvance_nonneg: "calculateAdvance cfg a d = Inr v \<Longrightarrow> 0 \<le> v"
  by (auto simp: calculateAdvance_def bindr_Inr_iff nat_subtract_def Nat'_def split: if_splits)

lemma advanceUnlessMinted_cases:
  assumes "pool_ok (pool (core s))" "bag_ok (mintedEarly (core s))" "\<not> seenBy (core s) (txHash ev)"
    and "advanceUnlessMinted pw ev d s = (r, s')"
  shows "(\<exists>e. r = Inl e \<and> refused s s') \<or>
    (r = Inr () \<and> seenBy (core s') (txHash ev) \<and> (not_advanced s s' \<or> advancing_started pw ev s s'))"
proof -
  consider (neg) "tx_amount ev < 0"
    | (minted) c' where "0 \<le> tx_amount ev" "checkMintedEarly (settlerPw pw) ev d (core s) = (Inr True, c')"
        "seenBy c' (txHash ev)" "pool c' = pool (core s)"
    | (fresh) "0 \<le> tx_amount ev" "checkMintedEarly (settlerPw pw) ev d (core s) = (Inr False, core s)"
    using checkMintedEarly_cases [OF assms(2,3), of "settlerPw pw" d] by force
  then show ?thesis
  proof cases
    case neg
    with assms(4) show ?thesis by (auto simp: advanceUnlessMinted_def refused_def)
  next
    case minted
    with assms(4) show ?thesis by (auto simp: advanceUnlessMinted_def not_advanced_def)
  next
    case fresh
    show ?thesis
    proof (cases "calculateAdvance (fees (settlerPw pw)) (tx_amount ev) d")
      case (Inl e)
      with fresh assms(4) show ?thesis by (auto simp: advanceUnlessMinted_def refused_def)
    next
      case (Inr adv)
      let ?n = "nextSeat (zcf (pool (core s)))"
      let ?c = "with_seat (core s)"
      note W = with_seat_pool [OF assms(1)]
      obtain rb p where b: "borrow ?n adv (pool ?c) = (rb, p)" by fastforce
      show ?thesis
      proof (cases rb)
        case Inl': (Inl e)
        have "p = pool ?c" using borrow_Inl [OF W(2)] b Inl' by auto
        then have "r = Inl e" "s' = s\<lparr>core := ?c\<rparr>"
          using fresh Inr Inl' b assms(4)
          by (simp_all add: advanceUnlessMinted_def makeEmptySeatKit_eq with_seat_def)
        then show ?thesis by (simp add: refused_def)
      next
        case Inr': (Inr u)
        have own: "?n \<noteq> poolSeat (pool ?c)" "?n \<noteq> feeSeat (pool ?c)" using W by simp_all
        note B = borrow_Inr [OF W(2) own calculateAdvance_nonneg [OF Inr] b [unfolded Inr']]
        obtain x where x: "advance ev (sm (core s)) = (Inr (), x)" "store_has (seenTxs x) (txHash ev)"
          using advance_new [OF assms(3)] by blast
        let ?r = "\<lparr>advTxHash = txHash ev, advNfa = tx_nfa ev, fullAmount = tx_amount ev,
            advDestination = d, advanceAmount = adv, tmpSeat = ?n, advAwait = AwaitDeposit\<rparr>"
        have "r = Inr ()" "s' = s\<lparr>core := ?c\<lparr>pool := p, sm := x\<rparr>, advanceRuns := advanceRuns s @ [?r]\<rparr>"
          using fresh Inr Inr' b x(1) assms(4)
          by (simp_all add: advanceUnlessMinted_def makeEmptySeatKit_eq with_seat_def awaitAdvance_def)
        then show ?thesis using B x(2) W Inr by (auto simp: advancing_started_def)
      qed
    qed
  qed
qed

lemma advanceChecks_cases:
  assumes "pool_ok (pool (core s))" "bag_ok (mintedEarly (core s))" "\<not> seenBy (core s) (txHash ev)"
    and "advanceChecks pw ev risks s = (r, s')"
  shows "(\<exists>e. r = Inl e \<and> refused s s') \<or>
    (r = Inr () \<and> seenBy (core s') (txHash ev) \<and> (not_advanced s s' \<or> advancing_started pw ev s s'))"
proof -
  have skip: "\<exists>x'. smCall (skipAdvance ev rs) s = (Inr (), s\<lparr>core := (core s)\<lparr>sm := x'\<rparr>\<rparr>) \<and> store_has (seenTxs x') (txHash ev)" for rs
    using skipAdvance_new [OF assms(3), of rs] by auto
  show ?thesis
  proof (cases "risks \<noteq> None \<and> risks \<noteq> Some []")
    case True
    with skip [of "the risks"] assms(3,4) show ?thesis
      by (auto simp: advanceChecks_def hasBeenObserved_def not_advanced_def simp del: onCore_apply)
  next
    case False
    show ?thesis
    proof (cases "bindr (decodeEud pw (recipientAddress (aux ev))) (\<lambda>eud.
        bindr (resolveAccountId (hub (settlerPw pw)) eud) (\<lambda>d. bindr (parseAccountId d) (\<lambda>p.
        bindr (if namespace p = ''cosmos'' then Inr True else supportsCctp (hub (settlerPw pw)) d) (\<lambda>b. Inr (d, b)))))")
      case (Inl e)
      with False assms(3,4) show ?thesis
        by (auto simp: advanceChecks_def hasBeenObserved_def refused_def bindr_def split: sum.splits if_splits)
    next
      case (Inr db)
      obtain d b where db: "db = (d, b)" by (cases db)
      from Inr obtain eud p where eud: "decodeEud pw (recipientAddress (aux ev)) = Inr eud"
        "resolveAccountId (hub (settlerPw pw)) eud = Inr d" "parseAccountId d = Inr p"
        "(if namespace p = ''cosmos'' then Inr True else supportsCctp (hub (settlerPw pw)) d) = Inr b"
        by (auto simp: bindr_Inr_iff db)
      have eq: "advanceChecks pw ev risks s =
          (if \<not> b then bindp (liftp (chainOfAccount d)) (\<lambda>destChain.
                  smCall (skipAdvance ev [''Transfer to '' @ destChain @ '' not supported.''])) s
           else advanceUnlessMinted pw ev d s)"
        using False assms(3) eud by (auto simp: advanceChecks_def hasBeenObserved_def)
      show ?thesis
      proof (cases b)
        case True
        with eq assms(4) advanceUnlessMinted_cases [OF assms(1-3)] show ?thesis by simp
      next
        case False
        obtain c where "chainOfAccount d = Inr c" using eud(3) by (simp add: chainOfAccount_def)
        with False eq assms(4) skip [of "[''Transfer to '' @ c @ '' not supported.'']"] show ?thesis
          by (auto simp: not_advanced_def simp del: onCore_apply)
      qed
    qed
  qed
qed

section \<open>Properties\<close>



section \<open>A transfer that fails\<close>

definition noted :: "nat \<Rightarrow> sm_state \<Rightarrow> chain_id \<Rightarrow> bool \<Rightarrow> sm_state" where
  "noted m x c b = x\<lparr>startedForwards := startedForwards x @ map as_started (retries m x c b),
     routeFailures := after_report (routeFailures x) c b\<rparr>"

lemma noteRouteHealth_noted:
  "chainOfAccount d = Inr c \<Longrightarrow> noteRouteHealth (retrier m) d b x = (Inr (), noted m x c b)"
  by (simp add: noteRouteHealth_retrier noted_def)

lemma advanceOutcome_noted:
  "chainOfAccount d = Inr c \<Longrightarrow> advanceOutcome (retrier m) nfa a b (Some d) x =
     setPendingTxStatus nfa a (if b then Advanced else AdvanceFailed) (noted m x c b)"
  by (simp add: advanceOutcome_def noteOptional_def noteRouteHealth_noted)

lemma forwardFailed_ends:
  assumes "chainOfAccount (fwDestination ff) = Inr c" "fwTxHash ff = h"
  shows "\<exists>x'. forwardFailed (retrier m) h (Some ff) x = (Inr (), x')
    \<and> \<not> store_has (forwardInProgress x') h \<and> published x' = published x @ [(h, status_record ForwardFailed)]"
proof -
  let ?x1 = "x\<lparr>forwardInProgress := drop_entry h (forwardInProgress x)\<rparr>"
  let ?x2 = "snd (registerFailed ff c ?x1)"
  let ?x = "publish h (status_record ForwardFailed) (noted m ?x2 c False)"
  have "forwardFailed (retrier m) h (Some ff) x = (Inr (), ?x)"
    using assms by (simp add: forwardFailed_def clearInProgress_def registerFailed_def noteRouteHealth_noted publishTxnRecord_eq)
  then show ?thesis by (intro exI [of _ ?x]) (simp add: noted_def registerFailed_def)
qed

lemma notify_pending:
  assumes "routes pw = retrier m" "chainOfAccount (advDestination r) = Inr c"
    "\<not> store_has (mintedEarly (core s)) (makeMintedEarlyKey (advNfa r) (fullAmount r))"
    "map_of (pendingSettleTxs (sm (core s))) (advNfa r) = Some list" "advancing_ix list (fullAmount r) = Some ix"
  shows "\<exists>x. notifyResult pw r b s = (Inr (), s\<lparr>core := (core s)\<lparr>sm := x\<rparr>\<rparr>)
    \<and> published x = published (sm (core s)) @ [(txHash (list ! ix), status_record (Pending (if b then Advanced else AdvanceFailed)))]"
proof -
  let ?st = "if b then Advanced else AdvanceFailed"
  let ?x = "publish (txHash (list ! ix)) (status_record (Pending ?st))
      (upd_pending (noted m (sm (core s)) c b) (put_entry (advNfa r) (set_status list ix ?st) (pendingSettleTxs (sm (core s)))))"
  have "advanceOutcome (retrier m) (advNfa r) (fullAmount r) b (Some (advDestination r)) (sm (core s)) = (Inr (), ?x)"
    using assms(4,5) by (simp add: advanceOutcome_noted [OF assms(2)] setPendingTxStatus_eq noted_def)
  then have "notifyResult pw r b s = (Inr (), s\<lparr>core := (core s)\<lparr>sm := ?x\<rparr>\<rparr>)"
    using assms(3) by (simp add: notifyResult_def notifyAdvancingResult_def Let_def coerceAccountId_def assms(1))
  then show ?thesis by (intro exI [of _ ?x]) (simp add: noted_def)
qed

lemma repayPool_eq:
  "repayPool r s = (Inr (), s\<lparr>core := with_seat (core s),
     accountCalls := accountCalls s @ [PoolWithdraw (nextSeat (zcf (pool (core s)))) (advanceAmount r)],
     advanceRuns := advanceRuns s @ [r\<lparr>advAwait := AwaitWithdraw (nextSeat (zcf (pool (core s))))\<rparr>]\<rparr>)"
  by (simp add: repayPool_def makeEmptySeatKit_eq with_seat_def awaitAdvance_def)

lemma withdraw_resumed:
  assumes "pool_ok (pool (core s))" "plain_seat (pool (core s)) n 0 ''USDC''"
    "1 \<le> advanceAmount r" "advanceAmount r \<le> encumberedBalance (pool (core s))" "advAwait r = AwaitWithdraw n"
  shows "\<exists>s'. resumeAdvance pw r True s = (Inr (), s') \<and> pool_ok (pool (core s'))
    \<and> pool_usdc (pool (core s')) = pool_usdc (pool (core s)) + advanceAmount r
    \<and> encumberedBalance (pool (core s')) = encumberedBalance (pool (core s)) - advanceAmount r
    \<and> sm (core s') = sm (core s) \<and> advanceRuns s' = remove1 r (advanceRuns s)"
proof -
  let ?a = "advanceAmount r"
  let ?p = "(pool (core s))\<lparr>zcf := set_alloc n [(''USDC'', ?a)] (zcf (pool (core s)))\<rparr>"
  have n: "n \<noteq> poolSeat (pool (core s))" "n \<noteq> feeSeat (pool (core s))" using assms(2) by (simp_all add: plain_seat_def)
  have "pool_ok ?p" using assms(3) by (intro pool_ok_set_alloc assms(1) n) simp
  moreover have "plain_seat ?p n ?a ''USDC''" using assms(2) by (auto simp: plain_seat_def)
  moreover have "?a \<le> encumberedBalance ?p" using assms(4) by simp
  ultimately obtain p' where p': "returnToPool n ?a ?p = (Inr (), p')" "pool_ok p'" "pool_usdc p' = pool_usdc ?p + ?a"
    "encumberedBalance p' = encumberedBalance ?p - ?a"
    using returnToPool_succeeds [of ?p n ?a] assms(3) by blast
  have "pool_usdc ?p = pool_usdc (pool (core s))" using n by (simp add: pool_usdc_def)
  with p' assms(5) show ?thesis by (simp add: resumeAdvance_def)
qed


section \<open>A forward that is started twice\<close>

definition settlement_transfer :: "flow_powers \<Rightarrow> forward_failed_tx \<Rightarrow> caip10 \<Rightarrow> account_call" where
  "settlement_transfer pw t p =
     (if reference p = currentChainReference pw then SettlementSend (fwDestination t) (fwAmount t)
      else SettlementTransfer (fwDestination t) (fwAmount t))"

lemma forward_first:
  assumes "parseAccountId (fwDestination t) = Inr p" "namespace p = ''cosmos''" "nobleICA s = Some ica"
    "\<not> store_has (forwardInProgress (sm (core s))) (fwTxHash t)"
  shows "forwardFunds pw t s = (Inr (), s\<lparr>
     core := (core s)\<lparr>sm := (sm (core s))\<lparr>forwardInProgress := set_add (forwardInProgress (sm (core s))) (fwTxHash t)\<rparr>\<rparr>,
     accountCalls := accountCalls s @ [settlement_transfer pw t p],
     forwardRuns := forwardRuns s @ [\<lparr>fwdTx = t, fwdAwait = AwaitCompletion\<rparr>]\<rparr>)"
  using assms by (simp add: forwardFunds_def Let_def forwarding_def awaitForward_def settlement_transfer_def)

lemma forward_again:
  assumes "parseAccountId (fwDestination t) = Inr p" "namespace p = ''cosmos''" "nobleICA s = Some ica"
    "store_has (forwardInProgress (sm (core s))) (fwTxHash t)" "routes pw = retrier m"
  shows "\<exists>x. forwardFunds pw t s = (Inr (), s\<lparr>core := (core s)\<lparr>sm := x\<rparr>,
       accountCalls := accountCalls s @ [settlement_transfer pw t p]\<rparr>)
     \<and> \<not> store_has (forwardInProgress x) (fwTxHash t)
     \<and> published x = published (sm (core s)) @ [(fwTxHash t, status_record ForwardFailed)]"
proof -
  obtain c where c: "chainOfAccount (fwDestination t) = Inr c" using assms(1) by (simp add: chainOfAccount_def)
  let ?ff = "t\<lparr>fundsInNobleIca := None, fwChainId := None\<rparr>"
  obtain x where x: "forwardFailed (retrier m) (fwTxHash t) (Some ?ff) (sm (core s)) = (Inr (), x)"
    "\<not> store_has (forwardInProgress x) (fwTxHash t)"
    "published x = published (sm (core s)) @ [(fwTxHash t, status_record ForwardFailed)]"
    using forwardFailed_ends [of ?ff c "fwTxHash t" m "sm (core s)"] c by auto
  then have "forwardFunds pw t s = (Inr (), s\<lparr>core := (core s)\<lparr>sm := x\<rparr>, accountCalls := accountCalls s @ [settlement_transfer pw t p]\<rparr>)"
    using assms by (simp add: forwardFunds_def Let_def forwarding_def settlement_transfer_def reportFailed_def)
  with x(2,3) show ?thesis by blast
qed

text \<open>two failure reports of a route that arrive before the first retry has begun to run
  start the same failed forward twice. Run one after the other, both transfer the amount out of
  the settlement account; the second run, finding the forward in progress, clears that mark and
  publishes the transaction as failed while the first transfer is still in flight.\<close>

theorem retried_forward_sends_twice:
  assumes "routes pw = retrier m" and "chainOfAccount d = Inr c"
    and "getForwardsToRetry (sm (core s)) c = t # rest" and "startedForwards (sm (core s)) = []"
    and "getFailureCount (routeFailures (sm (core s))) c + 2 < m"
    and "parseAccountId (fwDestination t) = Inr p" and "namespace p = ''cosmos''" and "nobleICA s = Some ica"
    and "smCall (noteRouteHealth (routes pw) d False) s = (r1, s1)"
    and "smCall (noteRouteHealth (routes pw) d False) s1 = (r2, s2)"
    and "runForward pw (as_started t) s2 = (r3, s3)" and "runForward pw (as_started t) s3 = (r4, s4)"
  shows "startedForwards (sm (core s2)) = [as_started t, as_started t]
    \<and> accountCalls s4 = accountCalls s @ [settlement_transfer pw t p, settlement_transfer pw t p]
    \<and> forwardRuns s4 = forwardRuns s @ [\<lparr>fwdTx = as_started t, fwdAwait = AwaitCompletion\<rparr>]
    \<and> \<not> store_has (forwardInProgress (sm (core s4))) (fwTxHash t)
    \<and> last (published (sm (core s4))) = (fwTxHash t, status_record ForwardFailed)"
proof -
  let ?t = "as_started t"
  have retry: "getForwardsToRetry (x\<lparr>startedForwards := a, routeFailures := f\<rparr>) c = getForwardsToRetry x c" for x a f
    by (simp add: getForwardsToRetry_def)
  have idle: "\<not> store_has (forwardInProgress (sm (core s))) (fwTxHash t)"
    using assms(3) by (metis (mono_tags, lifting) filter_eq_ConsD getForwardsToRetry_def)
  let ?x1 = "(sm (core s))\<lparr>startedForwards := [?t], routeFailures := after_report (routeFailures (sm (core s))) c False\<rparr>"
  have s1: "s1 = s\<lparr>core := (core s)\<lparr>sm := ?x1\<rparr>\<rparr>"
    using assms(9) assms(2-5) by (auto simp: assms(1) noteRouteHealth_retrier retries_def)
  let ?x2 = "?x1\<lparr>startedForwards := [?t, ?t], routeFailures := after_report (routeFailures ?x1) c False\<rparr>"
  have "getFailureCount (after_report (routeFailures (sm (core s))) c False) c = Suc (getFailureCount (routeFailures (sm (core s))) c)"
    by (simp add: after_report_def getFailureCount_def)
  then have s2: "s2 = s\<lparr>core := (core s)\<lparr>sm := ?x2\<rparr>\<rparr>"
    using assms(10) assms(2-5) by (auto simp: s1 assms(1) noteRouteHealth_retrier retries_def retry)
  let ?a = "s2\<lparr>core := (core s2)\<lparr>sm := (sm (core s2))\<lparr>startedForwards := [?t]\<rparr>\<rparr>\<rparr>"
  have dest [simp]: "fwDestination ?t = fwDestination t" "fwTxHash ?t = fwTxHash t" "fwAmount ?t = fwAmount t"
    by (simp_all add: as_started_def)
  have K: "settlement_transfer pw ?t p = settlement_transfer pw t p" by (simp add: settlement_transfer_def)
  have s3: "s3 = snd (forwardFunds pw ?t ?a)"
    using forward_first [of ?t p ?a ica pw] assms(6-8,11) idle by (simp add: runForward_def s2)
  let ?b = "s3\<lparr>core := (core s3)\<lparr>sm := (sm (core s3))\<lparr>startedForwards := []\<rparr>\<rparr>\<rparr>"
  have fa: "forwardFunds pw ?t ?a = (Inr (), s3)" using forward_first [of ?t p ?a ica pw] assms(6-8) idle by (simp add: s3 s2)
  have s3': "accountCalls s3 = accountCalls s @ [settlement_transfer pw t p]" "nobleICA s3 = Some ica"
    "forwardRuns s3 = forwardRuns s @ [\<lparr>fwdTx = ?t, fwdAwait = AwaitCompletion\<rparr>]"
    "store_has (forwardInProgress (sm (core s3))) (fwTxHash t)" "startedForwards (sm (core s3)) = [?t]"
    using forward_first [of ?t p ?a ica pw] assms(6-8) idle by (simp_all add: s3 s2 K)
  obtain x where x: "forwardFunds pw ?t ?b = (Inr (), ?b\<lparr>core := (core ?b)\<lparr>sm := x\<rparr>,
       accountCalls := accountCalls ?b @ [settlement_transfer pw t p]\<rparr>)"
     "\<not> store_has (forwardInProgress x) (fwTxHash t)"
     "published x = published (sm (core ?b)) @ [(fwTxHash t, status_record ForwardFailed)]"
    using forward_again [of ?t p ?b ica pw m] assms(1,6,7) s3' K by auto
  have "s4 = ?b\<lparr>core := (core ?b)\<lparr>sm := x\<rparr>, accountCalls := accountCalls ?b @ [settlement_transfer pw t p]\<rparr>"
    using assms(12) x(1) s3'(5) by (simp add: runForward_def)
  then show ?thesis using x s3' by (simp add: s2)
qed


section \<open>Concrete runs\<close>

definition ex_fpowers :: flow_powers where
  "ex_fpowers = \<lparr>settlerPw = ex_powers, currentChainReference = ''agoric-3'', settlementAddress = ''agoric1base'',
     settlementChainId = ''agoric-3'', messageOf = (\<lambda>_. ''error'')\<rparr>"

definition ex_flow :: "sm_state \<Rightarrow> flow_state" where
  "ex_flow x = \<lparr>core = ex_settler\<lparr>sm := x\<rparr>, accountCalls = [], nobleICA = Some ''noble1ica'', forwardRuns = [],
     advanceRuns = [], startedAdvances = []\<rparr>"

lemma ex_flow_sel [simp]:
  "core (ex_flow x) = ex_settler\<lparr>sm := x\<rparr>" "accountCalls (ex_flow x) = []" "nobleICA (ex_flow x) = Some ''noble1ica''"
  "forwardRuns (ex_flow x) = []" "advanceRuns (ex_flow x) = []" "settlerPw ex_fpowers = ex_powers"
  by (simp_all add: ex_flow_def ex_fpowers_def)

definition ex_risky :: evidence_with_risk where
  "ex_risky = \<lparr>evidence = \<lparr>aux = \<lparr>forwardingChannel = ''channel-21'', recipientAddress = ''agoric10hook''\<rparr>,
       blockHash = ''0xb'', blockNumber = 1, blockTimestamp = 10, evmChainId = 42161,
       tx = \<lparr>amount = 200, forwardingAddress = ''noble1a'', sender = ''0x5''\<rparr>, txHash = ''h7''\<rparr>,
     risk = \<lparr>risksIdentified = Some []\<rparr>\<rparr>"


definition ex_run :: advance_run where
  "ex_run = \<lparr>advTxHash = ''h1'', advNfa = ''noble1a'', fullAmount = 50, advDestination = ''cosmos:agoric-3:agoric1x'',
     advanceAmount = 39, tmpSeat = 3, advAwait = AwaitTransfer\<rparr>"


definition ex_osmo :: forward_failed_tx where
  "ex_osmo = \<lparr>fwDestination = ''cosmos:osmosis-1:osmo1q'', fwAmount = 100, fwTxHash = ''h1'',
     fundsInNobleIca = None, fwChainId = Some ''cosmos:osmosis-1''\<rparr>"

definition ex_retry :: sm_state where
  "ex_retry = sm_init\<lparr>failedForwards := [(''h1'', ex_osmo)]\<rparr>"

theorem retried_forward_sends_twice_witness:
  "\<exists>r1 s1 r2 s2 r3 s3 r4 s4.
     smCall (noteRouteHealth (retrier 6) ''cosmos:osmosis-1:osmo1z'' False) (ex_flow ex_retry) = (r1, s1)
   \<and> smCall (noteRouteHealth (retrier 6) ''cosmos:osmosis-1:osmo1z'' False) s1 = (r2, s2)
   \<and> runForward ex_fpowers (as_started ex_osmo) s2 = (r3, s3) \<and> runForward ex_fpowers (as_started ex_osmo) s3 = (r4, s4)
   \<and> accountCalls s4 = [SettlementTransfer ''cosmos:osmosis-1:osmo1q'' 100, SettlementTransfer ''cosmos:osmosis-1:osmo1q'' 100]"
proof -
  obtain r1 s1 where 1: "smCall (noteRouteHealth (routes ex_fpowers) ''cosmos:osmosis-1:osmo1z'' False) (ex_flow ex_retry) = (r1, s1)"
    by (metis surj_pair)
  obtain r2 s2 where 2: "smCall (noteRouteHealth (routes ex_fpowers) ''cosmos:osmosis-1:osmo1z'' False) s1 = (r2, s2)" by (metis surj_pair)
  obtain r3 s3 where 3: "runForward ex_fpowers (as_started ex_osmo) s2 = (r3, s3)" by (metis surj_pair)
  obtain r4 s4 where 4: "runForward ex_fpowers (as_started ex_osmo) s3 = (r4, s4)" by (metis surj_pair)
  have p: "parseAccountId (fwDestination ex_osmo) = Inr \<lparr>namespace = ''cosmos'', reference = ''osmosis-1'', accountAddress = ''osmo1q''\<rparr>"
    "chainOfAccount ''cosmos:osmosis-1:osmo1z'' = Inr ''cosmos:osmosis-1''"
    by code_simp+
  have g: "getForwardsToRetry (sm (core (ex_flow ex_retry))) ''cosmos:osmosis-1'' = [ex_osmo]"
    by (simp add: ex_retry_def getForwardsToRetry_def sm_init_def store_values_def ex_osmo_def)
  have n: "startedForwards (sm (core (ex_flow ex_retry))) = []" "nobleICA (ex_flow ex_retry) = Some ''noble1ica''"
    "getFailureCount (routeFailures (sm (core (ex_flow ex_retry)))) ''cosmos:osmosis-1'' + 2 < 6"
    by (simp_all add: ex_retry_def sm_init_def getFailureCount_def)
  have T: "settlement_transfer ex_fpowers ex_osmo \<lparr>namespace = ''cosmos'', reference = ''osmosis-1'', accountAddress = ''osmo1q''\<rparr> =
      SettlementTransfer ''cosmos:osmosis-1:osmo1q'' 100"
    by code_simp
  have rt: "routes ex_fpowers = retrier 6" by simp
  have ns: "namespace \<lparr>namespace = ''cosmos'', reference = ''osmosis-1'', accountAddress = ''osmo1q''\<rparr> = ''cosmos''" by simp
  have "accountCalls s4 = [SettlementTransfer ''cosmos:osmosis-1:osmo1q'' 100, SettlementTransfer ''cosmos:osmosis-1:osmo1q'' 100]"
    using retried_forward_sends_twice [OF rt p(2) g n(1,3) p(1) ns n(2) 1 2 3 4] T by simp
  with 1 2 3 4 rt show ?thesis by metis
qed

end
