(* ===== verification/FlowInvariant.thy ===== *)
theory FlowInvariant
  imports FlowFacts
begin

text \<open>
  The invariant of the settler and the flows, and the proof that every step keeps it: the
  status manager's and the pool's invariants, sound bookkeeping of what is being disbursed,
  advances in flight for distinct transactions, and that only published evidence \<open>E\<close> was
  ever acted on.
\<close>

section \<open>Rules\<close>

lemma keeps_read: "(\<And>s. I s \<Longrightarrow> I (snd (f (g s) s))) \<Longrightarrow> keeps I (bindp (getsp g) f)"
  by (simp add: keeps_def)

section \<open>Seen transactions\<close>

definition seen_in :: "evidence set \<Rightarrow> sm_state \<Rightarrow> bool" where
  "seen_in E x \<longleftrightarrow> (\<forall>h. store_has (seenTxs x) h \<longrightarrow> (\<exists>ev \<in> E. txHash ev = h))"

named_theorems seen_intros \<open>the methods that see no new transaction, or a published one\<close>

lemma seen_publish [seen_intros]: "keeps (seen_in E) (publishTxnRecord h rec)"
  by (rule keepsI) (simp add: publishTxnRecord_eq seen_in_def)

lemma seen_modify: "(\<And>x. seenTxs (f x) = seenTxs x) \<Longrightarrow> keeps (seen_in E) (modifyp f)"
  by (rule keeps_modifyp) (simp add: seen_in_def)

lemma seen_note [seen_intros]: "keeps (seen_in E) (noteRouteHealth (retrier m) d w)"
  by (rule keepsI) (simp add: noteRouteHealth_retrier seen_in_def split: sum.split)

lemma seen_optional [seen_intros]: "keeps (seen_in E) (noteOptional (retrier m) d w)"
  by (cases d) (auto simp: noteOptional_def intro: keeps_intros seen_intros)

lemma seen_setPending [seen_intros]: "keeps (seen_in E) (setPendingTxStatus nfa a st)"
  by (rule keepsI) (simp add: setPendingTxStatus_eq seen_in_def split: option.split)

lemma seen_outcome [seen_intros]:
  "keeps (seen_in E) (advanceOutcome (retrier m) nfa a ok d)"
  "keeps (seen_in E) (advanceOutcomeForMintedEarly (retrier m) h ok d)"
  unfolding advanceOutcome_def advanceOutcomeForMintedEarly_def by (intro keeps_intros seen_intros)+

lemma seen_match [seen_intros]: "keeps (seen_in E) (matchSettlement nfa a)"
  by (rule keepsI) (auto simp: matchSettlement_eq seen_in_def split: sum.split)

lemma seen_disbursed [seen_intros]: "keeps (seen_in E) (disbursed h sp)" "keeps (seen_in E) (forwardSkipped h)"
  unfolding disbursed_def forwardSkipped_def by (rule seen_intros)+

lemma seen_forwarding [seen_intros]: "keeps (seen_in E) (forwarding h)"
  unfolding forwarding_def by (intro keeps_intros seen_modify) simp

lemma seen_clear [seen_intros]: "keeps (seen_in E) (clearInProgress h)"
  unfolding clearInProgress_def by (intro seen_modify) simp

lemma seen_forwarded [seen_intros]: "keeps (seen_in E) (forwarded (retrier m) h t)"
  unfolding forwarded_def by (cases t) (auto intro!: keeps_intros seen_intros seen_modify)

lemma seen_register [seen_intros]: "keeps (seen_in E) (registerFailed ff c)"
  unfolding registerFailed_def by (intro seen_modify) simp

lemma seen_forwardFailed [seen_intros]: "keeps (seen_in E) (forwardFailed (retrier m) h t)"
  unfolding forwardFailed_def by (cases t) (auto intro!: keeps_intros seen_intros)

lemma seen_deletions [seen_intros]: "keeps (seen_in E) deleteCompletedTxs" "keeps (seen_in E) (deletionDone h)"
  unfolding deleteCompletedTxs_def deletionDone_def by (intro keeps_intros seen_modify; simp)+

lemma seen_unknownMint [seen_intros]: "ev \<in> E \<Longrightarrow> keeps (seen_in E) (advanceOutcomeForUnknownMint ev)"
  by (rule keepsI) (auto simp: advanceOutcomeForUnknownMint_eq seen_in_def)

lemma seen_init [seen_intros]: "ev \<in> E \<Longrightarrow> keeps (seen_in E) (advance ev)" "ev \<in> E \<Longrightarrow> keeps (seen_in E) (skipAdvance ev rs)"
  by (rule keepsI, auto simp: advance_def skipAdvance_def initPendingTx_eq seen_in_def)+

lemma smok_more [keeps_intros]:
  "keeps sm_ok (advanceOutcome (retrier m) nfa a ok d)" "keeps sm_ok (advanceOutcomeForMintedEarly (retrier m) h ok d)"
  "keeps sm_ok (disbursed h sp)" "keeps sm_ok (forwardSkipped h)"
  "evidence_shape ev \<Longrightarrow> keeps sm_ok (advance ev)" "evidence_shape ev \<Longrightarrow> keeps sm_ok (skipAdvance ev rs)"
  unfolding advanceOutcome_def advanceOutcomeForMintedEarly_def disbursed_def forwardSkipped_def advance_def skipAdvance_def
  by (auto intro!: keeps_intros)

section \<open>The pool's own seats\<close>

definition seats_are :: "seat_id \<Rightarrow> seat_id \<Rightarrow> pool_state \<Rightarrow> bool" where
  "seats_are a b p \<longleftrightarrow> poolSeat p = a \<and> feeSeat p = b"

lemma seats_onZcf [keeps_intros]: "keeps (seats_are a b) (onZcf m)"
  by (rule keepsI) (simp add: seats_are_def split: prod.split)

lemma seats_modify: "(\<And>p. poolSeat (f p) = poolSeat p \<and> feeSeat (f p) = feeSeat p) \<Longrightarrow> keeps (seats_are a b) (modifyp f)"
  by (rule keeps_modifyp) (simp add: seats_are_def)

lemma seats_publish [keeps_intros]: "keeps (seats_are a b) publishPoolMetrics"
  unfolding publishPoolMetrics_def by (rule seats_modify) simp

lemma seats_borrow [keeps_intros]: "keeps (seats_are a b) (borrow s x)"
  unfolding borrow_def by (intro keeps_intros seats_modify) simp

lemma seats_repay [keeps_intros]: "keeps (seats_are a b) (repay src sp)"
  unfolding repay_def by (intro keeps_intros seats_modify) simp

lemma seats_return [keeps_intros]: "keeps (seats_are a b) (returnToPool s x)"
  unfolding returnToPool_def Let_def by (intro keeps_intros)

lemma seats_deposit [keeps_intros]: "keeps (seats_are a b) (depositHandle s)"
  unfolding depositHandle_def by (intro keeps_intros seats_modify) simp

lemma seats_withdraw [keeps_intros]: "keeps (seats_are a b) (withdrawHandle s)"
  unfolding withdrawHandle_def by (intro keeps_intros seats_modify) simp

lemma seats_withdrawFees [keeps_intros]: "keeps (seats_are a b) (withdrawFeesHandle s)"
  unfolding withdrawFeesHandle_def by (intro keeps_intros)

lemma seats_pool_run: "keeps (seats_are a b) (pool_run c)"
  by (cases c) (auto intro!: keeps_intros)


section \<open>The settler\<close>

definition disburse_ok :: "pool_state \<Rightarrow> pending_disburse \<Rightarrow> bool" where
  "disburse_ok p d \<longleftrightarrow> \<not> own_seat p (settlingSeat d) \<and> split_nonneg (dbSplit d) \<and> 0 \<le> received d"

definition core_ok :: "evidence set \<Rightarrow> settler_state \<Rightarrow> bool" where
  "core_ok E c \<longleftrightarrow> sm_ok (sm c) \<and> seen_in E (sm c) \<and> pool_ok (pool c) \<and> bag_ok (mintedEarly c)
     \<and> (\<forall>d \<in> set (disbursing c). disburse_ok (pool c) d)"

text \<open>The fee configuration and the retrier that the contract installs.\<close>

definition settler_powers_ok :: "settler_powers \<Rightarrow> bool" where
  "settler_powers_ok pw \<longleftrightarrow> fee_config_ok (fees pw) \<and> (\<exists>m. rh pw = retrier m)"

lemma core_onSm [keeps_intros]:
  assumes "keeps sm_ok m" "keeps (seen_in E) m"
  shows "keeps (core_ok E) (onSm m)"
proof (rule keepsI)
  fix c assume c: "core_ok E c"
  obtain r x where x: "m (sm c) = (r, x)" by fastforce
  have "sm_ok x" "seen_in E x"
    using keepsD [OF assms(1), of "sm c"] keepsD [OF assms(2), of "sm c"] c x by (simp_all add: core_ok_def)
  with c x show "core_ok E (snd (onSm m c))" by (simp add: core_ok_def)
qed

lemma disburse_ok_seats: "poolSeat p = poolSeat q \<Longrightarrow> feeSeat p = feeSeat q \<Longrightarrow> disburse_ok p d = disburse_ok q d"
  by (simp add: disburse_ok_def own_seat_def)

lemma core_onPool:
  assumes "\<And>p. pool_ok p \<Longrightarrow> P p \<Longrightarrow> pool_ok (snd (m p))" "\<And>a b. keeps (seats_are a b) m" "core_ok E c" "P (pool c)"
  shows "core_ok E (snd (onPool m c))"
proof -
  obtain r p where p: "m (pool c) = (r, p)" by fastforce
  have "pool_ok p" using assms(1) [of "pool c"] assms(3,4) p by (simp add: core_ok_def)
  moreover have "seats_are (poolSeat (pool c)) (feeSeat (pool c)) p"
    using keepsD [OF assms(2), of _ _ "pool c"] p by (simp add: seats_are_def)
  ultimately show ?thesis
    using assms(3) p disburse_ok_seats [of p "pool c"] by (simp add: core_ok_def seats_are_def)
qed

lemma bag_ok_steps: "bag_ok b \<Longrightarrow> bag_ok (bag_incr b k)" "bag_ok b \<Longrightarrow> bag_ok (bag_decr b k)" "bag_ok b \<Longrightarrow> bag_ok (drop_entry k b)"
  using counted.ok_add [of b k] counted.ok_rem [of b k]
  by (simp_all add: bag_ok_def store_ok_drop_entry ms.holds_all_del)

lemma core_addMintedEarly [keeps_intros]: "keeps (core_ok E) (addMintedEarly nfa a)"
  by (rule keepsI) (simp add: addMintedEarly_eq core_ok_def bag_ok_steps)

lemma core_with_seat:
  assumes "core_ok E c"
  shows "core_ok E (with_seat c)" "\<not> own_seat (pool (with_seat c)) (nextSeat (zcf (pool c)))"
proof -
  have ok: "pool_ok (pool c)" using assms by (simp add: core_ok_def)
  note W = with_seat_pool [OF ok]
  have "disburse_ok (pool (with_seat c)) d = disburse_ok (pool c) d" for d
    using W(6,7) by (rule disburse_ok_seats)
  then show "core_ok E (with_seat c)" using assms W(2) by (simp add: core_ok_def)
  show "\<not> own_seat (pool (with_seat c)) (nextSeat (zcf (pool c)))" using W(4-7) by (simp add: own_seat_def)
qed

lemma calculateSplit_nonneg:
  assumes "fee_config_ok cfg" "0 \<le> a" "calculateSplit cfg a d = Inr sp"
  shows "split_nonneg sp"
proof -
  from assms(3) obtain b where b: "calculateBaseFee cfg a d = Inr b" "calculateRelayFee cfg d = Inr (RelayFee sp)"
    and rate: "\<exists>rate. getConfigValue cfg ovContractRate contractRate d = Inr rate \<and> multiplyBy b rate = Inr (ContractFee sp)"
    and sp: "0 \<le> Principal sp" "0 \<le> PoolFee sp"
    by (auto simp: calculateSplit_def bindr_Inr_iff Let_def nat_subtract_def Nat'_def split: if_splits)
  note nn = baseFee_nonneg [OF b(1) assms(1,2)] relayFee_nonneg [OF b(2) assms(1)]
  obtain rate where r: "getConfigValue cfg ovContractRate contractRate d = Inr rate" "multiplyBy b rate = Inr (ContractFee sp)"
    using rate by blast
  have "rate_ok rate" by (rule getConfigValue_all [OF r(1)])
      (use assms(1) in \<open>auto simp: fee_config_ok_def override_ok_def\<close>)
  then have "0 \<le> ContractFee sp" using contractFee_bounds(1) [OF r(2) _ nn(1)] by simp
  with nn sp show ?thesis by (simp add: split_nonneg_def)
qed

lemma core_disburse:
  assumes "settler_powers_ok pw" "0 \<le> a"
  shows "keeps (core_ok E) (disburse pw h a eud)"
proof (rule keepsI)
  fix c assume c: "core_ok E c"
  note W = core_with_seat [OF c]
  show "core_ok E (snd (disburse pw h a eud c))"
  proof (cases "bindr (resolveAccountId (hub pw) eud) (calculateSplit (fees pw) a)")
    case (Inl e)
    with W show ?thesis by (simp add: disburse_eq)
  next
    case (Inr sp)
    then have "split_nonneg sp"
      using assms by (auto simp: bindr_Inr_iff settler_powers_ok_def intro: calculateSplit_nonneg)
    then have "disburse_ok (pool (with_seat c)) (disburse_entry c h a sp)"
      using W(2) assms(2) by (simp add: disburse_ok_def disburse_entry_def)
    with W(1) Inr show ?thesis by (auto simp: disburse_eq core_ok_def)
  qed
qed

lemma keeps_voidp [keeps_intros]: "keeps I m \<Longrightarrow> keeps I (voidp m)"
  unfolding voidp_def by (intro keeps_intros)

lemma started_keeps [keeps_intros, seen_intros]:
  "keeps sm_ok (modifyp (startForward t))" "keeps (seen_in E) (modifyp (startForward t))"
  by (rule keeps_modifyp, simp add: startForward_eq sm_ok_def seen_in_def)+

lemma core_forward [keeps_intros]: "keeps (core_ok E) (forward pw h a d)"
  unfolding forward_def by (intro keeps_intros seen_intros)

lemma core_settleFound:
  assumes "settler_powers_ok pw" "0 \<le> tx_amount p"
  shows "keeps (core_ok E) (settleFound pw nfa eud p)"
  using core_disburse [OF assms, of E] by (cases "status p") (auto simp: settleFound_def intro!: keeps_intros)

lemma core_settle_matched:
  assumes "core_ok E c" and f: "\<And>p. 0 \<le> tx_amount p \<Longrightarrow> keeps (core_ok E) (f p)"
    and g: "\<And>c'. core_ok E c' \<Longrightarrow> core_ok E (snd (g c'))"
  shows "core_ok E (snd (bindp (onSm (matchSettlement nfa a)) (\<lambda>ps. if ps = [] then g else for_eachp ps f) c))"
proof -
  obtain r x where m: "matchSettlement nfa a (sm c) = (r, x)" by fastforce
  have c': "core_ok E (c\<lparr>sm := x\<rparr>)"
    using keepsD [OF core_onSm [OF keeps_matchSettlement seen_match] assms(1), of nfa a] m by simp
  show ?thesis
  proof (cases r)
    case (Inl e)
    with m c' show ?thesis by simp
  next
    case (Inr ps)
    have nn: "0 \<le> tx_amount p" if "p \<in> set ps" for p
    proof -
      have ok: "pending_ok (pendingSettleTxs (sm c))" using assms(1) by (simp add: core_ok_def sm_ok_def)
      obtain rest where "matchAndDequeueSettlement (pendingSettleTxs (sm c)) nfa a = Inr (ps, rest)"
        using m Inr by (auto simp: matchSettlement_eq split: sum.splits prod.splits)
      from match_result(2) [OF ok this] that have "p \<in># mset (queue_of (pendingSettleTxs (sm c)) nfa)" by simp
      then obtain list where "map_of (pendingSettleTxs (sm c)) nfa = Some list" "p \<in> set list"
        by (cases "map_of (pendingSettleTxs (sm c)) nfa") (auto simp: queue_of_def)
      then show ?thesis using pending_okD [OF ok] by (auto simp: queue_ok_def)
    qed
    have "keeps (core_ok E) (for_eachp ps f)" using nn f by (intro keeps_for_eachp) auto
    then show ?thesis using m Inr c' g keepsD by fastforce
  qed
qed

lemma core_receiveUpcall:
  assumes "settler_powers_ok pw"
  shows "keeps (core_ok E) (receiveUpcall pw packet)"
proof (rule keepsI)
  fix c assume c: "core_ok E c"
  show "core_ok E (snd (receiveUpcall pw packet c))"
  proof (cases "source_channel packet = sourceChannel pw \<and> decodeEventPacket pw packet \<noteq> None")
    case True
    then obtain nfa a eud where d: "decodeEventPacket pw packet = Some (nfa, a, eud)" by (cases "decodeEventPacket pw packet") auto
    have g: "core_ok E (snd (thenp (requirep (0 \<le> a) NotANat) (addMintedEarly nfa a) c'))" if "core_ok E c'" for c'
      by (rule keepsD [of "core_ok E", OF _ that]) (intro keeps_intros)
    show ?thesis
      using core_settle_matched [OF c core_settleFound [OF assms], where g = "thenp (requirep (0 \<le> a) NotANat) (addMintedEarly nfa a)", OF _ g] True d
      by (simp add: receiveUpcall_def)
  qed (auto simp: receiveUpcall_def c split: option.split)
qed

lemma core_removeMinted [keeps_intros]: "keeps (core_ok E) (removeMintedEarly k)"
proof (rule keepsI)
  fix c assume c: "core_ok E c"
  have b: "bag_ok (mintedEarly c)" using c by (simp add: core_ok_def)
  show "core_ok E (snd (removeMintedEarly k c))"
  proof (cases "bag_remove (mintedEarly c) k 1")
    case (Inl e)
    with c show ?thesis by (simp add: removeMintedEarly_def bagp_def)
  next
    case (Inr bs)
    obtain q t where "bs = (q, t)" by (cases bs)
    with Inr c bag_ok_remove [OF b, of k 1 q t] show ?thesis
      by (simp add: removeMintedEarly_def bagp_def core_ok_def)
  qed
qed

lemma core_notify:
  assumes "settler_powers_ok pw" "0 \<le> a"
  shows "keeps (core_ok E) (notifyAdvancingResult pw h nfa a d success)"
proof -
  obtain m where m: "rh pw = retrier m" using assms(1) by (auto simp: settler_powers_ok_def)
  show ?thesis
    unfolding notifyAdvancingResult_def Let_def m
    by (intro keeps_intros seen_intros core_disburse assms)
qed

lemma core_checkMinted:
  assumes "ev \<in> E"
  shows "keeps (core_ok E) (checkMintedEarly pw ev d)"
  unfolding checkMintedEarly_def Let_def using assms by (intro keeps_intros seen_intros)

lemma core_deleteMinted [keeps_intros]: "keeps (core_ok E) (bagp (\<lambda>b. store_delete b k))"
  by (rule keepsI) (auto simp: bagp_def store_delete_def core_ok_def bag_ok_steps)

lemma core_remediate:
  assumes "settler_powers_ok pw"
  shows "keeps (core_ok E) (remediateMintedEarly pw minUusdc)"
proof -
  have once: "keeps (core_ok E) (remediateOnce pw k nfa a)" for k nfa a
  proof (rule keepsI)
    fix c assume c: "core_ok E c"
    let ?f = "\<lambda>p. voidp (disburse pw (txHash p) (tx_amount p) (recipientAddress (aux p)))"
    let ?b = "bindp (onSm (matchSettlement nfa a)) (\<lambda>ps. if ps = [] then ret () else for_eachp ps ?f)"
    have "core_ok E (snd (?b c))"
      by (rule core_settle_matched [OF c]) (auto intro!: keeps_intros core_disburse assms)
    moreover have "remediateOnce pw k nfa a = thenp ?b (bagp (\<lambda>b. store_delete b k))"
      by (rule ext) (auto simp: remediateOnce_def split: prod.split sum.split)
    ultimately show "core_ok E (snd (remediateOnce pw k nfa a c))"
      using keepsD [OF core_deleteMinted] by (auto split: prod.split sum.split)
  qed
  show ?thesis
    unfolding remediateMintedEarly_def remediateEntry_def by (intro keeps_intros once)
qed

lemma core_disburseResumed:
  assumes "core_ok E c" "d \<in> set (disbursing c)"
  shows "core_ok E (snd (disburseResumed d ok c))"
proof -
  let ?c = "c\<lparr>disbursing := remove1 d (disbursing c)\<rparr>"
  have d: "disburse_ok (pool c) d" using assms by (simp add: core_ok_def)
  have c1: "core_ok E ?c" using assms(1) by (auto simp: core_ok_def dest: in_set_remove1 [THEN iffD1, rotated] notin_set_remove1)
  let ?n = "settlingSeat d" and ?a = "[(''In'', received d)]"
  have nown: "\<not> own_seat (pool ?c) ?n" "0 \<le> received d" "split_nonneg (dbSplit d)"
    using d by (simp_all add: disburse_ok_def)
  show ?thesis
  proof (cases ok)
    case False
    with c1 show ?thesis by (simp add: disburseResumed_def)
  next
    case True
    define P where "P p \<longleftrightarrow> \<not> own_seat p ?n" for p
    have keepP: "P (pool (snd (onPool m x)))" if "\<And>a b. keeps (seats_are a b) m" "P (pool x)" for m :: "(pool_state, unit) proc" and x
      using keepsD [OF that(1), of "poolSeat (pool x)" "feeSeat (pool x)" "pool x"] that(2)
      by (cases "m (pool x)") (simp add: P_def own_seat_def seats_are_def)
    have w: "core_ok E (snd (withdrawn ?n (received d) x)) \<and> P (pool (snd (withdrawn ?n (received d) x)))" if "core_ok E x" "P (pool x)" for x
    proof
      show "core_ok E (snd (withdrawn ?n (received d) x))"
        unfolding withdrawn_def by (rule core_onPool [where P = P, OF _ _ that])
          (auto simp: P_def own_seat_def nown(2) intro!: pool_ok_set_alloc seats_onZcf)
      show "P (pool (snd (withdrawn ?n (received d) x)))"
        unfolding withdrawn_def by (rule keepP [OF _ that(2)]) (rule seats_onZcf)
    qed
    have rp: "core_ok E (snd (onPool (repay (fromOnly ?n ?a) (dbSplit d)) x)) \<and> P (pool (snd (onPool (repay (fromOnly ?n ?a) (dbSplit d)) x)))"
      if "core_ok E x" "P (pool x)" for x
    proof
      have "pool_ok (snd (repay (fromOnly ?n ?a) (dbSplit d) p))" if "pool_ok p" "P p" for p
        using pool_run_keeps [of p "PRepay ?n ''In'' (received d) (dbSplit d)"] that nown by (simp add: P_def)
      then show "core_ok E (snd (onPool (repay (fromOnly ?n ?a) (dbSplit d)) x))"
        by (rule core_onPool [where P = P, OF _ _ that]) (auto intro: seats_repay)
      show "P (pool (snd (onPool (repay (fromOnly ?n ?a) (dbSplit d)) x)))"
        by (rule keepP [OF _ that(2)]) (rule seats_repay)
    qed
    have ex: "core_ok E (snd (onPool (onZcf (seatExit ?n)) x))" if "core_ok E x" "P (pool x)" for x
      by (rule core_onPool [where P = P, OF _ _ that])
        (auto simp: P_def own_seat_def split: prod.split intro!: seats_onZcf dest: pool_ok_seatExit [of _ ?n])
    have last: "keeps (core_ok E) (onSm (disbursed (dbTxHash d) (dbSplit d)))"
      by (intro keeps_intros seen_intros)
    obtain r1 x1 where x1: "withdrawn ?n (received d) ?c = (r1, x1)" by fastforce
    obtain r2 x2 where x2: "onPool (repay (fromOnly ?n ?a) (dbSplit d)) x1 = (r2, x2)" by fastforce
    obtain r3 x3 where x3: "onPool (onZcf (seatExit ?n)) x2 = (r3, x3)" by fastforce
    have o1: "core_ok E x1" "P (pool x1)" using w [OF c1] nown(1) x1 by (simp_all add: P_def)
    have o2: "core_ok E x2" "P (pool x2)" using rp [OF o1] x2 by simp_all
    have o3: "core_ok E x3" using ex [OF o2] x3 by simp
    have o4: "core_ok E (snd (onSm (disbursed (dbTxHash d) (dbSplit d)) x3))" by (rule keepsD [OF last o3])
    show ?thesis using True x1 x2 x3 o1 o2 o3 o4
      by (auto simp: disburseResumed_def simp del: onPool_apply onSm_apply split: sum.split)
  qed
qed


section \<open>The flows\<close>

text \<open>
  An advance in flight is for published evidence, its seats are not the pool's, and its
  transaction is seen.
\<close>

definition run_ok :: "evidence set \<Rightarrow> settler_state \<Rightarrow> advance_run \<Rightarrow> bool" where
  "run_ok E c r \<longleftrightarrow>
     (\<exists>ev \<in> E. txHash ev = advTxHash r \<and> tx_nfa ev = advNfa r \<and> tx_amount ev = fullAmount r)
     \<and> 0 \<le> advanceAmount r \<and> \<not> own_seat (pool c) (tmpSeat r)
     \<and> (case advAwait r of AwaitWithdraw n \<Rightarrow> \<not> own_seat (pool c) n | _ \<Rightarrow> True)
     \<and> seenBy c (advTxHash r)"

definition flow_ok :: "evidence set \<Rightarrow> flow_state \<Rightarrow> bool" where
  "flow_ok E s \<longleftrightarrow> core_ok E (core s) \<and> (\<forall>r \<in> set (advanceRuns s). run_ok E (core s) r)
     \<and> distinct (map advTxHash (advanceRuns s)) \<and> (\<forall>er \<in> set (startedAdvances s). evidence er \<in> E)"

text \<open>What every step of the settler and the pool leaves alone: the pool's seats and what was seen.\<close>

definition frame :: "seat_id \<Rightarrow> seat_id \<Rightarrow> evm_hash set \<Rightarrow> settler_state \<Rightarrow> bool" where
  "frame a b H c \<longleftrightarrow> seats_are a b (pool c) \<and> (\<forall>h \<in> H. seenBy c h)"

definition seen_all :: "evm_hash set \<Rightarrow> sm_state \<Rightarrow> bool" where
  "seen_all H x \<longleftrightarrow> (\<forall>h \<in> H. store_has (seenTxs x) h)"

lemma seen_all_modify: "(\<And>x. seenTxs (f x) = seenTxs x) \<Longrightarrow> keeps (seen_all H) (modifyp f)"
  by (rule keeps_modifyp) (simp add: seen_all_def)

named_theorems stay_intros \<open>what was seen stays seen\<close>

lemma stay_basic [stay_intros]:
  "keeps (seen_all H) (publishTxnRecord h rec)" "keeps (seen_all H) (noteRouteHealth (retrier m) d w)"
  "keeps (seen_all H) (setPendingTxStatus nfa a st)" "keeps (seen_all H) (matchSettlement nfa a)"
  "keeps (seen_all H) (advanceOutcomeForUnknownMint ev)" "keeps (seen_all H) (advance ev)" "keeps (seen_all H) (skipAdvance ev rs)"
  "keeps (seen_all H) (modifyp (startForward t))"
  by (rule keepsI, auto simp: publishTxnRecord_eq noteRouteHealth_retrier setPendingTxStatus_eq matchSettlement_eq
      advanceOutcomeForUnknownMint_eq advance_def skipAdvance_def initPendingTx_eq seen_all_def startForward_eq
      split: sum.split option.split)+

lemma stay_rest [stay_intros]:
  "keeps (seen_all H) (clearInProgress h)" "keeps (seen_all H) (registerFailed ff c)"
  "keeps (seen_all H) (modifyp (\<lambda>x. x\<lparr>forwardInProgress := set_add (forwardInProgress x) h\<rparr>))"
  "keeps (seen_all H) (modifyp (\<lambda>x. x\<lparr>failedForwards := drop_entry h (failedForwards x)\<rparr>))"
  "keeps (seen_all H) deleteCompletedTxs"
  unfolding clearInProgress_def registerFailed_def deleteCompletedTxs_def by (rule seen_all_modify; simp)+

lemma stay_methods [stay_intros]:
  "keeps (seen_all H) (noteOptional (retrier m) dd w)" "keeps (seen_all H) (disbursed h sp)"
  "keeps (seen_all H) (forwardSkipped h)" "keeps (seen_all H) (forwarding h)" "keeps (seen_all H) (deletionDone h)"
  "keeps (seen_all H) (forwarded (retrier m) h t)" "keeps (seen_all H) (forwardFailed (retrier m) h t)"
  unfolding noteOptional_def disbursed_def forwardSkipped_def forwarding_def deletionDone_def forwarded_def forwardFailed_def
  by (auto intro!: keeps_intros stay_intros seen_all_modify split: option.split)

lemma stay_outcome [stay_intros]:
  "keeps (seen_all H) (advanceOutcome (retrier m) nfa a ok d)"
  "keeps (seen_all H) (advanceOutcomeForMintedEarly (retrier m) h ok d)"
  unfolding advanceOutcome_def advanceOutcomeForMintedEarly_def by (intro keeps_intros stay_intros)+

lemma frame_onSm [stay_intros]: "keeps (seen_all H) m \<Longrightarrow> keeps (frame a b H) (onSm m)"
  unfolding keeps_def frame_def seen_all_def by (auto split: prod.split)

lemma frame_onPool [stay_intros]: "keeps (seats_are a b) m \<Longrightarrow> keeps (frame a b H) (onPool m)"
  unfolding keeps_def frame_def by (auto split: prod.split)

lemma frame_bagp [stay_intros]: "keeps (frame a b H) (bagp f)"
  unfolding bagp_def by (intro keeps_intros keeps_modifyp) (simp add: frame_def)

lemma frame_settler [stay_intros]:
  "keeps (frame a b H) (disburse pw h x eud)" "keeps (frame a b H) (forward pw h x eud)"
  "keeps (frame a b H) (addMintedEarly nfa x)" "keeps (frame a b H) (removeMintedEarly k)"
  unfolding disburse_def forward_def addMintedEarly_def removeMintedEarly_def
  by (intro keeps_intros stay_intros keeps_modifyp; simp add: frame_def)+

lemma frame_handlers [stay_intros]:
  assumes "settler_powers_ok pw"
  shows "keeps (frame a b H) (notifyAdvancingResult pw h nfa x d ok)" "keeps (frame a b H) (checkMintedEarly pw ev dest)"
    "keeps (frame a b H) (receiveUpcall pw packet)" "keeps (frame a b H) (remediateMintedEarly pw y)"
    "keeps (frame a b H) (disburseResumed db ok)"
proof -
  obtain m where m: "rh pw = retrier m" using assms by (auto simp: settler_powers_ok_def)
  have s: "keeps (frame a b H) (settleFound pw nfa eud p)" for nfa eud p
    by (cases "status p") (auto simp: settleFound_def intro!: keeps_intros stay_intros)
  show "keeps (frame a b H) (notifyAdvancingResult pw h nfa x d ok)" "keeps (frame a b H) (checkMintedEarly pw ev dest)"
    "keeps (frame a b H) (receiveUpcall pw packet)"
    unfolding notifyAdvancingResult_def checkMintedEarly_def receiveUpcall_def Let_def m
    by (intro keeps_intros stay_intros s)+
  show "keeps (frame a b H) (remediateMintedEarly pw y)"
    unfolding remediateMintedEarly_def remediateEntry_def remediateOnce_def by (intro keeps_intros stay_intros)
  show "keeps (frame a b H) (disburseResumed db ok)"
    unfolding disburseResumed_def withdrawn_def by (intro keeps_intros stay_intros keeps_modifyp) (simp add: frame_def)
qed

lemma run_ok_frame:
  assumes "run_ok E c r" "frame (poolSeat (pool c)) (feeSeat (pool c)) {advTxHash r} c'"
  shows "run_ok E c' r"
  using assms by (auto simp: run_ok_def frame_def seats_are_def own_seat_def split: advance_await.splits)

text \<open>A step of the core that keeps its invariant keeps that of the flows.\<close>

lemma flow_onCore:
  assumes "flow_ok E s" "core_ok E (snd (m (core s)))" "\<And>a b H. keeps (frame a b H) m"
  shows "flow_ok E (snd (onCore m s))"
proof -
  obtain r c where c: "m (core s) = (r, c)" by fastforce
  have "run_ok E c r'" if "r' \<in> set (advanceRuns s)" for r'
  proof (rule run_ok_frame)
    show ok: "run_ok E (core s) r'" using assms(1) that by (simp add: flow_ok_def)
    have "frame (poolSeat (pool (core s))) (feeSeat (pool (core s))) {advTxHash r'} (core s)"
      using ok by (simp add: frame_def seats_are_def run_ok_def)
    then show "frame (poolSeat (pool (core s))) (feeSeat (pool (core s))) {advTxHash r'} c"
      using keepsD [OF assms(3)] c by (metis snd_conv)
  qed
  with assms(1,2) c show ?thesis by (simp add: flow_ok_def)
qed

lemma keeps_onCore:
  assumes "keeps (core_ok E) m" "\<And>a b H. keeps (frame a b H) m"
  shows "keeps (flow_ok E) (onCore m)"
  by (rule keepsI, rule flow_onCore) (use assms in \<open>auto simp: flow_ok_def intro: keepsD\<close>)

lemma keeps_smCall:
  assumes "keeps sm_ok m" "keeps (seen_in E) m" "\<And>H. keeps (seen_all H) m"
  shows "keeps (flow_ok E) (smCall m)"
  using assms by (intro keeps_onCore keeps_intros stay_intros)

lemma keeps_callAccount [keeps_intros]: "keeps (flow_ok E) (callAccount c)"
  unfolding callAccount_def by (rule keeps_modifyp) (simp add: flow_ok_def)

lemma keeps_getICA [keeps_intros]: "keeps I getNobleICA"
  unfolding getNobleICA_def by (intro keeps_intros)

lemma keeps_awaitForward [keeps_intros]: "keeps (flow_ok E) (awaitForward t w)"
  unfolding awaitForward_def by (rule keeps_modifyp) (simp add: flow_ok_def)

definition flow_powers_ok :: "flow_powers \<Rightarrow> bool" where
  "flow_powers_ok pw \<longleftrightarrow> settler_powers_ok (settlerPw pw)"

lemma forward_keeps:
  assumes "flow_powers_ok pw"
  shows "keeps (flow_ok E) (forwardFunds pw t)" "keeps (flow_ok E) (runForward pw t)" "keeps (flow_ok E) (resumeForward pw run ok)"
proof -
  obtain m where m: "routes pw = retrier m" using assms by (auto simp: flow_powers_ok_def settler_powers_ok_def)
  have rep: "keeps (flow_ok E) (reportFailed pw t i)" for t i
    unfolding reportFailed_def m by (intro keeps_smCall keeps_intros seen_intros stay_intros)
  have st: "keeps (flow_ok E) (smCall (forwarding h))" "keeps (flow_ok E) (smCall (forwardSkipped h))"
    "keeps (flow_ok E) (smCall (forwarded (retrier m) h t'))" for h t'
    by (intro keeps_smCall keeps_intros seen_intros stay_intros)+
  show f: "keeps (flow_ok E) (forwardFunds pw t)"
    unfolding forwardFunds_def Let_def by (intro keeps_intros rep st)
  have "keeps (flow_ok E) (smCall (modifyp (\<lambda>s. s\<lparr>startedForwards := remove1 t (startedForwards s)\<rparr>)))"
    by (intro keeps_smCall keeps_modifyp seen_modify seen_all_modify) (simp_all add: sm_ok_def)
  then show "keeps (flow_ok E) (runForward pw t)"
    unfolding runForward_def by (intro keeps_intros f)
  have "keeps (flow_ok E) (modifyp (\<lambda>s. s\<lparr>forwardRuns := remove1 run (forwardRuns s)\<rparr>))"
    by (rule keeps_modifyp) (simp add: flow_ok_def)
  then show "keeps (flow_ok E) (resumeForward pw run ok)"
    unfolding resumeForward_def Let_def m
    by (cases "fwdAwait run") (auto intro!: keeps_intros rep st)
qed


subsection \<open>Starting an advance\<close>

lemma flow_poolCall:
  assumes "flow_ok E s" "P (pool (core s))" "\<And>p. pool_ok p \<Longrightarrow> P p \<Longrightarrow> pool_ok (snd (m p))" "\<And>a b. keeps (seats_are a b) m"
  shows "flow_ok E (snd (poolCall m s))"
proof (rule flow_onCore [OF assms(1)])
  show "core_ok E (snd (onPool m (core s)))"
    by (rule core_onPool [where P = P]) (use assms in \<open>auto simp: flow_ok_def\<close>)
qed (intro stay_intros assms(4))

lemma run_ok_await:
  "run_ok E c (r\<lparr>advAwait := w\<rparr>) \<longleftrightarrow>
     (\<exists>ev \<in> E. txHash ev = advTxHash r \<and> tx_nfa ev = advNfa r \<and> tx_amount ev = fullAmount r)
     \<and> 0 \<le> advanceAmount r \<and> \<not> own_seat (pool c) (tmpSeat r)
     \<and> (case w of AwaitWithdraw n \<Rightarrow> \<not> own_seat (pool c) n | _ \<Rightarrow> True) \<and> seenBy c (advTxHash r)"
  by (simp add: run_ok_def)

lemma unlessMinted_keeps:
  assumes s: "flow_ok E s" and ev: "ev \<in> E" "evidence_shape ev" and new: "\<not> seenBy (core s) (txHash ev)"
    and pw: "flow_powers_ok pw"
  shows "flow_ok E (snd (advanceUnlessMinted pw ev d s))"
proof -
  have core: "core_ok E (core s)" "bag_ok (mintedEarly (core s))" "pool_ok (pool (core s))"
    using s by (simp_all add: flow_ok_def core_ok_def)
  have pw': "settler_powers_ok (settlerPw pw)" using pw by (simp add: flow_powers_ok_def)
  have minted: "flow_ok E (snd (onCore (checkMintedEarly (settlerPw pw) ev d) s))"
    by (rule flow_onCore [OF s]) (use core keepsD [OF core_checkMinted [OF ev(1)]] frame_handlers(2) [OF pw'] in auto)
  consider (neg) "tx_amount ev < 0"
    | (minted) c' where "0 \<le> tx_amount ev" "checkMintedEarly (settlerPw pw) ev d (core s) = (Inr True, c')"
    | (fresh) "0 \<le> tx_amount ev" "checkMintedEarly (settlerPw pw) ev d (core s) = (Inr False, core s)"
    using checkMintedEarly_cases [OF core(2) new, of "settlerPw pw" d] by force
  then show ?thesis
  proof cases
    case neg
    with s show ?thesis by (simp add: advanceUnlessMinted_def)
  next
    case minted
    with \<open>flow_ok E (snd (onCore _ s))\<close> show ?thesis by (simp add: advanceUnlessMinted_def)
  next
    case fresh
    show ?thesis
    proof (cases "calculateAdvance (fees (settlerPw pw)) (tx_amount ev) d")
      case (Inl e)
      with fresh s show ?thesis by (simp add: advanceUnlessMinted_def)
    next
      case (Inr adv)
      let ?n = "nextSeat (zcf (pool (core s)))" and ?s1 = "s\<lparr>core := with_seat (core s)\<rparr>"
      have adv: "0 \<le> adv" using Inr by (rule calculateAdvance_nonneg)
      have eq1: "poolCall (onZcf makeEmptySeatKit) s = (Inr ?n, ?s1)"
        by (simp add: makeEmptySeatKit_eq with_seat_def)
      have "core_ok E (snd (onPool (onZcf makeEmptySeatKit) (core s)))"
        using core_with_seat(1) [OF core(1)] by (simp add: makeEmptySeatKit_eq with_seat_def)
      then have ok1: "flow_ok E ?s1"
        using flow_onCore [OF s, of "onPool (onZcf makeEmptySeatKit)"] eq1 frame_onPool [OF seats_onZcf] by auto
      define P where "P p \<longleftrightarrow> \<not> own_seat p ?n" for p
      have p1: "P (pool (core ?s1))" using core_with_seat(2) [OF core(1)] by (simp add: P_def)
      obtain rb s2 where b: "poolCall (borrow ?n adv) ?s1 = (rb, s2)" by fastforce
      have "flow_ok E (snd (poolCall (borrow ?n adv) ?s1))"
      proof (rule flow_poolCall [OF ok1, of P])
        show "pool_ok (snd (borrow ?n adv p))" if "pool_ok p" "P p" for p
          using that borrow_Inl [OF that(1), of ?n adv] borrow_Inr(1) [OF that(1), of ?n adv] adv
          by (cases "borrow ?n adv p"; cases "fst (borrow ?n adv p)") (auto simp: P_def own_seat_def)
      qed (use p1 in \<open>auto intro: seats_borrow\<close>)
      then have ok2: "flow_ok E s2" using b by simp
      have same2: "sm (core s2) = sm (core s)" "advanceRuns s2 = advanceRuns s" "P (pool (core s2))"
        using b p1 keepsD [OF seats_borrow, of _ _ "pool (core ?s1)" ?n adv]
        by (auto simp: P_def own_seat_def seats_are_def split: prod.splits)
      show ?thesis
      proof (cases rb)
        case Inl': (Inl e)
        have "advanceUnlessMinted pw ev d s = (Inl e, s2)"
          using fresh Inr eq1 b Inl' by (simp add: advanceUnlessMinted_def del: onCore_apply)
            (simp add: onCore_apply)
        with ok2 show ?thesis by simp
      next
        case Inr': (Inr u)
        obtain x where x: "advance ev (sm (core s2)) = (Inr (), x)" "store_has (seenTxs x) (txHash ev)"
          using advance_new [of "sm (core s2)" ev] new same2(1) by auto
        let ?s3 = "s2\<lparr>core := (core s2)\<lparr>sm := x\<rparr>\<rparr>"
        have "keeps (flow_ok E) (smCall (advance ev))"
          using ev by (intro keeps_smCall keeps_intros seen_intros stay_intros)
        then have "flow_ok E (snd (smCall (advance ev) s2))" using ok2 by (rule keepsD)
        then have ok3: "flow_ok E ?s3" using x(1) by simp
        let ?r = "\<lparr>advTxHash = txHash ev, advNfa = tx_nfa ev, fullAmount = tx_amount ev,
            advDestination = d, advanceAmount = adv, tmpSeat = ?n, advAwait = AwaitDeposit\<rparr>"
        have fresh_hash: "txHash ev \<notin> set (map advTxHash (advanceRuns s))"
          using s new by (auto simp: flow_ok_def run_ok_def)
        have "run_ok E (core ?s3) ?r"
          using ev(1) adv same2(3) x(2) by (auto simp: run_ok_def P_def)
        then have "flow_ok E (?s3\<lparr>advanceRuns := advanceRuns s @ [?r]\<rparr>)"
          using ok3 fresh_hash same2(2) by (auto simp: flow_ok_def)
        moreover have "advanceUnlessMinted pw ev d s = (Inr (), ?s3\<lparr>advanceRuns := advanceRuns s @ [?r]\<rparr>)"
          using fresh Inr eq1 b Inr' x(1) same2(2)
          by (simp add: advanceUnlessMinted_def del: onCore_apply) (simp add: onCore_apply awaitAdvance_def)
        ultimately show ?thesis by simp
      qed
    qed
  qed
qed

lemma advanceFunds_keeps:
  assumes s: "flow_ok E s" and er: "evidence er \<in> E" and E: "\<forall>ev \<in> E. evidence_shape ev" and pw: "flow_powers_ok pw"
  shows "flow_ok E (snd (advanceFunds pw er s))"
proof -
  let ?ev = "evidence er"
  have skip: "keeps (flow_ok E) (smCall (skipAdvance ?ev rs))" for rs
    using er E by (intro keeps_smCall keeps_intros seen_intros stay_intros) auto
  have "flow_ok E (snd (advanceChecks pw ?ev (risksIdentified (risk er)) s))"
  proof (cases "seenBy (core s) (txHash ?ev)")
    case True
    with s show ?thesis by (simp add: advanceChecks_def hasBeenObserved_def)
  next
    case False
    have um: "flow_ok E (snd (advanceUnlessMinted pw ?ev d s))" for d
      using unlessMinted_keeps [OF s er _ False pw] E er by blast
    show ?thesis
      using False s um keepsD [OF skip s]
      by (auto simp: advanceChecks_def hasBeenObserved_def simp del: onCore_apply split: sum.split)
  qed
  with keepsD [OF skip] show ?thesis
    by (auto simp: advanceFunds_def simp del: onCore_apply split: prod.splits sum.split)
qed

subsection \<open>Resuming an advance\<close>

text \<open>
  \<open>ends I J m\<close>: from \<open>I\<close> a throw leaves \<open>I\<close> and a return leaves \<open>J\<close>. Here \<open>I\<close> says the run has been
  taken off the list and may be put back.
\<close>

definition ends :: "('s \<Rightarrow> bool) \<Rightarrow> ('s \<Rightarrow> bool) \<Rightarrow> ('s, 'a) proc \<Rightarrow> bool" where
  "ends I J m \<longleftrightarrow> (\<forall>s r s'. I s \<longrightarrow> m s = (r, s') \<longrightarrow> (case r of Inl _ \<Rightarrow> I s' | Inr _ \<Rightarrow> J s'))"

lemma endsI: "(\<And>s r s'. I s \<Longrightarrow> m s = (r, s') \<Longrightarrow> (case r of Inl _ \<Rightarrow> I s' | Inr _ \<Rightarrow> J s')) \<Longrightarrow> ends I J m"
  by (simp add: ends_def)

lemma endsD: "ends I J m \<Longrightarrow> I s \<Longrightarrow> m s = (r, s') \<Longrightarrow> (case r of Inl _ \<Rightarrow> I s' | Inr _ \<Rightarrow> J s')"
  by (simp add: ends_def)

lemma ends_bindp:
  assumes "keeps I m" "\<And>x. ends I J (f x)"
  shows "ends I J (bindp m f)"
proof (rule endsI)
  fix s r s' assume s: "I s" and b: "bindp m f s = (r, s')"
  obtain q t where q: "m s = (q, t)" by fastforce
  have t: "I t" using keepsD [OF assms(1) s] q by simp
  show "case r of Inl _ \<Rightarrow> I s' | Inr _ \<Rightarrow> J s'"
    using b q t endsD [OF assms(2) t] by (cases q) auto
qed

lemma ends_thenp: "keeps I m \<Longrightarrow> ends I J k \<Longrightarrow> ends I J (thenp m k)"
  unfolding thenp_def by (rule ends_bindp)

lemma ends_catchp:
  assumes "ends I J m" "\<And>e. ends I J (h e)"
  shows "ends I J (catchp m h)"
proof (rule endsI)
  fix s r s' assume s: "I s" and b: "catchp m h s = (r, s')"
  obtain q t where q: "m s = (q, t)" by fastforce
  show "case r of Inl _ \<Rightarrow> I s' | Inr _ \<Rightarrow> J s'"
    using b q endsD [OF assms(1) s q] endsD [OF assms(2)] by (cases q) auto
qed

lemma ends_keeps:
  assumes "keeps I m" "\<And>s. I s \<Longrightarrow> J s"
  shows "ends I J m"
proof (rule endsI)
  fix s r s' assume "I s" "m s = (r, s')"
  then have "I s'" using keepsD [OF assms(1), of s] by simp
  then show "case r of Inl _ \<Rightarrow> I s' | Inr _ \<Rightarrow> J s'" using assms(2) by (cases r) auto
qed

lemma ends_throw: "ends I J (throw e)"
  by (simp add: ends_def)

lemma ends_result: "ends I J m \<Longrightarrow> (\<And>s. I s \<Longrightarrow> J s) \<Longrightarrow> I s \<Longrightarrow> J (snd (m s))"
proof -
  assume *: "ends I J m" "\<And>s. I s \<Longrightarrow> J s" "I s"
  obtain r s' where m: "m s = (r, s')" by fastforce
  from *(1,3) m have "case r of Inl _ \<Rightarrow> I s' | Inr _ \<Rightarrow> J s'" unfolding ends_def by blast
  with *(2) m show "J (snd (m s))" by (cases r) auto
qed

definition resumable :: "evidence set \<Rightarrow> advance_run \<Rightarrow> flow_state \<Rightarrow> bool" where
  "resumable E r s \<longleftrightarrow> flow_ok E s \<and> run_ok E (core s) r \<and> advTxHash r \<notin> set (map advTxHash (advanceRuns s))"

lemma resumable_flow: "resumable E r s \<Longrightarrow> flow_ok E s"
  by (simp add: resumable_def)

lemma resumable_onCore:
  assumes "\<And>c. core_ok E c \<Longrightarrow> run_ok E c r \<Longrightarrow> core_ok E (snd (m c))" "\<And>a b H. keeps (frame a b H) m"
  shows "keeps (resumable E r) (onCore m)"
proof (rule keepsI)
  fix s assume s: "resumable E r s"
  obtain q c where c: "m (core s) = (q, c)" by fastforce
  have "core_ok E (snd (m (core s)))" using assms(1) s by (simp add: resumable_def flow_ok_def)
  then have "flow_ok E (snd (onCore m s))"
    using flow_onCore [of E s m] assms(2) s by (simp add: resumable_def)
  moreover have "run_ok E c r"
  proof (rule run_ok_frame)
    show ok: "run_ok E (core s) r" using s by (simp add: resumable_def)
    have "frame (poolSeat (pool (core s))) (feeSeat (pool (core s))) {advTxHash r} (core s)"
      using ok by (simp add: frame_def seats_are_def run_ok_def)
    then show "frame (poolSeat (pool (core s))) (feeSeat (pool (core s))) {advTxHash r} c"
      using keepsD [OF assms(2)] c by (metis snd_conv)
  qed
  ultimately show "resumable E r (snd (onCore m s))" using s c by (simp add: resumable_def)
qed

lemma resumable_poolCall:
  assumes "\<And>p. pool_ok p \<Longrightarrow> \<not> own_seat p n \<Longrightarrow> pool_ok (snd (m p))" "\<And>a b. keeps (seats_are a b) m"
    "n = tmpSeat r \<or> advAwait r = AwaitWithdraw n"
  shows "keeps (resumable E r) (poolCall m)"
proof (rule resumable_onCore)
  show "core_ok E (snd (onPool m c))" if "core_ok E c" "run_ok E c r" for c
    by (rule core_onPool [where P = "\<lambda>p. \<not> own_seat p n", OF assms(1,2) that(1)])
      (use that(2) assms(3) in \<open>auto simp: run_ok_def\<close>)
qed (intro stay_intros assms(2))

lemma resumable_call: "keeps (resumable E r) (callAccount c)"
  unfolding callAccount_def by (rule keeps_modifyp) (simp add: resumable_def flow_ok_def)

lemma resumable_notify:
  assumes "flow_powers_ok pw" "\<forall>ev \<in> E. evidence_shape ev"
  shows "keeps (resumable E r) (notifyResult pw r b)"
  unfolding notifyResult_def
proof (rule resumable_onCore)
  have pw: "settler_powers_ok (settlerPw pw)" using assms(1) by (simp add: flow_powers_ok_def)
  show "core_ok E (snd (notifyAdvancingResult (settlerPw pw) (advTxHash r) (advNfa r) (fullAmount r) (AccountId (advDestination r)) b c))"
    if "core_ok E c" "run_ok E c r" for c
  proof (rule keepsD [OF core_notify [OF pw] that(1)])
    show "0 \<le> fullAmount r" using that(2) assms(2) by (auto simp: run_ok_def evidence_shape_def)
  qed
qed (intro stay_intros, use assms(1) in \<open>simp add: flow_powers_ok_def\<close>)

lemma ends_await:
  "(case w of AwaitWithdraw n \<Rightarrow> False | _ \<Rightarrow> True) \<Longrightarrow> ends (resumable E r) (flow_ok E) (awaitAdvance r w)"
  unfolding ends_def awaitAdvance_def
  by (cases w) (auto simp: resumable_def flow_ok_def run_ok_await run_ok_def)

lemma ends_repayPool: "ends (resumable E r) (flow_ok E) (repayPool r)"
  unfolding ends_def
proof (intro allI impI)
  fix s q s' assume s: "resumable E r s" and q: "repayPool r s = (q, s')"
  let ?n = "nextSeat (zcf (pool (core s)))" and ?m = "onPool (onZcf makeEmptySeatKit)"
  have c: "core_ok E (core s)" using s by (simp add: resumable_def flow_ok_def)
  have m: "snd (?m (core s)) = with_seat (core s)" by (simp add: makeEmptySeatKit_eq with_seat_def)
  note W = core_with_seat [OF c]
  have fr: "keeps (frame a b H) ?m" for a b H by (intro stay_intros seats_onZcf)
  have "flow_ok E (s\<lparr>core := with_seat (core s)\<rparr>)"
    using flow_onCore [of E s ?m] s W(1) fr m by (simp add: resumable_def split: prod.splits)
  moreover have "run_ok E (with_seat (core s)) (r\<lparr>advAwait := AwaitWithdraw ?n\<rparr>)"
  proof -
    have ok: "run_ok E (core s) r" using s by (simp add: resumable_def)
    have "frame (poolSeat (pool (core s))) (feeSeat (pool (core s))) {advTxHash r} (core s)"
      using ok by (simp add: frame_def seats_are_def run_ok_def)
    then have "run_ok E (with_seat (core s)) r"
      using run_ok_frame [OF ok] keepsD [OF fr] m by metis
    then show ?thesis using W(2) by (auto simp: run_ok_await run_ok_def)
  qed
  ultimately show "case q of Inl _ \<Rightarrow> resumable E r s' | Inr _ \<Rightarrow> flow_ok E s'"
    using q s by (auto simp: repayPool_eq resumable_def flow_ok_def)
qed

lemma alloc_taken: "pool_ok p \<Longrightarrow> \<not> own_seat p n \<Longrightarrow> 0 \<le> a \<Longrightarrow> pool_ok (p\<lparr>zcf := takenFrom n a (zcf p)\<rparr>)"
proof -
  assume p: "pool_ok p" "\<not> own_seat p n" "0 \<le> a"
  show ?thesis
  proof (cases "map_of (activeSeats (zcf p)) n")
    case (Some st)
    have "alloc_ok (allocated st)" using p(1) Some by (auto simp: pool_ok_def seats_ok_def dest: zcf_okD)
    then have "alloc_ok (minus_alloc (allocated st) [(''USDC'', a)])"
      using subtractFromAllocation_Inl [of "allocated st" "''USDC''" "[(''USDC'', a)]" a] p(3)
        minus_alloc_laws(2) [of "allocated st" "[(''USDC'', a)]"]
      by (cases "a \<le> amt (allocated st) ''USDC''") (auto simp: covers_single minus_alloc_def)
    then show ?thesis using p(1,2) Some by (auto simp: takenFrom_def own_seat_def intro!: pool_ok_set_alloc)
  qed (simp add: takenFrom_def p)
qed


lemma ends_if: "(b \<Longrightarrow> ends I J m) \<Longrightarrow> (\<not> b \<Longrightarrow> ends I J k) \<Longrightarrow> ends I J (if b then m else k)"
  by simp

lemma resumable_steps:
  assumes "0 \<le> advanceAmount r" "n = tmpSeat r \<or> advAwait r = AwaitWithdraw n"
  shows "keeps (resumable E r) (poolCall (onZcf (seatExit n)))"
    "keeps (resumable E r) (poolCall (returnToPool n (advanceAmount r)))"
    "keeps (resumable E r) (poolCall (onZcf (modifyp (takenFrom n (advanceAmount r)))))"
    "keeps (resumable E r) (poolCall (onZcf (modifyp (set_alloc n [(''USDC'', advanceAmount r)]))))"
proof -
  have x1: "pool_ok (snd (onZcf (seatExit n) p))" if "pool_ok p" "\<not> own_seat p n" for p
    using pool_ok_seatExit [OF that(1), of n] that(2) by (cases "seatExit n (zcf p)") (simp add: own_seat_def)
  have x2: "pool_ok (snd (returnToPool n (advanceAmount r) p))" if "pool_ok p" "\<not> own_seat p n" for p
    using returnToPool_keeps [OF that(1), of n] that(2) assms(1) by (simp add: own_seat_def)
  have x3: "pool_ok (snd (onZcf (modifyp (set_alloc n [(''USDC'', advanceAmount r)])) p))" if "pool_ok p" "\<not> own_seat p n" for p
    using pool_ok_set_alloc [OF that(1), of n] that(2) assms(1) by (simp add: own_seat_def)
  have x4: "pool_ok (snd (onZcf (modifyp (takenFrom n (advanceAmount r))) p))" if "pool_ok p" "\<not> own_seat p n" for p
    using alloc_taken [OF that assms(1)] by simp
  show "keeps (resumable E r) (poolCall (onZcf (seatExit n)))"
    by (rule resumable_poolCall [OF x1 seats_onZcf assms(2)])
  show "keeps (resumable E r) (poolCall (returnToPool n (advanceAmount r)))"
    by (rule resumable_poolCall [OF x2 seats_return assms(2)])
  show "keeps (resumable E r) (poolCall (onZcf (modifyp (takenFrom n (advanceAmount r)))))"
    by (rule resumable_poolCall [OF x4 seats_onZcf assms(2)])
  show "keeps (resumable E r) (poolCall (onZcf (modifyp (set_alloc n [(''USDC'', advanceAmount r)]))))"
    by (rule resumable_poolCall [OF x3 seats_onZcf assms(2)])
qed

lemma distinct_keys_remove1:
  assumes "distinct (map f xs)" "x \<in> set xs"
  shows "f x \<notin> set (map f (remove1 x xs))" "distinct (map f (remove1 x xs))"
proof -
  have sub: "set (remove1 x xs) \<subseteq> set xs - {x}" using assms(1) by (auto simp: distinct_map)
  have inj: "inj_on f (set xs)" using assms(1) by (simp add: distinct_map)
  then show "f x \<notin> set (map f (remove1 x xs))" using sub assms(2) by (auto simp: inj_on_def)
  show "distinct (map f (remove1 x xs))"
    using assms(1) inj_on_subset [OF inj] sub by (auto simp: distinct_map)
qed

text \<open>The parts of a resumed advance.\<close>

definition fit :: "evidence set \<Rightarrow> advance_run \<Rightarrow> flow_powers \<Rightarrow> bool" where
  "fit E r pw \<longleftrightarrow> (\<forall>ev \<in> E. evidence_shape ev) \<and> flow_powers_ok pw \<and> 0 \<le> advanceAmount r"

lemma fit_keeps:
  assumes "fit E r pw"
  shows "keeps (resumable E r) (notifyResult pw r b)"
    "keeps (resumable E r) (poolCall (onZcf (seatExit (tmpSeat r))))"
    "keeps (resumable E r) (poolCall (returnToPool (tmpSeat r) (advanceAmount r)))"
    "keeps (resumable E r) (poolCall (onZcf (modifyp (takenFrom (tmpSeat r) (advanceAmount r)))))"
  using assms resumable_steps [of r "tmpSeat r" E] resumable_notify [of pw E r b] by (simp_all add: fit_def)

lemma fit_notify: "fit E r pw \<Longrightarrow> ends (resumable E r) (flow_ok E) (notifyResult pw r b)"
  by (rule ends_keeps [OF fit_keeps(1) resumable_flow])

lemma fit_depositRejected: "fit E r pw \<Longrightarrow> ends (resumable E r) (flow_ok E) (depositRejected pw r)"
  unfolding depositRejected_def
  by (rule ends_keeps [OF _ resumable_flow]) (intro keeps_catchp keeps_thenp keeps_ret fit_keeps)

lemma fit_transferRejected: "fit E r pw \<Longrightarrow> ends (resumable E r) (flow_ok E) (transferRejected pw r)"
  unfolding transferRejected_def by (intro ends_thenp fit_keeps(1) ends_repayPool)

lemma fit_cctpRejected: "fit E r pw \<Longrightarrow> ends (resumable E r) (flow_ok E) (cctpFromNobleRejected pw r)"
  unfolding cctpFromNobleRejected_def
  by (intro ends_thenp ends_bindp ends_if fit_keeps(1) keeps_getsp ends_repayPool resumable_call ends_await) simp_all

lemma fit_deposited: "fit E r pw \<Longrightarrow> ends (resumable E r) (flow_ok E) (deposited pw r)"
  unfolding deposited_def Let_def
  by (intro ends_thenp ends_bindp ends_if fit_keeps keeps_getICA keeps_liftp resumable_call ends_await ends_throw) simp_all

lemma fit_burn:
  "fit E r pw \<Longrightarrow> ends (resumable E r) (flow_ok E) (catchp (bindp getNobleICA (\<lambda>_.
      thenp (callAccount (NobleBurn (advDestination r) (advanceAmount r))) (awaitAdvance r AwaitAdvanceBurn)))
      (\<lambda>_. depositRejected pw r))"
  by (intro ends_thenp ends_bindp ends_catchp keeps_getICA resumable_call ends_await fit_depositRejected) simp_all

definition resumeBody :: "flow_powers \<Rightarrow> advance_run \<Rightarrow> bool \<Rightarrow> (flow_state, unit) proc" where
  "resumeBody pw r ok = (\<lambda>s. resumeAdvance pw r ok (s\<lparr>advanceRuns := r # advanceRuns s\<rparr>))"

lemma resumeBody_eq:
  "resumeBody pw r ok = (case advAwait r of
          AwaitDeposit \<Rightarrow>
            (if ok
             then thenp (poolCall (onZcf (modifyp (takenFrom (tmpSeat r) (advanceAmount r)))))
                        (catchp (deposited pw r) (\<lambda>_. depositRejected pw r))
             else depositRejected pw r)
        | AwaitTransfer \<Rightarrow>
            catchp (if ok then catchp (notifyResult pw r True) (\<lambda>_. transferRejected pw r)
                    else transferRejected pw r)
                   (\<lambda>_. depositRejected pw r)
        | AwaitToNoble \<Rightarrow>
            (if ok
             then catchp (bindp getNobleICA (\<lambda>_.
                            thenp (callAccount (NobleBurn (advDestination r) (advanceAmount r)))
                                  (awaitAdvance r AwaitAdvanceBurn)))
                         (\<lambda>_. depositRejected pw r)
             else transferRejected pw r)
        | AwaitAdvanceBurn \<Rightarrow>
            (if ok then catchp (notifyResult pw r True) (\<lambda>_. depositRejected pw r)
             else cctpFromNobleRejected pw r)
        | AwaitReturnFromNoble \<Rightarrow> repayPool r
        | AwaitWithdraw tmpReturnSeat \<Rightarrow>
            (if ok
             then thenp (poolCall (onZcf (modifyp (set_alloc tmpReturnSeat [(''USDC'', advanceAmount r)]))))
                        (catchp (poolCall (returnToPool tmpReturnSeat (advanceAmount r))) (\<lambda>_. ret ()))
             else withdrawRejected tmpReturnSeat))"
  by (rule ext) (simp add: resumeBody_def resumeAdvance_def thenp_def bindp_def)

lemma fit_body:
  assumes f: "fit E r pw"
  shows "ends (resumable E r) (flow_ok E) (resumeBody pw r ok)"
proof (cases "advAwait r")
  case AwaitDeposit
  show ?thesis
    unfolding resumeBody_eq AwaitDeposit advance_await.case
    by (intro ends_if ends_thenp ends_catchp fit_keeps(4) [OF f] fit_deposited [OF f] fit_depositRejected [OF f])
next
  case AwaitTransfer
  show ?thesis
    unfolding resumeBody_eq AwaitTransfer advance_await.case
    by (intro ends_if ends_catchp fit_notify [OF f] fit_transferRejected [OF f] fit_depositRejected [OF f])
next
  case AwaitToNoble
  show ?thesis
    unfolding resumeBody_eq AwaitToNoble advance_await.case
    by (intro ends_if fit_burn [OF f] fit_transferRejected [OF f])
next
  case AwaitAdvanceBurn
  show ?thesis
    unfolding resumeBody_eq AwaitAdvanceBurn advance_await.case
    by (intro ends_if ends_catchp fit_notify [OF f] fit_cctpRejected [OF f] fit_depositRejected [OF f])
next
  case AwaitReturnFromNoble
  show ?thesis
    unfolding resumeBody_eq AwaitReturnFromNoble advance_await.case by (rule ends_repayPool)
next
  case (AwaitWithdraw n)
  have adv: "0 \<le> advanceAmount r" using f by (simp add: fit_def)
  note wd = resumable_steps [of r n, OF adv disjI2, OF AwaitWithdraw]
  show ?thesis
    unfolding resumeBody_eq AwaitWithdraw advance_await.case withdrawRejected_def
    by (rule ends_keeps [OF _ resumable_flow]) (intro keeps_if keeps_thenp keeps_catchp keeps_ret wd)
qed

lemma resumeAdvance_keeps:
  assumes s: "flow_ok E s" and r: "r \<in> set (advanceRuns s)" and E: "\<forall>ev \<in> E. evidence_shape ev" and pw: "flow_powers_ok pw"
  shows "flow_ok E (snd (resumeAdvance pw r ok s))"
proof -
  let ?s = "s\<lparr>advanceRuns := remove1 r (advanceRuns s)\<rparr>"
  have run: "run_ok E (core s) r" using s r by (simp add: flow_ok_def)
  then have f: "fit E r pw" using E pw by (simp add: run_ok_def fit_def)
  have d: "distinct (map advTxHash (advanceRuns s))" using s by (simp add: flow_ok_def)
  note gone = distinct_keys_remove1 [OF d r]
  have "resumable E r ?s"
    using s run gone set_remove1_subset [of r "advanceRuns s"] by (simp add: resumable_def flow_ok_def subset_iff)
  then have "flow_ok E (snd (resumeBody pw r ok ?s))"
    by (intro ends_result [OF fit_body [OF f]]) (rule resumable_flow)
  moreover have "resumeAdvance pw r ok s = resumeBody pw r ok ?s"
    by (simp add: resumeBody_def resumeAdvance_def thenp_def bindp_def)
  ultimately show ?thesis by simp
qed

end
