(* ===== verification/Contract.thy ===== *)
theory Contract
  imports Flows TransactionFeed PoolMachine
begin

text \<open>
  The contract (\<open>fast-usdc.contract.ts\<close>): the components put together, the creator and public
  facets, and the delivery of published evidence to the advancer. Asynchronous methods are
  split where they await; offers reach the pool through the calls of \<open>PoolMachine\<close>.
\<close>

definition MAX_ROUTE_FAILURES :: nat where
  "MAX_ROUTE_FAILURES = 6"

text \<open>
  \<open>delivered\<close> counts the published evidence the advancer has been notified of;
  \<open>nobleAccounts\<close> are the accounts made once per ICA label, \<open>connections\<close> the connections
  registered with the chain hub.
\<close>

record contract_state =
  flow :: flow_state
  feed :: feed_state
  delivered :: nat
  addresses :: "(string \<times> string) option"
  nobleAccounts :: "(string, string) mapstore"
  connections :: "string \<times> string \<rightharpoonup> string"

definition onFlow :: "(flow_state, 'a) proc \<Rightarrow> (contract_state, 'a) proc" where
  "onFlow m = zoomp flow (\<lambda>x s. s\<lparr>flow := x\<rparr>) m"

definition onFeed :: "(feed_state, 'a) proc \<Rightarrow> (contract_state, 'a) proc" where
  "onFeed m = zoomp feed (\<lambda>x s. s\<lparr>feed := x\<rparr>) m"

abbreviation onPoolOf :: "(pool_state, 'a) proc \<Rightarrow> (contract_state, 'a) proc" where
  "onPoolOf m \<equiv> onFlow (onCore (onPool m))"

section \<open>Start\<close>

definition initialFlow :: "zcf_state \<Rightarrow> flow_state" where
  "initialFlow z =
     \<lparr>core = \<lparr>sm = \<lparr>pendingSettleTxs = [], seenTxs = [], failedForwards = [], forwardInProgress = [],
          storedCompletedTxs = [], published = [], deletions = [], routeFailures = Map.empty, startedForwards = []\<rparr>,
        pool = initLiquidityPool z, mintedEarly = [], disbursing = []\<rparr>,
      accountCalls = [], nobleICA = None, forwardRuns = [], advanceRuns = [], startedAdvances = []\<rparr>"

definition startContract :: "zcf_state \<Rightarrow> contract_state" where
  "startContract z =
     \<lparr>flow = initialFlow z, feed = \<lparr>kits = [], operators = [], pending = [], risks = [], feedLog = []\<rparr>,
      delivered = 0, addresses = None, nobleAccounts = [], connections = Map.empty\<rparr>"

definition contractRoutes :: route_health where
  "contractRoutes = startForwardRetrier (makeRouteHealth MAX_ROUTE_FAILURES)"

text \<open>An upgrade makes a new route-health tracker; the rest is durable.\<close>

definition restartContract :: "(contract_state, unit) proc" where
  "restartContract = onFlow (onCore (onSm (modifyp (\<lambda>x. x\<lparr>routeFailures := Map.empty\<rparr>))))"

section \<open>Evidence\<close>

definition updateState :: "(contract_state, unit) proc" where
  "updateState =
     bindp (getsp (\<lambda>s. feedLog (feed s) ! delivered s)) (\<lambda>er.
     thenp (modifyp (\<lambda>s. s\<lparr>delivered := Suc (delivered s)\<rparr>))
           (catchp (onFlow (handleTransactionEvent er)) (\<lambda>_. ret ())))"

section \<open>The creator facet\<close>

definition makeOperator :: "string \<Rightarrow> (contract_state, nat) proc" where
  "makeOperator opId = onFeed (initOperator opId)"

definition creatorRemoveOperator :: "string \<Rightarrow> (contract_state, unit) proc" where
  "creatorRemoveOperator opId = onFeed (removeOperator opId)"

definition creatorFeeBalance :: "(contract_state, int) proc" where
  "creatorFeeBalance = bindp (getsp (\<lambda>s. getContractFeeBalance (pool (core (flow s))))) liftp"

text \<open>
  \<open>update\<close> is the pair of chain ids with the counterparty connection id of the connection to
  register, \<open>current\<close> the counterparty connection id known at start; \<open>fresh\<close> is the address of
  the account that is made when the label has none.
\<close>

definition connectToNoble ::
  "(string \<times> string \<times> string) option \<Rightarrow> string \<Rightarrow> string \<Rightarrow> (contract_state, string) proc" where
  "connectToNoble update current fresh =
     thenp (case update of
              None \<Rightarrow> ret ()
            | Some (agoric, noble, conn) \<Rightarrow>
                modifyp (\<lambda>s. s\<lparr>connections := (connections s)((agoric, noble) \<mapsto> conn)\<rparr>))
    (let label = ''NobleICA-'' @ (case update of None \<Rightarrow> current | Some (_, _, conn) \<Rightarrow> conn) in
     bindp (getsp (\<lambda>s. map_of (nobleAccounts s) label)) (\<lambda>known.
     bindp (case known of
              Some a \<Rightarrow> ret a
            | None \<Rightarrow> thenp (modifyp (\<lambda>s. s\<lparr>nobleAccounts := put_entry label fresh (nobleAccounts s)\<rparr>)) (ret fresh))
       (\<lambda>a. thenp (onFlow (modifyp (\<lambda>f. f\<lparr>nobleICA := Some a\<rparr>))) (ret a))))"

definition publishAddresses :: "(contract_state, unit) proc" where
  "publishAddresses = bindp (getsp addresses) (\<lambda>a. requirep (a = None) AssertFailed)"

definition publishAddressesResumed :: "flow_powers \<Rightarrow> string \<Rightarrow> (contract_state, string \<times> string) proc" where
  "publishAddressesResumed pw poolAddress =
     bindp (getsp addresses) (\<lambda>a.
     thenp (requirep (a = None) KeyAlreadyRegistered)
    (thenp (modifyp (\<lambda>s. s\<lparr>addresses := Some (poolAddress, settlementAddress pw)\<rparr>))
           (ret (poolAddress, settlementAddress pw))))"

definition creatorDeleteCompletedTxs :: "(contract_state, unit) proc" where
  "creatorDeleteCompletedTxs = onFlow (smCall deleteCompletedTxs)"

definition remediateUndetectedBatches :: "flow_powers \<Rightarrow> int \<Rightarrow> (contract_state, unit) proc" where
  "remediateUndetectedBatches pw minUusdc = onFlow (onCore (remediateMintedEarly (settlerPw pw) minUusdc))"

definition sendFromSettlementAccount :: "flow_powers \<Rightarrow> string \<Rightarrow> int \<Rightarrow> (contract_state, unit) proc" where
  "sendFromSettlementAccount pw agoricRecipient a =
     bindp (liftp (resolveAccountId (hub (settlerPw pw)) agoricRecipient)) (\<lambda>recipient.
       onFlow (callAccount (SettlementSend recipient a)))"

definition sendFromSettlementResumed :: "bool \<Rightarrow> (contract_state, unit) proc" where
  "sendFromSettlementResumed ok = (if ok then onPoolOf publishPoolMetrics else throw AssertFailed)"

section \<open>The public facet\<close>

definition getStaticInfo :: "(contract_state, string \<times> string) proc" where
  "getStaticInfo = bindp (getsp addresses) (\<lambda>a. case a of None \<Rightarrow> throw AssertFailed | Some x \<Rightarrow> ret x)"

section \<open>Events\<close>

text \<open>Everything that can happen to the running contract, one turn each.\<close>

datatype contract_event =
    EMakeOperator string
  | ERemoveOperator string
  | ESubmit nat evidence risk_assessment
  | EDeliver
  | ERunAdvance evidence_with_risk
  | EResumeAdvance advance_run bool
  | ERunForward forward_failed_tx
  | EResumeForward forward_run bool
  | EMint ibc_packet
  | EDisburse pending_disburse bool
  | EOffer pool_call
  | EArrive allocation allocation allocation
  | ERemediate int
  | EDeleteCompleted
  | EDeletionDone evm_hash
  | EConnect "(string \<times> string \<times> string) option" string string
  | EPublish
  | EPublishResumed string
  | ESend string int
  | ESendResumed bool
  | ERestart

definition discard :: "('s, 'a) proc \<Rightarrow> ('s, unit) proc" where
  "discard m = bindp m (\<lambda>_. ret ())"

fun contract_run :: "flow_powers \<Rightarrow> contract_event \<Rightarrow> (contract_state, unit) proc" where
  "contract_run pw (EMakeOperator k) = discard (makeOperator k)"
| "contract_run pw (ERemoveOperator k) = creatorRemoveOperator k"
| "contract_run pw (ESubmit kit ev ra) = onFeed (submitEvidence kit ev ra)"
| "contract_run pw EDeliver = updateState"
| "contract_run pw (ERunAdvance er) = onFlow (runAdvance pw er)"
| "contract_run pw (EResumeAdvance r ok) = onFlow (resumeAdvance pw r ok)"
| "contract_run pw (ERunForward t) = onFlow (runForward pw t)"
| "contract_run pw (EResumeForward r ok) = onFlow (resumeForward pw r ok)"
| "contract_run pw (EMint packet) = onFlow (onCore (receiveUpcall (settlerPw pw) packet))"
| "contract_run pw (EDisburse d ok) = onFlow (onCore (disburseResumed d ok))"
| "contract_run pw (EOffer c) = onPoolOf (pool_run c)"
| "contract_run pw (EArrive a g w) = onPoolOf (modifyp (arrive a g w))"
| "contract_run pw (ERemediate n) = remediateUndetectedBatches pw n"
| "contract_run pw EDeleteCompleted = creatorDeleteCompletedTxs"
| "contract_run pw (EDeletionDone h) = onFlow (smCall (deletionDone h))"
| "contract_run pw (EConnect u c f) = discard (connectToNoble u c f)"
| "contract_run pw EPublish = publishAddresses"
| "contract_run pw (EPublishResumed a) = discard (publishAddressesResumed pw a)"
| "contract_run pw (ESend k a) = sendFromSettlementAccount pw k a"
| "contract_run pw (ESendResumed ok) = sendFromSettlementResumed ok"
| "contract_run pw ERestart = restartContract"

text \<open>
  What holds of an event: a run that resumes is waiting, submitted evidence has the shape the
  exo guard asks for, and offers are deposits, covered withdrawals and fee withdrawals as Zoe
  and the pool's guards admit them.
\<close>

fun offer_call :: "pool_call \<Rightarrow> bool" where
  "offer_call (PDeposit s g w) = True"
| "offer_call (PWithdraw s g w) = True"
| "offer_call (PWithdrawFees s w) = True"
| "offer_call _ = False"

fun contract_guard :: "contract_event \<Rightarrow> contract_state \<Rightarrow> bool" where
  "contract_guard (ESubmit kit ev ra) s = (kit < length (kits (feed s)) \<and> evidence_shape ev)"
| "contract_guard EDeliver s = (delivered s < length (feedLog (feed s)))"
| "contract_guard (ERunAdvance er) s = (er \<in> set (startedAdvances (flow s)))"
| "contract_guard (EResumeAdvance r ok) s = (r \<in> set (advanceRuns (flow s)))"
| "contract_guard (ERunForward t) s = (t \<in> set (startedForwards (sm (core (flow s)))))"
| "contract_guard (EResumeForward r ok) s = (r \<in> set (forwardRuns (flow s)))"
| "contract_guard (EDisburse d ok) s = (d \<in> set (disbursing (core (flow s))))"
| "contract_guard (EOffer c) s = (offer_call c \<and> pool_guard c (pool (core (flow s))))"
| "contract_guard (EArrive a g w) s = alloc_ok a"
| "contract_guard _ s = True"

inductive contract_step :: "flow_powers \<Rightarrow> contract_state \<Rightarrow> contract_state \<Rightarrow> bool" for pw where
  contract_stepI: "contract_guard e s \<Longrightarrow> contract_run pw e s = (r, s') \<Longrightarrow> contract_step pw s s'"

inductive_cases contract_stepE: "contract_step pw s s'"

end
