(* ===== verification/ContractFacts.thy ===== *)
theory ContractFacts
  imports Contract FlowInvariant
begin

text \<open>
  The composed contract: the invariants of the components hold together in every state the
  contract can reach, whatever the order of operators' submissions, deliveries, mints, offers,
  settling calls and upgrades.
\<close>

section \<open>The published evidence only grows\<close>

lemma flow_ok_mono: "flow_ok E f \<Longrightarrow> E \<subseteq> F \<Longrightarrow> flow_ok F f"
  unfolding flow_ok_def core_ok_def seen_in_def run_ok_def by blast

lemma attest_log:
  "feed_ok x \<Longrightarrow> feedLog (snd (attest ev ra k x)) = feedLog x
     \<or> (\<exists>er. evidence er = ev \<and> feedLog (snd (attest ev ra k x)) = feedLog x @ [er])"
  by (cases "map_of (operators x) k = None")
    (auto simp: attest_unknown attest_eq Let_def accept_def cleanup_def)

lemma submit_log:
  "feed_ok x \<Longrightarrow> feedLog (snd (submitEvidence kit ev ra x)) = feedLog x
     \<or> (\<exists>er. evidence er = ev \<and> feedLog (snd (submitEvidence kit ev ra x)) = feedLog x @ [er])"
  using attest_log [of x ev ra] by (auto simp: submitEvidence_def)

lemma operators_log:
  "feedLog (snd (initOperator k x)) = feedLog x" "feedLog (snd (removeOperator k x)) = feedLog x"
  by (simp_all add: initOperator_def removeOperator_def deleteFrom_def disable_def split: sum.split prod.split option.split)

section \<open>The invariant\<close>

definition evidences :: "contract_state \<Rightarrow> evidence set" where
  "evidences s = evidence ` set (feedLog (feed s))"

definition contract_ok :: "contract_state \<Rightarrow> bool" where
  "contract_ok s \<longleftrightarrow> flow_ok (evidences s) (flow s) \<and> feed_ok (feed s) \<and> (\<forall>ev \<in> evidences s. evidence_shape ev)"

lemma contract_onFlow:
  assumes "contract_ok s" "flow_ok (evidences s) (snd (m (flow s)))"
  shows "contract_ok (snd (onFlow m s))"
  using assms by (simp add: contract_ok_def onFlow_def evidences_def case_prod_beta)

lemma snd_discard: "snd (discard m s) = snd (m s)"
  by (cases "m s"; cases "fst (m s)") (simp_all add: discard_def)

lemma snd_catch_all: "snd (catchp m (\<lambda>_. ret ()) s) = snd (m s)"
  by (cases "m s"; cases "fst (m s)") simp_all

lemma contract_onFlow_keeps:
  assumes "contract_ok s" "\<And>E. keeps (flow_ok E) m"
  shows "contract_ok (snd (onFlow m s))"
  using assms(1) by (intro contract_onFlow keepsD [OF assms(2)]) (simp_all add: contract_ok_def)

lemma contract_onFeed:
  assumes "contract_ok s" "keeps feed_ok m" and
    log: "feedLog (snd (m (feed s))) = feedLog (feed s)
      \<or> (\<exists>er. evidence_shape (evidence er) \<and> feedLog (snd (m (feed s))) = feedLog (feed s) @ [er])"
  shows "contract_ok (snd (onFeed m s))"
proof -
  obtain r x where x: "m (feed s) = (r, x)" by fastforce
  let ?s = "s\<lparr>feed := x\<rparr>"
  have sub: "evidences s \<subseteq> evidences ?s" "\<forall>ev \<in> evidences ?s. evidence_shape ev"
    using log assms(1) x by (auto simp: evidences_def contract_ok_def)
  have "flow_ok (evidences ?s) (flow s)"
    using flow_ok_mono [OF _ sub(1)] assms(1) by (simp add: contract_ok_def)
  moreover have "feed_ok x" using keepsD [OF assms(2), of "feed s"] assms(1) x by (simp add: contract_ok_def)
  ultimately show ?thesis using sub(2) x by (simp add: contract_ok_def onFeed_def)
qed

text \<open>What the flows do to the state they share with the feed: nothing.\<close>

lemma contract_other:
  assumes "contract_ok s" "flow t = flow s" "feed t = feed s"
  shows "contract_ok t"
  using assms by (simp add: contract_ok_def evidences_def)

section \<open>Every event keeps it\<close>

lemma deliver_keeps:
  assumes "contract_ok s" "contract_guard EDeliver s"
  shows "contract_ok (snd (contract_run pw EDeliver s))"
proof -
  let ?er = "feedLog (feed s) ! delivered s"
  have "?er \<in> set (feedLog (feed s))" using assms(2) by simp
  then have "flow_ok (evidences s) (flow s\<lparr>startedAdvances := startedAdvances (flow s) @ [?er]\<rparr>)"
    using assms(1) by (auto simp: contract_ok_def flow_ok_def evidences_def)
  with assms(1) show ?thesis
    by (simp add: updateState_def handleTransactionEvent_def onFlow_def contract_ok_def evidences_def)
qed

lemma runAdvance_keeps:
  assumes "contract_ok s" "er \<in> set (startedAdvances (flow s))" "flow_powers_ok pw"
  shows "contract_ok (snd (onFlow (runAdvance pw er) s))"
proof (rule contract_onFlow [OF assms(1)])
  let ?f = "(flow s)\<lparr>startedAdvances := remove1 er (startedAdvances (flow s))\<rparr>"
  have "flow_ok (evidences s) ?f"
    using assms(1) set_remove1_subset [of er "startedAdvances (flow s)"] by (auto simp: contract_ok_def flow_ok_def)
  moreover have "evidence er \<in> evidences s" using assms(1,2) by (simp add: contract_ok_def flow_ok_def)
  ultimately have "flow_ok (evidences s) (snd (advanceFunds pw er ?f))"
    using advanceFunds_keeps [OF _ _ _ assms(3)] assms(1) by (simp add: contract_ok_def)
  then show "flow_ok (evidences s) (snd (runAdvance pw er (flow s)))"
    by (simp add: runAdvance_def snd_catch_all del: catchp_apply)
qed

lemma offer_keeps:
  assumes "contract_ok s" "pool_guard c (pool (core (flow s)))"
  shows "contract_ok (snd (onPoolOf (pool_run c) s))"
proof (rule contract_onFlow [OF assms(1)])
  show "flow_ok (evidences s) (snd (poolCall (pool_run c) (flow s)))"
    using assms by (intro flow_poolCall [where P = "pool_guard c"] pool_run_keeps seats_pool_run)
      (simp_all add: contract_ok_def)
qed

lemma arrive_seats: "keeps (seats_are a b) (modifyp (arrive x g w))"
  by (rule seats_modify) (simp add: arrive_def)

lemma arrival_keeps:
  assumes "contract_ok s" "alloc_ok a"
  shows "contract_ok (snd (onPoolOf (modifyp (arrive a g w)) s))"
proof (rule contract_onFlow [OF assms(1)])
  show "flow_ok (evidences s) (snd (poolCall (modifyp (arrive a g w)) (flow s)))"
    using assms by (intro flow_poolCall [where P = "\<lambda>_. True"] arrive_seats) (simp_all add: contract_ok_def arrive_keeps)
qed

lemma publishMetrics_keeps: "keeps (flow_ok E) (poolCall publishPoolMetrics)"
proof (rule keepsI)
  fix f assume "flow_ok E f"
  then show "flow_ok E (snd (poolCall publishPoolMetrics f))"
    by (intro flow_poolCall [where P = "\<lambda>_. True"] seats_publish)
      (simp_all add: publishPoolMetrics_def pool_ok_def seats_ok_def pool_usdc_def fee_usdc_def)
qed

lemma upgrade_keeps: "keeps (flow_ok E) (smCall (modifyp (\<lambda>x. x\<lparr>routeFailures := Map.empty\<rparr>)))"
  by (intro keeps_smCall keeps_modifyp) (simp_all add: sm_ok_def seen_in_def seen_all_def)

lemma deletions_keep:
  "keeps (flow_ok E) (smCall deleteCompletedTxs)" "keeps (flow_ok E) (smCall (deletionDone h))"
  by (intro keeps_smCall seen_intros stay_intros; auto intro: keeps_intros)+

lemma connect_keeps:
  assumes "contract_ok s"
  shows "contract_ok (snd (discard (connectToNoble u c f) s))"
proof -
  have ica: "flow_ok E ((flow s)\<lparr>nobleICA := x\<rparr>) = flow_ok E (flow s)" for E x
    by (simp add: flow_ok_def)
  show ?thesis
    using assms by (auto simp: discard_def connectToNoble_def Let_def onFlow_def contract_ok_def evidences_def ica
        split: option.split)
qed

lemma contract_run_keeps:
  assumes ok: "contract_ok s" and g: "contract_guard e s" and pw: "flow_powers_ok pw"
  shows "contract_ok (snd (contract_run pw e s))"
proof -
  have spw: "settler_powers_ok (settlerPw pw)" using pw by (simp add: flow_powers_ok_def)
  note via = contract_onFlow_keeps [OF ok]
  show ?thesis
  proof (cases e)
    case (EMakeOperator k)
    have "contract_ok (snd (onFeed (initOperator k) s))"
      using ok by (rule contract_onFeed) (simp_all add: operators_log keeps_initOperator)
    then show ?thesis by (simp add: EMakeOperator makeOperator_def snd_discard)
  next
    case (ERemoveOperator k)
    show ?thesis unfolding ERemoveOperator contract_run.simps creatorRemoveOperator_def
      using ok by (rule contract_onFeed) (simp_all add: operators_log keeps_removeOperator)
  next
    case (ESubmit kit ev ra)
    show ?thesis unfolding ESubmit contract_run.simps
    proof (rule contract_onFeed [OF ok keeps_submitEvidence])
      show "feedLog (snd (submitEvidence kit ev ra (feed s))) = feedLog (feed s)
        \<or> (\<exists>er. evidence_shape (evidence er) \<and> feedLog (snd (submitEvidence kit ev ra (feed s))) = feedLog (feed s) @ [er])"
        using submit_log [of "feed s" kit ev ra] ok g ESubmit by (auto simp: contract_ok_def)
    qed
  next
    case EDeliver
    with ok g show ?thesis using deliver_keeps by simp
  next
    case (ERunAdvance er)
    with ok g pw show ?thesis by (simp add: runAdvance_keeps)
  next
    case (EResumeAdvance r b)
    have "flow_ok (evidences s) (snd (resumeAdvance pw r b (flow s)))"
      using ok g pw EResumeAdvance by (intro resumeAdvance_keeps) (simp_all add: contract_ok_def)
    then show ?thesis by (simp add: EResumeAdvance contract_onFlow [OF ok])
  next
    case (ERunForward t)
    then show ?thesis by (simp add: via forward_keeps [OF pw])
  next
    case (EResumeForward r b)
    then show ?thesis by (simp add: via forward_keeps [OF pw])
  next
    case (EMint p)
    have "keeps (flow_ok E) (onCore (receiveUpcall (settlerPw pw) p))" for E
      by (intro keeps_onCore core_receiveUpcall frame_handlers spw)
    then show ?thesis by (simp add: EMint via)
  next
    case (EDisburse d b)
    have "flow_ok (evidences s) (snd (onCore (disburseResumed d b) (flow s)))"
      using ok g EDisburse by (intro flow_onCore core_disburseResumed frame_handlers(5) [OF spw])
        (simp_all add: contract_ok_def flow_ok_def)
    then show ?thesis by (simp add: EDisburse contract_onFlow [OF ok])
  next
    case (EOffer c)
    with ok g show ?thesis by (simp add: offer_keeps)
  next
    case (EArrive a gv w)
    with ok g show ?thesis by (simp add: arrival_keeps)
  next
    case (ERemediate n)
    have "keeps (flow_ok E) (onCore (remediateMintedEarly (settlerPw pw) n))" for E
      by (intro keeps_onCore core_remediate frame_handlers spw)
    then show ?thesis by (simp add: ERemediate remediateUndetectedBatches_def via)
  next
    case EDeleteCompleted
    then show ?thesis by (simp add: creatorDeleteCompletedTxs_def via deletions_keep)
  next
    case (EDeletionDone h)
    then show ?thesis by (simp add: via deletions_keep)
  next
    case (EConnect u c f)
    then show ?thesis using connect_keeps [OF ok] by simp
  next
    case EPublish
    have "snd (contract_run pw e s) = s" unfolding EPublish by (simp add: publishAddresses_def)
    with ok show ?thesis by simp
  next
    case (EPublishResumed a)
    then show ?thesis
      by (intro contract_other [OF ok]) (simp_all add: publishAddressesResumed_def discard_def)
  next
    case (ESend k a)
    have "contract_ok (snd (onFlow (callAccount c) s))" for c
      by (intro via keeps_callAccount)
    then show ?thesis using ok by (simp add: ESend sendFromSettlementAccount_def split: sum.split)
  next
    case (ESendResumed b)
    show ?thesis
    proof (cases b)
      case True
      have "contract_ok (snd (onPoolOf publishPoolMetrics s))" by (intro via publishMetrics_keeps)
      then show ?thesis by (simp only: ESendResumed contract_run.simps sendFromSettlementResumed_def True if_True)
    qed (use ok in \<open>simp add: ESendResumed sendFromSettlementResumed_def\<close>)
  next
    case ERestart
    then show ?thesis by (simp add: restartContract_def via upgrade_keeps)
  qed
qed

definition contract_start :: "contract_state \<Rightarrow> bool" where
  "contract_start s \<longleftrightarrow> (\<exists>z. zcf_ok z \<and> shareSupply z = 0 \<and> s = startContract z)"

lemma contract_start_ok: "contract_start s \<Longrightarrow> contract_ok s"
proof -
  assume "contract_start s"
  then obtain z where z: "zcf_ok z" "shareSupply z = 0" "s = startContract z" by (auto simp: contract_start_def)
  have p: "pool_ok (initLiquidityPool z)" using z by (intro pool_ok_start) (auto simp: pool_start_def)
  have m: "sm_ok sm_init" by (rule sm.inv_reachable [OF refl rtranclp.rtrancl_refl])
  show ?thesis
    using p m feed_ok_init by (simp add: z(3) startContract_def initialFlow_def contract_ok_def flow_ok_def core_ok_def seen_in_def
        store_has_def bag_ok_def evidences_def sm_init_def feed_init_def ms.holds_all_def)
qed

interpretation contract: machine contract_start "contract_step pw" "\<lambda>s. flow_powers_ok pw \<longrightarrow> contract_ok s" for pw
proof
  show "flow_powers_ok pw \<longrightarrow> contract_ok s" if "contract_start s" for s using that contract_start_ok by simp
  show "flow_powers_ok pw \<longrightarrow> contract_ok t"
    if "contract_step pw s t" "flow_powers_ok pw \<longrightarrow> contract_ok s" for s t
    using that by (elim contract_stepE) (metis contract_run_keeps snd_conv)
qed

lemma contract_reachable:
  assumes "flow_powers_ok pw" "zcf_ok z" "shareSupply z = 0" "(contract_step pw)\<^sup>*\<^sup>* (startContract z) s"
  shows "contract_ok s"
  using contract.inv_reachable [OF _ assms(4)] assms(1-3) by (auto simp: contract_start_def)

section \<open>What was published stays\<close>

definition addressed :: "string \<times> string \<Rightarrow> contract_state \<Rightarrow> bool" where
  "addressed a s \<longleftrightarrow> addresses s = Some a"

lemma addressed_lens [keeps_intros]: "keeps (addressed a) (onFlow m)" "keeps (addressed a) (onFeed k)"
  by (auto simp: keeps_def addressed_def onFlow_def onFeed_def case_prod_beta)

lemma addressed_modify: "(\<And>s. addresses (f s) = addresses s) \<Longrightarrow> keeps (addressed a) (modifyp f)"
  by (rule keeps_modifyp) (simp add: addressed_def)

lemma addressed_published: "keeps (addressed a) (discard (publishAddressesResumed pw x))"
  by (auto simp: keeps_def addressed_def publishAddressesResumed_def discard_def)

lemma addressed_run: "keeps (addressed a) (contract_run pw e)"
proof (cases e)
  case (EPublishResumed x)
  then show ?thesis using addressed_published by simp
next
  case (EConnect u c f)
  have upd: "keeps (addressed a) (modifyp (\<lambda>s. s\<lparr>connections := g s\<rparr>))"
    "keeps (addressed a) (modifyp (\<lambda>s. s\<lparr>nobleAccounts := h s\<rparr>))" for g h
    by (rule addressed_modify; simp)+
  show ?thesis
    unfolding EConnect contract_run.simps discard_def connectToNoble_def Let_def
    by (intro keeps_intros upd)
next
  case EDeliver
  have "keeps (addressed a) (modifyp (\<lambda>s. s\<lparr>delivered := g s\<rparr>))" for g by (rule addressed_modify) simp
  then show ?thesis unfolding EDeliver contract_run.simps updateState_def by (intro keeps_intros)
qed (auto simp: makeOperator_def creatorRemoveOperator_def remediateUndetectedBatches_def discard_def
    creatorDeleteCompletedTxs_def publishAddresses_def sendFromSettlementAccount_def sendFromSettlementResumed_def
    restartContract_def intro!: keeps_intros)

interpretation addresses: machine "addressed a" "contract_step pw" "addressed a" for a pw
proof
  show "addressed a t" if "contract_step pw s t" "addressed a s" for s t
    using that by (elim contract_stepE) (metis addressed_run keepsD snd_conv)
qed

section \<open>Properties\<close>


text \<open>in every state the contract can reach the pool is consistent, whatever advances,
  settlements and offers are in flight: the share worth is the pool's USDC, the outstanding
  borrows and the dust unit together; and no transaction is queued twice or observed twice.\<close>

theorem contract_keeps_the_pool:
  assumes "flow_powers_ok pw" and "zcf_ok z" and "shareSupply z = 0"
    and "(contract_step pw)\<^sup>*\<^sup>* (startContract z) s"
  shows "pool_usdc (pool (core (flow s))) + 1 + encumberedBalance (pool (core (flow s)))
        = numerator (shareWorth (pool (core (flow s))))
    \<and> 0 \<le> pool_usdc (pool (core (flow s)))
    \<and> count (pend_hashes (pendingSettleTxs (sm (core (flow s)))) nfa) h \<le> 1
    \<and> observed_count (published (sm (core (flow s)))) h
        = (if store_has (seenTxs (sm (core (flow s)))) h then 1 else 0)"
proof -
  have "core_ok (evidences s) (core (flow s))"
    using contract_reachable [OF assms] by (simp add: contract_ok_def flow_ok_def)
  then have ok: "pool_ok (pool (core (flow s)))" "sm_ok (sm (core (flow s)))" by (simp_all add: core_ok_def)
  have "0 \<le> pool_usdc (pool (core (flow s)))" using ok(1) by (elim pool_okE)
  with ok show ?thesis by (simp add: pool_ok_def sm_ok_def pending_unique_def observed_ok_def)
qed

text \<open>the addresses the contract publishes never change, and from then on the public facet
  reports them in every state.\<close>

theorem addresses_never_change:
  assumes "addresses s = Some a" and "(contract_step pw)\<^sup>*\<^sup>* s t"
  shows "addresses t = Some a \<and> getStaticInfo t = (Inr a, t)"
  using addresses.inv_reachable [OF _ assms(2), of a] assms(1) by (simp add: addressed_def getStaticInfo_def)

section \<open>Witnesses\<close>

text \<open>A list of events run one after the other, as long as their guards hold.\<close>

fun guarded_run :: "flow_powers \<Rightarrow> contract_event list \<Rightarrow> contract_state \<Rightarrow> contract_state option" where
  "guarded_run pw [] s = Some s"
| "guarded_run pw (e # es) s = (if contract_guard e s then guarded_run pw es (snd (contract_run pw e s)) else None)"

lemma guarded_run_steps: "guarded_run pw es s = Some t \<Longrightarrow> (contract_step pw)\<^sup>*\<^sup>* s t"
proof (induction es arbitrary: s)
  case (Cons e es)
  then have "contract_step pw s (snd (contract_run pw e s))"
    by (cases "contract_run pw e s") (auto intro: contract_stepI split: if_splits)
  with Cons show ?case by (auto split: if_splits intro: converse_rtranclp_into_rtranclp)
qed simp

definition ex_zcf0 :: zcf_state where
  "ex_zcf0 = \<lparr>activeSeats = [], nextSeat = 0, paidOut = [], shareSupply = 0\<rparr>"

lemma ex_zcf0_ok: "zcf_ok ex_zcf0" "shareSupply ex_zcf0 = 0"
  by (simp_all add: ex_zcf0_def zcf_ok_def ms.holds_all_def)

definition ex_cpowers :: flow_powers where
  "ex_cpowers = ex_fpowers\<lparr>settlerPw := ex_powers\<lparr>rh := contractRoutes\<rparr>\<rparr>"

definition ex_events :: "contract_event list" where
  "ex_events =
     [EConnect None ''connection-1'' ''noble1ica'', EMakeOperator ''op1'',
      EArrive [(''USDC'', 500)] [(''USDC'', 500)] [(''PoolShare'', 0)], EOffer (PDeposit 2 500 0),
      ESubmit 0 (evidence ex_risky) \<lparr>risksIdentified = None\<rparr>, EDeliver, ERunAdvance ex_risky]"

lemma ex_powers_ok: "flow_powers_ok ex_cpowers"
  using ex_fees_ok by (auto simp: flow_powers_ok_def settler_powers_ok_def ex_cpowers_def ex_powers_def contractRoutes_def)

text \<open>The guards of offers, in a form that evaluates.\<close>

lemma offers_code [code]:
  "deposit_offer p lp g w \<longleftrightarrow> lp \<noteq> poolSeat p \<and> lp \<noteq> feeSeat p \<and> 1 \<le> g \<and>
     (case map_of (activeSeats (zcf p)) lp of None \<Rightarrow> False
      | Some s \<Rightarrow> give s = [(''USDC'', g)] \<and> want s = [(''PoolShare'', w)] \<and> g \<le> amt (allocated s) ''USDC'')"
  "withdraw_offer p lp g w \<longleftrightarrow> lp \<noteq> poolSeat p \<and> lp \<noteq> feeSeat p \<and> 1 \<le> g \<and> 1 \<le> w \<and>
     (case map_of (activeSeats (zcf p)) lp of None \<Rightarrow> False
      | Some s \<Rightarrow> give s = [(''PoolShare'', g)] \<and> want s = [(''USDC'', w)] \<and> g \<le> amt (allocated s) ''PoolShare'')"
  by (auto simp: deposit_offer_def withdraw_offer_def split: option.split)

lemma pool_guard_code [code]:
  "pool_guard (PBorrow s a) p = (\<not> own_seat p s \<and> 1 \<le> a)"
  "pool_guard (PReturn s a) p = (\<not> own_seat p s \<and> 1 \<le> a)"
  "pool_guard (PRepay s kw x sp) p = (\<not> own_seat p s \<and> 0 \<le> x \<and> split_nonneg sp)"
  "pool_guard (PDeposit s g w) p = deposit_offer p s g w"
  "pool_guard (PWithdraw s g w) p = (withdraw_offer p s g w \<and> covered p g)"
  "pool_guard (PWithdrawFees s w) p =
     (\<not> own_seat p s \<and> 0 \<le> w \<and> (case getProposal (zcf p) s of Inl _ \<Rightarrow> False | Inr (_, wt) \<Rightarrow> wt = [(''USDC'', w)]))"
  by (auto split: sum.split)

lemma ex_runs:
  "guarded_run ex_cpowers ex_events (startContract ex_zcf0) \<noteq> None"
  "map advTxHash (advanceRuns (flow (the (guarded_run ex_cpowers ex_events (startContract ex_zcf0))))) = [''h7'']"
  "pool_usdc (pool (core (flow (the (guarded_run ex_cpowers ex_events (startContract ex_zcf0)))))) = 314"
  by code_simp+

definition ex_contract :: contract_state where
  "ex_contract = the (guarded_run ex_cpowers ex_events (startContract ex_zcf0))"

lemma ex_contract_reached: "(contract_step ex_cpowers)\<^sup>*\<^sup>* (startContract ex_zcf0) ex_contract"
  using ex_runs(1) by (intro guarded_run_steps [where es = ex_events]) (simp add: ex_contract_def)


theorem contract_keeps_the_pool_witness:
  "numerator (shareWorth (pool (core (flow ex_contract)))) = 315 + encumberedBalance (pool (core (flow ex_contract)))"
  using contract_keeps_the_pool [OF ex_powers_ok ex_zcf0_ok ex_contract_reached, of "''n''" "''h''"] ex_runs(3)
  by (simp add: ex_contract_def)

theorem addresses_never_change_witness:
  "\<exists>t. addresses t = Some (''agoric1pool'', ''agoric1base'') \<and> t \<noteq> startContract ex_zcf0
     \<and> fst (getStaticInfo t) = Inr (''agoric1pool'', ''agoric1base'')"
proof -
  let ?a = "(''agoric1pool'', ''agoric1base'')"
  let ?s = "(startContract ex_zcf0)\<lparr>addresses := Some ?a\<rparr>" and ?es = "[EMakeOperator ''op1'', ERestart]"
  obtain t where t: "guarded_run ex_cpowers ?es ?s = Some t" by simp
  have "addresses ?s = Some ?a" by simp
  from addresses_never_change [OF this guarded_run_steps [OF t]] show ?thesis
    by (intro exI [of _ t]) (auto simp: startContract_def)
qed

end
