(* ===== verification/JsCollections.thy ===== *)
theory JsCollections
  imports Prelude "HOL-Library.AList"
begin

text \<open>
  JavaScript \<open>Set\<close> and \<open>Map\<close> objects that iterate in the order of insertion: a set is a
  distinct list, a map an association list with distinct keys, updated in place.
\<close>

named_theorems collection_simps \<open>membership and lookup rules of sets and maps\<close>

definition add_to_set :: "'a \<Rightarrow> 'a list \<Rightarrow> 'a list" where
  "add_to_set x xs = (if x \<in> set xs then xs else xs @ [x])"

text \<open>\<open>new Set(xs)\<close> and \<open>new Map(entries)\<close>; a later entry of a key replaces the value in its place.\<close>

definition to_set :: "'a list \<Rightarrow> 'a list" where
  "to_set xs = fold add_to_set xs []"

definition to_map :: "('k \<times> 'v) list \<Rightarrow> ('k \<times> 'v) list" where
  "to_map es = fold (\<lambda>(k, v). AList.update k v) es []"

lemma set_add_to_set [simp, collection_simps]: "set (add_to_set x xs) = insert x (set xs)"
  by (auto simp: add_to_set_def)

lemma distinct_add_to_set [simp]: "distinct xs \<Longrightarrow> distinct (add_to_set x xs)"
  by (simp add: add_to_set_def)

lemma set_fold_add: "set (fold add_to_set xs ys) = set xs \<union> set ys"
  by (induction xs arbitrary: ys) auto

lemma set_to_set [simp, collection_simps]: "set (to_set xs) = set xs"
  by (simp add: to_set_def set_fold_add)

lemma distinct_to_set [simp]: "distinct (to_set xs)"
proof -
  have "distinct ys \<Longrightarrow> distinct (fold add_to_set xs ys)" for ys by (induction xs arbitrary: ys) auto
  then show ?thesis by (simp add: to_set_def)
qed

lemma to_map_snoc: "to_map (es @ [(k, v)]) = AList.update k v (to_map es)"
  by (simp add: to_map_def)

lemma map_of_to_map [collection_simps]: "map_of (to_map es) = map_of (rev es)"
proof (induction es rule: rev_induct)
  case (snoc e es)
  then show ?case by (cases e) (simp add: to_map_snoc update_conv)
qed (simp add: to_map_def)

lemma distinct_to_map [simp]: "distinct (map fst (to_map es))"
proof (induction es rule: rev_induct)
  case (snoc e es)
  then show ?case by (cases e) (simp add: to_map_snoc distinct_update)
qed (simp add: to_map_def)

lemma to_map_set: "e \<in> set (to_map es) \<Longrightarrow> e \<in> set es"
  by (metis (no_types, opaque_lifting) distinct_to_map map_of_SomeD map_of_to_map prod.collapse set_rev weak_map_of_SomeI map_of_eq_Some_iff)

lemma mapr_all: "(\<And>x. x \<in> set xs \<Longrightarrow> f x = Inr (g x)) \<Longrightarrow> mapr f xs = Inr (map g xs)"
  by (induction xs) simp_all

lemma mapr_if: "mapr (\<lambda>x. if P x then Inr (g x) else Inl e) xs = (if \<forall>x \<in> set xs. P x then Inr (map g xs) else Inl e)"
  by (induction xs) auto

lemma mapr_Inr_length: "mapr f xs = Inr ys \<Longrightarrow> length ys = length xs"
  by (induction xs arbitrary: ys) (auto simp: bindr_Inr_iff)

lemma mapr_Inr_nth: "mapr f xs = Inr ys \<Longrightarrow> i < length xs \<Longrightarrow> f (xs ! i) = Inr (ys ! i)"
proof (induction xs arbitrary: ys i)
  case (Cons x xs)
  then show ?case by (cases i) (auto simp: bindr_Inr_iff)
qed simp

end
