(* ===== verification/Places.thy ===== *)
theory Places
  imports JsCollections
begin

text \<open>
  The places of a portfolio and the parsers of place references: \<open>portfolio-api/src/places.ts\<close>,
  \<open>portfolio-contract/src/type-guards-steps.ts\<close>, and the check that a plan's deposit and
  withdrawal places fit its flow, \<open>portfolio-contract/src/flow-plan-places.ts\<close>.
\<close>

section \<open>The pools\<close>

record pool_place =
  protocol :: string
  chainName :: string
  vault :: "nat option"

definition BeefyPoolPlaces :: "(string \<times> pool_place) list" where
  "BeefyPoolPlaces =
     [(''Beefy_re7_Avalanche'', \<lparr>protocol = ''Beefy'', chainName = ''Avalanche'', vault = None\<rparr>),
      (''Beefy_morphoGauntletUsdc_Ethereum'', \<lparr>protocol = ''Beefy'', chainName = ''Ethereum'', vault = None\<rparr>),
      (''Beefy_morphoSmokehouseUsdc_Ethereum'', \<lparr>protocol = ''Beefy'', chainName = ''Ethereum'', vault = None\<rparr>),
      (''Beefy_morphoSeamlessUsdc_Base'', \<lparr>protocol = ''Beefy'', chainName = ''Base'', vault = None\<rparr>),
      (''Beefy_compoundUsdc_Optimism'', \<lparr>protocol = ''Beefy'', chainName = ''Optimism'', vault = None\<rparr>),
      (''Beefy_compoundUsdc_Arbitrum'', \<lparr>protocol = ''Beefy'', chainName = ''Arbitrum'', vault = None\<rparr>)]"

definition ERC4626PoolPlaces :: "(string \<times> pool_place) list" where
  "ERC4626PoolPlaces =
     [(''ERC4626_vaultU2_Ethereum'', \<lparr>protocol = ''ERC4626'', chainName = ''Ethereum'', vault = None\<rparr>),
      (''ERC4626_morphoClearstarHighYieldUsdc_Ethereum'', \<lparr>protocol = ''ERC4626'', chainName = ''Ethereum'', vault = None\<rparr>),
      (''ERC4626_morphoClearstarUsdcCore_Ethereum'', \<lparr>protocol = ''ERC4626'', chainName = ''Ethereum'', vault = None\<rparr>),
      (''ERC4626_morphoGauntletUsdcRwa_Ethereum'', \<lparr>protocol = ''ERC4626'', chainName = ''Ethereum'', vault = None\<rparr>),
      (''ERC4626_morphoSteakhouseHighYieldInstant_Ethereum'', \<lparr>protocol = ''ERC4626'', chainName = ''Ethereum'', vault = None\<rparr>),
      (''ERC4626_morphoClearstarInstitutionalUsdc_Ethereum'', \<lparr>protocol = ''ERC4626'', chainName = ''Ethereum'', vault = None\<rparr>),
      (''ERC4626_morphoClearstarUsdcReactor_Ethereum'', \<lparr>protocol = ''ERC4626'', chainName = ''Ethereum'', vault = None\<rparr>),
      (''ERC4626_morphoAlphaUsdcCore_Ethereum'', \<lparr>protocol = ''ERC4626'', chainName = ''Ethereum'', vault = None\<rparr>),
      (''ERC4626_morphoResolvUsdc_Ethereum'', \<lparr>protocol = ''ERC4626'', chainName = ''Ethereum'', vault = None\<rparr>),
      (''ERC4626_morphoGauntletUsdcFrontier_Ethereum'', \<lparr>protocol = ''ERC4626'', chainName = ''Ethereum'', vault = None\<rparr>),
      (''ERC4626_morphoHyperithmUsdcMidcurve_Ethereum'', \<lparr>protocol = ''ERC4626'', chainName = ''Ethereum'', vault = None\<rparr>),
      (''ERC4626_morphoHyperithmUsdcDegen_Ethereum'', \<lparr>protocol = ''ERC4626'', chainName = ''Ethereum'', vault = None\<rparr>),
      (''ERC4626_morphoGauntletUsdcCore_Ethereum'', \<lparr>protocol = ''ERC4626'', chainName = ''Ethereum'', vault = None\<rparr>),
      (''ERC4626_morphoSteakhousePrimeUsdc_Base'', \<lparr>protocol = ''ERC4626'', chainName = ''Base'', vault = None\<rparr>),
      (''ERC4626_morphoSteakhouseUsdc_Base'', \<lparr>protocol = ''ERC4626'', chainName = ''Base'', vault = None\<rparr>),
      (''ERC4626_morphoGauntletUsdcPrime_Base'', \<lparr>protocol = ''ERC4626'', chainName = ''Base'', vault = None\<rparr>),
      (''ERC4626_morphoSeamlessUsdcVault_Base'', \<lparr>protocol = ''ERC4626'', chainName = ''Base'', vault = None\<rparr>),
      (''ERC4626_morphoSteakhouseHighYieldUsdc_Arbitrum'', \<lparr>protocol = ''ERC4626'', chainName = ''Arbitrum'', vault = None\<rparr>),
      (''ERC4626_morphoGauntletUsdcCore_Arbitrum'', \<lparr>protocol = ''ERC4626'', chainName = ''Arbitrum'', vault = None\<rparr>),
      (''ERC4626_morphoHyperithmUsdc_Arbitrum'', \<lparr>protocol = ''ERC4626'', chainName = ''Arbitrum'', vault = None\<rparr>),
      (''ERC4626_morphoGauntletUsdcPrime_Optimism'', \<lparr>protocol = ''ERC4626'', chainName = ''Optimism'', vault = None\<rparr>),
      (''ERC4626_morphoGauntletUsdcPrime_Ethereum'', \<lparr>protocol = ''ERC4626'', chainName = ''Ethereum'', vault = None\<rparr>),
      (''ERC4626_morphoEthenaSteakhouseUsdc_Base'', \<lparr>protocol = ''ERC4626'', chainName = ''Base'', vault = None\<rparr>),
      (''ERC4626_morphoKpkUsdcPrime_Ethereum'', \<lparr>protocol = ''ERC4626'', chainName = ''Ethereum'', vault = None\<rparr>),
      (''ERC4626_morphoRockawayxUsdcYield_Ethereum'', \<lparr>protocol = ''ERC4626'', chainName = ''Ethereum'', vault = None\<rparr>),
      (''ERC4626_morphoHumaUsdcMain_Ethereum'', \<lparr>protocol = ''ERC4626'', chainName = ''Ethereum'', vault = None\<rparr>),
      (''ERC4626_morphoSteakhouseHighYieldUsdcEdition_Base'', \<lparr>protocol = ''ERC4626'', chainName = ''Base'', vault = None\<rparr>),
      (''ERC4626_morphoSteakhousePrimeUsdc_Ethereum'', \<lparr>protocol = ''ERC4626'', chainName = ''Ethereum'', vault = None\<rparr>),
      (''ERC4626_morphoSteakhouseConfidentialPrimeUsdc_Ethereum'', \<lparr>protocol = ''ERC4626'', chainName = ''Ethereum'', vault = None\<rparr>),
      (''ERC4626_morphoGauntletUsdcPrimeV2_Base'', \<lparr>protocol = ''ERC4626'', chainName = ''Base'', vault = None\<rparr>),
      (''ERC4626_morphoGauntletUsdcFrontier_Base'', \<lparr>protocol = ''ERC4626'', chainName = ''Base'', vault = None\<rparr>),
      (''ERC4626_morphoReEcosystemVault_Ethereum'', \<lparr>protocol = ''ERC4626'', chainName = ''Ethereum'', vault = None\<rparr>),
      (''ERC4626_morphoApyxUsdc_Ethereum'', \<lparr>protocol = ''ERC4626'', chainName = ''Ethereum'', vault = None\<rparr>),
      (''ERC4626_morphoRockawayxToriEcosystem_Ethereum'', \<lparr>protocol = ''ERC4626'', chainName = ''Ethereum'', vault = None\<rparr>),
      (''ERC4626_morphoRockawayxFxProtocolEcosystemUsdc_Ethereum'', \<lparr>protocol = ''ERC4626'', chainName = ''Ethereum'', vault = None\<rparr>)]"

definition PoolPlaces :: "(string \<times> pool_place) list" where
  "PoolPlaces =
     [(''USDN'', \<lparr>protocol = ''USDN'', chainName = ''noble'', vault = None\<rparr>),
      (''USDNVault'', \<lparr>protocol = ''USDN'', chainName = ''noble'', vault = Some 1\<rparr>),
      (''Aave_Avalanche'', \<lparr>protocol = ''Aave'', chainName = ''Avalanche'', vault = None\<rparr>),
      (''Aave_Ethereum'', \<lparr>protocol = ''Aave'', chainName = ''Ethereum'', vault = None\<rparr>),
      (''Aave_Optimism'', \<lparr>protocol = ''Aave'', chainName = ''Optimism'', vault = None\<rparr>),
      (''Aave_Arbitrum'', \<lparr>protocol = ''Aave'', chainName = ''Arbitrum'', vault = None\<rparr>),
      (''Aave_Base'', \<lparr>protocol = ''Aave'', chainName = ''Base'', vault = None\<rparr>),
      (''Compound_Ethereum'', \<lparr>protocol = ''Compound'', chainName = ''Ethereum'', vault = None\<rparr>),
      (''Compound_Optimism'', \<lparr>protocol = ''Compound'', chainName = ''Optimism'', vault = None\<rparr>),
      (''Compound_Arbitrum'', \<lparr>protocol = ''Compound'', chainName = ''Arbitrum'', vault = None\<rparr>),
      (''Compound_Base'', \<lparr>protocol = ''Compound'', chainName = ''Base'', vault = None\<rparr>)] @ BeefyPoolPlaces @ ERC4626PoolPlaces"

section \<open>Place references\<close>

definition startsWith :: "string \<Rightarrow> string \<Rightarrow> bool" where
  "startsWith s p \<longleftrightarrow> take (length p) s = p"

definition ascii_letters :: string where
  "ascii_letters = ''abcdefghijklmnopqrstuvwxyzABCDEFGHIJKLMNOPQRSTUVWXYZ''"

definition alnum :: "char \<Rightarrow> bool" where
  "alnum c \<longleftrightarrow> c \<in> set ascii_letters \<or> c \<in> set ''0123456789''"

definition word_char :: "char \<Rightarrow> bool" where
  "word_char c \<longleftrightarrow> alnum c \<or> c = CHR ''_''"

definition isInstrumentId :: "string \<Rightarrow> bool" where
  "isInstrumentId ref = (case ref of [] \<Rightarrow> False | c # _ \<Rightarrow> c \<in> set ascii_letters)"

definition isInterChainAccountRef :: "string \<Rightarrow> bool" where
  "isInterChainAccountRef ref = startsWith ref ''@''"

definition isPortfolioBalancePlaceRef :: "string \<Rightarrow> bool" where
  "isPortfolioBalancePlaceRef ref = (isInterChainAccountRef ref \<or> isInstrumentId ref)"

definition isDepositFromChainRef :: "string \<Rightarrow> bool" where
  "isDepositFromChainRef ref = startsWith ref ''+''"

definition isLocalChainAccountRef :: "string \<Rightarrow> bool" where
  "isLocalChainAccountRef ref = startsWith ref ''+''"

definition isWithdrawToChainRef :: "string \<Rightarrow> bool" where
  "isWithdrawToChainRef ref = startsWith ref ''-''"

definition isERC4626InstrumentId :: "string \<Rightarrow> bool" where
  "isERC4626InstrumentId ref = startsWith ref ''ERC4626_''"

definition isERC4626MorphoInstrumentId :: "string \<Rightarrow> bool" where
  "isERC4626MorphoInstrumentId ref = startsWith ref ''ERC4626_morpho''"

definition isBeefyInstrumentId :: "string \<Rightarrow> bool" where
  "isBeefyInstrumentId ref = startsWith ref ''Beefy_''"

text \<open>The parts of a string between underscores.\<close>

fun underscore_parts :: "string \<Rightarrow> string list" where
  "underscore_parts [] = [[]]"
| "underscore_parts (c # cs) =
     (if c = CHR ''_'' then [] # underscore_parts cs
      else (case underscore_parts cs of [] \<Rightarrow> [[c]] | p # ps \<Rightarrow> (c # p) # ps))"

text \<open>A pool missing from the table still names its chain after the last underscore.\<close>

definition chainOf :: "string \<Rightarrow> error + string" where
  "chainOf place =
     (if startsWith place ''<'' then Inr ''agoric''
      else if \<not> isInstrumentId place then Inr (drop 1 place)
      else (case map_of PoolPlaces place of
              Some info \<Rightarrow> Inr (chainName info)
            | None \<Rightarrow>
                let parts = underscore_parts place in
                if 2 \<le> length parts \<and> (\<forall>p \<in> set parts. p \<noteq> [] \<and> (\<forall>c \<in> set p. alnum c))
                then Inr (last parts) else Inl UnknownChain))"

section \<open>Parsers of the place references of a step\<close>

definition AxelarChain :: "string list" where
  "AxelarChain = [''Arbitrum'', ''Avalanche'', ''Base'', ''Ethereum'', ''Optimism'']"

definition SupportedChain :: "string list" where
  "SupportedChain = AxelarChain @ [''agoric'', ''noble'']"

text \<open>A mark, then one or more word characters to the end: the group, if it matches.\<close>

definition match_ref :: "char \<Rightarrow> string \<Rightarrow> string option" where
  "match_ref mark ref =
     (case ref of [] \<Rightarrow> None
      | c # cs \<Rightarrow> if c = mark \<and> cs \<noteq> [] \<and> (\<forall>x \<in> set cs. word_char x) then Some cs else None)"

definition getDepositChainOfPlaceRef :: "string \<Rightarrow> error + string option" where
  "getDepositChainOfPlaceRef ref =
     (if ref = ''+agoric'' then Inr None
      else (case match_ref (CHR ''+'') ref of
              None \<Rightarrow> Inr None
            | Some chain \<Rightarrow> bindr (requirer (chain \<in> set AxelarChain) BadPlaceRef) (\<lambda>_. Inr (Some chain))))"

definition getWithdrawChainOfPlaceRef :: "string \<Rightarrow> error + string option" where
  "getWithdrawChainOfPlaceRef ref =
     (case match_ref (CHR ''-'') ref of
        None \<Rightarrow> Inr None
      | Some chain \<Rightarrow> bindr (requirer (chain \<in> set AxelarChain) BadPlaceRef) (\<lambda>_. Inr (Some chain)))"

definition getChainNameOfPlaceRef :: "string \<Rightarrow> error + string option" where
  "getChainNameOfPlaceRef ref =
     (case match_ref (CHR ''@'') ref of
        None \<Rightarrow> Inr None
      | Some chain \<Rightarrow> bindr (requirer (chain \<in> set SupportedChain) BadPlaceRef) (\<lambda>_. Inr (Some chain)))"

datatype seat_keyword = Cash | Deposit

definition seatKeywords :: "(string \<times> seat_keyword) list" where
  "seatKeywords = [(''Cash'', Cash), (''Deposit'', Deposit)]"

definition getKeywordOfPlaceRef :: "string \<Rightarrow> error + seat_keyword option" where
  "getKeywordOfPlaceRef ref =
     (if ref \<noteq> [] \<and> last ref = CHR ''>'' then
        (case match_ref (CHR ''<'') (butlast ref) of
           None \<Rightarrow> Inr None
         | Some keyword \<Rightarrow>
             (case map_of seatKeywords keyword of None \<Rightarrow> Inl BadPlaceRef | Some k \<Rightarrow> Inr (Some k)))
      else Inr None)"

section \<open>Deposit and withdrawal places of a plan\<close>

datatype flow_type = FlowWithdraw | FlowDeposit | FlowRebalance | FlowClaimRewards

record flow_context =
  flowType :: flow_type
  isEvmPortfolio :: bool
  fromChain :: "string option"
  toChain :: "string option"

text \<open>\<open>MovementDesc\<close>: the amount is the value, brand elided; of the optional parts only their presence.\<close>

record movement =
  src :: string
  dest :: string
  movedAmount :: int
  claimRewards :: bool
  swap :: bool

definition checkSeatPlace :: "flow_context \<Rightarrow> seat_keyword \<Rightarrow> error + unit" where
  "checkSeatPlace ctx keyword =
     bindr (requirer (\<not> isEvmPortfolio ctx) PlaceNotAllowed) (\<lambda>_.
     let expected = (case keyword of Cash \<Rightarrow> FlowWithdraw | Deposit \<Rightarrow> FlowDeposit) in
     requirer (flowType ctx = expected) PlaceNotAllowed)"

definition checkEvmOwnerPlace :: "flow_context \<Rightarrow> flow_type \<Rightarrow> string \<Rightarrow> string option \<Rightarrow> error + unit" where
  "checkEvmOwnerPlace ctx expected chain flowChain =
     bindr (requirer (isEvmPortfolio ctx) PlaceNotAllowed) (\<lambda>_.
     bindr (requirer (flowType ctx = expected) PlaceNotAllowed) (\<lambda>_.
     requirer (Some chain = flowChain) PlaceNotAllowed))"

definition when_some :: "'a option \<Rightarrow> ('a \<Rightarrow> error + unit) \<Rightarrow> error + unit" where
  "when_some x f = (case x of None \<Rightarrow> Inr () | Some y \<Rightarrow> f y)"

fun for_eachr :: "'a list \<Rightarrow> ('a \<Rightarrow> error + unit) \<Rightarrow> error + unit" where
  "for_eachr [] f = Inr ()"
| "for_eachr (x # xs) f = bindr (f x) (\<lambda>_. for_eachr xs f)"

definition vetStepPlaces :: "flow_context \<Rightarrow> movement \<Rightarrow> error + unit" where
  "vetStepPlaces ctx m =
     bindr (getKeywordOfPlaceRef (src m)) (\<lambda>srcKeyword.
     bindr (when_some srcKeyword (\<lambda>k.
       bindr (requirer (k = Deposit) PlaceNotAllowed) (\<lambda>_. checkSeatPlace ctx k))) (\<lambda>_.
     bindr (getKeywordOfPlaceRef (dest m)) (\<lambda>destKeyword.
     bindr (when_some destKeyword (\<lambda>k.
       bindr (requirer (k = Cash) PlaceNotAllowed) (\<lambda>_. checkSeatPlace ctx k))) (\<lambda>_.
     bindr (getDepositChainOfPlaceRef (src m)) (\<lambda>depositChain.
     bindr (when_some depositChain (\<lambda>c. checkEvmOwnerPlace ctx FlowDeposit c (fromChain ctx))) (\<lambda>_.
     bindr (getWithdrawChainOfPlaceRef (dest m)) (\<lambda>withdrawChain.
     when_some withdrawChain (\<lambda>c. checkEvmOwnerPlace ctx FlowWithdraw c (toChain ctx)))))))))"

definition vetFlowPlanPlaces :: "flow_context \<Rightarrow> movement list \<Rightarrow> error + unit" where
  "vetFlowPlanPlaces ctx steps = for_eachr steps (vetStepPlaces ctx)"

section \<open>Facts about places\<close>

named_theorems vet_simps \<open>when a sequence of checks passes\<close>

lemma for_eachr_Inr [simp, vet_simps]: "for_eachr xs f = Inr u \<longleftrightarrow> (\<forall>x \<in> set xs. f x = Inr ())"
  by (induction xs) (auto simp: bindr_Inr_iff)

lemma when_some_Inr [simp, vet_simps]: "when_some x f = Inr u \<longleftrightarrow> (\<forall>y. x = Some y \<longrightarrow> f y = Inr ())"
  by (cases x) (simp_all add: when_some_def)

lemma startsWith_one: "startsWith s [c] \<longleftrightarrow> (\<exists>t. s = c # t)"
  by (cases s) (auto simp: startsWith_def)

text \<open>The kinds of place are disjoint.\<close>

lemma place_kinds_disjoint:
  "isInstrumentId p \<Longrightarrow> \<not> isInterChainAccountRef p \<and> \<not> isDepositFromChainRef p \<and> \<not> isWithdrawToChainRef p \<and> \<not> startsWith p ''<''"
  "isInterChainAccountRef p \<Longrightarrow> \<not> isDepositFromChainRef p \<and> \<not> isWithdrawToChainRef p \<and> \<not> startsWith p ''<''"
  by (auto simp: isInstrumentId_def isInterChainAccountRef_def isDepositFromChainRef_def isWithdrawToChainRef_def
      startsWith_one ascii_letters_def)

lemma match_ref_Some: "match_ref c ref = Some s \<longleftrightarrow> ref = c # s \<and> s \<noteq> [] \<and> (\<forall>x \<in> set s. word_char x)"
  by (auto simp: match_ref_def split: list.splits)

text \<open>Every instrument of the table has a supported chain and starts with a letter.\<close>

lemma PoolPlaces_distinct: "distinct (map fst PoolPlaces)"
  unfolding PoolPlaces_def BeefyPoolPlaces_def ERC4626PoolPlaces_def by simp

lemma PoolPlaces_table:
  "list_all (\<lambda>(place, info). isInstrumentId place \<and> chainName info \<in> set SupportedChain) PoolPlaces"
  by code_simp

lemma chainOf_table:
  assumes "(place, info) \<in> set PoolPlaces"
  shows "chainOf place = Inr (chainName info)"
proof -
  have "isInstrumentId place" using PoolPlaces_table assms by (auto simp: list_all_iff)
  moreover from this have "\<not> startsWith place ''<''" by (simp add: place_kinds_disjoint)
  ultimately show ?thesis
    using map_of_is_SomeI [OF PoolPlaces_distinct assms] by (simp add: chainOf_def)
qed

lemma table_names_agree:
  "list_all (\<lambda>(place, info). 2 \<le> length (underscore_parts place) \<longrightarrow>
     last (underscore_parts place) = chainName info \<and> hd (underscore_parts place) = protocol info) PoolPlaces"
  by code_simp

text \<open>The table of pools is consistent: its identifiers are distinct and are instrument
  identifiers, \<open>chainOf\<close> gives the chain of the table, a supported chain, and wherever the
  identifier names a protocol and a chain these are the ones of the table, so the
  syntactic fallback agrees with it.\<close>

theorem pool_table_consistent:
  "distinct (map fst PoolPlaces) \<and>
   (\<forall>(place, info) \<in> set PoolPlaces. isInstrumentId place \<and> chainName info \<in> set SupportedChain \<and>
      chainOf place = Inr (chainName info) \<and>
      (2 \<le> length (underscore_parts place) \<longrightarrow>
         last (underscore_parts place) = chainName info \<and> hd (underscore_parts place) = protocol info))"
proof -
  have "\<forall>(place, info) \<in> set PoolPlaces. chainOf place = Inr (chainName info)" using chainOf_table by auto
  then show ?thesis
    using PoolPlaces_distinct PoolPlaces_table table_names_agree unfolding list_all_iff by (simp add: case_prod_beta)
qed

lemma pool_table_consistent_witness:
  "(''Aave_Base'', \<lparr>protocol = ''Aave'', chainName = ''Base'', vault = None\<rparr>) \<in> set PoolPlaces \<and>
   chainOf ''Aave_Base'' = Inr ''Base'' \<and> last (underscore_parts ''Aave_Base'') = ''Base''"
proof -
  have m: "(''Aave_Base'', \<lparr>protocol = ''Aave'', chainName = ''Base'', vault = None\<rparr>) \<in> set PoolPlaces"
    by (simp add: PoolPlaces_def)
  then have "chainOf ''Aave_Base'' = Inr ''Base''" using pool_table_consistent by fastforce
  with m show ?thesis by simp
qed

lemma chainOf_examples:
  "chainOf ''USDN'' = Inr ''noble''" "chainOf ''New_pool_Base'' = Inr ''Base''"
  "chainOf ''@Arbitrum'' = Inr ''Arbitrum''" "chainOf ''<Cash>'' = Inr ''agoric''" "chainOf ''unknown'' = Inl UnknownChain"
  by code_simp+

text \<open>A plan that passes \<open>vetFlowPlanPlaces\<close> moves funds in or out of the portfolio only in
  the flow its owner asked for: a step from the deposit seat only in the deposit flow of a
  portfolio with a seat, a step from another chain's owner only in a deposit flow from that
  chain of an EVM portfolio, and the same for withdrawals; in any other flow no step does.\<close>

theorem plan_places_fit_flow:
  assumes "vetFlowPlanPlaces ctx steps = Inr u" "m \<in> set steps"
  shows "(src m = ''<Deposit>'' \<longrightarrow> flowType ctx = FlowDeposit \<and> \<not> isEvmPortfolio ctx) \<and>
    (dest m = ''<Cash>'' \<longrightarrow> flowType ctx = FlowWithdraw \<and> \<not> isEvmPortfolio ctx) \<and>
    src m \<noteq> ''<Cash>'' \<and> dest m \<noteq> ''<Deposit>'' \<and>
    (\<forall>c \<in> set AxelarChain.
       (src m = ''+'' @ c \<longrightarrow> flowType ctx = FlowDeposit \<and> isEvmPortfolio ctx \<and> fromChain ctx = Some c) \<and>
       (dest m = ''-'' @ c \<longrightarrow> flowType ctx = FlowWithdraw \<and> isEvmPortfolio ctx \<and> toChain ctx = Some c))"
proof -
  have v: "vetStepPlaces ctx m = Inr ()" using assms by (simp add: vetFlowPlanPlaces_def)
  have k: "getKeywordOfPlaceRef ''<Deposit>'' = Inr (Some Deposit)" "getKeywordOfPlaceRef ''<Cash>'' = Inr (Some Cash)"
    by code_simp+
  have ax: "list_all (\<lambda>c. getDepositChainOfPlaceRef (''+'' @ c) = Inr (Some c) \<and>
      getWithdrawChainOfPlaceRef (''-'' @ c) = Inr (Some c)) AxelarChain" by code_simp
  show ?thesis
    using v k ax unfolding list_all_iff vetStepPlaces_def
    by (auto simp: bindr_Inr_iff checkSeatPlace_def checkEvmOwnerPlace_def)
qed

lemma plan_places_fit_flow_witness:
  "vetFlowPlanPlaces \<lparr>flowType = FlowDeposit, isEvmPortfolio = True, fromChain = Some ''Base'', toChain = None\<rparr>
     [\<lparr>src = ''+Base'', dest = ''@agoric'', movedAmount = 10, claimRewards = False, swap = False\<rparr>] = Inr () \<and>
   fromChain \<lparr>flowType = FlowDeposit, isEvmPortfolio = True, fromChain = Some ''Base'', toChain = None\<rparr> = Some ''Base''"
proof -
  let ?ctx = "\<lparr>flowType = FlowDeposit, isEvmPortfolio = True, fromChain = Some ''Base'', toChain = None\<rparr>"
  let ?m = "\<lparr>src = ''+Base'', dest = ''@agoric'', movedAmount = 10, claimRewards = False, swap = False\<rparr>"
  have "vetFlowPlanPlaces ?ctx [?m] = Inr ()" by code_simp
  then show ?thesis using plan_places_fit_flow [of ?ctx "[?m]" "()" ?m] by simp
qed

end
