(* ===== verification/Permissions.thy ===== *)
theory Permissions
  imports JsCollections
begin

text \<open>
  The permissions of a delegated agent, \<open>portfolio-api/src/portfolio-permissions.ts\<close>: their
  shapes, and the conversions between the signed EIP-712 record and the application record.
\<close>

section \<open>Shapes\<close>

record limits =
  maxWeightBps :: "int option"
  minVaultTvlUsd :: "int option"
  maxVaultShareBps :: "int option"

text \<open>\<open>allocation\<close> is absent, a boolean, or a record of limits.\<close>

datatype allocation_permission = AllowAll bool | Limited limits

record permissions =
  perm_allocation :: "allocation_permission option"
  perm_rebalance :: "bool option"
  perm_claimRewards :: "bool option"

record wire_permissions =
  wire_allocation :: "bool option"
  wire_limits :: limits

definition all_some :: "('a \<Rightarrow> bool) \<Rightarrow> 'a option \<Rightarrow> bool" where
  "all_some P x = (case x of None \<Rightarrow> True | Some y \<Rightarrow> P y)"

definition BpsShape :: "int \<Rightarrow> bool" where
  "BpsShape n \<longleftrightarrow> 0 \<le> n \<and> n \<le> 10000"

definition PortfolioAllocationPermissionsShape :: "limits \<Rightarrow> bool" where
  "PortfolioAllocationPermissionsShape l \<longleftrightarrow>
     all_some BpsShape (maxWeightBps l) \<and> all_some (\<lambda>n. 0 \<le> n) (minVaultTvlUsd l) \<and> all_some BpsShape (maxVaultShareBps l)"

definition PortfolioPermissionsShape :: "permissions \<Rightarrow> bool" where
  "PortfolioPermissionsShape p \<longleftrightarrow>
     (case perm_allocation p of Some (Limited l) \<Rightarrow> PortfolioAllocationPermissionsShape l | _ \<Rightarrow> True)"

definition no_limits :: limits where
  "no_limits = \<lparr>maxWeightBps = None, minVaultTvlUsd = None, maxVaultShareBps = None\<rparr>"

definition PortfolioPermissionsEIP712Shape :: "wire_permissions \<Rightarrow> bool" where
  "PortfolioPermissionsEIP712Shape w \<longleftrightarrow>
     wire_allocation w = Some True \<and> all_some BpsShape (maxWeightBps (wire_limits w)) \<and>
       all_some BpsShape (maxVaultShareBps (wire_limits w)) \<or>
     wire_allocation w = None \<and> wire_limits w = no_limits \<or>
     wire_allocation w = Some False \<and> wire_limits w = no_limits"

section \<open>Conversions\<close>

definition portfolioPermissionsFromEIP712 :: "wire_permissions \<Rightarrow> error + permissions" where
  "portfolioPermissionsFromEIP712 w =
     bindr (requirer (PortfolioPermissionsEIP712Shape w) ShapeMismatch) (\<lambda>_.
     let l = wire_limits w;
         hasConstraints = (maxWeightBps l \<noteq> None \<or> minVaultTvlUsd l \<noteq> None \<or> maxVaultShareBps l \<noteq> None);
         p = \<lparr>perm_allocation = (if hasConstraints then Some (Limited l) else map_option AllowAll (wire_allocation w)),
              perm_rebalance = None, perm_claimRewards = None\<rparr>
     in bindr (requirer (PortfolioPermissionsShape p) ShapeMismatch) (\<lambda>_. Inr p))"

definition portfolioPermissionsToEIP712 :: "permissions \<Rightarrow> error + wire_permissions" where
  "portfolioPermissionsToEIP712 p =
     bindr (requirer (PortfolioPermissionsShape p) ShapeMismatch) (\<lambda>_.
     bindr (requirer (perm_rebalance p = None) PermissionNotSupported) (\<lambda>_.
     bindr (requirer (perm_claimRewards p = None) PermissionNotSupported) (\<lambda>_.
     Inr (case perm_allocation p of
            None \<Rightarrow> \<lparr>wire_allocation = None, wire_limits = no_limits\<rparr>
          | Some (AllowAll b) \<Rightarrow> \<lparr>wire_allocation = Some b, wire_limits = no_limits\<rparr>
          | Some (Limited l) \<Rightarrow> \<lparr>wire_allocation = Some True, wire_limits = l\<rparr>))))"

text \<open>An empty record of limits limits nothing and is not told apart from \<open>true\<close> on the wire.\<close>

definition canonical :: "permissions \<Rightarrow> permissions" where
  "canonical p = (if perm_allocation p = Some (Limited no_limits) then p\<lparr>perm_allocation := Some (AllowAll True)\<rparr> else p)"

definition has_limit :: "limits \<Rightarrow> bool" where
  "has_limit l \<longleftrightarrow> maxWeightBps l \<noteq> None \<or> minVaultTvlUsd l \<noteq> None \<or> maxVaultShareBps l \<noteq> None"

lemma has_limit_iff: "has_limit l \<longleftrightarrow> l \<noteq> no_limits"
  by (cases l) (simp add: has_limit_def no_limits_def)

lemma to_cases:
  "portfolioPermissionsToEIP712 p = Inr w \<longleftrightarrow>
     PortfolioPermissionsShape p \<and> perm_rebalance p = None \<and> perm_claimRewards p = None \<and>
     w = (case perm_allocation p of
            None \<Rightarrow> \<lparr>wire_allocation = None, wire_limits = no_limits\<rparr>
          | Some (AllowAll b) \<Rightarrow> \<lparr>wire_allocation = Some b, wire_limits = no_limits\<rparr>
          | Some (Limited l) \<Rightarrow> \<lparr>wire_allocation = Some True, wire_limits = l\<rparr>)"
  unfolding portfolioPermissionsToEIP712_def bindr_Inr_iff requirer_Inr by auto

lemma from_cases:
  "portfolioPermissionsFromEIP712 w = Inr p \<longleftrightarrow>
     PortfolioPermissionsEIP712Shape w \<and> PortfolioPermissionsShape p \<and>
     p = \<lparr>perm_allocation = (if has_limit (wire_limits w) then Some (Limited (wire_limits w))
                             else map_option AllowAll (wire_allocation w)),
          perm_rebalance = None, perm_claimRewards = None\<rparr>"
  unfolding portfolioPermissionsFromEIP712_def bindr_Inr_iff requirer_Inr Let_def has_limit_def by auto

lemma from_to:
  assumes "portfolioPermissionsToEIP712 p = Inr w"
  shows "portfolioPermissionsFromEIP712 w = Inr (canonical p)"
proof (cases p)
  case (fields al rb cl)
  have ok1: "portfolioPermissionsFromEIP712 \<lparr>wire_allocation = None, wire_limits = no_limits\<rparr>
      = Inr \<lparr>perm_allocation = None, perm_rebalance = None, perm_claimRewards = None\<rparr>"
    by code_simp
  have "portfolioPermissionsFromEIP712 \<lparr>wire_allocation = Some True, wire_limits = no_limits\<rparr>
      = Inr \<lparr>perm_allocation = Some (AllowAll True), perm_rebalance = None, perm_claimRewards = None\<rparr>"
    "portfolioPermissionsFromEIP712 \<lparr>wire_allocation = Some False, wire_limits = no_limits\<rparr>
      = Inr \<lparr>perm_allocation = Some (AllowAll False), perm_rebalance = None, perm_claimRewards = None\<rparr>"
    by code_simp+
  then have ok2: "portfolioPermissionsFromEIP712 \<lparr>wire_allocation = Some b, wire_limits = no_limits\<rparr>
      = Inr \<lparr>perm_allocation = Some (AllowAll b), perm_rebalance = None, perm_claimRewards = None\<rparr>" for b
    by (cases b) (simp_all only:)
  show ?thesis
  proof (cases al)
    case None
    with assms fields ok1 show ?thesis by (simp add: to_cases canonical_def)
  next
    case (Some a)
    show ?thesis
    proof (cases a)
      case (AllowAll b)
      with Some assms fields ok2 show ?thesis by (simp add: to_cases canonical_def)
    next
      case (Limited l)
      with Some assms fields have w: "w = \<lparr>wire_allocation = Some True, wire_limits = l\<rparr>"
        "PortfolioAllocationPermissionsShape l" "rb = None" "cl = None"
        by (simp_all add: to_cases PortfolioPermissionsShape_def)
      show ?thesis
      proof (cases "l = no_limits")
        case True
        with w ok2 [of True] Some Limited fields show ?thesis by (simp add: canonical_def)
      next
        case False
        moreover have "PortfolioPermissionsEIP712Shape w"
          using w(1,2) by (simp add: PortfolioPermissionsEIP712Shape_def PortfolioAllocationPermissionsShape_def)
        ultimately show ?thesis
          using w Some Limited fields by (simp add: from_cases canonical_def has_limit_iff PortfolioPermissionsShape_def)
      qed
    qed
  qed
qed

lemma to_from:
  assumes "portfolioPermissionsFromEIP712 w = Inr p"
  shows "portfolioPermissionsToEIP712 p = Inr w"
proof -
  have w: "PortfolioPermissionsEIP712Shape w" "PortfolioPermissionsShape p"
    "p = \<lparr>perm_allocation = (if has_limit (wire_limits w) then Some (Limited (wire_limits w))
                             else map_option AllowAll (wire_allocation w)),
          perm_rebalance = None, perm_claimRewards = None\<rparr>"
    using assms unfolding from_cases by blast+
  show ?thesis
  proof (cases "wire_limits w = no_limits")
    case True
    with w show ?thesis by (cases "wire_allocation w") (simp_all add: to_cases has_limit_iff)
  next
    case False
    then have "wire_allocation w = Some True" using w(1) by (auto simp: PortfolioPermissionsEIP712Shape_def)
    with False w show ?thesis by (simp add: to_cases has_limit_iff)
  qed
qed

text \<open>C34: User-facing permissions survive the signed form: permissions that convert to the EIP-712
  record convert back to themselves, an empty limits record becoming \<open>true\<close>; and every
  record that is accepted from the wire is the one its permissions convert to.\<close>

theorem permissions_round_trip:
  "(portfolioPermissionsToEIP712 p = Inr w \<longrightarrow> portfolioPermissionsFromEIP712 w = Inr (canonical p)) \<and>
   (portfolioPermissionsFromEIP712 w' = Inr p' \<longrightarrow> portfolioPermissionsToEIP712 p' = Inr w')"
  using from_to to_from by blast

lemma permissions_round_trip_witness:
  "\<exists>p w. p = \<lparr>perm_allocation = Some (Limited \<lparr>maxWeightBps = Some 2500, minVaultTvlUsd = None, maxVaultShareBps = None\<rparr>),
        perm_rebalance = None, perm_claimRewards = None\<rparr> \<and>
     portfolioPermissionsToEIP712 p = Inr w \<and> portfolioPermissionsFromEIP712 w = Inr p"
proof -
  let ?l = "\<lparr>maxWeightBps = Some 2500, minVaultTvlUsd = None, maxVaultShareBps = None\<rparr> :: limits"
  let ?p = "\<lparr>perm_allocation = Some (Limited ?l), perm_rebalance = None, perm_claimRewards = None\<rparr>"
  let ?w = "\<lparr>wire_allocation = Some True, wire_limits = ?l\<rparr>"
  have 1: "portfolioPermissionsToEIP712 ?p = Inr ?w" by code_simp
  have "canonical ?p = ?p" by code_simp
  with 1 permissions_round_trip [of ?p ?w ?w ?p] show ?thesis by (intro exI [of _ ?p] exI [of _ ?w]) simp
qed

end
