(* ===== verification/MaxWeightClosure.thy ===== *)
theory MaxWeightClosure
  imports JsCollections "HOL-Library.While_Combinator"
begin

text \<open>
  The maximum-weight closure of \<open>portfolio-contract/src/max-weight-closure.ts\<close>: an Edmonds-Karp
  maximum flow over the closure network, and the proof that the loop ends with the largest
  weight of a dependency-closed set of nodes.
\<close>

section \<open>The algorithm\<close>

text \<open>
  Vertices are indices into the arrays. \<open>neighbors\<close> holds JavaScript sets, kept in the order
  of insertion.
\<close>

type_synonym matrix = "int list list"

record network =
  residual :: matrix
  neighbors :: "nat list list"

definition add_residual :: "nat \<Rightarrow> nat \<Rightarrow> int \<Rightarrow> matrix \<Rightarrow> matrix" where
  "add_residual u v d res = res[u := (res ! u)[v := res ! u ! v + d]]"

definition addEdge :: "nat \<times> nat \<times> int \<Rightarrow> network \<Rightarrow> network" where
  "addEdge e n =
     (case e of (u, v, capacity) \<Rightarrow>
        (let nb = (neighbors n)[u := add_to_set v (neighbors n ! u)] in
         \<lparr>residual = add_residual u v capacity (residual n), neighbors = nb[v := add_to_set u (nb ! v)]\<rparr>))"

definition totalMagnitude :: "int list \<Rightarrow> int" where
  "totalMagnitude weights = sum_list (map (\<lambda>w. if w < 0 then - w else w) weights)"

definition positiveWeight :: "int list \<Rightarrow> int" where
  "positiveWeight weights = sum_list (map (\<lambda>w. if w > 0 then w else 0) weights)"

text \<open>The edges in the order they are added: the weights first, then the dependencies.\<close>

definition weightEdge :: "nat \<Rightarrow> nat \<times> int \<Rightarrow> (nat \<times> nat \<times> int) list" where
  "weightEdge source iw =
     (case iw of (i, w) \<Rightarrow>
        if w > 0 then [(source, i, w)] else if w < 0 then [(i, Suc source, - w)] else [])"

definition closureEdges :: "int list \<Rightarrow> nat list list \<Rightarrow> (nat \<times> nat \<times> int) list" where
  "closureEdges weights deps =
     concat (map (weightEdge (length weights)) (zip [0..<length weights] weights)) @
     concat (map (\<lambda>(i, ds). map (\<lambda>j. (i, j, totalMagnitude weights + 1)) ds) (zip [0..<length deps] deps))"

definition emptyNetwork :: "nat \<Rightarrow> network" where
  "emptyNetwork vertexCount =
     \<lparr>residual = replicate vertexCount (replicate vertexCount 0), neighbors = replicate vertexCount []\<rparr>"

definition closureNetwork :: "int list \<Rightarrow> nat list list \<Rightarrow> network" where
  "closureNetwork weights deps =
     fold addEdge (closureEdges weights deps) (emptyNetwork (length weights + 2))"

text \<open>
  One search: \<open>head\<close> runs over the growing queue; a vertex is reached once its parent is
  defined. \<open>while_option\<close> gives \<open>None\<close> for a loop that does not end.
\<close>

record bfs_state =
  parent :: "nat option list"
  queue :: "nat list"
  head :: nat

definition visit :: "matrix \<Rightarrow> nat \<Rightarrow> nat \<Rightarrow> bfs_state \<Rightarrow> bfs_state" where
  "visit res u v st =
     (if parent st ! v \<noteq> None \<or> res ! u ! v = 0 then st
      else st\<lparr>parent := (parent st)[v := Some u], queue := queue st @ [v]\<rparr>)"

definition bfs_step :: "network \<Rightarrow> bfs_state \<Rightarrow> bfs_state" where
  "bfs_step n st =
     (let u = queue st ! head st in
      (fold (visit (residual n) u) (neighbors n ! u) st)\<lparr>head := Suc (head st)\<rparr>)"

definition bfs_start :: "network \<Rightarrow> nat \<Rightarrow> bfs_state" where
  "bfs_start n source =
     \<lparr>parent = (replicate (length (residual n)) None)[source := Some source], queue = [source], head = 0\<rparr>"

definition search :: "network \<Rightarrow> nat \<Rightarrow> bfs_state option" where
  "search n source = while_option (\<lambda>st. head st < length (queue st)) (bfs_step n) (bfs_start n source)"

text \<open>The edges of the path to the sink, last first, as both path loops walk them.\<close>

definition walk_step :: "nat option list \<Rightarrow> nat \<times> (nat \<times> nat) list \<Rightarrow> nat \<times> (nat \<times> nat) list" where
  "walk_step par st = (case st of (v, es) \<Rightarrow> let u = the (par ! v) in (u, es @ [(u, v)]))"

definition path_edges :: "nat option list \<Rightarrow> nat \<Rightarrow> nat \<Rightarrow> (nat \<times> nat) list option" where
  "path_edges par source sink =
     map_option snd (while_option (\<lambda>(v, _). v \<noteq> source) (walk_step par) (sink, []))"

fun increment :: "matrix \<Rightarrow> (nat \<times> nat) list \<Rightarrow> int option \<Rightarrow> int option" where
  "increment res [] inc = inc"
| "increment res ((u, v) # es) inc =
     increment res es
       (case inc of None \<Rightarrow> Some (res ! u ! v) | Some x \<Rightarrow> if res ! u ! v < x then Some (res ! u ! v) else Some x)"

definition push_edge :: "int \<Rightarrow> nat \<times> nat \<Rightarrow> matrix \<Rightarrow> matrix" where
  "push_edge d e res = (case e of (u, v) \<Rightarrow> add_residual v u d (add_residual u v (- d) res))"

text \<open>
  The state of the outer loop. \<open>reached\<close> is the result of the latest search, \<open>None\<close> when it
  did not end or the path could not be walked.
\<close>

record flow_loop =
  net :: network
  pushed :: int
  reached :: "bfs_state option"

definition augment :: "nat \<Rightarrow> nat \<Rightarrow> flow_loop \<Rightarrow> flow_loop" where
  "augment source sink st =
     (case reached st of
        None \<Rightarrow> st
      | Some b \<Rightarrow>
          (case path_edges (parent b) source sink of
             None \<Rightarrow> st\<lparr>reached := None\<rparr>
           | Some es \<Rightarrow>
               (case increment (residual (net st)) es None of
                  None \<Rightarrow> st\<lparr>reached := None\<rparr>
                | Some d \<Rightarrow>
                    let net' = (net st)\<lparr>residual := fold (push_edge d) es (residual (net st))\<rparr> in
                    \<lparr>net = net', pushed = pushed st + d, reached = search net' source\<rparr>)))"

definition sink_reached :: "nat \<Rightarrow> flow_loop \<Rightarrow> bool" where
  "sink_reached sink st = (case reached st of None \<Rightarrow> False | Some b \<Rightarrow> parent b ! sink \<noteq> None)"

definition maxFlow :: "network \<Rightarrow> nat \<Rightarrow> nat \<Rightarrow> error + int" where
  "maxFlow n source sink =
     (case while_option (sink_reached sink) (augment source sink)
             \<lparr>net = n, pushed = 0, reached = search n source\<rparr> of
        None \<Rightarrow> Inl Diverges
      | Some st \<Rightarrow> (case reached st of None \<Rightarrow> Inl Diverges | Some _ \<Rightarrow> Inr (pushed st)))"

fun index_of :: "'a list \<Rightarrow> 'a \<Rightarrow> nat option" where
  "index_of [] x = None"
| "index_of (y # ys) x = (if y = x then Some 0 else map_option Suc (index_of ys x))"

definition dependencyIndex :: "'a list \<Rightarrow> 'a \<Rightarrow> error + nat" where
  "dependencyIndex nodeList x = (case index_of nodeList x of None \<Rightarrow> Inl NotANode | Some i \<Rightarrow> Inr i)"

definition maxWeightClosure :: "'a list \<Rightarrow> ('a \<Rightarrow> int) \<Rightarrow> ('a \<Rightarrow> 'a list) \<Rightarrow> error + int" where
  "maxWeightClosure nodeList weightOf dependenciesOf =
     bindr (requirer (distinct nodeList) DuplicateNode) (\<lambda>_.
     bindr (mapr (\<lambda>node. mapr (dependencyIndex nodeList) (dependenciesOf node)) nodeList) (\<lambda>deps.
     let weights = map weightOf nodeList; source = length nodeList in
     bindr (maxFlow (closureNetwork weights deps) source (Suc source)) (\<lambda>f.
       Inr (positiveWeight weights - f))))"

section \<open>Matrices\<close>

definition square :: "nat \<Rightarrow> matrix \<Rightarrow> bool" where
  "square n res \<longleftrightarrow> length res = n \<and> (\<forall>a < n. length (res ! a) = n)"

lemma add_residual_square: "square n res \<Longrightarrow> square n (add_residual u v d res)"
  by (cases "u < n") (auto simp: square_def add_residual_def nth_list_update)

lemma add_residual_nth:
  assumes "square n res" "u < n" "v < n" "a < n" "b < n"
  shows "add_residual u v d res ! a ! b = res ! a ! b + (if a = u \<and> b = v then d else 0)"
  using assms by (auto simp: square_def add_residual_def nth_list_update)

lemma push_edge_square: "square n res \<Longrightarrow> square n (push_edge d e res)"
  by (simp add: push_edge_def add_residual_square split: prod.split)

lemma push_edge_nth:
  assumes "square n res" "u < n" "v < n" "a < n" "b < n"
  shows "push_edge d (u, v) res ! a ! b =
    res ! a ! b + (if a = v \<and> b = u then d else 0) - (if a = u \<and> b = v then d else 0)"
  using assms by (simp add: push_edge_def add_residual_nth [where n = n] add_residual_square)

definition row :: "nat \<Rightarrow> matrix \<Rightarrow> nat \<Rightarrow> int" where
  "row n res a = (\<Sum>b < n. res ! a ! b)"

lemma push_edge_row:
  assumes "square n res" "u < n" "v < n" "a < n"
  shows "row n (push_edge d (u, v) res) a = row n res a + (if a = v then d else 0) - (if a = u then d else 0)"
proof -
  have "row n (push_edge d (u, v) res) a =
    (\<Sum>b < n. res ! a ! b + (if b = u then if a = v then d else 0 else 0) - (if b = v then if a = u then d else 0 else 0))"
    unfolding row_def by (rule sum.cong [OF refl]) (use assms in \<open>auto simp: push_edge_nth [where n = n]\<close>)
  also have "\<dots> = row n res a + (if a = v then d else 0) - (if a = u then d else 0)"
    using assms(2,3) by (simp add: row_def sum.distrib sum_subtractf sum.delta)
  finally show ?thesis .
qed

section \<open>Pushing along a path\<close>

text \<open>The edges of a path from \<open>s\<close> to \<open>v\<close>, last first.\<close>

fun path :: "nat \<Rightarrow> nat \<Rightarrow> (nat \<times> nat) list \<Rightarrow> bool" where
  "path s v [] \<longleftrightarrow> v = s"
| "path s v ((u, w) # es) \<longleftrightarrow> w = v \<and> path s u es"

definition edges_below :: "nat \<Rightarrow> (nat \<times> nat) list \<Rightarrow> bool" where
  "edges_below n es \<longleftrightarrow> (\<forall>(u, v) \<in> set es. u < n \<and> v < n)"

lemma push_path_square: "square n res \<Longrightarrow> square n (fold (push_edge d) es res)"
  by (induction es arbitrary: res) (simp_all add: push_edge_square)

lemma push_path_row:
  assumes "path s v es" "square n res" "edges_below n es" "a < n"
  shows "row n (fold (push_edge d) es res) a = row n res a + (if a = v then d else 0) - (if a = s then d else 0)"
  using assms
proof (induction es arbitrary: v res)
  case (Cons e es)
  obtain u where e: "e = (u, v)" using Cons.prems(1) by (cases e) auto
  have "row n (fold (push_edge d) es (push_edge d e res)) a =
      row n (push_edge d e res) a + (if a = u then d else 0) - (if a = s then d else 0)"
    using Cons.prems e by (intro Cons.IH) (simp_all add: push_edge_square edges_below_def)
  then show ?case using Cons.prems e by (simp add: edges_below_def push_edge_row)
qed simp

lemma push_path_pair:
  assumes "square n res" "edges_below n es" "a < n" "b < n"
  shows "fold (push_edge d) es res ! a ! b + fold (push_edge d) es res ! b ! a = res ! a ! b + res ! b ! a"
  using assms
proof (induction es arbitrary: res)
  case (Cons e es)
  obtain u v where e: "e = (u, v)" "u < n" "v < n" using Cons.prems(2) by (cases e) (auto simp: edges_below_def)
  note q = push_edge_nth [OF Cons.prems(1) e(2,3), of _ _ d]
  have "fold (push_edge d) es (push_edge d e res) ! a ! b + fold (push_edge d) es (push_edge d e res) ! b ! a
      = push_edge d e res ! a ! b + push_edge d e res ! b ! a"
    using Cons.prems by (intro Cons.IH) (simp_all add: push_edge_square edges_below_def)
  also have "\<dots> = res ! a ! b + res ! b ! a"
    unfolding e(1) q [OF Cons.prems(3,4)] q [OF Cons.prems(4,3)] by (simp only: conj_commute)
  finally show ?case by simp
qed simp

lemma push_path_lower:
  assumes "square n res" "edges_below n es" "a < n" "b < n" "0 \<le> d" "distinct (map snd es)"
  shows "res ! a ! b - (if (a, b) \<in> set es then d else 0) \<le> fold (push_edge d) es res ! a ! b"
  using assms
proof (induction es arbitrary: res)
  case (Cons e es)
  obtain u v where e: "e = (u, v)" "u < n" "v < n" using Cons.prems(2) by (cases e) (auto simp: edges_below_def)
  let ?p = "push_edge d e res" and ?f = "fold (push_edge d) es (push_edge d e res) ! a ! b"
  have IH: "?p ! a ! b - (if (a, b) \<in> set es then d else 0) \<le> ?f"
    using Cons.prems by (intro Cons.IH) (simp_all add: push_edge_square edges_below_def)
  have p: "?p ! a ! b = res ! a ! b + (if a = v \<and> b = u then d else 0) - (if a = u \<and> b = v then d else 0)"
    unfolding e(1) by (rule push_edge_nth [OF Cons.prems(1) e(2,3) Cons.prems(3,4)])
  have "v \<notin> snd ` set es" using Cons.prems(6) e(1) by simp
  then have new: "(u, v) \<notin> set es" by (metis image_eqI snd_conv)
  have "res ! a ! b - (if (a, b) = e \<or> (a, b) \<in> set es then d else 0) \<le> ?f"
  proof (cases "a = u \<and> b = v")
    case True
    then have "(a, b) = e" "(a, b) \<notin> set es" using e(1) new by simp_all
    moreover have "res ! a ! b - d \<le> ?p ! a ! b" unfolding p using True Cons.prems(5) by simp
    ultimately show ?thesis using IH by simp
  next
    case False
    then have "res ! a ! b \<le> ?p ! a ! b" unfolding p using Cons.prems(5) by (simp only: if_False split: if_split) simp
    moreover have "(a, b) \<noteq> e" using False e(1) by simp
    ultimately show ?thesis using IH by simp
  qed
  then show ?case by simp
qed simp

lemma increment_least:
  "increment res es inc = Some d \<Longrightarrow>
    (\<forall>(u, v) \<in> set es. d \<le> res ! u ! v) \<and> (\<forall>x. inc = Some x \<longrightarrow> d \<le> x) \<and>
    (inc = Some d \<or> (\<exists>(u, v) \<in> set es. d = res ! u ! v))"
proof (induction res es inc rule: increment.induct)
  case (2 res u v es inc)
  from 2(1) [OF 2(2) [unfolded increment.simps]] show ?case
    by (auto split: option.splits if_splits)
qed simp

lemma increment_Some: "es \<noteq> [] \<or> inc \<noteq> None \<Longrightarrow> \<exists>d. increment res es inc = Some d"
  by (induction res es inc rule: increment.induct) (auto split: option.splits)

section \<open>The search\<close>

definition bfs_inv :: "nat \<Rightarrow> network \<Rightarrow> nat \<Rightarrow> bfs_state \<Rightarrow> bool" where
  "bfs_inv n N s st \<longleftrightarrow> length (parent st) = n \<and> s < n \<and> parent st ! s = Some s \<and> distinct (queue st) \<and>
     set (queue st) = {v. v < n \<and> parent st ! v \<noteq> None} \<and>
     (\<forall>v < n. \<forall>u. parent st ! v = Some u \<longrightarrow> v \<noteq> s \<longrightarrow>
        residual N ! u ! v \<noteq> 0 \<and> (\<exists>i j. i < j \<and> j < length (queue st) \<and> queue st ! i = u \<and> queue st ! j = v))"

definition explored :: "network \<Rightarrow> bfs_state \<Rightarrow> nat \<Rightarrow> bool" where
  "explored N st u \<longleftrightarrow> (\<forall>v \<in> set (neighbors N ! u). residual N ! u ! v \<noteq> 0 \<longrightarrow> parent st ! v \<noteq> None)"

definition neighbors_below :: "nat \<Rightarrow> network \<Rightarrow> bool" where
  "neighbors_below n N \<longleftrightarrow> length (neighbors N) = n \<and> (\<forall>u < n. \<forall>v \<in> set (neighbors N ! u). v < n)"

text \<open>A visit only adds: to the queue at its end, to the parents where there was none.\<close>

definition grows :: "bfs_state \<Rightarrow> bfs_state \<Rightarrow> bool" where
  "grows st st' \<longleftrightarrow> (\<exists>vs. queue st' = queue st @ vs) \<and> head st' = head st \<and>
     (\<forall>v. parent st ! v \<noteq> None \<longrightarrow> parent st' ! v \<noteq> None)"

lemma visit_step:
  assumes "bfs_inv n N s st" "u \<in> set (queue st)" "v < n"
  shows "bfs_inv n N s (visit (residual N) u v st)" "grows st (visit (residual N) u v st)"
    "residual N ! u ! v \<noteq> 0 \<Longrightarrow> parent (visit (residual N) u v st) ! v \<noteq> None"
proof -
  obtain i where i: "i < length (queue st)" "queue st ! i = u" using assms(2) by (auto simp: in_set_conv_nth)
  have len: "length (parent st) = n" using assms(1) by (simp add: bfs_inv_def)
  show "residual N ! u ! v \<noteq> 0 \<Longrightarrow> parent (visit (residual N) u v st) ! v \<noteq> None"
    using len assms(3) by (simp add: visit_def)
  show "grows st (visit (residual N) u v st)"
    using len assms(3) by (simp add: visit_def grows_def nth_list_update)
  show "bfs_inv n N s (visit (residual N) u v st)"
  proof (cases "parent st ! v \<noteq> None \<or> residual N ! u ! v = 0")
    case True
    then show ?thesis using assms(1) by (simp add: visit_def)
  next
    case False
    let ?st = "st\<lparr>parent := (parent st)[v := Some u], queue := queue st @ [v]\<rparr>"
    have inv: "length (parent st) = n" "s < n" "parent st ! s = Some s" "distinct (queue st)"
      "set (queue st) = {v. v < n \<and> parent st ! v \<noteq> None}" using assms(1) by (simp_all add: bfs_inv_def)
    have "\<forall>v < n. \<forall>u. parent st ! v = Some u \<longrightarrow> v \<noteq> s \<longrightarrow> residual N ! u ! v \<noteq> 0 \<and>
        (\<exists>i j. i < j \<and> j < length (queue st) \<and> queue st ! i = u \<and> queue st ! j = v)"
      using assms(1) unfolding bfs_inv_def by (elim conjE) assumption
    then have rank: "\<exists>i j. i < j \<and> j < length (queue st) \<and> queue st ! i = b \<and> queue st ! j = a"
      and edge: "residual N ! b ! a \<noteq> 0" if "parent st ! a = Some b" "a < n" "a \<noteq> s" for a b
      using that by blast+
    have new: "v \<notin> set (queue st)" "v \<noteq> s" unfolding inv(5) using inv(3) False by auto
    have "\<exists>i' j'. i' < j' \<and> j' < length (queue ?st) \<and> queue ?st ! i' = b \<and> queue ?st ! j' = a"
      if ab: "parent ?st ! a = Some b" "a < n" "a \<noteq> s" for a b
    proof (cases "a = v")
      case True
      then have "b = u" using ab(1) inv(1) assms(3) by simp
      with True i show ?thesis
        by (intro exI [of _ i] exI [of _ "length (queue st)"]) (simp add: nth_append)
    next
      case other: False
      then have "parent st ! a = Some b" using ab(1) by simp
      then obtain i' j' where "i' < j'" "j' < length (queue st)" "queue st ! i' = b" "queue st ! j' = a"
        using rank ab(2,3) by blast
      then show ?thesis by (intro exI [of _ i'] exI [of _ j']) (simp add: nth_append)
    qed
    moreover have "residual N ! b ! a \<noteq> 0" if "parent ?st ! a = Some b" "a < n" "a \<noteq> s" for a b
      using that assms(3) False inv(1) edge [of a b] by (cases "a = v") simp_all
    moreover have "set (queue ?st) = {v. v < n \<and> parent ?st ! v \<noteq> None}"
      using inv(1,5) assms(3) by (simp add: nth_list_update) blast
    moreover have "parent ?st ! s = Some s" "distinct (queue ?st)" "length (parent ?st) = n"
      using inv new by simp_all
    ultimately have "bfs_inv n N s ?st" using inv(2) unfolding bfs_inv_def by blast
    then show ?thesis using False by (simp add: visit_def)
  qed
qed

lemma grows_refl: "grows st st"
  by (simp add: grows_def)

lemma grows_trans: "grows a b \<Longrightarrow> grows b c \<Longrightarrow> grows a c"
  unfolding grows_def by auto

lemma visits:
  assumes "bfs_inv n N s st" "u \<in> set (queue st)" "\<forall>v \<in> set vs. v < n"
  shows "bfs_inv n N s (fold (visit (residual N) u) vs st) \<and> grows st (fold (visit (residual N) u) vs st) \<and>
    (\<forall>v \<in> set vs. residual N ! u ! v \<noteq> 0 \<longrightarrow> parent (fold (visit (residual N) u) vs st) ! v \<noteq> None)"
  using assms
proof (induction vs arbitrary: st)
  case (Cons v vs)
  let ?st = "visit (residual N) u v st"
  have v: "bfs_inv n N s ?st" "grows st ?st" "residual N ! u ! v \<noteq> 0 \<Longrightarrow> parent ?st ! v \<noteq> None"
    using visit_step [OF Cons.prems(1,2)] Cons.prems(3) by simp_all
  have "u \<in> set (queue ?st)" using v(2) Cons.prems(2) by (auto simp: grows_def)
  then have r: "bfs_inv n N s (fold (visit (residual N) u) vs ?st) \<and> grows ?st (fold (visit (residual N) u) vs ?st) \<and>
    (\<forall>v \<in> set vs. residual N ! u ! v \<noteq> 0 \<longrightarrow> parent (fold (visit (residual N) u) vs ?st) ! v \<noteq> None)"
    using Cons.prems(3) by (intro Cons.IH v(1)) simp_all
  then show ?case using v by (auto intro: grows_trans simp: grows_def)
qed (simp add: grows_refl)

lemma bfs_inv_head [simp]: "bfs_inv n N s (st\<lparr>head := h\<rparr>) = bfs_inv n N s st"
  by (simp add: bfs_inv_def)

definition bfs_loop :: "nat \<Rightarrow> network \<Rightarrow> nat \<Rightarrow> bfs_state \<Rightarrow> bool" where
  "bfs_loop n N s st \<longleftrightarrow> bfs_inv n N s st \<and> head st \<le> length (queue st) \<and> (\<forall>i < head st. explored N st (queue st ! i))"

lemma bfs_step_loop:
  assumes "neighbors_below n N" "bfs_loop n N s st" "head st < length (queue st)"
  shows "bfs_loop n N s (bfs_step N st)" "head (bfs_step N st) = Suc (head st)"
proof -
  let ?u = "queue st ! head st"
  let ?st = "fold (visit (residual N) ?u) (neighbors N ! ?u) st"
  have inv: "bfs_inv n N s st" using assms(2) by (simp add: bfs_loop_def)
  have u: "?u \<in> set (queue st)" using assms(3) by simp
  then have "?u < n" using inv by (auto simp: bfs_inv_def)
  then have nb: "\<forall>v \<in> set (neighbors N ! ?u). v < n" using assms(1) by (simp add: neighbors_below_def)
  note V = visits [OF inv u nb]
  then obtain vs where vs: "queue ?st = queue st @ vs" "head ?st = head st"
    "\<And>v. parent st ! v \<noteq> None \<Longrightarrow> parent ?st ! v \<noteq> None" by (auto simp: grows_def)
  have "explored N (?st\<lparr>head := Suc (head st)\<rparr>) (queue ?st ! i)" if "i < Suc (head st)" for i
  proof (cases "i = head st")
    case True
    then show ?thesis using V vs(1) assms(3) by (simp add: explored_def nth_append)
  next
    case False
    then have "explored N st (queue st ! i)" using that assms(2) by (simp add: bfs_loop_def)
    then show ?thesis using vs that assms(3) by (simp add: explored_def nth_append)
  qed
  then show "bfs_loop n N s (bfs_step N st)"
    using V vs assms(3) by (simp add: bfs_loop_def bfs_step_def Let_def)
  show "head (bfs_step N st) = Suc (head st)" by (simp add: bfs_step_def Let_def)
qed

lemma bfs_inv_start: "length (residual N) = n \<Longrightarrow> s < n \<Longrightarrow> bfs_loop n N s (bfs_start N s)"
  by (auto simp: bfs_loop_def bfs_inv_def bfs_start_def nth_list_update split: if_splits)

lemma search_ends:
  assumes "neighbors_below n N" "length (residual N) = n" "s < n"
  shows "\<exists>st. search N s = Some st \<and> bfs_inv n N s st \<and> (\<forall>u < n. parent st ! u \<noteq> None \<longrightarrow> explored N st u)"
proof -
  have bound: "length (queue st) \<le> n" if "bfs_loop n N s st" for st
  proof -
    have "distinct (queue st)" "set (queue st) \<subseteq> {..<n}" using that by (auto simp: bfs_loop_def bfs_inv_def)
    then show ?thesis by (metis card_lessThan card_mono distinct_card finite_lessThan)
  qed
  have "\<exists>t. search N s = Some t" unfolding search_def
  proof (rule measure_while_option_Some [where P = "bfs_loop n N s" and f = "\<lambda>st. n - head st"])
    show "bfs_loop n N s (bfs_step N st) \<and> n - head (bfs_step N st) < n - head st"
      if "bfs_loop n N s st" "head st < length (queue st)" for st
      using bfs_step_loop [OF assms(1) that] bound [OF that(1)] that(2) by simp
  qed (rule bfs_inv_start [OF assms(2,3)])
  then obtain t where t: "search N s = Some t" ..
  have "bfs_loop n N s t"
    using t unfolding search_def
    by (rule while_option_rule [rotated]) (simp_all add: bfs_inv_start assms bfs_step_loop)
  moreover have "\<not> head t < length (queue t)" using t unfolding search_def by (rule while_option_stop)
  ultimately have all: "bfs_inv n N s t" "\<forall>i < length (queue t). explored N t (queue t ! i)"
    by (simp_all add: bfs_loop_def)
  have "explored N t u" if "u < n" "parent t ! u \<noteq> None" for u
  proof -
    have "u \<in> set (queue t)" using all(1) that by (simp add: bfs_inv_def)
    with all(2) show ?thesis by (auto simp: in_set_conv_nth)
  qed
  with t all(1) show ?thesis by blast
qed

text \<open>The walk back from a reached vertex ends at the source.\<close>

lemma walk_ends:
  assumes inv: "bfs_inv n N s st" and "i < length (queue st)"
  shows "\<exists>es'. while_option (\<lambda>(v, _). v \<noteq> s) (walk_step (parent st)) (queue st ! i, es) = Some (s, es @ es')
    \<and> path s (queue st ! i) es' \<and> edges_below n es' \<and> (\<forall>(a, b) \<in> set es'. residual N ! a ! b \<noteq> 0)
    \<and> distinct (map snd es') \<and> snd ` set es' \<subseteq> (!) (queue st) ` {..i} \<and> (queue st ! i \<noteq> s \<longrightarrow> es' \<noteq> [])"
  using assms(2)
proof (induction i arbitrary: es rule: less_induct)
  case (less i)
  let ?v = "queue st ! i"
  have q: "distinct (queue st)" "set (queue st) = {v. v < n \<and> parent st ! v \<noteq> None}"
    using inv by (simp_all add: bfs_inv_def)
  show ?case
  proof (cases "?v = s")
    case True
    then show ?thesis by (intro exI [of _ "[]"]) (simp add: while_option_unfold edges_below_def)
  next
    case False
    have v: "?v < n" "parent st ! ?v \<noteq> None" using q(2) nth_mem [OF less.prems] by auto
    then obtain u where u: "parent st ! ?v = Some u" by auto
    have "\<forall>v < n. \<forall>u. parent st ! v = Some u \<longrightarrow> v \<noteq> s \<longrightarrow> residual N ! u ! v \<noteq> 0 \<and>
        (\<exists>i j. i < j \<and> j < length (queue st) \<and> queue st ! i = u \<and> queue st ! j = v)"
      using inv unfolding bfs_inv_def by (elim conjE) assumption
    with v(1) u False obtain i' j' where r: "residual N ! u ! ?v \<noteq> 0" "i' < j'" "j' < length (queue st)"
      "queue st ! i' = u" "queue st ! j' = ?v" by blast
    then have "j' = i" using q(1) less.prems nth_eq_iff_index_eq by blast
    with r have i': "i' < i" "i' < length (queue st)" by simp_all
    obtain es' where es': "while_option (\<lambda>(v, _). v \<noteq> s) (walk_step (parent st)) (u, es @ [(u, ?v)]) = Some (s, es @ [(u, ?v)] @ es')"
      "path s u es'" "edges_below n es'" "\<forall>(a, b) \<in> set es'. residual N ! a ! b \<noteq> 0"
      "distinct (map snd es')" "snd ` set es' \<subseteq> (!) (queue st) ` {..i'}"
      using less.IH [OF i', of "es @ [(u, ?v)]"] r(4) by auto
    have "u < n" using i' r(4) q(2) nth_mem by fastforce
    have "?v \<notin> (!) (queue st) ` {..i'}"
      using q(1) less.prems i' by (auto simp: nth_eq_iff_index_eq)
    then have new: "?v \<notin> snd ` set es'" using es'(6) by blast
    have sub: "(!) (queue st) ` {..i'} \<subseteq> (!) (queue st) ` {..i}" using i'(1) by (intro image_mono) simp
    have "while_option (\<lambda>(v, _). v \<noteq> s) (walk_step (parent st)) (?v, es) = Some (s, es @ (u, ?v) # es')"
      using es'(1) False u by (subst while_option_unfold) (simp add: walk_step_def)
    then show ?thesis
      using es' new r(1) v(1) \<open>u < n\<close> sub
      by (intro exI [of _ "(u, ?v) # es'"]) (auto simp: edges_below_def)
  qed
qed

section \<open>The flow\<close>

definition residual_ok :: "nat \<Rightarrow> (nat \<Rightarrow> nat \<Rightarrow> int) \<Rightarrow> nat \<Rightarrow> nat \<Rightarrow> matrix \<Rightarrow> int \<Rightarrow> bool" where
  "residual_ok n cap s t res f \<longleftrightarrow> square n res \<and>
     (\<forall>a < n. \<forall>b < n. 0 \<le> res ! a ! b \<and> res ! a ! b + res ! b ! a = cap a b + cap b a) \<and>
     (\<forall>a < n. a \<noteq> t \<longrightarrow> row n res a = (\<Sum>b < n. cap a b) - (if a = s then f else 0))"

definition neighbors_ok :: "nat \<Rightarrow> (nat \<Rightarrow> nat \<Rightarrow> int) \<Rightarrow> network \<Rightarrow> bool" where
  "neighbors_ok n cap N \<longleftrightarrow> neighbors_below n N \<and>
     (\<forall>a < n. \<forall>b < n. cap a b + cap b a \<noteq> 0 \<longrightarrow> b \<in> set (neighbors N ! a))"

lemma neighbors_ok_cong: "neighbors N' = neighbors N \<Longrightarrow> neighbors_ok n cap N' = neighbors_ok n cap N"
  by (simp only: neighbors_ok_def neighbors_below_def)

lemma push_path_ok:
  assumes ok: "residual_ok n cap s t res f" and p: "path s t es" "edges_below n es" "distinct (map snd es)"
    and d: "0 \<le> d" "\<forall>(a, b) \<in> set es. d \<le> res ! a ! b"
  shows "residual_ok n cap s t (fold (push_edge d) es res) (f + d)"
proof -
  have sq: "square n res" using ok by (simp add: residual_ok_def)
  let ?r = "fold (push_edge d) es res"
  have "0 \<le> ?r ! a ! b" if ab: "a < n" "b < n" for a b
  proof -
    have "0 \<le> res ! a ! b" using ok ab by (simp add: residual_ok_def)
    then have "0 \<le> res ! a ! b - (if (a, b) \<in> set es then d else 0)" using d(2) by auto
    also have "\<dots> \<le> ?r ! a ! b" by (rule push_path_lower [OF sq p(2) ab d(1) p(3)])
    finally show ?thesis .
  qed
  moreover have "?r ! a ! b + ?r ! b ! a = cap a b + cap b a" if "a < n" "b < n" for a b
    using push_path_pair [OF sq p(2) that] ok that by (simp add: residual_ok_def)
  moreover have "row n ?r a = (\<Sum>b < n. cap a b) - (if a = s then f + d else 0)" if "a < n" "a \<noteq> t" for a
    using push_path_row [OF p(1) sq p(2) that(1)] ok that by (simp add: residual_ok_def)
  ultimately show ?thesis using push_path_square [OF sq] by (simp add: residual_ok_def)
qed

lemma flow_bounded: "residual_ok n cap s t res f \<Longrightarrow> s < n \<Longrightarrow> s \<noteq> t \<Longrightarrow> f \<le> (\<Sum>b < n. cap s b)"
proof -
  assume a: "residual_ok n cap s t res f" "s < n" "s \<noteq> t"
  then have "0 \<le> row n res s" unfolding row_def by (intro sum_nonneg) (simp add: residual_ok_def)
  with a show ?thesis by (simp add: residual_ok_def)
qed

definition flow_inv :: "nat \<Rightarrow> (nat \<Rightarrow> nat \<Rightarrow> int) \<Rightarrow> nat \<Rightarrow> nat \<Rightarrow> flow_loop \<Rightarrow> bool" where
  "flow_inv n cap s t st \<longleftrightarrow> residual_ok n cap s t (residual (net st)) (pushed st) \<and> neighbors_ok n cap (net st)
     \<and> reached st = search (net st) s"

lemma augment_step:
  assumes inv: "flow_inv n cap s t st" and st: "s < n" "t < n" "s \<noteq> t" and r: "sink_reached t st"
  shows "flow_inv n cap s t (augment s t st)" "pushed st < pushed (augment s t st)"
proof -
  let ?N = "net st"
  have ok: "residual_ok n cap s t (residual ?N) (pushed st)" "neighbors_ok n cap ?N" "neighbors_below n ?N"
    "length (residual ?N) = n"
    using inv by (simp_all add: flow_inv_def neighbors_ok_def residual_ok_def square_def)
  obtain b where b: "search ?N s = Some b" "bfs_inv n ?N s b"
    using search_ends [OF ok(3,4) st(1)] by (elim exE conjE) (rule that)
  have reached: "reached st = Some b" using inv b(1) by (simp add: flow_inv_def)
  have "parent b ! t \<noteq> None" using r unfolding sink_reached_def reached by simp
  moreover have "set (queue b) = {v. v < n \<and> parent b ! v \<noteq> None}" using b(2) by (simp add: bfs_inv_def)
  ultimately have "t \<in> set (queue b)" using st(2) by simp
  then obtain i where i: "i < length (queue b)" "queue b ! i = t" unfolding in_set_conv_nth by (elim exE conjE)
  obtain es where es: "path_edges (parent b) s t = Some es" "path s t es" "edges_below n es"
    "\<forall>(x, y) \<in> set es. residual ?N ! x ! y \<noteq> 0" "distinct (map snd es)" "es \<noteq> []"
  proof -
    from walk_ends [OF b(2) i(1), of "[]", unfolded i(2) append_Nil] show ?thesis
      by (elim exE conjE, intro that) (use st(3) in \<open>simp_all add: path_edges_def\<close>)
  qed
  obtain d where inc: "increment (residual ?N) es None = Some d" using increment_Some es(6) by blast
  have least: "\<forall>(u, v) \<in> set es. d \<le> residual ?N ! u ! v" "\<exists>(u, v) \<in> set es. d = residual ?N ! u ! v"
    using increment_least [OF inc] by simp_all
  have pos: "0 < d"
  proof -
    obtain x y where xy: "(x, y) \<in> set es" "d = residual ?N ! x ! y" using least(2) by auto
    have "x < n" "y < n" "d \<noteq> 0" using bspec [OF es(3) [unfolded edges_below_def] xy(1)] bspec [OF es(4) xy(1)] xy(2)
      by simp_all
    moreover have "0 \<le> residual ?N ! x ! y" if "x < n" "y < n" using ok(1) that by (simp add: residual_ok_def)
    ultimately show ?thesis using xy(2) by (simp add: order_less_le)
  qed
  let ?N' = "?N\<lparr>residual := fold (push_edge d) es (residual ?N)\<rparr>"
  have aug: "augment s t st = \<lparr>net = ?N', pushed = pushed st + d, reached = search ?N' s\<rparr>"
    by (simp add: augment_def reached es(1) inc Let_def)
  have "residual_ok n cap s t (residual ?N') (pushed st + d)"
    using push_path_ok [OF ok(1) es(2,3,5) _ least(1)] pos by simp
  moreover have "neighbors_ok n cap ?N'"
    by (rule neighbors_ok_cong [THEN iffD2, OF _ ok(2)]) simp
  ultimately show "flow_inv n cap s t (augment s t st)" unfolding aug flow_inv_def by simp
  show "pushed st < pushed (augment s t st)" using pos by (simp add: aug)
qed

section \<open>Cuts\<close>

definition cut :: "nat \<Rightarrow> (nat \<Rightarrow> nat \<Rightarrow> int) \<Rightarrow> nat set \<Rightarrow> int" where
  "cut n cap S = (\<Sum>a \<in> S. \<Sum>b \<in> {..<n} - S. cap a b)"

lemma sum_antisym: "finite S \<Longrightarrow> (\<And>a b. a \<in> S \<Longrightarrow> b \<in> S \<Longrightarrow> g a b = - g b a) \<Longrightarrow> (\<Sum>a \<in> S. \<Sum>b \<in> S. g a b) = (0 :: int)"
proof -
  assume S: "finite S" and g: "\<And>a b. a \<in> S \<Longrightarrow> b \<in> S \<Longrightarrow> g a b = - g b a"
  have "(\<Sum>a \<in> S. \<Sum>b \<in> S. g a b) = (\<Sum>a \<in> S. \<Sum>b \<in> S. - g b a)"
    by (intro sum.cong refl g)
  also have "\<dots> = - (\<Sum>a \<in> S. \<Sum>b \<in> S. g a b)"
    by (simp add: sum_negf) (rule sum.swap)
  finally show ?thesis by simp
qed

text \<open>The flow over every cut is the flow pushed.\<close>

lemma flow_over_cut:
  assumes ok: "residual_ok n cap s t res f" and S: "S \<subseteq> {..<n}" "s \<in> S" "t \<notin> S"
  shows "f = (\<Sum>a \<in> S. \<Sum>b \<in> {..<n} - S. cap a b - res ! a ! b)"
proof -
  have fin: "finite S" using S(1) finite_subset by blast
  have "(\<Sum>a \<in> S. \<Sum>b < n. cap a b - res ! a ! b) = (\<Sum>a \<in> S. if a = s then f else 0)"
  proof (rule sum.cong [OF refl])
    fix a assume "a \<in> S"
    then have "a < n" "a \<noteq> t" using S by auto
    then show "(\<Sum>b < n. cap a b - res ! a ! b) = (if a = s then f else 0)"
      using ok by (simp add: residual_ok_def row_def sum_subtractf)
  qed
  also have "\<dots> = f" using fin S(2) by simp
  finally have total: "f = (\<Sum>a \<in> S. \<Sum>b < n. cap a b - res ! a ! b)" ..
  have "(\<Sum>b < n. g b) = (\<Sum>b \<in> S. g b) + (\<Sum>b \<in> {..<n} - S. g b)" for g :: "nat \<Rightarrow> int"
    using sum.subset_diff [OF S(1), of g] by simp
  then have "f = (\<Sum>a \<in> S. \<Sum>b \<in> S. cap a b - res ! a ! b) + (\<Sum>a \<in> S. \<Sum>b \<in> {..<n} - S. cap a b - res ! a ! b)"
    unfolding total by (simp only: sum.distrib)
  moreover have "(\<Sum>a \<in> S. \<Sum>b \<in> S. cap a b - res ! a ! b) = 0"
  proof (rule sum_antisym [OF fin])
    fix a b assume "a \<in> S" "b \<in> S"
    then have "a < n" "b < n" using S(1) by auto
    then have "res ! a ! b + res ! b ! a = cap a b + cap b a" using ok by (simp add: residual_ok_def)
    then show "cap a b - res ! a ! b = - (cap b a - res ! b ! a)" by simp
  qed
  ultimately show ?thesis by simp
qed

lemma flow_below_cut:
  assumes "residual_ok n cap s t res f" "S \<subseteq> {..<n}" "s \<in> S" "t \<notin> S"
  shows "f \<le> cut n cap S"
  unfolding flow_over_cut [OF assms] cut_def
  using assms(1,2) by (intro sum_mono) (auto simp: residual_ok_def subset_iff)

text \<open>The loop ends, with the flow equal to the capacity of some cut and below every other.\<close>

lemma maxFlow_cut:
  assumes init: "residual_ok n cap s t (residual N) 0" "neighbors_ok n cap N" and st: "s < n" "t < n" "s \<noteq> t"
  obtains f S where "maxFlow N s t = Inr f" "S \<subseteq> {..<n}" "s \<in> S" "t \<notin> S" "f = cut n cap S"
    "\<forall>S'. S' \<subseteq> {..<n} \<longrightarrow> s \<in> S' \<longrightarrow> t \<notin> S' \<longrightarrow> f \<le> cut n cap S'"
proof -
  let ?st = "\<lparr>net = N, pushed = 0, reached = search N s\<rparr>"
  let ?top = "\<Sum>b < n. cap s b"
  have start: "flow_inv n cap s t ?st" using init by (simp add: flow_inv_def)
  have "\<exists>x. while_option (sink_reached t) (augment s t) ?st = Some x"
  proof (rule measure_while_option_Some [where P = "flow_inv n cap s t" and f = "\<lambda>x. nat (?top - pushed x)"])
    fix x assume x: "flow_inv n cap s t x" "sink_reached t x"
    note A = augment_step [OF x(1) st x(2)]
    have "pushed (augment s t x) \<le> ?top"
      using A(1) unfolding flow_inv_def by (intro flow_bounded [OF _ st(1,3)]) (elim conjE)
    with A show "flow_inv n cap s t (augment s t x) \<and> nat (?top - pushed (augment s t x)) < nat (?top - pushed x)"
      by simp
  qed (rule start)
  then obtain x where x: "while_option (sink_reached t) (augment s t) ?st = Some x" ..
  have inv: "flow_inv n cap s t x"
    using x by (rule while_option_rule [rotated]) (simp_all add: start augment_step st)
  have stop: "\<not> sink_reached t x" using x by (rule while_option_stop)
  let ?N = "net x"
  have ok: "residual_ok n cap s t (residual ?N) (pushed x)" "neighbors_ok n cap ?N" "neighbors_below n ?N"
    "length (residual ?N) = n"
    using inv by (simp_all add: flow_inv_def neighbors_ok_def residual_ok_def square_def)
  obtain b where b: "search ?N s = Some b" "bfs_inv n ?N s b" "\<forall>u < n. parent b ! u \<noteq> None \<longrightarrow> explored ?N b u"
    using search_ends [OF ok(3,4) st(1)] by (elim exE conjE) (rule that)
  have r: "reached x = Some b" using inv b(1) by (simp add: flow_inv_def)
  let ?S = "{v. v < n \<and> parent b ! v \<noteq> None}"
  have S: "?S \<subseteq> {..<n}" "s \<in> ?S" "t \<notin> ?S"
    using b(2) stop r st by (auto simp: bfs_inv_def sink_reached_def)
  have zero: "residual ?N ! u ! v = 0" if "u \<in> ?S" "v \<in> {..<n} - ?S" for u v
  proof (rule ccontr)
    assume nz: "residual ?N ! u ! v \<noteq> 0"
    have uv: "u < n" "v < n" "parent b ! v = None" using that by auto
    have "0 \<le> residual ?N ! u ! v" "0 \<le> residual ?N ! v ! u"
      "residual ?N ! u ! v + residual ?N ! v ! u = cap u v + cap v u"
      using ok(1) uv by (simp_all add: residual_ok_def)
    with nz have "v \<in> set (neighbors ?N ! u)" using ok(2) uv by (auto simp: neighbors_ok_def)
    moreover have "explored ?N b u" using b(3) that by simp
    ultimately have "parent b ! v \<noteq> None" using nz unfolding explored_def by blast
    with uv show False by simp
  qed
  have "pushed x = (\<Sum>a \<in> ?S. \<Sum>b \<in> {..<n} - ?S. cap a b - residual ?N ! a ! b)"
    by (rule flow_over_cut [OF ok(1) S])
  also have "\<dots> = cut n cap ?S" unfolding cut_def by (intro sum.cong refl) (simp only: zero diff_0_right)
  finally have f: "pushed x = cut n cap ?S" .
  show ?thesis
  proof (rule that)
    show "maxFlow N s t = Inr (pushed x)" using x r by (simp add: maxFlow_def)
    show "\<forall>S'. S' \<subseteq> {..<n} \<longrightarrow> s \<in> S' \<longrightarrow> t \<notin> S' \<longrightarrow> pushed x \<le> cut n cap S'"
      using flow_below_cut [OF ok(1)] by blast
  qed (use S f in auto)
qed

section \<open>The closure network\<close>

definition capacity :: "(nat \<times> nat \<times> int) list \<Rightarrow> nat \<Rightarrow> nat \<Rightarrow> int" where
  "capacity es a b = sum_list (map (\<lambda>(u, v, c). if u = a \<and> v = b then c else 0) es)"

lemma capacity_simps [simp]:
  "capacity [] a b = 0" "capacity (es @ es') a b = capacity es a b + capacity es' a b"
  "capacity ((u, v, c) # es) a b = (if u = a \<and> v = b then c else 0) + capacity es a b"
  by (simp_all add: capacity_def)

definition network_of :: "nat \<Rightarrow> (nat \<times> nat \<times> int) list \<Rightarrow> network \<Rightarrow> bool" where
  "network_of n es N \<longleftrightarrow> square n (residual N) \<and> (\<forall>a < n. \<forall>b < n. residual N ! a ! b = capacity es a b)
     \<and> neighbors_below n N \<and> (\<forall>(u, v, c) \<in> set es. v \<in> set (neighbors N ! u) \<and> u \<in> set (neighbors N ! v))"

lemma addEdge_neighbors:
  assumes "neighbors_below n N" "u < n" "v < n" "a < n"
  shows "set (neighbors (addEdge (u, v, c) N) ! a) =
    set (neighbors N ! a) \<union> (if a = u then {v} else {}) \<union> (if a = v then {u} else {})"
  using assms by (auto simp: addEdge_def Let_def neighbors_below_def nth_list_update)

lemma addEdge_network:
  assumes N: "network_of n es N" and e: "u < n" "v < n"
    and es: "\<forall>(u, v, c) \<in> set es. u < n \<and> v < n"
  shows "network_of n (es @ [(u, v, c)]) (addEdge (u, v, c) N)"
proof -
  have sq: "square n (residual N)" "neighbors_below n N" using N by (simp_all add: network_of_def)
  note nb = addEdge_neighbors [OF sq(2) e]
  have "neighbors_below n (addEdge (u, v, c) N)"
  proof -
    have "length (neighbors (addEdge (u, v, c) N)) = n"
      using sq(2) by (simp add: addEdge_def Let_def neighbors_below_def)
    moreover have "x < n" if "a < n" "x \<in> set (neighbors (addEdge (u, v, c) N) ! a)" for a x
      using that nb [OF that(1)] sq(2) e by (auto simp: neighbors_below_def split: if_splits)
    ultimately show ?thesis by (simp add: neighbors_below_def)
  qed
  moreover have "residual (addEdge (u, v, c) N) ! a ! b = capacity (es @ [(u, v, c)]) a b" if "a < n" "b < n" for a b
    using N that add_residual_nth [OF sq(1) e that, of c] by (simp add: addEdge_def Let_def network_of_def)
  moreover have "y \<in> set (neighbors (addEdge (u, v, c) N) ! x) \<and> x \<in> set (neighbors (addEdge (u, v, c) N) ! y)"
    if "(x, y, d) \<in> set (es @ [(u, v, c)])" for x y d
  proof -
    have "x < n" "y < n" using that es e by auto
    moreover have "(x, y, d) \<in> set es \<Longrightarrow> y \<in> set (neighbors N ! x) \<and> x \<in> set (neighbors N ! y)"
      using N unfolding network_of_def by blast
    ultimately show ?thesis using that nb by auto
  qed
  moreover have "square n (residual (addEdge (u, v, c) N))"
    using sq(1) by (simp add: addEdge_def Let_def add_residual_square)
  ultimately show ?thesis unfolding network_of_def by blast
qed

lemma fold_addEdge:
  "\<forall>(u, v, c) \<in> set es. u < n \<and> v < n \<Longrightarrow> network_of n es (fold addEdge es (emptyNetwork n))"
proof (induction es rule: rev_induct)
  case Nil
  show ?case by (simp add: network_of_def emptyNetwork_def square_def neighbors_below_def)
next
  case (snoc e es)
  obtain u v c where e: "e = (u, v, c)" by (cases e)
  with snoc show ?case using addEdge_network [of n es "fold addEdge es (emptyNetwork n)" u v c] by simp
qed

lemma capacity_nonzero: "capacity es a b \<noteq> 0 \<Longrightarrow> \<exists>c. (a, b, c) \<in> set es"
  by (induction es) (auto split: if_splits)

lemma capacity_nonneg: "\<forall>(u, v, c) \<in> set es. 0 \<le> c \<Longrightarrow> 0 \<le> capacity es a b"
  by (induction es) auto

lemma network_start:
  assumes N: "network_of n es N" and c: "\<forall>(u, v, c) \<in> set es. 0 \<le> c"
  shows "residual_ok n (capacity es) s t (residual N) 0" "neighbors_ok n (capacity es) N"
proof -
  have r: "residual N ! a ! b = capacity es a b" if "a < n" "b < n" for a b
    using N that by (simp add: network_of_def)
  then have "row n (residual N) a = (\<Sum>b < n. capacity es a b)" if "a < n" for a
    unfolding row_def by (intro sum.cong) (simp_all add: that)
  then show "residual_ok n (capacity es) s t (residual N) 0"
    using N r capacity_nonneg [OF c] by (simp add: residual_ok_def network_of_def)
  have "b \<in> set (neighbors N ! a)" if "capacity es a b + capacity es b a \<noteq> 0" for a b
  proof -
    have "capacity es a b \<noteq> 0 \<or> capacity es b a \<noteq> 0" using that by auto
    then obtain d where "(a, b, d) \<in> set es \<or> (b, a, d) \<in> set es" using capacity_nonzero by metis
    then show ?thesis using N unfolding network_of_def by blast
  qed
  then show "neighbors_ok n (capacity es) N" using N by (simp add: neighbors_ok_def network_of_def)
qed

lemma cut_capacity:
  assumes "finite S"
  shows "cut n (capacity es) S = sum_list (map (\<lambda>(u, v, c). if u \<in> S \<and> v < n \<and> v \<notin> S then c else 0) es)"
proof (induction es)
  case Nil
  show ?case by (simp add: cut_def)
next
  case (Cons e es)
  obtain u v c where e: "e = (u, v, c)" by (cases e)
  have "cut n (capacity (e # es)) S =
      (\<Sum>a \<in> S. \<Sum>b \<in> {..<n} - S. if u = a \<and> v = b then c else 0) + cut n (capacity es) S"
    by (simp add: cut_def e sum.distrib)
  also have "(\<Sum>a \<in> S. \<Sum>b \<in> {..<n} - S. if u = a \<and> v = b then c else 0) =
      (\<Sum>a \<in> S. if u = a then if v \<in> {..<n} - S then c else 0 else 0)"
    by (rule sum.cong [OF refl]) (simp add: sum.delta)
  also have "\<dots> = (if u \<in> S \<and> v < n \<and> v \<notin> S then c else 0)"
    using assms by (simp add: sum.delta)
  finally show ?case using Cons by (simp add: e)
qed

text \<open>The cut of a set of nodes: what it leaves of the positive weight, and the dependencies that leave it.\<close>

definition crossing :: "nat list list \<Rightarrow> nat set \<Rightarrow> nat" where
  "crossing deps C = sum_list (map (\<lambda>(i, ds). length (filter (\<lambda>j. i \<in> C \<and> j \<notin> C) ds)) (zip [0..<length deps] deps))"

lemma sum_list_upt: "sum_list (map f [0..<k]) = (\<Sum>i < k. f i)"
  by (simp add: interv_sum_list_conv_sum_set_nat atLeast0LessThan)

lemma sum_list_map_concat: "sum_list (map f (concat xss)) = sum_list (map (\<lambda>xs. sum_list (map f xs)) xss)"
  by (induction xss) simp_all

lemma weight_edges_cut:
  assumes "C \<subseteq> {..<length ws}" "S = insert (length ws) C" "n = length ws + 2"
  shows "sum_list (map (\<lambda>(u, v, c). if u \<in> S \<and> v < n \<and> v \<notin> S then c else 0)
      (concat (map (weightEdge (length ws)) (zip [0..<length ws] ws)))) = positiveWeight ws - (\<Sum>i \<in> C. ws ! i)"
proof -
  let ?k = "length ws"
  let ?f = "\<lambda>(u, v, c). if u \<in> S \<and> v < n \<and> v \<notin> S then c else (0 :: int)"
  have one: "sum_list (map ?f (weightEdge ?k (i, ws ! i)))
      = (if ws ! i > 0 then ws ! i else 0) - (if i \<in> C then ws ! i else 0)" if "i < ?k" for i
  proof -
    have "Suc ?k \<notin> S" "i \<in> S \<longleftrightarrow> i \<in> C" "?k \<in> S" using assms(1,2) that by auto
    then show ?thesis using assms(3) that by (simp add: weightEdge_def)
  qed
  have inC: "(\<Sum>i < ?k. if i \<in> C then ws ! i else 0) = (\<Sum>i \<in> C. ws ! i)"
    by (rule sum.mono_neutral_cong_right) (use assms(1) in auto)
  have zip: "zip [0..<?k] ws = map (\<lambda>i. (i, ws ! i)) [0..<?k]"
    by (rule nth_equalityI) simp_all
  have "sum_list (map ?f (concat (map (weightEdge ?k) (zip [0..<?k] ws))))
      = sum_list (map (\<lambda>p. sum_list (map ?f (weightEdge ?k p))) (zip [0..<?k] ws))"
    by (simp only: sum_list_map_concat map_map o_def)
  also have "\<dots> = (\<Sum>i < ?k. sum_list (map ?f (weightEdge ?k (i, ws ! i))))"
    by (simp only: zip map_map o_def sum_list_upt)
  also have "\<dots> = (\<Sum>i < ?k. (if ws ! i > 0 then ws ! i else 0) - (if i \<in> C then ws ! i else 0))"
    by (intro sum.cong refl one) simp
  also have "\<dots> = (\<Sum>i < ?k. if ws ! i > 0 then ws ! i else 0) - (\<Sum>i \<in> C. ws ! i)"
    by (simp only: sum_subtractf inC)
  also have "(\<Sum>i < ?k. if ws ! i > 0 then ws ! i else 0) = positiveWeight ws"
    unfolding positiveWeight_def by (subst sum_list_sum_nth) (simp add: atLeast0LessThan)
  finally show ?thesis .
qed

lemma dep_edges_cut:
  assumes "\<forall>ds \<in> set deps. \<forall>j \<in> set ds. j < k" "C \<subseteq> {..<k}" "S = insert k C" "n = k + 2" "length deps = k"
  shows "sum_list (map (\<lambda>(u, v, c). if u \<in> S \<and> v < n \<and> v \<notin> S then c else 0)
      (concat (map (\<lambda>(i, ds). map (\<lambda>j. (i, j, d)) ds) (zip [0..<length deps] deps)))) = d * int (crossing deps C)"
proof -
  let ?f = "\<lambda>(u, v, c). if u \<in> S \<and> v < n \<and> v \<notin> S then c else (0 :: int)"
  have one: "sum_list (map ?f (map (\<lambda>j. (i, j, d)) ds)) = d * int (length (filter (\<lambda>j. i \<in> C \<and> j \<notin> C) ds))"
    if "i < k" "\<forall>j \<in> set ds. j < k" for i ds
    using that(2) by (induction ds) (use that(1) assms(3,4) in \<open>auto simp: algebra_simps\<close>)
  have "sum_list (map ?f (concat (map (\<lambda>(i, ds). map (\<lambda>j. (i, j, d)) ds) zs))) =
      d * int (sum_list (map (\<lambda>(i, ds). length (filter (\<lambda>j. i \<in> C \<and> j \<notin> C) ds)) zs))"
    if "\<forall>(i, ds) \<in> set zs. i < k \<and> (\<forall>j \<in> set ds. j < k)" for zs
    using that
  proof (induction zs)
    case (Cons z zs)
    obtain i ds where z: "z = (i, ds)" by (cases z)
    with Cons one [of i ds] show ?case by (simp add: algebra_simps)
  qed simp
  moreover have "\<forall>(i, ds) \<in> set (zip [0..<length deps] deps). i < k \<and> (\<forall>j \<in> set ds. j < k)"
    using assms(1,5) by (auto dest: set_zip_leftD set_zip_rightD)
  ultimately show ?thesis by (simp add: crossing_def)
qed

lemma closure_cut:
  assumes "\<forall>ds \<in> set deps. \<forall>j \<in> set ds. j < length ws" "length deps = length ws" "C \<subseteq> {..<length ws}"
  shows "cut (length ws + 2) (capacity (closureEdges ws deps)) (insert (length ws) C) =
    positiveWeight ws - (\<Sum>i \<in> C. ws ! i) + (totalMagnitude ws + 1) * int (crossing deps C)"
proof -
  have "finite (insert (length ws) C)" using assms(3) finite_subset by auto
  from cut_capacity [OF this] show ?thesis
    using weight_edges_cut [OF assms(3) refl refl] dep_edges_cut [OF assms(1,3) refl refl assms(2)]
    by (simp add: closureEdges_def)
qed

lemma crossing_0: "crossing deps C = 0 \<longleftrightarrow> (\<forall>i < length deps. i \<in> C \<longrightarrow> set (deps ! i) \<subseteq> C)"
proof -
  have "crossing deps C = 0 \<longleftrightarrow> (\<forall>(i, ds) \<in> set (zip [0..<length deps] deps). \<forall>j \<in> set ds. i \<in> C \<longrightarrow> j \<in> C)"
    by (auto simp: crossing_def sum_list_eq_0_iff filter_empty_conv)
  also have "\<dots> \<longleftrightarrow> (\<forall>i < length deps. \<forall>j \<in> set (deps ! i). i \<in> C \<longrightarrow> j \<in> C)"
    by (simp add: all_set_conv_all_nth)
  finally show ?thesis by blast
qed

lemma positive_below_total: "positiveWeight ws \<le> totalMagnitude ws"
  unfolding positiveWeight_def totalMagnitude_def by (rule sum_list_mono) simp

lemma weights_below_positive: "C \<subseteq> {..<length ws} \<Longrightarrow> (\<Sum>i \<in> C. ws ! i) \<le> positiveWeight ws"
proof -
  assume C: "C \<subseteq> {..<length ws}"
  have "(\<Sum>i \<in> C. ws ! i) \<le> (\<Sum>i \<in> C. if ws ! i > 0 then ws ! i else 0)" by (rule sum_mono) simp
  also have "\<dots> \<le> (\<Sum>i < length ws. if ws ! i > 0 then ws ! i else 0)" by (rule sum_mono2 [OF _ C]) simp_all
  also have "\<dots> = positiveWeight ws"
    unfolding positiveWeight_def by (subst sum_list_sum_nth) (simp add: atLeast0LessThan)
  finally show ?thesis .
qed

lemma closureEdges_ok:
  assumes "\<forall>ds \<in> set deps. \<forall>j \<in> set ds. j < length ws" "length deps = length ws"
  shows "\<forall>(u, v, c) \<in> set (closureEdges ws deps). u < length ws + 2 \<and> v < length ws + 2 \<and> 0 \<le> c"
proof -
  have "0 \<le> totalMagnitude ws" unfolding totalMagnitude_def by (rule sum_list_nonneg) auto
  then show ?thesis
    using assms by (fastforce simp: closureEdges_def weightEdge_def dest: set_zip_leftD set_zip_rightD split: if_splits)
qed

text \<open>The loop finds the best closed set of indices.\<close>

lemma closure_flow:
  assumes d: "\<forall>ds \<in> set deps. \<forall>j \<in> set ds. j < length ws" "length deps = length ws"
  obtains f C where "maxFlow (closureNetwork ws deps) (length ws) (Suc (length ws)) = Inr f"
    "C \<subseteq> {..<length ws}" "\<forall>i \<in> C. set (deps ! i) \<subseteq> C" "positiveWeight ws - f = (\<Sum>i \<in> C. ws ! i)"
    "\<And>C'. C' \<subseteq> {..<length ws} \<Longrightarrow> \<forall>i \<in> C'. set (deps ! i) \<subseteq> C' \<Longrightarrow> (\<Sum>i \<in> C'. ws ! i) \<le> positiveWeight ws - f"
proof -
  let ?k = "length ws" and ?es = "closureEdges ws deps" and ?n = "length ws + 2"
  note ok = closureEdges_ok [OF d]
  have N: "network_of ?n ?es (closureNetwork ws deps)"
    unfolding closureNetwork_def by (rule fold_addEdge) (use ok in auto)
  have "\<forall>(u, v, c) \<in> set ?es. 0 \<le> c" using ok by fast
  note start = network_start [OF N this]
  have lt: "?k < ?n" "Suc ?k < ?n" "?k \<noteq> Suc ?k" by simp_all
  obtain f S where f: "maxFlow (closureNetwork ws deps) ?k (Suc ?k) = Inr f" "S \<subseteq> {..<?n}" "?k \<in> S" "Suc ?k \<notin> S"
    "f = cut ?n (capacity ?es) S"
    and least: "\<forall>S'. S' \<subseteq> {..<?n} \<longrightarrow> ?k \<in> S' \<longrightarrow> Suc ?k \<notin> S' \<longrightarrow> f \<le> cut ?n (capacity ?es) S'"
    by (rule maxFlow_cut [OF start lt])
  let ?C = "S - {?k}"
  have C: "?C \<subseteq> {..<?k}" "S = insert ?k ?C"
    using f(2-4) by (auto simp: less_Suc_eq subset_iff)
  note cut = closure_cut [OF d]
  have below: "f \<le> positiveWeight ws - (\<Sum>i \<in> C'. ws ! i) + (totalMagnitude ws + 1) * int (crossing deps C')"
    if "C' \<subseteq> {..<?k}" for C'
  proof -
    have "insert ?k C' \<subseteq> {..<?n}" "Suc ?k \<notin> insert ?k C'" using that by auto
    then show ?thesis using least [rule_format, of "insert ?k C'"] cut [OF that] by simp
  qed
  have top: "f \<le> positiveWeight ws"
    using below [of "{}"] crossing_0 [of deps "{}"] by simp
  have val: "f = positiveWeight ws - (\<Sum>i \<in> ?C. ws ! i) + (totalMagnitude ws + 1) * int (crossing deps ?C)"
    using f(5) cut [OF C(1)] C(2) by simp
  have cr: "crossing deps ?C = 0"
  proof (rule ccontr)
    assume "crossing deps ?C \<noteq> 0"
    moreover have "0 \<le> totalMagnitude ws" unfolding totalMagnitude_def by (rule sum_list_nonneg) auto
    ultimately have "(totalMagnitude ws + 1) * 1 \<le> (totalMagnitude ws + 1) * int (crossing deps ?C)"
      by (intro mult_left_mono) simp_all
    then have "totalMagnitude ws + 1 \<le> f - positiveWeight ws + (\<Sum>i \<in> ?C. ws ! i)"
      using val by simp
    then show False
      using val top weights_below_positive [OF C(1)] positive_below_total [of ws] by linarith
  qed
  show ?thesis
  proof (rule that [OF f(1) C(1)])
    show "\<forall>i \<in> ?C. set (deps ! i) \<subseteq> ?C"
      using cr [unfolded crossing_0] C(1) d(2) by auto
    show "positiveWeight ws - f = (\<Sum>i \<in> ?C. ws ! i)" using val cr by simp
    fix C' assume C': "C' \<subseteq> {..<?k}" "\<forall>i \<in> C'. set (deps ! i) \<subseteq> C'"
    then have "crossing deps C' = 0" by (simp add: crossing_0)
    then show "(\<Sum>i \<in> C'. ws ! i) \<le> positiveWeight ws - f" using below [OF C'(1)] by simp
  qed
qed

section \<open>The closure of nodes\<close>

definition closed_nodes :: "'a list \<Rightarrow> ('a \<Rightarrow> 'a list) \<Rightarrow> 'a set \<Rightarrow> bool" where
  "closed_nodes nodeList dependenciesOf S \<longleftrightarrow> S \<subseteq> set nodeList \<and> (\<forall>x \<in> S. set (dependenciesOf x) \<subseteq> S)"

lemma index_of_Some: "x \<in> set xs \<Longrightarrow> \<exists>i. index_of xs x = Some i \<and> i < length xs \<and> xs ! i = x"
  by (induction xs) auto

lemma index_of_nth: "distinct xs \<Longrightarrow> i < length xs \<Longrightarrow> index_of xs (xs ! i) = Some i"
proof (induction xs arbitrary: i)
  case (Cons x xs)
  then show ?case by (cases i) auto
qed simp

lemma maxWeightClosure_total:
  assumes dist: "distinct ns" and deps: "\<forall>x \<in> set ns. set (dependenciesOf x) \<subseteq> set ns"
  shows "\<exists>m. maxWeightClosure ns weightOf dependenciesOf = Inr m
    \<and> (\<exists>S. closed_nodes ns dependenciesOf S \<and> (\<Sum>x \<in> S. weightOf x) = m)
    \<and> (\<forall>S. closed_nodes ns dependenciesOf S \<longrightarrow> (\<Sum>x \<in> S. weightOf x) \<le> m)"
proof -
  let ?ix = "\<lambda>x. the (index_of ns x)" and ?ws = "map weightOf ns"
  let ?ds = "map (\<lambda>x. map ?ix (dependenciesOf x)) ns"
  have ix: "?ix x < length ns" "ns ! ?ix x = x" "dependencyIndex ns x = Inr (?ix x)" if "x \<in> set ns" for x
    using index_of_Some [OF that] by (auto simp: dependencyIndex_def)
  have "mapr (dependencyIndex ns) (dependenciesOf x) = Inr (map ?ix (dependenciesOf x))" if "x \<in> set ns" for x
    using that deps ix(3) by (intro mapr_all) blast
  then have dl: "mapr (\<lambda>x. mapr (dependencyIndex ns) (dependenciesOf x)) ns = Inr ?ds" by (rule mapr_all)
  have small: "\<forall>ds \<in> set ?ds. \<forall>j \<in> set ds. j < length ?ws" using deps ix(1) by auto
  obtain f C where f: "maxFlow (closureNetwork ?ws ?ds) (length ?ws) (Suc (length ?ws)) = Inr f"
    "C \<subseteq> {..<length ?ws}" "\<forall>i \<in> C. set (?ds ! i) \<subseteq> C" "positiveWeight ?ws - f = (\<Sum>i \<in> C. ?ws ! i)"
    and best: "\<And>C'. C' \<subseteq> {..<length ?ws} \<Longrightarrow> \<forall>i \<in> C'. set (?ds ! i) \<subseteq> C' \<Longrightarrow> (\<Sum>i \<in> C'. ?ws ! i) \<le> positiveWeight ?ws - f"
    by (rule closure_flow [OF small]) auto
  have val: "maxWeightClosure ns weightOf dependenciesOf = Inr (positiveWeight ?ws - f)"
    using dist dl f(1) by (simp add: maxWeightClosure_def Let_def)
  have inj: "inj_on ((!) ns) {..<length ns}" using dist by (auto simp: inj_on_def nth_eq_iff_index_eq)
  let ?S = "(!) ns ` C"
  have "closed_nodes ns dependenciesOf ?S"
  proof -
    have "y \<in> ?S" if "i \<in> C" "y \<in> set (dependenciesOf (ns ! i))" for i y
    proof -
      have i: "i < length ns" using that(1) f(2) by auto
      have "\<forall>j \<in> set (?ds ! i). j \<in> C" using that(1) f(3) by blast
      then have "?ix y \<in> C" using that(2) i by simp
      moreover have "ns ! ?ix y = y" by (rule ix(2)) (use that(2) deps i in \<open>auto dest: nth_mem\<close>)
      ultimately show ?thesis by (metis image_eqI)
    qed
    moreover have "?S \<subseteq> set ns" using f(2) by auto
    ultimately show ?thesis by (auto simp: closed_nodes_def)
  qed
  moreover have "(\<Sum>x \<in> ?S. weightOf x) = positiveWeight ?ws - f"
  proof -
    have "(\<Sum>x \<in> ?S. weightOf x) = (\<Sum>i \<in> C. weightOf (ns ! i))"
      using inj_on_subset [OF inj] f(2) by (simp add: sum.reindex)
    also have "\<dots> = (\<Sum>i \<in> C. ?ws ! i)" using f(2) by (intro sum.cong) auto
    finally show ?thesis using f(4) by simp
  qed
  moreover have "(\<Sum>x \<in> S. weightOf x) \<le> positiveWeight ?ws - f" if S: "closed_nodes ns dependenciesOf S" for S
  proof -
    let ?C = "{i. i < length ns \<and> ns ! i \<in> S}"
    have img: "(!) ns ` ?C = S" using S ix by (fastforce simp: closed_nodes_def image_iff)
    have "(\<Sum>x \<in> S. weightOf x) = (\<Sum>x \<in> (!) ns ` ?C. weightOf x)" by (simp only: img)
    also have "\<dots> = (\<Sum>i \<in> ?C. weightOf (ns ! i))"
      using inj_on_subset [OF inj, of ?C] by (subst sum.reindex) auto
    also have "\<dots> = (\<Sum>i \<in> ?C. ?ws ! i)" by (intro sum.cong) auto
    also have "\<dots> \<le> positiveWeight ?ws - f"
    proof (rule best)
      show "\<forall>i \<in> ?C. set (?ds ! i) \<subseteq> ?C"
        using S deps ix by (auto simp: closed_nodes_def subset_iff)
    qed auto
    finally show ?thesis .
  qed
  ultimately show ?thesis using val by blast
qed

text \<open>C21: \<open>maxWeightClosure\<close> always returns: with distinct nodes that contain all their
  dependencies it returns the largest total weight of a set of nodes closed under
  dependencies, and such a set attains it; the Edmonds-Karp loops end.\<close>

theorem maxWeightClosure_spec:
  assumes dist: "distinct ns" and deps: "\<forall>x \<in> set ns. set (dependenciesOf x) \<subseteq> set ns"
  shows "\<exists>m. maxWeightClosure ns weightOf dependenciesOf = Inr m
    \<and> (\<exists>S. closed_nodes ns dependenciesOf S \<and> (\<Sum>x \<in> S. weightOf x) = m)
    \<and> (\<forall>S. closed_nodes ns dependenciesOf S \<longrightarrow> (\<Sum>x \<in> S. weightOf x) \<le> m)"
  using assms by (rule maxWeightClosure_total)

lemma maxWeightClosure_errors:
  "\<not> distinct ns \<Longrightarrow> maxWeightClosure ns w d = Inl DuplicateNode"
  by (simp add: maxWeightClosure_def)

lemma closure_examples:
  "maxWeightClosure [0, 1, 2, 3 :: nat] (\<lambda>i. [8, - 3, 4, - 7] ! i) (\<lambda>i. [[1], [3], [3], []] ! i) = Inr 2"
  "maxWeightClosure [0, 1, 2, 3 :: nat] (\<lambda>i. [5, - 3, 4, - 10] ! i) (\<lambda>i. [[1], [3], [3], []] ! i) = Inr 0"
  "maxWeightClosure [0, 1, 0 :: nat] (\<lambda>i. 1) (\<lambda>i. []) = Inl DuplicateNode"
  "maxWeightClosure [0, 1 :: nat] (\<lambda>i. 1) (\<lambda>i. [2]) = Inl NotANode"
  by code_simp+

lemma maxWeightClosure_spec_witness:
  "maxWeightClosure [0, 1, 2, 3 :: nat] (\<lambda>i. [5, - 3, 4, - 10] ! i) (\<lambda>i. [[1], [], [3], []] ! i) = Inr 2 \<and>
   closed_nodes [0, 1, 2, 3] (\<lambda>i. [[1], [], [3], []] ! i) {0, 1, 2, 3 :: nat} \<and>
   (\<Sum>x \<in> {0, 1, 2, 3 :: nat}. [5, - 3, 4, - 10 :: int] ! x) \<le> 2"
proof -
  have m: "maxWeightClosure [0, 1, 2, 3 :: nat] (\<lambda>i. [5, - 3, 4, - 10] ! i) (\<lambda>i. [[1], [], [3], []] ! i) = Inr 2"
    by code_simp
  have c: "closed_nodes [0, 1, 2, 3] (\<lambda>i. [[1], [], [3], []] ! i) {0, 1, 2, 3 :: nat}"
    by (simp add: closed_nodes_def)
  have "\<exists>r. maxWeightClosure [0, 1, 2, 3 :: nat] (\<lambda>i. [5, - 3, 4, - 10] ! i) (\<lambda>i. [[1], [], [3], []] ! i) = Inr r
    \<and> (\<exists>S. closed_nodes [0, 1, 2, 3 :: nat] (\<lambda>i. [[1], [], [3], []] ! i) S \<and> (\<Sum>x \<in> S. [5, - 3, 4, - 10] ! x) = r)
    \<and> (\<forall>S. closed_nodes [0, 1, 2, 3 :: nat] (\<lambda>i. [[1], [], [3], []] ! i) S \<longrightarrow> (\<Sum>x \<in> S. [5, - 3, 4, - 10] ! x) \<le> r)"
    by (rule maxWeightClosure_spec) simp_all
  then obtain r where r: "maxWeightClosure [0, 1, 2, 3 :: nat] (\<lambda>i. [5, - 3, 4, - 10] ! i) (\<lambda>i. [[1], [], [3], []] ! i) = Inr r"
    "\<forall>S. closed_nodes [0, 1, 2, 3 :: nat] (\<lambda>i. [[1], [], [3], []] ! i) S \<longrightarrow> (\<Sum>x \<in> S. [5, - 3, 4, - 10] ! x) \<le> r"
    by (elim exE conjE)
  have "r = 2" using trans [OF r(1) [symmetric] m] by (rule sum.inject(2) [THEN iffD1])
  then show ?thesis using m c r(2) [rule_format, OF c] by (intro conjI) simp_all
qed

end
