(* ===== verification/ScheduleOrder.thy ===== *)
theory ScheduleOrder
  imports JsCollections
begin

text \<open>
  The task scheduler of \<open>portfolio-contract/src/schedule-order.ts\<close>: the dependency graph of a
  job and its cycle check, the schedule that hands out ready tasks, and \<open>runJob\<close> as a state
  machine over the promises of its tasks.
\<close>

section \<open>The dependency graph\<close>

record job =
  taskQty :: nat
  job_order :: "(int \<times> int list) list"

type_synonym dependencies = "(nat \<times> nat list) list"

definition fullOrder :: "nat \<Rightarrow> (int \<times> int list) list" where
  "fullOrder len = map (\<lambda>lo. (int lo + 1, [int lo])) [0..<len - 1]"

definition checkNode :: "nat \<Rightarrow> int \<Rightarrow> error + nat" where
  "checkNode qty node = bindr (requirer (\<not> (node < 0 \<or> node \<ge> int qty)) InvalidNodeIndex) (\<lambda>_. Inr (nat node))"

text \<open>Keys with no dependencies are omitted.\<close>

definition checkEntry :: "nat \<Rightarrow> int \<times> int list \<Rightarrow> error + (nat \<times> nat list) option" where
  "checkEntry qty entry =
     (case entry of (ix, deps) \<Rightarrow>
        bindr (checkNode qty ix) (\<lambda>checkedIx.
        if length deps > 0
        then bindr (mapr (checkNode qty) deps) (\<lambda>ds. Inr (Some (checkedIx, to_set ds)))
        else Inr None))"

definition normalizeOrder :: "nat \<Rightarrow> (int \<times> int list) list \<Rightarrow> error + dependencies" where
  "normalizeOrder qty orderArray =
     bindr (mapr (checkEntry qty) orderArray) (\<lambda>es. Inr (to_map (List.map_filter (\<lambda>e. e) es)))"

definition deps_of :: "dependencies \<Rightarrow> nat \<Rightarrow> nat list" where
  "deps_of order node = (case map_of order node of Some ds \<Rightarrow> ds | None \<Rightarrow> [])"

text \<open>
  The depth-first search keeps the visited nodes and the recursion stack; \<open>None\<close> stands for a
  search deeper than the fuel.
\<close>

type_synonym search_state = "nat list \<times> nat list"

primrec anyCycle :: "(nat \<Rightarrow> search_state \<Rightarrow> (bool \<times> search_state) option) \<Rightarrow> nat list
    \<Rightarrow> search_state \<Rightarrow> (bool \<times> search_state) option" where
  "anyCycle visitNode [] st = Some (False, st)"
| "anyCycle visitNode (dep # deps) st =
     (case visitNode dep st of
        None \<Rightarrow> None
      | Some (found, st') \<Rightarrow> if found then Some (True, st') else anyCycle visitNode deps st')"

primrec hasCycle :: "nat \<Rightarrow> dependencies \<Rightarrow> nat \<Rightarrow> search_state \<Rightarrow> (bool \<times> search_state) option" where
  "hasCycle 0 order node st = None"
| "hasCycle (Suc fuel) order node st =
     (case st of (visited, recursionStack) \<Rightarrow>
        if node \<in> set recursionStack then Some (True, st)
        else if node \<in> set visited then Some (False, st)
        else (case anyCycle (hasCycle fuel order) (deps_of order node)
                     (add_to_set node visited, add_to_set node recursionStack) of
                None \<Rightarrow> None
              | Some (found, st') \<Rightarrow>
                  if found then Some (True, st')
                  else Some (False, fst st', removeAll node (snd st'))))"

primrec checkCycles :: "nat \<Rightarrow> dependencies \<Rightarrow> nat list \<Rightarrow> search_state \<Rightarrow> error + search_state" where
  "checkCycles fuel order [] st = Inr st"
| "checkCycles fuel order (node # nodes) st =
     (if node \<in> set (fst st) then checkCycles fuel order nodes st
      else (case hasCycle fuel order node st of
              None \<Rightarrow> Inl Diverges
            | Some (found, st') \<Rightarrow>
                if found then Inl DependencyCycle else checkCycles fuel order nodes st'))"

definition makeDependencies :: "nat \<Rightarrow> (int \<times> int list) list \<Rightarrow> error + dependencies" where
  "makeDependencies qty orderArray =
     bindr (normalizeOrder qty orderArray) (\<lambda>order.
     bindr (checkCycles (Suc qty) order [0..<qty] ([], [])) (\<lambda>_. Inr order))"

subsection \<open>The search finds a cycle exactly when there is one\<close>

definition needs :: "dependencies \<Rightarrow> (nat \<times> nat) set" where
  "needs order = {(x, d). d \<in> set (deps_of order x)}"

text \<open>Nodes off the stack are finished: no dependency leads out of them, none lies on a cycle.\<close>

definition search_inv :: "(nat \<times> nat) set \<Rightarrow> nat \<Rightarrow> search_state \<Rightarrow> bool" where
  "search_inv E qty st \<longleftrightarrow> (case st of (visited, stack) \<Rightarrow>
     set stack \<subseteq> set visited \<and> set visited \<subseteq> {..<qty} \<and> distinct stack \<and>
     (\<forall>x \<in> set visited - set stack. E `` {x} \<subseteq> set visited - set stack \<and> (x, x) \<notin> E\<^sup>+))"

definition searched :: "(nat \<times> nat) set \<Rightarrow> nat \<Rightarrow> search_state \<Rightarrow> nat set \<Rightarrow> (bool \<times> search_state) option \<Rightarrow> bool" where
  "searched E qty st N r \<longleftrightarrow> (case r of None \<Rightarrow> False | Some (found, st') \<Rightarrow>
     (found \<longrightarrow> (\<exists>x. (x, x) \<in> E\<^sup>+)) \<and>
     (\<not> found \<longrightarrow> snd st' = snd st \<and> set (fst st) \<subseteq> set (fst st') \<and> N \<subseteq> set (fst st') - set (snd st) \<and> search_inv E qty st'))"

lemma searchedE:
  assumes "searched E qty st N r"
  obtains found st' where "r = Some (found, st')" "found \<longrightarrow> (\<exists>x. (x, x) \<in> E\<^sup>+)"
    "\<not> found \<longrightarrow> snd st' = snd st \<and> set (fst st) \<subseteq> set (fst st') \<and> N \<subseteq> set (fst st') - set (snd st) \<and> search_inv E qty st'"
proof (cases r)
  case (Some p)
  obtain found st' where "p = (found, st')" by (cases p)
  with assms Some have r: "r = Some (found, st')" "(found \<longrightarrow> (\<exists>x. (x, x) \<in> E\<^sup>+)) \<and> (\<not> found \<longrightarrow>
      snd st' = snd st \<and> set (fst st) \<subseteq> set (fst st') \<and> N \<subseteq> set (fst st') - set (snd st) \<and> search_inv E qty st')"
    by (simp_all add: searched_def)
  show thesis by (rule that [OF r(1)]) (use r(2) in blast)+
qed (use assms in \<open>simp add: searched_def\<close>)

lemma anyCycle_searched:
  assumes one: "\<And>d st. d < qty \<Longrightarrow> search_inv E qty st \<Longrightarrow> snd st = stack \<Longrightarrow> (\<forall>r \<in> set stack. (r, d) \<in> E\<^sup>+)
      \<Longrightarrow> searched E qty st {d} (f d st)"
  shows "search_inv E qty st \<Longrightarrow> snd st = stack \<Longrightarrow> \<forall>d \<in> set ds. d < qty \<and> (\<forall>r \<in> set stack. (r, d) \<in> E\<^sup>+)
      \<Longrightarrow> searched E qty st (set ds) (anyCycle f ds st)"
proof (induction ds arbitrary: st)
  case Nil
  then show ?case by (simp add: searched_def)
next
  case (Cons d ds)
  then have "searched E qty st {d} (f d st)" by (intro one) simp_all
  then obtain found st' where st': "f d st = Some (found, st')" "found \<longrightarrow> (\<exists>x. (x, x) \<in> E\<^sup>+)"
    "\<not> found \<longrightarrow> snd st' = snd st \<and> set (fst st) \<subseteq> set (fst st') \<and> {d} \<subseteq> set (fst st') - set (snd st) \<and> search_inv E qty st'"
    by (rule searchedE)
  show ?case
  proof (cases found)
    case True
    with st' show ?thesis by (simp add: searched_def)
  next
    case False
    then have s: "snd st' = stack" "search_inv E qty st'" "set (fst st) \<subseteq> set (fst st')" "d \<in> set (fst st') - set stack"
      using st'(3) Cons.prems(2) by auto
    have "searched E qty st' (set ds) (anyCycle f ds st')" using Cons s by simp
    then obtain found2 st2 where "anyCycle f ds st' = Some (found2, st2)" "found2 \<longrightarrow> (\<exists>x. (x, x) \<in> E\<^sup>+)"
      "\<not> found2 \<longrightarrow> snd st2 = snd st' \<and> set (fst st') \<subseteq> set (fst st2) \<and> set ds \<subseteq> set (fst st2) - set (snd st') \<and> search_inv E qty st2"
      by (rule searchedE)
    then show ?thesis
      using st'(1) False s Cons.prems(2) by (auto simp: searched_def)
  qed
qed

lemma hasCycle_searched:
  assumes E: "E = needs order" and range: "E \<subseteq> {..<qty} \<times> {..<qty}"
  shows "search_inv E qty st \<Longrightarrow> node < qty \<Longrightarrow> \<forall>r \<in> set (snd st). (r, node) \<in> E\<^sup>+ \<Longrightarrow> qty < fuel + length (snd st)
    \<Longrightarrow> searched E qty st {node} (hasCycle fuel order node st)"
proof (induction fuel arbitrary: node st)
  case 0
  obtain visited stack where st: "st = (visited, stack)" by (cases st)
  have "length stack \<le> qty"
    using 0(1) card_mono [of "{..<qty}" "set stack"] by (auto simp: search_inv_def st distinct_card)
  with 0 st show ?case by simp
next
  case (Suc fuel)
  obtain visited stack where st: "st = (visited, stack)" by (cases st)
  have inv: "set stack \<subseteq> set visited" "set visited \<subseteq> {..<qty}" "distinct stack"
    "\<forall>x \<in> set visited - set stack. E `` {x} \<subseteq> set visited - set stack \<and> (x, x) \<notin> E\<^sup>+"
    using Suc.prems(1) by (simp_all add: search_inv_def st)
  consider "node \<in> set stack" | "node \<in> set visited - set stack" | "node \<notin> set visited" "node \<notin> set stack"
    using inv(1) by blast
  then show ?case
  proof cases
    case 1
    then show ?thesis using Suc.prems(3) by (auto simp: searched_def st)
  next
    case 2
    then show ?thesis using Suc.prems(1) by (auto simp: searched_def st)
  next
    case 3
    let ?st = "(visited @ [node], stack @ [node])"
    have E1: "(node, d) \<in> E" if "d \<in> set (deps_of order node)" for d using that by (simp add: E needs_def)
    have inv1: "search_inv E qty ?st"
      using inv 3 Suc.prems(2) by (auto simp: search_inv_def)
    have "searched E qty ?st (set (deps_of order node)) (anyCycle (hasCycle fuel order) (deps_of order node) ?st)"
    proof (rule anyCycle_searched [where stack = "stack @ [node]"])
      show "searched E qty st' {d} (hasCycle fuel order d st')"
        if "d < qty" "search_inv E qty st'" "snd st' = stack @ [node]" "\<forall>r \<in> set (stack @ [node]). (r, d) \<in> E\<^sup>+" for d st'
        by (rule Suc.IH) (use that Suc.prems(4) st in auto)
      show "\<forall>d \<in> set (deps_of order node). d < qty \<and> (\<forall>r \<in> set (stack @ [node]). (r, d) \<in> E\<^sup>+)"
        using E1 range Suc.prems(3) st by (auto intro: trancl_into_trancl)
    qed (use inv1 in simp_all)
    then obtain found st' where r: "anyCycle (hasCycle fuel order) (deps_of order node) ?st = Some (found, st')"
      "found \<longrightarrow> (\<exists>x. (x, x) \<in> E\<^sup>+)"
      and clean: "\<not> found \<longrightarrow> snd st' = snd ?st \<and> set (fst ?st) \<subseteq> set (fst st')
        \<and> set (deps_of order node) \<subseteq> set (fst st') - set (snd ?st) \<and> search_inv E qty st'"
      by (rule searchedE)
    have step: "hasCycle (Suc fuel) order node st =
      (if found then Some (True, st') else Some (False, fst st', removeAll node (snd st')))"
      using 3 r(1) by (simp add: st add_to_set_def)
    show ?thesis
    proof (cases found)
      case True
      with step r(2) show ?thesis by (simp add: searched_def)
    next
      case False
      with clean have c: "snd st' = stack @ [node]" "set visited \<union> {node} \<subseteq> set (fst st')"
        "set (deps_of order node) \<subseteq> set (fst st') - set (stack @ [node])" "search_inv E qty st'" by simp_all
      let ?B = "set (fst st') - set (stack @ [node])"
      have B: "E `` {x} \<subseteq> ?B" "(x, x) \<notin> E\<^sup>+" if "x \<in> ?B" for x
        using c(4,1) that by (auto simp: search_inv_def split: prod.splits)
      have En: "E `` {node} \<subseteq> ?B" using c(3) by (auto simp: E needs_def)
      have closed: "y \<in> ?B" if "(x, y) \<in> E\<^sup>+" "x \<in> ?B \<or> x = node" for x y
        using that
      proof (induction rule: trancl_induct)
        case (base y)
        then show ?case using B(1) [of x] En by blast
      next
        case (step y z)
        then show ?case using B(1) [of y] by blast
      qed
      then have "(node, node) \<notin> E\<^sup>+" by auto
      moreover have "removeAll node (stack @ [node]) = stack" using 3 by simp
      ultimately have "search_inv E qty (fst st', stack)"
        using c(4,1) En B 3 inv(3) c(2) by (auto simp: search_inv_def split: prod.splits)
      then show ?thesis using step False c 3 by (simp add: searched_def st)
    qed
  qed
qed

lemma checkCycles_spec:
  assumes E: "E = needs order" "E \<subseteq> {..<qty} \<times> {..<qty}" and "\<forall>x \<in> set nodes. x < qty"
  shows "search_inv E qty (visited, []) \<Longrightarrow>
    (case checkCycles (Suc qty) order nodes (visited, []) of
       Inl e \<Rightarrow> e = DependencyCycle \<and> \<not> acyclic E
     | Inr st \<Rightarrow> snd st = [] \<and> set visited \<union> set nodes \<subseteq> set (fst st) \<and> search_inv E qty st)"
  using assms(3)
proof (induction nodes arbitrary: visited)
  case (Cons node nodes)
  show ?case
  proof (cases "node \<in> set visited")
    case True
    have "case checkCycles (Suc qty) order nodes (visited, []) of
       Inl e \<Rightarrow> e = DependencyCycle \<and> \<not> acyclic E
     | Inr st \<Rightarrow> snd st = [] \<and> set visited \<union> set nodes \<subseteq> set (fst st) \<and> search_inv E qty st"
      using Cons.IH Cons.prems by simp
    with True show ?thesis by (cases "checkCycles (Suc qty) order nodes (visited, [])") auto
  next
    case False
    have "searched E qty (visited, []) {node} (hasCycle (Suc qty) order node (visited, []))"
      by (rule hasCycle_searched [OF E]) (use Cons.prems in simp_all)
    then obtain found st' where r: "hasCycle (Suc qty) order node (visited, []) = Some (found, st')"
      "found \<longrightarrow> (\<exists>x. (x, x) \<in> E\<^sup>+)" "\<not> found \<longrightarrow> snd st' = snd (visited, [] :: nat list) \<and>
        set (fst (visited, [] :: nat list)) \<subseteq> set (fst st') \<and>
        {node} \<subseteq> set (fst st') - set (snd (visited, [] :: nat list)) \<and> search_inv E qty st'"
      by (rule searchedE)
    show ?thesis
    proof (cases found)
      case True
      with r False show ?thesis by (auto simp del: hasCycle.simps simp: acyclic_def)
    next
      case found: False
      obtain v' where st': "st' = (v', [])" using r(3) found by (cases st') auto
      have "case checkCycles (Suc qty) order nodes (v', []) of
         Inl e \<Rightarrow> e = DependencyCycle \<and> \<not> acyclic E
       | Inr st \<Rightarrow> snd st = [] \<and> set v' \<union> set nodes \<subseteq> set (fst st) \<and> search_inv E qty st"
        using Cons.IH [of v'] Cons.prems r(3) found st' by simp
      with False found r(1,3) st' show ?thesis
        by (auto simp del: hasCycle.simps split: sum.splits)
    qed
  qed
qed (simp add: subset_iff)

text \<open>What an order declares: the last entry of a task with dependencies counts.\<close>

definition valid_entry :: "nat \<Rightarrow> int \<times> int list \<Rightarrow> bool" where
  "valid_entry qty entry \<longleftrightarrow>
     (case entry of (ix, deps) \<Rightarrow> 0 \<le> ix \<and> ix < int qty \<and> (\<forall>d \<in> set deps. 0 \<le> d \<and> d < int qty))"

definition valid_order :: "nat \<Rightarrow> (int \<times> int list) list \<Rightarrow> bool" where
  "valid_order qty orderArray \<longleftrightarrow> (\<forall>entry \<in> set orderArray. valid_entry qty entry)"

definition declared :: "(int \<times> int list) list \<Rightarrow> (nat \<times> nat) set" where
  "declared orderArray = {(x, d). \<exists>deps. map_of (rev (filter (\<lambda>(_, deps). deps \<noteq> []) orderArray)) (int x) = Some deps
     \<and> int d \<in> set deps}"

definition normal_entry :: "int \<times> int list \<Rightarrow> (nat \<times> nat list) option" where
  "normal_entry entry = (case entry of (ix, deps) \<Rightarrow>
     if deps = [] then None else Some (nat ix, to_set (map nat deps)))"

lemma checkNode_if: "checkNode qty = (\<lambda>x. if 0 \<le> x \<and> x < int qty then Inr (nat x) else Inl InvalidNodeIndex)"
  by (rule ext) (auto simp: checkNode_def)

lemma checkEntry_if:
  "checkEntry qty = (\<lambda>entry. if valid_entry qty entry then Inr (normal_entry entry) else Inl InvalidNodeIndex)"
  by (rule ext) (auto simp: checkEntry_def checkNode_if mapr_if valid_entry_def normal_entry_def split: prod.split)

lemma normalizeOrder_if:
  "normalizeOrder qty arr =
     (if valid_order qty arr then Inr (to_map (List.map_filter normal_entry arr)) else Inl InvalidNodeIndex)"
proof -
  have "List.map_filter (\<lambda>e. e) (map normal_entry arr) = List.map_filter normal_entry arr"
    by (simp add: List.map_filter_def comp_def filter_map)
  then show ?thesis by (simp add: normalizeOrder_def checkEntry_if mapr_if valid_order_def)
qed

lemma needs_normal:
  assumes "valid_order qty arr"
  shows "needs (to_map (List.map_filter normal_entry arr)) = declared arr"
proof -
  have look: "map_of (rev (List.map_filter normal_entry arr)) x =
      map_option (\<lambda>deps. to_set (map nat deps)) (map_of (rev (filter (\<lambda>(_, deps). deps \<noteq> []) arr)) (int x))" for x
    using assms
  proof (induction arr rule: rev_induct)
    case (snoc e es)
    obtain ix deps where e: "e = (ix, deps)" by (cases e)
    with snoc.prems have "valid_order qty es" "0 \<le> ix" by (simp_all add: valid_order_def valid_entry_def)
    with snoc.IH show ?case
      by (auto simp: e List.map_filter_def normal_entry_def)
  qed (simp add: List.map_filter_def)
  have "\<forall>deps. map_of (rev (filter (\<lambda>(_, deps). deps \<noteq> []) arr)) (int x) = Some deps \<longrightarrow> (\<forall>d \<in> set deps. 0 \<le> d)" for x
    using assms by (fastforce simp: valid_order_def valid_entry_def dest!: map_of_SomeD)
  then have img: "d \<in> nat ` set deps \<longleftrightarrow> int d \<in> set deps"
    if "map_of (rev (filter (\<lambda>(_, deps). deps \<noteq> []) arr)) (int x) = Some deps" for x d deps
    using that by (force simp: image_iff)
  have "(x, d) \<in> needs (to_map (List.map_filter normal_entry arr)) \<longleftrightarrow> (x, d) \<in> declared arr" for x d
    by (cases "map_of (rev (filter (\<lambda>(_, deps). deps \<noteq> []) arr)) (int x)")
      (simp_all add: needs_def declared_def deps_of_def map_of_to_map look img)
  then show ?thesis by auto
qed

lemma declared_range: "valid_order qty arr \<Longrightarrow> declared arr \<subseteq> {..<qty} \<times> {..<qty}"
  by (fastforce simp: declared_def valid_order_def valid_entry_def dest!: map_of_SomeD)

definition deps_ok :: "dependencies \<Rightarrow> bool" where
  "deps_ok order \<longleftrightarrow> distinct (map fst order) \<and> (\<forall>(x, ds) \<in> set order. ds \<noteq> [])"

lemma deps_ok_normal: "deps_ok (to_map (List.map_filter normal_entry arr))"
proof -
  have "ds \<noteq> []" if e: "(x, ds) \<in> set (to_map (List.map_filter normal_entry arr))" for x ds
  proof -
    obtain e where "normal_entry e = Some (x, ds)"
      using to_map_set [OF e] by (auto simp: List.map_filter_def)
    then obtain deps where "ds = to_set (map nat deps)" "deps \<noteq> []"
      by (cases e) (auto simp: normal_entry_def split: if_splits)
    then have "set ds \<noteq> {}" by simp
    then show ?thesis by auto
  qed
  then show ?thesis by (auto simp: deps_ok_def)
qed

lemma makeDependencies_cases:
  "if \<not> valid_order qty arr then makeDependencies qty arr = Inl InvalidNodeIndex
   else if \<not> acyclic (declared arr) then makeDependencies qty arr = Inl DependencyCycle
   else (\<exists>order. makeDependencies qty arr = Inr order \<and> needs order = declared arr \<and> deps_ok order)"
proof (cases "valid_order qty arr")
  case True
  let ?order = "to_map (List.map_filter normal_entry arr)"
  note E = needs_normal [OF True] declared_range [OF True]
  have "search_inv (declared arr) qty ([], [])" by (simp add: search_inv_def)
  then have c: "case checkCycles (Suc qty) ?order [0..<qty] ([], []) of
       Inl e \<Rightarrow> e = DependencyCycle \<and> \<not> acyclic (declared arr)
     | Inr st \<Rightarrow> snd st = [] \<and> set [] \<union> set [0..<qty] \<subseteq> set (fst st) \<and> search_inv (declared arr) qty st"
    by (intro checkCycles_spec [OF E(1) [symmetric] E(2)]) simp
  show ?thesis
  proof (cases "checkCycles (Suc qty) ?order [0..<qty] ([], [])")
    case (Inl e)
    with c show ?thesis by (simp add: makeDependencies_def normalizeOrder_if True)
  next
    case (Inr st)
    with c have st: "snd st = []" "{0..<qty} \<subseteq> set (fst st)" "search_inv (declared arr) qty st" by simp_all
    have "(x, x) \<notin> (declared arr)\<^sup>+" for x
    proof
      assume x: "(x, x) \<in> (declared arr)\<^sup>+"
      then have "x < qty" using E(2) by (auto dest: tranclD)
      then show False using x st by (fastforce simp: search_inv_def split: prod.splits)
    qed
    then show ?thesis using Inr E(1) True deps_ok_normal by (auto simp: makeDependencies_def normalizeOrder_if acyclic_def)
  qed
qed (simp add: makeDependencies_def normalizeOrder_if)

text \<open>C25: \<open>makeDependencies\<close> always ends: it throws on an index out of range, throws on a
  cyclic order, and otherwise returns exactly the dependencies the order declares, the last
  non-empty entry of a task counting.\<close>

theorem makeDependencies_decides:
  "if \<not> valid_order qty arr then makeDependencies qty arr = Inl InvalidNodeIndex
   else if \<not> acyclic (declared arr) then makeDependencies qty arr = Inl DependencyCycle
   else (\<exists>order. makeDependencies qty arr = Inr order \<and> needs order = declared arr)"
  using makeDependencies_cases [of qty arr] by (auto split: if_splits)

section \<open>The schedule\<close>

record schedule =
  sdeps :: dependencies
  todo :: "nat list"

definition makeSchedule :: "job \<Rightarrow> error + schedule" where
  "makeSchedule j =
     bindr (makeDependencies (taskQty j) (job_order j)) (\<lambda>d. Inr \<lparr>sdeps = d, todo = [0..<taskQty j]\<rparr>)"

definition ready :: "schedule \<Rightarrow> nat list \<times> schedule" where
  "ready s =
     (let r = filter (\<lambda>ix. map_of (sdeps s) ix = None) (todo s)
      in (r, s\<lparr>todo := filter (\<lambda>ix. ix \<notin> set r) (todo s)\<rparr>))"

definition complete :: "nat \<Rightarrow> schedule \<Rightarrow> schedule" where
  "complete completed s =
     s\<lparr>sdeps := filter (\<lambda>(_, ds). ds \<noteq> []) (map (\<lambda>(ix, ds). (ix, removeAll completed ds)) (sdeps s))\<rparr>"

definition cancel :: "nat \<Rightarrow> schedule \<Rightarrow> schedule" where
  "cancel ix s = s\<lparr>todo := removeAll ix (todo s)\<rparr>"

definition dependents :: "nat \<Rightarrow> schedule \<Rightarrow> nat list" where
  "dependents dependency s = map fst (filter (\<lambda>(_, ds). dependency \<in> set ds) (sdeps s))"

definition pendingTasks :: "schedule \<Rightarrow> bool" where
  "pendingTasks s \<longleftrightarrow> length (todo s) > 0"

section \<open>Running a job\<close>

text \<open>
  \<open>running\<close> lists the keys of the map of running promises. \<open>started\<close> records the calls of
  \<open>runTask\<close>, \<open>failed\<close> the tasks whose call threw or whose promise rejected, \<open>settled\<close> the
  running tasks whose \<open>done\<close> promise has resolved.
\<close>

datatype 'r task_result = Fulfilled | Rejected 'r

datatype phase = LoopHead | AwaitingAny | Returned | Thrown error

record 'r job_state =
  schedule :: schedule
  running :: "nat list"
  results :: "'r task_result list"
  started :: "(nat \<times> nat list) list"
  failed :: "nat list"
  settled :: "nat list"
  phase :: phase

primrec failEach :: "(nat \<Rightarrow> 'r job_state \<Rightarrow> 'r job_state option) \<Rightarrow> nat list
    \<Rightarrow> 'r job_state \<Rightarrow> 'r job_state option" where
  "failEach f [] st = Some st"
| "failEach f (candidate # cs) st = (case f candidate st of None \<Rightarrow> None | Some st' \<Rightarrow> failEach f cs st')"

text \<open>The recursion is at most as deep as there are tasks; \<open>None\<close> marks exhausted fuel.\<close>

primrec failTaskAndAncestors :: "nat \<Rightarrow> (nat \<Rightarrow> 'r \<Rightarrow> 'r) \<Rightarrow> nat \<Rightarrow> 'r \<Rightarrow> 'r job_state \<Rightarrow> 'r job_state option" where
  "failTaskAndAncestors 0 makeError ix reason st = None"
| "failTaskAndAncestors (Suc fuel) makeError ix reason st =
     (case results st ! ix of
        Rejected _ \<Rightarrow> Some st
      | Fulfilled \<Rightarrow>
          let st' = st\<lparr>schedule := cancel ix (schedule st), results := (results st)[ix := Rejected reason]\<rparr>
          in failEach (\<lambda>candidate. failTaskAndAncestors fuel makeError candidate (makeError ix reason))
               (dependents ix (schedule st')) st')"

definition failTask :: "(nat \<Rightarrow> 'r \<Rightarrow> 'r) \<Rightarrow> nat \<Rightarrow> 'r \<Rightarrow> 'r job_state \<Rightarrow> 'r job_state option" where
  "failTask makeError ix reason st =
     failTaskAndAncestors (Suc (length (results st))) makeError ix reason (st\<lparr>failed := failed st @ [ix]\<rparr>)"

text \<open>One call of \<open>runTask\<close>; \<open>throws\<close> tells which calls throw instead of returning a promise.\<close>

definition startTask :: "(nat \<Rightarrow> 'r \<Rightarrow> 'r) \<Rightarrow> (nat \<Rightarrow> 'r option) \<Rightarrow> nat \<Rightarrow> 'r job_state \<Rightarrow> 'r job_state option" where
  "startTask makeError throws ix st =
     (let st1 = st\<lparr>started := started st @ [(ix, running st @ [ix])]\<rparr> in
      map_option (\<lambda>st2. st2\<lparr>running := add_to_set ix (running st2)\<rparr>)
        (case throws ix of None \<Rightarrow> Some st1 | Some reason \<Rightarrow> failTask makeError ix reason st1))"

definition loopHead :: "(nat \<Rightarrow> 'r \<Rightarrow> 'r) \<Rightarrow> (nat \<Rightarrow> 'r option) \<Rightarrow> 'r job_state \<Rightarrow> 'r job_state option" where
  "loopHead makeError throws st =
     (if pendingTasks (schedule st) \<or> length (running st) > 0 then
        (case ready (schedule st) of (runnable, sched) \<Rightarrow>
           if runnable = [] \<and> running st = [] then Some (st\<lparr>schedule := sched, phase := Thrown DependencyLoop\<rparr>)
           else map_option (\<lambda>st'. st'\<lparr>phase := if running st' = [] then LoopHead else AwaitingAny\<rparr>)
                  (failEach (startTask makeError throws) runnable (st\<lparr>schedule := sched\<rparr>)))
      else Some (st\<lparr>phase := Returned\<rparr>))"

text \<open>A task's promise settles while the loop waits; the loop resumes with a settled task.\<close>

definition taskDone :: "nat \<Rightarrow> 'r job_state \<Rightarrow> 'r job_state" where
  "taskDone ix st = st\<lparr>settled := settled st @ [ix]\<rparr>"

definition taskRejected :: "(nat \<Rightarrow> 'r \<Rightarrow> 'r) \<Rightarrow> nat \<Rightarrow> 'r \<Rightarrow> 'r job_state \<Rightarrow> 'r job_state option" where
  "taskRejected makeError ix reason st = map_option (taskDone ix) (failTask makeError ix reason st)"

definition resumeLoop :: "nat \<Rightarrow> 'r job_state \<Rightarrow> 'r job_state" where
  "resumeLoop winnerIx st =
     (let st' = st\<lparr>running := removeAll winnerIx (running st), settled := removeAll winnerIx (settled st), phase := LoopHead\<rparr> in
      case results st ! winnerIx of
        Fulfilled \<Rightarrow> st'\<lparr>schedule := complete winnerIx (schedule st)\<rparr>
      | Rejected _ \<Rightarrow> st')"

definition startJob :: "job \<Rightarrow> error + 'r job_state" where
  "startJob j =
     bindr (makeSchedule j) (\<lambda>s.
       Inr \<lparr>schedule = s, running = [], results = replicate (taskQty j) Fulfilled, started = [],
            failed = [], settled = [], phase = LoopHead\<rparr>)"

inductive job_step :: "(nat \<Rightarrow> 'r \<Rightarrow> 'r) \<Rightarrow> 'r job_state \<Rightarrow> 'r job_state \<Rightarrow> bool" for makeError where
  loop_step: "phase st = LoopHead \<Longrightarrow> loopHead makeError throws st = Some st' \<Longrightarrow> job_step makeError st st'"
| done_step: "phase st = AwaitingAny \<Longrightarrow> ix \<in> set (running st) - set (settled st) \<Longrightarrow>
     job_step makeError st (taskDone ix st)"
| reject_step: "phase st = AwaitingAny \<Longrightarrow> ix \<in> set (running st) - set (settled st) - set (failed st) \<Longrightarrow>
     taskRejected makeError ix reason st = Some st' \<Longrightarrow> job_step makeError st st'"
| resume_step: "phase st = AwaitingAny \<Longrightarrow> ix \<in> set (running st) \<inter> set (settled st) \<Longrightarrow>
     job_step makeError st (resumeLoop ix st)"

lemma schedule_example:
  "map_option (\<lambda>st. (started st, results st, phase st))
     (Option.bind (case startJob \<lparr>taskQty = 3, job_order = [(1, [0]), (2, [1])]\<rparr> of Inl _ \<Rightarrow> None | Inr s \<Rightarrow> Some s) (\<lambda>st.
      Option.bind (loopHead (\<lambda>ix r. r @ ''!'') (\<lambda>_. None) st) (\<lambda>st.
      Option.bind (taskRejected (\<lambda>ix r. r @ ''!'') 0 ''no'' st) (\<lambda>st.
      loopHead (\<lambda>ix r. r @ ''!'') (\<lambda>_. None) (resumeLoop 0 st)))))
   = Some ([(0, [0])], [Rejected ''no'', Rejected ''no!'', Rejected ''no!!''], Returned)"
  by code_simp

end
