(* ===== verification/DelegationLimits.thy ===== *)
theory DelegationLimits
  imports Places Permissions MaxWeightClosure ScheduleOrder
begin

text \<open>
  The checks on an allocation and plan submitted by a delegated agent:
  \<open>portfolio-contract/src/delegation-limits.ts\<close>.
\<close>

section \<open>Data\<close>

text \<open>Records of JavaScript as lists of their entries; a value may be undefined.\<close>

type_synonym target_allocation = "(string \<times> int option) list"

type_synonym balances = "(string \<times> int) list"

record observations =
  obs_balances :: "(string \<times> int option) list"
  instrumentTvls :: "(string \<times> int) list"

record funds_flow_plan =
  plan_flow :: "movement list"
  plan_order :: "(int \<times> int list) list option"

definition or_zero :: "int option \<Rightarrow> int" where
  "or_zero x = (case x of None \<Rightarrow> 0 | Some n \<Rightarrow> n)"

definition entry_or_zero :: "('k \<times> int option) list \<Rightarrow> 'k \<Rightarrow> int" where
  "entry_or_zero es k = (case map_of es k of None \<Rightarrow> 0 | Some v \<Rightarrow> or_zero v)"

definition get_or_zero :: "('k \<times> int) list \<Rightarrow> 'k \<Rightarrow> int" where
  "get_or_zero m k = or_zero (map_of m k)"

definition needsObservations :: "permissions \<Rightarrow> bool" where
  "needsObservations perms =
     (case perm_allocation perms of
        Some (Limited l) \<Rightarrow> minVaultTvlUsd l \<noteq> None \<or> maxVaultShareBps l \<noteq> None
      | _ \<Rightarrow> False)"

definition sumOptionalBigints :: "int option list \<Rightarrow> int" where
  "sumOptionalBigints bigints = foldl (\<lambda>total v. total + or_zero v) 0 bigints"

definition sumPortions :: "target_allocation \<Rightarrow> int" where
  "sumPortions targetAllocation = sumOptionalBigints (map snd targetAllocation)"

section \<open>Mandates\<close>

definition assertMandateForAllocation :: "permissions \<Rightarrow> target_allocation \<Rightarrow> error + unit" where
  "assertMandateForAllocation perms targetAllocation =
     (case perm_allocation perms of
        Some (Limited l) \<Rightarrow>
          (case maxWeightBps l of
             None \<Rightarrow> Inr ()
           | Some weight \<Rightarrow>
               let totalPortions = sumPortions targetAllocation; maxScaledPortion = weight * totalPortions in
               for_eachr targetAllocation (\<lambda>(instrument, portion).
                 if isInterChainAccountRef instrument then Inr ()
                 else bindr (requirer (totalPortions > 0) ZeroPortions) (\<lambda>_.
                   requirer (or_zero portion * 10000 \<le> maxScaledPortion) WeightExceeded)))
      | _ \<Rightarrow> Inr ())"

definition MICRO_USDC_PER_USD :: int where
  "MICRO_USDC_PER_USD = 1000000"

definition assertMandateForPlanObservations :: "permissions \<Rightarrow> target_allocation \<Rightarrow> observations \<Rightarrow> error + unit" where
  "assertMandateForPlanObservations perms targetAllocation obs =
     (case perm_allocation perms of
        Some (Limited l) \<Rightarrow>
          if minVaultTvlUsd l = None \<and> maxVaultShareBps l = None then Inr ()
          else
            let totalPortions = sumPortions targetAllocation;
                portfolioValueMicroUsd = sumOptionalBigints (map snd (obs_balances obs))
            in for_eachr targetAllocation (\<lambda>(instrument, portion).
                 if isInterChainAccountRef instrument \<or> or_zero portion = 0 then Inr ()
                 else (case map_of (instrumentTvls obs) instrument of
                         None \<Rightarrow> Inl ObservationMissing
                       | Some tvlUsd \<Rightarrow>
                           bindr (when_some (minVaultTvlUsd l) (\<lambda>minTvl. requirer (tvlUsd \<ge> minTvl) VaultLimitExceeded)) (\<lambda>_.
                           when_some (maxVaultShareBps l) (\<lambda>maxShare.
                             bindr (requirer (totalPortions > 0) ZeroPortions) (\<lambda>_.
                             requirer (portfolioValueMicroUsd * or_zero portion * 10000
                               \<le> tvlUsd * MICRO_USDC_PER_USD * totalPortions * maxShare) VaultLimitExceeded)))))
      | _ \<Rightarrow> Inr ())"

definition vetNoNewPositions :: "target_allocation \<Rightarrow> movement list \<Rightarrow> error + unit" where
  "vetNoNewPositions targetAllocation steps =
     (let allowedPositions = map fst targetAllocation;
          destinations = to_set (map dest steps);
          unexpected = filter (\<lambda>d. isInstrumentId d \<and> d \<notin> set allowedPositions) destinations
      in requirer (length unexpected = 0) UnauthorizedPosition)"

definition vetNoSwaps :: "movement list \<Rightarrow> error + unit" where
  "vetNoSwaps steps = for_eachr steps (\<lambda>m. requirer (\<not> swap m) PlanNotSupported)"

section \<open>Decoding a plan\<close>

datatype plan_operation = Move string string int | ClaimRewards string string

record decoded_plan =
  operations :: "plan_operation list"
  dec_order :: "(int \<times> int list) list option"

definition decodeMovement :: "movement \<Rightarrow> error + plan_operation" where
  "decodeMovement m =
     bindr (requirer (isPortfolioBalancePlaceRef (src m)) PlanNotSupported) (\<lambda>_.
     bindr (requirer (isPortfolioBalancePlaceRef (dest m)) PlanNotSupported) (\<lambda>_.
     bindr (requirer (src m \<noteq> dest m) PlanNotSupported) (\<lambda>_.
     if \<not> claimRewards m then Inr (Move (src m) (dest m) (movedAmount m))
     else if \<not> isInstrumentId (src m) \<or> \<not> isInterChainAccountRef (dest m) then Inl PlanNotSupported
     else bindr (chainOf (src m)) (\<lambda>chain.
          if dest m \<noteq> ''@'' @ chain then Inl PlanNotSupported
          else Inr (ClaimRewards (src m) (dest m))))))"

definition decodePlan :: "funds_flow_plan \<Rightarrow> error + decoded_plan" where
  "decodePlan plan =
     bindr (vetNoSwaps (plan_flow plan)) (\<lambda>_.
     bindr (mapr decodeMovement (plan_flow plan)) (\<lambda>ops.
     Inr \<lparr>operations = ops, dec_order = plan_order plan\<rparr>))"

definition order_of_plan :: "nat \<Rightarrow> (int \<times> int list) list option \<Rightarrow> (int \<times> int list) list" where
  "order_of_plan len order = (case order of None \<Rightarrow> fullOrder len | Some ord \<Rightarrow> ord)"

definition vetObservationPlaces :: "string list \<Rightarrow> funds_flow_plan \<Rightarrow> observations \<Rightarrow> error + unit" where
  "vetObservationPlaces currentPlaces plan obs =
     (let places = to_set (concat (map (\<lambda>step. [src step, dest step]) (plan_flow plan)));
          expected = fold add_to_set (filter (\<lambda>p. isInstrumentId p \<or> isInterChainAccountRef p) places) (to_set currentPlaces);
          observed = to_set (map fst (obs_balances obs));
          missing = filter (\<lambda>p. p \<notin> set observed) expected;
          extra = filter (\<lambda>p. p \<notin> set expected \<and> map_of (obs_balances obs) p \<noteq> Some (Some 0)) observed
      in bindr (requirer (length missing = 0) ObservationMissing) (\<lambda>_.
         requirer (length extra = 0) ObservationUnexpected))"

section \<open>Allocation ceilings\<close>

definition MAX_CHAIN_ALLOCATION_DIVERGENCE_UUSDC :: int where
  "MAX_CHAIN_ALLOCATION_DIVERGENCE_UUSDC = 1000000"

text \<open>The loop over the balances, with the excess per chain so far.\<close>

fun ceilings_loop :: "int \<Rightarrow> int \<Rightarrow> target_allocation \<Rightarrow> balances \<Rightarrow> balances \<Rightarrow> error + balances" where
  "ceilings_loop totalBalance totalPortions targetAllocation [] excessByChain = Inr excessByChain"
| "ceilings_loop totalBalance totalPortions targetAllocation ((place, balance) # rest) excessByChain =
     (if \<not> isInstrumentId place \<or> balance = 0
      then ceilings_loop totalBalance totalPortions targetAllocation rest excessByChain
      else bindr (requirer (totalPortions > 0) ZeroPortions) (\<lambda>_.
        let ceiling = entry_or_zero targetAllocation place;
            excess = balance * totalPortions - totalBalance * ceiling
        in if excess \<le> 0 then ceilings_loop totalBalance totalPortions targetAllocation rest excessByChain
           else bindr (chainOf place) (\<lambda>chain.
             let chainExcess = get_or_zero excessByChain chain + excess
             in bindr (requirer (chainExcess \<le> MAX_CHAIN_ALLOCATION_DIVERGENCE_UUSDC * totalPortions) AllocationExceeded) (\<lambda>_.
                ceilings_loop totalBalance totalPortions targetAllocation rest (AList.update chain chainExcess excessByChain)))))"

definition vetAllocationCeilings :: "balances \<Rightarrow> target_allocation \<Rightarrow> error + unit" where
  "vetAllocationCeilings bals targetAllocation =
     bindr (ceilings_loop (sumOptionalBigints (map (\<lambda>(_, b). Some b) bals)) (sumPortions targetAllocation)
              targetAllocation bals []) (\<lambda>_. Inr ())"

definition initialBalances :: "observations \<Rightarrow> balances" where
  "initialBalances obs = to_map (map (\<lambda>(place, b). (place, or_zero b)) (obs_balances obs))"

definition operation_places :: "plan_operation \<Rightarrow> string list" where
  "operation_places m = (case m of Move s d _ \<Rightarrow> [s, d] | ClaimRewards s d \<Rightarrow> [s, d])"

definition operation_delta :: "string \<Rightarrow> plan_operation \<Rightarrow> int" where
  "operation_delta place m =
     (case m of
        ClaimRewards _ _ \<Rightarrow> 0
      | Move s d amt \<Rightarrow> if d = place then amt else if s = place then - amt else 0)"

definition vetPartialPlanAllocation :: "target_allocation \<Rightarrow> decoded_plan \<Rightarrow> observations \<Rightarrow> error + unit" where
  "vetPartialPlanAllocation targetAllocation plan obs =
     (let initial = initialBalances obs;
          totalBalance = sumOptionalBigints (map (\<lambda>(_, b). Some b) initial);
          totalPortions = sumPortions targetAllocation;
          ops = operations plan;
          steps = [0..<length ops]
      in bindr (makeDependencies (length ops) (order_of_plan (length ops) (dec_order plan))) (\<lambda>dependencies.
         let instruments = to_set (filter isInstrumentId
               (map fst targetAllocation @ map fst initial @ concat (map operation_places ops)))
         in for_eachr instruments (\<lambda>place.
              let initialBalance = get_or_zero initial place in
              bindr (maxWeightClosure steps (\<lambda>index. operation_delta place (ops ! index)) (deps_of dependencies)) (\<lambda>maxDelta.
              let maxBalance = initialBalance + maxDelta;
                  ceiling = entry_or_zero targetAllocation place;
                  withinTarget = (totalPortions > 0 \<and> maxBalance * totalPortions \<le> totalBalance * ceiling)
              in requirer (withinTarget \<or> maxBalance \<le> initialBalance) AllocationExceeded))))"

section \<open>Projected balances\<close>

definition add_debit :: "plan_operation list \<Rightarrow> nat \<Rightarrow> balances \<Rightarrow> balances" where
  "add_debit ops ix debits =
     (case ops ! ix of
        ClaimRewards _ _ \<Rightarrow> debits
      | Move s d amt \<Rightarrow> AList.update s (get_or_zero debits s + amt) debits)"

definition apply_operation :: "plan_operation list \<Rightarrow> nat \<Rightarrow> balances \<Rightarrow> balances" where
  "apply_operation ops ix bals =
     (case ops ! ix of
        ClaimRewards _ _ \<Rightarrow> bals
      | Move s d amt \<Rightarrow>
          let bals' = AList.update s (get_or_zero bals s - amt) bals
          in AList.update d (get_or_zero bals' d + amt) bals')"

definition projectRound :: "plan_operation list \<Rightarrow> schedule \<Rightarrow> balances \<Rightarrow> error + schedule \<times> balances" where
  "projectRound ops sched bals =
     (case ready sched of (readyIxs, sched') \<Rightarrow>
        let debits = fold (add_debit ops) readyIxs [] in
        bindr (for_eachr debits (\<lambda>(s, debit). requirer (get_or_zero bals s \<ge> debit) UnfundedMovement)) (\<lambda>_.
        Inr (fold complete readyIxs sched', fold (apply_operation ops) readyIxs bals)))"

primrec projectLoop :: "nat \<Rightarrow> plan_operation list \<Rightarrow> schedule \<Rightarrow> balances \<Rightarrow> error + balances" where
  "projectLoop 0 ops sched bals = Inl Diverges"
| "projectLoop (Suc fuel) ops sched bals =
     (if pendingTasks sched
      then bindr (projectRound ops sched bals) (\<lambda>(sched', bals'). projectLoop fuel ops sched' bals')
      else Inr bals)"

definition projectPlanBalances :: "decoded_plan \<Rightarrow> observations \<Rightarrow> error + balances" where
  "projectPlanBalances plan obs =
     (let ops = operations plan in
      bindr (makeSchedule \<lparr>taskQty = length ops, job_order = order_of_plan (length ops) (dec_order plan)\<rparr>) (\<lambda>sched.
      bindr (for_eachr ops (\<lambda>m. case m of
               ClaimRewards _ _ \<Rightarrow> Inr ()
             | Move s d amt \<Rightarrow>
                 if isInstrumentId d
                 then requirer (case map_of (obs_balances obs) d of Some (Some _) \<Rightarrow> True | _ \<Rightarrow> False) ObservationMissing
                 else Inr ())) (\<lambda>_.
      projectLoop (Suc (length ops)) ops sched (initialBalances obs))))"

section \<open>The whole check\<close>

definition vetPlanAllocation :: "target_allocation \<Rightarrow> funds_flow_plan \<Rightarrow> observations \<Rightarrow> error + unit" where
  "vetPlanAllocation targetAllocation plan obs =
     bindr (decodePlan plan) (\<lambda>decoded.
     bindr (for_eachr (operations decoded) (\<lambda>m. case m of
              ClaimRewards _ _ \<Rightarrow> Inl PlanNotSupported | Move _ _ _ \<Rightarrow> Inr ())) (\<lambda>_.
     bindr (vetNoNewPositions targetAllocation (plan_flow plan)) (\<lambda>_.
     bindr (projectPlanBalances decoded obs) (\<lambda>bals.
     bindr (vetAllocationCeilings bals targetAllocation) (\<lambda>_.
     vetPartialPlanAllocation targetAllocation decoded obs)))))"

text \<open>The result tells whether the allocation can be committed at once.\<close>

definition vetAllocationPlan :: "permissions \<Rightarrow> target_allocation \<Rightarrow> funds_flow_plan option
    \<Rightarrow> observations option \<Rightarrow> error + bool" where
  "vetAllocationPlan perms targetAllocation plan obs =
     bindr (assertMandateForAllocation perms targetAllocation) (\<lambda>_.
     (case plan of
        None \<Rightarrow> Inr (\<not> needsObservations perms)
      | Some pl \<Rightarrow>
          (case obs of
             None \<Rightarrow> Inl ObservationMissing
           | Some ob \<Rightarrow>
               bindr (vetPlanAllocation targetAllocation pl ob) (\<lambda>_.
               bindr (assertMandateForPlanObservations perms targetAllocation ob) (\<lambda>_. Inr True)))))"

lemma plan_examples:
  "let step = (\<lambda>s d a. \<lparr>src = s, dest = d, movedAmount = a, claimRewards = False, swap = False\<rparr>);
       target = [(''Aave_Base'', Some 1), (''Aave_Arbitrum'', Some 1)];
       obs = \<lparr>obs_balances = [(''@Base'', Some 40), (''Aave_Base'', Some 30), (''Aave_Arbitrum'', Some 10)], instrumentTvls = []\<rparr>
   in (vetPlanAllocation target \<lparr>plan_flow = [step ''@Base'' ''Aave_Base'' 10, step ''@Base'' ''Aave_Arbitrum'' 30], plan_order = None\<rparr> obs,
       vetPlanAllocation target \<lparr>plan_flow = [step ''@Base'' ''Aave_Base'' 40, step ''Aave_Base'' ''Aave_Arbitrum'' 30], plan_order = None\<rparr> obs,
       vetPlanAllocation target \<lparr>plan_flow = [step ''@Base'' ''Aave_Base'' 41], plan_order = None\<rparr> obs)
     = (Inr (), Inl AllocationExceeded, Inl UnfundedMovement)"
  by code_simp

end
