(* ===== verification/JobRuns.thy ===== *)
theory JobRuns
  imports ScheduleOrder
begin

text \<open>
  The correctness of \<open>runJob\<close>: what failing a task does to the others, the invariant of the
  loop, that tasks start only after their dependencies, and that every run returns.
\<close>

named_theorems job_simps \<open>what the operations of a run do to its state\<close>

section \<open>The schedule operations on the dependency graph\<close>

lemma needs_iff: "distinct (map fst order) \<Longrightarrow> (x, d) \<in> needs order \<longleftrightarrow> (\<exists>ds. (x, ds) \<in> set order \<and> d \<in> set ds)"
  by (auto simp: needs_def deps_of_def split: option.splits dest: map_of_SomeD)

lemma set_dependents: "distinct (map fst (sdeps s)) \<Longrightarrow> set (dependents d s) = {x. (x, d) \<in> needs (sdeps s)}"
  by (force simp: dependents_def needs_iff)

lemma distinct_fst_mono: "distinct (map fst xs) \<Longrightarrow> distinct (map fst (filter P (map (\<lambda>(x, y). (x, f y)) xs)))"
proof -
  assume "distinct (map fst xs)"
  moreover have "map fst (map (\<lambda>(x, y). (x, f y)) xs) = map fst xs" by (simp add: case_prod_beta comp_def)
  ultimately show ?thesis by (simp only: distinct_map_filter)
qed

lemma complete_set:
  "(x, ds) \<in> set (sdeps (complete c s)) \<longleftrightarrow> (\<exists>ds'. (x, ds') \<in> set (sdeps s) \<and> ds = removeAll c ds' \<and> ds \<noteq> [])"
  by (force simp: complete_def)

lemma complete_needs:
  assumes "deps_ok (sdeps s)"
  shows "deps_ok (sdeps (complete c s))" "needs (sdeps (complete c s)) = {(x, d) \<in> needs (sdeps s). d \<noteq> c}"
proof -
  have s: "distinct (map fst (sdeps s))" using assms by (simp add: deps_ok_def)
  then have d: "distinct (map fst (sdeps (complete c s)))"
    by (simp add: complete_def distinct_fst_mono)
  then show "deps_ok (sdeps (complete c s))"
    by (auto simp: deps_ok_def complete_set)
  have "(x, y) \<in> needs (sdeps (complete c s)) \<longleftrightarrow> (x, y) \<in> needs (sdeps s) \<and> y \<noteq> c" for x y
  proof
    assume "(x, y) \<in> needs (sdeps s) \<and> y \<noteq> c"
    then obtain ds where "(x, ds) \<in> set (sdeps s)" "y \<in> set (removeAll c ds)" by (auto simp: needs_iff [OF s])
    moreover from this have "removeAll c ds \<noteq> []" by (cases "removeAll c ds") simp_all
    ultimately have "(x, removeAll c ds) \<in> set (sdeps (complete c s))" "y \<in> set (removeAll c ds)"
      using complete_set by fastforce+
    then show "(x, y) \<in> needs (sdeps (complete c s))" unfolding needs_iff [OF d] by blast
  qed (auto simp: needs_iff [OF s] needs_iff [OF d] complete_set)
  then show "needs (sdeps (complete c s)) = {(x, d) \<in> needs (sdeps s). d \<noteq> c}" by auto
qed

lemma ready_iff: "deps_ok (sdeps s) \<Longrightarrow> map_of (sdeps s) ix = None \<longleftrightarrow> (\<forall>d. (ix, d) \<notin> needs (sdeps s))"
  by (force simp: needs_iff deps_ok_def map_of_eq_None_iff neq_Nil_conv)

section \<open>Failing a task\<close>

definition rejects :: "'r job_state \<Rightarrow> nat set" where
  "rejects st = {x. x < length (results st) \<and> results st ! x \<noteq> Fulfilled}"

definition fails_to :: "(nat \<times> nat) set \<Rightarrow> 'r job_state \<Rightarrow> nat set \<Rightarrow> 'r job_state \<Rightarrow> bool" where
  "fails_to E st N st' \<longleftrightarrow>
     st' = st\<lparr>schedule := (schedule st)\<lparr>todo := filter (\<lambda>x. x \<notin> rejects st' - rejects st) (todo (schedule st))\<rparr>,
             results := results st'\<rparr> \<and>
     length (results st') = length (results st) \<and>
     rejects st \<union> N \<subseteq> rejects st' \<and>
     (\<forall>x \<in> rejects st' - rejects st. (\<exists>n \<in> N. (x, n) \<in> E\<^sup>*) \<and> (\<forall>y. (y, x) \<in> E \<longrightarrow> y \<in> rejects st'))"

lemma fails_to_refl: "N \<subseteq> rejects st \<Longrightarrow> fails_to E st N st"
  by (simp add: fails_to_def)

lemma fails_toD:
  assumes "fails_to E st N st'"
  shows "sdeps (schedule st') = sdeps (schedule st)" "running st' = running st" "started st' = started st"
    "failed st' = failed st" "settled st' = settled st" "phase st' = phase st"
    "todo (schedule st') = filter (\<lambda>x. x \<notin> rejects st' - rejects st) (todo (schedule st))"
    "length (results st') = length (results st)" "rejects st \<subseteq> rejects st'" "N \<subseteq> rejects st'"
proof -
  have eq: "st' = st\<lparr>schedule := (schedule st)\<lparr>todo := filter (\<lambda>x. x \<notin> rejects st' - rejects st) (todo (schedule st))\<rparr>,
             results := results st'\<rparr>"
    using assms unfolding fails_to_def by (elim conjE)
  show "sdeps (schedule st') = sdeps (schedule st)" "running st' = running st" "started st' = started st"
    "failed st' = failed st" "settled st' = settled st" "phase st' = phase st"
    "todo (schedule st') = filter (\<lambda>x. x \<notin> rejects st' - rejects st) (todo (schedule st))"
    by (subst eq, simp)+
  show "length (results st') = length (results st)" "rejects st \<subseteq> rejects st'" "N \<subseteq> rejects st'"
    using assms unfolding fails_to_def by simp_all
qed

lemma fails_to_trans:
  assumes 1: "fails_to E st N st1" and 2: "fails_to E st1 M st2"
  shows "fails_to E st (N \<union> M) st2"
proof -
  note D = fails_toD [OF 1] fails_toD [OF 2]
  have "todo (schedule st2) = filter (\<lambda>x. x \<notin> rejects st2 - rejects st) (todo (schedule st))"
    unfolding D(17) D(7) filter_filter by (rule filter_cong) (use D(9,19) in auto)
  then have "st2 = st\<lparr>schedule := (schedule st)\<lparr>todo := filter (\<lambda>x. x \<notin> rejects st2 - rejects st) (todo (schedule st))\<rparr>,
      results := results st2\<rparr>"
    using D by (intro job_state.equality schedule.equality) simp_all
  moreover have "(\<exists>n \<in> N \<union> M. (x, n) \<in> E\<^sup>*) \<and> (\<forall>y. (y, x) \<in> E \<longrightarrow> y \<in> rejects st2)" if "x \<in> rejects st2 - rejects st" for x
  proof (cases "x \<in> rejects st1")
    case True
    with that 1 have "(\<exists>n \<in> N. (x, n) \<in> E\<^sup>*) \<and> (\<forall>y. (y, x) \<in> E \<longrightarrow> y \<in> rejects st1)"
      unfolding fails_to_def by blast
    with D(19) show ?thesis by blast
  next
    case False
    with that 2 have "(\<exists>n \<in> M. (x, n) \<in> E\<^sup>*) \<and> (\<forall>y. (y, x) \<in> E \<longrightarrow> y \<in> rejects st2)"
      unfolding fails_to_def by blast
    then show ?thesis by blast
  qed
  ultimately show ?thesis using D unfolding fails_to_def by auto
qed

lemma failEach_fails_to:
  assumes one: "\<And>c st. c \<in> set cs \<Longrightarrow> P st \<Longrightarrow> \<exists>st'. f c st = Some st' \<and> fails_to E st {c} st'"
    and keep: "\<And>st N st'. P st \<Longrightarrow> fails_to E st N st' \<Longrightarrow> P st'"
  shows "P st \<Longrightarrow> \<exists>st'. failEach f cs st = Some st' \<and> fails_to E st (set cs) st'"
  using one
proof (induction cs arbitrary: st)
  case Nil
  then show ?case by (simp add: fails_to_refl)
next
  case (Cons c cs)
  obtain st1 where st1: "f c st = Some st1" "fails_to E st {c} st1"
    using Cons.prems(2) [OF _ Cons.prems(1), of c] by auto
  obtain st2 where "failEach f cs st1 = Some st2" "fails_to E st1 (set cs) st2"
    using Cons.IH [OF keep [OF Cons.prems(1) st1(2)]] Cons.prems(2) by auto
  with st1 fails_to_trans [OF st1(2)] show ?case by auto
qed

lemma rejects_update:
  "ix < length (results st) \<Longrightarrow> results st ! ix = Fulfilled \<Longrightarrow>
     rejects (st\<lparr>schedule := s, results := (results st)[ix := Rejected r]\<rparr>) = insert ix (rejects st)"
  by (auto simp: rejects_def nth_list_update)

lemma finite_rejects [simp]: "finite (rejects st)"
  by (simp add: rejects_def)

lemma failTaskAndAncestors_ok:
  fixes mk :: "nat \<Rightarrow> 'r \<Rightarrow> 'r"
  assumes range: "E \<subseteq> {..<qty} \<times> {..<qty}"
  shows "deps_ok (sdeps (schedule st)) \<Longrightarrow> needs (sdeps (schedule st)) = E \<Longrightarrow> length (results st) = qty \<Longrightarrow> ix < qty
    \<Longrightarrow> qty < fuel + card (rejects st)
    \<Longrightarrow> \<exists>st'. failTaskAndAncestors fuel mk ix reason st = Some st' \<and> fails_to E st {ix} st'"
proof (induction fuel arbitrary: ix reason st)
  case 0
  have "card (rejects st) \<le> card {..<qty}" by (rule card_mono) (use 0 in \<open>auto simp: rejects_def\<close>)
  with 0 show ?case by simp
next
  case (Suc fuel)
  show ?case
  proof (cases "results st ! ix")
    case (Rejected r)
    then have "ix \<in> rejects st" using Suc.prems by (simp add: rejects_def)
    then show ?thesis using Rejected by (simp add: fails_to_refl)
  next
    case Fulfilled
    let ?st1 = "st\<lparr>schedule := cancel ix (schedule st), results := (results st)[ix := Rejected reason]\<rparr>"
    let ?P = "\<lambda>s :: 'r job_state. deps_ok (sdeps (schedule s)) \<and> needs (sdeps (schedule s)) = E \<and> length (results s) = qty
      \<and> rejects ?st1 \<subseteq> rejects s"
    have R1: "rejects ?st1 = insert ix (rejects st)" "ix \<notin> rejects st"
      using Suc.prems Fulfilled by (simp_all add: rejects_update) (simp add: rejects_def)
    have sd: "sdeps (schedule ?st1) = sdeps (schedule st)" by (simp add: cancel_def)
    have P1: "?P ?st1" using Suc.prems sd by simp
    have cands: "set (dependents ix (schedule ?st1)) = {x. (x, ix) \<in> E}"
      using set_dependents [of "schedule ?st1" ix] Suc.prems(1,2) sd by (simp add: deps_ok_def)
    have "\<exists>st'. failEach (\<lambda>c. failTaskAndAncestors fuel mk c (mk ix reason)) (dependents ix (schedule ?st1)) ?st1 = Some st'
        \<and> fails_to E ?st1 (set (dependents ix (schedule ?st1))) st'"
    proof (rule failEach_fails_to [where P = ?P, OF _ _ P1])
      fix c s assume c: "c \<in> set (dependents ix (schedule ?st1))" and s: "?P s"
      have "card (rejects ?st1) \<le> card (rejects s)" using s by (intro card_mono) simp_all
      then show "\<exists>st'. failTaskAndAncestors fuel mk c (mk ix reason) s = Some st' \<and> fails_to E s {c} st'"
        using c cands range s Suc.prems(5) R1 by (intro Suc.IH) auto
    next
      fix s N s' assume "?P s" "fails_to E s N s'"
      then show "?P s'" using fails_toD [of E s N s'] by auto
    qed
    then obtain st' where st': "failEach (\<lambda>c. failTaskAndAncestors fuel mk c (mk ix reason)) (dependents ix (schedule ?st1)) ?st1 = Some st'"
      "fails_to E ?st1 {x. (x, ix) \<in> E} st'"
      using cands by auto
    note D = fails_toD [OF st'(2)]
    have "todo (schedule st') = filter (\<lambda>x. x \<notin> rejects st' - rejects st) (todo (schedule st))"
      using D(7,9) R1 by (auto simp: cancel_def removeAll_filter_not_eq intro!: filter_cong)
    then have "st' = st\<lparr>schedule := (schedule st)\<lparr>todo := filter (\<lambda>x. x \<notin> rejects st' - rejects st) (todo (schedule st))\<rparr>,
        results := results st'\<rparr>"
      using D sd by (intro job_state.equality schedule.equality) simp_all
    moreover have "(x, ix) \<in> E\<^sup>* \<and> (\<forall>y. (y, x) \<in> E \<longrightarrow> y \<in> rejects st')" if "x \<in> rejects st' - rejects st" for x
    proof (cases "x = ix")
      case True
      with D(10) show ?thesis by auto
    next
      case False
      with that R1 st'(2) have "(\<exists>n \<in> {x. (x, ix) \<in> E}. (x, n) \<in> E\<^sup>*) \<and> (\<forall>y. (y, x) \<in> E \<longrightarrow> y \<in> rejects st')"
        unfolding fails_to_def by blast
      then show ?thesis by (auto intro: rtrancl_into_rtrancl)
    qed
    ultimately have "fails_to E st {ix} st'" using D R1 unfolding fails_to_def by auto
    with st'(1) Fulfilled show ?thesis by (simp add: Let_def)
  qed
qed

lemma failTask_ok:
  assumes "E \<subseteq> {..<qty} \<times> {..<qty}" "deps_ok (sdeps (schedule st))" "needs (sdeps (schedule st)) = E"
    "length (results st) = qty" "ix < qty"
  obtains st' where "failTask mk ix reason st = Some st'" "fails_to E (st\<lparr>failed := failed st @ [ix]\<rparr>) {ix} st'"
proof -
  let ?st = "st\<lparr>failed := failed st @ [ix]\<rparr>"
  have "\<exists>st'. failTaskAndAncestors (Suc qty) mk ix reason ?st = Some st' \<and> fails_to E ?st {ix} st'"
    by (rule failTaskAndAncestors_ok [OF assms(1)]) (use assms in simp_all)
  with that assms(4) show thesis by (auto simp: failTask_def)
qed

section \<open>The invariant of a run\<close>

definition started_set :: "'r job_state \<Rightarrow> nat set" where
  "started_set st = set (map fst (started st))"

text \<open>The tasks whose completion the schedule has been told of.\<close>

definition completed :: "'r job_state \<Rightarrow> nat set" where
  "completed st = started_set st - set (running st) - rejects st"

text \<open>\<open>T\<close> are the tasks not started yet: those in \<open>todo\<close> and those claimed by \<open>ready\<close>.\<close>

definition run_inv :: "nat \<Rightarrow> (nat \<times> nat) set \<Rightarrow> nat set \<Rightarrow> 'r job_state \<Rightarrow> bool" where
  "run_inv qty D T st \<longleftrightarrow>
     deps_ok (sdeps (schedule st)) \<and> length (results st) = qty \<and>
     needs (sdeps (schedule st)) = {(x, d) \<in> D. d \<notin> completed st} \<and>
     T \<union> started_set st \<union> rejects st = {..<qty} \<and>
     T \<inter> (started_set st \<union> rejects st) = {} \<and> distinct (map fst (started st)) \<and>
     distinct (running st) \<and> set (running st) \<subseteq> started_set st \<and>
     distinct (settled st) \<and> set (settled st) \<subseteq> set (running st) \<and>
     (\<forall>x \<in> started_set st. D `` {x} \<subseteq> completed st) \<and>
     set (failed st) \<subseteq> started_set st \<and>
     rejects st = {x. \<exists>y \<in> set (failed st). (x, y) \<in> D\<^sup>*}"

lemma run_invD:
  assumes "run_inv qty D T st"
  shows "deps_ok (sdeps (schedule st))" "length (results st) = qty"
    "needs (sdeps (schedule st)) = {(x, d) \<in> D. d \<notin> completed st}"
    "T \<union> started_set st \<union> rejects st = {..<qty}" "T \<inter> (started_set st \<union> rejects st) = {}"
    "distinct (map fst (started st))" "distinct (running st)" "set (running st) \<subseteq> started_set st"
    "distinct (settled st)" "set (settled st) \<subseteq> set (running st)"
    "\<forall>x \<in> started_set st. D `` {x} \<subseteq> completed st" "set (failed st) \<subseteq> started_set st"
    "rejects st = {x. \<exists>y \<in> set (failed st). (x, y) \<in> D\<^sup>*}"
  using assms unfolding run_inv_def by - (elim conjE, assumption)+

lemma run_inv_start:
  fixes r :: "nat list"
  assumes inv: "run_inv qty D T st" and c: "c \<in> T" "\<forall>d. (c, d) \<notin> needs (sdeps (schedule st))"
  defines "st1 \<equiv> st\<lparr>started := started st @ [(c, r)], running := running st @ [c]\<rparr>"
  shows "run_inv qty D (T - {c}) st1" "completed st1 = completed st"
proof -
  note I = run_invD [OF inv]
  have S: "started_set st1 = insert c (started_set st)" "rejects st1 = rejects st" "c \<notin> started_set st" "c \<notin> rejects st"
    using c(1) I(5) by (auto simp: st1_def started_set_def rejects_def)
  then show C: "completed st1 = completed st"
    by (auto simp: completed_def) (auto simp: st1_def)
  have "D `` {c} \<subseteq> completed st" using c(2) I(3) by auto
  with I(11) have "\<forall>x \<in> started_set st1. D `` {x} \<subseteq> completed st1" using C S(1) by auto
  moreover have "T - {c} \<union> started_set st1 \<union> rejects st1 = {..<qty}" using I(4) S c(1) by auto
  moreover have "(T - {c}) \<inter> (started_set st1 \<union> rejects st1) = {}" using I(5) S by auto
  moreover have "set (running st1) \<subseteq> started_set st1" "set (failed st1) \<subseteq> started_set st1"
    using I(8,12) S(1) by (auto simp: st1_def)
  ultimately show "run_inv qty D (T - {c}) st1"
    unfolding run_inv_def using I C S
    by (auto simp: st1_def started_set_def)
qed

lemma run_inv_fail:
  assumes inv: "run_inv qty D T st" and ix: "ix \<in> set (running st)"
    and f: "fails_to (needs (sdeps (schedule st))) (st\<lparr>failed := failed st @ [ix]\<rparr>) {ix} st'"
  shows "run_inv qty D (T - (rejects st' - rejects st)) st'" "completed st' = completed st"
    "\<And>x. x \<in> rejects st' - rejects st \<Longrightarrow> x = ix \<or> (\<exists>d. (x, d) \<in> needs (sdeps (schedule st)))"
proof -
  note I = run_invD [OF inv]
  let ?E = "needs (sdeps (schedule st))" and ?new = "rejects st' - rejects st"
  have r0: "rejects (st\<lparr>failed := fs\<rparr>) = rejects st" for fs by (simp add: rejects_def)
  note D = fails_toD [OF f, unfolded r0, simplified]
  have new: "(x, ix) \<in> ?E\<^sup>*" "\<And>y. (y, x) \<in> ?E \<Longrightarrow> y \<in> rejects st'" if "x \<in> ?new" for x
    using f that unfolding fails_to_def r0 by auto
  show lim: "x = ix \<or> (\<exists>d. (x, d) \<in> ?E)" if "x \<in> ?new" for x
    using new(1) [OF that] by (auto elim: converse_rtranclE)
  have open_: "x \<notin> completed st" if "x \<in> ?new" for x
  proof
    assume x: "x \<in> completed st"
    then have "x \<noteq> ix" "x \<in> started_set st" using ix by (auto simp: completed_def)
    with lim [OF that] obtain d where "(x, d) \<in> ?E" by auto
    with I(3,11) \<open>x \<in> started_set st\<close> show False by auto
  qed
  have closed: "x \<in> rejects st" if "(x, y) \<in> D" "y \<in> rejects st" for x y
    using that I(13) by (auto intro: converse_rtrancl_into_rtrancl)
  have sub: "?E \<subseteq> D" using I(3) by auto
  have up: "x \<in> rejects st'" if "(x, ix) \<in> D\<^sup>*" for x
    using that
  proof (induction rule: converse_rtrancl_induct)
    case base
    show ?case using D(10) by simp
  next
    case (step x y)
    show ?case
    proof (cases "y \<in> rejects st")
      case True
      with closed [OF step(1)] D(9) show ?thesis by auto
    next
      case False
      with step(3) have y: "y \<in> ?new" by simp
      with open_ step(1) I(3) have "(x, y) \<in> ?E" by auto
      with new(2) [OF y] show ?thesis by simp
    qed
  qed
  have R: "rejects st' = rejects st \<union> {x. (x, ix) \<in> D\<^sup>*}"
    using up D(9) new(1) rtrancl_mono [OF sub] by blast
  have S: "started_set st' = started_set st" using D(3) by (simp add: started_set_def)
  show C: "completed st' = completed st"
    using open_ D(2,9) S by (auto simp: completed_def)
  have "rejects st' \<subseteq> {..<qty}" using D(8) I(2) by (auto simp: rejects_def)
  then have "(T - ?new) \<union> started_set st' \<union> rejects st' = {..<qty}" "(T - ?new) \<inter> (started_set st' \<union> rejects st') = {}"
    using I(4,5) S D(9) by auto
  moreover have "rejects st' = {x. \<exists>y \<in> set (failed st'). (x, y) \<in> D\<^sup>*}"
    using R I(13) D(4) by auto
  moreover have "set (failed st') \<subseteq> started_set st'" using I(8,12) ix D(4) S by auto
  moreover have "\<forall>x \<in> started_set st'. D `` {x} \<subseteq> completed st'" using I(11) S C by simp
  ultimately show "run_inv qty D (T - ?new) st'"
    unfolding run_inv_def C S using I D by auto
qed

lemma fails_to_running:
  assumes "fails_to E st N st'"
  shows "fails_to E (st\<lparr>running := r\<rparr>) N (st'\<lparr>running := r\<rparr>)"
proof -
  have r0: "rejects (s\<lparr>running := r\<rparr>) = rejects s" for s :: "'a job_state" by (simp add: rejects_def)
  note D = fails_toD [OF assms]
  have "st'\<lparr>running := r\<rparr> = st\<lparr>running := r, schedule := (schedule st)\<lparr>todo :=
      filter (\<lambda>x. x \<notin> rejects st' - rejects st) (todo (schedule st))\<rparr>, results := results st'\<rparr>"
    using D by (intro job_state.equality schedule.equality) simp_all
  then show ?thesis using assms unfolding fails_to_def r0 by simp
qed

text \<open>Starting a task, whether or not its call throws.\<close>

lemma startTask_ok:
  assumes D: "D \<subseteq> {..<qty} \<times> {..<qty}" and inv: "run_inv qty D T st"
    and c: "c \<in> T" "\<forall>d. (c, d) \<notin> needs (sdeps (schedule st))"
  shows "\<exists>st' new. startTask mk throws c st = Some st' \<and> run_inv qty D (T - {c} - new) st' \<and>
    (\<forall>x \<in> new. x = c \<or> (\<exists>d. (x, d) \<in> needs (sdeps (schedule st)))) \<and>
    sdeps (schedule st') = sdeps (schedule st) \<and> todo (schedule st') = filter (\<lambda>x. x \<notin> new) (todo (schedule st)) \<and>
    running st' = running st @ [c] \<and> settled st' = settled st"
proof -
  let ?st1 = "st\<lparr>started := started st @ [(c, running st @ [c])]\<rparr>"
  let ?st2 = "st\<lparr>started := started st @ [(c, running st @ [c])], running := running st @ [c]\<rparr>"
  note I = run_invD [OF inv]
  note start = run_inv_start [OF inv c, of "running st @ [c]"]
  have fresh: "c \<notin> set (running st)" "c < qty" using c(1) I(4,5,8) by auto
  show ?thesis
  proof (cases "throws c")
    case None
    with start(1) fresh show ?thesis
      by (intro exI [of _ ?st2] exI [of _ "{}"]) (simp add: startTask_def add_to_set_def)
  next
    case (Some reason)
    have "needs (sdeps (schedule ?st1)) \<subseteq> {..<qty} \<times> {..<qty}" using D I(3) by auto
    then obtain st' where st': "failTask mk c reason ?st1 = Some st'"
      "fails_to (needs (sdeps (schedule ?st1))) (?st1\<lparr>failed := failed ?st1 @ [c]\<rparr>) {c} st'"
      by (rule failTask_ok [OF _ _ refl]) (use I fresh in simp_all)
    let ?st3 = "st'\<lparr>running := running st @ [c]\<rparr>" and ?new = "rejects st' - rejects st"
    have f: "fails_to (needs (sdeps (schedule ?st2))) (?st2\<lparr>failed := failed ?st2 @ [c]\<rparr>) {c} ?st3"
    proof -
      have eq: "?st2\<lparr>failed := failed ?st2 @ [c]\<rparr> = ?st1\<lparr>failed := failed ?st1 @ [c], running := running st @ [c]\<rparr>"
        by (rule job_state.equality) simp_all
      then show ?thesis using fails_to_running [OF st'(2), of "running st @ [c]"] by (subst eq) simp
    qed
    have rj: "rejects ?st3 - rejects ?st2 = ?new" by (simp add: rejects_def)
    note after = run_inv_fail [OF start(1) _ f, unfolded rj]
    note D' = fails_toD [OF f]
    have "startTask mk throws c st = Some ?st3"
      using Some st'(1) fresh fails_toD(2) [OF st'(2)] by (simp add: startTask_def add_to_set_def)
    moreover have "todo (schedule ?st3) = filter (\<lambda>x. x \<notin> ?new) (todo (schedule st))"
      using D'(7) by (simp add: rejects_def)
    ultimately show ?thesis
      using after D' by (intro exI [of _ ?st3] exI [of _ ?new]) simp
  qed
qed

lemma startTasks_ok:
  assumes D: "D \<subseteq> {..<qty} \<times> {..<qty}"
  shows "run_inv qty D (set cs \<union> set (todo (schedule st))) st \<Longrightarrow> distinct cs \<Longrightarrow> set cs \<inter> set (todo (schedule st)) = {}
    \<Longrightarrow> \<forall>c \<in> set cs. \<forall>d. (c, d) \<notin> needs (sdeps (schedule st)) \<Longrightarrow>
    \<exists>st' P. failEach (startTask mk throws) cs st = Some st' \<and> run_inv qty D (set (todo (schedule st'))) st' \<and>
      todo (schedule st') = filter P (todo (schedule st)) \<and> running st' = running st @ cs \<and> settled st' = settled st"
proof (induction cs arbitrary: st)
  case Nil
  then show ?case by (auto intro: exI [of _ "\<lambda>_. True"])
next
  case (Cons c cs)
  obtain st1 new where st1: "startTask mk throws c st = Some st1"
    "run_inv qty D (set (c # cs) \<union> set (todo (schedule st)) - {c} - new) st1"
    "\<forall>x \<in> new. x = c \<or> (\<exists>d. (x, d) \<in> needs (sdeps (schedule st)))" "sdeps (schedule st1) = sdeps (schedule st)"
    "todo (schedule st1) = filter (\<lambda>x. x \<notin> new) (todo (schedule st))" "running st1 = running st @ [c]" "settled st1 = settled st"
    using startTask_ok [OF D Cons.prems(1), of c mk throws] Cons.prems(4) by auto
  have keep: "set cs \<inter> new = {}" using st1(3) Cons.prems(2,4) by auto
  then have "set (c # cs) \<union> set (todo (schedule st)) - {c} - new = set cs \<union> set (todo (schedule st1))"
    using Cons.prems(2,3) st1(5) by auto
  with st1(2) have r1: "run_inv qty D (set cs \<union> set (todo (schedule st1))) st1" by simp
  have r2: "distinct cs" "set cs \<inter> set (todo (schedule st1)) = {}" "\<forall>c \<in> set cs. \<forall>d. (c, d) \<notin> needs (sdeps (schedule st1))"
    using Cons.prems(2-4) st1(4,5) by auto
  obtain st' P where "failEach (startTask mk throws) cs st1 = Some st'" "run_inv qty D (set (todo (schedule st'))) st'"
    "todo (schedule st') = filter P (todo (schedule st1))" "running st' = running st1 @ cs" "settled st' = settled st1"
    using Cons.IH [OF r1 r2] by blast
  then show ?case using st1 by (intro exI [of _ st'] exI [of _ "\<lambda>x. x \<notin> new \<and> P x"]) simp
qed

section \<open>Every step of a run\<close>

definition job_inv :: "nat \<Rightarrow> (nat \<times> nat) set \<Rightarrow> 'r job_state \<Rightarrow> bool" where
  "job_inv qty D st \<longleftrightarrow>
     run_inv qty D (set (todo (schedule st))) st \<and> distinct (todo (schedule st)) \<and>
     (phase st = AwaitingAny \<longrightarrow> running st \<noteq> []) \<and>
     (phase st = Returned \<longrightarrow> todo (schedule st) = [] \<and> running st = []) \<and>
     (\<forall>e. phase st \<noteq> Thrown e)"

lemma run_inv_schedule [simp]:
  "run_inv qty D T (st\<lparr>schedule := (schedule st)\<lparr>todo := ts\<rparr>\<rparr>) \<longleftrightarrow> run_inv qty D T st"
  "run_inv qty D T (st\<lparr>phase := p\<rparr>) \<longleftrightarrow> run_inv qty D T st"
  by (simp_all add: run_inv_def started_set_def completed_def rejects_def)

text \<open>A waiting task with no other task ready or running would start a cycle.\<close>

lemma some_task_ready:
  assumes inv: "run_inv qty D T st" and D: "D \<subseteq> {..<qty} \<times> {..<qty}" "acyclic D"
    and idle: "running st = []" "T \<noteq> {}"
  shows "\<exists>x \<in> T. \<forall>d. (x, d) \<notin> needs (sdeps (schedule st))"
proof -
  note I = run_invD [OF inv]
  have "finite D" using D(1) by (rule finite_subset) simp
  then have "wf (D\<inverse>)" using D(2) by (rule finite_acyclic_wf_converse)
  then obtain x where x: "x \<in> T" "\<And>d. (d, x) \<in> D\<inverse> \<Longrightarrow> d \<notin> T"
    using idle(2) by (meson all_not_in_conv wf_eq_minimal)
  have "d \<in> completed st" if "(x, d) \<in> D" for d
  proof -
    have "d \<notin> T" using x(2) that by simp
    moreover have "d < qty" using that D(1) by auto
    moreover have "d \<notin> rejects st"
    proof
      assume "d \<in> rejects st"
      with that I(13) have "x \<in> rejects st" by (auto intro: converse_rtrancl_into_rtrancl)
      with x(1) I(5) show False by auto
    qed
    ultimately show ?thesis using I(4) idle(1) by (auto simp: completed_def)
  qed
  with x(1) I(3) show ?thesis by auto
qed

text \<open>What is left to do; every step does some of it.\<close>

definition job_work :: "'r job_state \<Rightarrow> nat" where
  "job_work st = 4 * length (todo (schedule st)) + 3 * length (running st) - length (settled st)
     + (if phase st = LoopHead then 1 else 0)"

lemma settled_le: "run_inv qty D T st \<Longrightarrow> length (settled st) \<le> length (running st)"
  using card_mono [of "set (running st)" "set (settled st)"] run_invD(7,9,10) [of qty D T st]
  by (simp add: distinct_card)

lemma loopHead_ok:
  assumes inv: "job_inv qty D st" and D: "D \<subseteq> {..<qty} \<times> {..<qty}" "acyclic D" and ph: "phase st = LoopHead"
  shows "\<exists>st'. loopHead mk throws st = Some st' \<and> job_inv qty D st' \<and> job_work st' < job_work st"
proof (cases "pendingTasks (schedule st) \<or> length (running st) > 0")
  case False
  then show ?thesis using inv ph
    by (auto simp: loopHead_def job_inv_def pendingTasks_def job_work_def)
next
  case True
  have run: "run_inv qty D (set (todo (schedule st))) st" and dist: "distinct (todo (schedule st))"
    using inv by (simp_all add: job_inv_def)
  note I = run_invD [OF run]
  obtain r sched where rd: "ready (schedule st) = (r, sched)" by (cases "ready (schedule st)")
  let ?t = "todo (schedule st)"
  have r: "r = filter (\<lambda>ix. map_of (sdeps (schedule st)) ix = None) ?t"
    using rd by (simp add: ready_def Let_def)
  have "sched = snd (ready (schedule st))" using rd by simp
  then have sched: "sched = (schedule st)\<lparr>todo := filter (\<lambda>ix. ix \<notin> set r) ?t\<rparr>"
    by (simp only: ready_def Let_def snd_conv r)
  have free: "\<forall>c \<in> set r. \<forall>d. (c, d) \<notin> needs (sdeps (schedule st))"
    using ready_iff [OF I(1)] r by simp
  let ?st = "st\<lparr>schedule := sched\<rparr>"
  have "set r \<union> set (todo sched) = set ?t" using r sched by auto
  then have r1: "run_inv qty D (set r \<union> set (todo (schedule ?st))) ?st"
    using run by (simp add: sched)
  have r2: "distinct r" "set r \<inter> set (todo (schedule ?st)) = {}" "\<forall>c \<in> set r. \<forall>d. (c, d) \<notin> needs (sdeps (schedule ?st))"
    using dist r sched free by auto
  have len: "length r + length (todo sched) = length ?t"
  proof -
    have "filter (\<lambda>ix. ix \<notin> set r) ?t = filter (\<lambda>ix. \<not> map_of (sdeps (schedule st)) ix = None) ?t"
      using r by (intro filter_cong) auto
    then show ?thesis
      using sum_length_filter_compl [of "\<lambda>ix. map_of (sdeps (schedule st)) ix = None" ?t] r sched by simp
  qed
  have go: "\<not> (r = [] \<and> running st = [])"
  proof
    assume "r = [] \<and> running st = []"
    moreover from this True have "set ?t \<noteq> {}" by (simp add: pendingTasks_def)
    ultimately show False using some_task_ready [OF run D] ready_iff [OF I(1)] r by (auto simp: filter_empty_conv)
  qed
  obtain st' P where st': "failEach (startTask mk throws) r ?st = Some st'" "run_inv qty D (set (todo (schedule st'))) st'"
    "todo (schedule st') = filter P (todo sched)" "running st' = running st @ r" "settled st' = settled st"
    using startTasks_ok [OF D(1) r1 r2, of mk throws] by auto
  let ?st' = "st'\<lparr>phase := AwaitingAny\<rparr>"
  have "loopHead mk throws st = Some ?st'"
    using True rd go st'(1,4) by (auto simp: loopHead_def)
  moreover have "job_inv qty D ?st'"
    using st' go dist sched by (auto simp: job_inv_def)
  moreover have "length (todo (schedule st')) \<le> length (todo sched)" using st'(3) by simp
  then have "job_work ?st' < job_work st"
    using st'(4,5) len ph settled_le [OF run] by (simp add: job_work_def)
  ultimately show ?thesis by blast
qed

lemma taskDone_sets [simp]:
  "started_set (taskDone ix st) = started_set st" "rejects (taskDone ix st) = rejects st"
  "completed (taskDone ix st) = completed st"
  by (simp_all add: taskDone_def started_set_def rejects_def completed_def)

lemma taskDone_ok:
  assumes inv: "job_inv qty D st" and ph: "phase st = AwaitingAny" and ix: "ix \<in> set (running st) - set (settled st)"
  shows "job_inv qty D (taskDone ix st) \<and> job_work (taskDone ix st) < job_work st"
proof -
  have run: "run_inv qty D (set (todo (schedule st))) st" using inv by (simp add: job_inv_def)
  have run': "run_inv qty D (set (todo (schedule st))) (taskDone ix st)"
    using run_invD [OF run] ix
    unfolding run_inv_def taskDone_sets by (simp add: taskDone_def)
  then have "job_inv qty D (taskDone ix st)" using inv by (simp add: job_inv_def taskDone_def)
  moreover have "job_work (taskDone ix st) < job_work st"
    using settled_le [OF run'] ph by (simp add: job_work_def taskDone_def)
  ultimately show ?thesis ..
qed

lemma taskRejected_ok:
  assumes inv: "job_inv qty D st" and D: "D \<subseteq> {..<qty} \<times> {..<qty}" and ph: "phase st = AwaitingAny"
    and ix: "ix \<in> set (running st) - set (settled st)"
  shows "\<exists>st'. taskRejected mk ix reason st = Some st' \<and> job_inv qty D st' \<and> job_work st' < job_work st"
proof -
  have run: "run_inv qty D (set (todo (schedule st))) st" using inv by (simp add: job_inv_def)
  note I = run_invD [OF run]
  have "needs (sdeps (schedule st)) \<subseteq> {..<qty} \<times> {..<qty}" using D I(3) by auto
  then obtain st1 where st1: "failTask mk ix reason st = Some st1"
    "fails_to (needs (sdeps (schedule st))) (st\<lparr>failed := failed st @ [ix]\<rparr>) {ix} st1"
    by (rule failTask_ok [OF _ I(1) refl I(2), where mk = mk and ix = ix and reason = reason]) (use I(4,8) ix in auto)
  note F = fails_toD [OF st1(2)]
  have r0: "rejects (st\<lparr>failed := fs\<rparr>) = rejects st" for fs by (simp add: rejects_def)
  have t: "todo (schedule st1) = filter (\<lambda>x. x \<notin> rejects st1 - rejects st) (todo (schedule st))"
    using F(7) by (simp add: r0)
  have "set (todo (schedule st1)) = set (todo (schedule st)) - (rejects st1 - rejects st)" by (auto simp: t)
  moreover have "run_inv qty D (set (todo (schedule st)) - (rejects st1 - rejects st)) st1"
    using run_inv_fail(1) [OF run _ st1(2)] ix by simp
  ultimately have "run_inv qty D (set (todo (schedule st1))) st1" by simp
  then have inv1: "job_inv qty D st1"
    using inv F(2,6) t ph by (auto simp: job_inv_def)
  have "length (todo (schedule st1)) \<le> length (todo (schedule st))" by (simp add: t)
  then have "job_work st1 \<le> job_work st" using F(2,5,6) by (simp add: job_work_def)
  moreover have "job_inv qty D (taskDone ix st1) \<and> job_work (taskDone ix st1) < job_work st1"
    by (rule taskDone_ok [OF inv1]) (use F(2,5,6) ix ph in simp_all)
  ultimately show ?thesis using st1(1) by (simp add: taskRejected_def)
qed

lemma resumeLoop_ok:
  assumes inv: "job_inv qty D st" and ph: "phase st = AwaitingAny" and ix: "ix \<in> set (running st) \<inter> set (settled st)"
  shows "job_inv qty D (resumeLoop ix st) \<and> job_work (resumeLoop ix st) < job_work st"
proof -
  have run: "run_inv qty D (set (todo (schedule st))) st" using inv by (simp add: job_inv_def)
  note I = run_invD [OF run]
  let ?st = "resumeLoop ix st"
  have ixS: "ix \<in> started_set st" "ix < length (results st)" using ix I(2,4,8) by auto
  have F: "running ?st = removeAll ix (running st)" "settled ?st = removeAll ix (settled st)" "phase ?st = LoopHead"
    "results ?st = results st" "started ?st = started st" "failed ?st = failed st"
    "todo (schedule ?st) = todo (schedule st)" "started_set ?st = started_set st" "rejects ?st = rejects st"
    by (simp_all add: resumeLoop_def Let_def complete_def started_set_def rejects_def split: task_result.split)
  have C: "completed ?st = completed st \<union> ({ix} - rejects st)"
    using ixS by (auto simp: completed_def F)
  have sd: "deps_ok (sdeps (schedule ?st)) \<and> needs (sdeps (schedule ?st)) = {(x, d) \<in> D. d \<notin> completed ?st}"
  proof (cases "results st ! ix")
    case Fulfilled
    then have "ix \<notin> rejects st" "schedule ?st = complete ix (schedule st)"
      by (simp_all add: rejects_def resumeLoop_def Let_def)
    then show ?thesis using complete_needs [OF I(1), of ix] I(3) C by auto
  next
    case (Rejected r)
    then have "ix \<in> rejects st" "schedule ?st = schedule st"
      using ixS by (simp_all add: rejects_def resumeLoop_def Let_def)
    then show ?thesis using I(1,3) C by auto
  qed
  have "set (settled ?st) \<subseteq> set (running ?st)" "set (running ?st) \<subseteq> started_set ?st"
    "\<forall>x \<in> started_set ?st. D `` {x} \<subseteq> completed ?st"
    using I(8,10,11) C by (auto simp: F)
  then have run': "run_inv qty D (set (todo (schedule ?st))) ?st"
    unfolding run_inv_def using sd I by (simp add: F distinct_removeAll)
  then have "job_inv qty D ?st" using inv by (simp add: job_inv_def F)
  moreover have "length (removeAll ix (running st)) + 1 = length (running st)"
    "length (removeAll ix (settled st)) + 1 = length (settled st)"
    using ix I(7,9) length_pos_if_in_set [of ix "running st"] length_pos_if_in_set [of ix "settled st"]
    by (simp_all add: distinct_remove1_removeAll [symmetric] length_remove1)
  then have "job_work ?st < job_work st"
    using ph settled_le [OF run] by (simp add: job_work_def F)
  ultimately show ?thesis ..
qed

definition job_ok :: "job \<Rightarrow> 'r job_state \<Rightarrow> bool" where
  "job_ok j st \<longleftrightarrow> valid_order (taskQty j) (job_order j) \<and> acyclic (declared (job_order j)) \<and>
     job_inv (taskQty j) (declared (job_order j)) st"

lemma job_ok_start:
  assumes "startJob j = Inr st"
  shows "job_ok j st" "job_work st = 4 * taskQty j + 1"
proof -
  obtain order where order: "makeDependencies (taskQty j) (job_order j) = Inr order"
    "st = \<lparr>schedule = \<lparr>sdeps = order, todo = [0..<taskQty j]\<rparr>, running = [], results = replicate (taskQty j) Fulfilled,
      started = [], failed = [], settled = [], phase = LoopHead\<rparr>"
    using assms by (auto simp: startJob_def makeSchedule_def bindr_Inr_iff)
  then have "valid_order (taskQty j) (job_order j)" "acyclic (declared (job_order j))"
    "needs order = declared (job_order j)" "deps_ok order"
    using makeDependencies_cases [of "taskQty j" "job_order j"] by (auto split: if_splits)
  then show "job_ok j st" "job_work st = 4 * taskQty j + 1"
    by (auto simp: job_ok_def job_inv_def run_inv_def order(2) started_set_def completed_def rejects_def job_work_def)
qed

lemma job_step_ok:
  assumes "job_step mk st st'" "job_ok j st"
  shows "job_ok j st' \<and> job_work st' < job_work st"
proof -
  let ?D = "declared (job_order j)"
  have ok: "job_inv (taskQty j) ?D st" "?D \<subseteq> {..<taskQty j} \<times> {..<taskQty j}" "acyclic ?D"
    using assms(2) declared_range by (auto simp: job_ok_def)
  have "job_inv (taskQty j) ?D st' \<and> job_work st' < job_work st"
    using assms(1)
  proof cases
    case (loop_step throws)
    with loopHead_ok [OF ok, of mk throws] show ?thesis by auto
  next
    case (done_step ix)
    with taskDone_ok [OF ok(1), of ix] show ?thesis by simp
  next
    case (reject_step ix reason)
    with taskRejected_ok [OF ok(1,2), of ix mk reason] show ?thesis by auto
  next
    case (resume_step ix)
    with resumeLoop_ok [OF ok(1), of ix] show ?thesis by simp
  qed
  with assms(2) show ?thesis by (simp add: job_ok_def)
qed

interpretation job_run: machine "\<lambda>s. startJob j = Inr s" "job_step mk" "job_ok j" for j mk
  by unfold_locales (auto dest: job_ok_start(1) job_step_ok)

lemma job_steps_bound: "(job_step mk ^^ n) st st' \<Longrightarrow> job_ok j st \<Longrightarrow> job_ok j st' \<and> n + job_work st' \<le> job_work st"
proof (induction n arbitrary: st')
  case (Suc n)
  then obtain st1 where "(job_step mk ^^ n) st st1" "job_step mk st1 st'" by auto
  with Suc job_step_ok [of mk st1 st' j] show ?case by fastforce
qed simp

lemma job_progress:
  assumes "job_ok j st" "phase st \<noteq> Returned"
  shows "\<exists>st'. job_step mk st st'"
proof (cases "phase st")
  case LoopHead
  then have "\<exists>st'. loopHead mk (\<lambda>_. None) st = Some st'"
    using assms(1) loopHead_ok declared_range unfolding job_ok_def by blast
  with LoopHead show ?thesis by (auto intro: job_step.loop_step)
next
  case AwaitingAny
  with assms(1) obtain ix where "ix \<in> set (running st)"
    by (cases "running st") (auto simp: job_ok_def job_inv_def)
  with AwaitingAny show ?thesis
    by (cases "ix \<in> set (settled st)") (auto intro: job_step.done_step job_step.resume_step)
qed (use assms in \<open>auto simp: job_ok_def job_inv_def\<close>)

section \<open>Properties of a run\<close>

text \<open>C23: In every state of a job's run each task was started at most once, and every task
  started has all its declared dependencies started before, finished, and fulfilled, with
  the completion handed to the schedule; so a task is never run before its predecessors.\<close>

theorem tasks_start_in_order:
  assumes "startJob j = Inr st0" "(job_step makeError)\<^sup>*\<^sup>* st0 st"
  shows "distinct (map fst (started st)) \<and> set (running st) \<subseteq> set (map fst (started st)) \<and>
    (\<forall>(x, d) \<in> declared (job_order j). x \<in> set (map fst (started st)) \<longrightarrow>
       d \<in> set (map fst (started st)) - set (running st) \<and> results st ! d = Fulfilled)"
proof -
  have ok: "job_ok j st" by (rule job_run.inv_reachable [OF assms])
  then have run: "run_inv (taskQty j) (declared (job_order j)) (set (todo (schedule st))) st"
    by (simp add: job_ok_def job_inv_def)
  note I = run_invD [OF run]
  have "d \<in> started_set st - set (running st) \<and> results st ! d = Fulfilled"
    if "(x, d) \<in> declared (job_order j)" "x \<in> started_set st" for x d
  proof -
    have "d \<in> completed st" using that I(11) by auto
    moreover have "d < taskQty j" using that(1) ok declared_range by (auto simp: job_ok_def)
    ultimately show ?thesis using I(2) by (auto simp: completed_def rejects_def)
  qed
  then show ?thesis using I(6,8) by (auto simp: started_set_def)
qed

lemma tasks_start_in_order_witness:
  "\<exists>st0 st :: string job_state. startJob \<lparr>taskQty = 2, job_order = [(1, [0])]\<rparr> = Inr st0 \<and>
     (job_step (\<lambda>ix r. r))\<^sup>*\<^sup>* st0 st \<and> phase st = AwaitingAny \<and> started st = [(0, [0])] \<and> distinct (map fst (started st))"
proof -
  let ?j = "\<lparr>taskQty = 2, job_order = [(1, [0])]\<rparr>"
  let ?s0 = "\<lparr>schedule = \<lparr>sdeps = [(1, [0])], todo = [0, 1]\<rparr>, running = [], results = [Fulfilled, Fulfilled],
     started = [], failed = [], settled = [], phase = LoopHead\<rparr> :: string job_state"
  let ?s1 = "\<lparr>schedule = \<lparr>sdeps = [(1, [0])], todo = [1]\<rparr>, running = [0], results = [Fulfilled, Fulfilled],
     started = [(0, [0])], failed = [], settled = [], phase = AwaitingAny\<rparr> :: string job_state"
  have 0: "startJob ?j = Inr ?s0" by code_simp
  have "loopHead (\<lambda>ix r. r) (\<lambda>_. None) ?s0 = Some ?s1" by code_simp
  then have 1: "(job_step (\<lambda>ix r. r))\<^sup>*\<^sup>* ?s0 ?s1" by (intro r_into_rtranclp job_step.loop_step) simp_all
  show ?thesis using tasks_start_in_order [OF 0 1] 0 1 by (intro exI [of _ ?s0] exI [of _ ?s1]) simp
qed

text \<open>C24: Every run of a job whose order is valid ends: it takes at most four steps per task
  and one more, it never throws, and a run that cannot go on, when every started task has
  settled, has returned.\<close>

theorem job_returns:
  assumes "startJob j = Inr st0" "(job_step makeError ^^ n) st0 st"
  shows "n \<le> 4 * taskQty j + 1 \<and> (\<forall>e. phase st \<noteq> Thrown e) \<and>
    ((\<nexists>st'. job_step makeError st st') \<longrightarrow> phase st = Returned)"
proof -
  have b: "job_ok j st \<and> n + job_work st \<le> job_work st0"
    by (rule job_steps_bound [OF assms(2)]) (rule job_ok_start(1) [OF assms(1)])
  then have "\<forall>e. phase st \<noteq> Thrown e" by (simp add: job_ok_def job_inv_def)
  with b job_ok_start(2) [OF assms(1)] job_progress [of j st makeError] show ?thesis by auto
qed

lemma job_returns_witness:
  "\<exists>st0 st :: string job_state. startJob \<lparr>taskQty = 1, job_order = []\<rparr> = Inr st0 \<and>
     (job_step (\<lambda>ix r. r) ^^ 1) st0 st \<and> 1 \<le> 4 * taskQty \<lparr>taskQty = 1, job_order = []\<rparr> + 1 \<and>
     phase st = AwaitingAny \<and> phase st \<noteq> Thrown DependencyLoop"
proof -
  let ?j = "\<lparr>taskQty = 1, job_order = []\<rparr>"
  let ?s0 = "\<lparr>schedule = \<lparr>sdeps = [], todo = [0]\<rparr>, running = [], results = [Fulfilled],
     started = [], failed = [], settled = [], phase = LoopHead\<rparr> :: string job_state"
  let ?s1 = "\<lparr>schedule = \<lparr>sdeps = [], todo = []\<rparr>, running = [0], results = [Fulfilled],
     started = [(0, [0])], failed = [], settled = [], phase = AwaitingAny\<rparr> :: string job_state"
  have 0: "startJob ?j = Inr ?s0" by code_simp
  have "loopHead (\<lambda>ix r. r) (\<lambda>_. None) ?s0 = Some ?s1" by code_simp
  then have "job_step (\<lambda>ix r. r) ?s0 ?s1" by (intro job_step.loop_step) simp_all
  then have 1: "(job_step (\<lambda>ix r. r) ^^ 1) ?s0 ?s1" by (simp only: relpowp_1)
  from job_returns [OF 0 1] 0 1 show ?thesis by (intro exI [of _ ?s0] exI [of _ ?s1]) simp
qed

text \<open>C22: When \<open>runJob\<close> returns there is a result for every task: it is rejected exactly when
  the task or one it transitively depends on threw or rejected, and fulfilled exactly for
  the other tasks, all of which were run; no task behind a failed one was started.\<close>

theorem job_results:
  assumes "startJob j = Inr st0" "(job_step makeError)\<^sup>*\<^sup>* st0 st" "phase st = Returned"
  shows "length (results st) = taskQty j \<and>
    (\<forall>x < taskQty j.
       (results st ! x \<noteq> Fulfilled \<longleftrightarrow> (\<exists>y \<in> set (failed st). (x, y) \<in> (declared (job_order j))\<^sup>*)) \<and>
       (x \<in> set (map fst (started st)) \<longleftrightarrow> \<not> (\<exists>y \<in> set (failed st). (x, y) \<in> (declared (job_order j))\<^sup>+)))"
proof -
  let ?D = "declared (job_order j)"
  have ok: "job_ok j st" by (rule job_run.inv_reachable [OF assms(1,2)])
  then have run: "run_inv (taskQty j) ?D (set (todo (schedule st))) st" by (simp add: job_ok_def job_inv_def)
  have t: "todo (schedule st) = []" using ok assms(3) by (simp add: job_ok_def job_inv_def)
  note I = run_invD [OF run]
  have C: "x \<notin> rejects st" if "x \<in> completed st" for x using that by (simp add: completed_def)
  have blocked: "x \<notin> started_set st" if xy: "(x, y) \<in> ?D\<^sup>+" and y: "y \<in> set (failed st)" for x y
  proof
    assume x: "x \<in> started_set st"
    from xy obtain z where "(x, z) \<in> ?D" "(z, y) \<in> ?D\<^sup>*" by (auto dest: tranclD)
    with x y I(11,13) have "z \<in> completed st" "z \<in> rejects st" by auto
    with C show False by simp
  qed
  have run_all: "x \<in> started_set st" if "x < taskQty j" "\<forall>y \<in> set (failed st). (x, y) \<notin> ?D\<^sup>+" for x
  proof (rule ccontr)
    assume n: "x \<notin> started_set st"
    with that(1) I(4) t have "x \<in> rejects st" by auto
    with I(13) obtain y where "y \<in> set (failed st)" "(x, y) \<in> ?D\<^sup>*" by auto
    with that(2) n I(12) show False by (auto simp: rtrancl_eq_or_trancl)
  qed
  have "results st ! x \<noteq> Fulfilled \<longleftrightarrow> (\<exists>y \<in> set (failed st). (x, y) \<in> ?D\<^sup>*)" if "x < taskQty j" for x
    using I(13) that I(2) by (auto simp: rejects_def set_eq_iff)
  with I(2) blocked run_all show ?thesis by (auto simp: started_set_def)
qed

lemma job_results_witness:
  "\<exists>st0 st :: string job_state. startJob \<lparr>taskQty = 2, job_order = [(1, [0])]\<rparr> = Inr st0 \<and>
     (job_step (\<lambda>ix r. r @ ''!''))\<^sup>*\<^sup>* st0 st \<and> phase st = Returned \<and>
     results st = [Rejected ''no'', Rejected ''no!''] \<and> failed st = [0] \<and>
     results st ! 1 \<noteq> Fulfilled \<and> (1, 0) \<in> (declared [(1, [0])])\<^sup>*"
proof -
  let ?j = "\<lparr>taskQty = 2, job_order = [(1, [0])]\<rparr>"
  let ?mk = "\<lambda>ix r. r @ ''!''"
  let ?s0 = "\<lparr>schedule = \<lparr>sdeps = [(1, [0])], todo = [0, 1]\<rparr>, running = [], results = [Fulfilled, Fulfilled],
     started = [], failed = [], settled = [], phase = LoopHead\<rparr> :: string job_state"
  let ?s1 = "\<lparr>schedule = \<lparr>sdeps = [(1, [0])], todo = [1]\<rparr>, running = [0], results = [Fulfilled, Fulfilled],
     started = [(0, [0])], failed = [], settled = [], phase = AwaitingAny\<rparr> :: string job_state"
  let ?s2 = "?s1\<lparr>schedule := \<lparr>sdeps = [(1, [0])], todo = []\<rparr>, results := [Rejected ''no'', Rejected ''no!''],
     failed := [0], settled := [0]\<rparr>"
  let ?s3 = "?s2\<lparr>running := [], settled := [], phase := LoopHead\<rparr>"
  let ?s4 = "?s3\<lparr>phase := Returned\<rparr>"
  have 0: "startJob ?j = Inr ?s0" by code_simp
  have "loopHead ?mk (\<lambda>_. None) ?s0 = Some ?s1" by code_simp
  then have 1: "job_step ?mk ?s0 ?s1" by (intro job_step.loop_step) simp_all
  have "taskRejected ?mk 0 ''no'' ?s1 = Some ?s2" by code_simp
  then have 2: "job_step ?mk ?s1 ?s2" by (intro job_step.reject_step) simp_all
  have "resumeLoop 0 ?s2 = ?s3" by code_simp
  then have 3: "job_step ?mk ?s2 ?s3" using job_step.resume_step [of ?s2 0 ?mk] by simp
  have "loopHead ?mk (\<lambda>_. None) ?s3 = Some ?s4" by code_simp
  then have 4: "job_step ?mk ?s3 ?s4" by (intro job_step.loop_step) simp_all
  have 5: "(job_step ?mk)\<^sup>*\<^sup>* ?s0 ?s4" using 1 2 3 4 by (meson r_into_rtranclp rtranclp_trans)
  have "phase ?s4 = Returned" by simp
  from job_results [OF 0 5 this]
  have "results ?s4 ! 1 \<noteq> Fulfilled \<longleftrightarrow> (\<exists>y \<in> set (failed ?s4). (1, y) \<in> (declared [(1, [0])])\<^sup>*)"
    unfolding job.simps by (metis one_less_numeral_iff semiring_norm(76))
  then show ?thesis using 0 5 by (intro exI [of _ ?s0] exI [of _ ?s4]) simp
qed

end
