(* ===== verification/DelegationFacts.thy ===== *)
theory DelegationFacts
  imports DelegationLimits JobRuns
begin

text \<open>
  What the checks on a delegated plan guarantee: the projection of its balances is the sum of
  its steps, the final excess over the target is bounded per chain, and no partial execution
  by \<open>runJob\<close> takes a position above both its target and its initial balance.
\<close>

section \<open>Sums of balances\<close>

named_theorems balance_simps \<open>lookups and totals of balance maps\<close>

lemma or_zero_simps [simp, balance_simps]: "or_zero None = 0" "or_zero (Some n) = n"
  by (simp_all add: or_zero_def)

lemma foldl_sum: "foldl (\<lambda>t v. t + or_zero v) k vs = k + sum_list (map or_zero vs)"
  by (induction vs arbitrary: k) simp_all

lemma sumOptional_sum_list [balance_simps]: "sumOptionalBigints vs = sum_list (map or_zero vs)"
  by (simp add: sumOptionalBigints_def foldl_sum)

lemma get_update [simp, balance_simps]: "get_or_zero (AList.update k v m) k' = (if k' = k then v else get_or_zero m k')"
  by (simp add: get_or_zero_def update_conv)

lemma total_update [balance_simps]:
  "distinct (map fst m) \<Longrightarrow> sum_list (map snd (AList.update k v m)) = sum_list (map snd m) - get_or_zero m k + v"
proof (induction m)
  case (Cons e m)
  obtain k' v' where e: "e = (k', v')" by (cases e)
  show ?case
  proof (cases "k = k'")
    case False
    with Cons show ?thesis by (simp add: e get_or_zero_def)
  qed (simp add: e get_or_zero_def)
qed (simp add: get_or_zero_def)

section \<open>Partial executions\<close>

lemma delta_elsewhere: "place \<notin> set (operation_places m) \<Longrightarrow> operation_delta place m = 0"
  by (auto simp: operation_delta_def operation_places_def split: plan_operation.splits)

definition within_target :: "target_allocation \<Rightarrow> observations \<Rightarrow> string \<Rightarrow> int \<Rightarrow> bool" where
  "within_target targetAllocation obs place balance \<longleftrightarrow>
     0 < sumPortions targetAllocation \<and>
     balance * sumPortions targetAllocation \<le> sum_list (map snd (initialBalances obs)) * entry_or_zero targetAllocation place"

lemma within_target_mono: "within_target t obs p b \<Longrightarrow> a \<le> b \<Longrightarrow> within_target t obs p a"
proof -
  assume w: "within_target t obs p b" and "a \<le> b"
  then have "a * sumPortions t \<le> b * sumPortions t" by (intro mult_right_mono) (simp_all add: within_target_def)
  with w show ?thesis unfolding within_target_def by linarith
qed

definition balance_after :: "observations \<Rightarrow> plan_operation list \<Rightarrow> nat set \<Rightarrow> string \<Rightarrow> int" where
  "balance_after obs ops S place = get_or_zero (initialBalances obs) place + (\<Sum>ix \<in> S. operation_delta place (ops ! ix))"

lemma needs_mem: "(x, d) \<in> needs deps \<longleftrightarrow> d \<in> set (deps_of deps x)"
  by (simp add: needs_def)

lemma partial_plan_within_target:
  assumes vet: "vetPartialPlanAllocation t plan obs = Inr u"
    and S: "S \<subseteq> {..<length (operations plan)}"
      "\<forall>x \<in> S. declared (order_of_plan (length (operations plan)) (dec_order plan)) `` {x} \<subseteq> S"
    and place: "isInstrumentId place"
  shows "balance_after obs (operations plan) S place \<le> get_or_zero (initialBalances obs) place \<or>
    within_target t obs place (balance_after obs (operations plan) S place)"
proof (cases "\<forall>ix \<in> S. operation_delta place (operations plan ! ix) = 0")
  case True
  then show ?thesis by (simp add: balance_after_def)
next
  case False
  let ?ops = "operations plan" and ?n = "length (operations plan)"
  let ?ord = "order_of_plan ?n (dec_order plan)"
  let ?w = "\<lambda>ix. operation_delta place (?ops ! ix)"
  obtain deps where deps: "makeDependencies ?n ?ord = Inr deps"
    and each: "\<forall>q \<in> set (filter isInstrumentId (map fst t @ map fst (initialBalances obs) @ concat (map operation_places ?ops))).
      (\<exists>m. maxWeightClosure [0..<?n] (\<lambda>ix. operation_delta q (?ops ! ix)) (deps_of deps) = Inr m \<and>
        (within_target t obs q (get_or_zero (initialBalances obs) q + m) \<or>
         get_or_zero (initialBalances obs) q + m \<le> get_or_zero (initialBalances obs) q))"
    using vet unfolding vetPartialPlanAllocation_def Let_def bindr_Inr_iff for_eachr_Inr requirer_Inr set_to_set
    by (auto simp: within_target_def sumOptional_sum_list case_prod_beta comp_def)
  have v: "valid_order ?n ?ord" "needs deps = declared ?ord"
    using makeDependencies_cases [of ?n ?ord] deps by (auto split: if_splits)
  from False obtain ix where ix: "ix \<in> S" "?w ix \<noteq> 0" by auto
  then have "place \<in> set (operation_places (?ops ! ix))" "?ops ! ix \<in> set ?ops"
    using delta_elsewhere S(1) by auto
  with place each obtain m where m: "maxWeightClosure [0..<?n] ?w (deps_of deps) = Inr m"
    "within_target t obs place (get_or_zero (initialBalances obs) place + m) \<or> m \<le> 0" by fastforce
  have "\<forall>x \<in> set [0..<?n]. set (deps_of deps x) \<subseteq> set [0..<?n]"
    using declared_range [OF v(1)] by (auto simp: needs_mem [symmetric] v(2))
  then have best: "\<forall>C. closed_nodes [0..<?n] (deps_of deps) C \<longrightarrow> (\<Sum>x \<in> C. ?w x) \<le> m"
    using maxWeightClosure_total [of "[0..<?n]" "deps_of deps" ?w] m(1) by auto
  have "closed_nodes [0..<?n] (deps_of deps) S"
  proof -
    have "y \<in> S" if "x \<in> S" "(x, y) \<in> declared ?ord" for x y using S(2) that by blast
    with S(1) show ?thesis by (auto simp: closed_nodes_def needs_mem [symmetric] v(2))
  qed
  with best have "(\<Sum>x \<in> S. ?w x) \<le> m" by blast
  with m(2) show ?thesis
    using within_target_mono [of t obs place "get_or_zero (initialBalances obs) place + m"
        "get_or_zero (initialBalances obs) place + (\<Sum>x \<in> S. ?w x)"]
    unfolding balance_after_def by auto
qed

section \<open>The projection\<close>

lemma get_apply:
  assumes "\<forall>s d a. ops ! ix = Move s d a \<longrightarrow> s \<noteq> d"
  shows "get_or_zero (apply_operation ops ix b) p = get_or_zero b p + operation_delta p (ops ! ix)"
  using assms by (cases "ops ! ix") (simp_all add: apply_operation_def operation_delta_def Let_def)

lemma apply_distinct: "distinct (map fst b) \<Longrightarrow> distinct (map fst (apply_operation ops ix b))"
  by (cases "ops ! ix") (simp_all add: apply_operation_def Let_def distinct_update)

lemma apply_total:
  "distinct (map fst b) \<Longrightarrow> sum_list (map snd (apply_operation ops ix b)) = sum_list (map snd b)"
  by (cases "ops ! ix") (simp_all add: apply_operation_def Let_def total_update distinct_update)

lemma apply_all:
  assumes "\<forall>ix \<in> set ixs. \<forall>s d a. ops ! ix = Move s d a \<longrightarrow> s \<noteq> d"
  shows "get_or_zero (fold (apply_operation ops) ixs b) p = get_or_zero b p + (\<Sum>ix\<leftarrow>ixs. operation_delta p (ops ! ix))"
    "distinct (map fst b) \<Longrightarrow> distinct (map fst (fold (apply_operation ops) ixs b)) \<and>
       sum_list (map snd (fold (apply_operation ops) ixs b)) = sum_list (map snd b)"
  using assms by (induction ixs arbitrary: b) (simp_all add: get_apply apply_distinct apply_total)

text \<open>What a step takes from a place; the debits of a round are their sums.\<close>

definition debit_of :: "string \<Rightarrow> plan_operation \<Rightarrow> int" where
  "debit_of p m = (case m of ClaimRewards _ _ \<Rightarrow> 0 | Move s d a \<Rightarrow> if s = p then a else 0)"

lemma get_debits: "get_or_zero (fold (add_debit ops) ixs ds) p = get_or_zero ds p + (\<Sum>ix\<leftarrow>ixs. debit_of p (ops ! ix))"
proof (induction ixs arbitrary: ds)
  case (Cons ix ixs)
  then show ?case by (cases "ops ! ix") (simp_all add: add_debit_def debit_of_def)
qed simp

lemma debits_distinct: "distinct (map fst ds) \<Longrightarrow> distinct (map fst (fold (add_debit ops) ixs ds))"
proof (induction ixs arbitrary: ds)
  case (Cons ix ixs)
  then show ?case by (cases "ops ! ix") (simp_all add: add_debit_def distinct_update)
qed simp

lemma delta_ge_debit:
  "\<forall>s d a. m = Move s d a \<longrightarrow> 0 \<le> a \<Longrightarrow> - debit_of p m \<le> operation_delta p m"
  by (cases m) (auto simp: debit_of_def operation_delta_def)

lemma complete_all:
  assumes "deps_ok (sdeps s)"
  shows "deps_ok (sdeps (fold complete ixs s)) \<and> todo (fold complete ixs s) = todo s \<and>
    needs (sdeps (fold complete ixs s)) = {(x, d) \<in> needs (sdeps s). d \<notin> set ixs}"
  using assms
proof (induction ixs arbitrary: s)
  case (Cons ix ixs)
  note c = complete_needs [OF Cons.prems, of ix]
  have "todo (complete ix s) = todo s" by (simp add: complete_def)
  with Cons.IH [OF c(1)] c(2) show ?case by auto
qed auto

text \<open>The state of the projection: the tasks still in \<open>todo\<close> are the ones not yet applied.\<close>

definition amounts_ok :: "plan_operation list \<Rightarrow> bool" where
  "amounts_ok ops \<longleftrightarrow> (\<forall>s d a. Move s d a \<in> set ops \<longrightarrow> 0 \<le> a)"

definition no_self_moves :: "plan_operation list \<Rightarrow> bool" where
  "no_self_moves ops \<longleftrightarrow> (\<forall>s d a. Move s d a \<in> set ops \<longrightarrow> s \<noteq> d)"

definition sched_inv :: "nat \<Rightarrow> (nat \<times> nat) set \<Rightarrow> schedule \<Rightarrow> bool" where
  "sched_inv n D s \<longleftrightarrow> deps_ok (sdeps s) \<and> distinct (todo s) \<and> set (todo s) \<subseteq> {..<n} \<and>
     needs (sdeps s) = {(x, d) \<in> D. d \<in> set (todo s)}"

definition bal_inv :: "plan_operation list \<Rightarrow> balances \<Rightarrow> schedule \<Rightarrow> balances \<Rightarrow> bool" where
  "bal_inv ops b0 s b \<longleftrightarrow> distinct (map fst b) \<and> sum_list (map snd b) = sum_list (map snd b0) \<and>
     (\<forall>p. get_or_zero b p = get_or_zero b0 p + (\<Sum>ix \<in> {..<length ops} - set (todo s). operation_delta p (ops ! ix))) \<and>
     (amounts_ok ops \<and> (\<forall>p. 0 \<le> get_or_zero b0 p) \<longrightarrow> (\<forall>p. 0 \<le> get_or_zero b p))"

lemma round_ready:
  assumes inv: "sched_inv n D s" and D: "D \<subseteq> {..<n} \<times> {..<n}" "acyclic D" and pend: "pendingTasks s"
    and rd: "ready s = (r, s1)"
  shows "r \<noteq> []" "distinct r" "set r \<subseteq> set (todo s)" "todo s1 = filter (\<lambda>x. x \<notin> set r) (todo s)" "sdeps s1 = sdeps s"
    "sched_inv n D (fold complete r s1)" "todo (fold complete r s1) = filter (\<lambda>x. x \<notin> set r) (todo s)"
proof -
  have ok: "deps_ok (sdeps s)" "distinct (todo s)" "needs (sdeps s) = {(x, d) \<in> D. d \<in> set (todo s)}" "set (todo s) \<subseteq> {..<n}"
    using inv by (simp_all add: sched_inv_def)
  have r: "r = filter (\<lambda>ix. map_of (sdeps s) ix = None) (todo s)" using rd by (simp add: ready_def Let_def)
  have "s1 = snd (ready s)" using rd by simp
  then have s1: "s1 = s\<lparr>todo := filter (\<lambda>x. x \<notin> set r) (todo s)\<rparr>"
    by (simp only: ready_def Let_def snd_conv r)
  then show t: "todo s1 = filter (\<lambda>x. x \<notin> set r) (todo s)" and sd: "sdeps s1 = sdeps s" by simp_all
  show "distinct r" "set r \<subseteq> set (todo s)" using r ok(2) by auto
  have "finite D" using D(1) by (rule finite_subset) simp
  then have "wf (D\<inverse>)" using D(2) by (rule finite_acyclic_wf_converse)
  moreover have "set (todo s) \<noteq> {}" using pend by (simp add: pendingTasks_def)
  ultimately obtain x where x: "x \<in> set (todo s)" "\<And>d. (d, x) \<in> D\<inverse> \<Longrightarrow> d \<notin> set (todo s)"
    by (meson all_not_in_conv wf_eq_minimal)
  then have "map_of (sdeps s) x = None" using ready_iff [OF ok(1)] ok(3) by auto
  with x(1) show "r \<noteq> []" by (auto simp: r filter_empty_conv)
  have c: "deps_ok (sdeps (fold complete r s1)) \<and> todo (fold complete r s1) = todo s1 \<and>
    needs (sdeps (fold complete r s1)) = {(x, d) \<in> needs (sdeps s1). d \<notin> set r}"
    by (rule complete_all) (simp add: sd ok(1))
  then show td: "todo (fold complete r s1) = filter (\<lambda>x. x \<notin> set r) (todo s)" by (simp add: t)
  show "sched_inv n D (fold complete r s1)"
    unfolding sched_inv_def td using c ok by (auto simp: sd)
qed

lemma projectRound_ok:
  assumes inv: "sched_inv (length ops) D s" and D: "D \<subseteq> {..<length ops} \<times> {..<length ops}" "acyclic D"
    and pend: "pendingTasks s" and b: "bal_inv ops b0 s b" and self: "no_self_moves ops"
  shows "(projectRound ops s b = Inl UnfundedMovement) \<or>
    (\<exists>s' b'. projectRound ops s b = Inr (s', b') \<and> sched_inv (length ops) D s' \<and> bal_inv ops b0 s' b' \<and>
       length (todo s') < length (todo s))"
proof (cases "projectRound ops s b")
  case (Inl e)
  have "for_eachr ds (\<lambda>(q, debit). requirer (f q debit) UnfundedMovement) = Inl e' \<Longrightarrow> e' = UnfundedMovement"
    for ds :: balances and f e'
    by (induction ds) (auto simp: requirer_def split: if_splits)
  with Inl show ?thesis
    by (auto simp: projectRound_def Let_def split: prod.splits) (auto simp: bindr_def split: sum.splits)
next
  case (Inr sb)
  obtain r s1 where rd: "ready s = (r, s1)" by (cases "ready s")
  note R = round_ready [OF inv D pend rd]
  let ?ds = "fold (add_debit ops) r []" and ?b = "fold (apply_operation ops) r b"
  have sb: "sb = (fold complete r s1, ?b)" and funded: "\<forall>(q, debit) \<in> set ?ds. debit \<le> get_or_zero b q"
    using Inr by (auto simp: projectRound_def rd Let_def bindr_Inr_iff)
  have rng: "set r \<subseteq> {..<length ops}" using R(3) inv by (auto simp: sched_inv_def)
  then have sm: "\<forall>ix \<in> set r. \<forall>p d a. ops ! ix = Move p d a \<longrightarrow> p \<noteq> d"
    using self by (metis lessThan_iff no_self_moves_def nth_mem subsetD)
  note A = apply_all [OF sm, of b]
  have set_eq: "{..<length ops} - set (todo (fold complete r s1)) = ({..<length ops} - set (todo s)) \<union> set r"
    using R(3,7) rng by auto
  have sums: "(\<Sum>ix\<leftarrow>r. operation_delta p (ops ! ix)) = (\<Sum>ix \<in> set r. operation_delta p (ops ! ix))" for p
    using R(2) by (rule sum_list_distinct_conv_sum_set)
  have g: "get_or_zero ?b p = get_or_zero b0 p + (\<Sum>ix \<in> {..<length ops} - set (todo (fold complete r s1)). operation_delta p (ops ! ix))" for p
  proof -
    have "({..<length ops} - set (todo s)) \<inter> set r = {}" using R(3) by auto
    then show ?thesis using b by (simp add: A(1) bal_inv_def set_eq sum.union_disjoint sums)
  qed
  have nn: "0 \<le> get_or_zero ?b p" if "amounts_ok ops" "\<forall>p. 0 \<le> get_or_zero b0 p" for p
  proof -
    have b0: "0 \<le> get_or_zero b p" using that b unfolding bal_inv_def by blast
    have "get_or_zero ?ds p \<le> get_or_zero b p"
    proof (cases "map_of ?ds p")
      case None
      with b0 show ?thesis by (simp add: get_or_zero_def)
    next
      case (Some v)
      with funded show ?thesis by (auto simp: get_or_zero_def dest: map_of_SomeD)
    qed
    then have "(\<Sum>ix\<leftarrow>r. debit_of p (ops ! ix)) \<le> get_or_zero b p"
      using get_debits [of ops r "[]" p] by (simp add: get_or_zero_def)
    moreover have "(\<Sum>ix\<leftarrow>r. - debit_of p (ops ! ix)) \<le> (\<Sum>ix\<leftarrow>r. operation_delta p (ops ! ix))"
    proof (rule sum_list_mono)
      fix ix assume "ix \<in> set r"
      then have "ops ! ix \<in> set ops" using rng by auto
      then show "- debit_of p (ops ! ix) \<le> operation_delta p (ops ! ix)"
        using that(1) by (intro delta_ge_debit) (auto simp: amounts_ok_def)
    qed
    ultimately show ?thesis using uminus_sum_list_map [of "\<lambda>ix. debit_of p (ops ! ix)" r] by (simp add: A(1) comp_def)
  qed
  have "bal_inv ops b0 (fold complete r s1) ?b"
    using A(2) b g nn by (simp add: bal_inv_def)
  moreover have "length (todo (fold complete r s1)) < length (todo s)"
  proof -
    obtain x where "x \<in> set r" using R(1) by (cases r) auto
    with R(3) have "x \<in> set (todo s)" "\<not> x \<notin> set r" by auto
    then show ?thesis unfolding R(7) by (rule length_filter_less)
  qed
  ultimately show ?thesis using R(6) Inr sb by auto
qed

lemma projectLoop_ok:
  assumes D: "D \<subseteq> {..<length ops} \<times> {..<length ops}" "acyclic D" and self: "no_self_moves ops"
  shows "sched_inv (length ops) D s \<Longrightarrow> bal_inv ops b0 s b \<Longrightarrow> length (todo s) < fuel \<Longrightarrow>
    projectLoop fuel ops s b = Inl UnfundedMovement \<or>
    (\<exists>b' s'. projectLoop fuel ops s b = Inr b' \<and> bal_inv ops b0 s' b' \<and> todo s' = [])"
proof (induction fuel arbitrary: s b)
  case (Suc fuel)
  show ?case
  proof (cases "pendingTasks s")
    case True
    consider "projectRound ops s b = Inl UnfundedMovement" |
      s' b' where "projectRound ops s b = Inr (s', b')" "sched_inv (length ops) D s'" "bal_inv ops b0 s' b'"
        "length (todo s') < length (todo s)"
      using projectRound_ok [OF Suc.prems(1) D True Suc.prems(2) self] by blast
    then show ?thesis
    proof cases
      case 2
      with Suc.IH [of s' b'] Suc.prems(3) True show ?thesis by simp
    qed (simp add: True)
  next
    case False
    with Suc.prems(2) show ?thesis by (auto simp: pendingTasks_def)
  qed
qed simp

lemma projection_cases:
  assumes self: "no_self_moves (operations plan)"
  shows "projectPlanBalances plan obs \<in> Inl ` {InvalidNodeIndex, DependencyCycle, ObservationMissing, UnfundedMovement} \<or>
    (\<exists>bals. projectPlanBalances plan obs = Inr bals \<and> distinct (map fst bals) \<and>
       sum_list (map snd bals) = sum_list (map snd (initialBalances obs)) \<and>
       (\<forall>p. get_or_zero bals p = balance_after obs (operations plan) {..<length (operations plan)} p) \<and>
       (amounts_ok (operations plan) \<and> (\<forall>p. 0 \<le> get_or_zero (initialBalances obs) p) \<longrightarrow> (\<forall>p. 0 \<le> get_or_zero bals p)))"
proof -
  let ?ops = "operations plan" and ?n = "length (operations plan)"
  let ?ord = "order_of_plan ?n (dec_order plan)"
  let ?chk = "\<lambda>m. case m of ClaimRewards _ _ \<Rightarrow> Inr () | Move s d amt \<Rightarrow> if isInstrumentId d
      then requirer (case map_of (obs_balances obs) d of Some (Some _) \<Rightarrow> True | _ \<Rightarrow> False) ObservationMissing else Inr ()"
  consider (bad) "makeDependencies ?n ?ord = Inl InvalidNodeIndex \<or> makeDependencies ?n ?ord = Inl DependencyCycle"
    | (good) deps where "makeDependencies ?n ?ord = Inr deps" "needs deps = declared ?ord" "deps_ok deps"
        "valid_order ?n ?ord" "acyclic (declared ?ord)"
    using makeDependencies_cases [of ?n ?ord] by (auto split: if_splits)
  then show ?thesis
  proof cases
    case bad
    then show ?thesis by (auto simp: projectPlanBalances_def Let_def makeSchedule_def)
  next
    case good
    let ?s = "\<lparr>sdeps = deps, todo = [0..<?n]\<rparr>"
    have run: "projectPlanBalances plan obs = bindr (for_eachr ?ops ?chk) (\<lambda>_. projectLoop (Suc ?n) ?ops ?s (initialBalances obs))"
      using good(1) by (simp add: projectPlanBalances_def Let_def makeSchedule_def)
    have chk: "for_eachr ms ?chk = Inr () \<or> for_eachr ms ?chk = Inl ObservationMissing" for ms
      by (induction ms) (auto simp: requirer_def split: plan_operation.splits)
    have D: "declared ?ord \<subseteq> {..<?n} \<times> {..<?n}" by (rule declared_range [OF good(4)])
    have "sched_inv ?n (declared ?ord) ?s" using good(2,3) D by (auto simp: sched_inv_def)
    moreover have "bal_inv ?ops (initialBalances obs) ?s (initialBalances obs)"
      by (auto simp: bal_inv_def initialBalances_def atLeast0LessThan)
    ultimately have "projectLoop (Suc ?n) ?ops ?s (initialBalances obs) = Inl UnfundedMovement \<or>
      (\<exists>b' s'. projectLoop (Suc ?n) ?ops ?s (initialBalances obs) = Inr b' \<and> bal_inv ?ops (initialBalances obs) s' b' \<and> todo s' = [])"
      by (intro projectLoop_ok [OF D good(5) self]) simp_all
    then show ?thesis
    proof (elim disjE exE conjE)
      assume "projectLoop (Suc ?n) ?ops ?s (initialBalances obs) = Inl UnfundedMovement"
      then have "projectPlanBalances plan obs = bindr (for_eachr ?ops ?chk) (\<lambda>_. Inl UnfundedMovement)"
        using run by (simp only:)
      with chk [of ?ops] show ?thesis by (elim disjE) (simp_all del: for_eachr_Inr)
    next
      fix b' s' assume b: "projectLoop (Suc ?n) ?ops ?s (initialBalances obs) = Inr b'"
        "bal_inv ?ops (initialBalances obs) s' b'" "todo s' = []"
      from chk [of ?ops] show ?thesis
      proof
        assume "for_eachr ?ops ?chk = Inr ()"
        with run b(1) have "projectPlanBalances plan obs = Inr b'" by simp
        moreover have "{..<?n} - set (todo s') = {..<?n}" using b(3) by simp
        ultimately show ?thesis using b(2) unfolding bal_inv_def balance_after_def by auto
      next
        assume "for_eachr ?ops ?chk = Inl ObservationMissing"
        with run show ?thesis by simp
      qed
    qed
  qed
qed

lemma decoded_move:
  "decodeMovement st = Inr (Move s d a) \<Longrightarrow> s = src st \<and> d = dest st \<and> a = movedAmount st \<and> s \<noteq> d"
  by (auto simp: decodeMovement_def bindr_Inr_iff split: if_splits)

lemma decoded_operations:
  assumes "decodePlan plan = Inr dec"
  shows "length (operations dec) = length (plan_flow plan)" "dec_order dec = plan_order plan"
    "no_self_moves (operations dec)"
    "(\<forall>m \<in> set (plan_flow plan). 0 \<le> movedAmount m) \<Longrightarrow> amounts_ok (operations dec)"
proof -
  have m: "mapr decodeMovement (plan_flow plan) = Inr (operations dec)" and o: "dec_order dec = plan_order plan"
    using assms by (auto simp: decodePlan_def bindr_Inr_iff)
  show l: "length (operations dec) = length (plan_flow plan)" by (rule mapr_Inr_length [OF m])
  show "dec_order dec = plan_order plan" by (rule o)
  have each: "\<exists>st \<in> set (plan_flow plan). decodeMovement st = Inr x" if "x \<in> set (operations dec)" for x
    using that mapr_Inr_nth [OF m] l by (metis in_set_conv_nth)
  note mv = decoded_move
  show "no_self_moves (operations dec)" using each mv unfolding no_self_moves_def by blast
  show "amounts_ok (operations dec)" if "\<forall>m \<in> set (plan_flow plan). 0 \<le> movedAmount m"
    using each mv that unfolding amounts_ok_def by blast
qed

section \<open>The ceilings\<close>

definition excess_over :: "int \<Rightarrow> target_allocation \<Rightarrow> string \<Rightarrow> int \<Rightarrow> int" where
  "excess_over tot t place balance =
     (if balance = 0 then 0 else max 0 (balance * sumPortions t - tot * entry_or_zero t place))"

definition on_chain :: "string \<Rightarrow> string \<Rightarrow> bool" where
  "on_chain chain place \<longleftrightarrow> isInstrumentId place \<and> chainOf place = Inr chain"

definition chain_excess :: "int \<Rightarrow> target_allocation \<Rightarrow> balances \<Rightarrow> string \<Rightarrow> int" where
  "chain_excess tot t bals chain = (\<Sum>(p, b)\<leftarrow>bals. if on_chain chain p then excess_over tot t p b else 0)"

definition chain_slack :: "target_allocation \<Rightarrow> int" where
  "chain_slack t = MAX_CHAIN_ALLOCATION_DIVERGENCE_UUSDC * sumPortions t"

lemma ceilings_loop_ok:
  "ceilings_loop tot (sumPortions t) t bals ex = Inr ex' \<Longrightarrow>
     (\<forall>c. get_or_zero ex' c = get_or_zero ex c + chain_excess tot t bals c) \<and>
     ((\<forall>c. get_or_zero ex c = 0 \<or> get_or_zero ex c \<le> chain_slack t) \<longrightarrow>
      (\<forall>c. get_or_zero ex' c = 0 \<or> get_or_zero ex' c \<le> chain_slack t))"
proof (induction bals arbitrary: ex)
  case (Cons e bals)
  obtain p b where e: "e = (p, b)" by (cases e)
  let ?x = "b * sumPortions t - tot * entry_or_zero t p"
  show ?case
  proof (cases "\<not> isInstrumentId p \<or> b = 0 \<or> ?x \<le> 0")
    case True
    then have ce: "chain_excess tot t (e # bals) c = chain_excess tot t bals c" for c
      by (auto simp: e chain_excess_def on_chain_def excess_over_def)
    have "ceilings_loop tot (sumPortions t) t bals ex = Inr ex'"
      using Cons.prems True by (auto simp: e Let_def bindr_Inr_iff split: if_splits)
    from Cons.IH [OF this] show ?thesis unfolding ce .
  next
    case False
    then obtain chain where chain: "chainOf p = Inr chain" "get_or_zero ex chain + ?x \<le> chain_slack t"
      "ceilings_loop tot (sumPortions t) t bals (AList.update chain (get_or_zero ex chain + ?x) ex) = Inr ex'"
      using Cons.prems by (auto simp: e Let_def bindr_Inr_iff chain_slack_def split: if_splits)
    have "chain_excess tot t (e # bals) c = (if c = chain then ?x else 0) + chain_excess tot t bals c" for c
      using False chain(1) by (auto simp: chain_excess_def e on_chain_def excess_over_def)
    moreover note ih = Cons.IH [OF chain(3)]
    ultimately have sums: "\<forall>c. get_or_zero ex' c = get_or_zero ex c + chain_excess tot t (e # bals) c" by auto
    have "(\<forall>c. get_or_zero ex c = 0 \<or> get_or_zero ex c \<le> chain_slack t) \<Longrightarrow>
        \<forall>c. get_or_zero (AList.update chain (get_or_zero ex chain + ?x) ex) c = 0 \<or>
          get_or_zero (AList.update chain (get_or_zero ex chain + ?x) ex) c \<le> chain_slack t"
      using chain(2) by simp
    with ih sums show ?thesis by blast
  qed
qed (simp add: chain_excess_def)

lemma ceilings_bound:
  assumes "vetAllocationCeilings bals t = Inr u"
  shows "chain_excess (sum_list (map snd bals)) t bals c = 0 \<or> chain_excess (sum_list (map snd bals)) t bals c \<le> chain_slack t"
proof -
  have tot: "sumOptionalBigints (map (\<lambda>(_, b). Some b) bals) = sum_list (map snd bals)"
    by (simp add: sumOptional_sum_list case_prod_beta comp_def)
  with assms obtain ex where "ceilings_loop (sum_list (map snd bals)) (sumPortions t) t bals [] = Inr ex"
    by (auto simp: vetAllocationCeilings_def bindr_Inr_iff)
  note L = ceilings_loop_ok [OF this]
  have z: "get_or_zero [] q = 0" for q :: string by (simp add: get_or_zero_def)
  have "get_or_zero ex c = chain_excess (sum_list (map snd bals)) t bals c"
    using L [THEN conjunct1] by (simp add: z)
  moreover have "get_or_zero ex c = 0 \<or> get_or_zero ex c \<le> chain_slack t"
    using L [THEN conjunct2] z by blast
  ultimately show ?thesis by simp
qed

lemma chain_excess_covers:
  assumes d: "distinct (map fst bals)" and P: "finite P" "\<forall>p \<in> P. on_chain c p"
  shows "(\<Sum>p \<in> P. excess_over tot t p (get_or_zero bals p)) \<le> chain_excess tot t bals c"
proof -
  let ?f = "\<lambda>p. if on_chain c p then excess_over tot t p (get_or_zero bals p) else 0"
  have get: "get_or_zero bals p = b" if "(p, b) \<in> set bals" for p b
    using map_of_is_SomeI [OF d that] by (simp add: get_or_zero_def)
  have out: "?f p = 0" if "p \<notin> set (map fst bals)" for p
  proof -
    have "map_of bals p = None" using that by (simp add: map_of_eq_None_iff)
    then show ?thesis by (simp add: get_or_zero_def excess_over_def)
  qed
  have "(\<Sum>p \<in> P. excess_over tot t p (get_or_zero bals p)) = (\<Sum>p \<in> P. ?f p)"
    using P(2) by (intro sum.cong) auto
  also have "\<dots> = (\<Sum>p \<in> P \<inter> set (map fst bals). ?f p)"
    using out P(1) by (intro sum.mono_neutral_right) auto
  also have "\<dots> \<le> (\<Sum>p \<in> set (map fst bals). ?f p)"
    by (intro sum_mono2) (auto simp: excess_over_def)
  also have "\<dots> = (\<Sum>p\<leftarrow>map fst bals. ?f p)" by (rule sum_list_distinct_conv_sum_set [OF d, symmetric])
  also have "\<dots> = chain_excess tot t bals c"
    unfolding chain_excess_def map_map comp_def
    by (intro arg_cong [where f = sum_list] map_cong refl) (auto simp: get)
  finally show ?thesis .
qed

section \<open>Plans that pass\<close>

definition move_delta :: "string \<Rightarrow> movement \<Rightarrow> int" where
  "move_delta place m = (if dest m = place then movedAmount m else if src m = place then - movedAmount m else 0)"

text \<open>The balance of a place once the steps \<open>S\<close> of the plan have been carried out.\<close>

definition plan_balance :: "observations \<Rightarrow> funds_flow_plan \<Rightarrow> nat set \<Rightarrow> string \<Rightarrow> int" where
  "plan_balance obs plan S place =
     get_or_zero (initialBalances obs) place + (\<Sum>ix \<in> S. move_delta place (plan_flow plan ! ix))"

lemma vetted_plan:
  assumes "vetPlanAllocation t plan obs = Inr u"
  obtains dec bals where "decodePlan plan = Inr dec" "projectPlanBalances dec obs = Inr bals"
    "vetAllocationCeilings bals t = Inr ()" "vetPartialPlanAllocation t dec obs = Inr ()"
    "\<And>S p. S \<subseteq> {..<length (plan_flow plan)} \<Longrightarrow> balance_after obs (operations dec) S p = plan_balance obs plan S p"
proof -
  have "\<exists>dec bals. decodePlan plan = Inr dec \<and> projectPlanBalances dec obs = Inr bals \<and>
      vetAllocationCeilings bals t = Inr () \<and> vetPartialPlanAllocation t dec obs = Inr () \<and>
      (\<forall>m \<in> set (operations dec). (case m of ClaimRewards _ _ \<Rightarrow> Inl PlanNotSupported | Move _ _ _ \<Rightarrow> Inr ()) = Inr ())"
    using assms unfolding vetPlanAllocation_def bindr_Inr_iff for_eachr_Inr by auto
  then obtain dec bals where v: "decodePlan plan = Inr dec" "projectPlanBalances dec obs = Inr bals"
    "vetAllocationCeilings bals t = Inr ()" "vetPartialPlanAllocation t dec obs = Inr ()"
    and only: "\<forall>m \<in> set (operations dec). (case m of ClaimRewards _ _ \<Rightarrow> Inl PlanNotSupported | Move _ _ _ \<Rightarrow> Inr ()) = Inr ()"
    by (elim exE conjE)
  have moves: "\<exists>s d a. m = Move s d a" if "m \<in> set (operations dec)" for m
    using only [rule_format, OF that] by (cases m) simp_all
  have m: "mapr decodeMovement (plan_flow plan) = Inr (operations dec)"
    using v(1) by (auto simp: decodePlan_def bindr_Inr_iff)
  have "operation_delta p (operations dec ! ix) = move_delta p (plan_flow plan ! ix)" if ix: "ix < length (plan_flow plan)" for p ix
  proof -
    have d: "decodeMovement (plan_flow plan ! ix) = Inr (operations dec ! ix)" by (rule mapr_Inr_nth [OF m ix])
    have "operations dec ! ix \<in> set (operations dec)" using ix decoded_operations(1) [OF v(1)] by simp
    then obtain s d' a where "operations dec ! ix = Move s d' a" using moves by blast
    with d decoded_move [of "plan_flow plan ! ix" s d' a] show ?thesis
      by (simp add: operation_delta_def move_delta_def)
  qed
  then have "balance_after obs (operations dec) S p = plan_balance obs plan S p" if "S \<subseteq> {..<length (plan_flow plan)}" for S p
    unfolding balance_after_def plan_balance_def using that by (auto intro!: sum.cong)
  with v show thesis by (rule that)
qed

text \<open>The steps a run has touched, between the completed and the started ones, are closed.\<close>

lemma touched_steps_closed:
  assumes "startJob j = Inr st0" "(job_step mk)\<^sup>*\<^sup>* st0 st" "completed st \<subseteq> S" "S \<subseteq> set (map fst (started st))"
  shows "S \<subseteq> {..<taskQty j}" "\<forall>x \<in> S. declared (job_order j) `` {x} \<subseteq> S"
proof -
  have "job_ok j st" by (rule job_run.inv_reachable [OF assms(1,2)])
  then have "run_inv (taskQty j) (declared (job_order j)) (set (todo (schedule st))) st"
    by (simp add: job_ok_def job_inv_def)
  note I = run_invD [OF this]
  show "S \<subseteq> {..<taskQty j}" using assms(4) I(4) by (auto simp: started_set_def)
  show "\<forall>x \<in> S. declared (job_order j) `` {x} \<subseteq> S"
    using I(11) assms(3,4) by (fastforce simp: started_set_def)
qed

definition job_of_plan :: "funds_flow_plan \<Rightarrow> job" where
  "job_of_plan plan =
     \<lparr>taskQty = length (plan_flow plan), job_order = order_of_plan (length (plan_flow plan)) (plan_order plan)\<rparr>"

definition example_plan :: funds_flow_plan where
  "example_plan = \<lparr>plan_flow = [\<lparr>src = ''@Base'', dest = ''Aave_Base'', movedAmount = 10, claimRewards = False, swap = False\<rparr>],
     plan_order = None\<rparr>"

definition example_observations :: observations where
  "example_observations = \<lparr>obs_balances = [(''@Base'', Some 40), (''Aave_Base'', Some 0)], instrumentTvls = [(''Aave_Base'', 5000)]\<rparr>"

definition example_target :: target_allocation where
  "example_target = [(''Aave_Base'', Some 1), (''@Base'', Some 3)]"

lemma example_vetted: "vetPlanAllocation example_target example_plan example_observations = Inr ()"
  by code_simp

lemma example_balances:
  "initialBalances example_observations = [(''@Base'', 40), (''Aave_Base'', 0)]"
  "plan_flow example_plan = [\<lparr>src = ''@Base'', dest = ''Aave_Base'', movedAmount = 10, claimRewards = False, swap = False\<rparr>]"
  "sumPortions example_target = 4" "entry_or_zero example_target ''Aave_Base'' = 1"
  by code_simp+

text \<open>C11: A partial failure cannot push a position over its limit: once a plan passes
  \<open>vetPlanAllocation\<close>, then however \<open>runJob\<close> executes it and whichever steps fail, with any
  of the started but unfinished steps carried out or not, the balance of every instrument is
  at most its observed initial balance or within its target allocation.\<close>

theorem partial_failure_within_target:
  assumes vet: "vetPlanAllocation targetAllocation plan obs = Inr u"
    and run: "startJob (job_of_plan plan) = Inr st0" "(job_step makeError)\<^sup>*\<^sup>* st0 st"
    and S: "completed st \<subseteq> S" "S \<subseteq> set (map fst (started st))"
    and place: "isInstrumentId place"
  shows "plan_balance obs plan S place \<le> get_or_zero (initialBalances obs) place \<or>
    (0 < sumPortions targetAllocation \<and>
     plan_balance obs plan S place * sumPortions targetAllocation
       \<le> sum_list (map snd (initialBalances obs)) * entry_or_zero targetAllocation place)"
proof -
  obtain dec bals where d: "decodePlan plan = Inr dec" "vetPartialPlanAllocation targetAllocation dec obs = Inr ()"
    and eq: "\<And>S p. S \<subseteq> {..<length (plan_flow plan)} \<Longrightarrow> balance_after obs (operations dec) S p = plan_balance obs plan S p"
    using vetted_plan [OF vet] by metis
  note c = touched_steps_closed [OF run S, unfolded job_of_plan_def job.simps]
  have "balance_after obs (operations dec) S place \<le> get_or_zero (initialBalances obs) place \<or>
    within_target targetAllocation obs place (balance_after obs (operations dec) S place)"
    by (rule partial_plan_within_target [OF d(2) _ _ place])
      (use c decoded_operations(1,2) [OF d(1)] in simp_all)
  then show ?thesis unfolding eq [OF c(1)] within_target_def .
qed

lemma partial_failure_within_target_witness:
  "\<exists>st0 st :: string job_state. startJob (job_of_plan example_plan) = Inr st0 \<and>
     (job_step (\<lambda>ix r. r))\<^sup>*\<^sup>* st0 st \<and> started st = [(0, [0])] \<and> completed st = {} \<and>
     plan_balance example_observations example_plan {0} ''Aave_Base'' = 10 \<and> 0 < (10 :: int) \<and>
     plan_balance example_observations example_plan {0} ''Aave_Base'' * 4 \<le> 40"
proof -
  let ?s0 = "\<lparr>schedule = \<lparr>sdeps = [], todo = [0]\<rparr>, running = [], results = [Fulfilled],
     started = [], failed = [], settled = [], phase = LoopHead\<rparr> :: string job_state"
  let ?s1 = "\<lparr>schedule = \<lparr>sdeps = [], todo = []\<rparr>, running = [0], results = [Fulfilled],
     started = [(0, [0])], failed = [], settled = [], phase = AwaitingAny\<rparr> :: string job_state"
  have 0: "startJob (job_of_plan example_plan) = Inr ?s0" by code_simp
  have "loopHead (\<lambda>ix r. r) (\<lambda>_. None) ?s0 = Some ?s1" by code_simp
  then have 1: "(job_step (\<lambda>ix r. r))\<^sup>*\<^sup>* ?s0 ?s1" by (intro r_into_rtranclp job_step.loop_step) simp_all
  have c: "completed ?s1 = {}" by (simp add: completed_def started_set_def)
  have b: "plan_balance example_observations example_plan {0} ''Aave_Base'' = 10"
    by (simp add: plan_balance_def example_balances get_or_zero_def move_delta_def)
  have i: "isInstrumentId ''Aave_Base''" by code_simp
  have "plan_balance example_observations example_plan {0} ''Aave_Base'' * 4 \<le> 40"
    using partial_failure_within_target [OF example_vetted 0 1, of "{0}" "''Aave_Base''"] c i b
    by (simp add: example_balances get_or_zero_def)
  with 0 1 c b show ?thesis by (intro exI [of _ ?s0] exI [of _ ?s1]) simp
qed

text \<open>C26: The final balances are bounded too: when a plan passes, the positions of any one
  chain exceed their target allocations by at most 1 USDC in all, scaled by the portions,
  once every step of the plan has been carried out.\<close>

theorem final_excess_per_chain:
  assumes vet: "vetPlanAllocation targetAllocation plan obs = Inr u"
    and P: "finite P" "\<forall>p \<in> P. isInstrumentId p \<and> chainOf p = Inr chain"
  shows "(\<Sum>p \<in> P. excess_over (sum_list (map snd (initialBalances obs))) targetAllocation p
            (plan_balance obs plan {..<length (plan_flow plan)} p))
    \<le> max 0 (1000000 * sumPortions targetAllocation)"
proof -
  obtain dec bals where d: "decodePlan plan = Inr dec" "projectPlanBalances dec obs = Inr bals"
    "vetAllocationCeilings bals targetAllocation = Inr ()"
    and eq: "\<And>S p. S \<subseteq> {..<length (plan_flow plan)} \<Longrightarrow> balance_after obs (operations dec) S p = plan_balance obs plan S p"
    using vetted_plan [OF vet] by metis
  have b: "distinct (map fst bals)" "sum_list (map snd bals) = sum_list (map snd (initialBalances obs))"
    "get_or_zero bals p = plan_balance obs plan {..<length (plan_flow plan)} p" for p
    using projection_cases [OF decoded_operations(3) [OF d(1)], of obs] d(2) eq decoded_operations(1) [OF d(1)]
    by auto
  have "(\<Sum>p \<in> P. excess_over (sum_list (map snd bals)) targetAllocation p (get_or_zero bals p))
      \<le> chain_excess (sum_list (map snd bals)) targetAllocation bals chain"
    by (rule chain_excess_covers [OF b(1) P(1)]) (use P(2) in \<open>simp add: on_chain_def\<close>)
  also have "\<dots> \<le> max 0 (1000000 * sumPortions targetAllocation)"
    using ceilings_bound [OF d(3), of chain] by (auto simp: chain_slack_def MAX_CHAIN_ALLOCATION_DIVERGENCE_UUSDC_def)
  finally show ?thesis unfolding b(2,3) .
qed

lemma final_excess_per_chain_witness:
  "isInstrumentId ''Aave_Base'' \<and> chainOf ''Aave_Base'' = Inr ''Base'' \<and>
   excess_over 40 example_target ''Aave_Base'' (plan_balance example_observations example_plan {..<1} ''Aave_Base'') \<le> 4000000"
proof -
  have i: "isInstrumentId ''Aave_Base''" "chainOf ''Aave_Base'' = Inr ''Base''" by code_simp+
  then show ?thesis
    using final_excess_per_chain [OF example_vetted, of "{''Aave_Base''}" "''Base''"]
    by (simp add: example_balances)
qed

text \<open>C27: Projecting a decoded plan always ends: it throws for a bad order, a missing observation
  or a movement without funds, or returns the balances that carrying out every step gives,
  with the total unchanged and, for amounts and observations that are not negative, with no
  negative balance.\<close>

theorem projection_is_exact:
  assumes "decodePlan plan = Inr dec" "\<forall>m \<in> set (plan_flow plan). 0 \<le> movedAmount m"
    "\<forall>p. 0 \<le> get_or_zero (initialBalances obs) p"
  shows "projectPlanBalances dec obs \<in> Inl ` {InvalidNodeIndex, DependencyCycle, ObservationMissing, UnfundedMovement} \<or>
    (\<exists>bals. projectPlanBalances dec obs = Inr bals \<and> sum_list (map snd bals) = sum_list (map snd (initialBalances obs)) \<and>
       (\<forall>p. get_or_zero bals p = balance_after obs (operations dec) {..<length (plan_flow plan)} p \<and> 0 \<le> get_or_zero bals p))"
  using projection_cases [OF decoded_operations(3) [OF assms(1)], of obs]
    decoded_operations(1) [OF assms(1)] decoded_operations(4) [OF assms(1,2)] assms(3)
  by (elim disjE) auto

lemma projection_is_exact_witness:
  "\<exists>dec bals. decodePlan example_plan = Inr dec \<and> projectPlanBalances dec example_observations = Inr bals \<and>
     bals = [(''@Base'', 30), (''Aave_Base'', 10)] \<and>
     get_or_zero bals ''Aave_Base'' = balance_after example_observations (operations dec) {..<1} ''Aave_Base''"
proof -
  let ?dec = "\<lparr>operations = [Move ''@Base'' ''Aave_Base'' 10], dec_order = None\<rparr>"
  have d: "decodePlan example_plan = Inr ?dec" by code_simp
  have p: "projectPlanBalances ?dec example_observations = Inr [(''@Base'', 30), (''Aave_Base'', 10)]" by code_simp
  have "\<forall>m \<in> set (plan_flow example_plan). 0 \<le> movedAmount m" "\<forall>p. 0 \<le> get_or_zero (initialBalances example_observations) p"
    by (simp_all add: example_balances get_or_zero_def)
  from projection_is_exact [OF d this] p d show ?thesis
    by (intro exI [of _ ?dec] exI [of _ "[(''@Base'', 30), (''Aave_Base'', 10)]"]) (auto simp: example_balances)
qed

text \<open>C28: An allocation that \<open>vetAllocationPlan\<close> accepts respects the agent's mandate: no
  instrument has more than the maximum weight of the portions, and when the answer is that
  it can be committed at once every vault limit was checked against the observations.\<close>

theorem accepted_allocation_within_mandate:
  assumes "vetAllocationPlan perms targetAllocation plan obs = Inr commit"
    "perm_allocation perms = Some (Limited l)" "(place, portion) \<in> set targetAllocation"
    "\<not> isInterChainAccountRef place"
  shows "(\<forall>w. maxWeightBps l = Some w \<longrightarrow>
       0 < sumPortions targetAllocation \<and> or_zero portion * 10000 \<le> w * sumPortions targetAllocation) \<and>
    (commit \<and> or_zero portion \<noteq> 0 \<longrightarrow>
       (\<forall>m. minVaultTvlUsd l = Some m \<longrightarrow> (\<exists>ob tvl. obs = Some ob \<and> map_of (instrumentTvls ob) place = Some tvl \<and> m \<le> tvl)) \<and>
       (\<forall>bps. maxVaultShareBps l = Some bps \<longrightarrow> (\<exists>ob tvl. obs = Some ob \<and> map_of (instrumentTvls ob) place = Some tvl \<and>
          sumOptionalBigints (map snd (obs_balances ob)) * or_zero portion * 10000
            \<le> tvl * MICRO_USDC_PER_USD * sumPortions targetAllocation * bps)))"
proof -
  have a: "assertMandateForAllocation perms targetAllocation = Inr ()"
    using assms(1) by (auto simp: vetAllocationPlan_def bindr_Inr_iff)
  have w: "0 < sumPortions targetAllocation \<and> or_zero portion * 10000 \<le> w * sumPortions targetAllocation"
    if "maxWeightBps l = Some w" for w
    using a assms(2-4) that by (auto simp: assertMandateForAllocation_def Let_def bindr_Inr_iff dest!: bspec)
  show ?thesis
  proof (cases "commit \<and> needsObservations perms")
    case True
    then obtain pl ob where o: "obs = Some ob" "assertMandateForPlanObservations perms targetAllocation ob = Inr ()"
      using assms(1) by (auto simp: vetAllocationPlan_def bindr_Inr_iff split: option.splits)
    from o(2) assms(2-4) have "or_zero portion \<noteq> 0 \<Longrightarrow> minVaultTvlUsd l \<noteq> None \<or> maxVaultShareBps l \<noteq> None \<Longrightarrow>
      \<exists>tvl. map_of (instrumentTvls ob) place = Some tvl \<and>
        (\<forall>m. minVaultTvlUsd l = Some m \<longrightarrow> m \<le> tvl) \<and>
        (\<forall>bps. maxVaultShareBps l = Some bps \<longrightarrow> sumOptionalBigints (map snd (obs_balances ob)) * or_zero portion * 10000
            \<le> tvl * MICRO_USDC_PER_USD * sumPortions targetAllocation * bps)"
      by (auto simp: assertMandateForPlanObservations_def Let_def bindr_Inr_iff split: option.splits dest!: bspec)
    with o(1) w show ?thesis by fastforce
  next
    case False
    with assms(2) w show ?thesis by (auto simp: needsObservations_def)
  qed
qed

lemma accepted_allocation_within_mandate_witness:
  "\<exists>l. l = \<lparr>maxWeightBps = Some 2500, minVaultTvlUsd = Some 1000, maxVaultShareBps = None\<rparr> \<and>
     vetAllocationPlan \<lparr>perm_allocation = Some (Limited l), perm_rebalance = None, perm_claimRewards = None\<rparr>
       example_target (Some example_plan) (Some example_observations) = Inr True \<and>
     1 * 10000 \<le> (2500 :: int) * sumPortions example_target"
proof -
  let ?l = "\<lparr>maxWeightBps = Some 2500, minVaultTvlUsd = Some 1000, maxVaultShareBps = None\<rparr> :: limits"
  let ?perms = "\<lparr>perm_allocation = Some (Limited ?l), perm_rebalance = None, perm_claimRewards = None\<rparr>"
  have v: "vetAllocationPlan ?perms example_target (Some example_plan) (Some example_observations) = Inr True"
    by code_simp
  have "(''Aave_Base'', Some 1) \<in> set example_target" "\<not> isInterChainAccountRef ''Aave_Base''"
    by (simp add: example_target_def) code_simp
  from accepted_allocation_within_mandate [OF v _ this, of ?l] v show ?thesis by auto
qed

end
