(* ===== verification/PortfolioState.thy ===== *)
theory PortfolioState
  imports DelegationLimits Types
begin

text \<open>
  The state of a portfolio and the methods of its internal facets,
  \<open>portfolio-contract/src/portfolio.exo.ts\<close> (\<open>reader\<close>, \<open>reporter\<close>, \<open>planner\<close>, \<open>manager\<close>,
  \<open>accountWatcher\<close>) and \<open>pos.exo.ts\<close>. A method is a process on the state. Writes to vstorage
  are appended to logs; a vow is a number, and the log of settled vows is what its watchers see.
\<close>

section \<open>Data\<close>

text \<open>A running flow and the operation that started it. An agent key is its number.\<close>

datatype operation_status = OpPending | OpOk nat | OpError string

datatype operation_type = SetTargetAllocation | OpenPortfolio

record initiating_operation =
  op_type :: operation_type
  op_target :: target_allocation
  op_status :: operation_status

record flow_detail =
  detail_type :: flow_type
  detail_amount :: "int option"
  detail_fromChain :: "string option"
  detail_toChain :: "string option"
  detail_agent :: "nat option"
  agentMemo :: "string option"
  initiatingOperation :: "initiating_operation option"
  createdAtPolicyVersion :: "nat option"

text \<open>The steps a flow waits for: an array of movements, or a plan with its order.\<close>

datatype plan_or_steps = Steps "movement list" | Plan funds_flow_plan

definition steps_of :: "plan_or_steps \<Rightarrow> movement list" where
  "steps_of ps = (case ps of Steps ms \<Rightarrow> ms | Plan p \<Rightarrow> plan_flow p)"

datatype flow_sync = AwaitingSteps | StepsResolved plan_or_steps | StepsRejected string

record running_flow = flow_detail +
  sync :: flow_sync

definition plain_detail :: "flow_type \<Rightarrow> flow_detail" where
  "plain_detail ty = \<lparr>detail_type = ty, detail_amount = None, detail_fromChain = None, detail_toChain = None,
     detail_agent = None, agentMemo = None, initiatingOperation = None, createdAtPolicyVersion = None\<rparr>"

text \<open>A delegation client is an object made for one agent; two clients are never the same object.\<close>

record delegation_client =
  client_no :: nat
  client_agent :: nat

datatype agent_state = Active | Revoked | Expired

record agent_status =
  grantee :: string
  agent_permissions :: permissions
  agent_state :: agent_state
  updatedAtPolicyVersion :: "nat option"

record agent_info = agent_status +
  activeClient :: "delegation_client option"

record auto_features =
  auto_rebalance :: "bool option"
  auto_claimRewards :: "bool option"

text \<open>An account on a chain. A Cosmos address is its chain identifier and value.\<close>

type_synonym cosmos_address = "string \<times> string"

datatype account_detail =
    GmpAccount (gmpChainId: string) (remoteAddress: string) (routerFactory: "string option")
  | AgoricAccount (lca: cosmos_address) (lcaIn: cosmos_address)
  | NobleAccount (ica: cosmos_address)

record account_info =
  info_chain :: string
  info_err :: "string option"
  info_detail :: account_detail

text \<open>A position and what was moved into and out of it.\<close>

record position =
  pos_protocol :: string
  pos_accountId :: string
  totalIn :: int
  totalOut :: int

record owner_transfer =
  designated :: string
  deadlineTimestampSeconds :: int
  transferResolver :: nat

datatype transfer_result = TransferredTo string | Superseded | TransferExpired int

datatype timer_call = SetWakeup int | CancelWakeup

datatype account_result = AccountReady account_info | AccountFailed string

section \<open>Published records\<close>

datatype account_state = Provisioning | AccountActive | AccountFailing | AccountUnknown

record remote_account =
  ra_state :: account_state
  ra_details :: "(string \<times> string \<times> string option) option"

record portfolio_status =
  st_positionKeys :: "string list"
  st_flowCount :: nat
  st_flowsRunning :: "(nat \<times> flow_detail \<times> bool) list"
  st_accountIdByChain :: "(string \<times> string) list"
  st_accountStateByChain :: "(string \<times> remote_account) list"
  st_depositAddress :: "string option"
  st_targetAllocation :: "target_allocation option"
  st_sourceAccountId :: "string option"
  st_pendingOwnerTransfer :: "(string \<times> int) option"
  st_accountsPending :: "string list"
  st_policyVersion :: nat
  st_rebalanceCount :: nat
  st_enabledAutoFeatures :: "auto_features option"

section \<open>The state\<close>

text \<open>
  The fields of \<open>PortfolioKitState\<close>, then what the code keeps elsewhere: the clients made so
  far, the planner's client in the contract's store, the vows of pending accounts and who
  watches them, the flows with an \<open>executePlan\<close> running, and the logs.
\<close>

record portfolio_state =
  portfolioId :: nat
  accountsPending :: "(string, nat) mapstore"
  accounts :: "(string, account_info) mapstore"
  positions :: "(string, position) mapstore"
  flowsRunning :: "(nat, running_flow) mapstore"
  delegations :: "(nat, agent_info) mapstore option"
  plannerAgentId :: "nat option"
  enabledAutoFeatures :: "auto_features option"
  nextFlowId :: nat
  targetAllocation :: "target_allocation option"
  policyVersion :: nat
  rebalanceCount :: nat
  sourceAccountId :: "string option"
  nobleAccountUnderProvision :: "account_info option"
  pendingOwnerTransfer :: "owner_transfer option"
  clientsMade :: nat
  plannerClient :: "delegation_client option"
  vowsMade :: nat
  accountVows :: "(nat \<times> account_result) list"
  watchers :: "(nat \<times> string) list"
  executing :: "nat list"
  transferResults :: "(nat \<times> transfer_result) list"
  timerCalls :: "timer_call list"
  reports :: "portfolio_status list"
  agentReports :: "(nat \<times> agent_status) list list"
  positionReports :: "(string \<times> position) list"

type_synonym 'a portfolio_method = "(portfolio_state, 'a) proc"

definition makePortfolio :: "nat \<Rightarrow> string option \<Rightarrow> portfolio_state" where
  "makePortfolio pid owner =
     \<lparr>portfolioId = pid, accountsPending = [], accounts = [], positions = [], flowsRunning = [],
      delegations = None, plannerAgentId = None, enabledAutoFeatures = None, nextFlowId = 1,
      targetAllocation = None, policyVersion = 0, rebalanceCount = 0, sourceAccountId = owner,
      nobleAccountUnderProvision = None, pendingOwnerTransfer = None, clientsMade = 0,
      plannerClient = None, vowsMade = 0, accountVows = [], watchers = [], executing = [],
      transferResults = [], timerCalls = [], reports = [], agentReports = [], positionReports = []\<rparr>"

subsection \<open>Writing a collection of the state\<close>

definition put_flowsRunning :: "(nat, running_flow) mapstore \<Rightarrow> portfolio_state \<Rightarrow> portfolio_state" where
  "put_flowsRunning m s = s\<lparr>flowsRunning := m\<rparr>"

definition put_accounts :: "(string, account_info) mapstore \<Rightarrow> portfolio_state \<Rightarrow> portfolio_state" where
  "put_accounts m s = s\<lparr>accounts := m\<rparr>"

definition put_accountsPending :: "(string, nat) mapstore \<Rightarrow> portfolio_state \<Rightarrow> portfolio_state" where
  "put_accountsPending m s = s\<lparr>accountsPending := m\<rparr>"

definition put_positions :: "(string, position) mapstore \<Rightarrow> portfolio_state \<Rightarrow> portfolio_state" where
  "put_positions m s = s\<lparr>positions := m\<rparr>"

definition agents :: "portfolio_state \<Rightarrow> (nat, agent_info) mapstore" where
  "agents s = (case delegations s of None \<Rightarrow> [] | Some m \<Rightarrow> m)"

definition put_agents :: "(nat, agent_info) mapstore \<Rightarrow> portfolio_state \<Rightarrow> portfolio_state" where
  "put_agents m s = s\<lparr>delegations := Some m\<rparr>"

lemmas put_defs = put_flowsRunning_def put_accounts_def put_accountsPending_def put_positions_def put_agents_def

section \<open>Publishing\<close>

text \<open>A string of JavaScript is truthy when it is defined and not empty.\<close>

definition truthy :: "string option \<Rightarrow> bool" where
  "truthy x = (case x of None \<Rightarrow> False | Some s \<Rightarrow> s \<noteq> [])"

definition accountIdByChain :: "(string, account_info) mapstore \<Rightarrow> (string \<times> string) list" where
  "accountIdByChain accts =
     map (\<lambda>(n, info). (n, case info_detail info of
            AgoricAccount a _ \<Rightarrow> coerceAccountId (CosmosAddress (fst a) (snd a))
          | NobleAccount a \<Rightarrow> coerceAccountId (CosmosAddress (fst a) (snd a))
          | GmpAccount c a _ \<Rightarrow> c @ '':'' @ a)) accts"

definition accountStateByChain :: "(string, account_info) mapstore \<Rightarrow> (string, nat) mapstore
    \<Rightarrow> (string \<times> remote_account) list" where
  "accountStateByChain accts pend =
     map (\<lambda>(n, info).
       let details = (case info_detail info of
               AgoricAccount a _ \<Rightarrow> (''cosmos:'' @ fst a, snd a, None)
             | NobleAccount a \<Rightarrow> (''cosmos:'' @ fst a, snd a, None)
             | GmpAccount c a rf \<Rightarrow> (c, a, if truthy rf then rf else None));
           isPending = store_has pend n;
           hasError = truthy (info_err info)
       in (n, \<lparr>ra_state = (if hasError then AccountFailing else if isPending then Provisioning else AccountActive),
               ra_details = Some details\<rparr>)) accts @
     map (\<lambda>chain. (chain, \<lparr>ra_state = Provisioning, ra_details = None\<rparr>))
       (filter (\<lambda>chain. \<not> store_has accts chain) (store_keys pend))"

definition flow_status_of :: "running_flow \<Rightarrow> flow_detail \<times> bool" where
  "flow_status_of stored = (flow_detail.truncate stored, sync stored = AwaitingSteps)"

definition makeFlowsRunningRecord :: "(nat, running_flow) mapstore \<Rightarrow> (nat \<times> flow_detail \<times> bool) list" where
  "makeFlowsRunningRecord fs = map (\<lambda>(num, stored). (num, flow_status_of stored)) fs"

definition makePortfolioAgentsRecord :: "(nat, agent_info) mapstore \<Rightarrow> (nat \<times> agent_status) list" where
  "makePortfolioAgentsRecord m = map (\<lambda>(agentId, info). (agentId, agent_status.truncate info)) m"

text \<open>The address of the local account for deposits is published; the Noble forwarding address,
  a hash of it, is left out.\<close>

definition deposit_address :: "(string, account_info) mapstore \<Rightarrow> string option" where
  "deposit_address accts =
     (case map_of accts ''agoric'' of
        None \<Rightarrow> None
      | Some info \<Rightarrow> (case info_detail info of AgoricAccount _ a \<Rightarrow> Some (snd a) | _ \<Rightarrow> None))"

definition portfolioStatus :: "portfolio_state \<Rightarrow> portfolio_status" where
  "portfolioStatus s =
     \<lparr>st_positionKeys = store_keys (positions s),
      st_flowCount = nextFlowId s - 1,
      st_flowsRunning = makeFlowsRunningRecord (flowsRunning s),
      st_accountIdByChain = accountIdByChain (accounts s),
      st_accountStateByChain = accountStateByChain (accounts s) (accountsPending s),
      st_depositAddress = deposit_address (accounts s),
      st_targetAllocation = targetAllocation s,
      st_sourceAccountId = (if truthy (sourceAccountId s) then sourceAccountId s else None),
      st_pendingOwnerTransfer = map_option (\<lambda>t. (designated t, deadlineTimestampSeconds t)) (pendingOwnerTransfer s),
      st_accountsPending = store_keys (accountsPending s),
      st_policyVersion = policyVersion s,
      st_rebalanceCount = rebalanceCount s,
      st_enabledAutoFeatures = enabledAutoFeatures s\<rparr>"

definition publishStatus :: "unit portfolio_method" where
  "publishStatus = modifyp (\<lambda>s. s\<lparr>reports := reports s @ [portfolioStatus s]\<rparr>)"

definition publishAgents :: "unit portfolio_method" where
  "publishAgents = modifyp (\<lambda>s.
     if delegations s = None then s
     else s\<lparr>agentReports := agentReports s @ [makePortfolioAgentsRecord (agents s)]\<rparr>)"

definition finishFlow :: "nat \<Rightarrow> unit portfolio_method" where
  "finishFlow flowId =
     thenp (writeStore flowsRunning put_flowsRunning (\<lambda>m. store_delete m flowId)) publishStatus"

section \<open>Reader\<close>

definition checkVersion :: "nat \<Rightarrow> nat \<Rightarrow> unit portfolio_method" where
  "checkVersion versionPre countPre =
     bindp (getsp policyVersion) (\<lambda>v. thenp (requirep (v = versionPre) PolicyOutOfSync)
    (bindp (getsp rebalanceCount) (\<lambda>c. requirep (c = countPre) PolicyOutOfSync)))"

section \<open>Accounts\<close>

definition settleVow :: "nat \<Rightarrow> account_result \<Rightarrow> unit portfolio_method" where
  "settleVow v r = modifyp (\<lambda>s.
     if v \<in> fst ` set (accountVows s) then s else s\<lparr>accountVows := accountVows s @ [(v, r)]\<rparr>)"

datatype reservation = NewAccount | PendingAccount | OkAccount | FailedAccount

text \<open>The returned vow is \<open>None\<close> when the account is ready.\<close>

definition reserveAccountState :: "string \<Rightarrow> (reservation \<times> nat option) portfolio_method" where
  "reserveAccountState chain =
     bindp (getsp accountsPending) (\<lambda>pend.
     if store_has pend chain
     then bindp (liftp (store_get pend chain)) (\<lambda>v. ret (PendingAccount, Some v))
     else bindp (getsp accounts) (\<lambda>accts.
       bindp (case map_of accts chain of
           None \<Rightarrow> ret NewAccount
         | Some info \<Rightarrow> thenp (requirep (info_chain info = chain) AssertFailed)
             (ret (if \<not> truthy (info_err info) then OkAccount else FailedAccount))) (\<lambda>state.
       if state = OkAccount then ret (OkAccount, None)
       else
         bindp (getsp vowsMade) (\<lambda>v.
         thenp (modifyp (\<lambda>s. s\<lparr>vowsMade := v + 1, watchers := watchers s @ [(v, chain)]\<rparr>))
        (thenp (writeStore accountsPending put_accountsPending (\<lambda>m. store_init m chain v))
        (thenp publishStatus
        (ret (state, Some v))))))))"

definition reserveAccount :: "string \<Rightarrow> nat option option portfolio_method" where
  "reserveAccount chain =
     bindp (reserveAccountState chain) (\<lambda>(state, rdy). ret (if state = NewAccount then None else Some rdy))"

definition initAccountInfo :: "account_info \<Rightarrow> unit portfolio_method" where
  "initAccountInfo info =
     thenp (writeStore accounts put_accounts (\<lambda>m. store_init m (info_chain info) info)) publishStatus"

definition resolveAccount :: "account_info \<Rightarrow> unit portfolio_method" where
  "resolveAccount info =
     bindp (getsp accountsPending) (\<lambda>pend.
     thenp (case map_of pend (info_chain info) of None \<Rightarrow> ret () | Some v \<Rightarrow> settleVow v (AccountReady info))
    (bindp (getsp accounts) (\<lambda>accts.
     thenp (writeStore accounts put_accounts (\<lambda>m.
              case map_of accts (info_chain info) of
                Some old \<Rightarrow> store_set m (info_chain info) (old\<lparr>info_err := None\<rparr>)
              | None \<Rightarrow> store_init m (info_chain info) info))
    (thenp (whenp (info_chain info = ''noble'') (modifyp (\<lambda>s. s\<lparr>nobleAccountUnderProvision := None\<rparr>)))
     publishStatus))))"

definition releaseAccount :: "string \<Rightarrow> string \<Rightarrow> unit portfolio_method" where
  "releaseAccount chain reason =
     bindp (getsp accounts) (\<lambda>accts.
     thenp (case map_of accts chain of
              None \<Rightarrow> ret ()
            | Some info \<Rightarrow> writeStore accounts put_accounts (\<lambda>m. store_set m chain (info\<lparr>info_err := Some reason\<rparr>)))
    (bindp (getsp accountsPending) (\<lambda>pend.
     case map_of pend chain of
       None \<Rightarrow> ret ()
     | Some v \<Rightarrow>
         thenp (settleVow v (AccountFailed reason))
        (thenp (writeStore accountsPending put_accountsPending (\<lambda>m. store_delete m chain))
         publishStatus))))"

definition initNobleAccountUnderProvision :: "account_info \<Rightarrow> unit portfolio_method" where
  "initNobleAccountUnderProvision info =
     bindp (getsp nobleAccountUnderProvision) (\<lambda>cur.
     thenp (requirep (cur = None) AlreadyProvisioning)
    (modifyp (\<lambda>s. s\<lparr>nobleAccountUnderProvision := Some info\<rparr>)))"

text \<open>The watcher of a vow runs in a turn after the vow settled, with the chain it was registered for.\<close>

definition dropPending :: "string \<Rightarrow> unit portfolio_method" where
  "dropPending chain =
     bindp (getsp accountsPending) (\<lambda>pend.
     whenp (store_has pend chain) (writeStore accountsPending put_accountsPending (\<lambda>m. store_delete m chain)))"

definition accountWatcher :: "account_result \<Rightarrow> string \<Rightarrow> unit portfolio_method" where
  "accountWatcher r chain = thenp (dropPending chain) publishStatus"

section \<open>Flows\<close>

definition startingNewFlow :: string where
  "startingNewFlow = ''Error: starting new flow''"

definition startFlow :: "flow_detail \<Rightarrow> movement list option \<Rightarrow> nat portfolio_method" where
  "startFlow detail steps =
     bindp (getsp nextFlowId) (\<lambda>flowId.
     thenp (modifyp (\<lambda>s. s\<lparr>nextFlowId := flowId + 1\<rparr>))
    (thenp (writeStore flowsRunning put_flowsRunning (\<lambda>m. store_init m flowId
        (flow_detail.extend detail (running_flow.fields
           (case steps of None \<Rightarrow> AwaitingSteps | Some ms \<Rightarrow> StepsResolved (Steps ms))))))
    (thenp publishStatus
    (bindp (getsp accountsPending) (\<lambda>pend.
     thenp (whenp (store_size pend > 0)
       (for_eachp (filter (\<lambda>c. c \<in> set AxelarChain) (store_keys pend)) (\<lambda>c. releaseAccount c startingNewFlow)))
    (ret flowId))))))"

text \<open>\<open>executePlan\<close> runs the steps of the flow once they are resolved and finishes it, whatever
  happens.\<close>

definition executePlan :: "nat \<Rightarrow> unit portfolio_method" where
  "executePlan flowId = modifyp (\<lambda>s. s\<lparr>executing := executing s @ [flowId]\<rparr>)"

definition executePlanDone :: "nat \<Rightarrow> unit portfolio_method" where
  "executePlanDone flowId =
     thenp (modifyp (\<lambda>s. s\<lparr>executing := remove1 flowId (executing s)\<rparr>)) (finishFlow flowId)"

section \<open>Positions\<close>

definition publishPosition :: "string \<Rightarrow> unit portfolio_method" where
  "publishPosition poolKey =
     bindp (readStore positions poolKey) (\<lambda>p. modifyp (\<lambda>s. s\<lparr>positionReports := positionReports s @ [(poolKey, p)]\<rparr>))"

definition providePosition :: "string \<Rightarrow> string \<Rightarrow> string \<Rightarrow> position portfolio_method" where
  "providePosition poolKey prot accountId =
     bindp (getsp positions) (\<lambda>ps.
     case map_of ps poolKey of
       Some p \<Rightarrow> ret p
     | None \<Rightarrow>
         (let p = \<lparr>pos_protocol = prot, pos_accountId = accountId, totalIn = 0, totalOut = 0\<rparr> in
          thenp (writeStore positions put_positions (\<lambda>m. store_init m poolKey p))
         (thenp (publishPosition poolKey)
         (thenp publishStatus
         (ret p)))))"

definition recordTransferIn :: "string \<Rightarrow> int \<Rightarrow> int portfolio_method" where
  "recordTransferIn poolKey amt =
     bindp (readStore positions poolKey) (\<lambda>p.
     thenp (writeStore positions put_positions (\<lambda>m. store_set m poolKey (p\<lparr>totalIn := totalIn p + amt\<rparr>)))
    (thenp (publishPosition poolKey)
    (ret (totalIn p))))"

definition recordTransferOut :: "string \<Rightarrow> int \<Rightarrow> int portfolio_method" where
  "recordTransferOut poolKey amt =
     bindp (readStore positions poolKey) (\<lambda>p.
     thenp (writeStore positions put_positions (\<lambda>m. store_set m poolKey (p\<lparr>totalOut := totalOut p + amt\<rparr>)))
    (thenp (publishPosition poolKey)
    (ret (totalOut p))))"

section \<open>Policy\<close>

definition bumpPolicyVersion :: "nat portfolio_method" where
  "bumpPolicyVersion =
     bindp (getsp (\<lambda>s. policyVersion s + 1)) (\<lambda>v.
     thenp (modifyp (\<lambda>s. s\<lparr>policyVersion := v, rebalanceCount := 0\<rparr>))
    (ret v))"

definition updateTargetAllocation :: "target_allocation \<Rightarrow> nat portfolio_method" where
  "updateTargetAllocation allocation =
     thenp (modifyp (\<lambda>s. s\<lparr>targetAllocation := Some allocation\<rparr>)) bumpPolicyVersion"

definition setTargetAllocation :: "target_allocation \<Rightarrow> nat portfolio_method" where
  "setTargetAllocation allocation =
     bindp (updateTargetAllocation allocation) (\<lambda>v. thenp publishStatus (ret v))"

definition incrPolicyVersion :: "nat portfolio_method" where
  "incrPolicyVersion = bindp bumpPolicyVersion (\<lambda>v. thenp publishStatus (ret v))"

section \<open>Planner facet\<close>

definition submitVersion :: "nat \<Rightarrow> nat \<Rightarrow> unit portfolio_method" where
  "submitVersion versionPre countPre =
     thenp (checkVersion versionPre countPre)
    (thenp (modifyp (\<lambda>s. s\<lparr>rebalanceCount := rebalanceCount s + 1\<rparr>)) publishStatus)"

definition resolvePendingPolicy :: "nat \<Rightarrow> nat \<Rightarrow> unit portfolio_method" where
  "resolvePendingPolicy flowId version =
     bindp (readStore flowsRunning flowId) (\<lambda>detail.
     case initiatingOperation detail of
       None \<Rightarrow> throw NoPendingOperation
     | Some opn \<Rightarrow>
         thenp (requirep (detail_type detail = FlowRebalance \<and> op_type opn = SetTargetAllocation) NoPendingOperation)
        (thenp (requirep (op_status opn = OpPending) NoPendingOperation)
        (thenp (writeStore flowsRunning put_flowsRunning (\<lambda>m. store_set m flowId
            (detail\<lparr>initiatingOperation := Some (opn\<lparr>op_status := OpOk version\<rparr>)\<rparr>)))
         publishStatus)))"

definition rejectedDetail :: "running_flow \<Rightarrow> string \<Rightarrow> running_flow" where
  "rejectedDetail detail reason =
     (let updated = detail\<lparr>sync := StepsRejected reason\<rparr> in
      case initiatingOperation detail of
        None \<Rightarrow> updated
      | Some opn \<Rightarrow>
          if detail_type detail = FlowRebalance \<and> op_type opn = SetTargetAllocation \<and> op_status opn = OpPending
          then updated\<lparr>initiatingOperation := Some (opn\<lparr>op_status := OpError reason\<rparr>)\<rparr> else updated)"

definition rejectFlowPlan :: "nat \<Rightarrow> string \<Rightarrow> unit portfolio_method" where
  "rejectFlowPlan flowId reason =
     bindp (getsp flowsRunning) (\<lambda>fs.
     case map_of fs flowId of
       None \<Rightarrow> ret ()
     | Some detail \<Rightarrow>
         if sync detail \<noteq> AwaitingSteps then ret ()
         else thenp (writeStore flowsRunning put_flowsRunning (\<lambda>m. store_set m flowId (rejectedDetail detail reason)))
                publishStatus)"

definition flow_place_context :: "portfolio_state \<Rightarrow> running_flow \<Rightarrow> flow_context" where
  "flow_place_context s detail =
     \<lparr>flowType = detail_type detail, isEvmPortfolio = truthy (sourceAccountId s),
      fromChain = (if detail_type detail = FlowDeposit then detail_fromChain detail else None),
      toChain = (if detail_type detail = FlowWithdraw then detail_toChain detail else None)\<rparr>"

definition resolveFlowPlan :: "(error \<Rightarrow> string) \<Rightarrow> nat \<Rightarrow> plan_or_steps \<Rightarrow> unit portfolio_method" where
  "resolveFlowPlan msg flowId steps =
     bindp (readStore flowsRunning flowId) (\<lambda>detail.
     thenp (requirep (sync detail = AwaitingSteps) FlowAlreadyResolved)
    (bindp (getsp (\<lambda>s. vetFlowPlanPlaces (flow_place_context s detail) (steps_of steps))) (\<lambda>vetted.
     thenp (catchp (liftp vetted) (\<lambda>reason. thenp (rejectFlowPlan flowId (msg reason)) (throw reason)))
    (thenp (writeStore flowsRunning put_flowsRunning (\<lambda>m. store_set m flowId (detail\<lparr>sync := StepsResolved steps\<rparr>)))
     publishStatus))))"

definition target_committed :: "running_flow \<Rightarrow> bool" where
  "target_committed detail =
     (case initiatingOperation detail of
        None \<Rightarrow> False
      | Some opn \<Rightarrow> op_type opn = SetTargetAllocation \<and> (case op_status opn of OpOk _ \<Rightarrow> True | _ \<Rightarrow> False))"

definition pending_target :: "running_flow \<Rightarrow> target_allocation option" where
  "pending_target detail =
     (case initiatingOperation detail of
        None \<Rightarrow> None
      | Some opn \<Rightarrow>
          if detail_type detail = FlowRebalance \<and> op_type opn = SetTargetAllocation \<and> op_status opn = OpPending
          then Some (op_target opn) else None)"

definition vetMandate :: "permissions \<Rightarrow> target_allocation \<Rightarrow> observations option \<Rightarrow> error + unit" where
  "vetMandate perms target obs =
     bindr (assertMandateForAllocation perms target) (\<lambda>_.
     if needsObservations perms
     then (case obs of None \<Rightarrow> Inl ObservationMissing | Some ob \<Rightarrow> assertMandateForPlanObservations perms target ob)
     else Inr ())"

definition validateAndCommitPlanPolicy :: "nat \<Rightarrow> observations option \<Rightarrow> nat \<Rightarrow> nat \<Rightarrow> (nat \<times> nat) portfolio_method" where
  "validateAndCommitPlanPolicy flowId obs versionPre countPre =
     thenp (checkVersion versionPre countPre)
    (bindp (readStore flowsRunning flowId) (\<lambda>detail.
     let syncState = getsp (\<lambda>s. (policyVersion s, rebalanceCount s)) in
     case detail_agent detail of
       None \<Rightarrow> syncState
     | Some agentId \<Rightarrow>
         thenp (bindp (getsp policyVersion) (\<lambda>v.
             requirep (detail_type detail = FlowRebalance \<and> \<not> target_committed detail \<longrightarrow>
                       createdAtPolicyVersion detail = Some v) PolicyChanged))
        (bindp (getsp delegations) (\<lambda>ds.
         bindp (case ds of None \<Rightarrow> throw MandateMissing
                | Some m \<Rightarrow> bindp (liftp (store_get m agentId)) (\<lambda>info. ret (agent_permissions info))) (\<lambda>perms.
         bindp (getsp (\<lambda>s. case pending_target detail of Some t \<Rightarrow> Some t | None \<Rightarrow> targetAllocation s)) (\<lambda>target.
         bindp (case target of None \<Rightarrow> throw TargetMissing | Some t \<Rightarrow> ret t) (\<lambda>t.
         thenp (liftp (vetMandate perms t obs))
        (thenp (case pending_target detail of
                  None \<Rightarrow> ret ()
                | Some t' \<Rightarrow> bindp (updateTargetAllocation t') (\<lambda>v. resolvePendingPolicy flowId v))
         syncState))))))))"

end
