(* ===== verification/Observations.thy ===== *)
theory Observations
  imports DelegationLimits
begin

text \<open>
  Signed observations of a portfolio: the conversions between the message and the application
  record (\<open>portfolio-api/src/observation-messages.ts\<close>), and the verifier
  (\<open>portfolio-contract/src/observation-verifier.ts\<close>).
\<close>

section \<open>Messages\<close>

record sync_state =
  sync_policyVersion :: nat
  sync_rebalanceCount :: nat

record portfolio_observations =
  po_portfolioId :: nat
  po_syncState :: sync_state
  po_observations :: observations

record observations_message =
  msg_portfolio :: int
  msg_policyVersion :: int
  msg_rebalanceCount :: int
  holdings :: "(string \<times> int) list"
  instruments :: "(string \<times> int) list"

definition MAX_SAFE_INTEGER :: int where
  "MAX_SAFE_INTEGER = 2 ^ 53 - 1"

definition toSafeNumber :: "int \<Rightarrow> error + nat" where
  "toSafeNumber v = bindr (requirer (v \<le> MAX_SAFE_INTEGER) BadObservations) (\<lambda>_. Inr (nat v))"

definition portfolioObservationsToEIP712 :: "portfolio_observations \<Rightarrow> observations_message" where
  "portfolioObservationsToEIP712 po =
     \<lparr>msg_portfolio = int (po_portfolioId po),
      msg_policyVersion = int (sync_policyVersion (po_syncState po)),
      msg_rebalanceCount = int (sync_rebalanceCount (po_syncState po)),
      holdings = concat (map (\<lambda>(place, b). case b of None \<Rightarrow> [] | Some v \<Rightarrow> [(place, v)]) (obs_balances (po_observations po))),
      instruments = instrumentTvls (po_observations po)\<rparr>"

text \<open>The two loops of the reading, each with the entries taken so far.\<close>

fun take_holdings :: "(string \<times> int option) list \<Rightarrow> (string \<times> int) list \<Rightarrow> error + (string \<times> int option) list" where
  "take_holdings bals [] = Inr bals"
| "take_holdings bals ((place, balanceUsdc) # rest) =
     bindr (requirer (isPortfolioBalancePlaceRef place) BadObservations) (\<lambda>_.
     bindr (requirer (place \<notin> fst ` set bals) BadObservations) (\<lambda>_.
     take_holdings (bals @ [(place, Some balanceUsdc)]) rest))"

fun take_instruments :: "(string \<times> int) list \<Rightarrow> (string \<times> int) list \<Rightarrow> error + (string \<times> int) list" where
  "take_instruments tvls [] = Inr tvls"
| "take_instruments tvls ((instrumentId, tvlUsd) # rest) =
     bindr (requirer (isInstrumentId instrumentId) BadObservations) (\<lambda>_.
     bindr (requirer (instrumentId \<notin> fst ` set tvls) BadObservations) (\<lambda>_.
     take_instruments (tvls @ [(instrumentId, tvlUsd)]) rest))"

definition portfolioObservationsFromEIP712 :: "observations_message \<Rightarrow> error + portfolio_observations" where
  "portfolioObservationsFromEIP712 m =
     bindr (take_holdings [] (holdings m)) (\<lambda>bals.
     bindr (take_instruments [] (instruments m)) (\<lambda>tvls.
     bindr (toSafeNumber (msg_portfolio m)) (\<lambda>pid.
     bindr (toSafeNumber (msg_policyVersion m)) (\<lambda>v.
     bindr (toSafeNumber (msg_rebalanceCount m)) (\<lambda>c.
     Inr \<lparr>po_portfolioId = pid, po_syncState = \<lparr>sync_policyVersion = v, sync_rebalanceCount = c\<rparr>,
          po_observations = \<lparr>obs_balances = bals, instrumentTvls = tvls\<rparr>\<rparr>)))))"

section \<open>The verifier\<close>

text \<open>EVM addresses are compared without regard to the case of their letters.\<close>

definition lower_char :: "char \<Rightarrow> char" where
  "lower_char c =
     (case map_of (zip ''ABCDEFGHIJKLMNOPQRSTUVWXYZ'' ''abcdefghijklmnopqrstuvwxyz'') c of None \<Rightarrow> c | Some d \<Rightarrow> d)"

definition toLowerCase :: "string \<Rightarrow> string" where
  "toLowerCase s = map lower_char s"

definition sameEvmAddress :: "string \<Rightarrow> string option \<Rightarrow> bool" where
  "sameEvmAddress a b \<longleftrightarrow> Some (toLowerCase a) = map_option toLowerCase b"

definition isEvmAddressShape :: "string \<Rightarrow> bool" where
  "isEvmAddressShape x \<longleftrightarrow> startsWith x ''0x'' \<and> length x = 42 \<and>
     list_all (\<lambda>c. c \<in> set ''0123456789abcdefABCDEF'') (drop 2 x)"

text \<open>
  The vendored EIP-712 library is a parameter: who signed a message, and the operation, data,
  nonce and deadline of a well-formed one.
\<close>

record signed_operation =
  so_operation :: string
  so_data :: observations_message
  so_nonce :: int
  so_deadline :: int

record 'g attestation =
  attestorAddress :: string
  recoverSigner :: "'g \<Rightarrow> error + string"
  operationDetails :: "'g \<Rightarrow> string \<Rightarrow> error + signed_operation"

record verified_observations = portfolio_observations +
  issuedAt :: int
  deadline :: int

definition MAX_OBSERVATION_AGE_SECONDS :: int where
  "MAX_OBSERVATION_AGE_SECONDS = 15 * 60"

definition MAX_OBSERVATION_CLOCK_SKEW_SECONDS :: int where
  "MAX_OBSERVATION_CLOCK_SKEW_SECONDS = 30"

definition verifyPortfolioObservations :: "'g attestation \<Rightarrow> int \<Rightarrow> 'g \<Rightarrow> error + verified_observations" where
  "verifyPortfolioObservations att now sg =
     bindr (recoverSigner att sg) (\<lambda>signer.
     bindr (requirer (sameEvmAddress signer (Some (attestorAddress att))) NotSigned) (\<lambda>_.
     bindr (operationDetails att sg signer) (\<lambda>d.
     bindr (requirer (so_operation d = ''PortfolioObservations'') NotObservations) (\<lambda>_.
     bindr (portfolioObservationsFromEIP712 (so_data d)) (\<lambda>content.
     bindr (requirer (now \<le> so_deadline d) DeadlinePassed) (\<lambda>_.
     bindr (requirer (so_nonce d \<le> now + MAX_OBSERVATION_CLOCK_SKEW_SECONDS) NotYetIssued) (\<lambda>_.
     bindr (requirer (now \<le> so_nonce d + MAX_OBSERVATION_AGE_SECONDS) TooOld) (\<lambda>_.
     Inr (portfolio_observations.extend content
            (verified_observations.fields (so_nonce d) (so_deadline d)))))))))))"

section \<open>Facts\<close>

lemma toSafeNumber_Inr: "toSafeNumber v = Inr n \<longleftrightarrow> v \<le> MAX_SAFE_INTEGER \<and> n = nat v"
  by (auto simp: toSafeNumber_def bindr_Inr_iff)

text \<open>Each loop takes every entry, and ends normally exactly on valid entries with distinct keys.\<close>

lemma take_holdings_Inr:
  "take_holdings bals hs = Inr r \<longleftrightarrow>
     (\<forall>h \<in> set hs. isPortfolioBalancePlaceRef (fst h)) \<and> distinct (map fst hs) \<and>
     fst ` set hs \<inter> fst ` set bals = {} \<and> r = bals @ map (\<lambda>(p, b). (p, Some b)) hs"
  by (induction bals hs rule: take_holdings.induct) (auto simp: bindr_Inr_iff)

lemma take_instruments_Inr:
  "take_instruments tvls is = Inr r \<longleftrightarrow>
     (\<forall>i \<in> set is. isInstrumentId (fst i)) \<and> distinct (map fst is) \<and>
     fst ` set is \<inter> fst ` set tvls = {} \<and> r = tvls @ is"
  by (induction tvls "is" rule: take_instruments.induct) (auto simp: bindr_Inr_iff)

lemma from_observations_cases:
  "portfolioObservationsFromEIP712 m = Inr po \<longleftrightarrow>
     (\<forall>h \<in> set (holdings m). isPortfolioBalancePlaceRef (fst h)) \<and> distinct (map fst (holdings m)) \<and>
     (\<forall>i \<in> set (instruments m). isInstrumentId (fst i)) \<and> distinct (map fst (instruments m)) \<and>
     msg_portfolio m \<le> MAX_SAFE_INTEGER \<and> msg_policyVersion m \<le> MAX_SAFE_INTEGER \<and>
     msg_rebalanceCount m \<le> MAX_SAFE_INTEGER \<and>
     po = \<lparr>po_portfolioId = nat (msg_portfolio m),
           po_syncState = \<lparr>sync_policyVersion = nat (msg_policyVersion m), sync_rebalanceCount = nat (msg_rebalanceCount m)\<rparr>,
           po_observations = \<lparr>obs_balances = map (\<lambda>(p, b). (p, Some b)) (holdings m), instrumentTvls = instruments m\<rparr>\<rparr>"
  unfolding portfolioObservationsFromEIP712_def bindr_Inr_iff take_holdings_Inr take_instruments_Inr toSafeNumber_Inr
  by auto

lemma concat_some: "concat (map ((\<lambda>(place, b). case b of None \<Rightarrow> [] | Some v \<Rightarrow> [(place, v)]) \<circ> (\<lambda>(p, b). (p, Some b))) hs) = hs"
  by (induction hs) auto

text \<open>What an observation means: its balances without the undefined ones.\<close>

definition defined_balances :: "observations \<Rightarrow> observations" where
  "defined_balances ob = ob\<lparr>obs_balances := filter (\<lambda>(_, b). b \<noteq> None) (obs_balances ob)\<rparr>"

lemma concat_defined:
  "map (\<lambda>(p, b). (p, Some b)) (concat (map (\<lambda>(place, b). case b of None \<Rightarrow> [] | Some v \<Rightarrow> [(place, v)]) bs)) =
     filter (\<lambda>(_, b). b \<noteq> None) bs"
  by (induction bs) (auto split: option.splits)

lemma keys_defined:
  "map fst (concat (map (\<lambda>(place, b). case b of None \<Rightarrow> [] | Some v \<Rightarrow> [(place, v)]) bs)) =
     map fst (filter (\<lambda>(_, b). b \<noteq> None) bs)"
  by (induction bs) (auto split: option.splits)

lemma map_fst_filter_distinct: "distinct (map fst bs) \<Longrightarrow> distinct (map fst (filter P bs))"
  by (induction bs) auto

definition wf_observations :: "portfolio_observations \<Rightarrow> bool" where
  "wf_observations po \<longleftrightarrow>
     int (po_portfolioId po) \<le> MAX_SAFE_INTEGER \<and>
     int (sync_policyVersion (po_syncState po)) \<le> MAX_SAFE_INTEGER \<and>
     int (sync_rebalanceCount (po_syncState po)) \<le> MAX_SAFE_INTEGER \<and>
     distinct (map fst (obs_balances (po_observations po))) \<and>
     distinct (map fst (instrumentTvls (po_observations po))) \<and>
     list_all (\<lambda>(p, _). isPortfolioBalancePlaceRef p) (obs_balances (po_observations po)) \<and>
     list_all (\<lambda>(i, _). isInstrumentId i) (instrumentTvls (po_observations po))"

lemma from_to_observations:
  assumes "wf_observations po"
  shows "portfolioObservationsFromEIP712 (portfolioObservationsToEIP712 po) =
    Inr (po\<lparr>po_observations := defined_balances (po_observations po)\<rparr>)"
proof -
  obtain pid v c bals tvls where po: "po = \<lparr>po_portfolioId = pid,
      po_syncState = \<lparr>sync_policyVersion = v, sync_rebalanceCount = c\<rparr>,
      po_observations = \<lparr>obs_balances = bals, instrumentTvls = tvls\<rparr>\<rparr>"
    by (metis portfolio_observations.surjective sync_state.surjective observations.surjective old.unit.exhaust)
  have "\<forall>h \<in> set (holdings (portfolioObservationsToEIP712 po)). isPortfolioBalancePlaceRef (fst h)"
    using assms by (auto simp: po wf_observations_def portfolioObservationsToEIP712_def list_all_iff split: option.splits)
  then show ?thesis
    using assms unfolding from_observations_cases
    by (auto simp: po wf_observations_def portfolioObservationsToEIP712_def defined_balances_def list_all_iff
        concat_defined keys_defined map_fst_filter_distinct)
qed

lemma to_from_observations:
  assumes "portfolioObservationsFromEIP712 m = Inr po"
    and "0 \<le> msg_portfolio m" "0 \<le> msg_policyVersion m" "0 \<le> msg_rebalanceCount m"
  shows "wf_observations po \<and> portfolioObservationsToEIP712 po = m"
proof -
  have "distinct (map fst (map (\<lambda>(p, b). (p, Some b)) (holdings m)))" if "distinct (map fst (holdings m))"
    using that by (simp add: comp_def case_prod_beta)
  then show ?thesis
    using assms unfolding from_observations_cases
    by (auto simp: wf_observations_def portfolioObservationsToEIP712_def list_all_iff concat_some)
qed

text \<open>C33: A message with observations is read back exactly as it was written: the observations of a
  portfolio survive the conversion to the signed message and back, up to balances that are
  undefined; and a message that is accepted was in the form the writer produces, so no two
  different messages are read as the same observations.\<close>

theorem observations_round_trip:
  "(wf_observations po \<longrightarrow> portfolioObservationsFromEIP712 (portfolioObservationsToEIP712 po) =
      Inr (po\<lparr>po_observations := defined_balances (po_observations po)\<rparr>)) \<and>
   (portfolioObservationsFromEIP712 m = Inr po \<and> 0 \<le> msg_portfolio m \<and> 0 \<le> msg_policyVersion m \<and>
      0 \<le> msg_rebalanceCount m \<longrightarrow> wf_observations po \<and> portfolioObservationsToEIP712 po = m)"
  using from_to_observations to_from_observations by blast

definition ex_message :: observations_message where
  "ex_message = \<lparr>msg_portfolio = 3, msg_policyVersion = 2, msg_rebalanceCount = 0,
     holdings = [(''@Base'', 5000000), (''Aave_Base'', 7000000)], instruments = [(''Aave_Base'', 900)]\<rparr>"

definition ex_observations :: portfolio_observations where
  "ex_observations = \<lparr>po_portfolioId = 3, po_syncState = \<lparr>sync_policyVersion = 2, sync_rebalanceCount = 0\<rparr>,
     po_observations = \<lparr>obs_balances = [(''@Base'', Some 5000000), (''Aave_Base'', Some 7000000)],
       instrumentTvls = [(''Aave_Base'', 900)]\<rparr>\<rparr>"

lemma observations_round_trip_witness:
  "portfolioObservationsFromEIP712 ex_message = Inr ex_observations \<and>
   portfolioObservationsToEIP712 ex_observations = ex_message \<and>
   portfolioObservationsFromEIP712 (ex_message\<lparr>holdings := [(''@Base'', 1), (''@Base'', 2)]\<rparr>) = Inl BadObservations"
proof -
  have f: "portfolioObservationsFromEIP712 ex_message = Inr ex_observations"
    "portfolioObservationsFromEIP712 (ex_message\<lparr>holdings := [(''@Base'', 1), (''@Base'', 2)]\<rparr>) = Inl BadObservations"
    by code_simp+
  have "0 \<le> msg_portfolio ex_message" "0 \<le> msg_policyVersion ex_message" "0 \<le> msg_rebalanceCount ex_message"
    by (simp_all add: ex_message_def)
  then show ?thesis using f observations_round_trip [of ex_observations ex_message] by simp
qed

lemma verify_Inr:
  "verifyPortfolioObservations att now sg = Inr vo \<longleftrightarrow>
     (\<exists>signer d content. recoverSigner att sg = Inr signer \<and>
        sameEvmAddress signer (Some (attestorAddress att)) \<and> operationDetails att sg signer = Inr d \<and>
        so_operation d = ''PortfolioObservations'' \<and> portfolioObservationsFromEIP712 (so_data d) = Inr content \<and>
        now \<le> so_deadline d \<and> so_nonce d \<le> now + MAX_OBSERVATION_CLOCK_SKEW_SECONDS \<and>
        now \<le> so_nonce d + MAX_OBSERVATION_AGE_SECONDS \<and>
        vo = portfolio_observations.extend content (verified_observations.fields (so_nonce d) (so_deadline d)))"
  unfolding verifyPortfolioObservations_def bindr_Inr_iff requirer_Inr by auto

text \<open>Observations are relied upon only while they are fresh: a message that is accepted was
  signed by the attestor, not past its deadline, issued at most 30 seconds ahead of the chain's
  clock and at most 15 minutes before it. The same message can therefore be accepted at two
  times at most 930 seconds apart, whatever deadline it was given.\<close>

theorem observations_are_fresh:
  assumes "verifyPortfolioObservations att now sg = Inr vo"
  shows "(\<exists>signer. recoverSigner att sg = Inr signer \<and> sameEvmAddress signer (Some (attestorAddress att))) \<and>
    now \<le> deadline vo \<and> issuedAt vo - 30 \<le> now \<and> now \<le> issuedAt vo + 900 \<and>
    (verifyPortfolioObservations att later sg = Inr vo' \<longrightarrow> vo' = vo \<and> later \<le> now + 930)"
  using assms unfolding verify_Inr
  by (auto simp: MAX_OBSERVATION_CLOCK_SKEW_SECONDS_def MAX_OBSERVATION_AGE_SECONDS_def
      portfolio_observations.defs verified_observations.defs)

definition ex_attestation :: "nat attestation" where
  "ex_attestation = \<lparr>attestorAddress = ''0xAb'', recoverSigner = (\<lambda>sg. if sg = 7 then Inr ''0xaB'' else Inl NotSigned),
     operationDetails = (\<lambda>_ _. Inr \<lparr>so_operation = ''PortfolioObservations'', so_data = ex_message,
       so_nonce = 1000, so_deadline = 5000\<rparr>)\<rparr>"

lemma observations_are_fresh_witness:
  "(\<exists>vo. verifyPortfolioObservations ex_attestation 1900 7 = Inr vo \<and> 1900 \<le> deadline vo \<and> 1900 \<le> issuedAt vo + 900) \<and>
   verifyPortfolioObservations ex_attestation 1901 7 = Inl TooOld \<and>
   verifyPortfolioObservations ex_attestation 969 7 = Inl NotYetIssued"
proof -
  let ?vo = "portfolio_observations.extend ex_observations (verified_observations.fields 1000 5000)"
  have v: "verifyPortfolioObservations ex_attestation 1900 7 = Inr ?vo"
    "verifyPortfolioObservations ex_attestation 1901 7 = Inl TooOld"
    "verifyPortfolioObservations ex_attestation 969 7 = Inl NotYetIssued"
    by code_simp+
  show ?thesis using v observations_are_fresh [OF v(1)] by blast
qed

end
