(* ===== verification/Delegation.thy ===== *)
theory Delegation
  imports PortfolioState Observations
begin

text \<open>
  Delegated control of a portfolio: the \<open>delegationHelper\<close> facet and the delegation methods of
  the manager (\<open>portfolio.exo.ts\<close>), the clients handed to agents (\<open>delegation.exo.ts\<close>), the
  delivery of a client (\<open>portfolio.contract.ts\<close>) and the planner's own entry points
  (\<open>planner.exo.ts\<close>), all under \<open>portfolio-contract/src\<close>.
\<close>

section \<open>Authorization\<close>

datatype permission = AllocationPermission | RebalancePermission | ClaimRewardsPermission

text \<open>A permission is held when its value is truthy; a record of limits is.\<close>

definition may_allocate :: "permissions \<Rightarrow> bool" where
  "may_allocate perms =
     (case perm_allocation perms of None \<Rightarrow> False | Some (AllowAll b) \<Rightarrow> b | Some (Limited _) \<Rightarrow> True)"

definition holds_permission :: "permissions \<Rightarrow> permission \<Rightarrow> bool" where
  "holds_permission perms p =
     (case p of
        AllocationPermission \<Rightarrow> may_allocate perms
      | RebalancePermission \<Rightarrow> perm_rebalance perms = Some True
      | ClaimRewardsPermission \<Rightarrow> perm_claimRewards perms = Some True)"

definition getAuthorizedDelegation :: "delegation_client \<Rightarrow> nat \<Rightarrow> permission list \<Rightarrow> agent_info portfolio_method" where
  "getAuthorizedDelegation client agentId required =
     bindp (getsp delegations) (\<lambda>ds.
     case ds of
       None \<Rightarrow> throw DelegationInactive
     | Some m \<Rightarrow>
         bindp (liftp (store_get m agentId)) (\<lambda>status.
         thenp (requirep (activeClient status = Some client) AgentMismatch)
        (thenp (requirep (agent_state status = Active) DelegationInactive)
        (thenp (requirep (list_all (holds_permission (agent_permissions status)) required) NotAuthorized)
        (ret status)))))"

definition helperGetPortfolioId :: "delegation_client \<Rightarrow> nat \<Rightarrow> nat portfolio_method" where
  "helperGetPortfolioId client agentId =
     bindp (getAuthorizedDelegation client agentId []) (\<lambda>_. getsp portfolioId)"

definition helperGetAutoFeatures :: "delegation_client \<Rightarrow> nat \<Rightarrow> auto_features option portfolio_method" where
  "helperGetAutoFeatures client agentId =
     bindp (getAuthorizedDelegation client agentId []) (\<lambda>_. getsp enabledAutoFeatures)"

definition helperGetTargetAllocation :: "delegation_client \<Rightarrow> nat \<Rightarrow> target_allocation option portfolio_method" where
  "helperGetTargetAllocation client agentId =
     bindp (getAuthorizedDelegation client agentId []) (\<lambda>_. getsp targetAllocation)"

definition insistLatestFlowFinished :: "unit portfolio_method" where
  "insistLatestFlowFinished =
     bindp (getsp (\<lambda>s. store_has (flowsRunning s) (nextFlowId s - 1))) (\<lambda>busy. requirep (\<not> busy) FlowStillRunning)"

section \<open>Submissions\<close>

record set_target_params =
  sp_syncState :: sync_state
  sp_target :: target_allocation
  sp_memo :: "string option"
  sp_plan :: "funds_flow_plan option"

record flow_params =
  fp_syncState :: sync_state
  fp_memo :: "string option"

definition checkSyncState :: "sync_state \<Rightarrow> unit portfolio_method" where
  "checkSyncState sy = checkVersion (sync_policyVersion sy) (sync_rebalanceCount sy)"

definition checkObserved :: "set_target_params \<Rightarrow> verified_observations option \<Rightarrow> unit portfolio_method" where
  "checkObserved params verified =
     (if sp_plan params \<noteq> None \<or> verified \<noteq> None
      then (case verified of
              None \<Rightarrow> throw BadObservations
            | Some vo \<Rightarrow>
                bindp (getsp portfolioId) (\<lambda>pid.
                thenp (requirep (po_portfolioId vo = pid) BadObservations)
               (requirep (po_syncState vo = sp_syncState params) BadObservations)))
      else ret ())"

definition currentBalancePlaces :: "portfolio_state \<Rightarrow> string list" where
  "currentBalancePlaces s = map (\<lambda>chain. ''@'' @ chain) (store_keys (accounts s)) @ store_keys (positions s)"

definition vetBeforeFlow :: "permissions \<Rightarrow> set_target_params \<Rightarrow> verified_observations option
    \<Rightarrow> bool option portfolio_method" where
  "vetBeforeFlow perms params verified =
     (case (sp_plan params, verified) of
        (Some plan, Some vo) \<Rightarrow>
          bindp (getsp currentBalancePlaces) (\<lambda>places.
          thenp (liftp (vetObservationPlaces places plan (po_observations vo)))
         (bindp (liftp (vetAllocationPlan perms (sp_target params) (Some plan) (Some (po_observations vo)))) (\<lambda>ok.
          ret (Some ok))))
      | _ \<Rightarrow> ret None)"

definition commitAllocation :: "(error \<Rightarrow> string) \<Rightarrow> permissions \<Rightarrow> set_target_params \<Rightarrow> verified_observations option
    \<Rightarrow> bool option \<Rightarrow> nat \<Rightarrow> unit portfolio_method" where
  "commitAllocation msg perms params verified vetted flowId =
     bindp (case vetted of
              Some b \<Rightarrow> ret b
            | None \<Rightarrow> liftp (vetAllocationPlan perms (sp_target params) (sp_plan params)
                             (map_option po_observations verified))) (\<lambda>commitNow.
     thenp (whenp commitNow
              (bindp (updateTargetAllocation (sp_target params)) (\<lambda>v. resolvePendingPolicy flowId v)))
    (case sp_plan params of None \<Rightarrow> ret () | Some plan \<Rightarrow> resolveFlowPlan msg flowId (Plan plan)))"

definition set_target_detail :: "nat \<Rightarrow> set_target_params \<Rightarrow> flow_detail" where
  "set_target_detail agentId params =
     (plain_detail FlowRebalance)\<lparr>detail_agent := Some agentId, agentMemo := sp_memo params,
        createdAtPolicyVersion := Some (sync_policyVersion (sp_syncState params)),
        initiatingOperation := Some \<lparr>op_type = SetTargetAllocation, op_target = sp_target params, op_status = OpPending\<rparr>\<rparr>"

definition submitTargetAllocation :: "(error \<Rightarrow> string) \<Rightarrow> delegation_client \<Rightarrow> nat \<Rightarrow> set_target_params
    \<Rightarrow> verified_observations option \<Rightarrow> nat portfolio_method" where
  "submitTargetAllocation msg client agentId params verified =
     bindp (getAuthorizedDelegation client agentId [AllocationPermission]) (\<lambda>delegation.
     thenp (checkSyncState (sp_syncState params))
    (thenp (checkObserved params verified)
    (bindp (vetBeforeFlow (agent_permissions delegation) params verified) (\<lambda>vetted.
     thenp insistLatestFlowFinished
    (bindp (startFlow (set_target_detail agentId params) None) (\<lambda>flowId.
     thenp (executePlan flowId)
    (thenp (catchp (commitAllocation msg (agent_permissions delegation) params verified vetted flowId)
              (\<lambda>reason. rejectFlowPlan flowId (msg reason)))
    (ret flowId))))))))"

definition submitRebalance :: "(error \<Rightarrow> string) \<Rightarrow> delegation_client \<Rightarrow> nat \<Rightarrow> flow_params \<Rightarrow> nat portfolio_method" where
  "submitRebalance msg client agentId params =
     bindp (getAuthorizedDelegation client agentId [RebalancePermission]) (\<lambda>delegation.
     thenp (checkSyncState (fp_syncState params))
    (bindp (case perm_allocation (agent_permissions delegation) of
              Some (Limited _) \<Rightarrow>
                bindp (getsp targetAllocation) (\<lambda>t. case t of None \<Rightarrow> throw TargetMissing | Some t' \<Rightarrow> ret (Some t'))
            | _ \<Rightarrow> ret None) (\<lambda>target.
     thenp insistLatestFlowFinished
    (bindp (startFlow ((plain_detail FlowRebalance)\<lparr>detail_agent := Some agentId, agentMemo := fp_memo params,
              createdAtPolicyVersion := Some (sync_policyVersion (fp_syncState params))\<rparr>) None) (\<lambda>flowId.
     thenp (executePlan flowId)
    (thenp (case target of
              None \<Rightarrow> ret ()
            | Some t \<Rightarrow> catchp (liftp (assertMandateForAllocation (agent_permissions delegation) t))
                (\<lambda>reason. rejectFlowPlan flowId (msg reason)))
    (ret flowId)))))))"

definition submitClaimRewards :: "delegation_client \<Rightarrow> nat \<Rightarrow> flow_params \<Rightarrow> nat portfolio_method" where
  "submitClaimRewards client agentId params =
     bindp (getAuthorizedDelegation client agentId [ClaimRewardsPermission]) (\<lambda>_.
     thenp (checkSyncState (fp_syncState params))
    (thenp insistLatestFlowFinished
    (bindp (startFlow ((plain_detail FlowClaimRewards)\<lparr>detail_agent := Some agentId, agentMemo := fp_memo params\<rparr>) None) (\<lambda>flowId.
     thenp (executePlan flowId)
    (ret flowId)))))"

section \<open>Clients\<close>

definition TargetAllocationShape :: "target_allocation \<Rightarrow> bool" where
  "TargetAllocationShape t \<longleftrightarrow> distinct (map fst t) \<and>
     list_all (\<lambda>(k, v). (k \<in> fst ` set PoolPlaces \<or> k \<in> set (map (\<lambda>c. ''@'' @ c) AxelarChain)) \<and>
                        (case v of None \<Rightarrow> False | Some n \<Rightarrow> 0 \<le> n)) t"

definition PortfolioFlowAgentMemoShape :: "string \<Rightarrow> bool" where
  "PortfolioFlowAgentMemoShape memo \<longleftrightarrow> length memo \<le> 64"

definition auditKeys :: "('k \<times> 'a) list \<Rightarrow> ('k \<times> 'b) list \<Rightarrow> 'k list \<times> 'k list" where
  "auditKeys expected actual =
     (filter (\<lambda>k. k \<notin> set (map fst expected)) (map fst actual),
      filter (\<lambda>k. k \<notin> set (map fst actual)) (map fst expected))"

definition isActive :: "delegation_client \<Rightarrow> bool portfolio_method" where
  "isActive client =
     catchp (bindp (getAuthorizedDelegation client (client_agent client) []) (\<lambda>_. ret True)) (\<lambda>_. ret False)"

definition clientRebalance :: "(error \<Rightarrow> string) \<Rightarrow> delegation_client \<Rightarrow> flow_params \<Rightarrow> nat portfolio_method" where
  "clientRebalance msg client params =
     thenp (requirep (all_some PortfolioFlowAgentMemoShape (fp_memo params)) ShapeMismatch)
    (submitRebalance msg client (client_agent client) params)"

definition clientClaimRewards :: "delegation_client \<Rightarrow> flow_params \<Rightarrow> nat portfolio_method" where
  "clientClaimRewards client params =
     thenp (requirep (all_some PortfolioFlowAgentMemoShape (fp_memo params)) ShapeMismatch)
    (submitClaimRewards client (client_agent client) params)"

text \<open>
  \<open>setTargetAllocation\<close> up to the verification it awaits, and after it. The result of the first
  part tells which signed observations are to be verified.
\<close>

definition clientSetTarget :: "delegation_client \<Rightarrow> set_target_params \<Rightarrow> 'g option \<Rightarrow> unit portfolio_method" where
  "clientSetTarget client params signedObservations =
     thenp (requirep (TargetAllocationShape (sp_target params) \<and>
              all_some PortfolioFlowAgentMemoShape (sp_memo params)) ShapeMismatch)
    (bindp (getAuthorizedDelegation client (client_agent client) [AllocationPermission]) (\<lambda>_.
     thenp (requirep ((sp_plan params = None) = (signedObservations = None)) BadObservations)
    (case sp_plan params of None \<Rightarrow> ret () | Some plan \<Rightarrow> liftp (vetNoSwaps (plan_flow plan)))))"

definition clientSetTargetVerified :: "(error \<Rightarrow> string) \<Rightarrow> delegation_client \<Rightarrow> set_target_params
    \<Rightarrow> error + verified_observations option \<Rightarrow> nat portfolio_method" where
  "clientSetTargetVerified msg client params outcome =
     bindp (liftp outcome) (\<lambda>verified.
     bindp (helperGetTargetAllocation client (client_agent client)) (\<lambda>current.
     case auditKeys (case current of None \<Rightarrow> [] | Some t \<Rightarrow> t) (sp_target params) of (extra, missing) \<Rightarrow>
       thenp (requirep (length extra = 0) UnauthorizedPosition)
      (thenp (requirep (length missing = 0) UnauthorizedPosition)
      (submitTargetAllocation msg client (client_agent client) params verified))))"

section \<open>Granting\<close>

text \<open>
  What an asynchronous owner method of the portfolio is waiting for. \<open>GrantDelivering\<close> is the
  delivery of a client, \<open>GrantReturned\<close> the settled promise of \<open>grantDelegation\<close>.
\<close>

definition PortfolioPlannerAgent :: string where
  "PortfolioPlannerAgent = ''&planner''"

datatype grant_caller = EvmGrant | AutoFeatures auto_features

datatype awaiting =
    GrantBegin string permissions
  | GrantDeliver grant_caller nat delegation_client string permissions nat
  | GrantDelivering grant_caller nat delegation_client string permissions nat
  | GrantReturned grant_caller "error + nat \<times> nat"
  | FeaturesMerged auto_features permissions "nat option" bool

definition grantDelegation :: "grant_caller \<Rightarrow> string \<Rightarrow> permissions \<Rightarrow> awaiting portfolio_method" where
  "grantDelegation caller who perms =
     thenp (modifyp (\<lambda>s. s\<lparr>delegations := Some (agents s)\<rparr>))
    (bindp (getsp (\<lambda>s. store_size (agents s) + 1)) (\<lambda>nextAgentId.
     bindp (getsp clientsMade) (\<lambda>n.
     let client = \<lparr>client_no = n, client_agent = nextAgentId\<rparr> in
     thenp (modifyp (\<lambda>s. s\<lparr>clientsMade := n + 1\<rparr>))
    (bindp bumpPolicyVersion (\<lambda>v.
     thenp (writeStore agents put_agents (\<lambda>m. store_init m nextAgentId
        \<lparr>grantee = who, agent_permissions = perms, agent_state = Active, updatedAtPolicyVersion = Some v,
         activeClient = Some client\<rparr>))
    (ret (GrantDeliver caller nextAgentId client who perms v)))))))"

text \<open>The planner's client is set at once; an invitation is made and mailed, if there is a postal service.\<close>

definition deliverDelegation :: "grant_caller \<Rightarrow> nat \<Rightarrow> delegation_client \<Rightarrow> string \<Rightarrow> permissions \<Rightarrow> nat
    \<Rightarrow> awaiting portfolio_method" where
  "deliverDelegation caller agentId client who perms v =
     (if who = PortfolioPlannerAgent
      then thenp (modifyp (\<lambda>s. s\<lparr>plannerClient := Some client\<rparr>)) (ret (GrantDelivering caller agentId client who perms v))
      else ret (GrantDelivering caller agentId client who perms v))"

definition grantDelivered :: "nat \<Rightarrow> string \<Rightarrow> permissions \<Rightarrow> nat \<Rightarrow> error + unit \<Rightarrow> (nat \<times> nat) portfolio_method" where
  "grantDelivered agentId who perms v outcome =
     finallyp
       (case outcome of
          Inr _ \<Rightarrow> ret (agentId, v)
        | Inl e \<Rightarrow>
            thenp (writeStore agents put_agents (\<lambda>m. store_set m agentId
               \<lparr>grantee = who, agent_permissions = perms, agent_state = Revoked, updatedAtPolicyVersion = Some v,
                activeClient = None\<rparr>))
           (throw e))
       publishAgents"

definition changePermissions :: "nat \<Rightarrow> permissions \<Rightarrow> nat portfolio_method" where
  "changePermissions agentId perms =
     bindp (getsp delegations) (\<lambda>ds.
     thenp (requirep (case ds of None \<Rightarrow> False | Some m \<Rightarrow> store_has m agentId) NoSuchAgent)
    (bindp (readStore agents agentId) (\<lambda>delegation.
     thenp (requirep (agent_state delegation = Active) DelegationInactive)
    (bindp bumpPolicyVersion (\<lambda>v.
     thenp (writeStore agents put_agents (\<lambda>m. store_set m agentId
        (delegation\<lparr>agent_permissions := perms, updatedAtPolicyVersion := Some v\<rparr>)))
    (thenp publishAgents
    (ret v)))))))"

definition revokeDelegation :: "nat \<Rightarrow> nat portfolio_method" where
  "revokeDelegation agentId =
     bindp (getsp delegations) (\<lambda>ds.
     thenp (requirep (ds \<noteq> None) NoSuchAgent)
    (bindp (readStore agents agentId) (\<lambda>delegation.
     bindp bumpPolicyVersion (\<lambda>v.
     thenp (writeStore agents put_agents (\<lambda>m. store_set m agentId
        (delegation\<lparr>agent_state := Revoked, activeClient := None, updatedAtPolicyVersion := Some v\<rparr>)))
    (thenp (modifyp (\<lambda>s. if plannerAgentId s = Some agentId
                         then s\<lparr>plannerAgentId := None, enabledAutoFeatures := None\<rparr> else s))
    (thenp publishAgents
    (ret v)))))))"

section \<open>Auto-features\<close>

definition merge_option :: "'a option \<Rightarrow> 'a option \<Rightarrow> 'a option" where
  "merge_option old new = (case new of None \<Rightarrow> old | Some x \<Rightarrow> Some x)"

definition mergeAutoFeatures :: "auto_features option \<Rightarrow> auto_features \<Rightarrow> auto_features" where
  "mergeAutoFeatures enabled features =
     (case enabled of
        None \<Rightarrow> features
      | Some e \<Rightarrow> \<lparr>auto_rebalance = merge_option (auto_rebalance e) (auto_rebalance features),
                   auto_claimRewards = merge_option (auto_claimRewards e) (auto_claimRewards features)\<rparr>)"

definition featurePermissions :: "auto_features \<Rightarrow> permissions" where
  "featurePermissions f =
     \<lparr>perm_allocation = Some (AllowAll False), perm_rebalance = Some (auto_rebalance f = Some True),
      perm_claimRewards = Some (auto_claimRewards f = Some True)\<rparr>"

definition hasAnyPermission :: "permissions \<Rightarrow> bool" where
  "hasAnyPermission perms \<longleftrightarrow>
     may_allocate perms \<or> perm_rebalance perms = Some True \<or> perm_claimRewards perms = Some True"

definition setAutoFeatures :: "auto_features \<Rightarrow> awaiting portfolio_method" where
  "setAutoFeatures features =
     bindp (getsp (\<lambda>s. mergeAutoFeatures (enabledAutoFeatures s) features)) (\<lambda>merged.
     bindp (getsp plannerAgentId) (\<lambda>planner.
     case planner of
       None \<Rightarrow> ret (FeaturesMerged merged (featurePermissions merged) None False)
     | Some agentId \<Rightarrow>
         bindp (readStore agents agentId) (\<lambda>delegation.
         if agent_state delegation \<noteq> Active
         then thenp (modifyp (\<lambda>s. s\<lparr>plannerAgentId := None\<rparr>))
                (ret (FeaturesMerged merged (featurePermissions merged) None False))
         else ret (FeaturesMerged merged (featurePermissions merged) (Some agentId) True))))"

text \<open>After \<open>await null\<close>: either a grant is started, or the features are set.\<close>

definition setAutoFeaturesMerged :: "auto_features \<Rightarrow> permissions \<Rightarrow> nat option \<Rightarrow> bool
    \<Rightarrow> awaiting option portfolio_method" where
  "setAutoFeaturesMerged merged perms planner updateDelegation =
     (if hasAnyPermission perms \<and> planner = None
      then bindp (grantDelegation (AutoFeatures merged) PortfolioPlannerAgent perms) (\<lambda>a. ret (Some a))
      else
        thenp (if updateDelegation
               then (case planner of None \<Rightarrow> throw KeyNotFound
                     | Some agentId \<Rightarrow> bindp (changePermissions agentId perms) (\<lambda>_. ret ()))
               else bindp bumpPolicyVersion (\<lambda>_. ret ()))
       (thenp (modifyp (\<lambda>s. s\<lparr>enabledAutoFeatures := Some merged\<rparr>))
       (thenp publishStatus
       (ret None))))"

text \<open>The caller of \<open>grantDelegation\<close> once its promise settled.\<close>

definition grantReturned :: "grant_caller \<Rightarrow> error + nat \<times> nat \<Rightarrow> unit portfolio_method" where
  "grantReturned caller outcome =
     finallyp
       (bindp (liftp outcome) (\<lambda>(agentId, v).
        case caller of
          EvmGrant \<Rightarrow> ret ()
        | AutoFeatures merged \<Rightarrow>
            modifyp (\<lambda>s. s\<lparr>plannerAgentId := Some agentId, enabledAutoFeatures := Some merged\<rparr>)))
       publishStatus"

section \<open>The planner's entry points\<close>

definition targetPositions :: "portfolio_state \<Rightarrow> target_allocation" where
  "targetPositions s = (case targetAllocation s of None \<Rightarrow> [] | Some t \<Rightarrow> t)"

definition vetPlan :: "plan_or_steps \<Rightarrow> unit portfolio_method" where
  "vetPlan plan = bindp (getsp targetPositions) (\<lambda>t. liftp (vetNoNewPositions t (steps_of plan)))"

definition resolvePlan :: "(error \<Rightarrow> string) \<Rightarrow> nat \<Rightarrow> plan_or_steps \<Rightarrow> nat \<Rightarrow> nat \<Rightarrow> observations option
    \<Rightarrow> unit portfolio_method" where
  "resolvePlan msg flowId plan version count obs =
     thenp (vetPlan plan)
    (bindp (catchp (bindp (validateAndCommitPlanPolicy flowId obs version count) (\<lambda>sy. ret (Inr sy)))
              (\<lambda>reason. ret (Inl reason))) (\<lambda>accepted.
     case accepted of
       Inl reason \<Rightarrow> thenp (submitVersion version count) (rejectFlowPlan flowId (msg reason))
     | Inr (v, c) \<Rightarrow> thenp (submitVersion v c) (resolveFlowPlan msg flowId plan)))"

definition rejectPlan :: "nat \<Rightarrow> string \<Rightarrow> nat \<Rightarrow> nat \<Rightarrow> unit portfolio_method" where
  "rejectPlan flowId reason version count = thenp (submitVersion version count) (rejectFlowPlan flowId reason)"

definition plannerDelegation :: "(auto_features \<Rightarrow> bool option) \<Rightarrow> delegation_client portfolio_method" where
  "plannerDelegation feature =
     bindp (getsp plannerClient) (\<lambda>c.
     case c of
       None \<Rightarrow> throw AssertFailed
     | Some client \<Rightarrow>
         bindp (isActive client) (\<lambda>active.
         thenp (requirep active AssertFailed)
        (bindp (helperGetAutoFeatures client (client_agent client)) (\<lambda>features.
         thenp (requirep (case features of None \<Rightarrow> False | Some f \<Rightarrow> feature f = Some True) AutoFeatureDisabled)
        (ret client)))))"

definition plannerRebalance :: "(error \<Rightarrow> string) \<Rightarrow> flow_params \<Rightarrow> plan_or_steps \<Rightarrow> nat portfolio_method" where
  "plannerRebalance msg params plan =
     bindp (plannerDelegation auto_rebalance) (\<lambda>client.
     bindp (clientRebalance msg client params) (\<lambda>flowId.
     thenp (vetPlan plan)
    (thenp (submitVersion (sync_policyVersion (fp_syncState params)) (sync_rebalanceCount (fp_syncState params)))
    (thenp (resolveFlowPlan msg flowId plan)
    (ret flowId)))))"

definition plannerClaimRewards :: "(error \<Rightarrow> string) \<Rightarrow> flow_params \<Rightarrow> plan_or_steps \<Rightarrow> nat portfolio_method" where
  "plannerClaimRewards msg params plan =
     bindp (plannerDelegation auto_claimRewards) (\<lambda>client.
     bindp (clientClaimRewards client params) (\<lambda>flowId.
     thenp (vetPlan plan)
    (thenp (submitVersion (sync_policyVersion (fp_syncState params)) (sync_rebalanceCount (fp_syncState params)))
    (thenp (resolveFlowPlan msg flowId plan)
    (ret flowId)))))"

end
