(* ===== verification/PortfolioOwner.thy ===== *)
theory PortfolioOwner
  imports Delegation
begin

text \<open>
  What the owner of a portfolio can do, \<open>portfolio-contract/src/portfolio.exo.ts\<close>: the
  \<open>evmHandler\<close> facet of a portfolio owned by an EVM account, the offer handlers of one owned
  by an Agoric account, and the transfer of ownership from the second to the first.
\<close>

section \<open>Configuration\<close>

text \<open>
  The contracts of a chain. The address predictions (CREATE2 hashes) and the chain
  identifiers are parameters.
\<close>

record evm_contracts =
  usdcToken :: string
  depositFactory :: "string option"
  remoteAccountRouter :: "string option"
  remoteAccountFactory :: "string option"
  remoteAccountImplementation :: "string option"

record portfolio_ports =
  errorMessage :: "error \<Rightarrow> string"
  eip155ChainIdToAxelarChain :: "string \<Rightarrow> string option"
  contracts :: "string \<Rightarrow> evm_contracts"
  predictRemoteAccountAddress :: "string \<Rightarrow> string \<Rightarrow> string \<Rightarrow> string"
  predictWalletAddress :: "string \<Rightarrow> string \<Rightarrow> string"

definition configured :: "string option \<Rightarrow> bool" where
  "configured x = (case x of None \<Rightarrow> False | Some a \<Rightarrow> length a > 2)"

definition DEFAULT_TO_ROUTER :: bool where
  "DEFAULT_TO_ROUTER = False"

definition useRouter :: "evm_contracts \<Rightarrow> bool" where
  "useRouter addresses =
     (if \<not> configured (remoteAccountRouter addresses) then False
      else if \<not> configured (depositFactory addresses) then True
      else DEFAULT_TO_ROUTER)"

definition routed :: "account_info \<Rightarrow> bool" where
  "routed info = (case info_detail info of GmpAccount _ _ rf \<Rightarrow> truthy rf | _ \<Rightarrow> False)"

definition useRouterForChain :: "portfolio_ports \<Rightarrow> string \<Rightarrow> portfolio_state \<Rightarrow> bool" where
  "useRouterForChain pw chain s =
     (case map_of (accounts s) chain of
        Some info \<Rightarrow> routed info
      | None \<Rightarrow>
          let chainSupportsRouter = configured (remoteAccountRouter (contracts pw chain));
              hasRoutedAccount = list_ex (\<lambda>(c, info). c \<in> set AxelarChain \<and> routed info) (accounts s)
          in if chainSupportsRouter \<and> hasRoutedAccount then True else useRouter (contracts pw chain))"

text \<open>The address of the local account; the portfolio is made with one.\<close>

definition getLocalAddress :: "portfolio_state \<Rightarrow> error + string" where
  "getLocalAddress s =
     bindr (store_get (accounts s) ''agoric'') (\<lambda>info.
     case info_detail info of AgoricAccount a _ \<Rightarrow> Inr (snd a) | _ \<Rightarrow> Inl AssertFailed)"

section \<open>Representative contracts\<close>

record representative =
  isRouter :: bool
  rep_address :: string
  predicted :: "error + string"

definition routerConfig :: "portfolio_ports \<Rightarrow> string \<Rightarrow> portfolio_state \<Rightarrow> representative option" where
  "routerConfig pw chain s =
     (let c = contracts pw chain in
      if configured (remoteAccountRouter c) \<and> configured (remoteAccountFactory c) \<and> configured (remoteAccountImplementation c)
      then Some \<lparr>isRouter = True, rep_address = the (remoteAccountRouter c),
             predicted = map_sum id (\<lambda>owner. predictRemoteAccountAddress pw owner (the (remoteAccountFactory c))
               (the (remoteAccountImplementation c))) (getLocalAddress s)\<rparr>
      else None)"

definition depositFactoryConfig :: "portfolio_ports \<Rightarrow> string \<Rightarrow> portfolio_state \<Rightarrow> representative option" where
  "depositFactoryConfig pw chain s =
     (let c = contracts pw chain in
      if configured (depositFactory c)
      then Some \<lparr>isRouter = False, rep_address = the (depositFactory c),
             predicted = map_sum id (predictWalletAddress pw chain) (getLocalAddress s)\<rparr>
      else None)"

definition vetStrictly :: "bool \<Rightarrow> string \<Rightarrow> string \<Rightarrow> representative option \<Rightarrow> error + unit" where
  "vetStrictly strict rep remote cfg =
     (case cfg of
        None \<Rightarrow> Inr ()
      | Some c \<Rightarrow>
          if strict \<and> (isRouter c \<or> sameEvmAddress rep (Some (rep_address c)))
          then bindr (predicted c) (\<lambda>expected. requirer (sameEvmAddress remote (Some expected)) BadRepresentative)
          else Inr ())"

text \<open>The remote account, existing or predicted, and the representative it is reached through.\<close>

definition representativeOf :: "portfolio_ports \<Rightarrow> string \<Rightarrow> string \<Rightarrow> bool \<Rightarrow> portfolio_state
    \<Rightarrow> error + string \<times> representative option" where
  "representativeOf pw chain rep strict s =
     (case map_of (accounts s) chain of
        Some info \<Rightarrow>
          (case info_detail info of
             GmpAccount _ remote rf \<Rightarrow>
               let cfg = (if truthy rf then routerConfig pw chain s else depositFactoryConfig pw chain s) in
               bindr (vetStrictly strict rep remote cfg) (\<lambda>_. Inr (remote, cfg))
           | _ \<Rightarrow> Inl AssertFailed)
      | None \<Rightarrow>
          let router = routerConfig pw chain s;
              depo = depositFactoryConfig pw chain s;
              matching = List.find (\<lambda>c. sameEvmAddress rep (Some (rep_address c)))
                (List.map_filter (\<lambda>c. c) [router, depo]);
              cfg = (case matching of Some c \<Rightarrow> Some c
                     | None \<Rightarrow> if useRouterForChain pw chain s then router else depo)
          in (case cfg of
                None \<Rightarrow> Inl BadRepresentative
              | Some c \<Rightarrow> bindr (predicted c) (\<lambda>remote. Inr (remote, cfg))))"

definition validateRepresentativeInfo :: "portfolio_ports \<Rightarrow> string \<Rightarrow> string \<Rightarrow> bool \<Rightarrow> unit portfolio_method" where
  "validateRepresentativeInfo pw eip155Id rep strict =
     bindp (case eip155ChainIdToAxelarChain pw eip155Id of None \<Rightarrow> throw UnknownChain | Some c \<Rightarrow> ret c) (\<lambda>chain.
     bindp (getsp (representativeOf pw chain rep strict)) (\<lambda>r.
     bindp (liftp r) (\<lambda>(remote, cfg).
     requirep (sameEvmAddress rep (map_option rep_address cfg) \<or> sameEvmAddress rep (Some remote)) BadRepresentative)))"

text \<open>The check of a message that opens a portfolio, when there is no account yet.\<close>

definition validateOpenMessageRepresentativeInfo :: "portfolio_ports \<Rightarrow> string \<Rightarrow> string \<Rightarrow> error + unit" where
  "validateOpenMessageRepresentativeInfo pw eip155Id rep =
     (case eip155ChainIdToAxelarChain pw eip155Id of
        None \<Rightarrow> Inl UnknownChain
      | Some chain \<Rightarrow>
          let addresses = contracts pw chain in
          requirer (configured (remoteAccountRouter addresses) \<and> sameEvmAddress rep (remoteAccountRouter addresses) \<or>
                    configured (depositFactory addresses) \<and> sameEvmAddress rep (depositFactory addresses)) BadRepresentative)"

section \<open>Operations of an EVM owner\<close>

definition requireEvmOwner :: "string portfolio_method" where
  "requireEvmOwner =
     bindp (getsp sourceAccountId) (\<lambda>src.
     thenp (requirep (truthy src) EvmOwnerRequired)
    (ret (case src of None \<Rightarrow> [] | Some a \<Rightarrow> a)))"

definition makeUsdc :: "int \<Rightarrow> int portfolio_method" where
  "makeUsdc amt = thenp (requirep (0 \<le> amt) NotANat) (ret amt)"

definition chainForId :: "portfolio_ports \<Rightarrow> string \<Rightarrow> string portfolio_method" where
  "chainForId pw eip155Id =
     (case eip155ChainIdToAxelarChain pw eip155Id of None \<Rightarrow> throw UnknownChain | Some c \<Rightarrow> ret c)"

definition runFlow :: "flow_detail \<Rightarrow> movement list option \<Rightarrow> nat portfolio_method" where
  "runFlow detail steps = bindp (startFlow detail steps) (\<lambda>flowId. thenp (executePlan flowId) (ret flowId))"

record permit_details =
  permit_chainId :: string
  permit_token :: string
  permit_amount :: int
  permit_spender :: string
  permit_owner :: string

definition evmDeposit :: "portfolio_ports \<Rightarrow> permit_details \<Rightarrow> nat portfolio_method" where
  "evmDeposit pw permit =
     bindp requireEvmOwner (\<lambda>acct.
     bindp (liftp (parseAccountId acct)) (\<lambda>p.
     thenp (requirep (sameEvmAddress (permit_owner permit) (Some (accountAddress p))) WrongOwner)
    (thenp (validateRepresentativeInfo pw (permit_chainId permit) (permit_spender permit) True)
    (bindp (chainForId pw (permit_chainId permit)) (\<lambda>chain.
     thenp (requirep (sameEvmAddress (permit_token permit) (Some (usdcToken (contracts pw chain)))) WrongToken)
    (bindp (makeUsdc (permit_amount permit)) (\<lambda>amt.
     runFlow ((plain_detail FlowDeposit)\<lparr>detail_amount := Some amt, detail_fromChain := Some chain\<rparr>) None)))))))"

definition committed_target :: "target_allocation \<Rightarrow> nat \<Rightarrow> initiating_operation" where
  "committed_target t v = \<lparr>op_type = SetTargetAllocation, op_target = t, op_status = OpOk v\<rparr>"

definition evmRebalance :: "(string \<times> int) list option \<Rightarrow> permit_details option \<Rightarrow> nat portfolio_method" where
  "evmRebalance allocations permit =
     bindp requireEvmOwner (\<lambda>_.
     thenp (requirep (permit = None) DepositUnsupported)
    (bindp (case allocations of
              Some als \<Rightarrow>
                thenp (requirep (length als > 0) EmptyAllocations)
               (let target = to_map (map (\<lambda>(i, portion). (i, Some portion)) als) in
                bindp (setTargetAllocation target) (\<lambda>v. ret (Some (committed_target target v))))
            | None \<Rightarrow>
                bindp (getsp targetAllocation) (\<lambda>t.
                thenp (requirep (case t of None \<Rightarrow> False | Some t' \<Rightarrow> length t' > 0) TargetMissing)
               (ret None))) (\<lambda>opn.
     runFlow ((plain_detail FlowRebalance)\<lparr>initiatingOperation := opn\<rparr>) None)))"

definition evmWithdraw :: "portfolio_ports \<Rightarrow> int \<Rightarrow> string \<Rightarrow> string option \<Rightarrow> string option \<Rightarrow> nat portfolio_method" where
  "evmWithdraw pw amt token domainChainId toAddress =
     bindp requireEvmOwner (\<lambda>acct.
     bindp (liftp (parseAccountId acct)) (\<lambda>p.
     thenp (requirep (namespace p = ''eip155'') MalformedAccountId)
    (bindp (chainForId pw (case domainChainId of None \<Rightarrow> reference p | Some c \<Rightarrow> c)) (\<lambda>chain.
     thenp (requirep (\<not> truthy toAddress \<or> sameEvmAddress (accountAddress p) toAddress) WrongOwner)
    (thenp (requirep (sameEvmAddress token (Some (usdcToken (contracts pw chain)))) WrongToken)
    (bindp (makeUsdc amt) (\<lambda>a.
     runFlow ((plain_detail FlowWithdraw)\<lparr>detail_amount := Some a, detail_toChain := Some chain\<rparr>) None)))))))"

text \<open>\<open>grant\<close> waits once before it grants; its second part is \<open>grantDelegation\<close>.\<close>

definition evmGrant :: "string \<Rightarrow> permissions \<Rightarrow> awaiting portfolio_method" where
  "evmGrant who perms =
     bindp requireEvmOwner (\<lambda>_.
     thenp (requirep (PortfolioPermissionsShape perms) ShapeMismatch)
    (thenp (requirep (may_allocate perms) AllocationRequired)
    (ret (GrantBegin who perms))))"

definition assertExternalDelegationTarget :: "nat \<Rightarrow> unit portfolio_method" where
  "assertExternalDelegationTarget agentId =
     bindp (getsp delegations) (\<lambda>ds.
     thenp (requirep (case ds of None \<Rightarrow> False | Some m \<Rightarrow> store_has m agentId) NoSuchAgent)
    (bindp (readStore agents agentId) (\<lambda>delegation.
     bindp (getsp plannerAgentId) (\<lambda>planner.
     thenp (requirep (Some agentId \<noteq> planner) PlannerDelegation)
    (thenp (requirep (grantee delegation \<noteq> PortfolioPlannerAgent \<or> agent_state delegation = Revoked) PlannerDelegation)
    (requirep (agent_state delegation = Active) DelegationInactive))))))"

definition evmChangePermissions :: "nat \<Rightarrow> permissions \<Rightarrow> nat portfolio_method" where
  "evmChangePermissions agentId perms =
     bindp requireEvmOwner (\<lambda>_.
     thenp (requirep (PortfolioPermissionsShape perms) ShapeMismatch)
    (thenp (assertExternalDelegationTarget agentId)
    (bindp (changePermissions agentId perms) (\<lambda>v. thenp publishStatus (ret v)))))"

definition evmRevoke :: "nat \<Rightarrow> nat portfolio_method" where
  "evmRevoke agentId =
     bindp requireEvmOwner (\<lambda>_.
     thenp (assertExternalDelegationTarget agentId)
    (bindp (revokeDelegation agentId) (\<lambda>v. thenp publishStatus (ret v))))"

definition evmSetAutoFeatures :: "auto_features \<Rightarrow> awaiting portfolio_method" where
  "evmSetAutoFeatures features = bindp requireEvmOwner (\<lambda>_. setAutoFeatures features)"

section \<open>Offers of an Agoric owner\<close>

definition insistAgoricOwned :: "unit portfolio_method" where
  "insistAgoricOwned = bindp (getsp sourceAccountId) (\<lambda>src. requirep (\<not> truthy src) EvmOwned)"

record offer_args =
  offer_flow :: "movement list option"
  offer_target :: "target_allocation option"

definition rebalanceShape :: "offer_args \<Rightarrow> bool" where
  "rebalanceShape args \<longleftrightarrow> all_some TargetAllocationShape (offer_target args)"

definition handleRebalance :: "offer_args \<Rightarrow> nat portfolio_method" where
  "handleRebalance args =
     thenp insistAgoricOwned
    (thenp (requirep (rebalanceShape args) ShapeMismatch)
    (startFlow (plain_detail FlowRebalance) (offer_flow args)))"

text \<open>The legacy flow that \<open>rebalanceHandler\<close> starts, after its first wait; its steps follow.\<close>

definition legacyRebalance :: "offer_args \<Rightarrow> nat \<Rightarrow> unit portfolio_method" where
  "legacyRebalance args flowId =
     thenp (case offer_target args of
              Some t \<Rightarrow> bindp (setTargetAllocation t) (\<lambda>_. ret ())
            | None \<Rightarrow>
                whenp (case offer_flow args of None \<Rightarrow> False | Some ms \<Rightarrow> list_ex (\<lambda>m. dest m = ''+agoric'') ms)
                  (bindp incrPolicyVersion (\<lambda>_. ret ())))
    (case offer_flow args of None \<Rightarrow> finishFlow flowId | Some _ \<Rightarrow> executePlan flowId)"

definition handleDeposit :: "int \<Rightarrow> movement list option \<Rightarrow> nat portfolio_method" where
  "handleDeposit amt steps =
     thenp insistAgoricOwned (runFlow ((plain_detail FlowDeposit)\<lparr>detail_amount := Some amt\<rparr>) steps)"

definition handleSimpleRebalance :: "offer_args \<Rightarrow> nat portfolio_method" where
  "handleSimpleRebalance args =
     thenp insistAgoricOwned
    (thenp (requirep (rebalanceShape args) ShapeMismatch)
    (bindp (case offer_target args of
              None \<Rightarrow> ret None
            | Some t \<Rightarrow> bindp (setTargetAllocation t) (\<lambda>v. ret (Some (committed_target t v)))) (\<lambda>opn.
     runFlow ((plain_detail FlowRebalance)\<lparr>initiatingOperation := opn\<rparr>) (offer_flow args))))"

definition handleWithdraw :: "int \<Rightarrow> nat portfolio_method" where
  "handleWithdraw amt =
     thenp insistAgoricOwned (runFlow ((plain_detail FlowWithdraw)\<lparr>detail_amount := Some amt\<rparr>) None)"

section \<open>Transfer of ownership\<close>

definition MAX_YMAX_DEADLINE_OFFSET_SECONDS :: int where
  "MAX_YMAX_DEADLINE_OFFSET_SECONDS = 60 * 60 * 24"

text \<open>The offer; it then waits for the time.\<close>

definition handleTransferOwnership :: "string \<Rightarrow> int \<Rightarrow> unit portfolio_method" where
  "handleTransferOwnership evmAddress dl =
     thenp insistAgoricOwned
    (thenp (requirep (0 \<le> dl) ShapeMismatch)
    (requirep (isEvmAddressShape evmAddress) BadEvmAddress))"

text \<open>The log of calls on the resolvers of transfer vows.\<close>

definition settleTransfer :: "nat \<Rightarrow> transfer_result \<Rightarrow> unit portfolio_method" where
  "settleTransfer v r = modifyp (\<lambda>s. s\<lparr>transferResults := transferResults s @ [(v, r)]\<rparr>)"

definition callTimer :: "timer_call \<Rightarrow> unit portfolio_method" where
  "callTimer c = modifyp (\<lambda>s. s\<lparr>timerCalls := timerCalls s @ [c]\<rparr>)"

definition cancelExpiry :: "unit portfolio_method" where
  "cancelExpiry = callTimer CancelWakeup"

definition initiateTransfer :: "string \<Rightarrow> int \<Rightarrow> int \<Rightarrow> nat portfolio_method" where
  "initiateTransfer evmAddress dl now =
     thenp insistAgoricOwned
    (thenp (requirep (dl \<ge> now) DeadlinePassed)
    (thenp (requirep (dl \<le> now + MAX_YMAX_DEADLINE_OFFSET_SECONDS) DeadlineTooFar)
    (bindp (getsp pendingOwnerTransfer) (\<lambda>superseded.
     thenp (case superseded of
              None \<Rightarrow> ret ()
            | Some t \<Rightarrow> thenp (settleTransfer (transferResolver t) Superseded) cancelExpiry)
    (bindp (getsp vowsMade) (\<lambda>v.
     thenp (modifyp (\<lambda>s. s\<lparr>vowsMade := v + 1,
        pendingOwnerTransfer := Some \<lparr>designated = evmAddress, deadlineTimestampSeconds = dl, transferResolver = v\<rparr>\<rparr>))
    (thenp publishStatus
    (thenp (callTimer (SetWakeup (dl + 1)))
    (ret v)))))))))"

definition expireTransfer :: "unit portfolio_method" where
  "expireTransfer =
     bindp (getsp pendingOwnerTransfer) (\<lambda>p.
     case p of
       None \<Rightarrow> ret ()
     | Some t \<Rightarrow>
         thenp (modifyp (\<lambda>s. s\<lparr>pendingOwnerTransfer := None\<rparr>))
        (thenp (settleTransfer (transferResolver t) (TransferExpired (deadlineTimestampSeconds t)))
         publishStatus))"

definition completeTransfer :: "string \<Rightarrow> string \<Rightarrow> int \<Rightarrow> unit portfolio_method" where
  "completeTransfer signer eip155Id now =
     thenp insistAgoricOwned
    (bindp (getsp pendingOwnerTransfer) (\<lambda>p.
     case p of
       None \<Rightarrow> throw NoOwnerTransfer
     | Some t \<Rightarrow>
         thenp (requirep (sameEvmAddress (designated t) (Some signer)) WrongOwner)
        (if now > deadlineTimestampSeconds t
         then thenp expireTransfer (thenp cancelExpiry (throw DeadlinePassed))
         else
           (let acct = ''eip155:'' @ eip155Id @ '':'' @ toLowerCase signer in
            thenp (modifyp (\<lambda>s. s\<lparr>sourceAccountId := Some acct, pendingOwnerTransfer := None\<rparr>))
           (thenp (settleTransfer (transferResolver t) (TransferredTo acct))
           (thenp cancelExpiry publishStatus))))))"

definition wakeTransfer :: "int \<Rightarrow> unit portfolio_method" where
  "wakeTransfer now =
     bindp (getsp pendingOwnerTransfer) (\<lambda>p.
     case p of
       None \<Rightarrow> ret ()
     | Some t \<Rightarrow> whenp (now > deadlineTimestampSeconds t) expireTransfer)"

end
