(* ===== verification/PortfolioPolicy.thy ===== *)
theory PortfolioPolicy
  imports PortfolioOwner
begin

text \<open>
  The policy of a portfolio as an abstract machine: a version, a count of submissions at that
  version, a target allocation and the delegated agents, changed only by steps that name who
  takes them. The state of a portfolio maps to it, and every method of the code is shown to
  keep the portfolio's invariant and to take only policy steps allowed to its caller.
\<close>

section \<open>The abstract machine\<close>

datatype actor = Owner | Delegate | Platform

record policy =
  pol_version :: nat
  pol_count :: nat
  pol_target :: "target_allocation option"
  pol_agents :: "nat \<Rightarrow> (string \<times> permissions \<times> bool) option"

definition bumped :: "policy \<Rightarrow> policy" where
  "bumped p = p\<lparr>pol_version := pol_version p + 1, pol_count := 0\<rparr>"

definition same_positions :: "target_allocation option \<Rightarrow> target_allocation \<Rightarrow> bool" where
  "same_positions old new \<longleftrightarrow> set (map fst (case old of None \<Rightarrow> [] | Some t \<Rightarrow> t)) = set (map fst new)"

text \<open>
  The owner may do anything, each change one new version. A delegate may replace the target by
  one with the same positions that respects the weight limit of an agent who may allocate, or
  use up the current count. The platform may only turn an agent off whose client could not be
  delivered.
\<close>

inductive policy_step :: "actor \<Rightarrow> policy \<Rightarrow> policy \<Rightarrow> bool" where
  owner_bump: "policy_step Owner p (bumped p)"
| owner_target: "policy_step Owner p ((bumped p)\<lparr>pol_target := Some t\<rparr>)"
| owner_grant: "pol_agents p n = None \<Longrightarrow>
    policy_step Owner p ((bumped p)\<lparr>pol_agents := (pol_agents p)(n \<mapsto> (g, perms, True))\<rparr>)"
| owner_change: "pol_agents p n = Some (g, old, True) \<Longrightarrow>
    policy_step Owner p ((bumped p)\<lparr>pol_agents := (pol_agents p)(n \<mapsto> (g, perms, True))\<rparr>)"
| owner_revoke: "pol_agents p n = Some (g, perms, True) \<Longrightarrow>
    policy_step Owner p ((bumped p)\<lparr>pol_agents := (pol_agents p)(n \<mapsto> (g, perms, False))\<rparr>)"
| delegate_target: "pol_agents p n = Some (g, perms, b) \<Longrightarrow> may_allocate perms \<Longrightarrow>
    assertMandateForAllocation perms t = Inr () \<Longrightarrow> same_positions (pol_target p) t \<Longrightarrow>
    policy_step Delegate p ((bumped p)\<lparr>pol_target := Some t\<rparr>)"
| delegate_submit: "policy_step Delegate p (p\<lparr>pol_count := pol_count p + 1\<rparr>)"
| platform_undelivered: "pol_agents p n = Some (g, old, b) \<Longrightarrow>
    policy_step Platform p (p\<lparr>pol_agents := (pol_agents p)(n \<mapsto> (g, perms, False))\<rparr>)"

abbreviation policy_steps :: "actor \<Rightarrow> policy \<Rightarrow> policy \<Rightarrow> bool" where
  "policy_steps a \<equiv> (policy_step a)\<^sup>*\<^sup>*"

text \<open>Along policy steps versions and counts only grow, and agents are neither lost nor revived.\<close>

definition sync_le :: "policy \<Rightarrow> policy \<Rightarrow> bool" where
  "sync_le p q \<longleftrightarrow> pol_version p < pol_version q \<or> pol_version p = pol_version q \<and> pol_count p \<le> pol_count q"

definition agents_kept :: "policy \<Rightarrow> policy \<Rightarrow> bool" where
  "agents_kept p q \<longleftrightarrow> (\<forall>n g perms b. pol_agents p n = Some (g, perms, b) \<longrightarrow>
     (\<exists>perms' b'. pol_agents q n = Some (g, perms', b') \<and> (b' \<longrightarrow> b)))"

lemma sync_le_refl [simp]: "sync_le p p"
  and sync_le_trans: "sync_le p q \<Longrightarrow> sync_le q r \<Longrightarrow> sync_le p r"
  by (auto simp: sync_le_def)

lemma agents_kept_refl [simp]: "agents_kept p p"
  by (auto simp: agents_kept_def)

lemma agents_kept_trans: "agents_kept p q \<Longrightarrow> agents_kept q r \<Longrightarrow> agents_kept p r"
  unfolding agents_kept_def by metis

lemma policy_step_monotone: "policy_step a p q \<Longrightarrow> sync_le p q \<and> agents_kept p q"
  by (induction rule: policy_step.induct) (auto simp: sync_le_def agents_kept_def bumped_def)

lemma policy_steps_monotone: "policy_steps a p q \<Longrightarrow> sync_le p q \<and> agents_kept p q"
  by (induction rule: rtranclp_induct)
    (auto dest: policy_step_monotone intro: sync_le_trans agents_kept_trans)

section \<open>The policy of a portfolio\<close>

definition agent_view :: "agent_info \<Rightarrow> string \<times> permissions \<times> bool" where
  "agent_view i = (grantee i, agent_permissions i, agent_state i = Active)"

definition policy_of :: "portfolio_state \<Rightarrow> policy" where
  "policy_of s = \<lparr>pol_version = policyVersion s, pol_count = rebalanceCount s, pol_target = targetAllocation s,
     pol_agents = (\<lambda>n. map_option agent_view (map_of (agents s) n))\<rparr>"

lemma policy_of_cong:
  "policyVersion s' = policyVersion s \<Longrightarrow> rebalanceCount s' = rebalanceCount s \<Longrightarrow>
   targetAllocation s' = targetAllocation s \<Longrightarrow> agents s' = agents s \<Longrightarrow> policy_of s' = policy_of s"
  by (simp add: policy_of_def)

section \<open>The invariant\<close>

text \<open>Shapes of a flow detail (\<open>type-guards.ts\<close>); the extensible one allows unknown positions.\<close>

definition TargetAllocationShapeExt :: "target_allocation \<Rightarrow> bool" where
  "TargetAllocationShapeExt t \<longleftrightarrow> distinct (map fst t) \<and>
     list_all (\<lambda>(_, v). case v of None \<Rightarrow> False | Some n \<Rightarrow> 0 \<le> n) t"

definition AnyNatAmountShape :: "int \<Rightarrow> bool" where
  "AnyNatAmountShape n \<longleftrightarrow> 0 \<le> n"

definition initiatingOperationShape :: "(target_allocation \<Rightarrow> bool) \<Rightarrow> operation_type \<Rightarrow> initiating_operation \<Rightarrow> bool" where
  "initiatingOperationShape targetShape ty opn \<longleftrightarrow> op_type opn = ty \<and> targetShape (op_target opn)"

definition flowDetailShape :: "(target_allocation \<Rightarrow> bool) \<Rightarrow> flow_detail \<Rightarrow> bool" where
  "flowDetailShape targetShape d =
     (case detail_type d of
        FlowWithdraw \<Rightarrow> detail_amount d \<noteq> None \<and> all_some AnyNatAmountShape (detail_amount d) \<and> initiatingOperation d = None
      | FlowDeposit \<Rightarrow> detail_amount d \<noteq> None \<and> all_some AnyNatAmountShape (detail_amount d) \<and>
          all_some (initiatingOperationShape targetShape OpenPortfolio) (initiatingOperation d)
      | FlowRebalance \<Rightarrow> all_some (initiatingOperationShape targetShape SetTargetAllocation) (initiatingOperation d)
      | FlowClaimRewards \<Rightarrow> initiatingOperation d = None)"

definition FlowDetailShape :: "flow_detail \<Rightarrow> bool" where
  "FlowDetailShape = flowDetailShape TargetAllocationShape"

definition flow_detail_of :: "running_flow \<Rightarrow> flow_detail" where
  "flow_detail_of d = flow_detail.truncate d"

text \<open>
  A flow whose target is still pending waits for its plan; if the policy has not changed since,
  its agent may allocate and its target has the positions of the current one. A flow that
  failed to commit its target was rejected.
\<close>

definition pending_target_ok :: "portfolio_state \<Rightarrow> running_flow \<Rightarrow> bool" where
  "pending_target_ok s d \<longleftrightarrow> (\<forall>opn. initiatingOperation d = Some opn \<and> op_status opn = OpPending \<longrightarrow>
     sync d = AwaitingSteps \<and> detail_type d = FlowRebalance \<and>
     (\<exists>n v. detail_agent d = Some n \<and> createdAtPolicyVersion d = Some v \<and> v \<le> policyVersion s \<and>
        (v = policyVersion s \<longrightarrow>
           (\<exists>i. map_of (agents s) n = Some i \<and> may_allocate (agent_permissions i)) \<and>
           same_positions (targetAllocation s) (op_target opn))))"

definition refused_target_ok :: "running_flow \<Rightarrow> bool" where
  "refused_target_ok d \<longleftrightarrow> (\<forall>opn e. initiatingOperation d = Some opn \<and> op_status opn = OpError e \<longrightarrow> sync d = StepsRejected e)"

definition running_ok :: "portfolio_state \<Rightarrow> running_flow \<Rightarrow> bool" where
  "running_ok s d \<longleftrightarrow> flowDetailShape TargetAllocationShapeExt (flow_detail_of d) \<and> pending_target_ok s d \<and> refused_target_ok d \<and>
     (\<forall>n. detail_agent d = Some n \<longrightarrow> store_has (agents s) n)"

definition agent_ok :: "portfolio_state \<Rightarrow> nat \<Rightarrow> agent_info \<Rightarrow> bool" where
  "agent_ok s n i \<longleftrightarrow>
     (if agent_state i = Active then \<exists>c. activeClient i = Some c \<and> client_agent c = n \<and> client_no c < clientsMade s
      else activeClient i = None) \<and>
     agent_state i \<noteq> Expired \<and> all_some (\<lambda>v. v \<le> policyVersion s) (updatedAtPolicyVersion i)"

definition flows_ok :: "portfolio_state \<Rightarrow> bool" where
  "flows_ok s \<longleftrightarrow> store_ok (flowsRunning s) \<and> 0 < nextFlowId s \<and>
     (\<forall>f d. map_of (flowsRunning s) f = Some d \<longrightarrow> 0 < f \<and> f < nextFlowId s \<and> running_ok s d)"

definition agents_ok :: "portfolio_state \<Rightarrow> bool" where
  "agents_ok s \<longleftrightarrow> store_ok (agents s) \<and> fst ` set (agents s) = {1..length (agents s)} \<and>
     (\<forall>n i. map_of (agents s) n = Some i \<longrightarrow> agent_ok s n i)"

definition planner_ok :: "portfolio_state \<Rightarrow> bool" where
  "planner_ok s \<longleftrightarrow> (\<forall>n. plannerAgentId s = Some n \<longrightarrow>
     (\<exists>i. map_of (agents s) n = Some i \<and> grantee i = PortfolioPlannerAgent))"

definition portfolio_inv :: "portfolio_state \<Rightarrow> bool" where
  "portfolio_inv s \<longleftrightarrow> flows_ok s \<and> agents_ok s \<and> planner_ok s \<and> all_some TargetAllocationShapeExt (targetAllocation s)"

section \<open>Methods that keep a guarantee\<close>

text \<open>
  A method run in a state is safe when it ends, normally or not, in a state of the invariant
  and in the guarantee of its caller; the guarantee is reflexive and transitive.
\<close>

locale guarantee =
  fixes inv :: "'s \<Rightarrow> bool" and G :: "'s \<Rightarrow> 's \<Rightarrow> bool"
  assumes G_refl: "G s s"
    and G_trans: "G s t \<Longrightarrow> G t u \<Longrightarrow> G s u"
begin

definition safe :: "('s, 'a) proc \<Rightarrow> 's \<Rightarrow> bool" where
  "safe m s \<longleftrightarrow> inv (snd (m s)) \<and> G s (snd (m s))"

lemma safeD: "safe m s \<Longrightarrow> m s = (r, t) \<Longrightarrow> inv t \<and> G s t"
  by (simp add: safe_def)

lemma safeI: "inv (snd (m s)) \<Longrightarrow> G s (snd (m s)) \<Longrightarrow> safe m s"
  by (simp add: safe_def)

lemma safe_same: "inv s \<Longrightarrow> snd (m s) = s \<Longrightarrow> safe m s"
  by (simp add: safe_def G_refl)

lemma safe_ret: "inv s \<Longrightarrow> safe (ret x) s"
  and safe_throw: "inv s \<Longrightarrow> safe (throw e) s"
  and safe_liftp: "inv s \<Longrightarrow> safe (liftp r) s"
  and safe_getsp: "inv s \<Longrightarrow> safe (getsp f) s"
  and safe_requirep: "inv s \<Longrightarrow> safe (requirep b e) s"
  and safe_readStore: "inv s \<Longrightarrow> safe (readStore get k) s"
  by (rule safe_same, assumption, simp)+

lemma safe_modifyp: "inv (f s) \<Longrightarrow> G s (f s) \<Longrightarrow> safe (modifyp f) s"
  by (simp add: safe_def)

lemma safe_bindp:
  assumes "safe m s" "\<And>x t. m s = (Inr x, t) \<Longrightarrow> inv t \<Longrightarrow> G s t \<Longrightarrow> safe (f x) t"
  shows "safe (bindp m f) s"
proof (cases "m s")
  case (Pair r t)
  then have t: "inv t" "G s t" using safeD [OF assms(1)] by auto
  show ?thesis
  proof (cases r)
    case (Inl e)
    then show ?thesis using t Pair by (simp add: safe_def)
  next
    case (Inr x)
    then have "safe (f x) t" using assms(2) Pair t by blast
    then show ?thesis using t Pair Inr G_trans by (auto simp: safe_def)
  qed
qed

lemma safe_thenp: "safe m s \<Longrightarrow> (\<And>x t. m s = (Inr x, t) \<Longrightarrow> inv t \<Longrightarrow> G s t \<Longrightarrow> safe k t) \<Longrightarrow> safe (thenp m k) s"
  unfolding thenp_def by (rule safe_bindp) auto

lemma safe_catchp:
  assumes "safe m s" "\<And>e t. m s = (Inl e, t) \<Longrightarrow> inv t \<Longrightarrow> G s t \<Longrightarrow> safe (h e) t"
  shows "safe (catchp m h) s"
proof (cases "m s")
  case (Pair r t)
  then have t: "inv t" "G s t" using safeD [OF assms(1)] by auto
  show ?thesis
  proof (cases r)
    case (Inl e)
    then have "safe (h e) t" using assms(2) Pair t by blast
    then show ?thesis using t Pair Inl G_trans by (auto simp: safe_def)
  next
    case (Inr x)
    then show ?thesis using t Pair by (simp add: safe_def)
  qed
qed

lemma safe_finallyp:
  assumes "safe m s" "\<And>r t. m s = (r, t) \<Longrightarrow> inv t \<Longrightarrow> G s t \<Longrightarrow> safe k t"
  shows "safe (finallyp m k) s"
proof (cases "m s")
  case (Pair r t)
  then have t: "inv t" "G s t" using safeD [OF assms(1)] by auto
  then have "safe k t" using assms(2) Pair by blast
  then show ?thesis using t Pair G_trans
    by (auto simp: safe_def split: prod.splits sum.splits)
qed

lemma safe_whenp: "inv s \<Longrightarrow> (b \<Longrightarrow> safe m s) \<Longrightarrow> safe (whenp b m) s"
  by (simp add: safe_def G_refl)

lemma safe_for_eachp:
  assumes "inv s" "\<And>x t. x \<in> set xs \<Longrightarrow> inv t \<Longrightarrow> G s t \<Longrightarrow> safe (f x) t"
  shows "safe (for_eachp xs f) s"
  using assms
proof (induction xs arbitrary: s)
  case Nil
  then show ?case by (simp add: safe_def G_refl)
next
  case (Cons x xs)
  have "safe (for_eachp xs f) t" if "inv t" "G s t" for t
    using Cons.IH [OF that(1)] Cons.prems(2) G_trans that(2) by (meson list.set_intros(2))
  moreover have "safe (f x) s" using Cons.prems G_refl by (meson list.set_intros(1))
  ultimately show ?case unfolding for_eachp.simps by (blast intro: safe_thenp)
qed

text \<open>Reading first: the rest is judged in the same state.\<close>

lemma safe_getsp_bindp: "safe (f (g s)) s \<Longrightarrow> safe (bindp (getsp g) f) s"
  by (simp add: safe_def)

lemma safe_liftp_bindp: "inv s \<Longrightarrow> (\<And>x. r = Inr x \<Longrightarrow> safe (f x) s) \<Longrightarrow> safe (bindp (liftp r) f) s"
  by (cases r) (simp_all add: safe_def G_refl)

lemma safe_requirep_thenp: "inv s \<Longrightarrow> (b \<Longrightarrow> safe k s) \<Longrightarrow> safe (thenp (requirep b e) k) s"
  by (simp add: safe_def G_refl)

lemma safe_readStore_bindp:
  "inv s \<Longrightarrow> (\<And>x. store_get (get s) k = Inr x \<Longrightarrow> safe (f x) s) \<Longrightarrow> safe (bindp (readStore get k) f) s"
  by (cases "store_get (get s) k") (simp_all add: safe_def G_refl)

lemma safe_same_bindp:
  "inv s \<Longrightarrow> snd (m s) = s \<Longrightarrow> (\<And>x. fst (m s) = Inr x \<Longrightarrow> safe (f x) s) \<Longrightarrow> safe (bindp m f) s"
  by (cases "m s"; cases "fst (m s)") (auto simp: safe_def G_refl)

lemma safe_same_thenp:
  "inv s \<Longrightarrow> snd (m s) = s \<Longrightarrow> (\<And>x. fst (m s) = Inr x \<Longrightarrow> safe k s) \<Longrightarrow> safe (thenp m k) s"
  unfolding thenp_def by (rule safe_same_bindp) auto

lemma safe_case_option:
  "(y = None \<Longrightarrow> safe m s) \<Longrightarrow> (\<And>x. y = Some x \<Longrightarrow> safe (f x) s) \<Longrightarrow>
     safe (case y of None \<Rightarrow> m | Some x \<Rightarrow> f x) s"
  by (cases y) simp_all

lemma safe_if: "(b \<Longrightarrow> safe m s) \<Longrightarrow> (\<not> b \<Longrightarrow> safe k s) \<Longrightarrow> safe (if b then m else k) s"
  by simp

lemma safe_case_prod: "(\<And>x y. p = (x, y) \<Longrightarrow> safe (f x y) s) \<Longrightarrow> safe (case p of (x, y) \<Rightarrow> f x y) s"
  by (cases p) simp

lemma safe_case_sum:
  "(\<And>e. y = Inl e \<Longrightarrow> safe (m e) s) \<Longrightarrow> (\<And>x. y = Inr x \<Longrightarrow> safe (f x) s) \<Longrightarrow>
     safe (case y of Inl e \<Rightarrow> m e | Inr x \<Rightarrow> f x) s"
  by (cases y) simp_all

lemma safe_writeStore:
  "inv s \<Longrightarrow> (\<And>m. f (get s) = Inr m \<Longrightarrow> inv (put m s) \<and> G s (put m s)) \<Longrightarrow> safe (writeStore get put f) s"
  by (cases "f (get s)") (simp_all add: safe_def G_refl)

end

interpretation pol: guarantee portfolio_inv "\<lambda>s t. policy_steps a (policy_of s) (policy_of t)" for a
  by unfold_locales auto

lemmas safe_basic = pol.safe_ret pol.safe_throw pol.safe_liftp pol.safe_getsp pol.safe_requirep pol.safe_readStore

lemmas safe_reading = pol.safe_getsp_bindp pol.safe_requirep_thenp pol.safe_readStore_bindp pol.safe_liftp_bindp
  pol.safe_case_option pol.safe_if pol.safe_case_prod

end
