(* ===== verification/PolicyMethods.thy ===== *)
theory PolicyMethods
  imports PortfolioPolicy
begin

text \<open>
  Every method of the portfolio keeps its invariant and takes only the policy steps of its
  caller: first the methods that touch neither flows nor policy, then flows, policy changes,
  grants, and the composed operations of delegates and owners.
\<close>

section \<open>Methods outside the policy\<close>

definition core :: "portfolio_state \<Rightarrow> _" where
  "core s = (flowsRunning s, nextFlowId s, delegations s, clientsMade s, plannerAgentId s,
     targetAllocation s, policyVersion s, rebalanceCount s)"

lemma agents_core: "core s' = core s \<Longrightarrow> agents s' = agents s"
  by (simp add: core_def agents_def)

lemma running_ok_cong:
  "agents s' = agents s \<Longrightarrow> policyVersion s' = policyVersion s \<Longrightarrow> targetAllocation s' = targetAllocation s \<Longrightarrow>
   running_ok s' d = running_ok s d"
  by (simp add: running_ok_def pending_target_ok_def)

lemma portfolio_inv_core:
  assumes "core s' = core s"
  shows "portfolio_inv s' = portfolio_inv s"
proof -
  have c: "flowsRunning s' = flowsRunning s" "nextFlowId s' = nextFlowId s" "agents s' = agents s"
    "clientsMade s' = clientsMade s" "plannerAgentId s' = plannerAgentId s"
    "targetAllocation s' = targetAllocation s" "policyVersion s' = policyVersion s"
    using assms agents_core [OF assms] by (simp_all add: core_def)
  show ?thesis
    by (simp only: portfolio_inv_def flows_ok_def agents_ok_def planner_ok_def agent_ok_def c
        running_ok_cong [OF c(3) c(7) c(6)])
qed

lemma policy_of_core: "core s' = core s \<Longrightarrow> policy_of s' = policy_of s"
  by (rule policy_of_cong) (simp_all add: core_def agents_def)

lemma safe_frame: "portfolio_inv s \<Longrightarrow> core (snd (m s)) = core s \<Longrightarrow> pol.safe a m s"
  unfolding pol.safe_def by (metis portfolio_inv_core policy_of_core rtranclp.rtrancl_refl)

lemma safe_keeps: "portfolio_inv s \<Longrightarrow> keeps (\<lambda>t. core t = core s) m \<Longrightarrow> pol.safe a m s"
  by (rule safe_frame) (auto dest: keepsD)

lemma keeps_readStore [keeps_intros]: "keeps I (readStore get k)"
  by (simp add: keeps_def)

lemma keeps_writeStore:
  "(\<And>s m. I s \<Longrightarrow> f (get s) = Inr m \<Longrightarrow> I (put m s)) \<Longrightarrow> keeps I (writeStore get put f)"
  by (auto simp: keeps_def split: sum.splits)

lemma keeps_Let [keeps_intros]: "(\<And>x. keeps I (f x)) \<Longrightarrow> keeps I (let x = y in f x)"
  by simp

lemma core_simps [simp]:
  "core (s\<lparr>reports := r\<rparr>) = core s" "core (s\<lparr>agentReports := ar\<rparr>) = core s"
  "core (s\<lparr>accountVows := av\<rparr>) = core s" "core (s\<lparr>vowsMade := v\<rparr>) = core s"
  "core (s\<lparr>watchers := w\<rparr>) = core s"
  "core (s\<lparr>nobleAccountUnderProvision := na\<rparr>) = core s" "core (s\<lparr>executing := ex\<rparr>) = core s"
  "core (s\<lparr>positionReports := pr\<rparr>) = core s" "core (s\<lparr>transferResults := tr\<rparr>) = core s"
  "core (s\<lparr>timerCalls := tc\<rparr>) = core s" "core (s\<lparr>pendingOwnerTransfer := po\<rparr>) = core s"
  "core (s\<lparr>sourceAccountId := owner\<rparr>) = core s" "core (s\<lparr>plannerClient := pc\<rparr>) = core s"
  "core (put_accounts m1 s) = core s" "core (put_accountsPending m2 s) = core s" "core (put_positions m3 s) = core s"
  by (simp_all add: core_def put_defs)

lemma frames:
  "keeps (\<lambda>t. core t = c) publishStatus" "keeps (\<lambda>t. core t = c) publishAgents"
  "keeps (\<lambda>t. core t = c) (settleVow v r)" "keeps (\<lambda>t. core t = c) (settleTransfer v tr)"
  "keeps (\<lambda>t. core t = c) (callTimer tc)" "keeps (\<lambda>t. core t = c) cancelExpiry"
  "keeps (\<lambda>t. core t = c) (executePlan f)"
  "keeps (\<lambda>t. core t = c) (writeStore accounts put_accounts fa)"
  "keeps (\<lambda>t. core t = c) (writeStore accountsPending put_accountsPending fp)"
  "keeps (\<lambda>t. core t = c) (writeStore positions put_positions fq)"
  unfolding publishStatus_def publishAgents_def settleVow_def settleTransfer_def callTimer_def cancelExpiry_def executePlan_def
  by (rule keeps_modifyp keeps_writeStore; simp)+

lemma frames_accounts:
  "keeps (\<lambda>t. core t = c) (reserveAccountState ch)" "keeps (\<lambda>t. core t = c) (initAccountInfo info)"
  "keeps (\<lambda>t. core t = c) (resolveAccount info)" "keeps (\<lambda>t. core t = c) (releaseAccount ch reason)"
  "keeps (\<lambda>t. core t = c) (initNobleAccountUnderProvision info)" "keeps (\<lambda>t. core t = c) (accountWatcher r ch)"
  "keeps (\<lambda>t. core t = c) (publishPosition k)" "keeps (\<lambda>t. core t = c) (providePosition k prot acct)"
  "keeps (\<lambda>t. core t = c) (recordTransferIn k amt)" "keeps (\<lambda>t. core t = c) (recordTransferOut k amt)"
  unfolding reserveAccountState_def initAccountInfo_def resolveAccount_def releaseAccount_def
    initNobleAccountUnderProvision_def accountWatcher_def dropPending_def publishPosition_def providePosition_def
    recordTransferIn_def recordTransferOut_def
  by (intro keeps_intros frames keeps_modifyp; simp)+

lemma frames_transfer:
  "keeps (\<lambda>t. core t = c) insistAgoricOwned" "keeps (\<lambda>t. core t = c) (initiateTransfer ad dl now)"
  "keeps (\<lambda>t. core t = c) expireTransfer" "keeps (\<lambda>t. core t = c) (completeTransfer sg ch now)"
  "keeps (\<lambda>t. core t = c) (wakeTransfer now)"
  unfolding insistAgoricOwned_def initiateTransfer_def completeTransfer_def wakeTransfer_def expireTransfer_def
  by (intro keeps_intros frames keeps_modifyp; simp)+

section \<open>Flows\<close>

lemma put_flowsRunning_simps [simp]:
  "flowsRunning (put_flowsRunning m s) = m" "agents (put_flowsRunning m s) = agents s"
  "nextFlowId (put_flowsRunning m s) = nextFlowId s" "policyVersion (put_flowsRunning m s) = policyVersion s"
  "targetAllocation (put_flowsRunning m s) = targetAllocation s" "clientsMade (put_flowsRunning m s) = clientsMade s"
  "plannerAgentId (put_flowsRunning m s) = plannerAgentId s" "rebalanceCount (put_flowsRunning m s) = rebalanceCount s"
  "delegations (put_flowsRunning m s) = delegations s"
  by (simp_all add: put_flowsRunning_def agents_def)

lemma running_ok_put_flows [simp]: "running_ok (put_flowsRunning m s) d = running_ok s d"
  by (rule running_ok_cong) simp_all

lemma policy_of_put_flows [simp]: "policy_of (put_flowsRunning m s) = policy_of s"
  by (rule policy_of_cong) simp_all

lemma inv_flows:
  assumes "portfolio_inv s" "store_ok m"
    and "\<And>f d. map_of m f = Some d \<Longrightarrow> 0 < f \<and> f < nextFlowId s \<and> running_ok s d"
  shows "portfolio_inv (put_flowsRunning m s)"
  using assms by (simp add: portfolio_inv_def flows_ok_def agents_ok_def agent_ok_def planner_ok_def)

lemma inv_flow: "portfolio_inv s \<Longrightarrow> map_of (flowsRunning s) f = Some d \<Longrightarrow> 0 < f \<and> f < nextFlowId s \<and> running_ok s d"
  by (simp add: portfolio_inv_def flows_ok_def)

lemma inv_flows_store: "portfolio_inv s \<Longrightarrow> store_ok (flowsRunning s)"
  by (simp add: portfolio_inv_def flows_ok_def)

lemma safe_write_flows:
  assumes "portfolio_inv s"
    and "\<And>m. fm (flowsRunning s) = Inr m \<Longrightarrow> store_ok m \<and>
      (\<forall>f d. map_of m f = Some d \<longrightarrow> 0 < f \<and> f < nextFlowId s \<and> running_ok s d)"
  shows "pol.safe a (writeStore flowsRunning put_flowsRunning fm) s"
  using assms by (intro pol.safe_writeStore) (auto intro!: inv_flows)

lemma safe_set_flow:
  assumes "portfolio_inv s" "running_ok s d"
  shows "pol.safe a (writeStore flowsRunning put_flowsRunning (\<lambda>m. store_set m f d)) s"
proof (rule safe_write_flows [OF assms(1)])
  fix m
  assume "store_set (flowsRunning s) f d = Inr m"
  then have m: "m = put_entry f d (flowsRunning s)" "\<exists>d0. map_of (flowsRunning s) f = Some d0"
    by (auto simp: store_set_def store_has_iff split: if_splits)
  then show "store_ok m \<and> (\<forall>f d. map_of m f = Some d \<longrightarrow> 0 < f \<and> f < nextFlowId s \<and> running_ok s d)"
    using assms inv_flows_store [OF assms(1)] by (auto dest: inv_flow split: if_splits)
qed

lemma safe_delete_flow:
  assumes "portfolio_inv s"
  shows "pol.safe a (writeStore flowsRunning put_flowsRunning (\<lambda>m. store_delete m f)) s"
proof (rule safe_write_flows [OF assms])
  fix m
  assume "store_delete (flowsRunning s) f = Inr m"
  then show "store_ok m \<and> (\<forall>f d. map_of m f = Some d \<longrightarrow> 0 < f \<and> f < nextFlowId s \<and> running_ok s d)"
    using assms inv_flows_store [OF assms] by (auto simp: store_delete_def dest: inv_flow split: if_splits)
qed

lemmas safe_frames = safe_keeps [OF _ frames(1)] safe_keeps [OF _ frames(2)] safe_keeps [OF _ frames(3)]
  safe_keeps [OF _ frames(4)] safe_keeps [OF _ frames(5)] safe_keeps [OF _ frames(6)] safe_keeps [OF _ frames(7)]

lemma safe_finishFlow: "portfolio_inv s \<Longrightarrow> pol.safe a (finishFlow f) s"
  unfolding finishFlow_def by (intro pol.safe_thenp safe_delete_flow safe_frames)

lemma safe_executePlanDone: "portfolio_inv s \<Longrightarrow> pol.safe a (executePlanDone f) s"
  unfolding executePlanDone_def
  by (intro pol.safe_thenp safe_finishFlow safe_keeps keeps_modifyp) simp_all

text \<open>A flow is started with the next number.\<close>

definition started_flow :: "flow_detail \<Rightarrow> movement list option \<Rightarrow> running_flow" where
  "started_flow detail steps = flow_detail.extend detail (running_flow.fields
     (case steps of None \<Rightarrow> AwaitingSteps | Some ms \<Rightarrow> StepsResolved (Steps ms)))"

lemma running_ok_next: "running_ok (s\<lparr>nextFlowId := n\<rparr>) d = running_ok s d"
  by (rule running_ok_cong) (simp_all add: agents_def)

lemma inv_next: "portfolio_inv s \<Longrightarrow> portfolio_inv (s\<lparr>nextFlowId := nextFlowId s + 1\<rparr>)"
  by (auto simp: portfolio_inv_def flows_ok_def agents_ok_def agent_ok_def planner_ok_def running_ok_next agents_def
      less_Suc_eq)

lemma policy_of_next: "policy_of (s\<lparr>nextFlowId := n\<rparr>) = policy_of s"
  by (rule policy_of_cong) (simp_all add: agents_def)

lemma safe_startFlow:
  assumes "portfolio_inv s" "running_ok s (started_flow detail steps)"
  shows "pol.safe a (startFlow detail steps) s"
proof -
  let ?s = "s\<lparr>nextFlowId := nextFlowId s + 1\<rparr>"
  have inv: "portfolio_inv ?s" using assms(1) by (rule inv_next)
  have free: "pol.safe a (writeStore flowsRunning put_flowsRunning (\<lambda>m. store_init m (nextFlowId s) (started_flow detail steps))) ?s"
  proof (rule safe_write_flows [OF inv])
    fix m
    assume "store_init (flowsRunning ?s) (nextFlowId s) (started_flow detail steps) = Inr m"
    then have "m = put_entry (nextFlowId s) (started_flow detail steps) (flowsRunning s)"
      by (auto simp: store_init_def split: if_splits)
    then show "store_ok m \<and> (\<forall>f d. map_of m f = Some d \<longrightarrow> 0 < f \<and> f < nextFlowId ?s \<and> running_ok ?s d)"
      using assms inv_flows_store [OF assms(1)]
      by (auto simp: running_ok_next portfolio_inv_def flows_ok_def less_Suc_eq split: if_splits)
  qed
  have rel: "keeps (\<lambda>t. core t = c) (for_eachp cs (\<lambda>c. releaseAccount c startingNewFlow))" for c cs
    by (intro keeps_for_eachp frames_accounts)
  show ?thesis
    unfolding startFlow_def started_flow_def [symmetric]
    apply (rule pol.safe_getsp_bindp)
    apply (rule pol.safe_thenp)
     apply (rule pol.safe_modifyp)
      apply (use inv in simp)
     apply (simp add: policy_of_next)
    apply (rule pol.safe_thenp)
     apply (use free in simp)
    apply (rule pol.safe_thenp [OF safe_frames(1)], assumption)
    apply (rule pol.safe_getsp_bindp)
    apply (rule pol.safe_thenp)
     apply (rule safe_keeps, assumption, rule keeps_whenp, rule rel)
    apply (rule pol.safe_ret, assumption)
    done
qed

text \<open>The result of starting a flow; releasing the pending accounts never throws.\<close>

lemma releaseAccount_returns: "fst (releaseAccount ch reason s) = Inr ()"
  by (auto simp: releaseAccount_def settleVow_def publishStatus_def store_set_def store_delete_def store_has_def
      put_defs split: option.splits)

lemma for_eachp_returns: "(\<And>x s. fst (f x s) = Inr ()) \<Longrightarrow> fst (for_eachp xs f s) = Inr ()"
proof (induction xs arbitrary: s)
  case (Cons x xs)
  obtain t where "f x s = (Inr (), t)" using Cons.prems by (metis prod.collapse)
  then show ?case using Cons by simp
qed simp

lemma startFlow_run:
  assumes "\<not> store_has (flowsRunning s) (nextFlowId s)"
  shows "\<exists>t. startFlow detail steps s = (Inr (nextFlowId s), t) \<and>
    core t = core (put_flowsRunning (put_entry (nextFlowId s) (started_flow detail steps) (flowsRunning s))
      (s\<lparr>nextFlowId := nextFlowId s + 1\<rparr>))"
proof -
  let ?s1 = "put_flowsRunning (put_entry (nextFlowId s) (started_flow detail steps) (flowsRunning s))
      (s\<lparr>nextFlowId := nextFlowId s + 1\<rparr>)"
  obtain s2 where p: "publishStatus ?s1 = (Inr (), s2)" and c2: "core s2 = core ?s1"
    by (simp add: publishStatus_def)
  let ?rel = "\<lambda>c. releaseAccount c startingNewFlow"
  let ?m = "whenp (store_size (accountsPending s2) > 0)
      (for_eachp (filter (\<lambda>c. c \<in> set AxelarChain) (store_keys (accountsPending s2))) ?rel)"
  have "keeps (\<lambda>t. core t = core ?s1) ?m"
    by (intro keeps_whenp keeps_for_eachp frames_accounts)
  then have c3: "core (snd (?m s2)) = core ?s1" using c2 by (rule keepsD)
  have "fst (?m s2) = Inr ()"
    unfolding whenp_apply by (simp only: for_eachp_returns releaseAccount_returns fst_conv split: if_split) simp
  then obtain t where t: "?m s2 = (Inr (), t)" by (metis prod.collapse)
  have st: "startFlow detail steps s = (case publishStatus ?s1 of (r, u) \<Rightarrow> (case r of Inl e \<Rightarrow> (Inl e, u)
      | Inr _ \<Rightarrow> (case whenp (store_size (accountsPending u) > 0)
          (for_eachp (filter (\<lambda>c. c \<in> set AxelarChain) (store_keys (accountsPending u))) ?rel) u of
          (r, v) \<Rightarrow> (case r of Inl e \<Rightarrow> (Inl e, v) | Inr _ \<Rightarrow> (Inr (nextFlowId s), v)))))"
    using assms by (simp add: startFlow_def started_flow_def store_init_def split: prod.splits sum.splits)
  have "startFlow detail steps s = (Inr (nextFlowId s), t)"
    unfolding st p prod.case sum.case t ..
  with t c3 show ?thesis by simp
qed

lemma flow_detail_of_simps [simp]:
  "detail_type (flow_detail_of d) = detail_type d" "detail_amount (flow_detail_of d) = detail_amount d"
  "initiatingOperation (flow_detail_of d) = initiatingOperation d" "detail_agent (flow_detail_of d) = detail_agent d"
  by (simp_all add: flow_detail_of_def flow_detail.truncate_def)

lemma flowDetailShape_of:
  "flowDetailShape T (flow_detail_of d) =
     (case detail_type d of
        FlowWithdraw \<Rightarrow> detail_amount d \<noteq> None \<and> all_some AnyNatAmountShape (detail_amount d) \<and> initiatingOperation d = None
      | FlowDeposit \<Rightarrow> detail_amount d \<noteq> None \<and> all_some AnyNatAmountShape (detail_amount d) \<and>
          all_some (initiatingOperationShape T OpenPortfolio) (initiatingOperation d)
      | FlowRebalance \<Rightarrow> all_some (initiatingOperationShape T SetTargetAllocation) (initiatingOperation d)
      | FlowClaimRewards \<Rightarrow> initiatingOperation d = None)"
  by (simp add: flowDetailShape_def split: flow_type.splits)

text \<open>Setting the outcome of the operation of a flow, or its steps.\<close>

lemma running_ok_outcome:
  assumes "running_ok s d" "initiatingOperation d = Some opn" "st \<noteq> OpPending" "\<And>e. st = OpError e \<Longrightarrow> sy = StepsRejected e"
  shows "running_ok s (d\<lparr>sync := sy, initiatingOperation := Some (opn\<lparr>op_status := st\<rparr>)\<rparr>)"
  using assms
  by (auto simp: running_ok_def pending_target_ok_def refused_target_ok_def flowDetailShape_of all_some_def initiatingOperationShape_def
      split: flow_type.splits)

lemma running_ok_sync:
  assumes "running_ok s d" "\<And>opn. initiatingOperation d = Some opn \<Longrightarrow> op_status opn \<noteq> OpPending"
    and "sync d = AwaitingSteps"
  shows "running_ok s (d\<lparr>sync := sy\<rparr>)"
  using assms
  by (auto simp: running_ok_def pending_target_ok_def refused_target_ok_def flowDetailShape_of split: flow_type.splits)

lemma flow_sync_same: "d\<lparr>sync := sync d\<rparr> = (d :: running_flow)"
  by simp

lemma running_ok_pending:
  "running_ok s d \<Longrightarrow> initiatingOperation d = Some opn \<Longrightarrow> op_status opn = OpPending \<Longrightarrow>
   sync d = AwaitingSteps \<and> detail_type d = FlowRebalance \<and> op_type opn = SetTargetAllocation"
  by (auto simp: running_ok_def pending_target_ok_def flowDetailShape_of all_some_def initiatingOperationShape_def)

lemma store_get_Inr: "store_get m k = Inr v \<longleftrightarrow> map_of m k = Some v"
  by (auto simp: store_get_def split: option.splits)

lemma safe_resolvePendingPolicy:
  assumes "portfolio_inv s"
  shows "pol.safe a (resolvePendingPolicy f v) s"
proof -
  have ok: "running_ok s (d\<lparr>initiatingOperation := Some (opn\<lparr>op_status := OpOk v\<rparr>)\<rparr>)"
    if "map_of (flowsRunning s) f = Some d" "initiatingOperation d = Some opn" for d opn
    using running_ok_outcome [of s d opn "OpOk v" "sync d"] inv_flow [OF assms that(1)] that(2) by simp
  show ?thesis
    unfolding resolvePendingPolicy_def
    by (intro safe_reading safe_basic pol.safe_thenp safe_set_flow safe_frames assms ok) (simp_all add: store_get_Inr)
qed

lemma running_ok_rejected:
  assumes "running_ok s d" "sync d = AwaitingSteps"
  shows "running_ok s (rejectedDetail d reason)"
proof (cases "initiatingOperation d")
  case None
  then show ?thesis using running_ok_sync [OF assms(1)] assms(2) by (simp add: rejectedDetail_def)
next
  case (Some opn)
  show ?thesis
  proof (cases "op_status opn = OpPending")
    case True
    then show ?thesis
      using Some running_ok_pending [OF assms(1) Some True]
        running_ok_outcome [OF assms(1) Some, of "OpError reason" "StepsRejected reason"]
      by (simp add: rejectedDetail_def)
  next
    case False
    then show ?thesis using Some running_ok_sync [OF assms(1)] assms(2) by (simp add: rejectedDetail_def)
  qed
qed

lemma safe_rejectFlowPlan: "portfolio_inv s \<Longrightarrow> pol.safe a (rejectFlowPlan f reason) s"
  unfolding rejectFlowPlan_def
  by (intro safe_reading safe_basic pol.safe_thenp safe_set_flow safe_frames running_ok_rejected) (auto dest: inv_flow)

text \<open>No pending target: then steps may be resolved.\<close>

definition not_pending :: "portfolio_state \<Rightarrow> nat \<Rightarrow> bool" where
  "not_pending s f \<longleftrightarrow> (\<forall>d opn. map_of (flowsRunning s) f = Some d \<and> initiatingOperation d = Some opn \<longrightarrow> op_status opn \<noteq> OpPending)"

lemma not_pending_core: "core t = core s \<Longrightarrow> not_pending t f = not_pending s f"
  by (simp add: not_pending_def core_def)

lemma safe_resolveFlowPlan:
  assumes "portfolio_inv s" "not_pending s f"
  shows "pol.safe a (resolveFlowPlan msg f steps) s"
proof -
  have ok: "running_ok s (d\<lparr>sync := StepsResolved steps\<rparr>)"
    if "map_of (flowsRunning s) f = Some d" "sync d = AwaitingSteps" for d
    using running_ok_sync [of s d] inv_flow [OF assms(1) that(1)] assms(2) that by (simp add: not_pending_def)
  show ?thesis
    unfolding resolveFlowPlan_def
    by (intro safe_reading safe_basic pol.safe_thenp pol.safe_catchp safe_rejectFlowPlan safe_frames assms)
      (auto simp: store_get_Inr dest!: ok intro: safe_set_flow split: sum.splits prod.splits)
qed

section \<open>Policy changes\<close>

lemma checkVersion_run:
  "checkVersion v c s = (if policyVersion s = v \<and> rebalanceCount s = c then Inr () else Inl PolicyOutOfSync, s)"
  by (simp add: checkVersion_def)

lemma bump_run: "bumpPolicyVersion s = (Inr (policyVersion s + 1), s\<lparr>policyVersion := policyVersion s + 1, rebalanceCount := 0\<rparr>)"
  by (simp add: bumpPolicyVersion_def)

lemma update_run:
  "updateTargetAllocation t s = (Inr (policyVersion s + 1),
     s\<lparr>targetAllocation := Some t, policyVersion := policyVersion s + 1, rebalanceCount := 0\<rparr>)"
  by (simp add: updateTargetAllocation_def bump_run)

lemma running_ok_later:
  assumes "running_ok s d" "policyVersion s < policyVersion s'"
    and "\<And>n. store_has (agents s) n \<Longrightarrow> store_has (agents s') n"
  shows "running_ok s' d"
  using assms unfolding running_ok_def pending_target_ok_def by fastforce

lemma inv_change:
  assumes "portfolio_inv s" "flowsRunning s' = flowsRunning s" "nextFlowId s' = nextFlowId s"
    and "policyVersion s < policyVersion s'" "\<And>n. store_has (agents s) n \<Longrightarrow> store_has (agents s') n"
    and "agents_ok s'" "planner_ok s'" "all_some TargetAllocationShapeExt (targetAllocation s')"
  shows "portfolio_inv s'"
  using assms running_ok_later [OF _ assms(4,5)] unfolding portfolio_inv_def flows_ok_def by simp

lemma length_put_entry:
  assumes "store_ok m"
  shows "length (put_entry k v m) = (if store_has m k then length m else Suc (length m))"
proof -
  have l: "length m' = card (fst ` set m')" if "store_ok m'" for m' :: "('a \<times> 'b) list"
    using store_ok_distinct [OF that] by (metis distinct_card length_map list.set_map)
  have "store_has m k \<longleftrightarrow> k \<in> fst ` set m" by (simp add: store_has_def map_of_eq_None_iff)
  then show ?thesis
    using l [OF assms] l [OF store_ok_put_entry [OF assms], of k v]
    by (auto simp: fst_set_put_entry insert_absorb)
qed

lemma agents_has: "agents_ok s \<Longrightarrow> store_has (agents s) n \<longleftrightarrow> 0 < n \<and> n \<le> length (agents s)"
  by (auto simp: agents_ok_def store_has_def map_of_eq_None_iff)

lemma agents_ok_put:
  assumes "agents_ok s" "agents s' = put_entry n i (agents s)"
    and "store_has (agents s) n \<or> n = Suc (length (agents s))" "agent_ok s' n i"
    and "policyVersion s \<le> policyVersion s'" "clientsMade s \<le> clientsMade s'"
  shows "agents_ok s'"
proof -
  have ok: "store_ok (agents s)" using assms(1) by (simp add: agents_ok_def)
  have mono: "agent_ok s' k x" if "agent_ok s k x" for k x
    using that assms(5,6) by (auto simp: agent_ok_def all_some_def split: option.splits if_splits)
  have "fst ` set (agents s') = {1..length (agents s')}"
    using assms(1-3) ok agents_has [OF assms(1), of n]
    by (auto simp: fst_set_put_entry length_put_entry agents_ok_def insert_absorb)
  moreover have "\<forall>k x. map_of (agents s') k = Some x \<longrightarrow> agent_ok s' k x"
    using assms(1,2,4) mono by (auto simp: agents_ok_def)
  ultimately show ?thesis using ok assms(2) by (auto simp: agents_ok_def)
qed

lemma inv_parts:
  assumes "portfolio_inv s"
  shows "flows_ok s" "agents_ok s" "planner_ok s" "all_some TargetAllocationShapeExt (targetAllocation s)"
  using assms by (simp_all add: portfolio_inv_def)

lemma agents_ok_same:
  "agents_ok s \<Longrightarrow> agents s' = agents s \<Longrightarrow> policyVersion s \<le> policyVersion s' \<Longrightarrow> clientsMade s' = clientsMade s \<Longrightarrow> agents_ok s'"
  by (force simp: agents_ok_def agent_ok_def all_some_def split: option.splits if_splits)

lemma inv_bump:
  assumes "portfolio_inv s" "all_some TargetAllocationShapeExt t"
  shows "portfolio_inv (s\<lparr>targetAllocation := t, policyVersion := policyVersion s + 1, rebalanceCount := 0\<rparr>)"
proof (rule inv_change [OF assms(1)])
  show "agents_ok (s\<lparr>targetAllocation := t, policyVersion := policyVersion s + 1, rebalanceCount := 0\<rparr>)"
    by (rule agents_ok_same [OF inv_parts(2) [OF assms(1)]]) (simp_all add: agents_def)
  show "planner_ok (s\<lparr>targetAllocation := t, policyVersion := policyVersion s + 1, rebalanceCount := 0\<rparr>)"
    using inv_parts(3) [OF assms(1)] by (simp add: planner_ok_def agents_def)
qed (use assms in \<open>simp_all add: agents_def\<close>)

lemma safe_bump: "portfolio_inv s \<Longrightarrow> pol.safe Owner bumpPolicyVersion s"
proof (rule pol.safeI)
  assume inv: "portfolio_inv s"
  have "s\<lparr>targetAllocation := targetAllocation s, policyVersion := policyVersion s + 1, rebalanceCount := 0\<rparr>
      = s\<lparr>policyVersion := policyVersion s + 1, rebalanceCount := 0\<rparr>" by simp
  then show "portfolio_inv (snd (bumpPolicyVersion s))"
    using inv_bump [OF inv inv_parts(4) [OF inv]] by (simp add: bump_run)
  have "policy_of (snd (bumpPolicyVersion s)) = bumped (policy_of s)"
    by (simp add: bump_run policy_of_def bumped_def agents_def)
  then show "policy_steps Owner (policy_of s) (policy_of (snd (bumpPolicyVersion s)))"
    using owner_bump by (metis r_into_rtranclp)
qed

lemma policy_of_update:
  "policy_of (snd (updateTargetAllocation t s)) = (bumped (policy_of s))\<lparr>pol_target := Some t\<rparr>"
  by (simp add: update_run policy_of_def bumped_def agents_def)

lemma safe_update_owner:
  assumes "portfolio_inv s" "TargetAllocationShapeExt t"
  shows "pol.safe Owner (updateTargetAllocation t) s"
proof (rule pol.safeI)
  show "portfolio_inv (snd (updateTargetAllocation t s))"
    using inv_bump [OF assms(1), of "Some t"] assms(2) by (simp add: update_run all_some_def)
  show "policy_steps Owner (policy_of s) (policy_of (snd (updateTargetAllocation t s)))"
    unfolding policy_of_update by (rule r_into_rtranclp) (rule owner_target)
qed

lemma safe_update_delegate:
  assumes "portfolio_inv s" "TargetAllocationShapeExt t" "map_of (agents s) n = Some i"
    and "may_allocate (agent_permissions i)" "assertMandateForAllocation (agent_permissions i) t = Inr ()"
    and "same_positions (targetAllocation s) t"
  shows "pol.safe Delegate (updateTargetAllocation t) s"
proof (rule pol.safeI)
  show "portfolio_inv (snd (updateTargetAllocation t s))"
    using inv_bump [OF assms(1), of "Some t"] assms(2) by (simp add: update_run all_some_def)
  have "pol_agents (policy_of s) n = Some (agent_view i)" "same_positions (pol_target (policy_of s)) t"
    using assms(3,6) by (simp_all add: policy_of_def)
  then show "policy_steps Delegate (policy_of s) (policy_of (snd (updateTargetAllocation t s)))"
    unfolding policy_of_update using assms(4,5) unfolding agent_view_def
    by (intro r_into_rtranclp delegate_target) auto
qed

lemma safe_setTarget: "portfolio_inv s \<Longrightarrow> TargetAllocationShapeExt t \<Longrightarrow> pol.safe Owner (setTargetAllocation t) s"
  unfolding setTargetAllocation_def
  by (intro pol.safe_bindp pol.safe_thenp safe_update_owner safe_frames safe_basic)

lemma safe_incr: "portfolio_inv s \<Longrightarrow> pol.safe Owner incrPolicyVersion s"
  unfolding incrPolicyVersion_def by (intro pol.safe_bindp pol.safe_thenp safe_bump safe_frames safe_basic)

lemma safe_submitVersion:
  assumes "portfolio_inv s"
  shows "pol.safe Delegate (submitVersion v c) s"
proof -
  let ?t = "s\<lparr>rebalanceCount := rebalanceCount s + 1\<rparr>"
  have "policy_of ?t = (policy_of s)\<lparr>pol_count := pol_count (policy_of s) + 1\<rparr>"
    by (simp add: policy_of_def agents_def)
  then have "policy_step Delegate (policy_of s) (policy_of ?t)" using delegate_submit by metis
  moreover have "portfolio_inv ?t"
    using assms running_ok_cong [of ?t s]
    by (simp add: portfolio_inv_def flows_ok_def agents_ok_def agent_ok_def planner_ok_def agents_def)
  ultimately have "pol.safe Delegate (modifyp (\<lambda>s. s\<lparr>rebalanceCount := rebalanceCount s + 1\<rparr>)) s"
    by (intro pol.safe_modifyp) auto
  then show ?thesis
    unfolding submitVersion_def
    by (intro pol.safe_same_thenp [OF assms] pol.safe_thenp safe_frames) (simp_all add: checkVersion_run)
qed

lemma submitVersion_flows: "flowsRunning (snd (submitVersion v c s)) = flowsRunning s"
  by (simp add: submitVersion_def checkVersion_run publishStatus_def)

section \<open>Delegations\<close>

lemma authorized_state: "snd (getAuthorizedDelegation c n req s) = s"
  by (simp add: getAuthorizedDelegation_def split: option.splits sum.splits)

lemma authorized_Inr:
  "fst (getAuthorizedDelegation c n req s) = Inr i \<longleftrightarrow>
     map_of (agents s) n = Some i \<and> activeClient i = Some c \<and> agent_state i = Active \<and>
     list_all (holds_permission (agent_permissions i)) req"
  by (auto simp: getAuthorizedDelegation_def agents_def store_get_def split: option.splits)

lemma put_agents_simps [simp]:
  "agents (put_agents m s) = m" "flowsRunning (put_agents m s) = flowsRunning s" "nextFlowId (put_agents m s) = nextFlowId s"
  "policyVersion (put_agents m s) = policyVersion s" "targetAllocation (put_agents m s) = targetAllocation s"
  "clientsMade (put_agents m s) = clientsMade s" "plannerAgentId (put_agents m s) = plannerAgentId s"
  "rebalanceCount (put_agents m s) = rebalanceCount s"
  by (simp_all add: put_agents_def agents_def)

lemma agents_simps [simp]:
  "agents (s\<lparr>policyVersion := v\<rparr>) = agents s" "agents (s\<lparr>rebalanceCount := c\<rparr>) = agents s"
  "agents (s\<lparr>clientsMade := k\<rparr>) = agents s" "agents (s\<lparr>plannerAgentId := p\<rparr>) = agents s"
  "agents (s\<lparr>enabledAutoFeatures := f\<rparr>) = agents s" "agents (s\<lparr>delegations := d\<rparr>) = (case d of None \<Rightarrow> [] | Some m \<Rightarrow> m)"
  "agents (s\<lparr>agentReports := r\<rparr>) = agents s" "agents (s\<lparr>reports := rp\<rparr>) = agents s"
  by (simp_all add: agents_def)

lemma planner_ok_put:
  "planner_ok s \<Longrightarrow> agents s' = put_entry n i (agents s) \<Longrightarrow>
   (\<And>j. map_of (agents s) n = Some j \<Longrightarrow> grantee i = grantee j) \<Longrightarrow>
   plannerAgentId s' = plannerAgentId s \<or> plannerAgentId s' = None \<Longrightarrow> planner_ok s'"
  unfolding planner_ok_def by (auto simp: eq_commute [of "Some n" "plannerAgentId s"])

text \<open>One change of the record of an agent at a new version.\<close>

lemma safe_agent_change:
  assumes "portfolio_inv s" "agents s' = put_entry n i (agents s)" "flowsRunning s' = flowsRunning s"
    and "nextFlowId s' = nextFlowId s" "targetAllocation s' = targetAllocation s"
    and "policyVersion s' = policyVersion s + 1" "rebalanceCount s' = 0" "clientsMade s \<le> clientsMade s'"
    and "plannerAgentId s' = plannerAgentId s \<or> plannerAgentId s' = None" "agent_ok s' n i"
    and "(map_of (agents s) n = None \<and> n = Suc (length (agents s)) \<and> agent_state i = Active) \<or>
      (\<exists>j. map_of (agents s) n = Some j \<and> agent_state j = Active \<and> grantee i = grantee j \<and>
        (agent_state i = Active \<or> agent_permissions i = agent_permissions j))"
  shows "portfolio_inv s' \<and> policy_steps Owner (policy_of s) (policy_of s')"
proof
  have ag: "agents_ok s'"
    using assms by (intro agents_ok_put [OF inv_parts(2) [OF assms(1)] assms(2)]) (auto simp: store_has_def)
  have pl: "planner_ok s'"
    using assms by (intro planner_ok_put [OF inv_parts(3) [OF assms(1)] assms(2)]) auto
  show "portfolio_inv s'"
    using assms ag pl inv_parts(4) [OF assms(1)] by (intro inv_change [OF assms(1)]) auto
  have p: "policy_of s' = (bumped (policy_of s))\<lparr>pol_agents := (pol_agents (policy_of s))(n \<mapsto> agent_view i)\<rparr>"
    using assms(2,5,6,7) by (auto simp: policy_of_def bumped_def)
  from assms(11) show "policy_steps Owner (policy_of s) (policy_of s')"
  proof (elim disjE exE conjE)
    assume n: "map_of (agents s) n = None" "agent_state i = Active"
    then have "pol_agents (policy_of s) n = None" by (simp add: policy_of_def)
    from owner_grant [OF this] show ?thesis
      unfolding p agent_view_def using n(2) by (intro r_into_rtranclp) simp
  next
    fix j
    assume j: "map_of (agents s) n = Some j" "agent_state j = Active" "grantee i = grantee j"
    then have pj: "pol_agents (policy_of s) n = Some (grantee j, agent_permissions j, True)"
      by (simp add: policy_of_def agent_view_def)
    show ?thesis if "agent_state i = Active"
      unfolding p agent_view_def using that j(3) owner_change [OF pj] by (intro r_into_rtranclp) simp
    show ?thesis if "agent_permissions i = agent_permissions j"
      unfolding p agent_view_def using that j(3) owner_revoke [OF pj] owner_change [OF pj]
      by (cases "agent_state i = Active") (intro r_into_rtranclp; simp)+
  qed
qed

definition granted_info :: "portfolio_state \<Rightarrow> string \<Rightarrow> permissions \<Rightarrow> agent_info" where
  "granted_info s who perms = \<lparr>grantee = who, agent_permissions = perms, agent_state = Active,
     updatedAtPolicyVersion = Some (policyVersion s + 1),
     activeClient = Some \<lparr>client_no = clientsMade s, client_agent = Suc (length (agents s))\<rparr>\<rparr>"

lemma grant_run:
  assumes "portfolio_inv s"
  shows "\<exists>t. grantDelegation caller who perms s =
      (Inr (GrantDeliver caller (Suc (length (agents s))) \<lparr>client_no = clientsMade s, client_agent = Suc (length (agents s))\<rparr>
         who perms (policyVersion s + 1)), t) \<and>
    agents t = put_entry (Suc (length (agents s))) (granted_info s who perms) (agents s) \<and>
    flowsRunning t = flowsRunning s \<and> nextFlowId t = nextFlowId s \<and> targetAllocation t = targetAllocation s \<and>
    policyVersion t = policyVersion s + 1 \<and> rebalanceCount t = 0 \<and> clientsMade t = clientsMade s + 1 \<and>
    plannerAgentId t = plannerAgentId s"
proof -
  have "\<not> store_has (agents s) (Suc (length (agents s)))"
    using agents_has [OF inv_parts(2) [OF assms]] by simp
  then show ?thesis
    by (simp add: grantDelegation_def bump_run store_size_def store_init_def granted_info_def Let_def)
qed

lemma grant_fresh: "portfolio_inv s \<Longrightarrow> map_of (agents s) (Suc (length (agents s))) = None"
  using agents_has [OF inv_parts(2), of s "Suc (length (agents s))"] by (simp add: store_has_def)

lemma safe_grant:
  assumes "portfolio_inv s"
  shows "pol.safe Owner (grantDelegation caller who perms) s"
proof -
  obtain t where t: "snd (grantDelegation caller who perms s) = t"
    "agents t = put_entry (Suc (length (agents s))) (granted_info s who perms) (agents s)"
    "flowsRunning t = flowsRunning s" "nextFlowId t = nextFlowId s" "targetAllocation t = targetAllocation s"
    "policyVersion t = policyVersion s + 1" "rebalanceCount t = 0" "clientsMade t = clientsMade s + 1"
    "plannerAgentId t = plannerAgentId s"
    using grant_run [OF assms, of caller who perms] by auto
  have "agent_ok t (Suc (length (agents s))) (granted_info s who perms)"
    using t by (simp add: agent_ok_def granted_info_def all_some_def)
  then have "portfolio_inv t \<and> policy_steps Owner (policy_of s) (policy_of t)"
    using t grant_fresh [OF assms] by (intro safe_agent_change [OF assms t(2)]) (simp_all add: granted_info_def)
  then show ?thesis by (simp add: pol.safe_def t(1))
qed

lemma store_get_Some: "map_of m k = Some v \<Longrightarrow> store_get m k = Inr v"
  and store_set_Some: "map_of m k = Some v \<Longrightarrow> store_set m k w = Inr (put_entry k w m)"
  by (simp_all add: store_get_def store_set_def store_has_def)

lemma write_agent_run:
  "map_of (agents s) n = Some j \<Longrightarrow>
     writeStore agents put_agents (\<lambda>m. store_set m n i) s = (Inr (), put_agents (put_entry n i (agents s)) s)"
  by (simp add: store_set_def store_has_def)

lemma safe_after:
  assumes "portfolio_inv t \<and> policy_steps a (policy_of s) (policy_of t)" "m s = k t" "pol.safe a k t"
  shows "pol.safe a m s"
  using assms unfolding pol.safe_def by (auto intro: rtranclp_trans)

lemma safe_changePermissions:
  assumes "portfolio_inv s"
  shows "pol.safe Owner (changePermissions n perms) s"
proof -
  have w: "pol.safe Owner (bindp bumpPolicyVersion (\<lambda>v.
     thenp (writeStore agents put_agents (\<lambda>m. store_set m n (j\<lparr>agent_permissions := perms, updatedAtPolicyVersion := Some v\<rparr>)))
    (thenp publishAgents (ret v)))) s" (is "pol.safe Owner ?m s")
    if j: "map_of (agents s) n = Some j" "agent_state j = Active" for j
  proof -
    let ?b = "s\<lparr>policyVersion := policyVersion s + 1, rebalanceCount := 0\<rparr>"
    let ?i = "j\<lparr>agent_permissions := perms, updatedAtPolicyVersion := Some (policyVersion s + 1)\<rparr>"
    let ?t = "put_agents (put_entry n ?i (agents s)) ?b"
    have aj: "agent_ok s n j" using inv_parts(2) [OF assms] j(1) by (simp add: agents_ok_def)
    have t: "portfolio_inv ?t \<and> policy_steps Owner (policy_of s) (policy_of ?t)"
      using aj j by (intro safe_agent_change [OF assms, of ?t n ?i]) (auto simp: agent_ok_def all_some_def)
    moreover have "?m s = thenp publishAgents (ret (policyVersion s + 1)) ?t"
      by (simp add: bump_run store_set_Some [OF j(1)])
    moreover have "pol.safe Owner (thenp publishAgents (ret (policyVersion s + 1))) ?t"
      using t by (intro pol.safe_thenp safe_frames safe_basic) auto
    ultimately show ?thesis by (rule safe_after)
  qed
  show ?thesis
    unfolding changePermissions_def
    by (intro safe_reading assms w) (simp_all add: store_get_Inr)
qed

lemma safe_revokeDelegation:
  assumes "portfolio_inv s" "map_of (agents s) n = Some j" "agent_state j = Active"
  shows "pol.safe Owner (revokeDelegation n) s"
proof -
  let ?b = "s\<lparr>policyVersion := policyVersion s + 1, rebalanceCount := 0\<rparr>"
  let ?i = "j\<lparr>agent_state := Revoked, activeClient := None, updatedAtPolicyVersion := Some (policyVersion s + 1)\<rparr>"
  let ?t = "put_agents (put_entry n ?i (agents s)) ?b"
  let ?u = "if plannerAgentId ?t = Some n then ?t\<lparr>plannerAgentId := None, enabledAutoFeatures := None\<rparr> else ?t"
  have d: "\<exists>m. delegations s = Some m" using assms(2) by (cases "delegations s") (auto simp: agents_def)
  have u: "agents ?u = put_entry n ?i (agents s)" "flowsRunning ?u = flowsRunning s" "nextFlowId ?u = nextFlowId s"
    "targetAllocation ?u = targetAllocation s" "policyVersion ?u = policyVersion s + 1" "rebalanceCount ?u = 0"
    "clientsMade ?u = clientsMade s" "plannerAgentId ?u = plannerAgentId s \<or> plannerAgentId ?u = None"
    by auto
  have "portfolio_inv ?u \<and> policy_steps Owner (policy_of s) (policy_of ?u)"
  proof (rule safe_agent_change [OF assms(1) u(1-6) _ u(8)])
    show "agent_ok ?u n ?i" unfolding agent_ok_def u by (simp add: all_some_def)
  qed (use assms u in auto)
  moreover have "revokeDelegation n s = thenp publishAgents (ret (policyVersion s + 1)) ?u"
    using d by (auto simp: revokeDelegation_def bump_run store_get_Some [OF assms(2)] store_set_Some [OF assms(2)])
  moreover have "pol.safe Owner (thenp publishAgents (ret (policyVersion s + 1))) ?u"
    using calculation(1) by (intro pol.safe_thenp safe_frames safe_basic) auto
  ultimately show ?thesis by (rule safe_after)
qed

text \<open>A failed delivery revokes the agent at the version it was granted at.\<close>

definition undelivered_info :: "string \<Rightarrow> permissions \<Rightarrow> nat \<Rightarrow> agent_info" where
  "undelivered_info who perms v = \<lparr>grantee = who, agent_permissions = perms, agent_state = Revoked,
     updatedAtPolicyVersion = Some v, activeClient = None\<rparr>"

lemma safe_grantDelivered:
  assumes "portfolio_inv s" "map_of (agents s) n = Some j" "grantee j = who" "v \<le> policyVersion s"
    and "outcome \<noteq> Inr () \<Longrightarrow> may_allocate perms"
  shows "pol.safe Platform (grantDelivered n who perms v outcome) s"
proof -
  let ?i = "undelivered_info who perms v"
  let ?t = "put_agents (put_entry n ?i (agents s)) s"
  have ag: "agents_ok ?t"
    using assms by (intro agents_ok_put [OF inv_parts(2) [OF assms(1)], of ?t n ?i])
      (auto simp: store_has_def agent_ok_def undelivered_info_def all_some_def)
  have pl: "planner_ok ?t"
    using assms by (intro planner_ok_put [OF inv_parts(3) [OF assms(1)], of ?t n ?i]) (auto simp: undelivered_info_def)
  have "running_ok ?t d" if "running_ok s d" "may_allocate perms" for d
    using that unfolding running_ok_def pending_target_ok_def by (fastforce simp: undelivered_info_def)
  then have inv: "portfolio_inv ?t" if "may_allocate perms"
    using that ag pl assms(1) unfolding portfolio_inv_def flows_ok_def by simp
  have "pol_agents (policy_of s) n = Some (who, agent_permissions j, agent_state j = Active)"
    using assms(2,3) by (simp add: policy_of_def agent_view_def)
  from platform_undelivered [OF this, of perms]
  have st: "policy_step Platform (policy_of s) (policy_of ?t)"
    by (rule back_subst [of "policy_step Platform (policy_of s)"])
      (auto simp: policy_of_def agent_view_def undelivered_info_def)
  have "pol.safe Platform (writeStore agents put_agents (\<lambda>m. store_set m n ?i)) s" if "may_allocate perms"
    unfolding pol.safe_def write_agent_run [OF assms(2)] using inv [OF that] st by auto
  then show ?thesis
    unfolding grantDelivered_def undelivered_info_def [symmetric]
    using assms(1,5)
    by (intro pol.safe_finallyp safe_frames pol.safe_case_sum pol.safe_thenp) (auto intro: safe_basic)
qed

lemma inv_planner:
  assumes "portfolio_inv s" "p = None \<or> (\<exists>n i. p = Some n \<and> map_of (agents s) n = Some i \<and> grantee i = PortfolioPlannerAgent)"
  shows "portfolio_inv (s\<lparr>plannerAgentId := p\<rparr>)"
  using assms running_ok_cong [of "s\<lparr>plannerAgentId := p\<rparr>" s]
  by (auto simp: portfolio_inv_def flows_ok_def agents_ok_def agent_ok_def planner_ok_def)

lemma core_features: "core (s\<lparr>enabledAutoFeatures := f\<rparr>) = core s"
  by (simp add: core_def)

lemma safe_grantReturned:
  assumes "portfolio_inv s"
    and "\<And>n v m. outcome = Inr (n, v) \<Longrightarrow> caller = AutoFeatures m \<Longrightarrow>
      \<exists>i. map_of (agents s) n = Some i \<and> grantee i = PortfolioPlannerAgent"
  shows "pol.safe Owner (grantReturned caller outcome) s"
proof -
  have "pol.safe Owner (modifyp (\<lambda>s. s\<lparr>plannerAgentId := Some n, enabledAutoFeatures := Some m\<rparr>)) s"
    if "outcome = Inr (n, v)" "caller = AutoFeatures m" for n v m
  proof (rule pol.safe_modifyp)
    let ?t = "s\<lparr>plannerAgentId := Some n\<rparr>"
    have "core (s\<lparr>plannerAgentId := Some n, enabledAutoFeatures := Some m\<rparr>) = core ?t" by (rule core_features)
    moreover have "portfolio_inv ?t" using inv_planner [OF assms(1)] assms(2) that by blast
    ultimately show "portfolio_inv (s\<lparr>plannerAgentId := Some n, enabledAutoFeatures := Some m\<rparr>)"
      by (metis portfolio_inv_core)
    show "policy_steps Owner (policy_of s) (policy_of (s\<lparr>plannerAgentId := Some n, enabledAutoFeatures := Some m\<rparr>))"
      by (simp add: policy_of_def)
  qed
  then show ?thesis
    unfolding grantReturned_def
    by (intro pol.safe_finallyp safe_frames pol.safe_liftp_bindp [OF assms(1)] pol.safe_case_prod)
      (cases caller; simp only: grant_caller.case; (rule pol.safe_ret [OF assms(1)] | blast))
qed

lemma safe_setAutoFeatures:
  assumes "portfolio_inv s"
  shows "pol.safe Owner (setAutoFeatures f) s"
  unfolding setAutoFeatures_def
  by (intro safe_reading safe_basic pol.safe_thenp pol.safe_modifyp inv_planner assms) (simp_all add: policy_of_def)

lemma safe_setAutoFeaturesMerged:
  assumes "portfolio_inv s"
  shows "pol.safe Owner (setAutoFeaturesMerged merged perms planner upd) s"
  unfolding setAutoFeaturesMerged_def
  by (intro safe_reading safe_basic pol.safe_thenp pol.safe_bindp safe_grant safe_changePermissions safe_bump
      safe_frames safe_keeps keeps_modifyp assms) (simp_all add: core_features)

lemma safe_deliverDelegation: "portfolio_inv s \<Longrightarrow> pol.safe Platform (deliverDelegation caller n c who perms v) s"
  unfolding deliverDelegation_def
  by (intro safe_reading safe_basic pol.safe_thenp safe_keeps keeps_modifyp) simp_all

section \<open>Plans\<close>

lemma pending_targetD:
  assumes "pending_target d = Some t"
  shows "\<exists>opn. initiatingOperation d = Some opn \<and> op_status opn = OpPending \<and> op_target opn = t \<and>
    detail_type d = FlowRebalance \<and> \<not> target_committed d"
  using assms by (auto simp: pending_target_def target_committed_def split: option.splits if_splits)

lemma vetMandate_allocation: "vetMandate perms t obs = Inr u \<Longrightarrow> assertMandateForAllocation perms t = Inr ()"
  by (auto simp: vetMandate_def bindr_Inr_iff)

text \<open>A pending target may be committed while the policy is the one it was submitted under.\<close>

lemma safe_commit_pending:
  assumes "portfolio_inv s" "map_of (flowsRunning s) f = Some d" "pending_target d = Some t"
    and "createdAtPolicyVersion d = Some (policyVersion s)" "detail_agent d = Some n"
    and "map_of (agents s) n = Some i" "assertMandateForAllocation (agent_permissions i) t = Inr ()"
  shows "pol.safe Delegate (updateTargetAllocation t) s"
proof -
  obtain opn where opn: "initiatingOperation d = Some opn" "op_status opn = OpPending" "op_target opn = t"
    "detail_type d = FlowRebalance"
    using pending_targetD [OF assms(3)] by blast
  have ok: "running_ok s d" using inv_flow [OF assms(1,2)] by simp
  then have "may_allocate (agent_permissions i)" "same_positions (targetAllocation s) t"
    using opn assms(4-6) unfolding running_ok_def pending_target_ok_def by auto
  moreover have "TargetAllocationShapeExt t"
    using ok opn by (auto simp: running_ok_def flowDetailShape_of all_some_def initiatingOperationShape_def)
  ultimately show ?thesis using safe_update_delegate [OF assms(1) _ assms(6)] assms(7) by blast
qed

definition mandateOf :: "(nat, agent_info) mapstore option \<Rightarrow> nat \<Rightarrow> permissions portfolio_method" where
  "mandateOf ds n = (case ds of None \<Rightarrow> throw MandateMissing
     | Some m \<Rightarrow> bindp (liftp (store_get m n)) (\<lambda>info. ret (agent_permissions info)))"

lemma mandateOf_run:
  "snd (mandateOf (delegations s) n s) = s"
  "fst (mandateOf (delegations s) n s) = Inr perms \<Longrightarrow> \<exists>i. map_of (agents s) n = Some i \<and> agent_permissions i = perms"
  by (auto simp: mandateOf_def agents_def store_get_def split: option.splits)

lemma safe_validate:
  assumes "portfolio_inv s"
  shows "pol.safe Delegate (validateAndCommitPlanPolicy f obs v c) s"
proof -
  have target: "pol.safe Delegate (thenp (case pending_target d of None \<Rightarrow> ret ()
        | Some t' \<Rightarrow> bindp (updateTargetAllocation t') (\<lambda>v. resolvePendingPolicy f v))
      (getsp (\<lambda>s. (policyVersion s, rebalanceCount s)))) s"
    if d: "map_of (flowsRunning s) f = Some d" "detail_agent d = Some n"
      and ver: "detail_type d = FlowRebalance \<and> \<not> target_committed d \<longrightarrow> createdAtPolicyVersion d = Some (policyVersion s)"
      and i: "map_of (agents s) n = Some i" "agent_permissions i = perms"
      and m: "vetMandate perms t obs = Inr u" "(case pending_target d of Some t \<Rightarrow> Some t | None \<Rightarrow> targetAllocation s) = Some t"
    for d n i perms t u
  proof -
    have "pol.safe Delegate (updateTargetAllocation t') s" if p: "pending_target d = Some t'" for t'
    proof -
      have "t' = t" using m(2) p by simp
      with safe_commit_pending [OF assms d(1) p _ d(2) i(1)] pending_targetD [OF p] ver vetMandate_allocation [OF m(1)] i(2)
      show ?thesis by blast
    qed
    then show ?thesis
      by (intro safe_reading safe_basic pol.safe_thenp pol.safe_bindp safe_resolvePendingPolicy assms)
  qed
  show ?thesis
    unfolding validateAndCommitPlanPolicy_def Let_def mandateOf_def [symmetric]
    apply (rule pol.safe_same_thenp [OF assms], simp add: checkVersion_run)
    apply (rule pol.safe_readStore_bindp [OF assms])
    apply (rule pol.safe_case_option, rule pol.safe_getsp [OF assms])
    apply (rule pol.safe_same_thenp [OF assms], simp)
    apply (rule pol.safe_getsp_bindp, rule pol.safe_same_bindp [OF assms], rule mandateOf_run)
    apply (rule pol.safe_getsp_bindp, rule pol.safe_same_bindp [OF assms], simp split: option.split)
    apply (rule pol.safe_same_thenp [OF assms], simp)
    subgoal for _ d n _ perms t
      using mandateOf_run(2) [of s n perms] target [of d n _ perms t]
      by (auto simp: store_get_Inr split: option.splits if_splits)
    done
qed

lemma bindp_InrE:
  assumes "bindp m f s = (Inr y, t)"
  obtains x u where "m s = (Inr x, u)" "f x u = (Inr y, t)"
  using assms by (auto split: prod.splits sum.splits)

lemma bindp_getsp_run: "bindp (getsp g) k s = k (g s) s"
  by simp

lemma thenp_InrE:
  assumes "thenp m k s = (Inr y, t)"
  obtains x u where "m s = (Inr x, u)" "k u = (Inr y, t)"
  using assms unfolding thenp_def by (rule bindp_InrE)

lemma requirep_thenp_InrE:
  assumes "thenp (requirep b e) k s = (Inr y, t)"
  obtains "b" "k s = (Inr y, t)"
  using assms by (auto split: if_splits)

lemma flow_not_pending:
  assumes "running_ok s d" "pending_target d = None \<or> detail_agent d = None" "initiatingOperation d = Some opn"
  shows "op_status opn \<noteq> OpPending"
proof
  assume p: "op_status opn = OpPending"
  have "detail_agent d \<noteq> None" using assms(1,3) p unfolding running_ok_def pending_target_ok_def by blast
  with running_ok_pending [OF assms(1,3) p] assms(2,3) p show False by (auto simp: pending_target_def)
qed

lemma resolvePending_not_pending:
  assumes "resolvePendingPolicy f v s = (Inr u, t)"
  shows "not_pending t f"
  using assms
  by (auto simp: resolvePendingPolicy_def store_get_Inr store_set_def not_pending_def publishStatus_def
      split: sum.splits option.splits if_splits)

text \<open>What a plan that passes the validation was checked against.\<close>

lemma validate_Inr:
  assumes "validateAndCommitPlanPolicy f obs v c s = (Inr r, t)"
  shows "policyVersion s = v \<and> rebalanceCount s = c \<and>
    (\<exists>d. map_of (flowsRunning s) f = Some d \<and>
      (detail_agent d = None \<and> t = s \<or>
       (\<exists>n i tgt. detail_agent d = Some n \<and> map_of (agents s) n = Some i \<and>
          (detail_type d = FlowRebalance \<and> \<not> target_committed d \<longrightarrow> createdAtPolicyVersion d = Some (policyVersion s)) \<and>
          (case pending_target d of Some t' \<Rightarrow> Some t' | None \<Rightarrow> targetAllocation s) = Some tgt \<and>
          vetMandate (agent_permissions i) tgt obs = Inr () \<and>
          (pending_target d = None \<and> t = s \<or> pending_target d \<noteq> None \<and>
           (\<exists>w u. updateTargetAllocation tgt s = (Inr w, u) \<and> resolvePendingPolicy f w u = (Inr (), t))))))"
proof -
  note [simp del] = bindp_apply thenp_apply
  let ?rest = "\<lambda>d. case detail_agent d of None \<Rightarrow> getsp (\<lambda>s. (policyVersion s, rebalanceCount s))
      | Some n \<Rightarrow> thenp (bindp (getsp policyVersion) (\<lambda>v.
             requirep (detail_type d = FlowRebalance \<and> \<not> target_committed d \<longrightarrow>
                       createdAtPolicyVersion d = Some v) PolicyChanged))
        (bindp (getsp delegations) (\<lambda>ds.
         bindp (mandateOf ds n) (\<lambda>perms.
         bindp (getsp (\<lambda>s. case pending_target d of Some t \<Rightarrow> Some t | None \<Rightarrow> targetAllocation s)) (\<lambda>target.
         bindp (case target of None \<Rightarrow> throw TargetMissing | Some t \<Rightarrow> ret t) (\<lambda>t.
         thenp (liftp (vetMandate perms t obs))
        (thenp (case pending_target d of
                  None \<Rightarrow> ret ()
                | Some t' \<Rightarrow> bindp (updateTargetAllocation t') (\<lambda>v. resolvePendingPolicy f v))
         (getsp (\<lambda>s. (policyVersion s, rebalanceCount s)))))))))"
  have "thenp (checkVersion v c) (bindp (readStore flowsRunning f) ?rest) s = (Inr r, t)"
    using assms by (simp only: validateAndCommitPlanPolicy_def mandateOf_def Let_def)
  then obtain x u where "checkVersion v c s = (Inr x, u)" "bindp (readStore flowsRunning f) ?rest u = (Inr r, t)"
    by (rule thenp_InrE)
  then have vc: "policyVersion s = v" "rebalanceCount s = c" and "bindp (readStore flowsRunning f) ?rest s = (Inr r, t)"
    by (auto simp: checkVersion_run split: if_splits)
  from this(3) obtain d u' where "readStore flowsRunning f s = (Inr d, u')" "?rest d u' = (Inr r, t)"
    by (rule bindp_InrE)
  then have d: "map_of (flowsRunning s) f = Some d" and rest: "?rest d s = (Inr r, t)"
    by (auto simp: store_get_Inr)
  show ?thesis
  proof (cases "detail_agent d")
    case None
    then show ?thesis using vc d rest by auto
  next
    case (Some n)
    note ag = Some
    from rest [unfolded ag option.case] obtain u1 where
      cr: "detail_type d = FlowRebalance \<and> \<not> target_committed d \<longrightarrow> createdAtPolicyVersion d = Some (policyVersion s)"
      and b: "bindp (getsp delegations) (\<lambda>ds. bindp (mandateOf ds n) (\<lambda>perms.
         bindp (getsp (\<lambda>s. case pending_target d of Some t \<Rightarrow> Some t | None \<Rightarrow> targetAllocation s)) (\<lambda>target.
         bindp (case target of None \<Rightarrow> throw TargetMissing | Some t \<Rightarrow> ret t) (\<lambda>t.
         thenp (liftp (vetMandate perms t obs))
        (thenp (case pending_target d of
                  None \<Rightarrow> ret ()
                | Some t' \<Rightarrow> bindp (updateTargetAllocation t') (\<lambda>v. resolvePendingPolicy f v))
         (getsp (\<lambda>s. (policyVersion s, rebalanceCount s)))))))) s = (Inr r, t)"
      by (elim thenp_InrE) (auto simp: bindp_apply split: if_splits)
    note b1 = b [unfolded bindp_getsp_run]
    obtain perms u2 where m: "mandateOf (delegations s) n s = (Inr perms, u2)"
      and b2: "bindp (case (case pending_target d of Some t \<Rightarrow> Some t | None \<Rightarrow> targetAllocation u2) of
           None \<Rightarrow> throw TargetMissing | Some t \<Rightarrow> ret t) (\<lambda>t.
         thenp (liftp (vetMandate perms t obs))
        (thenp (case pending_target d of
                  None \<Rightarrow> ret ()
                | Some t' \<Rightarrow> bindp (updateTargetAllocation t') (\<lambda>v. resolvePendingPolicy f v))
         (getsp (\<lambda>s. (policyVersion s, rebalanceCount s))))) u2 = (Inr r, t)"
      by (rule bindp_InrE [OF b1])
    have u2: "u2 = s" using mandateOf_run(1) [of s n] m by simp
    obtain i where i: "map_of (agents s) n = Some i" "agent_permissions i = perms"
      using mandateOf_run(2) [of s n perms] m by auto
    let ?tgt = "case pending_target d of Some t' \<Rightarrow> Some t' | None \<Rightarrow> targetAllocation s"
    obtain tgt where tgt: "?tgt = Some tgt"
      using b2 u2 by (cases ?tgt) (simp_all only: option.case bindp_apply throw_apply prod.case sum.case, simp_all)
    have b3: "thenp (liftp (vetMandate perms tgt obs))
        (thenp (case pending_target d of
                  None \<Rightarrow> ret ()
                | Some t' \<Rightarrow> bindp (updateTargetAllocation t') (\<lambda>v. resolvePendingPolicy f v))
         (getsp (\<lambda>s. (policyVersion s, rebalanceCount s)))) s = (Inr r, t)"
      using b2 unfolding u2 tgt option.case bindp_apply ret_apply prod.case sum.case .
    have vm: "vetMandate perms tgt obs = Inr ()"
      using b3 by (cases "vetMandate perms tgt obs") (simp_all add: thenp_apply)
    let ?commit = "case pending_target d of None \<Rightarrow> ret ()
        | Some t' \<Rightarrow> bindp (updateTargetAllocation t') (\<lambda>v. resolvePendingPolicy f v)"
    have b4: "thenp ?commit (getsp (\<lambda>s. (policyVersion s, rebalanceCount s))) s = (Inr r, t)"
      using b3 unfolding thenp_apply liftp_apply vm prod.case sum.case .
    have b5: "?commit s = (Inr (), t)"
      by (rule thenp_InrE [OF b4]) simp
    have "pending_target d = None \<and> t = s \<or> pending_target d \<noteq> None \<and>
        (\<exists>w u. updateTargetAllocation tgt s = (Inr w, u) \<and> resolvePendingPolicy f w u = (Inr (), t))"
    proof (cases "pending_target d")
      case None
      then show ?thesis using b5 by simp
    next
      case (Some t')
      with b5 tgt have "bindp (updateTargetAllocation tgt) (\<lambda>v. resolvePendingPolicy f v) s = (Inr (), t)" by simp
      then show ?thesis using Some by (elim bindp_InrE) blast
    qed
    with vc d ag cr i tgt vm show ?thesis by blast
  qed
qed

lemma validate_not_pending:
  assumes "portfolio_inv s" "validateAndCommitPlanPolicy f obs v c s = (Inr r, t)"
  shows "not_pending t f"
proof -
  from validate_Inr [OF assms(2)] obtain d where d: "map_of (flowsRunning s) f = Some d"
    and or: "t = s \<and> (pending_target d = None \<or> detail_agent d = None) \<or> (\<exists>w u. resolvePendingPolicy f w u = (Inr (), t))"
    by blast
  have ok: "running_ok s d" using inv_flow [OF assms(1) d] by simp
  from or show ?thesis using resolvePending_not_pending d flow_not_pending [OF ok] by (auto simp: not_pending_def)
qed

lemma safe_resolvePlan:
  assumes "portfolio_inv s"
  shows "pol.safe Delegate (resolvePlan msg f plan v c obs) s"
proof -
  have run: "pol.safe Delegate (thenp (submitVersion v' c') (resolveFlowPlan msg f plan)) t"
    if "portfolio_inv t" "not_pending t f" for t v' c'
  proof (rule pol.safe_thenp [OF safe_submitVersion [OF that(1)]])
    fix x u
    assume u: "submitVersion v' c' t = (Inr x, u)" "portfolio_inv u"
    then have "not_pending u f" using submitVersion_flows [of v' c' t] that(2) by (simp add: not_pending_def)
    with u(2) show "pol.safe Delegate (resolveFlowPlan msg f plan) u" by (rule safe_resolveFlowPlan)
  qed
  have val: "pol.safe Delegate (catchp (bindp (validateAndCommitPlanPolicy f obs v c) (\<lambda>sy. ret (Inr sy)))
      (\<lambda>reason. ret (Inl reason))) s"
    by (intro pol.safe_catchp pol.safe_bindp safe_validate safe_basic assms)
  have np: "not_pending u f" if "catchp (bindp (validateAndCommitPlanPolicy f obs v c) (\<lambda>sy. ret (Inr sy)))
      (\<lambda>reason. ret (Inl reason)) s = (Inr (Inr sy), u)" for sy u
    using that validate_not_pending [OF assms] by (auto split: prod.splits sum.splits)
  show ?thesis
    unfolding resolvePlan_def vetPlan_def
    apply (rule pol.safe_same_thenp [OF assms], simp)
    apply (rule pol.safe_bindp [OF val])
    subgoal for _ acc u
      apply (rule pol.safe_case_sum)
       apply (rule pol.safe_thenp [OF safe_submitVersion safe_rejectFlowPlan], assumption+)
      apply (rule pol.safe_case_prod, rule run, assumption)
      using np by blast
    done
qed

lemma safe_rejectPlan: "portfolio_inv s \<Longrightarrow> pol.safe Delegate (rejectPlan f reason v c) s"
  unfolding rejectPlan_def by (intro pol.safe_thenp safe_submitVersion safe_rejectFlowPlan)

end
