(* ===== verification/CallerMethods.thy ===== *)
theory CallerMethods
  imports PolicyMethods
begin

text \<open>
  The composed operations: what delegates and the planner submit takes only delegate steps,
  what the owner does only owner steps, and all keep the invariant.
\<close>

section \<open>Delegates\<close>

lemma vetAllocationPlan_Inr:
  "vetAllocationPlan perms t plan obs = Inr b \<Longrightarrow> assertMandateForAllocation perms t = Inr () \<and> (plan \<noteq> None \<longrightarrow> b)"
  by (auto simp: vetAllocationPlan_def bindr_Inr_iff split: option.splits)

lemma safe_commitAllocation:
  assumes "portfolio_inv s" "map_of (agents s) n = Some i" "may_allocate (agent_permissions i)"
    and "same_positions (targetAllocation s) (sp_target params)" "TargetAllocationShapeExt (sp_target params)"
    and "\<And>b. vetted = Some b \<Longrightarrow> assertMandateForAllocation (agent_permissions i) (sp_target params) = Inr () \<and>
      (sp_plan params \<noteq> None \<longrightarrow> b)"
  shows "pol.safe Delegate (commitAllocation msg (agent_permissions i) params verified vetted f) s"
proof -
  have commit: "pol.safe Delegate (thenp (whenp b
      (bindp (updateTargetAllocation (sp_target params)) (\<lambda>v. resolvePendingPolicy f v)))
      (case sp_plan params of None \<Rightarrow> ret () | Some plan \<Rightarrow> resolveFlowPlan msg f (Plan plan))) s"
    if ok: "assertMandateForAllocation (agent_permissions i) (sp_target params) = Inr ()" "sp_plan params \<noteq> None \<longrightarrow> b" for b
  proof (rule pol.safe_thenp)
    let ?c = "bindp (updateTargetAllocation (sp_target params)) (\<lambda>v. resolvePendingPolicy f v)"
    show "pol.safe Delegate (whenp b ?c) s"
      by (intro pol.safe_whenp pol.safe_bindp safe_resolvePendingPolicy safe_update_delegate [OF assms(1) _ assms(2)] assms ok)
    fix x t
    assume t: "whenp b ?c s = (Inr x, t)" "portfolio_inv t"
    show "pol.safe Delegate (case sp_plan params of None \<Rightarrow> ret () | Some plan \<Rightarrow> resolveFlowPlan msg f (Plan plan)) t"
    proof (intro pol.safe_case_option pol.safe_ret safe_resolveFlowPlan t(2))
      fix plan
      assume "sp_plan params = Some plan"
      with ok(2) t(1) have "?c s = (Inr (), t)" by simp
      then show "not_pending t f" by (elim bindp_InrE) (rule resolvePending_not_pending)
    qed
  qed
  show ?thesis
    unfolding commitAllocation_def
  proof (rule pol.safe_same_bindp [OF assms(1)])
    show "snd ((case vetted of Some b \<Rightarrow> ret b | None \<Rightarrow> liftp (vetAllocationPlan (agent_permissions i) (sp_target params)
        (sp_plan params) (map_option po_observations verified))) s) = s"
      by (simp split: option.split)
    fix b
    assume b: "fst ((case vetted of Some b \<Rightarrow> ret b | None \<Rightarrow> liftp (vetAllocationPlan (agent_permissions i) (sp_target params)
        (sp_plan params) (map_option po_observations verified))) s) = Inr b"
    have "assertMandateForAllocation (agent_permissions i) (sp_target params) = Inr () \<and> (sp_plan params \<noteq> None \<longrightarrow> b)"
    proof (cases vetted)
      case None
      with b have "vetAllocationPlan (agent_permissions i) (sp_target params) (sp_plan params) (map_option po_observations verified) = Inr b"
        by simp
      then show ?thesis by (rule vetAllocationPlan_Inr)
    next
      case (Some b')
      then show ?thesis using b assms(6) by simp
    qed
    then show "pol.safe Delegate (thenp (whenp b
      (bindp (updateTargetAllocation (sp_target params)) (\<lambda>v. resolvePendingPolicy f v)))
      (case sp_plan params of None \<Rightarrow> ret () | Some plan \<Rightarrow> resolveFlowPlan msg f (Plan plan))) s"
      using commit by blast
  qed
qed

lemma next_flow_free: "portfolio_inv s \<Longrightarrow> \<not> store_has (flowsRunning s) (nextFlowId s)"
  using inv_flow [of s "nextFlowId s"] unfolding store_has_iff by (meson less_irrefl)

text \<open>A flow is started and its plan execution launched; agents, target and version are as before.\<close>

lemma safe_start_then:
  assumes "portfolio_inv s" "running_ok s (started_flow detail steps)"
    and "\<And>t. portfolio_inv t \<Longrightarrow> agents t = agents s \<Longrightarrow> targetAllocation t = targetAllocation s \<Longrightarrow>
      policyVersion t = policyVersion s \<Longrightarrow>
      map_of (flowsRunning t) (nextFlowId s) = Some (started_flow detail steps) \<Longrightarrow> pol.safe a (k (nextFlowId s)) t"
  shows "pol.safe a (bindp (startFlow detail steps) (\<lambda>f. thenp (executePlan f) (k f))) s"
proof (rule pol.safe_bindp [OF safe_startFlow [OF assms(1,2)]])
  fix f t
  assume t: "startFlow detail steps s = (Inr f, t)" "portfolio_inv t"
  then have f: "f = nextFlowId s" and c: "core t = core (put_flowsRunning (put_entry (nextFlowId s) (started_flow detail steps)
      (flowsRunning s)) (s\<lparr>nextFlowId := nextFlowId s + 1\<rparr>))"
    using startFlow_run [OF next_flow_free [OF assms(1)], of detail steps] by auto
  let ?u = "snd (executePlan f t)"
  have "core ?u = core t" by (simp add: executePlan_def)
  with c have u: "agents ?u = agents s" "targetAllocation ?u = targetAllocation s" "policyVersion ?u = policyVersion s"
    "map_of (flowsRunning ?u) (nextFlowId s) = Some (started_flow detail steps)"
    by (simp_all add: core_def agents_def)
  have "executePlan f t = (Inr (), ?u)" by (simp add: executePlan_def)
  then show "pol.safe a (thenp (executePlan f) (k f)) t"
    using assms(3) [of ?u] u f by (intro pol.safe_thenp [OF safe_frames(7) [OF t(2)]]) auto
qed

lemma started_flow_simps [simp]:
  "detail_type (started_flow d st) = detail_type d" "detail_amount (started_flow d st) = detail_amount d"
  "initiatingOperation (started_flow d st) = initiatingOperation d" "detail_agent (started_flow d st) = detail_agent d"
  "createdAtPolicyVersion (started_flow d st) = createdAtPolicyVersion d"
  "sync (started_flow d st) = (case st of None \<Rightarrow> AwaitingSteps | Some ms \<Rightarrow> StepsResolved (Steps ms))"
  by (simp_all add: started_flow_def flow_detail.defs running_flow.defs)

lemma plain_detail_simps [simp]:
  "detail_type (plain_detail ty) = ty" "detail_amount (plain_detail ty) = None"
  "initiatingOperation (plain_detail ty) = None" "detail_agent (plain_detail ty) = None"
  by (simp_all add: plain_detail_def)

lemma set_target_running_ok:
  assumes "map_of (agents s) n = Some i" "may_allocate (agent_permissions i)"
    and "same_positions (targetAllocation s) (sp_target params)" "TargetAllocationShapeExt (sp_target params)"
    and "policyVersion s = sync_policyVersion (sp_syncState params)"
  shows "running_ok s (started_flow (set_target_detail n params) None)"
  using assms
  by (simp add: running_ok_def flowDetailShape_of pending_target_ok_def refused_target_ok_def set_target_detail_def all_some_def
      initiatingOperationShape_def store_has_def)

lemma agent_running_ok:
  assumes "store_has (agents s) n" "detail_agent d = Some n" "initiatingOperation d = None"
    and "detail_type d = FlowRebalance \<or> detail_type d = FlowClaimRewards"
  shows "running_ok s (started_flow d st)"
  using assms by (auto simp: running_ok_def flowDetailShape_of pending_target_ok_def refused_target_ok_def all_some_def)

lemma vetBeforeFlow_run:
  "snd (vetBeforeFlow perms params verified s) = s"
  "fst (vetBeforeFlow perms params verified s) = Inr (Some b) \<Longrightarrow>
     assertMandateForAllocation perms (sp_target params) = Inr () \<and> (sp_plan params \<noteq> None \<longrightarrow> b)"
  by (auto simp: vetBeforeFlow_def dest!: vetAllocationPlan_Inr split: option.splits sum.splits prod.splits)

lemma safe_submitTargetAllocation:
  assumes "portfolio_inv s" "TargetAllocationShapeExt (sp_target params)" "same_positions (targetAllocation s) (sp_target params)"
  shows "pol.safe Delegate (submitTargetAllocation msg client n params verified) s"
  unfolding submitTargetAllocation_def
proof (rule pol.safe_same_bindp [OF assms(1)], rule authorized_state)
  fix i
  assume "fst (getAuthorizedDelegation client n [AllocationPermission] s) = Inr i"
  then have i: "map_of (agents s) n = Some i" "may_allocate (agent_permissions i)"
    by (simp_all add: authorized_Inr holds_permission_def)
  show "pol.safe Delegate (thenp (checkSyncState (sp_syncState params))
    (thenp (checkObserved params verified)
    (bindp (vetBeforeFlow (agent_permissions i) params verified) (\<lambda>vetted.
     thenp insistLatestFlowFinished
    (bindp (startFlow (set_target_detail n params) None) (\<lambda>flowId.
     thenp (executePlan flowId)
    (thenp (catchp (commitAllocation msg (agent_permissions i) params verified vetted flowId)
              (\<lambda>reason. rejectFlowPlan flowId (msg reason)))
    (ret flowId)))))))) s"
  proof (rule pol.safe_same_thenp [OF assms(1)])
    show "snd (checkSyncState (sp_syncState params) s) = s" by (simp add: checkSyncState_def checkVersion_run)
    fix u
    assume "fst (checkSyncState (sp_syncState params) s) = Inr u"
    then have v: "policyVersion s = sync_policyVersion (sp_syncState params)"
      by (simp add: checkSyncState_def checkVersion_run split: if_splits)
    show "pol.safe Delegate (thenp (checkObserved params verified)
      (bindp (vetBeforeFlow (agent_permissions i) params verified) (\<lambda>vetted.
       thenp insistLatestFlowFinished
      (bindp (startFlow (set_target_detail n params) None) (\<lambda>flowId.
       thenp (executePlan flowId)
      (thenp (catchp (commitAllocation msg (agent_permissions i) params verified vetted flowId)
                (\<lambda>reason. rejectFlowPlan flowId (msg reason)))
      (ret flowId))))))) s"
    proof (rule pol.safe_same_thenp [OF assms(1)], simp add: checkObserved_def split: option.split,
        rule pol.safe_same_bindp [OF assms(1)], rule vetBeforeFlow_run(1),
        rule pol.safe_same_thenp [OF assms(1)], simp add: insistLatestFlowFinished_def,
        rule safe_start_then [OF assms(1) set_target_running_ok [OF i assms(3,2) v]])
      fix vetted t
      assume vt: "fst (vetBeforeFlow (agent_permissions i) params verified s) = Inr vetted"
        and t: "portfolio_inv t" "agents t = agents s" "targetAllocation t = targetAllocation s"
      have "pol.safe Delegate (commitAllocation msg (agent_permissions i) params verified vetted (nextFlowId s)) t"
        using assms i t vetBeforeFlow_run(2) [of "agent_permissions i" params verified s] vt
        by (intro safe_commitAllocation [of t n i]) auto
      then show "pol.safe Delegate (thenp (catchp (commitAllocation msg (agent_permissions i) params verified vetted (nextFlowId s))
          (\<lambda>reason. rejectFlowPlan (nextFlowId s) (msg reason))) (ret (nextFlowId s))) t"
        by (intro pol.safe_thenp pol.safe_catchp safe_rejectFlowPlan pol.safe_ret)
    qed
  qed
qed

lemma safe_submitRebalance:
  assumes "portfolio_inv s"
  shows "pol.safe Delegate (submitRebalance msg client n params) s"
  unfolding submitRebalance_def
proof (rule pol.safe_same_bindp [OF assms], rule authorized_state)
  fix i
  assume "fst (getAuthorizedDelegation client n [RebalancePermission] s) = Inr i"
  then have n: "store_has (agents s) n" by (simp add: authorized_Inr store_has_def)
  let ?d = "(plain_detail FlowRebalance)\<lparr>detail_agent := Some n, agentMemo := fp_memo params,
     createdAtPolicyVersion := Some (sync_policyVersion (fp_syncState params))\<rparr>"
  have flow: "running_ok s (started_flow ?d None)" by (rule agent_running_ok [OF n]) simp_all
  have rest: "pol.safe Delegate (thenp (case target of None \<Rightarrow> ret ()
        | Some t \<Rightarrow> catchp (liftp (assertMandateForAllocation (agent_permissions i) t))
            (\<lambda>reason. rejectFlowPlan f (msg reason))) (ret f)) t"
    if "portfolio_inv t" for target t f
    using that by (intro pol.safe_thenp safe_reading safe_basic pol.safe_catchp safe_rejectFlowPlan)
  show "pol.safe Delegate (thenp (checkSyncState (fp_syncState params))
    (bindp (case perm_allocation (agent_permissions i) of
              Some (Limited _) \<Rightarrow>
                bindp (getsp targetAllocation) (\<lambda>t. case t of None \<Rightarrow> throw TargetMissing | Some t' \<Rightarrow> ret (Some t'))
            | _ \<Rightarrow> ret None) (\<lambda>target.
     thenp insistLatestFlowFinished
    (bindp (startFlow ?d None) (\<lambda>flowId.
     thenp (executePlan flowId)
    (thenp (case target of
              None \<Rightarrow> ret ()
            | Some t \<Rightarrow> catchp (liftp (assertMandateForAllocation (agent_permissions i) t))
                (\<lambda>reason. rejectFlowPlan flowId (msg reason)))
    (ret flowId))))))) s"
    by (rule pol.safe_same_thenp [OF assms], simp add: checkSyncState_def checkVersion_run,
      rule pol.safe_same_bindp [OF assms], simp split: option.split allocation_permission.split,
      rule pol.safe_same_thenp [OF assms], simp add: insistLatestFlowFinished_def,
      rule safe_start_then [OF assms flow], rule rest)
qed

lemma safe_submitClaimRewards:
  assumes "portfolio_inv s"
  shows "pol.safe Delegate (submitClaimRewards client n params) s"
  unfolding submitClaimRewards_def
proof (rule pol.safe_same_bindp [OF assms], rule authorized_state)
  fix i
  assume "fst (getAuthorizedDelegation client n [ClaimRewardsPermission] s) = Inr i"
  then have n: "store_has (agents s) n" by (simp add: authorized_Inr store_has_def)
  let ?d = "(plain_detail FlowClaimRewards)\<lparr>detail_agent := Some n, agentMemo := fp_memo params\<rparr>"
  have flow: "running_ok s (started_flow ?d None)" by (rule agent_running_ok [OF n]) simp_all
  show "pol.safe Delegate (thenp (checkSyncState (fp_syncState params))
    (thenp insistLatestFlowFinished
    (bindp (startFlow ?d None) (\<lambda>flowId. thenp (executePlan flowId) (ret flowId))))) s"
    by (rule pol.safe_same_thenp [OF assms], simp add: checkSyncState_def checkVersion_run,
      rule pol.safe_same_thenp [OF assms], simp add: insistLatestFlowFinished_def,
      rule safe_start_then [OF assms flow], rule pol.safe_ret)
qed

lemma safe_clientRebalance: "portfolio_inv s \<Longrightarrow> pol.safe Delegate (clientRebalance msg client params) s"
  unfolding clientRebalance_def by (intro safe_reading safe_submitRebalance)

lemma safe_clientClaimRewards: "portfolio_inv s \<Longrightarrow> pol.safe Delegate (clientClaimRewards client params) s"
  unfolding clientClaimRewards_def by (intro safe_reading safe_submitClaimRewards)

lemma clientSetTarget_run:
  "snd (clientSetTarget client params sg s) = s"
  "fst (clientSetTarget client params sg s) = Inr u \<Longrightarrow> TargetAllocationShape (sp_target params)"
  using authorized_state [of client "client_agent client" "[AllocationPermission]" s]
  by (auto simp: clientSetTarget_def split: option.splits sum.splits prod.splits if_splits)

lemma filter_empty_subset: "length (filter (\<lambda>x. x \<notin> A) xs) = 0 \<longleftrightarrow> set xs \<subseteq> A"
  by (auto simp: filter_empty_conv)

lemma safe_clientSetTargetVerified:
  assumes "portfolio_inv s" "TargetAllocationShapeExt (sp_target params)"
  shows "pol.safe Delegate (clientSetTargetVerified msg client params outcome) s"
  unfolding clientSetTargetVerified_def
proof (rule pol.safe_liftp_bindp [OF assms(1)], rule pol.safe_same_bindp [OF assms(1)])
  show "snd (helperGetTargetAllocation client (client_agent client) s) = s"
    using authorized_state [of client "client_agent client" "[]" s]
    by (auto simp: helperGetTargetAllocation_def split: prod.splits sum.splits)
  fix verified current
  assume "fst (helperGetTargetAllocation client (client_agent client) s) = Inr current"
  then have cur: "current = targetAllocation s"
    using authorized_state [of client "client_agent client" "[]" s]
    by (auto simp: helperGetTargetAllocation_def split: prod.splits sum.splits)
  show "pol.safe Delegate (case auditKeys (case current of None \<Rightarrow> [] | Some t \<Rightarrow> t) (sp_target params) of (extra, missing) \<Rightarrow>
       thenp (requirep (length extra = 0) UnauthorizedPosition)
      (thenp (requirep (length missing = 0) UnauthorizedPosition)
      (submitTargetAllocation msg client (client_agent client) params verified))) s"
  proof (intro pol.safe_case_prod pol.safe_requirep_thenp assms(1) safe_submitTargetAllocation assms(2))
    fix extra missing
    assume "auditKeys (case current of None \<Rightarrow> [] | Some t \<Rightarrow> t) (sp_target params) = (extra, missing)"
      "length extra = 0" "length missing = 0"
    then show "same_positions (targetAllocation s) (sp_target params)"
      unfolding auditKeys_def same_positions_def cur prod.inject by (metis filter_empty_subset subset_antisym)
  qed
qed

text \<open>The planner acts through its own client; the flow it starts has no target to commit.\<close>

lemma plannerDelegation_run: "snd (plannerDelegation feature s) = s"
proof -
  have a: "snd (isActive c s) = s" "snd (helperGetAutoFeatures c n s) = s" for c n
    using authorized_state [of c "client_agent c" "[]" s] authorized_state [of c n "[]" s]
    by (auto simp: isActive_def helperGetAutoFeatures_def split: prod.splits sum.splits)
  then show ?thesis
    by (auto simp: plannerDelegation_def split: option.splits prod.splits sum.splits) (metis prod.collapse prod.inject)+
qed

lemma same_stateD: "m s = (r, u) \<Longrightarrow> snd (m s) = s \<Longrightarrow> u = s"
  by simp

lemma startFlow_id:
  assumes "portfolio_inv s" "startFlow d st s = (Inr f, t)"
  shows "f = nextFlowId s"
  using startFlow_run [OF next_flow_free [OF assms(1)], of d st] assms(2) by auto

lemma submitRebalance_id:
  assumes "portfolio_inv s" "submitRebalance msg client n params s = (Inr f, t)"
  shows "f = nextFlowId s"
  using assms(2) unfolding submitRebalance_def
  apply (elim bindp_InrE thenp_InrE)
  apply (drule same_stateD, rule authorized_state)
  apply (drule same_stateD, simp add: checkSyncState_def checkVersion_run)
  apply (drule same_stateD, simp split: option.split allocation_permission.split)
  apply (drule same_stateD, simp add: insistLatestFlowFinished_def)
  apply (simp add: startFlow_id [OF assms(1)])
  done

lemma submitClaimRewards_id:
  assumes "portfolio_inv s" "submitClaimRewards client n params s = (Inr f, t)"
  shows "f = nextFlowId s"
  using assms(2) unfolding submitClaimRewards_def
  apply (elim bindp_InrE thenp_InrE)
  apply (drule same_stateD, rule authorized_state)
  apply (drule same_stateD, simp add: checkSyncState_def checkVersion_run)
  apply (drule same_stateD, simp add: insistLatestFlowFinished_def)
  apply (simp add: startFlow_id [OF assms(1)])
  done

text \<open>Methods after which no flow has a pending target that had none before.\<close>

interpretation np: guarantee "\<lambda>_. True" "\<lambda>s t. \<forall>f. not_pending s f \<longrightarrow> not_pending t f"
  by unfold_locales auto

lemma np_frame:
  assumes "keeps (\<lambda>t. core t = core s) m"
  shows "np.safe m s"
proof -
  have "core (snd (m s)) = core s" by (rule keepsD [OF assms]) (rule refl)
  from not_pending_core [OF this] show ?thesis by (simp add: np.safe_def)
qed

lemmas np_frames = np_frame [OF frames(1)] np_frame [OF frames(7)]

lemma rejectedDetail_pending:
  "initiatingOperation (rejectedDetail d reason) = Some opn \<Longrightarrow> op_status opn = OpPending \<Longrightarrow> initiatingOperation d = Some opn"
  by (auto simp: rejectedDetail_def Let_def split: option.splits if_splits)

lemma np_rejectFlowPlan: "np.safe (rejectFlowPlan f reason) s"
proof -
  have "np.safe (writeStore flowsRunning put_flowsRunning (\<lambda>m. store_set m f (rejectedDetail d reason))) s"
    if d: "map_of (flowsRunning s) f = Some d" for d
  proof (intro np.safe_writeStore conjI TrueI allI impI)
    fix m f'
    assume m: "store_set (flowsRunning s) f (rejectedDetail d reason) = Inr m" and np: "not_pending s f'"
    from m have "m = put_entry f (rejectedDetail d reason) (flowsRunning s)" by (simp add: store_set_Some [OF d])
    with np d show "not_pending (put_flowsRunning m s) f'"
      unfolding not_pending_def by (auto dest: rejectedDetail_pending split: if_splits)
  qed
  then show ?thesis
    unfolding rejectFlowPlan_def
    by (intro np.safe_getsp_bindp np.safe_case_option np.safe_if np.safe_ret np.safe_thenp np_frames TrueI)
qed

lemma np_startFlow:
  assumes "portfolio_inv s" "initiatingOperation d = None"
  shows "np.safe (startFlow d st) s"
proof -
  obtain t where t: "startFlow d st s = (Inr (nextFlowId s), t)"
    "core t = core (put_flowsRunning (put_entry (nextFlowId s) (started_flow d st) (flowsRunning s)) (s\<lparr>nextFlowId := nextFlowId s + 1\<rparr>))"
    using startFlow_run [OF next_flow_free [OF assms(1)], of d st] by auto
  then have "flowsRunning t = put_entry (nextFlowId s) (started_flow d st) (flowsRunning s)" by (simp add: core_def)
  then have "not_pending t f" if "not_pending s f" for f
    using that assms(2) unfolding not_pending_def by (auto split: if_splits)
  then show ?thesis using t(1) by (simp add: np.safe_def)
qed

lemma submitRebalance_not_pending:
  assumes "portfolio_inv s" "submitRebalance msg client n params s = (Inr f, t)"
  shows "not_pending t f"
proof -
  have "np.safe (submitRebalance msg client n params) s"
    unfolding submitRebalance_def
    apply (rule np.safe_same_bindp [OF TrueI], rule authorized_state)
    apply (rule np.safe_same_thenp [OF TrueI], simp add: checkSyncState_def checkVersion_run)
    apply (rule np.safe_same_bindp [OF TrueI], simp split: option.split allocation_permission.split)
    apply (rule np.safe_same_thenp [OF TrueI], simp add: insistLatestFlowFinished_def)
    apply (rule np.safe_bindp, rule np_startFlow [OF assms(1)], simp)
    apply (intro np.safe_thenp np_frames np.safe_case_option np.safe_ret np.safe_catchp np.safe_liftp np_rejectFlowPlan TrueI)
    done
  moreover have "not_pending s f"
    using submitRebalance_id [OF assms] next_flow_free [OF assms(1)] by (simp add: not_pending_def store_has_def)
  ultimately show ?thesis using assms(2) by (simp add: np.safe_def)
qed

lemma submitClaimRewards_not_pending:
  assumes "portfolio_inv s" "submitClaimRewards client n params s = (Inr f, t)"
  shows "not_pending t f"
proof -
  have "np.safe (submitClaimRewards client n params) s"
    unfolding submitClaimRewards_def
    apply (rule np.safe_same_bindp [OF TrueI], rule authorized_state)
    apply (rule np.safe_same_thenp [OF TrueI], simp add: checkSyncState_def checkVersion_run)
    apply (rule np.safe_same_thenp [OF TrueI], simp add: insistLatestFlowFinished_def)
    apply (rule np.safe_bindp, rule np_startFlow [OF assms(1)], simp)
    apply (intro np.safe_thenp np_frames np.safe_ret TrueI)
    done
  moreover have "not_pending s f"
    using submitClaimRewards_id [OF assms] next_flow_free [OF assms(1)] by (simp add: not_pending_def store_has_def)
  ultimately show ?thesis using assms(2) by (simp add: np.safe_def)
qed

lemma safe_planner_run:
  assumes "portfolio_inv s" "not_pending s f"
  shows "pol.safe Delegate (thenp (vetPlan plan) (thenp (submitVersion v c) (thenp (resolveFlowPlan msg f plan) (ret f)))) s"
proof (rule pol.safe_same_thenp [OF assms(1)], simp add: vetPlan_def, rule pol.safe_thenp [OF safe_submitVersion [OF assms(1)]])
  fix x t
  assume t: "submitVersion v c s = (Inr x, t)" "portfolio_inv t"
  then have "not_pending t f" using submitVersion_flows [of v c s] assms(2) by (simp add: not_pending_def)
  then show "pol.safe Delegate (thenp (resolveFlowPlan msg f plan) (ret f)) t"
    by (intro pol.safe_thenp safe_resolveFlowPlan pol.safe_ret t(2))
qed

lemma requirep_then_submit:
  "thenp (requirep b e) m s = (Inr f, t) \<Longrightarrow> m s = (Inr f, t)"
  by (auto split: if_splits)

lemma safe_plannerRebalance: "portfolio_inv s \<Longrightarrow> pol.safe Delegate (plannerRebalance msg params plan) s"
  unfolding plannerRebalance_def
  by (rule pol.safe_same_bindp, assumption, rule plannerDelegation_run, rule pol.safe_bindp, rule safe_clientRebalance,
    assumption, rule safe_planner_run, assumption, unfold clientRebalance_def, drule requirep_then_submit,
    rule submitRebalance_not_pending)

lemma safe_plannerClaimRewards: "portfolio_inv s \<Longrightarrow> pol.safe Delegate (plannerClaimRewards msg params plan) s"
  unfolding plannerClaimRewards_def
  by (rule pol.safe_same_bindp, assumption, rule plannerDelegation_run, rule pol.safe_bindp, rule safe_clientClaimRewards,
    assumption, rule safe_planner_run, assumption, unfold clientClaimRewards_def, drule requirep_then_submit,
    rule submitClaimRewards_not_pending)

section \<open>Owners\<close>

lemma requireEvmOwner_run: "snd (requireEvmOwner s) = s"
  by (simp add: requireEvmOwner_def)

lemma safe_requireEvmOwner:
  "portfolio_inv s \<Longrightarrow> (\<And>acct. pol.safe a (f acct) s) \<Longrightarrow> pol.safe a (bindp requireEvmOwner f) s"
  by (rule pol.safe_same_bindp, assumption, rule requireEvmOwner_run) blast

lemma safe_insistAgoricOwned:
  "portfolio_inv s \<Longrightarrow> pol.safe a m s \<Longrightarrow> pol.safe a (thenp insistAgoricOwned m) s"
  by (rule pol.safe_same_thenp, assumption, simp add: insistAgoricOwned_def)

lemma safe_runFlow:
  assumes "portfolio_inv s" "running_ok s (started_flow d st)"
  shows "pol.safe a (runFlow d st) s"
  unfolding runFlow_def by (intro safe_start_then assms pol.safe_ret)

text \<open>A flow of the owner has no agent and no pending operation.\<close>

lemma owner_running_ok:
  assumes "detail_agent d = None" "flowDetailShape TargetAllocationShapeExt d"
    and "\<And>opn. initiatingOperation d = Some opn \<Longrightarrow> \<exists>v. op_status opn = OpOk v"
  shows "running_ok s (started_flow d st)"
  using assms
  by (auto simp: running_ok_def flowDetailShape_of flowDetailShape_def pending_target_ok_def refused_target_ok_def split: flow_type.splits)

lemma owner_amount_flow:
  assumes "0 \<le> amt" "detail_type d = FlowWithdraw \<or> detail_type d = FlowDeposit"
    and "detail_amount d = Some amt" "initiatingOperation d = None" "detail_agent d = None"
  shows "running_ok s (started_flow d st)"
  using assms by (intro owner_running_ok) (auto simp: flowDetailShape_def all_some_def AnyNatAmountShape_def)

lemma owner_rebalance_flow:
  assumes "detail_type d = FlowRebalance" "detail_agent d = None"
    and "initiatingOperation d = None \<or> (\<exists>t v. initiatingOperation d = Some (committed_target t v) \<and> TargetAllocationShapeExt t)"
  shows "running_ok s (started_flow d st)"
  using assms by (intro owner_running_ok)
    (auto simp: flowDetailShape_def all_some_def initiatingOperationShape_def committed_target_def)

lemma target_of_allocations:
  assumes "list_all (\<lambda>(_, portion). 0 \<le> portion) als"
  shows "TargetAllocationShapeExt (to_map (map (\<lambda>(i, portion). (i, Some portion)) als))"
  using assms unfolding TargetAllocationShapeExt_def list_all_iff by (fastforce dest!: to_map_set)

lemma TargetAllocationShape_ext: "TargetAllocationShape t \<Longrightarrow> TargetAllocationShapeExt t"
  unfolding TargetAllocationShape_def TargetAllocationShapeExt_def list_all_iff by auto

lemma safe_evmDeposit:
  assumes "portfolio_inv s"
  shows "pol.safe a (evmDeposit pw permit) s"
  unfolding evmDeposit_def validateRepresentativeInfo_def chainForId_def makeUsdc_def
  apply (rule safe_requireEvmOwner [OF assms])
  apply (rule pol.safe_liftp_bindp [OF assms])
  apply (rule pol.safe_requirep_thenp [OF assms])
  apply (rule pol.safe_same_thenp [OF assms], simp split: option.split sum.split prod.split)
  apply (rule pol.safe_same_bindp [OF assms], simp split: option.split)
  apply (rule pol.safe_requirep_thenp [OF assms])
  apply (rule pol.safe_same_bindp [OF assms], simp)
  apply (rule safe_runFlow [OF assms])
  apply (rule owner_amount_flow [where amt = "permit_amount permit"])
      apply (auto split: if_splits)
  done

lemma safe_evmWithdraw:
  assumes "portfolio_inv s"
  shows "pol.safe a (evmWithdraw pw amt token dmn addr) s"
  unfolding evmWithdraw_def chainForId_def makeUsdc_def
  apply (rule safe_requireEvmOwner [OF assms])
  apply (rule pol.safe_liftp_bindp [OF assms])
  apply (rule pol.safe_requirep_thenp [OF assms])
  apply (rule pol.safe_same_bindp [OF assms], simp split: option.split)
  apply (rule pol.safe_requirep_thenp [OF assms])+
  apply (rule pol.safe_same_bindp [OF assms], simp)
  apply (rule safe_runFlow [OF assms])
  apply (rule owner_amount_flow [where amt = amt])
      apply (auto split: if_splits)
  done

lemma safe_set_and_run:
  assumes "portfolio_inv s" "TargetAllocationShapeExt t"
    and "\<And>v u. portfolio_inv u \<Longrightarrow> pol.safe Owner (k (Some (committed_target t v))) u"
  shows "pol.safe Owner (bindp (bindp (setTargetAllocation t) (\<lambda>v. ret (Some (committed_target t v)))) k) s"
proof (rule pol.safe_bindp)
  show "pol.safe Owner (bindp (setTargetAllocation t) (\<lambda>v. ret (Some (committed_target t v)))) s"
    by (intro pol.safe_bindp safe_setTarget assms(1,2) pol.safe_ret)
  fix opn u
  assume r: "bindp (setTargetAllocation t) (\<lambda>v. ret (Some (committed_target t v))) s = (Inr opn, u)" and u: "portfolio_inv u"
  from r have "\<exists>v. opn = Some (committed_target t v)" by (elim bindp_InrE) auto
  then show "pol.safe Owner (k opn) u" using assms(3) u by blast
qed

lemma safe_evmRebalance:
  assumes "portfolio_inv s" "\<And>als. allocations = Some als \<Longrightarrow> list_all (\<lambda>(_, portion). 0 \<le> portion) als"
  shows "pol.safe Owner (evmRebalance allocations permit) s"
proof -
  have run: "pol.safe Owner (runFlow ((plain_detail FlowRebalance)\<lparr>initiatingOperation := opn\<rparr>) None) u"
    if "portfolio_inv u" "opn = None \<or> (\<exists>t v. opn = Some (committed_target t v) \<and> TargetAllocationShapeExt t)" for opn u
    using that by (intro safe_runFlow owner_rebalance_flow) auto
  show ?thesis
  proof (cases allocations)
    case None
    show ?thesis
      unfolding evmRebalance_def None option.case
      by (intro safe_requireEvmOwner pol.safe_requirep_thenp pol.safe_bindp pol.safe_getsp_bindp pol.safe_ret run assms(1))
        (auto split: if_splits)
  next
    case (Some als)
    have tgt: "TargetAllocationShapeExt (to_map (map (\<lambda>(i, portion). (i, Some portion)) als))"
      by (rule target_of_allocations) (rule assms(2) [OF Some])
    let ?t = "to_map (map (\<lambda>(i, portion). (i, Some portion)) als)"
    let ?run = "\<lambda>opn. runFlow ((plain_detail FlowRebalance)\<lparr>initiatingOperation := opn\<rparr>) None"
    have "pol.safe Owner (thenp (requirep (length als > 0) EmptyAllocations)
        (bindp (bindp (setTargetAllocation ?t) (\<lambda>v. ret (Some (committed_target ?t v)))) ?run)) s"
      by (intro pol.safe_requirep_thenp safe_set_and_run assms(1) tgt) (use run tgt in blast)
    then have "pol.safe Owner (bindp (thenp (requirep (length als > 0) EmptyAllocations)
        (bindp (setTargetAllocation ?t) (\<lambda>v. ret (Some (committed_target ?t v))))) ?run) s"
      by (simp add: pol.safe_def split: if_splits)
    then show ?thesis
      unfolding evmRebalance_def Some option.case Let_def
      by (intro safe_requireEvmOwner pol.safe_requirep_thenp assms(1))
  qed
qed

lemma safe_evmGrant: "portfolio_inv s \<Longrightarrow> pol.safe a (evmGrant who perms) s"
  unfolding evmGrant_def by (intro safe_requireEvmOwner pol.safe_requirep_thenp pol.safe_ret)

lemma assertExternal_run:
  "snd (assertExternalDelegationTarget n s) = s"
  "fst (assertExternalDelegationTarget n s) = Inr u \<Longrightarrow> \<exists>j. map_of (agents s) n = Some j \<and> agent_state j = Active"
  by (auto simp: assertExternalDelegationTarget_def store_get_def split: option.splits sum.splits if_splits)

lemma safe_evmChangePermissions: "portfolio_inv s \<Longrightarrow> pol.safe Owner (evmChangePermissions n perms) s"
  unfolding evmChangePermissions_def
  by (rule safe_requireEvmOwner, assumption, rule pol.safe_requirep_thenp, assumption, rule pol.safe_same_thenp, assumption,
    rule assertExternal_run, intro pol.safe_bindp pol.safe_thenp safe_changePermissions safe_frames pol.safe_ret)

lemma safe_evmRevoke: "portfolio_inv s \<Longrightarrow> pol.safe Owner (evmRevoke n) s"
  unfolding evmRevoke_def
  by (rule safe_requireEvmOwner, assumption, rule pol.safe_same_thenp, assumption, rule assertExternal_run,
    drule assertExternal_run(2), intro pol.safe_bindp pol.safe_thenp safe_frames pol.safe_ret)
   (auto intro: safe_revokeDelegation)

lemma safe_evmSetAutoFeatures: "portfolio_inv s \<Longrightarrow> pol.safe Owner (evmSetAutoFeatures f) s"
  unfolding evmSetAutoFeatures_def by (intro safe_requireEvmOwner safe_setAutoFeatures)

lemma safe_handleRebalance: "portfolio_inv s \<Longrightarrow> pol.safe a (handleRebalance args) s"
  unfolding handleRebalance_def
  by (intro safe_insistAgoricOwned pol.safe_requirep_thenp safe_startFlow owner_rebalance_flow) simp_all

lemma safe_handleDeposit: "portfolio_inv s \<Longrightarrow> 0 \<le> amt \<Longrightarrow> pol.safe a (handleDeposit amt st) s"
  unfolding handleDeposit_def
  by (intro safe_insistAgoricOwned safe_runFlow owner_amount_flow [where amt = amt]) simp_all

lemma safe_handleWithdraw: "portfolio_inv s \<Longrightarrow> 0 \<le> amt \<Longrightarrow> pol.safe a (handleWithdraw amt) s"
  unfolding handleWithdraw_def
  by (intro safe_insistAgoricOwned safe_runFlow owner_amount_flow [where amt = amt]) simp_all

lemma safe_handleSimpleRebalance:
  assumes "portfolio_inv s"
  shows "pol.safe Owner (handleSimpleRebalance args) s"
  unfolding handleSimpleRebalance_def
proof (intro safe_insistAgoricOwned pol.safe_requirep_thenp assms)
  assume sh: "rebalanceShape args"
  have run: "pol.safe Owner (runFlow ((plain_detail FlowRebalance)\<lparr>initiatingOperation := opn\<rparr>) (offer_flow args)) u"
    if "portfolio_inv u" "opn = None \<or> (\<exists>t v. opn = Some (committed_target t v) \<and> TargetAllocationShapeExt t)" for opn u
    using that by (intro safe_runFlow owner_rebalance_flow) auto
  show "pol.safe Owner (bindp (case offer_target args of None \<Rightarrow> ret None
      | Some t \<Rightarrow> bindp (setTargetAllocation t) (\<lambda>v. ret (Some (committed_target t v))))
     (\<lambda>opn. runFlow ((plain_detail FlowRebalance)\<lparr>initiatingOperation := opn\<rparr>) (offer_flow args))) s"
  proof (cases "offer_target args")
    case None
    show ?thesis unfolding None option.case
      by (rule pol.safe_same_bindp [OF assms]) (use run [OF assms] in auto)
  next
    case (Some t)
    then have t: "TargetAllocationShapeExt t" using sh by (simp add: rebalanceShape_def all_some_def TargetAllocationShape_ext)
    show ?thesis unfolding Some option.case
      by (rule safe_set_and_run [OF assms t]) (use run t in blast)
  qed
qed

lemma safe_legacyRebalance:
  assumes "portfolio_inv s" "rebalanceShape args"
  shows "pol.safe Owner (legacyRebalance args f) s"
  unfolding legacyRebalance_def using assms(2)
  by (intro pol.safe_thenp pol.safe_case_option pol.safe_bindp safe_setTarget pol.safe_ret pol.safe_whenp safe_incr
      safe_finishFlow safe_frames assms(1)) (simp_all add: rebalanceShape_def all_some_def TargetAllocationShape_ext)

end
