(* ===== verification/PortfolioMachine.thy ===== *)
theory PortfolioMachine
  imports CallerMethods
begin

text \<open>
  A portfolio as a state machine: every call that reaches one of its facets, every resumption
  of an asynchronous method in any order, the watchers of its account vows and the ends of its
  flows. The policy of a portfolio is refined by it: whatever happens, each step is one of the
  policy machine allowed to who takes it.
\<close>

section \<open>Events\<close>

text \<open>The calls that run to their end at once.\<close>

datatype portfolio_call =
    EvmDeposit permit_details
  | EvmRebalance "(string \<times> int) list option" "permit_details option"
  | EvmWithdraw int string "string option" "string option"
  | EvmChangePermissions nat permissions
  | EvmRevoke nat
  | HandleDeposit int "movement list option"
  | HandleSimpleRebalance offer_args
  | HandleWithdraw int
  | CompleteTransfer string string int
  | WakeTransfer int
  | ClientRebalance delegation_client flow_params
  | ClientClaimRewards delegation_client flow_params
  | ResolvePlan nat plan_or_steps nat nat "observations option"
  | RejectPlan nat string nat nat
  | PlannerRebalance flow_params plan_or_steps
  | PlannerClaimRewards flow_params plan_or_steps
  | ReserveAccount string
  | InitAccountInfo account_info
  | ResolveAccount account_info
  | ReleaseAccount string string
  | InitNobleAccount account_info
  | ProvidePosition string string string
  | RecordTransferIn string int
  | RecordTransferOut string int

definition unitp :: "('s, 'a) proc \<Rightarrow> ('s, unit) proc" where
  "unitp m = bindp m (\<lambda>_. ret ())"

fun run_call :: "portfolio_ports \<Rightarrow> portfolio_call \<Rightarrow> unit portfolio_method" where
  "run_call pw (EvmDeposit permit) = unitp (evmDeposit pw permit)"
| "run_call pw (EvmRebalance als permit) = unitp (evmRebalance als permit)"
| "run_call pw (EvmWithdraw amt token dmn addr) = unitp (evmWithdraw pw amt token dmn addr)"
| "run_call pw (EvmChangePermissions n perms) = unitp (evmChangePermissions n perms)"
| "run_call pw (EvmRevoke n) = unitp (evmRevoke n)"
| "run_call pw (HandleDeposit amt st) = unitp (handleDeposit amt st)"
| "run_call pw (HandleSimpleRebalance args) = unitp (handleSimpleRebalance args)"
| "run_call pw (HandleWithdraw amt) = unitp (handleWithdraw amt)"
| "run_call pw (CompleteTransfer signer chain now) = completeTransfer signer chain now"
| "run_call pw (WakeTransfer now) = wakeTransfer now"
| "run_call pw (ClientRebalance client params) = unitp (clientRebalance (errorMessage pw) client params)"
| "run_call pw (ClientClaimRewards client params) = unitp (clientClaimRewards client params)"
| "run_call pw (ResolvePlan f plan v c obs) = resolvePlan (errorMessage pw) f plan v c obs"
| "run_call pw (RejectPlan f reason v c) = rejectPlan f reason v c"
| "run_call pw (PlannerRebalance params plan) = unitp (plannerRebalance (errorMessage pw) params plan)"
| "run_call pw (PlannerClaimRewards params plan) = unitp (plannerClaimRewards (errorMessage pw) params plan)"
| "run_call pw (ReserveAccount chain) = unitp (reserveAccountState chain)"
| "run_call pw (InitAccountInfo info) = initAccountInfo info"
| "run_call pw (ResolveAccount info) = resolveAccount info"
| "run_call pw (ReleaseAccount chain reason) = releaseAccount chain reason"
| "run_call pw (InitNobleAccount info) = initNobleAccountUnderProvision info"
| "run_call pw (ProvidePosition k prot acct) = unitp (providePosition k prot acct)"
| "run_call pw (RecordTransferIn k amt) = unitp (recordTransferIn k amt)"
| "run_call pw (RecordTransferOut k amt) = unitp (recordTransferOut k amt)"

text \<open>Who makes a call: the owner, a delegate (an agent or the planner), or the contract itself.\<close>

fun caller_of :: "portfolio_call \<Rightarrow> actor" where
  "caller_of (EvmDeposit _) = Owner"
| "caller_of (EvmRebalance _ _) = Owner"
| "caller_of (EvmWithdraw _ _ _ _) = Owner"
| "caller_of (EvmChangePermissions _ _) = Owner"
| "caller_of (EvmRevoke _) = Owner"
| "caller_of (HandleDeposit _ _) = Owner"
| "caller_of (HandleSimpleRebalance _) = Owner"
| "caller_of (HandleWithdraw _) = Owner"
| "caller_of (CompleteTransfer _ _ _) = Owner"
| "caller_of (ClientRebalance _ _) = Delegate"
| "caller_of (ClientClaimRewards _ _) = Delegate"
| "caller_of (ResolvePlan _ _ _ _ _) = Delegate"
| "caller_of (RejectPlan _ _ _ _) = Delegate"
| "caller_of (PlannerRebalance _ _) = Delegate"
| "caller_of (PlannerClaimRewards _ _) = Delegate"
| "caller_of _ = Platform"

text \<open>Amounts of seats and numbers of a signed message are not negative.\<close>

fun call_ok :: "portfolio_call \<Rightarrow> bool" where
  "call_ok (EvmRebalance (Some als) _) = list_all (\<lambda>(_, portion). 0 \<le> portion) als"
| "call_ok (HandleDeposit amt _) = (0 \<le> amt)"
| "call_ok (HandleWithdraw amt) = (0 \<le> amt)"
| "call_ok _ = True"

text \<open>What waits to be resumed, beside the portfolio.\<close>

datatype 'g pending_turn =
    OwnerTurn awaiting
  | VerifyTurn delegation_client set_target_params "'g option"
  | LegacyTurn offer_args nat
  | TransferTurn string int
  | OpenTurn "int option" "string option" initiating_operation

record 'g portfolio_run =
  portfolio :: portfolio_state
  turns :: "'g pending_turn list"

definition call :: "'a portfolio_method \<Rightarrow> 'g portfolio_run \<Rightarrow> 'g portfolio_run" where
  "call m r = r\<lparr>portfolio := snd (m (portfolio r))\<rparr>"

text \<open>A method that ends by waiting leaves the turn it waits for.\<close>

definition spawn :: "('a \<Rightarrow> 'g pending_turn list) \<Rightarrow> 'a portfolio_method \<Rightarrow> 'g portfolio_run \<Rightarrow> 'g portfolio_run" where
  "spawn w m r = (case m (portfolio r) of
      (Inl e, s) \<Rightarrow> r\<lparr>portfolio := s\<rparr>
    | (Inr x, s) \<Rightarrow> r\<lparr>portfolio := s, turns := turns r @ w x\<rparr>)"

definition committed_open :: "target_allocation \<Rightarrow> nat \<Rightarrow> initiating_operation" where
  "committed_open t v = \<lparr>op_type = OpenPortfolio, op_target = t, op_status = OpOk v\<rparr>"

text \<open>
  A turn is resumed with the time, and with the outcome of a delivery; the planner's client is
  delivered without any message.
\<close>

fun run_turn :: "portfolio_ports \<Rightarrow> 'g attestation \<Rightarrow> int \<Rightarrow> error + unit \<Rightarrow> 'g pending_turn
    \<Rightarrow> 'g portfolio_run \<Rightarrow> 'g portfolio_run" where
  "run_turn pw att now outcome (OwnerTurn (GrantBegin who perms)) r =
     spawn (\<lambda>a. [OwnerTurn a]) (grantDelegation EvmGrant who perms) r"
| "run_turn pw att now outcome (OwnerTurn (GrantDeliver caller n client who perms v)) r =
     spawn (\<lambda>a. [OwnerTurn a]) (deliverDelegation caller n client who perms v) r"
| "run_turn pw att now outcome (OwnerTurn (GrantDelivering caller n client who perms v)) r =
     (case grantDelivered n who perms v (if who = PortfolioPlannerAgent then Inr () else outcome) (portfolio r) of
        (res, s) \<Rightarrow> r\<lparr>portfolio := s, turns := turns r @ [OwnerTurn (GrantReturned caller res)]\<rparr>)"
| "run_turn pw att now outcome (OwnerTurn (GrantReturned caller res)) r = call (grantReturned caller res) r"
| "run_turn pw att now outcome (OwnerTurn (FeaturesMerged merged perms planner upd)) r =
     spawn (\<lambda>a. case a of None \<Rightarrow> [] | Some a \<Rightarrow> [OwnerTurn a]) (setAutoFeaturesMerged merged perms planner upd) r"
| "run_turn pw att now outcome (VerifyTurn client params sg) r =
     call (clientSetTargetVerified (errorMessage pw) client params
       (case sg of None \<Rightarrow> Inr None | Some g \<Rightarrow> map_sum id Some (verifyPortfolioObservations att now g))) r"
| "run_turn pw att now outcome (LegacyTurn args f) r = call (legacyRebalance args f) r"
| "run_turn pw att now outcome (TransferTurn addr dl) r = call (initiateTransfer addr dl now) r"
| "run_turn pw att now outcome (OpenTurn amt chain opn) r =
     call (runFlow ((plain_detail FlowDeposit)\<lparr>detail_amount := amt, detail_fromChain := chain,
       initiatingOperation := Some opn\<rparr>) None) r"

fun turn_of :: "'g pending_turn \<Rightarrow> actor" where
  "turn_of (OwnerTurn (GrantDeliver _ _ _ _ _ _)) = Platform"
| "turn_of (OwnerTurn (GrantDelivering _ _ _ _ _ _)) = Platform"
| "turn_of (VerifyTurn _ _ _) = Delegate"
| "turn_of _ = Owner"

inductive portfolio_step :: "portfolio_ports \<Rightarrow> 'g attestation \<Rightarrow> actor \<Rightarrow> 'g portfolio_run \<Rightarrow> 'g portfolio_run \<Rightarrow> bool"
  for pw att where
  call_step: "call_ok c \<Longrightarrow> portfolio_step pw att (caller_of c) r (call (run_call pw c) r)"
| grant_step: "portfolio_step pw att Owner r (spawn (\<lambda>a. [OwnerTurn a]) (evmGrant who perms) r)"
| features_step: "portfolio_step pw att Owner r (spawn (\<lambda>a. [OwnerTurn a]) (evmSetAutoFeatures f) r)"
| set_target_step: "portfolio_step pw att Delegate r
    (spawn (\<lambda>_. [VerifyTurn client params sg]) (clientSetTarget client params sg) r)"
| legacy_step: "portfolio_step pw att Owner r (spawn (\<lambda>f. [LegacyTurn args f]) (handleRebalance args) r)"
| transfer_step: "portfolio_step pw att Owner r (spawn (\<lambda>_. [TransferTurn addr dl]) (handleTransferOwnership addr dl) r)"
| open_step: "TargetAllocationShapeExt t \<Longrightarrow> amt \<noteq> None \<Longrightarrow> all_some AnyNatAmountShape amt \<Longrightarrow>
    portfolio_step pw att Owner r (spawn (\<lambda>v. [OpenTurn amt chain (committed_open t v)]) (setTargetAllocation t) r)"
| turn_step: "t \<in> set (turns r) \<Longrightarrow>
    portfolio_step pw att (turn_of t) r (run_turn pw att now outcome t (r\<lparr>turns := remove1 t (turns r)\<rparr>))"
| watcher_step: "(v, chain) \<in> set (watchers (portfolio r)) \<Longrightarrow> (v, res) \<in> set (accountVows (portfolio r)) \<Longrightarrow>
    portfolio_step pw att Platform r
      (call (thenp (modifyp (\<lambda>s. s\<lparr>watchers := remove1 (v, chain) (watchers s)\<rparr>)) (accountWatcher res chain)) r)"
| finish_step: "f \<in> set (executing (portfolio r)) \<Longrightarrow> map_of (flowsRunning (portfolio r)) f = Some d \<Longrightarrow>
    sync d \<noteq> AwaitingSteps \<Longrightarrow> portfolio_step pw att Platform r (call (executePlanDone f) r)"

inductive_cases portfolio_stepE: "portfolio_step pw att a r r'"

definition new_portfolio :: "'g portfolio_run \<Rightarrow> bool" where
  "new_portfolio r \<longleftrightarrow> (\<exists>pid owner. r = \<lparr>portfolio = makePortfolio pid owner, turns = []\<rparr>)"

definition any_step :: "portfolio_ports \<Rightarrow> 'g attestation \<Rightarrow> 'g portfolio_run \<Rightarrow> 'g portfolio_run \<Rightarrow> bool" where
  "any_step pw att r r' \<longleftrightarrow> (\<exists>a. portfolio_step pw att a r r')"

section \<open>The invariant\<close>

text \<open>What a waiting turn relies on: the agent it was granted is on record under its grantee.\<close>

fun turn_ok :: "portfolio_state \<Rightarrow> 'g pending_turn \<Rightarrow> bool" where
  "turn_ok s (OwnerTurn (GrantBegin who perms)) = may_allocate perms"
| "turn_ok s (OwnerTurn (GrantDeliver caller n client who perms v)) =
     ((\<exists>i. map_of (agents s) n = Some i \<and> grantee i = who) \<and> v \<le> policyVersion s \<and>
      (caller = EvmGrant \<and> may_allocate perms \<or> who = PortfolioPlannerAgent))"
| "turn_ok s (OwnerTurn (GrantDelivering caller n client who perms v)) =
     ((\<exists>i. map_of (agents s) n = Some i \<and> grantee i = who) \<and> v \<le> policyVersion s \<and>
      (caller = EvmGrant \<and> may_allocate perms \<or> who = PortfolioPlannerAgent))"
| "turn_ok s (OwnerTurn (GrantReturned caller res)) =
     (\<forall>n v m. res = Inr (n, v) \<and> caller = AutoFeatures m \<longrightarrow>
        (\<exists>i. map_of (agents s) n = Some i \<and> grantee i = PortfolioPlannerAgent))"
| "turn_ok s (OwnerTurn (FeaturesMerged merged perms planner upd)) = True"
| "turn_ok s (VerifyTurn client params sg) = TargetAllocationShapeExt (sp_target params)"
| "turn_ok s (LegacyTurn args f) = rebalanceShape args"
| "turn_ok s (TransferTurn addr dl) = True"
| "turn_ok s (OpenTurn amt chain opn) = (amt \<noteq> None \<and> all_some AnyNatAmountShape amt \<and>
     (\<exists>t v. opn = committed_open t v \<and> TargetAllocationShapeExt t))"

definition portfolio_run_inv :: "'g portfolio_run \<Rightarrow> bool" where
  "portfolio_run_inv r \<longleftrightarrow> portfolio_inv (portfolio r) \<and> list_all (turn_ok (portfolio r)) (turns r)"

text \<open>A turn stays good along policy steps, since agents keep their grantee.\<close>

lemma agents_kept_grantee:
  assumes "agents_kept (policy_of s) (policy_of t)" "map_of (agents s) n = Some i"
  shows "\<exists>j. map_of (agents t) n = Some j \<and> grantee j = grantee i \<and> (agent_state j = Active \<longrightarrow> agent_state i = Active)"
proof -
  have "pol_agents (policy_of s) n = Some (grantee i, agent_permissions i, agent_state i = Active)"
    using assms(2) by (simp add: policy_of_def agent_view_def)
  then obtain perms b where "pol_agents (policy_of t) n = Some (grantee i, perms, b)" "b \<longrightarrow> agent_state i = Active"
    using assms(1) unfolding agents_kept_def by blast
  then show ?thesis by (auto simp: policy_of_def agent_view_def)
qed

lemma turn_ok_later:
  assumes "turn_ok s w" "policy_steps a (policy_of s) (policy_of t)"
  shows "turn_ok t w"
proof -
  have k: "agents_kept (policy_of s) (policy_of t)" and v: "policyVersion s \<le> policyVersion t"
    using policy_steps_monotone [OF assms(2)] by (auto simp: sync_le_def policy_of_def)
  have g: "\<exists>j. map_of (agents t) n = Some j \<and> grantee j = g" if "\<exists>i. map_of (agents s) n = Some i \<and> grantee i = g" for n g
    using that agents_kept_grantee [OF k] by metis
  show ?thesis
    using assms(1) g v by (cases "(s, w)" rule: turn_ok.cases) auto
qed

lemma turns_ok_later:
  "list_all (turn_ok s) ws \<Longrightarrow> policy_steps a (policy_of s) (policy_of t) \<Longrightarrow> list_all (turn_ok t) ws"
  by (auto simp: list_all_iff intro: turn_ok_later)

definition refines :: "actor \<Rightarrow> 'g portfolio_run \<Rightarrow> 'g portfolio_run \<Rightarrow> bool" where
  "refines a r r' \<longleftrightarrow> portfolio_run_inv r' \<and> policy_steps a (policy_of (portfolio r)) (policy_of (portfolio r'))"

lemma refines_call:
  assumes "portfolio_run_inv r" "pol.safe a m (portfolio r)"
  shows "refines a r (call m r)"
  using assms turns_ok_later by (auto simp: refines_def portfolio_run_inv_def call_def pol.safe_def)

lemma refines_spawn:
  assumes "portfolio_run_inv r" "pol.safe a m (portfolio r)"
    and "\<And>x t. m (portfolio r) = (Inr x, t) \<Longrightarrow> portfolio_inv t \<Longrightarrow> list_all (turn_ok t) (w x)"
  shows "refines a r (spawn w m r)"
proof (cases "m (portfolio r)")
  case (Pair res t)
  then have t: "portfolio_inv t" "policy_steps a (policy_of (portfolio r)) (policy_of t)"
    using pol.safeD [OF assms(2)] by auto
  have "list_all (turn_ok t) (turns r)" using assms(1) t(2) turns_ok_later by (auto simp: portfolio_run_inv_def)
  then show ?thesis using Pair t assms(3) by (cases res) (auto simp: refines_def portfolio_run_inv_def spawn_def)
qed

lemma refines_turn:
  assumes "refines a (r\<lparr>turns := remove1 t (turns r)\<rparr>) r'"
  shows "refines a r r'"
  using assms by (simp add: refines_def)

lemma portfolio_run_inv_remove: "portfolio_run_inv r \<Longrightarrow> portfolio_run_inv (r\<lparr>turns := remove1 t (turns r)\<rparr>)"
  by (auto simp: portfolio_run_inv_def list_all_iff dest: notin_set_remove1)

lemma safe_unitp: "pol.safe a m s \<Longrightarrow> pol.safe a (unitp m) s"
  unfolding unitp_def by (intro pol.safe_bindp pol.safe_ret)

lemma run_call_safe:
  assumes "portfolio_inv s" "call_ok c"
  shows "pol.safe (caller_of c) (run_call pw c) s"
proof (cases c)
  case (EvmRebalance als permit)
  then have "pol.safe Owner (evmRebalance als permit) s"
    using assms by (intro safe_evmRebalance) (auto split: option.splits)
  then show ?thesis using EvmRebalance by (simp add: safe_unitp)
qed (use assms in \<open>simp_all add: safe_unitp safe_evmDeposit safe_evmWithdraw safe_evmChangePermissions safe_evmRevoke
      safe_handleDeposit safe_handleSimpleRebalance safe_handleWithdraw safe_clientRebalance safe_clientClaimRewards
      safe_resolvePlan safe_rejectPlan safe_plannerRebalance safe_plannerClaimRewards
      safe_keeps frames_accounts frames_transfer\<close>)

lemma grantDelivered_Inr:
  assumes "grantDelivered n who perms v outcome s = (Inr x, t)"
  shows "x = (n, v)"
  using assms by (auto simp: grantDelivered_def split: sum.splits prod.splits)

lemma refines_run_turn:
  assumes "portfolio_run_inv r" "turn_ok (portfolio r) w"
  shows "refines (turn_of w) r (run_turn pw att now outcome w r)"
proof (cases w)
  case (OwnerTurn aw)
  have inv: "portfolio_inv (portfolio r)" using assms(1) by (simp add: portfolio_run_inv_def)
  show ?thesis
  proof (cases aw)
    case (GrantBegin who perms)
    have "refines Owner r (spawn (\<lambda>a. [OwnerTurn a]) (grantDelegation EvmGrant who perms) r)"
      using grant_run [OF inv, of EvmGrant who perms] assms(2) OwnerTurn GrantBegin
      by (intro refines_spawn [OF assms(1) safe_grant [OF inv]]) (auto simp: granted_info_def)
    then show ?thesis using OwnerTurn GrantBegin by simp
  next
    case (GrantDeliver caller n client who perms v)
    have "refines Platform r (spawn (\<lambda>a. [OwnerTurn a]) (deliverDelegation caller n client who perms v) r)"
      using assms(2) OwnerTurn GrantDeliver
      by (intro refines_spawn [OF assms(1) safe_deliverDelegation [OF inv]])
        (auto simp: deliverDelegation_def agents_def split: if_splits)
    then show ?thesis using OwnerTurn GrantDeliver by simp
  next
    case (GrantDelivering caller n client who perms v)
    let ?o = "if who = PortfolioPlannerAgent then Inr () else outcome"
    let ?m = "grantDelivered n who perms v ?o"
    obtain i where i: "map_of (agents (portfolio r)) n = Some i" "grantee i = who" "v \<le> policyVersion (portfolio r)"
      "caller = EvmGrant \<and> may_allocate perms \<or> who = PortfolioPlannerAgent"
      using assms(2) OwnerTurn GrantDelivering by auto
    have sf: "pol.safe Platform ?m (portfolio r)"
      using i by (intro safe_grantDelivered [OF inv i(1-3)]) (auto split: if_splits)
    obtain res t where t: "?m (portfolio r) = (res, t)" by fastforce
    have pt: "portfolio_inv t" "policy_steps Platform (policy_of (portfolio r)) (policy_of t)"
      using pol.safeD [OF sf t] by auto
    have j: "\<exists>j. map_of (agents t) n = Some j \<and> grantee j = who"
      using agents_kept_grantee [OF _ i(1)] policy_steps_monotone [OF pt(2)] i(2) by blast
    have "turn_ok t (OwnerTurn (GrantReturned caller res))"
      using j i(4) grantDelivered_Inr [of n who perms v ?o "portfolio r"] t by auto
    moreover have "list_all (turn_ok t) (turns r)"
      using assms(1) turns_ok_later [OF _ pt(2)] by (auto simp: portfolio_run_inv_def)
    ultimately have "refines Platform r (r\<lparr>portfolio := t, turns := turns r @ [OwnerTurn (GrantReturned caller res)]\<rparr>)"
      using pt by (simp add: refines_def portfolio_run_inv_def)
    then show ?thesis using OwnerTurn GrantDelivering t by simp
  next
    case (GrantReturned caller res)
    have "refines Owner r (call (grantReturned caller res) r)"
      using assms(2) OwnerTurn GrantReturned by (intro refines_call [OF assms(1)] safe_grantReturned [OF inv]) auto
    then show ?thesis using OwnerTurn GrantReturned by simp
  next
    case (FeaturesMerged merged perms planner upd)
    have "refines Owner r (spawn (\<lambda>a. case a of None \<Rightarrow> [] | Some a \<Rightarrow> [OwnerTurn a])
        (setAutoFeaturesMerged merged perms planner upd) r)"
    proof (rule refines_spawn [OF assms(1) safe_setAutoFeaturesMerged [OF inv]])
      fix x t
      assume x: "setAutoFeaturesMerged merged perms planner upd (portfolio r) = (Inr x, t)"
      show "list_all (turn_ok t) (case x of None \<Rightarrow> [] | Some a \<Rightarrow> [OwnerTurn a])"
      proof (cases "hasAnyPermission perms \<and> planner = None")
        case True
        with x grant_run [OF inv, of "AutoFeatures merged" PortfolioPlannerAgent perms] show ?thesis
          by (auto simp: setAutoFeaturesMerged_def granted_info_def)
      next
        case False
        with x have "x = None"
          unfolding setAutoFeaturesMerged_def if_not_P [OF False] by (elim thenp_InrE) simp
        then show ?thesis by simp
      qed
    qed
    then show ?thesis using OwnerTurn FeaturesMerged by simp
  qed
next
  case (VerifyTurn client params sg)
  then show ?thesis
    using assms by (auto simp: portfolio_run_inv_def intro!: refines_call safe_clientSetTargetVerified)
next
  case (LegacyTurn args f)
  then show ?thesis using assms by (auto simp: portfolio_run_inv_def intro!: refines_call safe_legacyRebalance)
next
  case (TransferTurn addr dl)
  then show ?thesis using assms by (auto simp: portfolio_run_inv_def intro!: refines_call safe_keeps frames_transfer)
next
  case (OpenTurn amt chain opn)
  then show ?thesis
    using assms
    by (auto simp: portfolio_run_inv_def flowDetailShape_def all_some_def initiatingOperationShape_def committed_open_def
        intro!: refines_call safe_runFlow owner_running_ok)
qed

lemma refines_step:
  assumes "portfolio_run_inv r" "portfolio_step pw att a r r'"
  shows "refines a r r'"
  using assms(2)
proof (cases rule: portfolio_step.cases)
  case (call_step c)
  then show ?thesis
    using assms(1) by (auto simp: portfolio_run_inv_def intro!: refines_call run_call_safe)
next
  case (grant_step who perms)
  have "refines Owner r (spawn (\<lambda>a. [OwnerTurn a]) (evmGrant who perms) r)"
  proof (rule refines_spawn [OF assms(1) safe_evmGrant])
    show "portfolio_inv (portfolio r)" using assms(1) by (simp add: portfolio_run_inv_def)
    fix x t
    assume "evmGrant who perms (portfolio r) = (Inr x, t)"
    then show "list_all (turn_ok t) [OwnerTurn x]"
      by (auto simp: evmGrant_def requireEvmOwner_def split: if_splits)
  qed
  then show ?thesis using grant_step by simp
next
  case (features_step f)
  have "refines Owner r (spawn (\<lambda>a. [OwnerTurn a]) (evmSetAutoFeatures f) r)"
  proof (rule refines_spawn [OF assms(1) safe_evmSetAutoFeatures])
    show "portfolio_inv (portfolio r)" using assms(1) by (simp add: portfolio_run_inv_def)
    fix x t
    assume "evmSetAutoFeatures f (portfolio r) = (Inr x, t)"
    then show "list_all (turn_ok t) [OwnerTurn x]"
      by (auto simp: evmSetAutoFeatures_def requireEvmOwner_def setAutoFeatures_def store_get_def
          split: if_splits option.splits)
  qed
  then show ?thesis using features_step by simp
next
  case (set_target_step client params sg)
  have "refines Delegate r (spawn (\<lambda>_. [VerifyTurn client params sg]) (clientSetTarget client params sg) r)"
  proof (rule refines_spawn [OF assms(1)])
    show "pol.safe Delegate (clientSetTarget client params sg) (portfolio r)"
      using assms(1) by (intro pol.safe_same clientSetTarget_run) (simp add: portfolio_run_inv_def)
    fix x t
    assume "clientSetTarget client params sg (portfolio r) = (Inr x, t)"
    then show "list_all (turn_ok t) [VerifyTurn client params sg]"
      using clientSetTarget_run(2) [of client params sg "portfolio r" x] by (simp add: TargetAllocationShape_ext)
  qed
  then show ?thesis using set_target_step by simp
next
  case (legacy_step args)
  have "refines Owner r (spawn (\<lambda>f. [LegacyTurn args f]) (handleRebalance args) r)"
  proof (rule refines_spawn [OF assms(1) safe_handleRebalance])
    show "portfolio_inv (portfolio r)" using assms(1) by (simp add: portfolio_run_inv_def)
    fix x t
    assume "handleRebalance args (portfolio r) = (Inr x, t)"
    then have "rebalanceShape args"
      unfolding handleRebalance_def by (elim thenp_InrE) (auto split: if_splits)
    then show "list_all (turn_ok t) [LegacyTurn args x]" by simp
  qed
  then show ?thesis using legacy_step by simp
next
  case (transfer_step addr dl)
  have "snd (handleTransferOwnership addr dl (portfolio r)) = portfolio r"
    by (simp add: handleTransferOwnership_def insistAgoricOwned_def)
  then show ?thesis
    using assms(1) unfolding transfer_step by (intro refines_spawn pol.safe_same) (auto simp: portfolio_run_inv_def)
next
  case (open_step t amt chain)
  then show ?thesis
    using assms(1) by (fastforce simp: portfolio_run_inv_def intro!: refines_spawn safe_setTarget)
next
  case (turn_step t now outcome)
  have "refines (turn_of t) (r\<lparr>turns := remove1 t (turns r)\<rparr>)
      (run_turn pw att now outcome t (r\<lparr>turns := remove1 t (turns r)\<rparr>))"
    using assms(1) turn_step by (intro refines_run_turn portfolio_run_inv_remove) (auto simp: portfolio_run_inv_def list_all_iff)
  then show ?thesis using turn_step refines_turn by blast
next
  case (watcher_step v chain res)
  have "keeps (\<lambda>t. core t = core (portfolio r))
      (thenp (modifyp (\<lambda>s. s\<lparr>watchers := remove1 (v, chain) (watchers s)\<rparr>)) (accountWatcher res chain))"
    by (intro keeps_thenp keeps_modifyp frames_accounts) simp
  then have "refines Platform r (call (thenp (modifyp (\<lambda>s. s\<lparr>watchers := remove1 (v, chain) (watchers s)\<rparr>))
      (accountWatcher res chain)) r)"
    using assms(1) by (intro refines_call safe_keeps) (auto simp: portfolio_run_inv_def)
  then show ?thesis using watcher_step by simp
next
  case (finish_step f d)
  then show ?thesis using assms(1) by (auto simp: portfolio_run_inv_def intro!: refines_call safe_executePlanDone)
qed

end
