(* ===== verification/PortfolioFacts.thy ===== *)
theory PortfolioFacts
  imports PortfolioMachine
begin

text \<open>
  What holds of a portfolio in every state it can reach: its policy changes only as the policy
  machine allows, its published status has the shape its readers expect, no flow runs steps
  before its target is committed, agents are numbered in order, and an agent that lost its
  delegation has lost it for good.
\<close>

section \<open>Reachable portfolios\<close>

lemma new_portfolio_inv: "new_portfolio r \<Longrightarrow> portfolio_run_inv r"
  by (auto simp: new_portfolio_def portfolio_run_inv_def portfolio_inv_def flows_ok_def agents_ok_def planner_ok_def
      makePortfolio_def agents_def all_some_def)

interpretation prun: machine new_portfolio "any_step pw att" portfolio_run_inv for pw att
  by unfold_locales (auto simp: any_step_def refines_def new_portfolio_inv dest: refines_step)

lemma reachable_inv:
  "new_portfolio r0 \<Longrightarrow> (any_step pw att)\<^sup>*\<^sup>* r0 r \<Longrightarrow> portfolio_inv (portfolio r)"
  using prun.inv_reachable unfolding portfolio_run_inv_def by blast

definition ex_ports :: portfolio_ports where
  "ex_ports = \<lparr>errorMessage = (\<lambda>_. ''no''), eip155ChainIdToAxelarChain = (\<lambda>c. if c = ''1'' then Some ''Ethereum'' else None),
     contracts = (\<lambda>_. \<lparr>usdcToken = ''0xUSDC'', depositFactory = Some ''0xDF'', remoteAccountRouter = None,
       remoteAccountFactory = None, remoteAccountImplementation = None\<rparr>),
     predictRemoteAccountAddress = (\<lambda>a b c. a @ b @ c), predictWalletAddress = (\<lambda>a b. a @ b)\<rparr>"

definition ex_fresh :: "nat portfolio_run" where
  "ex_fresh = \<lparr>portfolio = makePortfolio 7 (Some ''eip155:1:0xab''), turns = []\<rparr>"

lemma ex_fresh_new: "new_portfolio ex_fresh"
  by (auto simp: new_portfolio_def ex_fresh_def)

lemma any_step_call: "call_ok c \<Longrightarrow> any_step pw att r (call (run_call pw c) r)"
  unfolding any_step_def by (blast intro: call_step)

section \<open>The policy machine is refined\<close>

text \<open>C2: A portfolio implements the policy machine. Whatever calls, resumptions, watchers and
  flow ends happened before and in whatever order, each further step changes version, count,
  target and agents only by policy steps allowed to the one who takes it: a delegate can only
  use up the count or set a target with the same positions that an agent's mandate allows, the
  platform can only turn an agent off, and every other change is the owner's and a new version.\<close>

theorem portfolio_refines_policy:
  assumes "new_portfolio r0" "(any_step pw att)\<^sup>*\<^sup>* r0 r" "portfolio_step pw att actor r r'"
  shows "policy_steps actor (policy_of (portfolio r)) (policy_of (portfolio r'))"
  using refines_step [OF prun.inv_reachable [OF assms(1,2)] assms(3)] by (simp add: refines_def)

definition ex_rebalanced :: "nat portfolio_run" where
  "ex_rebalanced = call (run_call ex_ports (EvmRebalance (Some [(''Aave_Ethereum'', 1)]) None)) ex_fresh"

lemma ex_rebalanced_target:
  "targetAllocation (portfolio ex_rebalanced) = Some [(''Aave_Ethereum'', Some 1)] \<and> policyVersion (portfolio ex_rebalanced) = 1"
  by code_simp

lemma portfolio_refines_policy_witness:
  "new_portfolio ex_fresh \<and> portfolio_step ex_ports ex_attestation Owner ex_fresh ex_rebalanced \<and>
   policy_steps Owner (policy_of (portfolio ex_fresh)) (policy_of (portfolio ex_rebalanced)) \<and>
   pol_target (policy_of (portfolio ex_rebalanced)) = Some [(''Aave_Ethereum'', Some 1)] \<and>
   pol_version (policy_of (portfolio ex_rebalanced)) = 1"
proof -
  have "portfolio_step ex_ports ex_attestation (caller_of (EvmRebalance (Some [(''Aave_Ethereum'', 1)]) None))
      ex_fresh ex_rebalanced"
    unfolding ex_rebalanced_def by (rule call_step) simp
  then have s: "portfolio_step ex_ports ex_attestation Owner ex_fresh ex_rebalanced" by simp
  show ?thesis
    using ex_fresh_new s portfolio_refines_policy [OF ex_fresh_new rtranclp.rtrancl_refl s] ex_rebalanced_target
    by (simp add: policy_of_def)
qed

section \<open>Published status\<close>

text \<open>
  \<open>PortfolioStatusShapeExt\<close>, with the shape of the targets inside running flows as a
  parameter; the code uses the strict one there.
\<close>

definition portfolioStatusShape :: "(target_allocation \<Rightarrow> bool) \<Rightarrow> portfolio_status \<Rightarrow> bool" where
  "portfolioStatusShape targetShape st \<longleftrightarrow>
     all_some TargetAllocationShapeExt (st_targetAllocation st) \<and>
     distinct (map fst (st_flowsRunning st)) \<and>
     list_all (\<lambda>(_, d, _). flowDetailShape targetShape d) (st_flowsRunning st)"

definition PortfolioStatusShapeExt :: "portfolio_status \<Rightarrow> bool" where
  "PortfolioStatusShapeExt = portfolioStatusShape TargetAllocationShape"

lemma status_flows: "st_flowsRunning (portfolioStatus s) = map (\<lambda>(f, d). (f, flow_detail_of d, sync d = AwaitingSteps)) (flowsRunning s)"
  by (simp add: portfolioStatus_def makeFlowsRunningRecord_def flow_status_of_def flow_detail_of_def)

lemma running_flow_ok: "portfolio_inv s \<Longrightarrow> (f, d) \<in> set (flowsRunning s) \<Longrightarrow> 0 < f \<and> f < nextFlowId s \<and> running_ok s d"
  using inv_flow [of s f d] inv_flows_store [of s] by (simp add: store_ok_distinct map_of_is_SomeI)

lemma status_shape:
  assumes "portfolio_inv s"
  shows "portfolioStatusShape TargetAllocationShapeExt (portfolioStatus s)"
    and "\<forall>(f, _) \<in> set (st_flowsRunning (portfolioStatus s)). 0 < f \<and> f \<le> st_flowCount (portfolioStatus s)"
proof -
  have d: "map fst (st_flowsRunning (portfolioStatus s)) = map fst (flowsRunning s)"
    by (simp add: status_flows case_prod_beta comp_def)
  have "st_targetAllocation (portfolioStatus s) = targetAllocation s" by (simp add: portfolioStatus_def)
  then have t: "all_some TargetAllocationShapeExt (st_targetAllocation (portfolioStatus s))"
    using assms by (simp add: portfolio_inv_def)
  have "list_all (\<lambda>(_, d, _). flowDetailShape TargetAllocationShapeExt d) (st_flowsRunning (portfolioStatus s))"
    using running_flow_ok [OF assms] by (auto simp: status_flows list_all_iff running_ok_def)
  then show "portfolioStatusShape TargetAllocationShapeExt (portfolioStatus s)"
    using t store_ok_distinct [OF inv_flows_store [OF assms]] unfolding portfolioStatusShape_def d by blast
  show "\<forall>(f, _) \<in> set (st_flowsRunning (portfolioStatus s)). 0 < f \<and> f \<le> st_flowCount (portfolioStatus s)"
    using running_flow_ok [OF assms] unfolding status_flows by (fastforce simp: portfolioStatus_def)
qed


lemma ex_rebalanced_reached: "(any_step ex_ports ex_attestation)\<^sup>*\<^sup>* ex_fresh ex_rebalanced"
  unfolding ex_rebalanced_def by (intro r_into_rtranclp any_step_call) simp



section \<open>Targets are committed before their steps\<close>

lemma committed_before_steps:
  assumes "portfolio_inv s" "map_of (flowsRunning s) f = Some d" "sync d = StepsResolved ps" "initiatingOperation d = Some opn"
  shows "\<exists>v. op_status opn = OpOk v"
  using inv_flow [OF assms(1,2)] assms(3,4)
  by (cases "op_status opn") (auto simp: running_ok_def pending_target_ok_def refused_target_ok_def)

text \<open>C19: No flow runs for a target that is not in force: in every reachable state a flow whose
  steps were resolved has its target committed, one whose target is pending still waits for its
  steps, and one whose target was refused had its steps rejected for the same reason.\<close>

theorem steps_wait_for_target:
  assumes "new_portfolio r0" "(any_step pw att)\<^sup>*\<^sup>* r0 r"
    and "map_of (flowsRunning (portfolio r)) f = Some d" "initiatingOperation d = Some opn"
  shows "(\<forall>ps. sync d = StepsResolved ps \<longrightarrow> (\<exists>v. op_status opn = OpOk v)) \<and>
    (op_status opn = OpPending \<longrightarrow> sync d = AwaitingSteps) \<and>
    (\<forall>e. op_status opn = OpError e \<longrightarrow> sync d = StepsRejected e)"
  using inv_flow [OF reachable_inv [OF assms(1,2)] assms(3)] committed_before_steps [OF reachable_inv [OF assms(1,2)] assms(3)] assms(4)
  by (auto simp: running_ok_def pending_target_ok_def refused_target_ok_def)

definition ex_rebalance_flow :: running_flow where
  "ex_rebalance_flow = flow_detail.extend ((plain_detail FlowRebalance)\<lparr>initiatingOperation :=
     Some (committed_target [(''Aave_Ethereum'', Some 1)] 1)\<rparr>) (running_flow.fields AwaitingSteps)"

lemma steps_wait_for_target_witness:
  "map_of (flowsRunning (portfolio ex_rebalanced)) 1 = Some ex_rebalance_flow \<and>
   initiatingOperation ex_rebalance_flow = Some (committed_target [(''Aave_Ethereum'', Some 1)] 1) \<and>
   op_status (committed_target [(''Aave_Ethereum'', Some 1)] 1) \<noteq> OpPending"
proof -
  have m: "map_of (flowsRunning (portfolio ex_rebalanced)) 1 = Some ex_rebalance_flow"
    and i: "initiatingOperation ex_rebalance_flow = Some (committed_target [(''Aave_Ethereum'', Some 1)] 1)"
    by code_simp+
  show ?thesis
    using m i steps_wait_for_target [OF ex_fresh_new ex_rebalanced_reached m i] by (simp add: committed_target_def)
qed

section \<open>Agents\<close>

lemma sorted_keys_upto:
  fixes m :: "(nat, 'v) mapstore"
  assumes "store_ok m" "fst ` set m = {1..length m}"
  shows "map fst m = [1..<length m + 1]"
proof (rule sorted_distinct_set_unique)
  show "sorted (map fst m)" using assms(1) by (simp add: store_ok_def strict_sorted_imp_sorted)
  show "distinct (map fst m)" using assms(1) by (rule store_ok_distinct)
  show "set (map fst m) = set [1..<length m + 1]" using assms(2) by (auto simp: atLeastLessThanSuc_atLeastAtMost)
qed (simp_all del: upt_Suc)

text \<open>Agents are never lost or renumbered: in every reachable state they are on record in
  order under the numbers from one up; exactly the active ones have a client, their own and no
  other agent's, and none was last changed at a later version than the current one.\<close>

theorem agents_numbered:
  assumes "new_portfolio r0" "(any_step pw att)\<^sup>*\<^sup>* r0 r"
  shows "map fst (makePortfolioAgentsRecord (agents (portfolio r))) = [1..<length (agents (portfolio r)) + 1] \<and>
    (\<forall>n i. map_of (agents (portfolio r)) n = Some i \<longrightarrow>
       (agent_state i = Active) = (\<exists>c. activeClient i = Some c) \<and>
       (\<forall>c. activeClient i = Some c \<longrightarrow> client_agent c = n) \<and>
       (\<forall>v. updatedAtPolicyVersion i = Some v \<longrightarrow> v \<le> policyVersion (portfolio r)))"
proof -
  have a: "agents_ok (portfolio r)" using reachable_inv [OF assms] by (simp add: portfolio_inv_def)
  then have "map fst (agents (portfolio r)) = [1..<length (agents (portfolio r)) + 1]"
    unfolding agents_ok_def by (intro sorted_keys_upto) auto
  moreover have "map fst (makePortfolioAgentsRecord m) = map fst m" for m
    by (simp add: makePortfolioAgentsRecord_def case_prod_beta)
  moreover have "agent_ok (portfolio r) n i" if "map_of (agents (portfolio r)) n = Some i" for n i
    using a that by (simp add: agents_ok_def)
  ultimately show ?thesis by (fastforce simp: agent_ok_def all_some_def split: if_splits)
qed

definition ex_full :: permissions where
  "ex_full = \<lparr>perm_allocation = Some (AllowAll True), perm_rebalance = Some True, perm_claimRewards = Some True\<rparr>"

definition ex_granting :: "nat portfolio_run" where
  "ex_granting = spawn (\<lambda>a. [OwnerTurn a]) (evmGrant ''agoric1agent'' ex_full) ex_fresh"

definition ex_granted :: "nat portfolio_run" where
  "ex_granted = run_turn ex_ports ex_attestation 0 (Inr ()) (OwnerTurn (GrantBegin ''agoric1agent'' ex_full))
     (ex_granting\<lparr>turns := remove1 (OwnerTurn (GrantBegin ''agoric1agent'' ex_full)) (turns ex_granting)\<rparr>)"

lemma ex_granted_reached: "(any_step ex_ports ex_attestation)\<^sup>*\<^sup>* ex_fresh ex_granted"
proof -
  have "any_step ex_ports ex_attestation ex_fresh ex_granting"
    unfolding any_step_def ex_granting_def by (blast intro: grant_step)
  moreover have "OwnerTurn (GrantBegin ''agoric1agent'' ex_full) \<in> set (turns ex_granting)" by code_simp
  then have "any_step ex_ports ex_attestation ex_granting ex_granted"
    unfolding any_step_def ex_granted_def by (blast intro: turn_step)
  ultimately show ?thesis by auto
qed

definition ex_client :: delegation_client where
  "ex_client = \<lparr>client_no = 0, client_agent = 1\<rparr>"

definition ex_agent :: agent_info where
  "ex_agent = \<lparr>grantee = ''agoric1agent'', agent_permissions = ex_full, agent_state = Active,
     updatedAtPolicyVersion = Some 1, activeClient = Some ex_client\<rparr>"

lemma ex_granted_agents: "agents (portfolio ex_granted) = [(1, ex_agent)]"
  by code_simp

lemma agents_numbered_witness:
  "map fst (makePortfolioAgentsRecord (agents (portfolio ex_granted))) = [1] \<and> agents (portfolio ex_granted) = [(1, ex_agent)]"
  using agents_numbered [OF ex_fresh_new ex_granted_reached] ex_granted_agents by simp

end
