(* ===== verification/SubmissionFacts.thy ===== *)
theory SubmissionFacts
  imports PortfolioFacts
begin

text \<open>
  What the clients of agents can do: exactly when a submission is accepted and what it starts,
  and that a client whose agent lost its delegation can do nothing any more.
\<close>

section \<open>Accepted submissions\<close>

text \<open>
  A client may submit under a permission when it is the client of an active agent that holds
  it, the submission is about the current version and count, and the latest flow has ended.
\<close>

definition may_submit :: "portfolio_state \<Rightarrow> delegation_client \<Rightarrow> permission \<Rightarrow> sync_state \<Rightarrow> bool" where
  "may_submit s c p sy \<longleftrightarrow>
     (\<exists>i. map_of (agents s) (client_agent c) = Some i \<and> activeClient i = Some c \<and> agent_state i = Active \<and>
        holds_permission (agent_permissions i) p) \<and>
     sync_policyVersion sy = policyVersion s \<and> sync_rebalanceCount sy = rebalanceCount s \<and>
     \<not> store_has (flowsRunning s) (nextFlowId s - 1)"

text \<open>A flow of the agent was started, and nothing but the flows changed.\<close>

definition flow_started :: "portfolio_state \<Rightarrow> nat \<Rightarrow> flow_type \<Rightarrow> portfolio_state \<Rightarrow> bool" where
  "flow_started s n ty t \<longleftrightarrow>
     (\<exists>d. map_of (flowsRunning t) (nextFlowId s) = Some d \<and> detail_type d = ty \<and> detail_agent d = Some n \<and>
        initiatingOperation d = None \<and> (\<forall>ps. sync d \<noteq> StepsResolved ps)) \<and>
     (\<forall>f. f \<noteq> nextFlowId s \<longrightarrow> map_of (flowsRunning t) f = map_of (flowsRunning s) f) \<and>
     nextFlowId t = nextFlowId s + 1 \<and> policy_of t = policy_of s"

lemma authorized_cases:
  obtains (authorized) i where "getAuthorizedDelegation c n req s = (Inr i, s)" "map_of (agents s) n = Some i"
      "activeClient i = Some c" "agent_state i = Active" "list_all (holds_permission (agent_permissions i)) req"
  | (refused) e where "getAuthorizedDelegation c n req s = (Inl e, s)"
      "\<not> (\<exists>i. map_of (agents s) n = Some i \<and> activeClient i = Some c \<and> agent_state i = Active \<and>
         list_all (holds_permission (agent_permissions i)) req)"
proof (cases "getAuthorizedDelegation c n req s")
  case (Pair r t)
  then have t: "t = s" using authorized_state [of c n req s] by simp
  show thesis
  proof (cases r)
    case (Inl e)
    then have "\<nexists>i. fst (getAuthorizedDelegation c n req s) = Inr i" using Pair by simp
    then have "\<not> (\<exists>i. map_of (agents s) n = Some i \<and> activeClient i = Some c \<and> agent_state i = Active \<and>
         list_all (holds_permission (agent_permissions i)) req)"
      unfolding authorized_Inr .
    then show thesis using refused [of e] Pair t Inl by simp
  next
    case (Inr i)
    then have "fst (getAuthorizedDelegation c n req s) = Inr i" using Pair by simp
    then show thesis using authorized [of i] Pair t Inr unfolding authorized_Inr by blast
  qed
qed

lemma started_core:
  assumes "core t = core (put_flowsRunning (put_entry (nextFlowId s) (started_flow d None) (flowsRunning s))
      (s\<lparr>nextFlowId := nextFlowId s + 1\<rparr>))"
    and "detail_type d = ty" "detail_agent d = Some n" "initiatingOperation d = None"
  shows "flow_started s n ty t"
proof -
  have p: "policy_of t = policy_of s"
    using policy_of_core [OF assms(1)] by (simp add: policy_of_next)
  have "flowsRunning t = put_entry (nextFlowId s) (started_flow d None) (flowsRunning s)" "nextFlowId t = nextFlowId s + 1"
    using assms(1) by (simp_all add: core_def put_flowsRunning_def)
  then show ?thesis using p assms(2-4) by (simp add: flow_started_def)
qed

lemma start_and_execute:
  assumes "portfolio_inv s"
  shows "\<exists>t. bindp (startFlow d None) (\<lambda>f. thenp (executePlan f) (k f)) s = k (nextFlowId s) t \<and>
    core t = core (put_flowsRunning (put_entry (nextFlowId s) (started_flow d None) (flowsRunning s))
      (s\<lparr>nextFlowId := nextFlowId s + 1\<rparr>))"
proof -
  obtain u where u: "startFlow d None s = (Inr (nextFlowId s), u)"
    "core u = core (put_flowsRunning (put_entry (nextFlowId s) (started_flow d None) (flowsRunning s))
      (s\<lparr>nextFlowId := nextFlowId s + 1\<rparr>))"
    using startFlow_run [OF next_flow_free [OF assms], of d None] by blast
  have "bindp (startFlow d None) (\<lambda>f. thenp (executePlan f) (k f)) s = k (nextFlowId s) (snd (executePlan (nextFlowId s) u))"
    using u(1) by (simp add: executePlan_def)
  moreover have "core (snd (executePlan (nextFlowId s) u)) = core u" by (simp add: executePlan_def)
  ultimately show ?thesis using u(2) by auto
qed

lemma claim_submission:
  assumes "portfolio_inv s"
  shows "(all_some PortfolioFlowAgentMemoShape (fp_memo p) \<and> may_submit s c ClaimRewardsPermission (fp_syncState p) \<longrightarrow>
      (\<exists>t. clientClaimRewards c p s = (Inr (nextFlowId s), t) \<and> flow_started s (client_agent c) FlowClaimRewards t)) \<and>
    (\<not> (all_some PortfolioFlowAgentMemoShape (fp_memo p) \<and> may_submit s c ClaimRewardsPermission (fp_syncState p)) \<longrightarrow>
      (\<exists>e. clientClaimRewards c p s = (Inl e, s)))"
proof (cases rule: authorized_cases [of c "client_agent c" "[ClaimRewardsPermission]" s])
  case (authorized i)
  let ?d = "(plain_detail FlowClaimRewards)\<lparr>detail_agent := Some (client_agent c), agentMemo := fp_memo p\<rparr>"
  obtain t where t: "bindp (startFlow ?d None) (\<lambda>f. thenp (executePlan f) (ret f)) s = (Inr (nextFlowId s), t)"
    "flow_started s (client_agent c) FlowClaimRewards t"
    using start_and_execute [OF assms, of ?d ret] started_core [of _ s ?d FlowClaimRewards "client_agent c"] by auto
  show ?thesis
    using authorized t
    by (auto simp del: bindp_apply simp: bindp_apply [of "getAuthorizedDelegation c n req" for n req]
        clientClaimRewards_def submitClaimRewards_def may_submit_def
        checkSyncState_def checkVersion_run insistLatestFlowFinished_def bindp_getsp_run)
next
  case (refused e)
  then show ?thesis
    by (auto simp: clientClaimRewards_def submitClaimRewards_def may_submit_def)
qed


lemma rejectFlowPlan_running:
  assumes "map_of (flowsRunning s) f = Some d" "sync d = AwaitingSteps"
  shows "\<exists>t. rejectFlowPlan f reason s = (Inr (), t) \<and>
    core t = core (put_flowsRunning (put_entry f (rejectedDetail d reason) (flowsRunning s)) s)"
  using assms by (simp add: rejectFlowPlan_def store_set_def store_has_def publishStatus_def)

lemma rejectedDetail_simps:
  "detail_type (rejectedDetail d reason) = detail_type d" "detail_agent (rejectedDetail d reason) = detail_agent d"
  "initiatingOperation d = None \<Longrightarrow> initiatingOperation (rejectedDetail d reason) = None"
  "sync (rejectedDetail d reason) = StepsRejected reason"
  by (simp_all add: rejectedDetail_def Let_def split: option.split)

lemma started_then_rejected:
  assumes "flow_started s n ty t" "map_of (flowsRunning t) (nextFlowId s) = Some d" "sync d = AwaitingSteps"
  shows "\<exists>u. rejectFlowPlan (nextFlowId s) reason t = (Inr (), u) \<and> flow_started s n ty u"
proof -
  obtain u where u: "rejectFlowPlan (nextFlowId s) reason t = (Inr (), u)"
    "core u = core (put_flowsRunning (put_entry (nextFlowId s) (rejectedDetail d reason) (flowsRunning t)) t)"
    using rejectFlowPlan_running [OF assms(2,3)] by blast
  have "flowsRunning u = put_entry (nextFlowId s) (rejectedDetail d reason) (flowsRunning t)" "nextFlowId u = nextFlowId t"
    using u(2) by (simp_all add: core_def put_flowsRunning_def)
  moreover have "policy_of u = policy_of t" using policy_of_core [OF u(2)] by simp
  ultimately show ?thesis
    using u(1) assms(1,2) by (auto simp: flow_started_def rejectedDetail_simps)
qed

lemma rebalance_rest:
  assumes "flow_started s n ty t" "map_of (flowsRunning t) (nextFlowId s) = Some d" "sync d = AwaitingSteps"
  shows "\<exists>u. thenp (case target of None \<Rightarrow> ret ()
      | Some x \<Rightarrow> catchp (liftp (assertMandateForAllocation perms x)) (\<lambda>reason. rejectFlowPlan (nextFlowId s) (msg reason)))
      (ret (nextFlowId s)) t = (Inr (nextFlowId s), u) \<and> flow_started s n ty u"
proof (cases target)
  case (Some x)
  show ?thesis
  proof (cases "assertMandateForAllocation perms x")
    case (Inl e)
    obtain u where "rejectFlowPlan (nextFlowId s) (msg e) t = (Inr (), u)" "flow_started s n ty u"
      using started_then_rejected [OF assms] by blast
    then show ?thesis using Some Inl by simp
  next
    case (Inr x)
    then show ?thesis using Some assms(1) by simp
  qed
qed (use assms(1) in simp)

text \<open>The target a limited agent's rebalance is checked against.\<close>

definition rebalance_target_known :: "portfolio_state \<Rightarrow> delegation_client \<Rightarrow> bool" where
  "rebalance_target_known s c \<longleftrightarrow>
     (\<forall>i l. map_of (agents s) (client_agent c) = Some i \<and> perm_allocation (agent_permissions i) = Some (Limited l) \<longrightarrow>
        targetAllocation s \<noteq> None)"

lemma rebalance_submission:
  assumes "portfolio_inv s"
  shows "(all_some PortfolioFlowAgentMemoShape (fp_memo p) \<and> may_submit s c RebalancePermission (fp_syncState p) \<and>
       rebalance_target_known s c \<longrightarrow>
      (\<exists>t. clientRebalance msg c p s = (Inr (nextFlowId s), t) \<and> flow_started s (client_agent c) FlowRebalance t)) \<and>
    (\<not> (all_some PortfolioFlowAgentMemoShape (fp_memo p) \<and> may_submit s c RebalancePermission (fp_syncState p) \<and>
       rebalance_target_known s c) \<longrightarrow>
      (\<exists>e. clientRebalance msg c p s = (Inl e, s)))"
proof (cases rule: authorized_cases [of c "client_agent c" "[RebalancePermission]" s])
  case (authorized i)
  let ?d = "(plain_detail FlowRebalance)\<lparr>detail_agent := Some (client_agent c), agentMemo := fp_memo p,
     createdAtPolicyVersion := Some (sync_policyVersion (fp_syncState p))\<rparr>"
  let ?k = "\<lambda>target f. thenp (case target of None \<Rightarrow> ret ()
      | Some x \<Rightarrow> catchp (liftp (assertMandateForAllocation (agent_permissions i) x)) (\<lambda>reason. rejectFlowPlan f (msg reason)))
      (ret f)"
  have started: "\<exists>t. bindp (startFlow ?d None) (\<lambda>f. thenp (executePlan f) (?k target f)) s = (Inr (nextFlowId s), t) \<and>
      flow_started s (client_agent c) FlowRebalance t" for target
  proof -
    obtain t where t: "bindp (startFlow ?d None) (\<lambda>f. thenp (executePlan f) (?k target f)) s = ?k target (nextFlowId s) t"
      "core t = core (put_flowsRunning (put_entry (nextFlowId s) (started_flow ?d None) (flowsRunning s))
        (s\<lparr>nextFlowId := nextFlowId s + 1\<rparr>))"
      using start_and_execute [OF assms, of ?d "?k target"] by blast
    have f: "flow_started s (client_agent c) FlowRebalance t"
      by (rule started_core [OF t(2)]) simp_all
    moreover have "map_of (flowsRunning t) (nextFlowId s) = Some (started_flow ?d None)"
      using t(2) by (simp add: core_def put_flowsRunning_def)
    ultimately show ?thesis using rebalance_rest [OF f] unfolding t(1) by simp
  qed
  show ?thesis
    using authorized started [of None] started [of "targetAllocation s"]
    by (auto simp del: bindp_apply simp: bindp_apply [of "getAuthorizedDelegation c n req" for n req]
        bindp_apply [of "ret x" for x] bindp_apply [of "throw e" for e] bindp_apply [of "bindp m f" for m f]
        clientRebalance_def submitRebalance_def may_submit_def rebalance_target_known_def
        checkSyncState_def checkVersion_run insistLatestFlowFinished_def bindp_getsp_run
        split: option.split allocation_permission.split)
next
  case (refused e)
  then show ?thesis
    by (auto simp: clientRebalance_def submitRebalance_def may_submit_def)
qed


text \<open>C20: An agent's submissions are decided by its mandate: in every reachable state a client's
  claim of rewards or rebalance is accepted exactly when its memo is short, it is the client of
  an active agent that holds the permission, it names the current version and count, the latest
  flow has ended and, for a rebalance under limits, there is a target. Then one flow of that
  agent is started under the next number and the policy is as before; otherwise an error is
  returned and nothing has changed.\<close>

theorem delegated_submissions_decided:
  assumes "new_portfolio r0" "(any_step pw att)\<^sup>*\<^sup>* r0 r"
  shows "(if all_some PortfolioFlowAgentMemoShape (fp_memo p) \<and> may_submit (portfolio r) c ClaimRewardsPermission (fp_syncState p)
      then \<exists>t. clientClaimRewards c p (portfolio r) = (Inr (nextFlowId (portfolio r)), t) \<and>
        flow_started (portfolio r) (client_agent c) FlowClaimRewards t
      else \<exists>e. clientClaimRewards c p (portfolio r) = (Inl e, portfolio r)) \<and>
     (if all_some PortfolioFlowAgentMemoShape (fp_memo p) \<and> may_submit (portfolio r) c RebalancePermission (fp_syncState p) \<and>
        rebalance_target_known (portfolio r) c
      then \<exists>t. clientRebalance msg c p (portfolio r) = (Inr (nextFlowId (portfolio r)), t) \<and>
        flow_started (portfolio r) (client_agent c) FlowRebalance t
      else \<exists>e. clientRebalance msg c p (portfolio r) = (Inl e, portfolio r))"
  using claim_submission [OF reachable_inv [OF assms]] rebalance_submission [OF reachable_inv [OF assms]] by simp_all

definition ex_params :: flow_params where
  "ex_params = \<lparr>fp_syncState = \<lparr>sync_policyVersion = 1, sync_rebalanceCount = 0\<rparr>, fp_memo = None\<rparr>"

lemma ex_granted_state:
  "policyVersion (portfolio ex_granted) = 1 \<and> rebalanceCount (portfolio ex_granted) = 0 \<and>
   flowsRunning (portfolio ex_granted) = [] \<and> nextFlowId (portfolio ex_granted) = 1"
  by code_simp

lemma ex_may_submit: "p \<noteq> AllocationPermission \<Longrightarrow> may_submit (portfolio ex_granted) ex_client p (fp_syncState ex_params)"
  using ex_granted_state ex_granted_agents
  by (cases p) (simp_all add: may_submit_def ex_client_def ex_agent_def ex_full_def ex_params_def holds_permission_def store_has_def)

lemma delegated_submissions_decided_witness:
  "\<exists>t u. clientClaimRewards ex_client ex_params (portfolio ex_granted) = (Inr 1, t) \<and>
     clientRebalance (\<lambda>_. ''no'') ex_client ex_params (portfolio ex_granted) = (Inr 1, u) \<and>
     flow_started (portfolio ex_granted) 1 FlowClaimRewards t \<and> flow_started (portfolio ex_granted) 1 FlowRebalance u"
proof -
  have "all_some PortfolioFlowAgentMemoShape (fp_memo ex_params)" "rebalance_target_known (portfolio ex_granted) ex_client"
    using ex_granted_agents
    by (simp_all add: ex_params_def all_some_def rebalance_target_known_def ex_client_def ex_agent_def ex_full_def)
  then show ?thesis
    using delegated_submissions_decided [OF ex_fresh_new ex_granted_reached, of ex_params ex_client "\<lambda>_. ''no''"]
      ex_may_submit [of ClaimRewardsPermission] ex_may_submit [of RebalancePermission] ex_granted_state
    by (auto simp: ex_client_def)
qed

section \<open>Revoked agents\<close>

definition refuses :: "'a portfolio_method \<Rightarrow> portfolio_state \<Rightarrow> bool" where
  "refuses m s \<longleftrightarrow> (\<exists>e. m s = (Inl e, s))"

lemma no_authorization:
  assumes "\<And>i. map_of (agents s) n = Some i \<Longrightarrow> agent_state i \<noteq> Active"
  shows "\<exists>e. getAuthorizedDelegation c n req s = (Inl e, s)"
  by (cases rule: authorized_cases [of c n req s]) (use assms in auto)

lemma inactive_refused:
  assumes "\<And>i. map_of (agents s) (client_agent c) = Some i \<Longrightarrow> agent_state i \<noteq> Active"
  shows "refuses (clientRebalance msg c p) s" "refuses (clientClaimRewards c p) s" "refuses (clientSetTarget c sp sg) s"
    "refuses (clientSetTargetVerified msg c sp outcome) s" "isActive c s = (Inr False, s)"
proof -
  obtain e where e: "\<And>req. getAuthorizedDelegation c (client_agent c) req s = (Inl (e req), s)"
    using no_authorization [of s "client_agent c" c] assms by metis
  show "refuses (clientRebalance msg c p) s" by (simp add: refuses_def clientRebalance_def submitRebalance_def e)
  show "refuses (clientClaimRewards c p) s" by (simp add: refuses_def clientClaimRewards_def submitClaimRewards_def e)
  show "refuses (clientSetTarget c sp sg) s" by (simp add: refuses_def clientSetTarget_def e)
  show "refuses (clientSetTargetVerified msg c sp outcome) s"
    by (cases outcome) (simp_all add: refuses_def clientSetTargetVerified_def helperGetTargetAllocation_def e)
  show "isActive c s = (Inr False, s)" by (simp add: isActive_def e)
qed

lemma any_steps_kept:
  assumes "portfolio_run_inv r" "(any_step pw att)\<^sup>*\<^sup>* r r'"
  shows "agents_kept (policy_of (portfolio r)) (policy_of (portfolio r')) \<and> sync_le (policy_of (portfolio r)) (policy_of (portfolio r'))"
proof -
  from assms(2) have "portfolio_run_inv r' \<and> agents_kept (policy_of (portfolio r)) (policy_of (portfolio r')) \<and>
      sync_le (policy_of (portfolio r)) (policy_of (portfolio r'))"
  proof (induction rule: rtranclp_induct)
    case (step u v)
    then have "\<exists>a. refines a u v" unfolding any_step_def using refines_step by blast
    then show ?case
      using step policy_steps_monotone unfolding refines_def
      by (meson agents_kept_trans sync_le_trans)
  qed (simp add: assms(1))
  then show ?thesis by blast
qed

lemma any_steps_inactive:
  assumes "portfolio_run_inv r" "(any_step pw att)\<^sup>*\<^sup>* r r'"
    and "map_of (agents (portfolio r)) n = Some i" "agent_state i \<noteq> Active"
  shows "\<exists>j. map_of (agents (portfolio r')) n = Some j \<and> grantee j = grantee i \<and> agent_state j \<noteq> Active"
  using agents_kept_grantee [OF conjunct1 [OF any_steps_kept [OF assms(1,2)]] assms(3)] assms(4) by blast

text \<open>C6: A lost delegation is lost for good: once an agent is on record and not active, then
  whatever happens afterwards it stays on record under its grantee and not active, and every
  call by any client of it, including the part of a target submission that resumes after the
  observations were verified, returns an error and changes nothing.\<close>

theorem revoked_agent_is_powerless:
  assumes "new_portfolio r0" "(any_step pw att)\<^sup>*\<^sup>* r0 r" "(any_step pw att)\<^sup>*\<^sup>* r r'"
    and "map_of (agents (portfolio r)) (client_agent c) = Some i" "agent_state i \<noteq> Active"
  shows "(\<exists>j. map_of (agents (portfolio r')) (client_agent c) = Some j \<and> grantee j = grantee i \<and> agent_state j \<noteq> Active) \<and>
    refuses (clientRebalance msg c p) (portfolio r') \<and> refuses (clientClaimRewards c p) (portfolio r') \<and>
    refuses (clientSetTarget c sp sg) (portfolio r') \<and> refuses (clientSetTargetVerified msg c sp outcome) (portfolio r') \<and>
    isActive c (portfolio r') = (Inr False, portfolio r')"
  using any_steps_inactive [OF prun.inv_reachable [OF assms(1,2)] assms(3-5)] inactive_refused [of "portfolio r'" c] by auto


definition ex_revoked :: "nat portfolio_run" where
  "ex_revoked = call (run_call ex_ports (EvmRevoke 1)) ex_granted"

lemma ex_revoked_agents:
  "agents (portfolio ex_revoked) = [(1, ex_agent\<lparr>agent_state := Revoked, updatedAtPolicyVersion := Some 2, activeClient := None\<rparr>)]"
  by code_simp

lemma revoked_agent_is_powerless_witness:
  "refuses (clientRebalance (\<lambda>_. ''no'') ex_client ex_params) (portfolio ex_revoked) \<and>
   \<not> refuses (clientRebalance (\<lambda>_. ''no'') ex_client ex_params) (portfolio ex_granted) \<and>
   isActive ex_client (portfolio ex_revoked) = (Inr False, portfolio ex_revoked)"
proof -
  have "(any_step ex_ports ex_attestation)\<^sup>*\<^sup>* ex_granted ex_revoked"
    unfolding ex_revoked_def by (intro r_into_rtranclp any_step_call) simp
  then have r: "(any_step ex_ports ex_attestation)\<^sup>*\<^sup>* ex_fresh ex_revoked" using ex_granted_reached by simp
  let ?i = "ex_agent\<lparr>agent_state := Revoked, updatedAtPolicyVersion := Some 2, activeClient := None\<rparr>"
  have "map_of (agents (portfolio ex_revoked)) (client_agent ex_client) = Some ?i" "agent_state ?i \<noteq> Active"
    by (simp_all add: ex_revoked_agents ex_client_def)
  note revoked_agent_is_powerless [where msg = "\<lambda>_. ''no''" and p = ex_params and sp = undefined and sg = None
      and outcome = "Inr None", OF ex_fresh_new r rtranclp.rtrancl_refl this]
  then have "refuses (clientRebalance (\<lambda>_. ''no'') ex_client ex_params) (portfolio ex_revoked) \<and>
      isActive ex_client (portfolio ex_revoked) = (Inr False, portfolio ex_revoked)" by (elim conjE) (intro conjI)
  moreover have "\<exists>t. clientRebalance (\<lambda>_. ''no'') ex_client ex_params (portfolio ex_granted) = (Inr 1, t)"
    using rebalance_submission [OF reachable_inv [OF ex_fresh_new ex_granted_reached], of ex_params ex_client "\<lambda>_. ''no''"]
      ex_may_submit [of RebalancePermission] ex_granted_state ex_granted_agents
    by (auto simp: ex_params_def all_some_def rebalance_target_known_def ex_client_def ex_agent_def ex_full_def)
  ultimately show ?thesis by (auto simp: refuses_def)
qed

end
