(* ===== verification/PlanFacts.thy ===== *)
theory PlanFacts
  imports SubmissionFacts
begin

text \<open>
  The planner's submissions: what a plan that is accepted was checked against, and that the
  version and count a submission names can be used once.
\<close>

section \<open>Plans of an agent's flow\<close>

lemma vetMandate_Inr:
  "vetMandate perms t obs = Inr u \<longleftrightarrow> assertMandateForAllocation perms t = Inr () \<and>
     (needsObservations perms \<longrightarrow> (\<exists>ob. obs = Some ob \<and> assertMandateForPlanObservations perms t ob = Inr ()))"
  by (auto simp: vetMandate_def bindr_Inr_iff split: option.splits)

lemma resolvePending_run:
  assumes "resolvePendingPolicy f w u = (Inr (), t)"
  shows "policyVersion t = policyVersion u \<and> rebalanceCount t = rebalanceCount u \<and> targetAllocation t = targetAllocation u \<and>
    agents t = agents u \<and>
    (\<exists>d opn. map_of (flowsRunning t) f = Some d \<and> initiatingOperation d = Some opn \<and> op_status opn = OpOk w)"
proof -
  note [simp del] = bindp_apply thenp_apply
  from assms show ?thesis
    unfolding resolvePendingPolicy_def
    apply (elim bindp_InrE)
    apply (auto simp: store_get_def split: option.splits elim!: thenp_InrE)
    apply (auto simp: store_set_def publishStatus_def put_flowsRunning_def agents_def split: if_splits)
    done
qed

definition returns_sync :: "(nat \<times> nat) portfolio_method \<Rightarrow> bool" where
  "returns_sync m \<longleftrightarrow> (\<forall>s r t. m s = (Inr r, t) \<longrightarrow> r = (policyVersion t, rebalanceCount t))"

lemma returns_sync_bindp: "(\<And>x. returns_sync (f x)) \<Longrightarrow> returns_sync (bindp m f)"
  unfolding returns_sync_def by (auto elim!: bindp_InrE simp del: bindp_apply)

lemma returns_sync_thenp: "returns_sync k \<Longrightarrow> returns_sync (thenp m k)"
  unfolding thenp_def by (rule returns_sync_bindp)

lemma returns_sync_option:
  "returns_sync m \<Longrightarrow> (\<And>x. returns_sync (f x)) \<Longrightarrow> returns_sync (case y of None \<Rightarrow> m | Some x \<Rightarrow> f x)"
  by (cases y) simp_all

lemma validate_returns_sync: "returns_sync (validateAndCommitPlanPolicy f obs v c)"
  unfolding validateAndCommitPlanPolicy_def Let_def
  by (intro returns_sync_thenp returns_sync_bindp returns_sync_option) (simp_all add: returns_sync_def)

text \<open>C7: A plan for an agent's flow is accepted only within its mandate: when the validation of a
  plan succeeds, it named the current version and count, and if the flow is an agent's then the
  target now in force respects the agent's current weight limit and, where the mandate has
  limits on vaults, the observations that came with the plan; if the flow's own target was still
  pending it is the one in force now, committed at a new version, and no policy change had
  happened since it was submitted.\<close>

theorem planned_target_within_mandate:
  assumes "validateAndCommitPlanPolicy f obs v c s = (Inr sy, t)"
    and "map_of (flowsRunning s) f = Some d" "detail_agent d = Some n"
  shows "policyVersion s = v \<and> rebalanceCount s = c \<and> sy = (policyVersion t, rebalanceCount t) \<and>
    (\<exists>i target. map_of (agents s) n = Some i \<and> targetAllocation t = Some target \<and>
       assertMandateForAllocation (agent_permissions i) target = Inr () \<and>
       (needsObservations (agent_permissions i) \<longrightarrow>
          (\<exists>ob. obs = Some ob \<and> assertMandateForPlanObservations (agent_permissions i) target ob = Inr ())) \<and>
       (case pending_target d of
          None \<Rightarrow> t = s
        | Some own \<Rightarrow> target = own \<and> createdAtPolicyVersion d = Some v \<and> policyVersion t = v + 1 \<and> rebalanceCount t = 0 \<and>
            (\<exists>d' opn. map_of (flowsRunning t) f = Some d' \<and> initiatingOperation d' = Some opn \<and> op_status opn = OpOk (v + 1))))"
proof -
  have sy: "sy = (policyVersion t, rebalanceCount t)"
    using validate_returns_sync [of f obs v c] assms(1) unfolding returns_sync_def by blast
  obtain i tgt where i: "policyVersion s = v" "rebalanceCount s = c" "map_of (agents s) n = Some i"
    "detail_type d = FlowRebalance \<and> \<not> target_committed d \<longrightarrow> createdAtPolicyVersion d = Some (policyVersion s)"
    "(case pending_target d of Some t' \<Rightarrow> Some t' | None \<Rightarrow> targetAllocation s) = Some tgt"
    "vetMandate (agent_permissions i) tgt obs = Inr ()"
    "pending_target d = None \<and> t = s \<or> pending_target d \<noteq> None \<and> (\<exists>w u. updateTargetAllocation tgt s = (Inr w, u) \<and> resolvePendingPolicy f w u = (Inr (), t))"
    using validate_Inr [OF assms(1)] assms(2,3) by auto
  show ?thesis
  proof (cases "pending_target d")
    case None
    then show ?thesis using i sy by (auto simp: vetMandate_Inr)
  next
    case (Some own)
    then have own: "tgt = own" "createdAtPolicyVersion d = Some v" using i pending_targetD [OF Some] by auto
    obtain w u where "updateTargetAllocation own s = (Inr w, u)" and r: "resolvePendingPolicy f w u = (Inr (), t)"
      using i(7) Some own by auto
    then have u: "w = v + 1" "targetAllocation u = Some own" "policyVersion u = v + 1" "rebalanceCount u = 0"
      using i(1) by (auto simp: update_run)
    with resolvePending_run [OF r] i own Some sy show ?thesis by (auto simp: vetMandate_Inr)
  qed
qed


section \<open>A version and count are used once\<close>

definition outdated :: "nat \<Rightarrow> nat \<Rightarrow> portfolio_state \<Rightarrow> bool" where
  "outdated v c s \<longleftrightarrow> v < policyVersion s \<or> v = policyVersion s \<and> c < rebalanceCount s"

lemma outdated_later: "outdated v c s \<Longrightarrow> sync_le (policy_of s) (policy_of t) \<Longrightarrow> outdated v c t"
  by (auto simp: outdated_def sync_le_def policy_of_def)

lemma outdated_check: "outdated v c s \<Longrightarrow> checkVersion v c s = (Inl PolicyOutOfSync, s)"
  by (auto simp: outdated_def checkVersion_run)

lemma outdated_submit: "outdated v c s \<Longrightarrow> submitVersion v c s = (Inl PolicyOutOfSync, s)"
  by (simp add: submitVersion_def outdated_check)

lemma outdated_refused:
  assumes "portfolio_inv s" "outdated v c s"
  shows "refuses (rejectPlan f reason v c) s" "refuses (resolvePlan msg f plan v c obs) s"
    "fp_syncState fp = \<lparr>sync_policyVersion = v, sync_rebalanceCount = c\<rparr> \<Longrightarrow> refuses (clientRebalance msg client fp) s"
    "fp_syncState fp = \<lparr>sync_policyVersion = v, sync_rebalanceCount = c\<rparr> \<Longrightarrow> refuses (clientClaimRewards client fp) s"
    "sp_syncState sp = \<lparr>sync_policyVersion = v, sync_rebalanceCount = c\<rparr> \<Longrightarrow> refuses (clientSetTargetVerified msg client sp outcome) s"
proof -
  show "refuses (rejectPlan f reason v c) s" by (simp add: refuses_def rejectPlan_def outdated_submit [OF assms(2)])
  have "validateAndCommitPlanPolicy f obs v c s = (Inl PolicyOutOfSync, s)"
    by (simp add: validateAndCommitPlanPolicy_def outdated_check [OF assms(2)])
  then show "refuses (resolvePlan msg f plan v c obs) s"
    by (cases "vetNoNewPositions (targetPositions s) (steps_of plan)")
      (simp_all add: refuses_def resolvePlan_def vetPlan_def outdated_submit [OF assms(2)])
  have m: "\<not> may_submit s client p \<lparr>sync_policyVersion = v, sync_rebalanceCount = c\<rparr>" for p
    using assms(2) by (auto simp: may_submit_def outdated_def)
  show "refuses (clientRebalance msg client fp) s" if "fp_syncState fp = \<lparr>sync_policyVersion = v, sync_rebalanceCount = c\<rparr>"
    using rebalance_submission [OF assms(1), of fp client msg] m that by (simp add: refuses_def)
  show "refuses (clientClaimRewards client fp) s" if "fp_syncState fp = \<lparr>sync_policyVersion = v, sync_rebalanceCount = c\<rparr>"
    using claim_submission [OF assms(1), of fp client] m that by (simp add: refuses_def)
  show "refuses (clientSetTargetVerified msg client sp outcome) s"
    if sy: "sp_syncState sp = \<lparr>sync_policyVersion = v, sync_rebalanceCount = c\<rparr>"
  proof (cases outcome)
    case (Inr verified)
    have sub: "refuses (submitTargetAllocation msg client n sp verified) s" for n
      by (cases rule: authorized_cases [of client n "[AllocationPermission]" s])
        (simp_all add: refuses_def submitTargetAllocation_def checkSyncState_def sy outdated_check [OF assms(2)])
    show ?thesis
      using sub [of "client_agent client"] Inr
      by (cases rule: authorized_cases [of client "client_agent client" "[]" s])
        (simp_all add: refuses_def clientSetTargetVerified_def helperGetTargetAllocation_def auditKeys_def)
  qed (simp add: refuses_def clientSetTargetVerified_def)
qed

definition same_sync :: "nat \<Rightarrow> nat \<Rightarrow> portfolio_state \<Rightarrow> bool" where
  "same_sync v c s \<longleftrightarrow> policyVersion s = v \<and> rebalanceCount s = c"

lemma same_sync_flow: "keeps (same_sync v c) (rejectFlowPlan f reason)" "keeps (same_sync v c) (resolveFlowPlan msg f plan)"
proof -
  have w: "keeps (same_sync v c) (writeStore flowsRunning put_flowsRunning g)" "keeps (same_sync v c) publishStatus" for g
    by (rule keeps_writeStore, simp add: same_sync_def) (simp add: publishStatus_def keeps_def same_sync_def)
  show r: "keeps (same_sync v c) (rejectFlowPlan f reason)" for reason
    unfolding rejectFlowPlan_def by (intro keeps_intros w)
  show "keeps (same_sync v c) (resolveFlowPlan msg f plan)"
    unfolding resolveFlowPlan_def by (intro keeps_intros w r)
qed

lemma submit_then:
  assumes "thenp (submitVersion v c) k s = (Inr x, t)" "\<And>a b. keeps (same_sync a b) k"
  shows "policyVersion s = v \<and> rebalanceCount s = c \<and> policyVersion t = v \<and> rebalanceCount t = c + 1"
proof -
  obtain y u where u: "submitVersion v c s = (Inr y, u)" "k u = (Inr x, t)"
    using assms(1) by (rule thenp_InrE)
  then have v: "policyVersion s = v" "rebalanceCount s = c" "same_sync v (c + 1) u"
    by (auto simp: submitVersion_def checkVersion_run publishStatus_def same_sync_def split: if_splits)
  have "same_sync v (c + 1) t" using keepsD [OF assms(2) v(3)] u(2) by simp
  then show ?thesis using v by (simp add: same_sync_def)
qed

lemma resolvePlan_uses:
  assumes "portfolio_inv s" "resolvePlan msg f plan v c obs s = (Inr x, t)"
  shows "outdated v c t"
proof -
  let ?val = "catchp (bindp (validateAndCommitPlanPolicy f obs v c) (\<lambda>sy. ret (Inr sy))) (\<lambda>reason. ret (Inl reason))"
  obtain u where u: "vetPlan plan s = (Inr (), u)" "bindp ?val (\<lambda>accepted. case accepted of
       Inl reason \<Rightarrow> thenp (submitVersion v c) (rejectFlowPlan f (msg reason))
     | Inr (v, c) \<Rightarrow> thenp (submitVersion v c) (resolveFlowPlan msg f plan)) u = (Inr x, t)"
    using assms(2) unfolding resolvePlan_def by (elim thenp_InrE) auto
  have us: "u = s" using u(1) by (auto simp: vetPlan_def split: sum.splits)
  obtain acc w where w: "?val s = (Inr acc, w)" "(case acc of
       Inl reason \<Rightarrow> thenp (submitVersion v c) (rejectFlowPlan f (msg reason))
     | Inr (v, c) \<Rightarrow> thenp (submitVersion v c) (resolveFlowPlan msg f plan)) w = (Inr x, t)"
    using u(2) unfolding us by (rule bindp_InrE)
  show ?thesis
  proof (cases acc)
    case (Inl reason)
    then show ?thesis using submit_then [OF _ same_sync_flow(1)] w(2) by (fastforce simp: outdated_def)
  next
    case (Inr sy)
    then have val: "validateAndCommitPlanPolicy f obs v c s = (Inr sy, w)" using w(1) by (auto split: prod.splits sum.splits)
    have "sync_le (policy_of s) (policy_of w)"
      using policy_steps_monotone pol.safeD [OF safe_validate [OF assms(1)] val] by blast
    moreover have "policyVersion s = v" "rebalanceCount s = c" using validate_Inr [OF val] by auto
    moreover have "policyVersion t = policyVersion w" "rebalanceCount t = rebalanceCount w + 1"
      using submit_then [OF _ same_sync_flow(2), of "fst sy" "snd sy" msg f plan w x t] w(2) Inr by (auto split: prod.splits)
    ultimately show ?thesis by (auto simp: outdated_def sync_le_def policy_of_def)
  qed
qed

text \<open>C12: The planner uses a version and count at most once: after a plan was accepted or
  rejected in their name, in every later state another plan, rejection, rebalance, claim of
  rewards or verified target submission that names them is refused and changes nothing.\<close>

theorem sync_state_used_once:
  assumes "new_portfolio r0" "(any_step pw att)\<^sup>*\<^sup>* r0 r"
    and "resolvePlan msg f plan v c obs (portfolio r) = (Inr (), s) \<or> rejectPlan f reason v c (portfolio r) = (Inr (), s)"
    and "(any_step pw att)\<^sup>*\<^sup>* (r\<lparr>portfolio := s\<rparr>) r'"
  shows "refuses (resolvePlan msg' f' plan' v c obs') (portfolio r') \<and> refuses (rejectPlan f' reason' v c) (portfolio r') \<and>
    refuses (clientRebalance msg' client \<lparr>fp_syncState = \<lparr>sync_policyVersion = v, sync_rebalanceCount = c\<rparr>, fp_memo = memo\<rparr>) (portfolio r') \<and>
    refuses (clientClaimRewards client \<lparr>fp_syncState = \<lparr>sync_policyVersion = v, sync_rebalanceCount = c\<rparr>, fp_memo = memo\<rparr>) (portfolio r') \<and>
    refuses (clientSetTargetVerified msg' client \<lparr>sp_syncState = \<lparr>sync_policyVersion = v, sync_rebalanceCount = c\<rparr>,
      sp_target = target, sp_memo = memo, sp_plan = ffp\<rparr> outcome) (portfolio r')"
proof -
  have inv: "portfolio_run_inv r" "portfolio_inv (portfolio r)" using prun.inv_reachable [OF assms(1,2)] by (auto simp: portfolio_run_inv_def)
  have o: "outdated v c s"
    using assms(3) resolvePlan_uses [OF inv(2)] submit_then [OF _ same_sync_flow(1)]
    unfolding rejectPlan_def by (fastforce simp: outdated_def)
  have "refines Delegate r (r\<lparr>portfolio := s\<rparr>)"
    using assms(3) refines_call [OF inv(1) safe_resolvePlan [OF inv(2)], of msg f plan v c obs]
      refines_call [OF inv(1) safe_rejectPlan [OF inv(2)], of f reason v c]
    by (auto simp: call_def)
  then have "portfolio_run_inv (r\<lparr>portfolio := s\<rparr>)" by (simp add: refines_def)
  with any_steps_kept [OF _ assms(4)] have "outdated v c (portfolio r')" "portfolio_inv (portfolio r')"
    using outdated_later [OF o] prun.inv_steps [OF assms(4)] by (auto simp: portfolio_run_inv_def)
  then show ?thesis using outdated_refused by simp
qed


section \<open>Examples\<close>

definition ex_target_params :: set_target_params where
  "ex_target_params = \<lparr>sp_syncState = \<lparr>sync_policyVersion = 1, sync_rebalanceCount = 0\<rparr>,
     sp_target = [(''Aave_Ethereum'', Some 2)], sp_memo = None, sp_plan = None\<rparr>"

definition ex_target_flow :: running_flow where
  "ex_target_flow = flow_detail.extend (set_target_detail 1 ex_target_params) (running_flow.fields AwaitingSteps)"

definition ex_pending :: portfolio_state where
  "ex_pending = (portfolio ex_granted)\<lparr>targetAllocation := Some [(''Aave_Ethereum'', Some 1)], nextFlowId := 2,
     flowsRunning := [(1, ex_target_flow)]\<rparr>"

lemma planned_target_within_mandate_witness:
  "\<exists>t. validateAndCommitPlanPolicy 1 None 1 0 ex_pending = (Inr (2, 0), t) \<and>
     targetAllocation t = Some [(''Aave_Ethereum'', Some 2)] \<and> policyVersion t = 2"
proof -
  let ?m = "validateAndCommitPlanPolicy 1 None 1 0 ex_pending"
  have "fst ?m = Inr (2, 0)" by code_simp
  then have m: "?m = (Inr (2, 0), snd ?m)" by (metis prod.collapse)
  have f: "map_of (flowsRunning ex_pending) 1 = Some ex_target_flow" by (simp add: ex_pending_def)
  have d: "detail_agent ex_target_flow = Some 1" "pending_target ex_target_flow = Some [(''Aave_Ethereum'', Some 2)]"
    by code_simp+
  show ?thesis using m planned_target_within_mandate [OF m f d(1)] d(2) by auto
qed

definition ex_rejected :: portfolio_state where
  "ex_rejected = snd (rejectPlan 1 ''no'' 1 0 (portfolio ex_rebalanced))"

lemma sync_state_used_once_witness:
  "rejectPlan 1 ''no'' 1 0 (portfolio ex_rebalanced) = (Inr (), ex_rejected) \<and>
   refuses (rejectPlan 1 ''again'' 1 0) ex_rejected"
proof -
  have "fst (rejectPlan 1 ''no'' 1 0 (portfolio ex_rebalanced)) = Inr ()" by code_simp
  then have r: "rejectPlan 1 ''no'' 1 0 (portfolio ex_rebalanced) = (Inr (), ex_rejected)"
    unfolding ex_rejected_def by (metis prod.collapse)
  have "refuses (rejectPlan 1 ''again'' 1 0) (portfolio (ex_rebalanced\<lparr>portfolio := ex_rejected\<rparr>))"
    by (rule sync_state_used_once [OF ex_fresh_new ex_rebalanced_reached disjI2 [OF r] rtranclp.rtrancl_refl, THEN conjunct2, THEN conjunct1])
  with r show ?thesis by simp
qed

end
