(* ===== verification/OwnershipFacts.thy ===== *)
theory OwnershipFacts
  imports SubmissionFacts
begin

text \<open>
  The transfer of a portfolio to an EVM account: what completes one, that the owner it sets is
  final, and that the vow of every transfer is settled once. All other methods of the portfolio
  leave its ownership alone.
\<close>

section \<open>Frames\<close>

text \<open>The part of the state that is about ownership, and a bound on the vows made so far.\<close>

definition ownership :: "portfolio_state \<Rightarrow> nat \<times> string option \<times> owner_transfer option \<times> (nat \<times> transfer_result) list" where
  "ownership s = (portfolioId s, sourceAccountId s, pendingOwnerTransfer s, transferResults s)"

definition owned :: "nat \<times> string option \<times> owner_transfer option \<times> (nat \<times> transfer_result) list \<Rightarrow> nat \<Rightarrow> portfolio_state \<Rightarrow> bool" where
  "owned c w s \<longleftrightarrow> ownership s = c \<and> w \<le> vowsMade s"

named_theorems owned_intros \<open>the methods that leave the ownership alone\<close>

lemma owned_modify: "(\<And>s. ownership (f s) = ownership s) \<Longrightarrow> (\<And>s. vowsMade s \<le> vowsMade (f s)) \<Longrightarrow> keeps (owned c w) (modifyp f)"
  by (rule keeps_modifyp) (auto simp: owned_def intro: le_trans)

lemma owned_write:
  "(\<And>m s. ownership (put m s) = ownership s) \<Longrightarrow> (\<And>m s. vowsMade (put m s) = vowsMade s) \<Longrightarrow>
     keeps (owned c w) (writeStore get put f)"
  by (rule keeps_writeStore) (simp add: owned_def)

lemma owned_writes [owned_intros]:
  "keeps (owned c w) (writeStore flowsRunning put_flowsRunning f1)"
  "keeps (owned c w) (writeStore accounts put_accounts f2)"
  "keeps (owned c w) (writeStore accountsPending put_accountsPending f3)"
  "keeps (owned c w) (writeStore positions put_positions f4)"
  "keeps (owned c w) (writeStore agents put_agents f5)"
  by (rule owned_write; simp add: put_defs ownership_def)+

lemma keeps_case_allocation [keeps_intros]:
  "(\<And>b. keeps I (f b)) \<Longrightarrow> (\<And>l. keeps I (g l)) \<Longrightarrow> keeps I (case x of AllowAll b \<Rightarrow> f b | Limited l \<Rightarrow> g l)"
  by (cases x) simp_all

lemma keeps_case_caller [keeps_intros]:
  "keeps I m \<Longrightarrow> (\<And>x. keeps I (f x)) \<Longrightarrow> keeps I (case y of EvmGrant \<Rightarrow> m | AutoFeatures x \<Rightarrow> f x)"
  by (cases y) simp_all

lemma owned_reports [owned_intros]:
  "keeps (owned c w) publishStatus" "keeps (owned c w) publishAgents" "keeps (owned c w) (settleVow v r)"
  "keeps (owned c w) (executePlan f)" "keeps (owned c w) bumpPolicyVersion"
  unfolding publishStatus_def publishAgents_def settleVow_def executePlan_def bumpPolicyVersion_def
  by (intro keeps_intros owned_modify; simp add: ownership_def)+

lemma owned_updates [owned_intros]:
  "keeps (owned c w) (updateTargetAllocation t)" "keeps (owned c w) (setTargetAllocation t)"
  "keeps (owned c w) incrPolicyVersion" "keeps (owned c w) (checkVersion v n)" "keeps (owned c w) (submitVersion v n)"
  "keeps (owned c w) (finishFlow f)" "keeps (owned c w) (executePlanDone f)"
  "keeps (owned c w) (resolvePendingPolicy f v)" "keeps (owned c w) (rejectFlowPlan f reason)"
  unfolding updateTargetAllocation_def setTargetAllocation_def incrPolicyVersion_def checkVersion_def submitVersion_def
    finishFlow_def executePlanDone_def resolvePendingPolicy_def rejectFlowPlan_def
  by (intro keeps_intros owned_intros owned_modify; simp add: ownership_def)+

lemma owned_new_vow:
  assumes "\<And>v. keeps (owned c w) (k v)"
  shows "keeps (owned c w) (bindp (getsp vowsMade) (\<lambda>v.
     thenp (modifyp (\<lambda>s. s\<lparr>vowsMade := v + 1, watchers := watchers s @ [(v, ch)]\<rparr>)) (k v)))"
proof (rule keepsI)
  fix s
  assume "owned c w s"
  then have "owned c w (s\<lparr>vowsMade := vowsMade s + 1, watchers := watchers s @ [(vowsMade s, ch)]\<rparr>)"
    by (simp add: owned_def ownership_def)
  then show "owned c w (snd (bindp (getsp vowsMade) (\<lambda>v.
     thenp (modifyp (\<lambda>s. s\<lparr>vowsMade := v + 1, watchers := watchers s @ [(v, ch)]\<rparr>)) (k v)) s))"
    using assms by (simp add: keeps_def)
qed

lemma owned_reserve [owned_intros]: "keeps (owned c w) (reserveAccountState ch)"
  unfolding reserveAccountState_def by (intro owned_new_vow keeps_intros owned_intros)

lemma owned_accounts [owned_intros]:
  "keeps (owned c w) (initAccountInfo info)"
  "keeps (owned c w) (resolveAccount info)" "keeps (owned c w) (releaseAccount ch reason)"
  "keeps (owned c w) (initNobleAccountUnderProvision info)" "keeps (owned c w) (accountWatcher r ch)"
  "keeps (owned c w) (publishPosition k)" "keeps (owned c w) (providePosition k prot acct)"
  "keeps (owned c w) (recordTransferIn k amt)" "keeps (owned c w) (recordTransferOut k amt)"
  unfolding initAccountInfo_def resolveAccount_def releaseAccount_def
    initNobleAccountUnderProvision_def accountWatcher_def dropPending_def publishPosition_def providePosition_def
    recordTransferIn_def recordTransferOut_def
  by (intro keeps_intros owned_intros owned_modify; simp add: ownership_def)+

lemma owned_flows [owned_intros]:
  "keeps (owned c w) (startFlow d st)" "keeps (owned c w) (resolveFlowPlan msg f plan)"
  "keeps (owned c w) (validateAndCommitPlanPolicy f obs v n)"
  unfolding startFlow_def resolveFlowPlan_def validateAndCommitPlanPolicy_def Let_def
  by (intro keeps_intros owned_intros owned_modify; simp add: ownership_def)+


lemma owned_delegations [owned_intros]:
  "keeps (owned c w) (grantDelegation caller who perms)" "keeps (owned c w) (deliverDelegation caller n client who perms v)"
  "keeps (owned c w) (grantDelivered n who perms v res)" "keeps (owned c w) (changePermissions n perms)"
  "keeps (owned c w) (revokeDelegation n)" "keeps (owned c w) (setAutoFeatures fs)"
  "keeps (owned c w) (grantReturned caller gr)"
  unfolding grantDelegation_def deliverDelegation_def grantDelivered_def changePermissions_def revokeDelegation_def
    setAutoFeatures_def grantReturned_def
  by (intro keeps_intros owned_intros owned_modify; simp add: ownership_def)+

lemma owned_features [owned_intros]: "keeps (owned c w) (setAutoFeaturesMerged merged perms planner upd)"
  unfolding setAutoFeaturesMerged_def
  by (intro keeps_intros owned_intros owned_modify; simp add: ownership_def)+

lemma owned_authorized [owned_intros]:
  "keeps (owned c w) (getAuthorizedDelegation client n req)" "keeps (owned c w) insistLatestFlowFinished"
  "keeps (owned c w) (checkSyncState sy)" "keeps (owned c w) (checkObserved params vo)"
  "keeps (owned c w) (vetBeforeFlow perms params vo)"
  "keeps (owned c w) (helperGetTargetAllocation client n)" "keeps (owned c w) (helperGetAutoFeatures client n)"
  unfolding getAuthorizedDelegation_def insistLatestFlowFinished_def checkSyncState_def checkObserved_def vetBeforeFlow_def
    helperGetTargetAllocation_def helperGetAutoFeatures_def
  by (intro keeps_intros owned_intros)+

lemma owned_commit [owned_intros]: "keeps (owned c w) (commitAllocation msg perms params vo vetted f)"
  unfolding commitAllocation_def by (intro keeps_intros owned_intros)

lemma owned_submissions [owned_intros]:
  "keeps (owned c w) (submitTargetAllocation msg client n params vo)" "keeps (owned c w) (submitRebalance msg client n fp)"
  "keeps (owned c w) (submitClaimRewards client n fp)" "keeps (owned c w) (isActive client)"
  unfolding submitTargetAllocation_def submitRebalance_def submitClaimRewards_def isActive_def
  by (intro keeps_intros owned_intros)+

lemma owned_clients [owned_intros]:
  "keeps (owned c w) (clientRebalance msg client fp)" "keeps (owned c w) (clientClaimRewards client fp)"
  "keeps (owned c w) (clientSetTarget client params sg)" "keeps (owned c w) (clientSetTargetVerified msg client params res)"
  "keeps (owned c w) (vetPlan plan)"
  unfolding clientRebalance_def clientClaimRewards_def clientSetTarget_def clientSetTargetVerified_def vetPlan_def
  by (intro keeps_intros owned_intros)+

lemma owned_planner [owned_intros]:
  "keeps (owned c w) (resolvePlan msg f plan v n obs)" "keeps (owned c w) (rejectPlan f reason v n)"
  "keeps (owned c w) (plannerDelegation feature)"
  unfolding resolvePlan_def rejectPlan_def plannerDelegation_def
  by (intro keeps_intros owned_intros)+

lemma owned_planner_calls [owned_intros]:
  "keeps (owned c w) (plannerRebalance msg fp plan)" "keeps (owned c w) (plannerClaimRewards msg fp plan)"
  unfolding plannerRebalance_def plannerClaimRewards_def
  by (intro keeps_intros owned_intros)+

lemma owned_checks [owned_intros]:
  "keeps (owned c w) requireEvmOwner" "keeps (owned c w) (makeUsdc amt)" "keeps (owned c w) (chainForId pw ch)"
  "keeps (owned c w) (runFlow d st)" "keeps (owned c w) (assertExternalDelegationTarget n)" "keeps (owned c w) insistAgoricOwned"
  "keeps (owned c w) (validateRepresentativeInfo pw ch rep strict)"
  unfolding requireEvmOwner_def makeUsdc_def chainForId_def runFlow_def assertExternalDelegationTarget_def insistAgoricOwned_def
    validateRepresentativeInfo_def
  by (intro keeps_intros owned_intros)+

lemma owned_evm [owned_intros]:
  "keeps (owned c w) (evmDeposit pw permit)" "keeps (owned c w) (evmRebalance als pm)"
  "keeps (owned c w) (evmWithdraw pw amt token dmn addr)" "keeps (owned c w) (evmGrant who perms)"
  "keeps (owned c w) (evmChangePermissions n perms)" "keeps (owned c w) (evmRevoke n)" "keeps (owned c w) (evmSetAutoFeatures fs)"
  unfolding evmDeposit_def evmRebalance_def evmWithdraw_def evmGrant_def evmChangePermissions_def evmRevoke_def evmSetAutoFeatures_def
  by (intro keeps_intros owned_intros)+

lemma owned_offers [owned_intros]:
  "keeps (owned c w) (handleRebalance args)" "keeps (owned c w) (legacyRebalance args f)" "keeps (owned c w) (handleDeposit amt st)"
  "keeps (owned c w) (handleSimpleRebalance args)" "keeps (owned c w) (handleWithdraw amt)"
  "keeps (owned c w) (handleTransferOwnership addr dl)"
  unfolding handleRebalance_def legacyRebalance_def handleDeposit_def handleSimpleRebalance_def handleWithdraw_def
    handleTransferOwnership_def
  by (intro keeps_intros owned_intros)+

lemma owned_unitp [owned_intros]: "keeps (owned c w) m \<Longrightarrow> keeps (owned c w) (unitp m)"
  unfolding unitp_def by (intro keeps_intros)

fun transfer_call :: "portfolio_call \<Rightarrow> bool" where
  "transfer_call (CompleteTransfer _ _ _) = True"
| "transfer_call (WakeTransfer _) = True"
| "transfer_call _ = False"

lemma owned_call: "\<not> transfer_call x \<Longrightarrow> keeps (owned c w) (run_call pw x)"
  by (cases x) (simp_all add: owned_intros)


section \<open>The vow of a transfer\<close>

definition transfer_inv :: "portfolio_state \<Rightarrow> bool" where
  "transfer_inv s \<longleftrightarrow> distinct (map fst (transferResults s)) \<and>
     (\<forall>v \<in> fst ` set (transferResults s). v < vowsMade s) \<and>
     (\<forall>t. pendingOwnerTransfer s = Some t \<longrightarrow>
        transferResolver t < vowsMade s \<and> transferResolver t \<notin> fst ` set (transferResults s))"

text \<open>A transfer vow is answered by a pending transfer or by a settlement, not by both.\<close>

definition pending_vow :: "nat \<Rightarrow> portfolio_state \<Rightarrow> bool" where
  "pending_vow v s \<longleftrightarrow> (\<exists>t. pendingOwnerTransfer s = Some t \<and> transferResolver t = v)"

definition answered :: "nat \<Rightarrow> portfolio_state \<Rightarrow> bool" where
  "answered v s \<longleftrightarrow> v < vowsMade s \<and> (pending_vow v s \<noteq> (v \<in> fst ` set (transferResults s)))"

definition ownership_kept :: "portfolio_state \<Rightarrow> portfolio_state \<Rightarrow> bool" where
  "ownership_kept s t \<longleftrightarrow> portfolioId t = portfolioId s \<and> vowsMade s \<le> vowsMade t \<and> (\<forall>v. answered v s \<longrightarrow> answered v t) \<and>
     (\<forall>v r. (v, r) \<in> set (transferResults s) \<longrightarrow> (v, r) \<in> set (transferResults t)) \<and>
     (truthy (sourceAccountId s) \<longrightarrow> sourceAccountId t = sourceAccountId s)"

interpretation own: guarantee transfer_inv ownership_kept
  by unfold_locales (auto simp: ownership_kept_def intro: le_trans)

lemma transfer_inv_owned:
  assumes "transfer_inv s" "owned (ownership s) (vowsMade s) t"
  shows "transfer_inv t \<and> ownership_kept s t"
  using assms
  by (fastforce simp: transfer_inv_def owned_def ownership_def ownership_kept_def answered_def pending_vow_def)

lemma own_frame:
  assumes "transfer_inv s" "keeps (owned (ownership s) (vowsMade s)) m"
  shows "own.safe m s"
  using transfer_inv_owned [OF assms(1), of "snd (m s)"] keepsD [OF assms(2), of s]
  by (simp add: own.safe_def owned_def)

lemma settle_pending:
  assumes "transfer_inv s" "pendingOwnerTransfer s = Some t" "pendingOwnerTransfer u = None"
    and "transferResults u = transferResults s @ [(transferResolver t, r)]" "vowsMade u = vowsMade s"
    and "truthy (sourceAccountId s) \<Longrightarrow> sourceAccountId u = sourceAccountId s" "portfolioId u = portfolioId s"
  shows "transfer_inv u \<and> ownership_kept s u"
  using assms by (auto simp: transfer_inv_def ownership_kept_def answered_def pending_vow_def)

lemma ownership_simps [simp]:
  "transferResults (snd (publishStatus s)) = transferResults s" "vowsMade (snd (publishStatus s)) = vowsMade s"
  "pendingOwnerTransfer (snd (publishStatus s)) = pendingOwnerTransfer s"
  "sourceAccountId (snd (publishStatus s)) = sourceAccountId s" "portfolioId (snd (publishStatus s)) = portfolioId s"
  by (simp_all add: publishStatus_def)

lemma publish_run: "publishStatus s = (Inr (), snd (publishStatus s))"
  by (simp add: publishStatus_def)

lemma expire_run:
  assumes "pendingOwnerTransfer s = Some t"
  shows "\<exists>u. expireTransfer s = (Inr (), u) \<and> pendingOwnerTransfer u = None \<and> vowsMade u = vowsMade s \<and>
    sourceAccountId u = sourceAccountId s \<and> portfolioId u = portfolioId s \<and>
    transferResults u = transferResults s @ [(transferResolver t, TransferExpired (deadlineTimestampSeconds t))]"
  using assms by (simp add: expireTransfer_def settleTransfer_def publishStatus_def)

lemma own_expire: "transfer_inv s \<Longrightarrow> own.safe expireTransfer s"
proof (cases "pendingOwnerTransfer s")
  case (Some t)
  assume "transfer_inv s"
  then show ?thesis using expire_run [OF Some] settle_pending [OF _ Some] by (auto simp: own.safe_def)
qed (simp add: expireTransfer_def own.safe_same)

lemma own_wake: "transfer_inv s \<Longrightarrow> own.safe (wakeTransfer now) s"
  unfolding wakeTransfer_def
  by (intro own.safe_getsp_bindp own.safe_case_option own.safe_ret own.safe_whenp own_expire)

lemma own_cancel: "transfer_inv s \<Longrightarrow> own.safe cancelExpiry s"
  unfolding cancelExpiry_def callTimer_def
  by (intro own_frame owned_modify) (simp_all add: ownership_def)

lemma insist_run: "insistAgoricOwned s = (if truthy (sourceAccountId s) then Inl EvmOwned else Inr (), s)"
  by (simp add: insistAgoricOwned_def)

lemma complete_run:
  assumes "\<not> truthy (sourceAccountId s)" "pendingOwnerTransfer s = Some t" "sameEvmAddress (designated t) (Some signer)"
    and "now \<le> deadlineTimestampSeconds t"
  shows "\<exists>u. completeTransfer signer chain now s = (Inr (), u) \<and> pendingOwnerTransfer u = None \<and> vowsMade u = vowsMade s \<and>
    sourceAccountId u = Some (''eip155:'' @ chain @ '':'' @ toLowerCase signer) \<and> portfolioId u = portfolioId s \<and>
    transferResults u = transferResults s @ [(transferResolver t, TransferredTo (''eip155:'' @ chain @ '':'' @ toLowerCase signer))]"
  using assms
  by (simp add: completeTransfer_def insist_run settleTransfer_def cancelExpiry_def callTimer_def publishStatus_def Let_def)

lemma own_complete: "transfer_inv s \<Longrightarrow> own.safe (completeTransfer signer chain now) s"
proof -
  assume inv: "transfer_inv s"
  show ?thesis
  proof (cases "truthy (sourceAccountId s) \<or> pendingOwnerTransfer s = None")
    case True
    then show ?thesis using inv by (auto simp: completeTransfer_def insist_run own.safe_same)
  next
    case False
    then obtain t where t: "pendingOwnerTransfer s = Some t" "\<not> truthy (sourceAccountId s)" by auto
    show ?thesis
    proof (cases "sameEvmAddress (designated t) (Some signer) \<and> now \<le> deadlineTimestampSeconds t")
      case True
      then obtain u r where "completeTransfer signer chain now s = (Inr (), u)" "pendingOwnerTransfer u = None"
        "vowsMade u = vowsMade s" "transferResults u = transferResults s @ [(transferResolver t, r)]" "portfolioId u = portfolioId s"
        using complete_run [OF t(2,1)] by blast
      then show ?thesis using settle_pending [OF inv t(1), of u r] t(2) by (simp add: own.safe_def)
    next
      case late: False
      have "own.safe (thenp (requirep (sameEvmAddress (designated t) (Some signer)) WrongOwner)
          (thenp expireTransfer (thenp cancelExpiry (throw DeadlinePassed)))) s"
        using inv by (intro own.safe_requirep_thenp own.safe_thenp own_expire own_cancel own.safe_throw)
      moreover have "completeTransfer signer chain now s =
          thenp (requirep (sameEvmAddress (designated t) (Some signer)) WrongOwner)
            (thenp expireTransfer (thenp cancelExpiry (throw DeadlinePassed))) s"
        using late t by (auto simp: completeTransfer_def insist_run)
      ultimately show ?thesis by (simp add: own.safe_def)
    qed
  qed
qed


definition superseding :: "portfolio_state \<Rightarrow> (nat \<times> transfer_result) list" where
  "superseding s = (case pendingOwnerTransfer s of None \<Rightarrow> [] | Some t \<Rightarrow> [(transferResolver t, Superseded)])"

lemma initiate_run:
  assumes "\<not> truthy (sourceAccountId s)" "now \<le> dl" "dl \<le> now + MAX_YMAX_DEADLINE_OFFSET_SECONDS"
  shows "\<exists>u. initiateTransfer addr dl now s = (Inr (vowsMade s), u) \<and> vowsMade u = vowsMade s + 1 \<and>
    pendingOwnerTransfer u = Some \<lparr>designated = addr, deadlineTimestampSeconds = dl, transferResolver = vowsMade s\<rparr> \<and>
    sourceAccountId u = sourceAccountId s \<and> portfolioId u = portfolioId s \<and>
    transferResults u = transferResults s @ superseding s"
  using assms
  by (cases "pendingOwnerTransfer s")
    (simp_all add: initiateTransfer_def insist_run settleTransfer_def cancelExpiry_def callTimer_def publishStatus_def superseding_def)

lemma initiate_Inr:
  assumes "initiateTransfer addr dl now s = (Inr v, u)"
  shows "\<not> truthy (sourceAccountId s) \<and> now \<le> dl \<and> dl \<le> now + MAX_YMAX_DEADLINE_OFFSET_SECONDS"
  using assms by (auto simp: initiateTransfer_def insist_run split: if_splits)

lemma initiate_refused:
  assumes "\<not> (\<not> truthy (sourceAccountId s) \<and> now \<le> dl \<and> dl \<le> now + MAX_YMAX_DEADLINE_OFFSET_SECONDS)"
  shows "\<exists>e. initiateTransfer addr dl now s = (Inl e, s)"
  using assms by (auto simp: initiateTransfer_def insist_run)

lemma initiated_inv:
  assumes "transfer_inv s" "\<not> truthy (sourceAccountId s)" "vowsMade u = vowsMade s + 1"
    and "pendingOwnerTransfer u = Some t" "transferResolver t = vowsMade s"
    and "transferResults u = transferResults s @ superseding s" "portfolioId u = portfolioId s"
  shows "transfer_inv u \<and> ownership_kept s u \<and> answered (vowsMade s) u"
proof (cases "pendingOwnerTransfer s")
  case None
  then show ?thesis
    using assms by (fastforce simp: transfer_inv_def ownership_kept_def answered_def pending_vow_def superseding_def)
next
  case (Some old)
  then have "transferResolver old < vowsMade s" "transferResolver old \<notin> fst ` set (transferResults s)"
    using assms(1) by (auto simp: transfer_inv_def)
  then show ?thesis
    using assms Some by (fastforce simp: transfer_inv_def ownership_kept_def answered_def pending_vow_def superseding_def)
qed

lemma own_initiate: "transfer_inv s \<Longrightarrow> own.safe (initiateTransfer addr dl now) s"
proof (cases "\<not> truthy (sourceAccountId s) \<and> now \<le> dl \<and> dl \<le> now + MAX_YMAX_DEADLINE_OFFSET_SECONDS")
  case True
  assume "transfer_inv s"
  moreover obtain u where "initiateTransfer addr dl now s = (Inr (vowsMade s), u)" "vowsMade u = vowsMade s + 1"
    "pendingOwnerTransfer u = Some \<lparr>designated = addr, deadlineTimestampSeconds = dl, transferResolver = vowsMade s\<rparr>"
    "transferResults u = transferResults s @ superseding s" "portfolioId u = portfolioId s"
    using initiate_run True by blast
  ultimately show ?thesis using initiated_inv [of s u] True by (simp add: own.safe_def)
next
  case False
  assume "transfer_inv s"
  with initiate_refused [OF False, of addr] show ?thesis by (auto intro: own.safe_same)
qed

lemma own_call: "transfer_inv s \<Longrightarrow> own.safe (run_call pw x) s"
proof (cases "transfer_call x")
  case True
  assume "transfer_inv s"
  with True show ?thesis by (cases x) (simp_all add: own_complete own_wake)
qed (auto intro: own_frame owned_call)

section \<open>Steps\<close>

definition ownership_step :: "'g portfolio_run \<Rightarrow> 'g portfolio_run \<Rightarrow> bool" where
  "ownership_step r r' \<longleftrightarrow> transfer_inv (portfolio r') \<and> ownership_kept (portfolio r) (portfolio r')"

lemma ownership_call: "own.safe m (portfolio r) \<Longrightarrow> ownership_step r (call m r)"
  by (simp add: ownership_step_def call_def own.safe_def)

lemma ownership_spawn: "own.safe m (portfolio r) \<Longrightarrow> ownership_step r (spawn w m r)"
  by (auto simp: ownership_step_def spawn_def own.safe_def split: prod.split sum.split)

lemma ownership_turn:
  assumes "transfer_inv (portfolio r)"
  shows "ownership_step r (run_turn pw att now outcome w r)"
proof (cases "(pw, att, now, outcome, w, r)" rule: run_turn.cases)
  case (3 _ _ _ res0 caller n client who perms v _)
  let ?m = "grantDelivered n who perms v (if who = PortfolioPlannerAgent then Inr () else res0)"
  obtain res t where t: "?m (portfolio r) = (res, t)" by fastforce
  have "own.safe ?m (portfolio r)" using own_frame [OF assms owned_delegations(3)] .
  moreover have "run_turn pw att now outcome w r =
      r\<lparr>portfolio := t, turns := turns r @ [OwnerTurn (GrantReturned caller res)]\<rparr>"
    using 3 t by (simp split del: if_split)
  ultimately show ?thesis using own.safeD [of ?m, OF _ t] by (simp add: ownership_step_def)
qed (use assms in \<open>auto intro!: ownership_call ownership_spawn own_initiate own_frame owned_intros\<close>)

lemma ownership_any:
  assumes "transfer_inv (portfolio r)" "any_step pw att r r'"
  shows "ownership_step r r'"
proof -
  obtain a where "portfolio_step pw att a r r'" using assms(2) by (auto simp: any_step_def)
  then show ?thesis
  proof (cases rule: portfolio_step.cases)
    case (turn_step t now outcome)
    then show ?thesis
      using ownership_turn [of "r\<lparr>turns := remove1 t (turns r)\<rparr>" pw att now outcome t] assms(1)
      by (simp add: ownership_step_def)
  next
    case (watcher_step v chain res)
    have "own.safe (thenp (modifyp (\<lambda>s. s\<lparr>watchers := remove1 (v, chain) (watchers s)\<rparr>)) (accountWatcher res chain)) (portfolio r)"
      using assms(1) by (intro own_frame keeps_thenp owned_modify owned_intros) (simp_all add: ownership_def)
    then show ?thesis using watcher_step ownership_call by simp
  next
    case (open_step t amt chain)
    then show ?thesis using assms(1) by (auto intro!: ownership_spawn own_frame owned_intros)
  qed (use assms(1) in \<open>auto intro!: ownership_call ownership_spawn own_call own_frame owned_intros\<close>)
qed

interpretation own_run: machine new_portfolio "any_step pw att" "\<lambda>r. transfer_inv (portfolio r)" for pw att
proof unfold_locales
  show "transfer_inv (portfolio s)" if "new_portfolio s" for s :: "'a portfolio_run"
    using that by (auto simp: new_portfolio_def makePortfolio_def transfer_inv_def)
  show "transfer_inv (portfolio t)" if "any_step pw att s t" "transfer_inv (portfolio s)" for s t :: "'a portfolio_run"
    using ownership_any [OF that(2,1)] by (simp add: ownership_step_def)
qed

lemma ownership_steps:
  assumes "transfer_inv (portfolio r)" "(any_step pw att)\<^sup>*\<^sup>* r r'"
  shows "ownership_step r r'"
proof -
  from assms(2) show ?thesis
  proof (induction rule: rtranclp_induct)
    case base
    then show ?case using assms(1) own.G_refl by (simp add: ownership_step_def)
  next
    case (step u v)
    then show ?case using ownership_any own.G_trans unfolding ownership_step_def by blast
  qed
qed


section \<open>Transfers of ownership\<close>

text \<open>C29: The vow of a transfer is settled once: in every state reached after a transfer was
  initiated either it is the pending one and its vow unsettled, or its vow was settled exactly
  once, with the new owner, as superseded by a later transfer or as expired; and a vow that was
  settled keeps its result.\<close>

theorem transfer_settled_once:
  assumes "new_portfolio r0" "(any_step pw att)\<^sup>*\<^sup>* r0 r"
    and "initiateTransfer addr dl now (portfolio r) = (Inr v, s)"
    and "(any_step pw att)\<^sup>*\<^sup>* (r\<lparr>portfolio := s, turns := ws\<rparr>) r'"
  shows "(if pending_vow v (portfolio r') then v \<notin> fst ` set (transferResults (portfolio r'))
      else \<exists>!res. (v, res) \<in> set (transferResults (portfolio r'))) \<and>
    distinct (map fst (transferResults (portfolio r')))"
proof -
  have inv: "transfer_inv (portfolio r)" by (rule own_run.inv_reachable [OF assms(1,2)])
  have ok: "\<not> truthy (sourceAccountId (portfolio r)) \<and> now \<le> dl \<and> dl \<le> now + MAX_YMAX_DEADLINE_OFFSET_SECONDS"
    using initiate_Inr [OF assms(3)] .
  obtain u where u: "initiateTransfer addr dl now (portfolio r) = (Inr (vowsMade (portfolio r)), u)"
    "vowsMade u = vowsMade (portfolio r) + 1"
    "pendingOwnerTransfer u = Some \<lparr>designated = addr, deadlineTimestampSeconds = dl, transferResolver = vowsMade (portfolio r)\<rparr>"
    "transferResults u = transferResults (portfolio r) @ superseding (portfolio r)" "portfolioId u = portfolioId (portfolio r)"
    using initiate_run ok by blast
  have s: "transfer_inv s" "answered v s" using initiated_inv [OF inv, of u] ok u assms(3) by auto
  then have "ownership_step (r\<lparr>portfolio := s, turns := ws\<rparr>) r'"
    by (intro ownership_steps [OF _ assms(4)]) simp
  then have t: "transfer_inv (portfolio r')" "answered v (portfolio r')"
    using s(2) by (simp_all add: ownership_step_def ownership_kept_def)
  then have d: "distinct (map fst (transferResults (portfolio r')))" by (simp add: transfer_inv_def)
  have "\<exists>!res. (v, res) \<in> set (transferResults (portfolio r'))" if "v \<in> fst ` set (transferResults (portfolio r'))"
    using that eq_key_imp_eq_value [OF d] by force
  with t(2) d show ?thesis by (auto simp: answered_def)
qed

text \<open>C30: A transfer completes only as designated: completing one succeeds exactly when the
  portfolio is not owned by an EVM account, a transfer is pending, the signer's address is the
  designated one and its deadline has not passed. It then records that account on the chain of
  the message as owner and ends the transfer; every other attempt returns an error and leaves
  the owner as it was, and the transfer too unless its deadline has passed.\<close>

theorem completeTransfer_decided:
  "if \<not> truthy (sourceAccountId s) \<and> (\<exists>t. pendingOwnerTransfer s = Some t \<and>
       sameEvmAddress (designated t) (Some signer) \<and> now \<le> deadlineTimestampSeconds t)
   then \<exists>u. completeTransfer signer chain now s = (Inr (), u) \<and> pendingOwnerTransfer u = None \<and>
     sourceAccountId u = Some (''eip155:'' @ chain @ '':'' @ toLowerCase signer)
   else \<exists>e u. completeTransfer signer chain now s = (Inl e, u) \<and> sourceAccountId u = sourceAccountId s \<and>
     (pendingOwnerTransfer u = pendingOwnerTransfer s \<or>
      (\<exists>t. pendingOwnerTransfer s = Some t \<and> deadlineTimestampSeconds t < now \<and> pendingOwnerTransfer u = None))"
proof (cases "truthy (sourceAccountId s) \<or> pendingOwnerTransfer s = None")
  case True
  then show ?thesis by (auto simp: completeTransfer_def insist_run)
next
  case False
  then obtain t where t: "pendingOwnerTransfer s = Some t" "\<not> truthy (sourceAccountId s)" by auto
  obtain u where "expireTransfer s = (Inr (), u)" "pendingOwnerTransfer u = None" "sourceAccountId u = sourceAccountId s"
    using expire_run [OF t(1)] by blast
  then have late: "\<exists>e u. completeTransfer signer chain now s = (Inl e, u) \<and> sourceAccountId u = sourceAccountId s \<and>
      pendingOwnerTransfer u = None"
    if "sameEvmAddress (designated t) (Some signer)" "deadlineTimestampSeconds t < now"
    using that t by (auto simp: completeTransfer_def insist_run cancelExpiry_def callTimer_def)
  have wrong: "completeTransfer signer chain now s = (Inl WrongOwner, s)" if "\<not> sameEvmAddress (designated t) (Some signer)"
    using that t by (simp add: completeTransfer_def insist_run)
  show ?thesis
  proof (cases "sameEvmAddress (designated t) (Some signer)")
    case True
    show ?thesis
    proof (cases "now \<le> deadlineTimestampSeconds t")
      case now: True
      then show ?thesis using t True complete_run [OF t(2,1) True now] by auto
    next
      case False
      then show ?thesis using t True late [OF True] by auto
    qed
  next
    case False
    then show ?thesis using t wrong by auto
  qed
qed

text \<open>C31: An EVM owner is final: once a portfolio belongs to an EVM account, in every later state
  it belongs to the same account, every offer and transfer by an Agoric owner is refused with
  nothing changed, and no transfer can complete.\<close>

theorem evm_owner_is_final:
  assumes "new_portfolio r0" "(any_step pw att)\<^sup>*\<^sup>* r0 r" "truthy (sourceAccountId (portfolio r))"
    and "(any_step pw att)\<^sup>*\<^sup>* r r'"
  shows "sourceAccountId (portfolio r') = sourceAccountId (portfolio r) \<and>
    refuses (handleRebalance args) (portfolio r') \<and> refuses (handleSimpleRebalance args) (portfolio r') \<and>
    refuses (handleDeposit amt steps) (portfolio r') \<and> refuses (handleWithdraw amt) (portfolio r') \<and>
    refuses (handleTransferOwnership addr dl) (portfolio r') \<and> refuses (initiateTransfer addr dl now) (portfolio r') \<and>
    refuses (completeTransfer signer chain now) (portfolio r')"
proof -
  have "ownership_step r r'"
    by (rule ownership_steps [OF own_run.inv_reachable [OF assms(1,2)] assms(4)])
  then have "sourceAccountId (portfolio r') = sourceAccountId (portfolio r)"
    using assms(3) by (simp add: ownership_step_def ownership_kept_def)
  with assms(3) show ?thesis
    by (simp add: refuses_def handleRebalance_def handleSimpleRebalance_def handleDeposit_def handleWithdraw_def
        handleTransferOwnership_def initiateTransfer_def completeTransfer_def insist_run)
qed


section \<open>A transfer, carried through\<close>

definition ex_agoric :: "nat portfolio_run" where
  "ex_agoric = \<lparr>portfolio = makePortfolio 7 None, turns = []\<rparr>"

lemma ex_agoric_new: "new_portfolio ex_agoric"
  by (auto simp: new_portfolio_def ex_agoric_def)

definition ex_address :: string where
  "ex_address = ''0x00000000000000000000000000000000000000aB''"

definition ex_initiated :: portfolio_state where
  "ex_initiated = snd (initiateTransfer ex_address 200 100 (portfolio ex_agoric))"

lemma ex_initiate: "initiateTransfer ex_address 200 100 (portfolio ex_agoric) = (Inr 0, ex_initiated)"
proof -
  have "fst (initiateTransfer ex_address 200 100 (portfolio ex_agoric)) = Inr 0" by code_simp
  then show ?thesis unfolding ex_initiated_def by (metis prod.collapse)
qed

definition ex_completed :: "nat portfolio_run" where
  "ex_completed = call (run_call ex_ports (CompleteTransfer ex_address ''1'' 150)) (ex_agoric\<lparr>portfolio := ex_initiated, turns := []\<rparr>)"

lemma ex_completed_reached:
  "(any_step ex_ports ex_attestation)\<^sup>*\<^sup>* (ex_agoric\<lparr>portfolio := ex_initiated, turns := []\<rparr>) ex_completed"
  unfolding ex_completed_def by (intro r_into_rtranclp any_step_call) simp

lemma ex_completed_results:
  "map fst (transferResults (portfolio ex_completed)) = [0] \<and> pendingOwnerTransfer (portfolio ex_completed) = None"
  by code_simp

lemma transfer_settled_once_witness:
  "(\<exists>!res. (0, res) \<in> set (transferResults (portfolio ex_completed))) \<and> \<not> pending_vow 0 (portfolio ex_completed)"
  using transfer_settled_once [OF ex_agoric_new rtranclp.rtrancl_refl ex_initiate ex_completed_reached] ex_completed_results
  by (simp add: pending_vow_def)

lemma evm_owner_is_final_witness:
  "sourceAccountId (portfolio ex_granted) = Some ''eip155:1:0xab'' \<and>
   refuses (initiateTransfer ex_address 200 100) (portfolio ex_granted)"
proof -
  have "sourceAccountId (portfolio ex_fresh) = Some ''eip155:1:0xab''" by (simp add: ex_fresh_def makePortfolio_def)
  then show ?thesis
    using evm_owner_is_final [OF ex_fresh_new rtranclp.rtrancl_refl _ ex_granted_reached] by (simp add: truthy_def)
qed


section \<open>Deposits from an EVM account\<close>

text \<open>The address funds end at: the account on record, or else the predicted one.\<close>

definition account_on :: "string \<Rightarrow> portfolio_state \<Rightarrow> string option" where
  "account_on chain s = (case map_of (accounts s) chain of
     Some info \<Rightarrow> (case info_detail info of GmpAccount _ remote _ \<Rightarrow> Some remote | _ \<Rightarrow> None) | None \<Rightarrow> None)"

definition representatives :: "portfolio_ports \<Rightarrow> string \<Rightarrow> portfolio_state \<Rightarrow> representative set" where
  "representatives pw chain s = {c. routerConfig pw chain s = Some c \<or> depositFactoryConfig pw chain s = Some c}"

lemma representativeOf_Inr:
  assumes "representativeOf pw chain rep True s = Inr (remote, cfg)"
  shows "(case account_on chain s of Some a \<Rightarrow> remote = a
      | None \<Rightarrow> map_of (accounts s) chain = None \<and> (\<exists>c \<in> representatives pw chain s. predicted c = Inr remote)) \<and>
    (\<forall>c. cfg = Some c \<and> sameEvmAddress rep (Some (rep_address c)) \<longrightarrow>
       c \<in> representatives pw chain s \<and> (\<exists>e. predicted c = Inr e \<and> (e = remote \<or> sameEvmAddress remote (Some e))))"
proof (cases "map_of (accounts s) chain")
  case None
  from assms None obtain c where c: "cfg = Some c" "predicted c = Inr remote" "c \<in> representatives pw chain s"
    by (auto simp: representativeOf_def representatives_def Let_def bindr_Inr_iff List.map_filter_def
        split: option.splits if_splits)
  then show ?thesis using None by (auto simp: account_on_def)
next
  case (Some info)
  then show ?thesis
    using assms
    by (auto simp: representativeOf_def representatives_def account_on_def vetStrictly_def Let_def bindr_Inr_iff requirer_Inr
        split: account_detail.splits option.splits if_splits)
qed

text \<open>C32: Deposits reach the portfolio's account: when the strict check of a deposit's spender
  succeeds, the chain is known and the spender is the portfolio's account there, or a configured
  router or factory for which the address predicted for this portfolio is that account; the
  account is the one on record if there is one, and the predicted one otherwise.\<close>

theorem deposits_reach_the_account:
  assumes "validateRepresentativeInfo pw eip155Id rep True s = (Inr u, t)"
  shows "t = s \<and> (\<exists>chain remote. eip155ChainIdToAxelarChain pw eip155Id = Some chain \<and>
    (case account_on chain s of Some a \<Rightarrow> remote = a
      | None \<Rightarrow> map_of (accounts s) chain = None \<and> (\<exists>c \<in> representatives pw chain s. predicted c = Inr remote)) \<and>
    (sameEvmAddress rep (Some remote) \<or>
     (\<exists>c \<in> representatives pw chain s. sameEvmAddress rep (Some (rep_address c)) \<and>
        (\<exists>e. predicted c = Inr e \<and> (e = remote \<or> sameEvmAddress remote (Some e))))))"
proof -
  obtain chain remote cfg where c: "eip155ChainIdToAxelarChain pw eip155Id = Some chain" "t = s"
    "representativeOf pw chain rep True s = Inr (remote, cfg)"
    "sameEvmAddress rep (map_option rep_address cfg) \<or> sameEvmAddress rep (Some remote)"
    using assms by (auto simp: validateRepresentativeInfo_def split: option.splits prod.splits sum.splits if_splits)
  have n: "\<not> sameEvmAddress rep None" by (simp add: sameEvmAddress_def)
  from representativeOf_Inr [OF c(3)] c n show ?thesis by (cases cfg) auto
qed


definition ex_local :: portfolio_state where
  "ex_local = snd (initAccountInfo \<lparr>info_chain = ''agoric'', info_err = None,
     info_detail = AgoricAccount (''agoric-3'', ''agoric1lca'') (''agoric-3'', ''agoric1in'')\<rparr> (portfolio ex_fresh))"

lemma deposits_reach_the_account_witness:
  "fst (validateRepresentativeInfo ex_ports ''1'' ''0xdf'' True ex_local) = Inr () \<and>
   fst (validateRepresentativeInfo ex_ports ''1'' ''0xee'' True ex_local) = Inl BadRepresentative \<and>
   (\<exists>remote. \<exists>c \<in> representatives ex_ports ''Ethereum'' ex_local. predicted c = Inr remote)"
proof -
  let ?m = "validateRepresentativeInfo ex_ports ''1'' ''0xdf'' True ex_local"
  have f: "fst ?m = Inr ()" "fst (validateRepresentativeInfo ex_ports ''1'' ''0xee'' True ex_local) = Inl BadRepresentative"
    by code_simp+
  then have m: "?m = (Inr (), snd ?m)" by (metis prod.collapse)
  have "map_of (accounts ex_local) ''Ethereum'' = None" by code_simp
  then have "account_on ''Ethereum'' ex_local = None" by (simp add: account_on_def)
  moreover have "eip155ChainIdToAxelarChain ex_ports ''1'' = Some ''Ethereum''" by (simp add: ex_ports_def)
  ultimately have "\<exists>remote. \<exists>c \<in> representatives ex_ports ''Ethereum'' ex_local. predicted c = Inr remote"
    using deposits_reach_the_account [OF m] by auto
  with f show ?thesis by blast
qed

end
