(* ===== verification/PortfolioCaveats.thy ===== *)
theory PortfolioCaveats
  imports OwnershipFacts
begin

text \<open>
  Runs of a portfolio in which the code does not do what its comments, its readers or its other
  parts rely on.
\<close>

text \<open>
  An owner's rebalance message may name an instrument the contract does not know. The flow it
  starts is published and does not match the shape the status is read with, although a delegate
  could not have set such a target.
\<close>

definition ex_unknown :: portfolio_state where
  "ex_unknown = snd (evmRebalance (Some [(''Nowhere'', 1)]) None (portfolio ex_fresh))"

lemma unknown_instrument_breaks_status:
  "fst (evmRebalance (Some [(''Nowhere'', 1)]) None (portfolio ex_fresh)) = Inr 1 \<and>
   portfolioStatus ex_unknown \<in> set (reports ex_unknown) \<and> \<not> PortfolioStatusShapeExt (portfolioStatus ex_unknown)"
proof -
  have "fst (evmRebalance (Some [(''Nowhere'', 1)]) None (portfolio ex_fresh)) = Inr 1" by code_simp
  moreover have "portfolioStatus ex_unknown \<in> set (reports ex_unknown)" by code_simp
  moreover have "\<not> PortfolioStatusShapeExt (portfolioStatus ex_unknown)" by code_simp
  ultimately show ?thesis by blast
qed

text \<open>
  An owner may grant a delegation to the name that stands for the planner. It becomes the
  planner's client, yet the portfolio does not know it as its planner agent, so that the owner
  can neither change nor revoke it and no auto-feature is enabled for it.
\<close>

definition ex_usurped :: "nat portfolio_run" where
  "ex_usurped =
     (let turn = (\<lambda>w r. run_turn ex_ports ex_attestation 0 (Inr ()) w (r\<lparr>turns := remove1 w (turns r)\<rparr>)) in
      turn (OwnerTurn (GrantDeliver EvmGrant 1 ex_client PortfolioPlannerAgent ex_full 1))
     (turn (OwnerTurn (GrantBegin PortfolioPlannerAgent ex_full))
     (spawn (\<lambda>a. [OwnerTurn a]) (evmGrant PortfolioPlannerAgent ex_full) ex_fresh)))"

lemma owner_grants_to_planner:
  "plannerClient (portfolio ex_usurped) = Some ex_client \<and> plannerAgentId (portfolio ex_usurped) = None \<and>
   fst (isActive ex_client (portfolio ex_usurped)) = Inr True \<and>
   fst (evmRevoke 1 (portfolio ex_usurped)) = Inl PlannerDelegation \<and>
   fst (evmChangePermissions 1 ex_full (portfolio ex_usurped)) = Inl PlannerDelegation"
proof -
  have "plannerClient (portfolio ex_usurped) = Some ex_client" "plannerAgentId (portfolio ex_usurped) = None" by code_simp+
  moreover have "fst (isActive ex_client (portfolio ex_usurped)) = Inr True" by code_simp
  moreover have "fst (evmRevoke 1 (portfolio ex_usurped)) = Inl PlannerDelegation"
    "fst (evmChangePermissions 1 ex_full (portfolio ex_usurped)) = Inl PlannerDelegation" by code_simp+
  ultimately show ?thesis by blast
qed

text \<open>
  The watcher of an account vow clears the pending account of its chain, not of its vow. When
  an account was released and reserved again before the watcher of the first vow runs, the new
  reservation is lost and its vow stays unsettled when the account becomes ready.
\<close>

definition ex_remote :: account_info where
  "ex_remote = \<lparr>info_chain = ''Ethereum'', info_err = None, info_detail = GmpAccount ''eip155:1'' ''0x1'' None\<rparr>"

definition ex_stale :: portfolio_state where
  "ex_stale =
     snd (thenp (reserveAccountState ''Ethereum'')
         (thenp (releaseAccount ''Ethereum'' startingNewFlow)
         (thenp (reserveAccountState ''Ethereum'')
         (thenp (accountWatcher (AccountFailed startingNewFlow) ''Ethereum'')
          (resolveAccount ex_remote)))) (portfolio ex_fresh))"

lemma stale_watcher_loses_vow:
  "vowsMade ex_stale = 2 \<and> map fst (accountVows ex_stale) = [0] \<and> accountsPending ex_stale = [] \<and>
   map fst (accounts ex_stale) = [''Ethereum'']"
  by code_simp

end
