(* ===== verification/NonceManager.thy ===== *)
theory NonceManager
  imports Store "HOL-Library.Product_Lexorder"
begin

text \<open>
  The nonces of signed wallet messages, \<open>makeNonceManager\<close> of
  \<open>portfolio-contract/src/evm-wallet-handler.exo.ts\<close>: a nonce is kept from its use to its
  deadline in two sets of encoded keys, one ordered by deadline, one by owner. The encoding of
  an array (\<open>@endo/marshal\<close>) preserves order and makes the encoding of the first elements a
  prefix of the whole, so a key is modelled by the tuple it encodes, in lexicographic order.
\<close>

section \<open>The two sets of keys\<close>

record nonce_key =
  walletOwner :: string
  keyNonce :: int
  keyDeadline :: int

type_synonym deadline_key = "int \<times> string \<times> int"
type_synonym owner_key = "string \<times> int \<times> int"

record nonce_stores =
  noncesByDeadline :: "(deadline_key, unit) mapstore"
  noncesByOwner :: "(owner_key, unit) mapstore"

type_synonym 'a nonce_method = "(nonce_stores, 'a) proc"

definition encodeKeyByDeadline :: "nonce_key \<Rightarrow> deadline_key" where
  "encodeKeyByDeadline key = (keyDeadline key, walletOwner key, keyNonce key)"

fun decodeKeyByDeadline :: "deadline_key \<Rightarrow> nonce_key" where
  "decodeKeyByDeadline (dl, owner, n) = \<lparr>walletOwner = owner, keyNonce = n, keyDeadline = dl\<rparr>"

definition encodeKeyByOwner :: "nonce_key \<Rightarrow> owner_key" where
  "encodeKeyByOwner key = (walletOwner key, keyNonce key, keyDeadline key)"

definition getByOwnerKeyPrefix :: "nonce_key \<Rightarrow> string \<times> int" where
  "getByOwnerKeyPrefix key = (walletOwner key, keyNonce key)"

fun key_prefix :: "owner_key \<Rightarrow> string \<times> int" where
  "key_prefix (owner, n, dl) = (owner, n)"

definition put_byDeadline :: "(deadline_key, unit) mapstore \<Rightarrow> nonce_stores \<Rightarrow> nonce_stores" where
  "put_byDeadline m s = s\<lparr>noncesByDeadline := m\<rparr>"

definition put_byOwner :: "(owner_key, unit) mapstore \<Rightarrow> nonce_stores \<Rightarrow> nonce_stores" where
  "put_byOwner m s = s\<lparr>noncesByOwner := m\<rparr>"

text \<open>The first key at or above the prefix decides: it has the prefix, or none has.\<close>

definition insertNonce :: "nonce_key \<Rightarrow> unit nonce_method" where
  "insertNonce key =
     (let candidatePrefix = getByOwnerKeyPrefix key in
      bindp (getsp (\<lambda>s. filter (\<lambda>k. candidatePrefix \<le> key_prefix k) (store_keys (noncesByOwner s)))) (\<lambda>candidates.
      thenp (case candidates of
               [] \<Rightarrow> ret ()
             | k # _ \<Rightarrow> if key_prefix k \<noteq> candidatePrefix then ret () else throw NonceUsed)
     (modifyp (\<lambda>s. s\<lparr>noncesByDeadline := set_add (noncesByDeadline s) (encodeKeyByDeadline key),
                     noncesByOwner := set_add (noncesByOwner s) (encodeKeyByOwner key)\<rparr>))))"

fun removeExpiredKeys :: "int \<Rightarrow> deadline_key list \<Rightarrow> unit nonce_method" where
  "removeExpiredKeys currentTime [] = ret ()"
| "removeExpiredKeys currentTime (encodedKey # ks) =
     (let key = decodeKeyByDeadline encodedKey in
      if currentTime \<le> keyDeadline key then ret ()
      else thenp (writeStore noncesByDeadline put_byDeadline (\<lambda>m. store_delete m (encodeKeyByDeadline key)))
          (thenp (writeStore noncesByOwner put_byOwner (\<lambda>m. store_delete m (encodeKeyByOwner key)))
          (removeExpiredKeys currentTime ks)))"

definition removeExpiredNonces :: "int \<Rightarrow> unit nonce_method" where
  "removeExpiredNonces currentTime =
     bindp (getsp (\<lambda>s. store_keys (noncesByDeadline s))) (removeExpiredKeys currentTime)"

section \<open>The invariant\<close>

definition live :: "nonce_stores \<Rightarrow> string \<Rightarrow> int \<Rightarrow> int \<Rightarrow> bool" where
  "live s owner n dl \<longleftrightarrow> store_has (noncesByOwner s) (owner, n, dl)"

text \<open>Both sets hold the same keys, and no owner has a nonce twice.\<close>

definition nonces_ok :: "nonce_stores \<Rightarrow> bool" where
  "nonces_ok s \<longleftrightarrow> store_ok (noncesByDeadline s) \<and> store_ok (noncesByOwner s) \<and>
     (\<forall>owner n dl. store_has (noncesByDeadline s) (dl, owner, n) \<longleftrightarrow> live s owner n dl) \<and>
     (\<forall>owner n dl dl'. live s owner n dl \<longrightarrow> live s owner n dl' \<longrightarrow> dl = dl')"

definition used :: "nonce_stores \<Rightarrow> string \<Rightarrow> int \<Rightarrow> bool" where
  "used s owner n \<longleftrightarrow> (\<exists>dl. live s owner n dl)"

lemma store_has_keys: "store_has m k \<longleftrightarrow> k \<in> set (store_keys m)"
  by (auto simp: store_has_def store_keys_def map_of_eq_None_iff)

text \<open>In a sorted list the first key at or above a prefix has the prefix if any has.\<close>

lemma key_prefix_mono: "a \<le> b \<Longrightarrow> key_prefix a \<le> key_prefix b"
  by (cases a; cases b) (auto simp: less_eq_prod_def less_prod_def)

lemma first_candidate:
  assumes "sorted ks"
  shows "(case filter (\<lambda>k. p \<le> key_prefix k) ks of [] \<Rightarrow> False | k # _ \<Rightarrow> key_prefix k = p)
    \<longleftrightarrow> (\<exists>k \<in> set ks. key_prefix k = p)"
proof (cases "filter (\<lambda>k. p \<le> key_prefix k) ks")
  case Nil
  then show ?thesis by (auto simp: filter_empty_conv)
next
  case (Cons k rest)
  have k: "k \<in> set ks" "p \<le> key_prefix k"
    using arg_cong [OF Cons, of set] by auto
  have "sorted (k # rest)" using assms Cons by (metis sorted_wrt_filter)
  then have "key_prefix k \<le> key_prefix k'" if "k' \<in> set ks" "key_prefix k' = p" for k'
  proof -
    have "k' \<in> set (k # rest)" using that Cons [symmetric] by simp
    then show ?thesis using \<open>sorted (k # rest)\<close> by (auto intro: key_prefix_mono)
  qed
  then show ?thesis using k Cons by force
qed

lemma insertNonce_run:
  assumes "nonces_ok s"
  shows "insertNonce key s =
    (if used s (walletOwner key) (keyNonce key) then (Inl NonceUsed, s)
     else (Inr (), s\<lparr>noncesByDeadline := set_add (noncesByDeadline s) (encodeKeyByDeadline key),
                     noncesByOwner := set_add (noncesByOwner s) (encodeKeyByOwner key)\<rparr>))"
proof -
  let ?p = "getByOwnerKeyPrefix key" and ?ks = "store_keys (noncesByOwner s)"
  have "sorted ?ks" using assms by (simp add: nonces_ok_def store_ok_def store_keys_def strict_sorted_iff)
  note c = first_candidate [OF this, of ?p]
  have u: "used s (walletOwner key) (keyNonce key) \<longleftrightarrow> (\<exists>k \<in> set ?ks. key_prefix k = ?p)"
    by (force simp: used_def live_def store_has_keys getByOwnerKeyPrefix_def)
  show ?thesis
    using c unfolding u insertNonce_def Let_def by (auto split: list.splits)
qed

lemma insertNonce_ok: "nonces_ok s \<Longrightarrow> nonces_ok (snd (insertNonce key s))"
  by (subst insertNonce_run, assumption)
    (auto simp: nonces_ok_def live_def used_def set_add_def encodeKeyByDeadline_def encodeKeyByOwner_def)

lemma insertNonce_live:
  assumes "nonces_ok s" "insertNonce key s = (Inr u, t)"
  shows "\<not> used s (walletOwner key) (keyNonce key)"
    "live t owner n dl \<longleftrightarrow> live s owner n dl \<or> (owner, n, dl) = (walletOwner key, keyNonce key, keyDeadline key)"
  using assms by (auto simp: insertNonce_run live_def encodeKeyByOwner_def split: if_splits)

section \<open>Expiry\<close>

text \<open>Removing stops at the first key that is not expired; as the keys are in the order of
  their deadlines, nothing expired is left.\<close>

lemma nonces_ok_delete:
  assumes "nonces_ok s" "live s owner n dl"
  shows "nonces_ok (put_byOwner (drop_entry (owner, n, dl) (noncesByOwner s))
      (put_byDeadline (drop_entry (dl, owner, n) (noncesByDeadline s)) s))"
  using assms unfolding nonces_ok_def live_def put_byOwner_def put_byDeadline_def by auto

lemma removeExpiredKeys_run:
  assumes "nonces_ok s" "sorted_wrt (<) ks" "\<And>dl owner n. (dl, owner, n) \<in> set ks \<Longrightarrow> live s owner n dl"
  shows "\<exists>t. removeExpiredKeys now ks s = (Inr (), t) \<and> nonces_ok t \<and>
    (\<forall>owner n dl. live t owner n dl \<longleftrightarrow> live s owner n dl \<and> \<not> ((dl, owner, n) \<in> set ks \<and> dl < now))"
  using assms
proof (induction ks arbitrary: s)
  case Nil
  then show ?case by simp
next
  case (Cons k ks)
  obtain dl owner n where k: "k = (dl, owner, n)" by (cases k)
  show ?case
  proof (cases "now \<le> dl")
    case True
    have "dl \<le> dl'" if "(dl', owner', n') \<in> set ks" for dl' owner' n'
    proof -
      have "k < (dl', owner', n')" using Cons.prems(2) that by simp
      then show ?thesis unfolding k by (auto simp: less_prod_def)
    qed
    then show ?thesis using True k Cons.prems(1) by fastforce
  next
    case False
    let ?s = "put_byOwner (drop_entry (owner, n, dl) (noncesByOwner s))
      (put_byDeadline (drop_entry (dl, owner, n) (noncesByDeadline s)) s)"
    have lv: "live s owner n dl" using Cons.prems(3) k by simp
    then have has: "store_has (noncesByDeadline s) (dl, owner, n)" "store_has (noncesByOwner s) (owner, n, dl)"
      using Cons.prems(1) by (auto simp: nonces_ok_def live_def)
    have live': "live ?s o' n' d' \<longleftrightarrow> live s o' n' d' \<and> (o', n', d') \<noteq> (owner, n, dl)" for o' n' d'
      by (auto simp: live_def put_byOwner_def put_byDeadline_def)
    have "live ?s o' n' d'" if "(d', o', n') \<in> set ks" for d' o' n'
      using that Cons.prems(2,3) k live' by force
    then obtain t where t: "removeExpiredKeys now ks ?s = (Inr (), t)" "nonces_ok t"
      "\<forall>o' n' d'. live t o' n' d' \<longleftrightarrow> live ?s o' n' d' \<and> \<not> ((d', o', n') \<in> set ks \<and> d' < now)"
      using Cons.IH [OF nonces_ok_delete [OF Cons.prems(1) lv]] Cons.prems(2) by force
    have "removeExpiredKeys now (k # ks) s = (Inr (), t)"
      using False has t(1) by (simp add: k store_delete_def encodeKeyByDeadline_def encodeKeyByOwner_def
          put_byOwner_def put_byDeadline_def)
    then show ?thesis using t live' False k by auto
  qed
qed

lemma removeExpired_run:
  assumes "nonces_ok s"
  shows "\<exists>t. removeExpiredNonces now s = (Inr (), t) \<and> nonces_ok t \<and>
    (\<forall>owner n dl. live t owner n dl \<longleftrightarrow> live s owner n dl \<and> now \<le> dl)"
proof -
  have "sorted_wrt (<) (store_keys (noncesByDeadline s))" "\<And>dl owner n. (dl, owner, n) \<in> set (store_keys (noncesByDeadline s)) \<longleftrightarrow> live s owner n dl"
    using assms by (auto simp: nonces_ok_def store_ok_def store_keys_def [symmetric] store_has_keys)
  then show ?thesis
    using removeExpiredKeys_run [OF assms, of "store_keys (noncesByDeadline s)" now]
    unfolding removeExpiredNonces_def by fastforce
qed

end
