(* ===== verification/EvmWallet.thy ===== *)
theory EvmWallet
  imports NonceManager OwnershipFacts
begin

text \<open>
  The wallets the contract keeps for EVM accounts: the message handler and the operation
  manager of \<open>portfolio-contract/src/evm-wallet-handler.exo.ts\<close>, the extraction of the details
  of a message (\<open>orchestration/src/utils/eip712-message-handler.ts\<close>), and the powers of the
  contract they use, \<open>evmPortfolioPowers\<close> of \<open>portfolio.contract.ts\<close>. A method is split where
  the code awaits; what it waits for is a turn, run later in any order with the other turns.
\<close>

section \<open>Messages\<close>

text \<open>The operations; the three ways to open a portfolio differ in their optional data only.\<close>

datatype operation =
    OpOpenPortfolio "(string \<times> int) list" "auto_features option" "(string \<times> wire_permissions) option"
  | OpRebalance int
  | OpSetTargetAllocation "(string \<times> int) list" int
  | OpDeposit int
  | OpWithdraw int string int
  | OpGrant string wire_permissions int
  | OpChangePermissions int wire_permissions int
  | OpRevoke int int
  | OpSetAutoFeatures auto_features int
  | OpAcceptOwnership int

text \<open>A message as validated against its types: standalone, or the witness of a deposit permit.\<close>

record typed_message =
  tm_operation :: operation
  tm_chainId :: string
  tm_contract :: string
  tm_permit :: "(string \<times> int \<times> string) option"
  tm_nonce :: int
  tm_deadline :: int

text \<open>What the handler works on: the details of a message and its signer.\<close>

record operation_details =
  od_operation :: operation
  od_chainId :: string
  od_contract :: string
  od_permit :: "permit_details option"

record envelope = operation_details +
  env_address :: string
  env_nonce :: int
  env_deadline :: int

text \<open>Hashing, signature recovery, checksum addresses and the validation of typed data are
  parameters; \<open>'m\<close> is the signed data as submitted.\<close>

record 'm wallet_ports =
  hashTypedData :: "'m \<Rightarrow> string"
  recoverAddress :: "string \<Rightarrow> 'm \<Rightarrow> error + string"
  getAddress :: "string \<Rightarrow> error + string"
  validateTypedData :: "'m \<Rightarrow> error + typed_message"

definition extractPermitDetails :: "typed_message \<Rightarrow> string \<Rightarrow> permit_details option" where
  "extractPermitDetails m owner =
     map_option (\<lambda>(token, amt, spender).
       \<lparr>permit_chainId = tm_chainId m, permit_token = token, permit_amount = amt, permit_spender = spender,
        permit_owner = owner\<rparr>) (tm_permit m)"

text \<open>The domain of a permit witness is the one of its spender.\<close>

definition extractOperationDetails :: "typed_message \<Rightarrow> string \<Rightarrow> envelope" where
  "extractOperationDetails m tokenOwner =
     \<lparr>od_operation = tm_operation m, od_chainId = tm_chainId m,
      od_contract = (case tm_permit m of None \<Rightarrow> tm_contract m | Some (_, _, spender) \<Rightarrow> spender),
      od_permit = extractPermitDetails m tokenOwner,
      env_address = tokenOwner, env_nonce = tm_nonce m, env_deadline = tm_deadline m\<rparr>"

section \<open>State\<close>

datatype update_status = UpdatePending | UpdateOk | UpdateError error

record message_update =
  upd_address :: string
  upd_nonce :: int
  upd_deadline :: int
  upd_status :: update_status

text \<open>A call on the EVM facet of a portfolio.\<close>

datatype evm_request =
    RequestCall portfolio_call
  | RequestGrant string permissions
  | RequestFeatures auto_features

record open_request =
  open_target :: target_allocation
  open_chain :: string
  open_amount :: int
  open_source :: string
  open_features :: "auto_features option"
  open_grantee :: "(string \<times> permissions) option"

text \<open>What a message being handled waits for. A portfolio is held by its number.\<close>

datatype wallet_turn =
    TimeTurn envelope
  | NodeTurn envelope
  | OperateTurn envelope
  | DomainTurn envelope "nat option"
  | SwitchTurn envelope "nat option" "error + unit"
  | CallTurn envelope nat evm_request
  | VowTurn envelope
  | SettledTurn envelope "error + unit"
  | AcceptTurn envelope int
  | CompleteTurn envelope nat
  | OpeningTurn envelope "(string \<times> int) list" "auto_features option" "(string \<times> wire_permissions) option" permit_details
  | PreflightTurn envelope open_request
  | FeaturesTurn envelope open_request nat
  | GranteeTurn envelope open_request nat
  | AttachTurn envelope nat
  | PathsTurn envelope nat "nat list"

type_synonym wallet = "(int, nat) mapstore"

record 'g wallet_state =
  chainTime :: int
  nonceStores :: nonce_stores
  walletByAddress :: "(string, wallet) mapstore"
  portfolios :: "(nat, 'g portfolio_run) mapstore"
  walletTurns :: "wallet_turn list"
  openFlows :: "(nat \<times> open_request) list"
  messageUpdates :: "message_update list"
  walletPaths :: "(string \<times> nat list) list"

type_synonym ('g, 'a) wallet_method = "('g wallet_state, 'a) proc"

definition put_nonces :: "nonce_stores \<Rightarrow> 'g wallet_state \<Rightarrow> 'g wallet_state" where
  "put_nonces n s = s\<lparr>nonceStores := n\<rparr>"

definition put_wallets :: "(string, wallet) mapstore \<Rightarrow> 'g wallet_state \<Rightarrow> 'g wallet_state" where
  "put_wallets m s = s\<lparr>walletByAddress := m\<rparr>"

definition put_portfolios :: "(nat, 'g portfolio_run) mapstore \<Rightarrow> 'g wallet_state \<Rightarrow> 'g wallet_state" where
  "put_portfolios m s = s\<lparr>portfolios := m\<rparr>"

definition later :: "wallet_turn \<Rightarrow> ('g, unit) wallet_method" where
  "later t = modifyp (\<lambda>s. s\<lparr>walletTurns := walletTurns s @ [t]\<rparr>)"

definition publishUpdate :: "envelope \<Rightarrow> update_status \<Rightarrow> ('g, unit) wallet_method" where
  "publishUpdate env st = modifyp (\<lambda>s. s\<lparr>messageUpdates := messageUpdates s @
     [\<lparr>upd_address = env_address env, upd_nonce = env_nonce env, upd_deadline = env_deadline env, upd_status = st\<rparr>]\<rparr>)"

section \<open>Receiving a message\<close>

record 'm eip712_data =
  signedData :: 'm
  verifiedSigner :: "string option"
  expectedHash :: "string option"

definition checkHash :: "'m wallet_ports \<Rightarrow> 'm eip712_data \<Rightarrow> error + string option" where
  "checkHash wp d =
     (let computedHash = (if truthy (verifiedSigner d) \<and> expectedHash d = None then None
                          else Some (hashTypedData wp (signedData d)))
      in case expectedHash d of
           None \<Rightarrow> Inr computedHash
         | Some h \<Rightarrow>
             bindr (requirer (map_option toLowerCase computedHash = Some (toLowerCase h)) HashMismatch) (\<lambda>_.
             Inr computedHash))"

definition signerOf :: "'m wallet_ports \<Rightarrow> 'm eip712_data \<Rightarrow> error + string" where
  "signerOf wp d =
     bindr (checkHash wp d) (\<lambda>computedHash.
     if truthy (verifiedSigner d) then getAddress wp (the (verifiedSigner d))
     else (case computedHash of None \<Rightarrow> Inl AssertFailed | Some h \<Rightarrow> recoverAddress wp h (signedData d)))"

definition handleMessage :: "'m wallet_ports \<Rightarrow> 'm eip712_data \<Rightarrow> ('g, unit) wallet_method" where
  "handleMessage wp d =
     bindp (liftp (signerOf wp d)) (\<lambda>walletOwner.
     bindp (liftp (validateTypedData wp (signedData d))) (\<lambda>m.
     later (TimeTurn (extractOperationDetails m walletOwner))))"

text \<open>Once the time is known the nonce is used up, and the wallet is made if there is none.\<close>

definition nonceKeyOf :: "envelope \<Rightarrow> nonce_key" where
  "nonceKeyOf env = \<lparr>walletOwner = env_address env, keyNonce = env_nonce env, keyDeadline = env_deadline env\<rparr>"

definition getWalletForAddress :: "string \<Rightarrow> ('g, unit) wallet_method" where
  "getWalletForAddress address =
     bindp (getsp walletByAddress) (\<lambda>m.
     whenp (\<not> store_has m address) (writeStore walletByAddress put_wallets (\<lambda>m. store_init m address [])))"

definition acceptMessage :: "envelope \<Rightarrow> int \<Rightarrow> ('g, unit) wallet_method" where
  "acceptMessage env localChainTime =
     thenp (zoomp nonceStores put_nonces (removeExpiredNonces localChainTime))
    (thenp (requirep (\<not> localChainTime > env_deadline env) DeadlinePassed)
    (thenp (requirep (env_deadline env \<le> localChainTime + MAX_YMAX_DEADLINE_OFFSET_SECONDS) DeadlineTooFar)
    (thenp (zoomp nonceStores put_nonces (insertNonce (nonceKeyOf env)))
    (thenp (getWalletForAddress (env_address env))
    (later (NodeTurn env))))))"

definition publishPending :: "envelope \<Rightarrow> ('g, unit) wallet_method" where
  "publishPending env = thenp (publishUpdate env UpdatePending) (later (OperateTurn env))"

section \<open>Portfolios of the contract\<close>

definition makeNextPortfolioKit :: "string option \<Rightarrow> ('g, nat) wallet_method" where
  "makeNextPortfolioKit owner =
     bindp (getsp (\<lambda>s. store_size (portfolios s))) (\<lambda>pid.
     thenp (writeStore portfolios put_portfolios
              (\<lambda>m. store_init m pid \<lparr>portfolio = makePortfolio pid owner, turns = []\<rparr>))
    (ret pid))"

text \<open>A call on a portfolio, with the turns it leaves when it has to wait.\<close>

definition onPortfolio :: "nat \<Rightarrow> 'a portfolio_method \<Rightarrow> ('a \<Rightarrow> 'g pending_turn list) \<Rightarrow> ('g, 'a) wallet_method" where
  "onPortfolio pid m w =
     bindp (readStore portfolios pid) (\<lambda>r.
     thenp (writeStore portfolios put_portfolios (\<lambda>ps. store_set ps pid (spawn w m r)))
    (liftp (fst (m (portfolio r)))))"

definition callPortfolio :: "nat \<Rightarrow> 'a portfolio_method \<Rightarrow> ('g, 'a) wallet_method" where
  "callPortfolio pid m = onPortfolio pid m (\<lambda>_. [])"

definition runRequest :: "portfolio_ports \<Rightarrow> nat \<Rightarrow> evm_request \<Rightarrow> ('g, unit) wallet_method" where
  "runRequest pw pid req =
     (case req of
        RequestCall c \<Rightarrow> callPortfolio pid (run_call pw c)
      | RequestGrant who perms \<Rightarrow> bindp (onPortfolio pid (evmGrant who perms) (\<lambda>a. [OwnerTurn a])) (\<lambda>_. ret ())
      | RequestFeatures f \<Rightarrow> bindp (onPortfolio pid (evmSetAutoFeatures f) (\<lambda>a. [OwnerTurn a])) (\<lambda>_. ret ()))"

definition answers_at_once :: "evm_request \<Rightarrow> bool" where
  "answers_at_once req = (case req of RequestCall _ \<Rightarrow> True | _ \<Rightarrow> False)"

section \<open>Operations on a portfolio\<close>

definition MAX_SAFE_AGENT_ID :: int where
  "MAX_SAFE_AGENT_ID = 9007199254740991"

definition agentIdFromEIP712 :: "int \<Rightarrow> error + nat" where
  "agentIdFromEIP712 agentId =
     (if agentId > 0 \<and> agentId \<le> MAX_SAFE_AGENT_ID then Inr (nat agentId) else Inl InvalidAgentId)"

definition portfolioIdOf :: "operation \<Rightarrow> int option" where
  "portfolioIdOf opn =
     (case opn of
        OpOpenPortfolio _ _ _ \<Rightarrow> None
      | OpRebalance p \<Rightarrow> Some p
      | OpSetTargetAllocation _ p \<Rightarrow> Some p
      | OpDeposit p \<Rightarrow> Some p
      | OpWithdraw _ _ p \<Rightarrow> Some p
      | OpGrant _ _ p \<Rightarrow> Some p
      | OpChangePermissions _ _ p \<Rightarrow> Some p
      | OpRevoke _ p \<Rightarrow> Some p
      | OpSetAutoFeatures _ p \<Rightarrow> Some p
      | OpAcceptOwnership p \<Rightarrow> Some p)"

text \<open>The call an operation on a held portfolio makes.\<close>

definition requestOf :: "envelope \<Rightarrow> error + evm_request" where
  "requestOf env =
     (case od_operation env of
        OpRebalance _ \<Rightarrow> Inr (RequestCall (EvmRebalance None (od_permit env)))
      | OpSetTargetAllocation allocations _ \<Rightarrow> Inr (RequestCall (EvmRebalance (Some allocations) (od_permit env)))
      | OpDeposit _ \<Rightarrow>
          (case od_permit env of None \<Rightarrow> Inl MissingPermit | Some permit \<Rightarrow> Inr (RequestCall (EvmDeposit permit)))
      | OpWithdraw amt token _ \<Rightarrow>
          Inr (RequestCall (EvmWithdraw amt token (Some (od_chainId env)) (Some (env_address env))))
      | OpGrant accountHolder perms _ \<Rightarrow>
          bindr (portfolioPermissionsFromEIP712 perms) (\<lambda>p. Inr (RequestGrant accountHolder p))
      | OpChangePermissions agentId perms _ \<Rightarrow>
          bindr (agentIdFromEIP712 agentId) (\<lambda>n.
          bindr (portfolioPermissionsFromEIP712 perms) (\<lambda>p. Inr (RequestCall (EvmChangePermissions n p))))
      | OpRevoke agentId _ \<Rightarrow> bindr (agentIdFromEIP712 agentId) (\<lambda>n. Inr (RequestCall (EvmRevoke n)))
      | OpSetAutoFeatures features _ \<Rightarrow> Inr (RequestFeatures features)
      | _ \<Rightarrow> Inl AssertFailed)"

text \<open>The first part of \<open>handleOperation\<close>: find the portfolio in the wallet of the signer.\<close>

definition operate :: "envelope \<Rightarrow> ('g, wallet_turn) wallet_method" where
  "operate env =
     (case od_operation env of
        OpAcceptOwnership p \<Rightarrow>
          thenp (requirep (od_permit env = None) DepositUnsupported) (ret (AcceptTurn env p))
      | opn \<Rightarrow>
          (case portfolioIdOf opn of
             None \<Rightarrow> ret (DomainTurn env None)
           | Some p \<Rightarrow>
               bindp (readStore walletByAddress (env_address env)) (\<lambda>held.
               bindp (liftp (store_get held p)) (\<lambda>pid. ret (DomainTurn env (Some pid))))))"

definition validateEVMMessageDomain :: "portfolio_ports \<Rightarrow> envelope \<Rightarrow> nat option \<Rightarrow> ('g, unit) wallet_method" where
  "validateEVMMessageDomain pw env held =
     (case held of
        Some pid \<Rightarrow> callPortfolio pid (validateRepresentativeInfo pw (od_chainId env) (od_contract env) False)
      | None \<Rightarrow> liftp (validateOpenMessageRepresentativeInfo pw (od_chainId env) (od_contract env)))"

definition switchOperation :: "envelope \<Rightarrow> nat option \<Rightarrow> ('g, wallet_turn) wallet_method" where
  "switchOperation env held =
     (case od_operation env of
        OpOpenPortfolio allocations features grantee' \<Rightarrow>
          (case od_permit env of
             None \<Rightarrow> throw MissingPermit
           | Some permit \<Rightarrow> ret (OpeningTurn env allocations features grantee' permit))
      | _ \<Rightarrow>
          bindp (liftp (requestOf env)) (\<lambda>req.
          case held of None \<Rightarrow> throw AssertFailed | Some pid \<Rightarrow> ret (CallTurn env pid req)))"

section \<open>Opening a portfolio\<close>

text \<open>\<open>openPortfolioFromEVM\<close> up to its first wait, and what follows each wait.\<close>

definition checkOpening :: "portfolio_ports \<Rightarrow> (string \<times> int) list \<Rightarrow> auto_features option
    \<Rightarrow> (string \<times> wire_permissions) option \<Rightarrow> permit_details \<Rightarrow> error + open_request" where
  "checkOpening pw allocations features grantee' permit =
     bindr (validateOpenMessageRepresentativeInfo pw (permit_chainId permit) (permit_spender permit)) (\<lambda>_.
     let target = to_map (map (\<lambda>(i, portion). (i, Some portion)) allocations) in
     case eip155ChainIdToAxelarChain pw (permit_chainId permit) of
       None \<Rightarrow> Inl UnknownChain
     | Some chain \<Rightarrow>
         bindr (requirer (sameEvmAddress (permit_token permit) (Some (usdcToken (contracts pw chain)))) WrongToken) (\<lambda>_.
         bindr (requirer (0 \<le> permit_amount permit) NotANat) (\<lambda>_.
         bindr (case grantee' of
                  None \<Rightarrow> Inr None
                | Some (who, wire) \<Rightarrow> bindr (portfolioPermissionsFromEIP712 wire) (\<lambda>p. Inr (Some (who, p)))) (\<lambda>granted.
         Inr \<lparr>open_target = target, open_chain = chain, open_amount = permit_amount permit,
              open_source = ''eip155:'' @ permit_chainId permit @ '':'' @ toLowerCase (permit_owner permit),
              open_features = features, open_grantee = granted\<rparr>))))"

text \<open>The opening flow runs on its own: it sets the target, then waits for accounts.\<close>

definition startOpening :: "nat \<Rightarrow> open_request \<Rightarrow> ('g, unit) wallet_method" where
  "startOpening pid rq = modifyp (\<lambda>s. s\<lparr>openFlows := openFlows s @ [(pid, rq)]\<rparr>)"

definition runOpening :: "nat \<Rightarrow> open_request \<Rightarrow> ('g, nat) wallet_method" where
  "runOpening pid rq =
     onPortfolio pid (setTargetAllocation (open_target rq))
       (\<lambda>v. [OpenTurn (Some (open_amount rq)) (Some (open_chain rq)) (committed_open (open_target rq) v)])"

definition grantOpening :: "envelope \<Rightarrow> open_request \<Rightarrow> nat \<Rightarrow> ('g, wallet_turn) wallet_method" where
  "grantOpening env rq pid =
     (case open_grantee rq of
        Some (who, perms) \<Rightarrow>
          thenp (onPortfolio pid (evmGrant who perms) (\<lambda>a. [OwnerTurn a])) (ret (GranteeTurn env rq pid))
      | None \<Rightarrow> thenp (startOpening pid rq) (ret (AttachTurn env pid)))"

definition openKit :: "envelope \<Rightarrow> open_request \<Rightarrow> ('g, wallet_turn) wallet_method" where
  "openKit env rq =
     bindp (makeNextPortfolioKit (Some (open_source rq))) (\<lambda>pid.
     case open_features rq of
       Some f \<Rightarrow> thenp (onPortfolio pid (evmSetAutoFeatures f) (\<lambda>a. [OwnerTurn a])) (ret (FeaturesTurn env rq pid))
     | None \<Rightarrow> grantOpening env rq pid)"

text \<open>The portfolio is put in the wallet of the signer; its path is published after another wait.\<close>

definition attachPortfolio :: "envelope \<Rightarrow> nat \<Rightarrow> ('g, nat list) wallet_method" where
  "attachPortfolio env pid =
     bindp (callPortfolio pid (getsp portfolioId)) (\<lambda>portfolioId.
     bindp (readStore walletByAddress (env_address env)) (\<lambda>held.
     bindp (liftp (store_init held (int portfolioId) pid)) (\<lambda>held'.
     thenp (writeStore walletByAddress put_wallets (\<lambda>m. store_set m (env_address env) held'))
    (ret (store_values held')))))"

section \<open>Accepting the ownership of a portfolio\<close>

definition beginOwnershipTransfer :: "portfolio_ports \<Rightarrow> envelope \<Rightarrow> int \<Rightarrow> ('g, nat) wallet_method" where
  "beginOwnershipTransfer pw env p =
     bindp (getsp portfolios) (\<lambda>ps.
     thenp (requirep (0 \<le> p \<and> store_has ps (nat p)) NoSuchPortfolio)
    (thenp (callPortfolio (nat p) (validateRepresentativeInfo pw (od_chainId env) (od_contract env) False))
    (ret (nat p))))"

definition completeOwnershipTransfer :: "portfolio_ports \<Rightarrow> envelope \<Rightarrow> nat \<Rightarrow> int \<Rightarrow> ('g, unit) wallet_method" where
  "completeOwnershipTransfer pw env pid now =
     callPortfolio pid (run_call pw (CompleteTransfer (env_address env) (od_chainId env) now))"

section \<open>Turns\<close>

fun envelope_of :: "wallet_turn \<Rightarrow> envelope" where
  "envelope_of (TimeTurn env) = env"
| "envelope_of (NodeTurn env) = env"
| "envelope_of (OperateTurn env) = env"
| "envelope_of (DomainTurn env _) = env"
| "envelope_of (SwitchTurn env _ _) = env"
| "envelope_of (CallTurn env _ _) = env"
| "envelope_of (VowTurn env) = env"
| "envelope_of (SettledTurn env _) = env"
| "envelope_of (AcceptTurn env _) = env"
| "envelope_of (CompleteTurn env _) = env"
| "envelope_of (OpeningTurn env _ _ _ _) = env"
| "envelope_of (PreflightTurn env _) = env"
| "envelope_of (FeaturesTurn env _ _) = env"
| "envelope_of (GranteeTurn env _ _) = env"
| "envelope_of (AttachTurn env _) = env"
| "envelope_of (PathsTurn env _ _) = env"

text \<open>\<open>m\<close> is a promise that is watched: a throw is seen by the watcher, in a later turn.\<close>

definition watched :: "envelope \<Rightarrow> ('g, wallet_turn) wallet_method \<Rightarrow> ('g, wallet_turn option) wallet_method" where
  "watched env m = catchp (bindp m (\<lambda>t. ret (Some t))) (\<lambda>e. ret (Some (SettledTurn env (Inl e))))"

text \<open>
  One turn of \<open>handleOperation\<close> and of what it watches, with the time and the outcome it is
  resumed with: it returns the turn to wait for, or \<open>None\<close> when the operation is done. A throw
  is caught, and published.
\<close>

fun operationTurn :: "portfolio_ports \<Rightarrow> int \<Rightarrow> error + unit \<Rightarrow> wallet_turn
    \<Rightarrow> ('g, wallet_turn option) wallet_method" where
  "operationTurn pw now outcome (OperateTurn env) = bindp (operate env) (\<lambda>t. ret (Some t))"
| "operationTurn pw now outcome (DomainTurn env held) =
     catchp (bindp (validateEVMMessageDomain pw env held) (\<lambda>_. ret (Some (SwitchTurn env held (Inr ())))))
       (\<lambda>e. ret (Some (SwitchTurn env held (Inl e))))"
| "operationTurn pw now outcome (SwitchTurn env held valid) =
     bindp (liftp valid) (\<lambda>_. bindp (switchOperation env held) (\<lambda>t. ret (Some t)))"
| "operationTurn pw now outcome (CallTurn env pid req) =
     watched env (thenp (runRequest pw pid req)
       (ret (if answers_at_once req then SettledTurn env (Inr ()) else VowTurn env)))"
| "operationTurn pw now outcome (VowTurn env) = bindp (liftp outcome) (\<lambda>_. ret None)"
| "operationTurn pw now outcome (SettledTurn env res) = bindp (liftp res) (\<lambda>_. ret None)"
| "operationTurn pw now outcome (AcceptTurn env p) =
     watched env (bindp (beginOwnershipTransfer pw env p) (\<lambda>pid. ret (CompleteTurn env pid)))"
| "operationTurn pw now outcome (CompleteTurn env pid) =
     watched env (thenp (completeOwnershipTransfer pw env pid now) (ret (AttachTurn env pid)))"
| "operationTurn pw now outcome (OpeningTurn env allocations features grantee' permit) =
     watched env (bindp (liftp (checkOpening pw allocations features grantee' permit)) (\<lambda>rq. ret (PreflightTurn env rq)))"
| "operationTurn pw now outcome (PreflightTurn env rq) =
     watched env (thenp (case open_grantee rq of None \<Rightarrow> ret () | Some _ \<Rightarrow> liftp outcome) (openKit env rq))"
| "operationTurn pw now outcome (FeaturesTurn env rq pid) =
     watched env (thenp (liftp outcome) (grantOpening env rq pid))"
| "operationTurn pw now outcome (GranteeTurn env rq pid) =
     watched env (thenp (liftp outcome) (thenp (startOpening pid rq) (ret (AttachTurn env pid))))"
| "operationTurn pw now outcome (AttachTurn env pid) =
     bindp (attachPortfolio env pid) (\<lambda>paths. ret (Some (PathsTurn env pid paths)))"
| "operationTurn pw now outcome (PathsTurn env pid paths) =
     thenp (modifyp (\<lambda>s. s\<lparr>walletPaths := walletPaths s @ [(env_address env, paths)]\<rparr>)) (ret None)"
| "operationTurn pw now outcome t = ret None"

definition runOperation :: "portfolio_ports \<Rightarrow> int \<Rightarrow> error + unit \<Rightarrow> wallet_turn \<Rightarrow> ('g, unit) wallet_method" where
  "runOperation pw now outcome t =
     (\<lambda>s. case operationTurn pw now outcome t s of
        (Inl e, s') \<Rightarrow> publishUpdate (envelope_of t) (UpdateError e) s'
      | (Inr None, s') \<Rightarrow> publishUpdate (envelope_of t) UpdateOk s'
      | (Inr (Some t'), s') \<Rightarrow> later t' s')"

fun runWalletTurn :: "portfolio_ports \<Rightarrow> int \<Rightarrow> error + unit \<Rightarrow> wallet_turn \<Rightarrow> ('g, unit) wallet_method" where
  "runWalletTurn pw now outcome (TimeTurn env) = acceptMessage env now"
| "runWalletTurn pw now outcome (NodeTurn env) = publishPending env"
| "runWalletTurn pw now outcome t = runOperation pw now outcome t"

end
