(* ===== verification/WalletMachine.thy ===== *)
theory WalletMachine
  imports EvmWallet "HOL-Library.Multiset"
begin

text \<open>
  The wallets as a state machine: messages arrive, their turns are resumed in any order as time
  passes, portfolios are opened from Agoric, and every portfolio takes any step of its own
  machine at any time. Two invariants: the books on messages and nonces agree, and wallets hold
  only portfolios that their account owns.
\<close>

section \<open>Steps\<close>

text \<open>The numbers of a message are decoded as \<open>uint256\<close>.\<close>

fun operation_ok :: "operation \<Rightarrow> bool" where
  "operation_ok (OpOpenPortfolio als _ _) = list_all (\<lambda>(_, portion). 0 \<le> portion) als"
| "operation_ok (OpSetTargetAllocation als _) = list_all (\<lambda>(_, portion). 0 \<le> portion) als"
| "operation_ok _ = True"

definition data_ok :: "'m wallet_ports \<Rightarrow> 'm eip712_data \<Rightarrow> bool" where
  "data_ok wp d \<longleftrightarrow> (case validateTypedData wp (signedData d) of Inl _ \<Rightarrow> True | Inr m \<Rightarrow> operation_ok (tm_operation m))"

inductive wallet_step :: "portfolio_ports \<Rightarrow> 'm wallet_ports \<Rightarrow> 'g attestation \<Rightarrow> 'g wallet_state \<Rightarrow> 'g wallet_state \<Rightarrow> bool"
  for pw wp att where
  message_step: "data_ok wp d \<Longrightarrow> wallet_step pw wp att s (snd (handleMessage wp d s))"
| wallet_turn_step: "t \<in> set (walletTurns s) \<Longrightarrow> chainTime s \<le> now \<Longrightarrow>
    wallet_step pw wp att s (snd (runWalletTurn pw now outcome t
      (s\<lparr>walletTurns := remove1 t (walletTurns s), chainTime := now\<rparr>)))"
| kit_step: "wallet_step pw wp att s (snd (makeNextPortfolioKit None s))"
| flow_step: "(pid, rq) \<in> set (openFlows s) \<Longrightarrow>
    wallet_step pw wp att s (snd (runOpening pid rq (s\<lparr>openFlows := remove1 (pid, rq) (openFlows s)\<rparr>)))"
| holder_step: "map_of (portfolios s) pid = Some r \<Longrightarrow> any_step pw att r r' \<Longrightarrow>
    wallet_step pw wp att s (put_portfolios (put_entry pid r' (portfolios s)) s)"

definition new_wallets :: "'g wallet_state \<Rightarrow> bool" where
  "new_wallets s \<longleftrightarrow> (\<exists>t. s = \<lparr>chainTime = t, nonceStores = \<lparr>noncesByDeadline = [], noncesByOwner = []\<rparr>,
     walletByAddress = [], portfolios = [], walletTurns = [], openFlows = [], messageUpdates = [], walletPaths = []\<rparr>)"

section \<open>What a method returns\<close>

definition yields :: "('a \<Rightarrow> bool) \<Rightarrow> ('s, 'a) proc \<Rightarrow> bool" where
  "yields P m \<longleftrightarrow> (\<forall>s x t. m s = (Inr x, t) \<longrightarrow> P x)"

named_theorems yields_intros \<open>rules on what a process returns\<close>

lemma yieldsD: "yields P m \<Longrightarrow> m s = (Inr x, t) \<Longrightarrow> P x"
  by (auto simp: yields_def)

lemma yields_basic [yields_intros]:
  "P x \<Longrightarrow> yields P (ret x)" "yields P (throw e)"
  by (simp_all add: yields_def)

lemma yields_bindp [yields_intros]: "(\<And>x. yields P (f x)) \<Longrightarrow> yields P (bindp m f)"
  by (auto simp: yields_def split: prod.splits sum.splits)

lemma yields_thenp [yields_intros]: "yields P k \<Longrightarrow> yields P (thenp m k)"
  unfolding thenp_def by (rule yields_bindp)

lemma yields_catchp [yields_intros]: "yields P m \<Longrightarrow> (\<And>e. yields P (h e)) \<Longrightarrow> yields P (catchp m h)"
  by (auto simp: yields_def split: prod.splits sum.splits)

lemma yields_bindp_of: "yields Q m \<Longrightarrow> (\<And>x. Q x \<Longrightarrow> yields P (f x)) \<Longrightarrow> yields P (bindp m f)"
  by (fastforce simp: yields_def split: prod.splits sum.splits)

lemma yields_case_option [yields_intros]:
  "yields P f \<Longrightarrow> (\<And>x. yields P (g x)) \<Longrightarrow> yields P (case r of None \<Rightarrow> f | Some x \<Rightarrow> g x)"
  by (cases r) simp_all

lemma yields_case_prod [yields_intros]: "(\<And>a b. yields P (f a b)) \<Longrightarrow> yields P (case p of (a, b) \<Rightarrow> f a b)"
  by (cases p) simp

section \<open>The books\<close>

text \<open>A message by its signer, nonce and deadline.\<close>

type_synonym message_key = "string \<times> int \<times> int"

definition key_of :: "envelope \<Rightarrow> message_key" where
  "key_of env = (env_address env, env_nonce env, env_deadline env)"

definition update_key :: "message_update \<Rightarrow> message_key" where
  "update_key u = (upd_address u, upd_nonce u, upd_deadline u)"

fun operating :: "wallet_turn \<Rightarrow> bool" where
  "operating (TimeTurn _) = False"
| "operating (NodeTurn _) = False"
| "operating _ = True"

fun queued :: "wallet_turn \<Rightarrow> bool" where
  "queued (NodeTurn _) = True"
| "queued _ = False"

definition turn_keys :: "(wallet_turn \<Rightarrow> bool) \<Rightarrow> 'g wallet_state \<Rightarrow> message_key list" where
  "turn_keys P s = map (\<lambda>t. key_of (envelope_of t)) (filter P (walletTurns s))"

definition update_keys :: "(update_status \<Rightarrow> bool) \<Rightarrow> 'g wallet_state \<Rightarrow> message_key list" where
  "update_keys P s = map update_key (filter (\<lambda>u. P (upd_status u)) (messageUpdates s))"

text \<open>Published as pending, about to be, and published with an outcome.\<close>

definition begun :: "'g wallet_state \<Rightarrow> message_key list" where
  "begun s = update_keys (\<lambda>st. st = UpdatePending) s"

definition accepted :: "'g wallet_state \<Rightarrow> message_key list" where
  "accepted s = begun s @ turn_keys queued s"

definition concluded :: "'g wallet_state \<Rightarrow> message_key list" where
  "concluded s = update_keys (\<lambda>st. st \<noteq> UpdatePending) s"

definition remembered :: "'g wallet_state \<Rightarrow> message_key \<Rightarrow> bool" where
  "remembered s k = (case k of (owner, n, dl) \<Rightarrow> live (nonceStores s) owner n dl)"

fun due :: "message_key \<Rightarrow> int" where
  "due (owner, n, dl) = dl"

definition books_ok :: "'g wallet_state \<Rightarrow> bool" where
  "books_ok s \<longleftrightarrow> nonces_ok (nonceStores s) \<and>
     mset (begun s) = mset (concluded s) + mset (turn_keys operating s) \<and>
     distinct (accepted s) \<and>
     (\<forall>k \<in> set (accepted s). due k < chainTime s \<or> remembered s k) \<and>
     (\<forall>k. remembered s k \<longrightarrow> k \<in> set (accepted s) \<and> due k \<le> chainTime s + MAX_YMAX_DEADLINE_OFFSET_SECONDS)"

text \<open>The operations on portfolios leave the books alone.\<close>

definition books :: "'g wallet_state \<Rightarrow> int \<times> nonce_stores \<times> wallet_turn list \<times> message_update list" where
  "books s = (chainTime s, nonceStores s, walletTurns s, messageUpdates s)"

lemma books_put [simp]:
  "books (put_wallets ws s) = books s" "books (put_portfolios ps s) = books s"
  "books (s\<lparr>openFlows := fs\<rparr>) = books s" "books (s\<lparr>walletPaths := wps\<rparr>) = books s"
  by (simp_all add: books_def put_wallets_def put_portfolios_def)

lemma books_onPortfolio [keeps_intros]: "keeps (\<lambda>s. books s = c) (onPortfolio pid m w)"
  unfolding onPortfolio_def by (intro keeps_intros keeps_writeStore) simp

lemma books_makeKit [keeps_intros]: "keeps (\<lambda>s. books s = c) (makeNextPortfolioKit owner)"
  unfolding makeNextPortfolioKit_def by (intro keeps_intros keeps_writeStore) simp

lemma books_startOpening [keeps_intros]: "keeps (\<lambda>s. books s = c) (startOpening pid rq)"
  unfolding startOpening_def by (intro keeps_modifyp) simp

lemma books_runOpening [keeps_intros]: "keeps (\<lambda>s. books s = c) (runOpening pid rq)"
  unfolding runOpening_def by (intro keeps_intros)

lemma books_runRequest [keeps_intros]: "keeps (\<lambda>s. books s = c) (runRequest pw pid req)"
  unfolding runRequest_def callPortfolio_def by (cases req) (simp_all add: keeps_intros)

lemma books_grantOpening [keeps_intros]: "keeps (\<lambda>s. books s = c) (grantOpening env rq pid)"
  unfolding grantOpening_def by (intro keeps_intros)

lemma books_openKit [keeps_intros]: "keeps (\<lambda>s. books s = c) (openKit env rq)"
  unfolding openKit_def by (intro keeps_intros)

lemma books_operate [keeps_intros]: "keeps (\<lambda>s. books s = c) (operate env)"
  unfolding operate_def by (cases "od_operation env") (simp_all add: keeps_intros split: option.split)

lemma books_switch [keeps_intros]: "keeps (\<lambda>s. books s = c) (switchOperation env held)"
  unfolding switchOperation_def
  by (cases "od_operation env") (simp_all add: keeps_intros split: option.split)

lemma books_attach [keeps_intros]: "keeps (\<lambda>s. books s = c) (attachPortfolio env pid)"
  unfolding attachPortfolio_def callPortfolio_def by (intro keeps_intros keeps_writeStore) simp

lemma books_transfer [keeps_intros]:
  "keeps (\<lambda>s. books s = c) (beginOwnershipTransfer pw env p)"
  "keeps (\<lambda>s. books s = c) (completeOwnershipTransfer pw env pid now)"
  "keeps (\<lambda>s. books s = c) (validateEVMMessageDomain pw env held)"
  unfolding beginOwnershipTransfer_def completeOwnershipTransfer_def validateEVMMessageDomain_def callPortfolio_def
  by (intro keeps_intros)+

lemma books_operation: "keeps (\<lambda>s. books s = c) (operationTurn pw now outcome t)"
  by (cases t) (simp_all only: operationTurn.simps watched_def, (intro keeps_intros keeps_modifyp; simp)+)

text \<open>A turn of an operation leads to a turn of the same message.\<close>

definition follows :: "envelope \<Rightarrow> wallet_turn \<Rightarrow> bool" where
  "follows env t \<longleftrightarrow> operating t \<and> envelope_of t = env"

lemma follows_operate [yields_intros]: "yields (follows env) (operate env)"
  unfolding operate_def by (cases "od_operation env") (auto intro!: yields_intros simp: follows_def split: option.split)

lemma follows_switch [yields_intros]: "yields (follows env) (switchOperation env held)"
  unfolding switchOperation_def
  by (cases "od_operation env") (auto intro!: yields_intros simp: follows_def split: option.split)

lemma follows_opening [yields_intros]:
  "yields (follows env) (grantOpening env rq pid)" "yields (follows env) (openKit env rq)"
  unfolding openKit_def grantOpening_def by (intro yields_intros; simp add: follows_def)+

lemma yields_watched: "yields (follows env) m \<Longrightarrow> yields (pred_option (follows env)) (watched env m)"
  unfolding watched_def
  by (rule yields_catchp, erule yields_bindp_of) (auto intro!: yields_intros simp: follows_def)

lemma yields_Some: "yields P m \<Longrightarrow> yields (pred_option P) (bindp m (\<lambda>t. ret (Some t)))"
  by (erule yields_bindp_of) (auto intro: yields_intros)

lemma operationTurn_follows:
  "operating t \<Longrightarrow> yields (pred_option (follows (envelope_of t))) (operationTurn pw now outcome t)"
  by (cases t) (auto intro!: yields_intros yields_watched yields_Some simp: follows_def)

end
