(* ===== verification/WalletBooks.thy ===== *)
theory WalletBooks
  imports WalletMachine
begin

text \<open>
  The books of the wallets: which messages were accepted, which are being handled and which are
  done, and the nonces that remember them. A signed message is accepted once, its handling ends
  at most once, and a nonce is remembered exactly for the accepted messages that may be replayed.
\<close>

section \<open>The books are kept\<close>

lemma books_fields:
  assumes "books t = books s"
  shows "chainTime t = chainTime s" "nonceStores t = nonceStores s" "walletTurns t = walletTurns s"
    "messageUpdates t = messageUpdates s"
  using assms by (simp_all add: books_def)

lemma books_ok_cong: "books t = books s \<Longrightarrow> books_ok t = books_ok s"
  by (frule books_fields(1), frule books_fields(2), frule books_fields(3), drule books_fields(4))
    (simp add: books_ok_def begun_def accepted_def concluded_def turn_keys_def update_keys_def remembered_def)

lemma books_okD:
  assumes "books_ok s"
  shows "k \<in> set (accepted s) \<Longrightarrow> due k < chainTime s \<or> remembered s k"
    "remembered s k \<Longrightarrow> k \<in> set (accepted s)" "remembered s k \<Longrightarrow> due k \<le> chainTime s + MAX_YMAX_DEADLINE_OFFSET_SECONDS"
    "distinct (accepted s)" "nonces_ok (nonceStores s)" "mset (begun s) = mset (concluded s) + mset (turn_keys operating s)"
  using assms unfolding books_ok_def by blast+

lemma turn_keys_simps [simp]:
  "turn_keys P (s\<lparr>walletTurns := walletTurns s @ [t]\<rparr>) = turn_keys P s @ (if P t then [key_of (envelope_of t)] else [])"
  "turn_keys P (s\<lparr>chainTime := now\<rparr>) = turn_keys P s"
  "turn_keys P (s\<lparr>messageUpdates := us\<rparr>) = turn_keys P s"
  "turn_keys P (put_nonces n s) = turn_keys P s"
  "turn_keys P (put_wallets ws s) = turn_keys P s"
  by (simp_all add: turn_keys_def put_nonces_def put_wallets_def)

lemma update_keys_simps [simp]:
  "update_keys P (s\<lparr>messageUpdates := messageUpdates s @ [u]\<rparr>) = update_keys P s @ (if P (upd_status u) then [update_key u] else [])"
  "update_keys P (s\<lparr>chainTime := now\<rparr>) = update_keys P s"
  "update_keys P (s\<lparr>walletTurns := ts\<rparr>) = update_keys P s"
  "update_keys P (put_nonces n s) = update_keys P s"
  "update_keys P (put_wallets ws s) = update_keys P s"
  by (simp_all add: update_keys_def put_nonces_def put_wallets_def)

lemma remembered_simps [simp]:
  "remembered (s\<lparr>messageUpdates := us\<rparr>) = remembered s"
  "remembered (s\<lparr>chainTime := now\<rparr>) = remembered s"
  "remembered (s\<lparr>walletTurns := ts\<rparr>) = remembered s"
  "remembered (put_wallets ws s) = remembered s"
  by (simp_all add: remembered_def put_wallets_def fun_eq_iff)

lemma mset_remove1_add: "x \<in> set xs \<Longrightarrow> mset xs = mset (remove1 x xs) + {#x#}"
  by (induction xs) auto

lemma mset_turn_keys_remove:
  assumes "t \<in> set (walletTurns s)"
  shows "mset (turn_keys P s) = mset (turn_keys P (s\<lparr>walletTurns := remove1 t (walletTurns s)\<rparr>)) +
    (if P t then {#key_of (envelope_of t)#} else {#})"
proof (cases "P t")
  case True
  with assms have "t \<in> set (filter P (walletTurns s))" by simp
  then have "image_mset h (mset (filter P (walletTurns s))) = image_mset h (mset (remove1 t (filter P (walletTurns s)))) + {#h t#}" for h :: "wallet_turn \<Rightarrow> message_key"
    by (subst mset_remove1_add) simp_all
  then show ?thesis using True by (simp add: turn_keys_def filter_remove1 del: mset_filter mset_remove1)
next
  case False
  then show ?thesis by (simp add: turn_keys_def filter_remove1 remove1_idem)
qed

text \<open>A step that accepts nothing and moves a message along.\<close>

lemma books_okI:
  assumes "books_ok s" "nonceStores t = nonceStores s" "chainTime s \<le> chainTime t"
    and "mset (begun t) = mset (concluded t) + mset (turn_keys operating t)"
    and "mset (accepted t) = mset (accepted s)"
  shows "books_ok t"
proof -
  have "distinct (accepted t)" "set (accepted t) = set (accepted s)"
    using assms(1,5) unfolding books_ok_def by (metis mset_eq_imp_distinct_iff, metis mset_eq_setD)
  moreover have "remembered t = remembered s" using assms(2) by (simp add: remembered_def fun_eq_iff)
  ultimately show ?thesis
    using assms(1-4) unfolding books_ok_def by fastforce
qed

lemma books_operation_turn:
  assumes "books_ok s" "t \<in> set (walletTurns s)" "operating t" "chainTime s \<le> now"
  shows "books_ok (snd (runOperation pw now outcome t (s\<lparr>walletTurns := remove1 t (walletTurns s), chainTime := now\<rparr>)))"
proof -
  let ?s = "s\<lparr>walletTurns := remove1 t (walletTurns s), chainTime := now\<rparr>"
  let ?k = "key_of (envelope_of t)"
  obtain res u where u: "operationTurn pw now outcome t ?s = (res, u)" by fastforce
  have "books (snd (operationTurn pw now outcome t ?s)) = books ?s" by (rule keepsD [OF books_operation refl])
  then have b: "books u = books ?s" using u by simp
  note f = books_fields [OF b]
  have q: "\<not> queued t" using assms(3) by (cases t) auto
  have run: "mset (turn_keys operating s) = mset (turn_keys operating u) + {#?k#}"
    "mset (turn_keys queued s) = mset (turn_keys queued u)"
    using mset_turn_keys_remove [OF assms(2), of operating] mset_turn_keys_remove [OF assms(2), of queued] assms(3) q f
    by (simp_all add: turn_keys_def)
  have upd: "update_keys P u = update_keys P s" for P using f by (simp add: update_keys_def)
  have ok: "mset (begun s) = mset (concluded s) + mset (turn_keys operating s)" using assms(1) by (simp add: books_ok_def)
  have conclude: "books_ok (snd (publishUpdate (envelope_of t) st u))" if "st \<noteq> UpdatePending" for st
    using that f(1,2) assms(4) run ok upd update_keys_simps(1) [of _ u]
    by (intro books_okI [OF assms(1)])
      (auto simp: publishUpdate_def begun_def concluded_def accepted_def update_key_def key_of_def)
  show ?thesis
  proof (cases res)
    case (Inl e)
    then show ?thesis using u conclude [of "UpdateError e"] by (simp add: runOperation_def)
  next
    case (Inr next_turn)
    show ?thesis
    proof (cases next_turn)
      case None
      then show ?thesis using u Inr conclude [of UpdateOk] by (simp add: runOperation_def)
    next
      case (Some t')
      have "follows (envelope_of t) t'"
        using yieldsD [OF operationTurn_follows [OF assms(3)] u [unfolded Inr]] Some by simp
      then have t': "operating t'" "envelope_of t' = envelope_of t" "\<not> queued t'"
        by (cases t'; auto simp: follows_def)+
      have "books_ok (snd (later t' u))"
        using f(1,2) assms(4) run ok upd t'
        by (intro books_okI [OF assms(1)]) (auto simp: later_def begun_def concluded_def accepted_def)
      then show ?thesis using u Inr Some by (simp add: runOperation_def)
    qed
  qed
qed

lemma books_node_turn:
  assumes "books_ok s" "NodeTurn env \<in> set (walletTurns s)" "chainTime s \<le> now"
  shows "books_ok (snd (publishPending env (s\<lparr>walletTurns := remove1 (NodeTurn env) (walletTurns s), chainTime := now\<rparr>)))"
proof -
  let ?u = "s\<lparr>walletTurns := remove1 (NodeTurn env) (walletTurns s)\<rparr>"
  have ok: "mset (begun s) = mset (concluded s) + mset (turn_keys operating s)" using assms(1) by (simp add: books_ok_def)
  have run: "mset (turn_keys operating s) = mset (turn_keys operating ?u)"
    "mset (turn_keys queued s) = mset (turn_keys queued ?u) + {#key_of env#}"
    using mset_turn_keys_remove [OF assms(2), of operating] mset_turn_keys_remove [OF assms(2), of queued] by simp_all
  have turns_later: "turn_keys P (?u\<lparr>chainTime := now, messageUpdates := us, walletTurns := walletTurns ?u @ [t]\<rparr>) =
      turn_keys P ?u @ (if P t then [key_of (envelope_of t)] else [])" for P us t
    by (simp add: turn_keys_def)
  show ?thesis
    using ok run assms(3)
    by (intro books_okI [OF assms(1)])
      (auto simp: publishPending_def publishUpdate_def later_def begun_def concluded_def accepted_def update_key_def key_of_def
        turn_keys_def update_keys_def)
qed

section \<open>Accepting a message\<close>

lemma books_clock:
  assumes "books_ok s" "chainTime s \<le> now"
  shows "books_ok (s\<lparr>chainTime := now\<rparr>)"
  using assms by (intro books_okI [OF assms(1)]) (auto simp: books_ok_def begun_def concluded_def accepted_def)

lemma books_drop_time:
  assumes "books_ok s" "TimeTurn env \<in> set (walletTurns s)"
  shows "books_ok (s\<lparr>walletTurns := remove1 (TimeTurn env) (walletTurns s)\<rparr>)"
  using assms mset_turn_keys_remove [OF assms(2), of operating] mset_turn_keys_remove [OF assms(2), of queued]
  by (intro books_okI [OF assms(1)]) (auto simp: books_ok_def begun_def concluded_def accepted_def)

text \<open>Dropping the expired nonces: the books only rely on those of messages still in time.\<close>

lemma books_expire:
  assumes "books_ok s" "removeExpiredNonces (chainTime s) (nonceStores s) = (r, n)"
  shows "books_ok (put_nonces n s) \<and> r = Inr () \<and> (\<forall>k. remembered (put_nonces n s) k \<longleftrightarrow> remembered s k \<and> chainTime s \<le> due k)"
proof -
  obtain t where t: "removeExpiredNonces (chainTime s) (nonceStores s) = (Inr (), t)" "nonces_ok t"
    "\<forall>owner n dl. live t owner n dl \<longleftrightarrow> live (nonceStores s) owner n dl \<and> chainTime s \<le> dl"
    using removeExpired_run [of "nonceStores s" "chainTime s"] assms(1) unfolding books_ok_def by blast
  then have n: "n = t" "r = Inr ()" using assms(2) by simp_all
  have rem: "remembered (put_nonces n s) k \<longleftrightarrow> remembered s k \<and> chainTime s \<le> due k" for k
    using t(3) n by (cases k) (simp add: remembered_def put_nonces_def)
  have "accepted (put_nonces n s) = accepted s" "begun (put_nonces n s) = begun s" "concluded (put_nonces n s) = concluded s"
    "chainTime (put_nonces n s) = chainTime s" "nonceStores (put_nonces n s) = n"
    by (simp_all add: begun_def concluded_def accepted_def) (simp_all add: put_nonces_def)
  then have "books_ok (put_nonces n s)"
    using assms(1) t(2) n(1) rem unfolding books_ok_def turn_keys_simps by fastforce
  then show ?thesis using rem n by blast
qed

lemma getWallet_run:
  "\<exists>ws. getWalletForAddress a s = (Inr (), put_wallets ws s) \<and>
     ws = (if store_has (walletByAddress s) a then walletByAddress s else put_entry a [] (walletByAddress s))"
  by (simp add: getWalletForAddress_def store_init_def put_wallets_def)

text \<open>What accepting a message does, in full.\<close>

definition after_expiry :: "'g wallet_state \<Rightarrow> 'g wallet_state" where
  "after_expiry s = put_nonces (snd (removeExpiredNonces (chainTime s) (nonceStores s))) s"

definition accepted_state :: "envelope \<Rightarrow> 'g wallet_state \<Rightarrow> 'g wallet_state" where
  "accepted_state env s =
     (let u = after_expiry s;
          v = put_nonces (snd (insertNonce (nonceKeyOf env) (nonceStores u))) u;
          w = snd (getWalletForAddress (env_address env) v)
      in w\<lparr>walletTurns := walletTurns w @ [NodeTurn env]\<rparr>)"

definition acceptable :: "envelope \<Rightarrow> 'g wallet_state \<Rightarrow> bool" where
  "acceptable env s \<longleftrightarrow> chainTime s \<le> env_deadline env \<and>
     env_deadline env \<le> chainTime s + MAX_YMAX_DEADLINE_OFFSET_SECONDS \<and>
     \<not> used (nonceStores (after_expiry s)) (env_address env) (env_nonce env)"

lemma nonceStores_put [simp]: "nonceStores (put_nonces n s) = n" "nonceStores (put_wallets ws s) = nonceStores s"
  by (simp_all add: put_nonces_def put_wallets_def)

lemma acceptMessage_run:
  assumes "books_ok s"
  shows "acceptable env s \<Longrightarrow> acceptMessage env (chainTime s) s = (Inr (), accepted_state env s)"
    and "\<not> acceptable env s \<Longrightarrow> \<exists>e. acceptMessage env (chainTime s) s = (Inl e, after_expiry s)"
proof -
  obtain n where n: "removeExpiredNonces (chainTime s) (nonceStores s) = (Inr (), n)" "after_expiry s = put_nonces n s"
    using books_expire [OF assms] unfolding after_expiry_def by (metis prod.collapse snd_conv)
  have ok: "nonces_ok n" using books_expire [OF assms n(1)] by (simp add: books_ok_def)
  obtain n2 where ins: "insertNonce (nonceKeyOf env) n =
    (if used n (env_address env) (env_nonce env) then (Inl NonceUsed, n) else (Inr (), n2))"
    by (simp add: insertNonce_run [OF ok] nonceKeyOf_def)
  obtain w where w: "getWalletForAddress (env_address env) (put_nonces n2 s) = (Inr (), w)"
    using getWallet_run by blast
  have put_put: "put_nonces n' (put_nonces n s) = put_nonces n' s" for n' by (simp add: put_nonces_def)
  show "acceptMessage env (chainTime s) s = (Inr (), accepted_state env s)" if "acceptable env s"
    using that n ins w unfolding acceptable_def
    by (simp add: acceptMessage_def accepted_state_def later_def put_put)
  show "\<exists>e. acceptMessage env (chainTime s) s = (Inl e, after_expiry s)" if "\<not> acceptable env s"
    using that n ins unfolding acceptable_def
    by (auto simp: acceptMessage_def put_put split: if_splits)
qed

lemma after_expiry_books:
  assumes "books_ok s"
  shows "books_ok (after_expiry s)" "remembered (after_expiry s) k \<longleftrightarrow> remembered s k \<and> chainTime s \<le> due k"
    "chainTime (after_expiry s) = chainTime s" "accepted (after_expiry s) = accepted s"
    "begun (after_expiry s) = begun s" "concluded (after_expiry s) = concluded s"
    "turn_keys P (after_expiry s) = turn_keys P s"
proof -
  obtain r n where n: "removeExpiredNonces (chainTime s) (nonceStores s) = (r, n)" by fastforce
  then have u: "after_expiry s = put_nonces n s" by (simp add: after_expiry_def)
  show "books_ok (after_expiry s)" "remembered (after_expiry s) k \<longleftrightarrow> remembered s k \<and> chainTime s \<le> due k"
    using books_expire [OF assms n] unfolding u by blast+
  show "chainTime (after_expiry s) = chainTime s" unfolding u by (simp add: put_nonces_def)
  show "accepted (after_expiry s) = accepted s" "begun (after_expiry s) = begun s" "concluded (after_expiry s) = concluded s"
    "turn_keys P (after_expiry s) = turn_keys P s"
    unfolding u by (simp_all add: accepted_def begun_def concluded_def)
qed

lemma used_remembered: "used (nonceStores s) owner n \<longleftrightarrow> (\<exists>dl. remembered s (owner, n, dl))"
  by (simp add: used_def remembered_def)

text \<open>An unexpired nonce is used exactly when a message with it was accepted.\<close>

lemma used_after_expiry:
  assumes "books_ok s"
  shows "used (nonceStores (after_expiry s)) owner n \<longleftrightarrow> (\<exists>dl. (owner, n, dl) \<in> set (accepted s) \<and> chainTime s \<le> dl)"
proof -
  have "remembered s k \<longleftrightarrow> k \<in> set (accepted s)" if "chainTime s \<le> due k" for k
    using assms that unfolding books_ok_def by fastforce
  then show ?thesis
    unfolding used_remembered after_expiry_books(2) [OF assms] by (metis due.simps)
qed

lemma acceptable_iff:
  assumes "books_ok s"
  shows "acceptable env s \<longleftrightarrow> chainTime s \<le> env_deadline env \<and>
     env_deadline env \<le> chainTime s + MAX_YMAX_DEADLINE_OFFSET_SECONDS \<and>
     \<not> (\<exists>dl. (env_address env, env_nonce env, dl) \<in> set (accepted s) \<and> chainTime s \<le> dl)"
  by (simp add: acceptable_def used_after_expiry [OF assms])

lemma accepted_books:
  assumes "books_ok s" "acceptable env s"
  shows "nonces_ok (nonceStores (accepted_state env s))"
    "remembered (accepted_state env s) k \<longleftrightarrow> remembered (after_expiry s) k \<or> k = key_of env"
    "begun (accepted_state env s) = begun s" "concluded (accepted_state env s) = concluded s"
    "turn_keys operating (accepted_state env s) = turn_keys operating s"
    "accepted (accepted_state env s) = accepted s @ [key_of env]"
    "chainTime (accepted_state env s) = chainTime s"
proof -
  let ?u = "after_expiry s" and ?t = "accepted_state env s"
  note u = after_expiry_books [OF assms(1)]
  obtain n where n: "insertNonce (nonceKeyOf env) (nonceStores ?u) = (Inr (), n)"
    using assms(2) u(1) by (simp add: acceptable_def insertNonce_run books_ok_def nonceKeyOf_def)
  obtain ws where w: "snd (getWalletForAddress (env_address env) (put_nonces n ?u)) = put_wallets ws (put_nonces n ?u)"
    using getWallet_run by (metis snd_conv)
  have t: "?t = (put_wallets ws (put_nonces n ?u))\<lparr>walletTurns := walletTurns (put_wallets ws (put_nonces n ?u)) @ [NodeTurn env]\<rparr>"
    using n w by (simp add: accepted_state_def Let_def)
  show "remembered ?t k \<longleftrightarrow> remembered ?u k \<or> k = key_of env"
    using insertNonce_live(2) [OF _ n] u(1)
    by (cases k) (auto simp: t remembered_def books_ok_def put_nonces_def put_wallets_def nonceKeyOf_def key_of_def)
  show "begun ?t = begun s" "concluded ?t = concluded s" "turn_keys operating ?t = turn_keys operating s"
    "accepted ?t = accepted s @ [key_of env]"
    using u unfolding t accepted_def begun_def concluded_def turn_keys_simps update_keys_simps by simp_all
  show "chainTime ?t = chainTime s" using u(3) by (simp add: t put_wallets_def put_nonces_def)
  show "nonces_ok (nonceStores ?t)"
    using insertNonce_ok [of "nonceStores ?u" "nonceKeyOf env"] u(1) n by (simp add: t put_wallets_def put_nonces_def books_ok_def)
qed

lemmas accepted_keys = accepted_books(6)

lemma books_accepted:
  assumes "books_ok s" "acceptable env s"
  shows "books_ok (accepted_state env s)"
proof -
  let ?t = "accepted_state env s" and ?k = "key_of env"
  note t = accepted_books [OF assms] and rem = after_expiry_books(2) [OF assms(1)]
  have k: "due ?k = env_deadline env" "chainTime s \<le> env_deadline env" "env_deadline env \<le> chainTime s + MAX_YMAX_DEADLINE_OFFSET_SECONDS"
    using assms(2) by (simp_all add: key_of_def acceptable_def)
  have "?k \<notin> set (accepted s)" using assms acceptable_iff [OF assms(1)] by (auto simp: key_of_def)
  then have "distinct (accepted ?t)" using books_okD(4) [OF assms(1)] by (simp add: t(6))
  moreover have "due k' < chainTime s \<or> remembered ?t k'" if "k' \<in> set (accepted ?t)" for k'
    using that books_okD(1) [OF assms(1), of k'] unfolding t(2,6) rem by auto
  moreover have "k' \<in> set (accepted ?t) \<and> due k' \<le> chainTime s + MAX_YMAX_DEADLINE_OFFSET_SECONDS" if "remembered ?t k'" for k'
    using that books_okD(2,3) [OF assms(1), of k'] k unfolding t(2,6) rem by auto
  ultimately show ?thesis using t(1) books_okD(6) [OF assms(1)] unfolding books_ok_def t(3-5,7) by blast
qed

lemma books_time_turn:
  assumes "books_ok s" "TimeTurn env \<in> set (walletTurns s)" "chainTime s \<le> now"
  shows "books_ok (snd (acceptMessage env now (s\<lparr>walletTurns := remove1 (TimeTurn env) (walletTurns s), chainTime := now\<rparr>)))"
proof -
  let ?s = "s\<lparr>walletTurns := remove1 (TimeTurn env) (walletTurns s), chainTime := now\<rparr>"
  have ok: "books_ok ?s" using books_clock [OF books_drop_time [OF assms(1,2)]] assms(3) by simp
  show ?thesis
    using acceptMessage_run [OF ok, of env] books_accepted [OF ok, of env] after_expiry_books(1) [OF ok]
    by (cases "acceptable env ?s") auto
qed

section \<open>Every step\<close>

lemma books_step:
  assumes "wallet_step pw wp att s t" "books_ok s"
  shows "books_ok t"
  using assms(1)
proof (cases rule: wallet_step.cases)
  case (message_step d)
  have "books_ok (snd (later (TimeTurn env) s))" for env
    using assms(2) by (intro books_okI [OF assms(2)]) (auto simp: later_def books_ok_def begun_def concluded_def accepted_def)
  then show ?thesis using assms(2) unfolding message_step(1)
    by (auto simp: handleMessage_def split: sum.splits)
next
  case (wallet_turn_step w now outcome)
  show ?thesis
  proof (cases "operating w")
    case True
    then have "runWalletTurn pw now outcome w = (runOperation pw now outcome w :: ('b, unit) wallet_method)" by (cases w) auto
    then show ?thesis using books_operation_turn [OF assms(2) wallet_turn_step(2) True wallet_turn_step(3)] wallet_turn_step(1) by simp
  next
    case False
    then show ?thesis
      using wallet_turn_step books_time_turn [OF assms(2)] books_node_turn [OF assms(2)] by (cases w) auto
  qed
next
  case kit_step
  then show ?thesis using keepsD [OF books_makeKit refl] books_ok_cong assms(2) by blast
next
  case (flow_step pid rq)
  have "books t = books (s\<lparr>openFlows := remove1 (pid, rq) (openFlows s)\<rparr>)"
    unfolding flow_step(1) by (rule keepsD [OF books_runOpening refl])
  then show ?thesis using books_ok_cong [of t s] assms(2) by simp
next
  case (holder_step pid r r')
  then show ?thesis using books_ok_cong [of t s] assms(2) by simp
qed

lemma new_wallets_books: "new_wallets s \<Longrightarrow> books_ok s"
  by (auto simp: new_wallets_def books_ok_def nonces_ok_def live_def begun_def accepted_def concluded_def
      update_keys_def turn_keys_def remembered_def)

interpretation booked: machine new_wallets "wallet_step pw wp att" books_ok for pw wp att
  by unfold_locales (auto intro: new_wallets_books books_step)

end
