(* ===== verification/WalletHoldings.thy ===== *)
theory WalletHoldings
  imports WalletMachine
begin

text \<open>
  Who holds what: every portfolio of the contract is a reachable state of the portfolio machine
  under its own number, a wallet holds only portfolios that belong to its account, no portfolio
  is held twice, and whatever a message waits for concerns a portfolio of its signer.
\<close>

section \<open>The invariant\<close>

definition evm_account :: "string \<Rightarrow> string \<Rightarrow> string" where
  "evm_account chain a = ''eip155:'' @ chain @ '':'' @ toLowerCase a"

definition evm_owned :: "'g wallet_state \<Rightarrow> nat \<Rightarrow> string \<Rightarrow> bool" where
  "evm_owned s pid a \<longleftrightarrow> (\<exists>r chain. map_of (portfolios s) pid = Some r \<and>
     sourceAccountId (portfolio r) = Some (evm_account chain a))"

definition new_run :: "nat \<Rightarrow> string option \<Rightarrow> 'g portfolio_run" where
  "new_run pid owner = \<lparr>portfolio = makePortfolio pid owner, turns = []\<rparr>"

definition kit_ok :: "portfolio_ports \<Rightarrow> 'g attestation \<Rightarrow> nat \<Rightarrow> 'g portfolio_run \<Rightarrow> bool" where
  "kit_ok pw att pid r \<longleftrightarrow> (\<exists>owner. (any_step pw att)\<^sup>*\<^sup>* (new_run pid owner) r)"

definition kits_ok :: "portfolio_ports \<Rightarrow> 'g attestation \<Rightarrow> 'g wallet_state \<Rightarrow> bool" where
  "kits_ok pw att s \<longleftrightarrow> store_ok (portfolios s) \<and>
     (\<forall>pid. store_has (portfolios s) pid \<longleftrightarrow> pid < store_size (portfolios s)) \<and>
     (\<forall>pid r. map_of (portfolios s) pid = Some r \<longrightarrow> kit_ok pw att pid r)"

definition has_wallet :: "'g wallet_state \<Rightarrow> string \<Rightarrow> bool" where
  "has_wallet s a \<longleftrightarrow> store_has (walletByAddress s) a"

definition wallet_holds :: "'g wallet_state \<Rightarrow> string \<Rightarrow> nat \<Rightarrow> bool" where
  "wallet_holds s a pid \<longleftrightarrow> (\<exists>w k. map_of (walletByAddress s) a = Some w \<and> map_of w k = Some pid)"

definition wallets_ok :: "'g wallet_state \<Rightarrow> bool" where
  "wallets_ok s \<longleftrightarrow> store_ok (walletByAddress s) \<and>
     (\<forall>a w. map_of (walletByAddress s) a = Some w \<longrightarrow>
        store_ok w \<and> (\<forall>k pid. map_of w k = Some pid \<longrightarrow> k = int pid \<and> evm_owned s pid a)) \<and>
     (\<forall>a b pid. wallet_holds s a pid \<and> wallet_holds s b pid \<longrightarrow> a = b)"

definition envelope_ok :: "envelope \<Rightarrow> bool" where
  "envelope_ok env \<longleftrightarrow> operation_ok (od_operation env) \<and>
     (\<forall>p. od_permit env = Some p \<longrightarrow> permit_owner p = env_address env)"

definition opening_ok :: "open_request \<Rightarrow> bool" where
  "opening_ok rq \<longleftrightarrow> TargetAllocationShapeExt (open_target rq) \<and> 0 \<le> open_amount rq"

definition opens_for :: "open_request \<Rightarrow> string \<Rightarrow> bool" where
  "opens_for rq a \<longleftrightarrow> opening_ok rq \<and> (\<exists>chain. open_source rq = evm_account chain a)"

definition request_ok :: "evm_request \<Rightarrow> bool" where
  "request_ok req \<longleftrightarrow> (case req of RequestCall c \<Rightarrow> call_ok c | _ \<Rightarrow> True)"

definition signer_known :: "'g wallet_state \<Rightarrow> envelope \<Rightarrow> bool" where
  "signer_known s env \<longleftrightarrow> envelope_ok env \<and> has_wallet s (env_address env)"

fun turn_fits :: "'g wallet_state \<Rightarrow> wallet_turn \<Rightarrow> bool" where
  "turn_fits s (TimeTurn env) = envelope_ok env"
| "turn_fits s (DomainTurn env held) = (signer_known s env \<and> all_some (\<lambda>pid. evm_owned s pid (env_address env)) held)"
| "turn_fits s (SwitchTurn env held v) = (signer_known s env \<and> all_some (\<lambda>pid. evm_owned s pid (env_address env)) held)"
| "turn_fits s (CallTurn env pid req) = (signer_known s env \<and> evm_owned s pid (env_address env) \<and> request_ok req)"
| "turn_fits s (OpeningTurn env als f g permit) =
     (signer_known s env \<and> list_all (\<lambda>(_, portion). 0 \<le> portion) als \<and> permit_owner permit = env_address env)"
| "turn_fits s (PreflightTurn env rq) = (signer_known s env \<and> opens_for rq (env_address env))"
| "turn_fits s (FeaturesTurn env rq pid) =
     (signer_known s env \<and> opens_for rq (env_address env) \<and> evm_owned s pid (env_address env))"
| "turn_fits s (GranteeTurn env rq pid) =
     (signer_known s env \<and> opens_for rq (env_address env) \<and> evm_owned s pid (env_address env))"
| "turn_fits s (AttachTurn env pid) = (signer_known s env \<and> evm_owned s pid (env_address env))"
| "turn_fits s t = signer_known s (envelope_of t)"

text \<open>A portfolio a turn is about to put in a wallet.\<close>

fun claim :: "wallet_turn \<Rightarrow> nat list" where
  "claim (FeaturesTurn _ _ pid) = [pid]"
| "claim (GranteeTurn _ _ pid) = [pid]"
| "claim (AttachTurn _ pid) = [pid]"
| "claim _ = []"

definition claims :: "'g wallet_state \<Rightarrow> nat list" where
  "claims s = concat (map claim (walletTurns s))"

definition unheld :: "'g wallet_state \<Rightarrow> nat \<Rightarrow> bool" where
  "unheld s pid \<longleftrightarrow> (\<forall>a. \<not> wallet_holds s a pid)"

definition holdings_ok :: "portfolio_ports \<Rightarrow> 'g attestation \<Rightarrow> 'g wallet_state \<Rightarrow> bool" where
  "holdings_ok pw att s \<longleftrightarrow> kits_ok pw att s \<and> wallets_ok s \<and> list_all (turn_fits s) (walletTurns s) \<and>
     distinct (claims s) \<and> list_all (unheld s) (claims s) \<and> list_all (\<lambda>(pid, rq). opening_ok rq) (openFlows s)"

definition turn_ready :: "portfolio_ports \<Rightarrow> 'g attestation \<Rightarrow> 'g wallet_state \<Rightarrow> wallet_turn \<Rightarrow> bool" where
  "turn_ready pw att s t \<longleftrightarrow> holdings_ok pw att s \<and> turn_fits s t \<and>
     (\<forall>pid \<in> set (claim t). pid \<notin> set (claims s) \<and> unheld s pid)"

section \<open>Turns\<close>

lemma claims_add [simp]: "claims (s\<lparr>walletTurns := walletTurns s @ [t]\<rparr>) = claims s @ claim t"
  by (simp add: claims_def)

lemma distinct_claim [simp]: "distinct (claim t)"
  by (cases t) auto

text \<open>Parts of the state the invariant does not read.\<close>

lemma signer_known_cong: "walletByAddress t = walletByAddress s \<Longrightarrow> signer_known t = signer_known s"
  by (simp add: signer_known_def has_wallet_def fun_eq_iff)

lemma wallet_holds_cong: "walletByAddress t = walletByAddress s \<Longrightarrow> wallet_holds t = wallet_holds s"
  by (simp add: wallet_holds_def fun_eq_iff)

lemma evm_owned_cong: "portfolios t = portfolios s \<Longrightarrow> evm_owned t = evm_owned s"
  by (simp add: evm_owned_def fun_eq_iff)

lemma turn_fits_cong:
  assumes "walletByAddress t = walletByAddress s" "portfolios t = portfolios s"
  shows "turn_fits t w = turn_fits s w"
  using signer_known_cong [OF assms(1)] evm_owned_cong [OF assms(2)] by (cases w) simp_all

lemma holdings_cong:
  assumes "walletByAddress t = walletByAddress s" "portfolios t = portfolios s"
    and "walletTurns t = walletTurns s" "openFlows t = openFlows s"
  shows "holdings_ok pw att t = holdings_ok pw att s"
  using turn_fits_cong [OF assms(1,2)] evm_owned_cong [OF assms(2)] wallet_holds_cong [OF assms(1)] assms
  by (simp add: holdings_ok_def kits_ok_def wallets_ok_def claims_def unheld_def list_all_iff)

lemma add_turn:
  assumes "turn_ready pw att s t"
  shows "holdings_ok pw att (s\<lparr>walletTurns := walletTurns s @ [t]\<rparr>)"
proof -
  let ?t = "s\<lparr>walletTurns := walletTurns s @ [t]\<rparr>"
  have c: "turn_fits ?t = turn_fits s" "evm_owned ?t = evm_owned s" "wallet_holds ?t = wallet_holds s"
    using turn_fits_cong [of ?t s] by (auto simp: evm_owned_def wallet_holds_def fun_eq_iff)
  show ?thesis
    using assms c
    by (auto simp: turn_ready_def holdings_ok_def kits_ok_def wallets_ok_def unheld_def list_all_iff)
qed

lemma take_turn:
  assumes "holdings_ok pw att s" "t \<in> set (walletTurns s)"
  shows "turn_ready pw att (s\<lparr>walletTurns := remove1 t (walletTurns s), chainTime := now\<rparr>) t"
proof -
  let ?t = "s\<lparr>walletTurns := remove1 t (walletTurns s), chainTime := now\<rparr>"
  have c: "turn_fits ?t = turn_fits s" "evm_owned ?t = evm_owned s" "wallet_holds ?t = wallet_holds s"
    using turn_fits_cong [of ?t s] by (auto simp: evm_owned_def wallet_holds_def fun_eq_iff)
  obtain xs ys where x: "walletTurns s = xs @ t # ys" "t \<notin> set xs" using split_list_first [OF assms(2)] by blast
  then have r: "walletTurns ?t = xs @ ys" by (simp add: remove1_append)
  have cl: "claims s = concat (map claim xs) @ claim t @ concat (map claim ys)"
    "claims ?t = concat (map claim xs) @ concat (map claim ys)"
    using x r by (simp_all add: claims_def)
  have w: "kits_ok pw att ?t = kits_ok pw att s" "wallets_ok ?t = wallets_ok s" "unheld ?t = unheld s"
    using c by (simp_all add: kits_ok_def wallets_ok_def unheld_def fun_eq_iff)
  have ok: "kits_ok pw att s" "wallets_ok s" "list_all (turn_fits s) (xs @ t # ys)"
    "distinct (claims s)" "list_all (unheld s) (claims s)" "list_all (\<lambda>(pid, rq). opening_ok rq) (openFlows s)"
    using assms(1) x(1) by (simp_all add: holdings_ok_def)
  have "holdings_ok pw att ?t"
    using ok(1-3,6) ok(4,5) [unfolded cl(1)] unfolding holdings_ok_def w c r cl(2) by auto
  moreover have "\<forall>pid \<in> set (claim t). pid \<notin> set (claims ?t) \<and> unheld ?t pid"
    using ok(4,5) unfolding w cl by (auto simp: list_all_iff)
  ultimately show ?thesis using ok(3) c by (simp add: turn_ready_def)
qed

section \<open>Steps of a portfolio\<close>

text \<open>The portfolios move on; nobody's portfolio is lost.\<close>

definition kits_grow :: "portfolio_ports \<Rightarrow> 'g attestation \<Rightarrow> 'g wallet_state \<Rightarrow> 'g wallet_state \<Rightarrow> bool" where
  "kits_grow pw att s t \<longleftrightarrow> walletByAddress t = walletByAddress s \<and> walletTurns t = walletTurns s \<and>
     openFlows t = openFlows s \<and> kits_ok pw att t \<and> (\<forall>pid a. evm_owned s pid a \<longrightarrow> evm_owned t pid a)"

lemma kits_grow_refl: "kits_ok pw att s \<Longrightarrow> kits_grow pw att s s"
  by (simp add: kits_grow_def)

lemma grows_fits:
  assumes "kits_grow pw att s t" "turn_fits s w"
  shows "turn_fits t w"
proof -
  have "signer_known t = signer_known s" "\<And>pid a. evm_owned s pid a \<Longrightarrow> evm_owned t pid a"
    using assms(1) signer_known_cong [of t s] by (auto simp: kits_grow_def)
  then show ?thesis using assms(2) by (cases w) (auto simp: all_some_def split: option.splits)
qed

lemma grows_holdings:
  assumes "kits_grow pw att s t" "holdings_ok pw att s"
  shows "holdings_ok pw att t"
proof -
  have g: "walletByAddress t = walletByAddress s" "walletTurns t = walletTurns s" "openFlows t = openFlows s" "kits_ok pw att t"
    "\<And>pid a. evm_owned s pid a \<Longrightarrow> evm_owned t pid a" "wallet_holds t = wallet_holds s"
    using assms(1) wallet_holds_cong [of t s] by (auto simp: kits_grow_def)
  have "wallets_ok t" using assms(2) g unfolding holdings_ok_def wallets_ok_def by simp
  moreover have "list_all (turn_fits t) (walletTurns t)"
    using assms grows_fits [OF assms(1)] g(2) by (simp add: holdings_ok_def list_all_iff)
  moreover have "unheld t = unheld s" using g(6) by (simp add: unheld_def fun_eq_iff)
  ultimately show ?thesis using assms(2) g by (simp add: holdings_ok_def claims_def)
qed

lemma grows_ready:
  assumes "kits_grow pw att s t" "turn_ready pw att s w"
  shows "turn_ready pw att t w"
proof -
  have "claims t = claims s" "unheld t = unheld s"
    using assms(1) wallet_holds_cong [of t s] by (auto simp: kits_grow_def claims_def unheld_def fun_eq_iff)
  then show ?thesis
    using assms grows_holdings [OF assms(1)] grows_fits [OF assms(1)] by (simp add: turn_ready_def)
qed

lemma kit_ok_run: "kit_ok pw att pid r \<Longrightarrow> \<exists>r0. new_portfolio r0 \<and> (any_step pw att)\<^sup>*\<^sup>* r0 r"
  unfolding kit_ok_def new_portfolio_def new_run_def by blast

lemma kit_ok_transfer: "kit_ok pw att pid r \<Longrightarrow> transfer_inv (portfolio r)"
  using own_run.inv_reachable kit_ok_run by blast

lemma kit_ok_step: "kit_ok pw att pid r \<Longrightarrow> any_step pw att r r' \<Longrightarrow> kit_ok pw att pid r'"
  unfolding kit_ok_def by (meson rtranclp.rtrancl_into_rtrancl)

lemma kit_ok_id:
  assumes "kit_ok pw att pid r"
  shows "portfolioId (portfolio r) = pid"
proof -
  obtain owner where o: "(any_step pw att)\<^sup>*\<^sup>* (new_run pid owner) r" using assms by (auto simp: kit_ok_def)
  have "transfer_inv (portfolio (new_run pid owner))"
    by (simp add: new_run_def makePortfolio_def transfer_inv_def)
  from ownership_steps [OF this o] show ?thesis
    by (simp add: ownership_step_def ownership_kept_def new_run_def makePortfolio_def)
qed

lemma evm_account_truthy: "truthy (Some (evm_account chain a))"
  by (simp add: truthy_def evm_account_def)

lemma any_step_owner:
  assumes "kit_ok pw att pid r" "any_step pw att r r'" "truthy (sourceAccountId (portfolio r))"
  shows "sourceAccountId (portfolio r') = sourceAccountId (portfolio r)"
  using ownership_any [OF kit_ok_transfer [OF assms(1)] assms(2)] assms(3)
  by (simp add: ownership_step_def ownership_kept_def)

lemma put_portfolios_simps [simp]:
  "portfolios (put_portfolios ps s) = ps" "walletByAddress (put_portfolios ps s) = walletByAddress s"
  "walletTurns (put_portfolios ps s) = walletTurns s" "openFlows (put_portfolios ps s) = openFlows s"
  by (simp_all add: put_portfolios_def)

lemma kits_put:
  assumes "kits_ok pw att s" "map_of (portfolios s) pid = Some r" "kit_ok pw att pid r'"
  shows "kits_ok pw att (put_portfolios (put_entry pid r' (portfolios s)) s)"
  using assms by (auto simp: kits_ok_def store_size_def length_put_entry store_has_def)

lemma grows_put:
  assumes "kits_ok pw att s" "map_of (portfolios s) pid = Some r" "any_step pw att r r'"
  shows "kits_grow pw att s (put_portfolios (put_entry pid r' (portfolios s)) s)"
proof -
  have k: "kit_ok pw att pid r" using assms by (simp add: kits_ok_def)
  have "evm_owned (put_portfolios (put_entry pid r' (portfolios s)) s) p a" if "evm_owned s p a" for p a
    using that assms(2) any_step_owner [OF k assms(3)] evm_account_truthy by (fastforce simp: evm_owned_def)
  then show ?thesis using kits_put [OF assms(1,2) kit_ok_step [OF k assms(3)]] by (simp add: kits_grow_def)
qed

lemma onPortfolio_run:
  "onPortfolio pid m w s = (case map_of (portfolios s) pid of
      None \<Rightarrow> (Inl KeyNotFound, s)
    | Some r \<Rightarrow> (fst (m (portfolio r)), put_portfolios (put_entry pid (spawn w m r) (portfolios s)) s))"
  by (simp add: onPortfolio_def store_get_def store_set_def store_has_def split: option.split)

lemma onPortfolio_grows:
  assumes "kits_ok pw att s" "\<And>r. any_step pw att r (spawn w m r)" "onPortfolio pid m w s = (res, t)"
  shows "kits_grow pw att s t"
  using assms grows_put [OF assms(1) _ assms(2)] kits_grow_refl [OF assms(1)]
  by (auto simp: onPortfolio_run split: option.splits)

text \<open>A method that only reads is no step of its portfolio.\<close>

lemma put_entry_same: "store_ok m \<Longrightarrow> map_of m k = Some v \<Longrightarrow> put_entry k v m = m"
  by (rule store_ext) auto

lemma spawn_reading: "snd (m (portfolio r)) = portfolio r \<Longrightarrow> spawn (\<lambda>_. []) m r = r"
  by (cases "m (portfolio r)") (auto simp: spawn_def split: sum.split)

lemma callPortfolio_reading:
  assumes "kits_ok pw att s" "\<And>p. snd (m p) = p"
  shows "callPortfolio pid m s = (case map_of (portfolios s) pid of
      None \<Rightarrow> (Inl KeyNotFound, s) | Some r \<Rightarrow> (fst (m (portfolio r)), s))"
proof -
  have "put_portfolios (portfolios s) s = s" by (simp add: put_portfolios_def)
  then show ?thesis
    using assms(1) unfolding callPortfolio_def onPortfolio_run
    by (auto simp: spawn_reading assms(2) put_entry_same kits_ok_def split: option.split)
qed

lemma validateRepresentative_reads: "snd (validateRepresentativeInfo pw c rep b p) = p"
  by (auto simp: validateRepresentativeInfo_def split: option.splits sum.splits prod.splits)

section \<open>Methods\<close>

text \<open>The conditions under which a method returns to a good state, or throws in one.\<close>

definition leads :: "('s \<Rightarrow> bool) \<Rightarrow> ('a \<Rightarrow> 's \<Rightarrow> bool) \<Rightarrow> ('s, 'a) proc \<Rightarrow> 's \<Rightarrow> bool" where
  "leads I P m s \<longleftrightarrow> (case m s of (Inl e, t) \<Rightarrow> I t | (Inr x, t) \<Rightarrow> P x t)"

named_theorems leads_intros \<open>weakest preconditions of the process combinators\<close>

lemma leads_ret [leads_intros]: "P x s \<Longrightarrow> leads I P (ret x) s"
  by (simp add: leads_def)

lemma leads_throw [leads_intros]: "I s \<Longrightarrow> leads I P (throw e) s"
  by (simp add: leads_def)

lemma leads_liftp [leads_intros]: "I s \<Longrightarrow> (\<And>x. r = Inr x \<Longrightarrow> P x s) \<Longrightarrow> leads I P (liftp r) s"
  by (auto simp: leads_def split: sum.split)

lemma leads_requirep [leads_intros]: "I s \<Longrightarrow> (b \<Longrightarrow> P () s) \<Longrightarrow> leads I P (requirep b e) s"
  by (simp add: leads_def)

lemma leads_getsp [leads_intros]: "P (f s) s \<Longrightarrow> leads I P (getsp f) s"
  by (simp add: leads_def)

lemma leads_modifyp [leads_intros]: "P () (g s) \<Longrightarrow> leads I P (modifyp g) s"
  by (simp add: leads_def)

lemma leads_bindp [leads_intros]: "leads I (\<lambda>x t. leads I P (f x) t) m s \<Longrightarrow> leads I P (bindp m f) s"
  by (auto simp: leads_def split: prod.splits sum.splits)

lemma leads_thenp [leads_intros]: "leads I (\<lambda>_ t. leads I P k t) m s \<Longrightarrow> leads I P (thenp m k) s"
  unfolding thenp_def by (rule leads_bindp)

lemma leads_catchp: "leads (\<lambda>t. \<forall>e. leads I P (h e) t) P m s \<Longrightarrow> leads I P (catchp m h) s"
proof (cases "m s")
  case (Pair res t)
  assume "leads (\<lambda>t. \<forall>e. leads I P (h e) t) P m s"
  then show ?thesis using Pair by (cases res) (simp_all add: leads_def)
qed

lemma leads_weaken: "leads I P m s \<Longrightarrow> (\<And>t. I t \<Longrightarrow> J t) \<Longrightarrow> (\<And>x t. P x t \<Longrightarrow> Q x t) \<Longrightarrow> leads J Q m s"
  by (auto simp: leads_def split: prod.splits sum.splits)

lemma leads_run: "leads I P m s \<Longrightarrow> m s = (Inr x, t) \<Longrightarrow> P x t" "leads I P m s \<Longrightarrow> m s = (Inl e, t) \<Longrightarrow> I t"
  by (auto simp: leads_def)

lemma leads_snd: "I (snd (m s)) \<Longrightarrow> leads I (\<lambda>_. I) m s"
  by (cases "m s") (simp add: leads_def split: sum.split)

lemma snd_leads: "leads I (\<lambda>_. I) m s \<Longrightarrow> I (snd (m s))"
  by (cases "m s") (simp add: leads_def split: sum.splits)

text \<open>A message that waits for nothing in particular.\<close>

definition idle :: "portfolio_ports \<Rightarrow> 'g attestation \<Rightarrow> envelope \<Rightarrow> 'g wallet_state \<Rightarrow> bool" where
  "idle pw att env s \<longleftrightarrow> holdings_ok pw att s \<and> signer_known s env"

lemma idle_grows: "kits_grow pw att s t \<Longrightarrow> idle pw att env s \<Longrightarrow> idle pw att env t"
  using grows_holdings signer_known_cong [of t s] by (auto simp: idle_def kits_grow_def)

lemma idle_kits: "idle pw att env s \<Longrightarrow> kits_ok pw att s"
  by (simp add: idle_def holdings_ok_def)

lemma leads_grows:
  assumes "idle pw att env s" "\<And>res t. m s = (res, t) \<Longrightarrow> kits_grow pw att s t"
    and "\<And>x t. m s = (Inr x, t) \<Longrightarrow> kits_grow pw att s t \<Longrightarrow> idle pw att env t \<Longrightarrow> P x t"
  shows "leads (idle pw att env) P m s"
  using assms(2,3) idle_grows [OF _ assms(1)] by (cases "m s") (auto simp: leads_def split: sum.split)

lemma leads_onPortfolio:
  assumes "idle pw att env s" "\<And>r. any_step pw att r (spawn w m r)"
    and "\<And>x t. kits_grow pw att s t \<Longrightarrow> idle pw att env t \<Longrightarrow> P x t"
  shows "leads (idle pw att env) P (onPortfolio pid m w) s"
  using assms(3) onPortfolio_grows [OF idle_kits [OF assms(1)] assms(2)] by (intro leads_grows [OF assms(1)]) auto

lemma leads_reading:
  assumes "idle pw att env s" "\<And>p. snd (m p) = p"
    and "\<And>x r. map_of (portfolios s) pid = Some r \<Longrightarrow> fst (m (portfolio r)) = Inr x \<Longrightarrow> P x s"
  shows "leads (idle pw att env) P (callPortfolio pid m) s"
  using assms(1,3) unfolding leads_def callPortfolio_reading [OF idle_kits [OF assms(1)] assms(2)]
  by (auto split: option.split sum.split)

text \<open>What a turn may lead to.\<close>

definition awaits :: "portfolio_ports \<Rightarrow> 'g attestation \<Rightarrow> envelope \<Rightarrow> wallet_turn \<Rightarrow> 'g wallet_state \<Rightarrow> bool" where
  "awaits pw att env t s \<longleftrightarrow> idle pw att env s \<and> turn_ready pw att s t"

definition outcome_ok :: "portfolio_ports \<Rightarrow> 'g attestation \<Rightarrow> envelope \<Rightarrow> wallet_turn option \<Rightarrow> 'g wallet_state \<Rightarrow> bool" where
  "outcome_ok pw att env next_turn s \<longleftrightarrow> idle pw att env s \<and> all_some (turn_ready pw att s) next_turn"

lemma turn_ready_plain:
  "idle pw att env s \<Longrightarrow> turn_fits s t \<Longrightarrow> claim t = [] \<Longrightarrow> awaits pw att env t s"
  by (simp add: awaits_def idle_def turn_ready_def)

lemma idle_plain: "idle pw att env s \<Longrightarrow> awaits pw att env (SettledTurn env res) s"
  "idle pw att env s \<Longrightarrow> awaits pw att env (VowTurn env) s"
  by (rule turn_ready_plain; simp add: idle_def)+

lemma leads_watched:
  assumes "leads (idle pw att env) (awaits pw att env) m s"
  shows "leads (idle pw att env) (outcome_ok pw att env) (watched env m) s"
  unfolding watched_def
proof (rule leads_catchp, rule leads_bindp, rule leads_weaken [OF assms])
  fix t
  assume "idle pw att env t"
  from idle_plain(1) [OF this] show "\<forall>e. leads (idle pw att env) (outcome_ok pw att env) (ret (Some (SettledTurn env (Inl e)))) t"
    by (simp add: leads_def outcome_ok_def awaits_def all_some_def)
next
  fix w t
  assume "awaits pw att env w t"
  then show "leads (\<lambda>t. \<forall>e. leads (idle pw att env) (outcome_ok pw att env) (ret (Some (SettledTurn env (Inl e)))) t)
      (outcome_ok pw att env) (ret (Some w)) t"
    by (simp add: leads_def outcome_ok_def awaits_def all_some_def)
qed

lemma leads_next:
  assumes "leads (idle pw att env) (awaits pw att env) m s"
  shows "leads (idle pw att env) (outcome_ok pw att env) (bindp m (\<lambda>t. ret (Some t))) s"
  by (rule leads_bindp, rule leads_weaken [OF assms]) (simp_all add: leads_def outcome_ok_def awaits_def all_some_def)

section \<open>The turns of an operation\<close>

lemma spawn_call: "spawn (\<lambda>_. []) m = call m"
  by (auto simp: spawn_def call_def fun_eq_iff split: prod.split sum.split)

lemma step_grant: "any_step pw att r (spawn (\<lambda>a. [OwnerTurn a]) (evmGrant who perms) r)"
  and step_features: "any_step pw att r (spawn (\<lambda>a. [OwnerTurn a]) (evmSetAutoFeatures f) r)"
  unfolding any_step_def by (blast intro: grant_step features_step)+

lemma leads_readStore:
  "I s \<Longrightarrow> (\<And>v. map_of (get s) k = Some v \<Longrightarrow> P v s) \<Longrightarrow> leads I P (readStore get k) s"
  by (auto simp: leads_def store_get_def split: option.split)

lemma held_owned:
  "wallets_ok s \<Longrightarrow> map_of (walletByAddress s) a = Some w \<Longrightarrow> map_of w k = Some pid \<Longrightarrow> k = int pid \<and> evm_owned s pid a"
  by (simp add: wallets_ok_def)

lemma idleD: "idle pw att env s \<Longrightarrow> wallets_ok s" "idle pw att env s \<Longrightarrow> envelope_ok env"
  "idle pw att env s \<Longrightarrow> has_wallet s (env_address env)" "idle pw att env s \<Longrightarrow> signer_known s env"
  by (simp_all add: idle_def holdings_ok_def signer_known_def)

lemma ready_idle: "turn_ready pw att s t \<Longrightarrow> operating t \<Longrightarrow> idle pw att (envelope_of t) s"
  by (cases t) (auto simp: turn_ready_def idle_def)

lemma operate_ok:
  assumes "idle pw att env s"
  shows "leads (idle pw att env) (awaits pw att env) (operate env) s"
proof -
  have domain: "awaits pw att env (DomainTurn env held) s" if "all_some (\<lambda>pid. evm_owned s pid (env_address env)) held" for held
    using that idleD(4) [OF assms] by (intro turn_ready_plain [OF assms]) simp_all
  have found: "leads (idle pw att env) (awaits pw att env)
      (bindp (readStore walletByAddress (env_address env)) (\<lambda>held.
       bindp (liftp (store_get held p)) (\<lambda>pid. ret (DomainTurn env (Some pid))))) s" for p
    using assms held_owned [OF idleD(1) [OF assms]]
    by (intro leads_intros leads_readStore domain) (auto simp: all_some_def store_get_Inr)
  have accept: "awaits pw att env (AcceptTurn env p) s" for p
    using idleD(4) [OF assms] by (intro turn_ready_plain [OF assms]) simp_all
  show ?thesis
    unfolding operate_def
    by (cases "od_operation env")
      (auto simp: portfolioIdOf_def all_some_def intro!: found leads_intros domain accept assms)
qed

lemma requestOf_ok: "requestOf env = Inr req \<Longrightarrow> envelope_ok env \<Longrightarrow> request_ok req"
  by (cases "od_operation env") (auto simp: requestOf_def request_ok_def envelope_ok_def bindr_Inr_iff split: option.splits)

lemma switch_ok:
  assumes "idle pw att env s" "all_some (\<lambda>pid. evm_owned s pid (env_address env)) held"
  shows "leads (idle pw att env) (awaits pw att env) (switchOperation env held) s"
proof -
  have calls: "leads (idle pw att env) (awaits pw att env) (bindp (liftp (requestOf env)) (\<lambda>req.
      case held of None \<Rightarrow> throw AssertFailed | Some pid \<Rightarrow> ret (CallTurn env pid req))) s"
  proof (intro leads_intros assms(1))
    fix req
    assume "requestOf env = Inr req"
    then have "request_ok req" using requestOf_ok idleD(2) [OF assms(1)] by blast
    then show "leads (idle pw att env) (awaits pw att env)
        (case held of None \<Rightarrow> throw AssertFailed | Some pid \<Rightarrow> ret (CallTurn env pid req)) s"
      using assms(2) idleD(4) [OF assms(1)]
      by (cases held) (auto intro!: leads_intros assms(1) turn_ready_plain simp: all_some_def)
  qed
  have opens: "awaits pw att env (OpeningTurn env als f g permit) s"
    if "od_operation env = OpOpenPortfolio als f g" "od_permit env = Some permit" for als f g permit
    using that idleD(2,4) [OF assms(1)] by (intro turn_ready_plain [OF assms(1)]) (auto simp: envelope_ok_def)
  show ?thesis
    unfolding switchOperation_def
    by (cases "od_operation env") (auto intro!: calls opens leads_intros assms(1) split: option.split)
qed

lemma domain_ok:
  assumes "idle pw att env s"
  shows "leads (idle pw att env) (\<lambda>_ t. t = s) (validateEVMMessageDomain pw env held) s"
    and "snd (validateEVMMessageDomain pw env held s) = s"
proof -
  show l: "leads (idle pw att env) (\<lambda>_ t. t = s) (validateEVMMessageDomain pw env held) s"
    unfolding validateEVMMessageDomain_def
    by (cases held) (auto intro!: leads_intros leads_reading validateRepresentative_reads assms)
  show "snd (validateEVMMessageDomain pw env held s) = s"
    unfolding validateEVMMessageDomain_def
    by (auto simp: callPortfolio_reading [OF idle_kits [OF assms]] validateRepresentative_reads split: option.split)
qed

lemma call_ok_turn:
  assumes "idle pw att env s" "request_ok req"
  shows "leads (idle pw att env) (\<lambda>_ t. idle pw att env t) (runRequest pw pid req) s"
  using assms step_grant step_features
  by (cases req) (auto simp: runRequest_def callPortfolio_def spawn_call request_ok_def
      intro!: leads_intros leads_onPortfolio any_step_call)

subsection \<open>Opening a portfolio\<close>

lemma evm_owned_has: "evm_owned s pid a \<Longrightarrow> store_has (portfolios s) pid"
  by (auto simp: evm_owned_def store_has_def)

lemma claims_owned:
  assumes "holdings_ok pw att s" "pid \<in> set (claims s)"
  shows "\<exists>a. evm_owned s pid a"
proof -
  obtain t where t: "t \<in> set (walletTurns s)" "pid \<in> set (claim t)" using assms(2) by (auto simp: claims_def)
  then have "turn_fits s t" using assms(1) by (simp add: holdings_ok_def list_all_iff)
  with t(2) show ?thesis by (cases t) auto
qed

lemma held_is_owned: "wallets_ok s \<Longrightarrow> wallet_holds s a pid \<Longrightarrow> evm_owned s pid a"
  unfolding wallet_holds_def using held_owned by blast

lemma unowned_free:
  assumes "holdings_ok pw att s" "\<And>a. \<not> evm_owned s pid a"
  shows "pid \<notin> set (claims s)" "unheld s pid"
  using assms claims_owned [OF assms(1)] held_is_owned unfolding holdings_ok_def unheld_def by blast+

text \<open>The next number is free, so a kit is always made.\<close>

lemma makeKit_run:
  assumes "kits_ok pw att s"
  shows "\<exists>t. makeNextPortfolioKit owner s = (Inr (store_size (portfolios s)), t) \<and> kits_grow pw att s t \<and>
    map_of (portfolios t) (store_size (portfolios s)) = Some (new_run (store_size (portfolios s)) owner) \<and>
    \<not> store_has (portfolios s) (store_size (portfolios s))"
proof -
  let ?n = "store_size (portfolios s)" and ?r = "new_run (store_size (portfolios s)) owner"
  let ?t = "put_portfolios (put_entry ?n ?r (portfolios s)) s"
  have n: "\<not> store_has (portfolios s) ?n" using assms by (simp add: kits_ok_def)
  have run: "makeNextPortfolioKit owner s = (Inr ?n, ?t)"
    using n by (simp add: makeNextPortfolioKit_def store_init_def new_run_def)
  have "kit_ok pw att ?n ?r" unfolding kit_ok_def by blast
  then have "kits_ok pw att ?t"
    using assms n by (auto simp: kits_ok_def store_size_def length_put_entry)
  moreover have "evm_owned ?t p a" if "evm_owned s p a" for p a
    using that n evm_owned_has [OF that] by (auto simp: evm_owned_def)
  ultimately show ?thesis using run n by (simp add: kits_grow_def)
qed

lemma startOpening_idle:
  assumes "idle pw att env s" "opening_ok rq"
  shows "idle pw att env (s\<lparr>openFlows := openFlows s @ [(pid, rq)]\<rparr>)"
proof -
  let ?t = "s\<lparr>openFlows := openFlows s @ [(pid, rq)]\<rparr>"
  have c: "turn_fits ?t = turn_fits s" "evm_owned ?t = evm_owned s" "wallet_holds ?t = wallet_holds s" "signer_known ?t = signer_known s"
    using turn_fits_cong [of ?t s] signer_known_cong [of ?t s] by (auto simp: evm_owned_def wallet_holds_def fun_eq_iff)
  have "unheld ?t = unheld s" using c(3) by (simp add: unheld_def fun_eq_iff)
  then show ?thesis
    using assms c by (simp add: idle_def holdings_ok_def kits_ok_def wallets_ok_def claims_def)
qed

definition fresh_for :: "'g wallet_state \<Rightarrow> envelope \<Rightarrow> nat \<Rightarrow> bool" where
  "fresh_for s env pid \<longleftrightarrow> evm_owned s pid (env_address env) \<and> pid \<notin> set (claims s) \<and> unheld s pid"

lemma fresh_grows: "kits_grow pw att s t \<Longrightarrow> fresh_for s env pid \<Longrightarrow> fresh_for t env pid"
  using wallet_holds_cong [of t s] by (auto simp: fresh_for_def kits_grow_def claims_def unheld_def)

lemma awaits_claim:
  assumes "idle pw att env s" "fresh_for s env pid"
  shows "awaits pw att env (AttachTurn env pid) s"
    "opens_for rq (env_address env) \<Longrightarrow> awaits pw att env (FeaturesTurn env rq pid) s"
    "opens_for rq (env_address env) \<Longrightarrow> awaits pw att env (GranteeTurn env rq pid) s"
  using assms idleD(4) [OF assms(1)] by (simp_all add: awaits_def turn_ready_def fresh_for_def idle_def)

lemma start_attach:
  assumes "idle pw att env s" "fresh_for s env pid" "opens_for rq (env_address env)"
  shows "leads (idle pw att env) (awaits pw att env) (thenp (startOpening pid rq) (ret (AttachTurn env pid))) s"
proof -
  let ?t = "s\<lparr>openFlows := openFlows s @ [(pid, rq)]\<rparr>"
  have "idle pw att env ?t" using assms(3) by (intro startOpening_idle [OF assms(1)]) (simp add: opens_for_def)
  moreover have "fresh_for ?t env pid" using assms(2) by (simp add: fresh_for_def evm_owned_def claims_def unheld_def wallet_holds_def)
  ultimately show ?thesis unfolding startOpening_def by (intro leads_intros awaits_claim)
qed

lemma grant_opening_ok:
  assumes "idle pw att env s" "fresh_for s env pid" "opens_for rq (env_address env)"
  shows "leads (idle pw att env) (awaits pw att env) (grantOpening env rq pid) s"
proof (cases "open_grantee rq")
  case None
  then show ?thesis using start_attach [OF assms] by (simp add: grantOpening_def)
next
  case (Some g)
  obtain who perms where g: "g = (who, perms)" by fastforce
  have "leads (idle pw att env) (awaits pw att env)
      (thenp (onPortfolio pid (evmGrant who perms) (\<lambda>a. [OwnerTurn a])) (ret (GranteeTurn env rq pid))) s"
    using assms by (intro leads_thenp leads_onPortfolio [OF assms(1)] step_grant leads_ret awaits_claim) (auto intro: fresh_grows)
  then show ?thesis using Some g by (simp add: grantOpening_def)
qed

lemma open_kit_fresh:
  assumes "idle pw att env s" "opens_for rq (env_address env)"
  shows "\<exists>t. makeNextPortfolioKit (Some (open_source rq)) s = (Inr (store_size (portfolios s)), t) \<and> kits_grow pw att s t \<and>
    map_of (portfolios t) (store_size (portfolios s)) = Some (new_run (store_size (portfolios s)) (Some (open_source rq))) \<and>
    fresh_for t env (store_size (portfolios s))"
proof -
  let ?n = "store_size (portfolios s)"
  obtain t where t: "makeNextPortfolioKit (Some (open_source rq)) s = (Inr ?n, t)" "kits_grow pw att s t"
    "map_of (portfolios t) ?n = Some (new_run ?n (Some (open_source rq)))" "\<not> store_has (portfolios s) ?n"
    using makeKit_run [OF idle_kits [OF assms(1)]] by blast
  have free: "?n \<notin> set (claims s)" "unheld s ?n"
    using unowned_free [of pw att s ?n] assms(1) t(4) evm_owned_has by (auto simp: idle_def)
  have "claims t = claims s" "unheld t ?n = unheld s ?n"
    using t(2) wallet_holds_cong [of t s] by (auto simp: kits_grow_def claims_def unheld_def)
  then have "fresh_for t env ?n"
    using free t(3) assms(2) by (auto simp: fresh_for_def evm_owned_def opens_for_def new_run_def makePortfolio_def)
  then show ?thesis using t by blast
qed

lemma open_kit_ok:
  assumes "idle pw att env s" "opens_for rq (env_address env)"
  shows "leads (idle pw att env) (awaits pw att env) (openKit env rq) s"
proof -
  let ?n = "store_size (portfolios s)"
  obtain t where t: "makeNextPortfolioKit (Some (open_source rq)) s = (Inr ?n, t)" "kits_grow pw att s t" "fresh_for t env ?n"
    using open_kit_fresh [OF assms] by blast
  have i: "idle pw att env t" by (rule idle_grows [OF t(2) assms(1)])
  have "leads (idle pw att env) (awaits pw att env)
      (case open_features rq of
         Some f \<Rightarrow> thenp (onPortfolio ?n (evmSetAutoFeatures f) (\<lambda>a. [OwnerTurn a])) (ret (FeaturesTurn env rq ?n))
       | None \<Rightarrow> grantOpening env rq ?n) t"
    using grant_opening_ok [OF i t(3) assms(2)] i t(3) assms(2)
    by (auto intro!: leads_thenp leads_onPortfolio [OF i] step_features leads_ret awaits_claim intro: fresh_grows split: option.split)
  then show ?thesis using t(1) by (simp add: openKit_def leads_def)
qed

lemma checkOpening_ok:
  assumes "checkOpening pw als f g permit = Inr rq" "list_all (\<lambda>(_, portion). 0 \<le> portion) als"
  shows "opens_for rq (permit_owner permit)"
  using assms(1) target_of_allocations [OF assms(2)]
  by (auto simp: checkOpening_def Let_def bindr_Inr_iff opens_for_def opening_ok_def evm_account_def split: option.splits)

subsection \<open>Attaching a portfolio to a wallet\<close>

lemma complete_Inr:
  assumes "run_call pw (CompleteTransfer signer chain now) p = (Inr u, q)"
  shows "\<not> truthy (sourceAccountId p) \<and> sourceAccountId q = Some (evm_account chain signer)"
  using assms
  by (auto simp: completeTransfer_def insistAgoricOwned_def settleTransfer_def cancelExpiry_def callTimer_def publishStatus_def
      expireTransfer_def evm_account_def Let_def split: if_splits option.splits)

lemma complete_ok:
  assumes "idle pw att env s"
  shows "leads (idle pw att env) (awaits pw att env)
    (thenp (completeOwnershipTransfer pw env pid now) (ret (AttachTurn env pid))) s"
proof (rule leads_thenp, unfold completeOwnershipTransfer_def callPortfolio_def, rule leads_grows [OF assms])
  let ?m = "run_call pw (CompleteTransfer (env_address env) (od_chainId env) now)"
  have step: "any_step pw att r (spawn (\<lambda>_. []) ?m r)" for r by (simp only: spawn_call any_step_call call_ok.simps)
  fix res t
  assume run: "onPortfolio pid ?m (\<lambda>_. []) s = (res, t)"
  show "kits_grow pw att s t" by (rule onPortfolio_grows [OF idle_kits [OF assms] step run])
next
  let ?m = "run_call pw (CompleteTransfer (env_address env) (od_chainId env) now)"
  fix x t
  assume run: "onPortfolio pid ?m (\<lambda>_. []) s = (Inr x, t)" and g: "kits_grow pw att s t" and i: "idle pw att env t"
  obtain r where r: "map_of (portfolios s) pid = Some r" "fst (?m (portfolio r)) = Inr x"
    "t = put_portfolios (put_entry pid (call ?m r) (portfolios s)) s"
    using run by (auto simp: onPortfolio_run spawn_call split: option.splits)
  have c: "\<not> truthy (sourceAccountId (portfolio r))"
    "sourceAccountId (snd (?m (portfolio r))) = Some (evm_account (od_chainId env) (env_address env))"
    using complete_Inr [of pw "env_address env" "od_chainId env" now "portfolio r" x] r(2) by (metis prod.collapse)+
  have "\<not> evm_owned s pid a" for a using c(1) r(1) evm_account_truthy by (auto simp: evm_owned_def)
  from unowned_free [OF _ this] have "pid \<notin> set (claims s)" "unheld s pid" using assms by (auto simp: idle_def)
  moreover have "claims t = claims s" "unheld t pid = unheld s pid"
    using g wallet_holds_cong [of t s] by (auto simp: kits_grow_def claims_def unheld_def)
  moreover have "evm_owned t pid (env_address env)" using c(2) r(3) by (auto simp: evm_owned_def call_def)
  ultimately have "fresh_for t env pid" by (simp add: fresh_for_def)
  then show "leads (idle pw att env) (awaits pw att env) (ret (AttachTurn env pid)) t"
    by (intro leads_ret awaits_claim(1) i)
qed

lemma put_wallets_simps [simp]:
  "portfolios (put_wallets ws s) = portfolios s" "walletByAddress (put_wallets ws s) = ws"
  "walletTurns (put_wallets ws s) = walletTurns s" "openFlows (put_wallets ws s) = openFlows s"
  by (simp_all add: put_wallets_def)

lemma more_wallets_fit:
  assumes "portfolios t = portfolios s" "\<And>a. has_wallet s a \<Longrightarrow> has_wallet t a" "turn_fits s w"
  shows "turn_fits t w"
  using assms(2,3) evm_owned_cong [OF assms(1)] by (cases w) (auto simp: signer_known_def)

text \<open>A wallet that is replaced, or a new one.\<close>

lemma put_wallet_ok:
  assumes "holdings_ok pw att s" "store_ok w" "\<And>k pid. map_of w k = Some pid \<Longrightarrow> k = int pid \<and> evm_owned s pid a"
    and "\<And>pid. wallet_holds s a pid \<Longrightarrow> map_of w (int pid) = Some pid"
    and "\<And>pid. map_of w (int pid) = Some pid \<Longrightarrow> wallet_holds s a pid \<or> unheld s pid \<and> pid \<notin> set (claims s)"
  shows "holdings_ok pw att (put_wallets (put_entry a w (walletByAddress s)) s)"
proof -
  let ?t = "put_wallets (put_entry a w (walletByAddress s)) s"
  have ok: "wallets_ok s" using assms(1) by (simp add: holdings_ok_def)
  have e: "evm_owned ?t = evm_owned s" "claims ?t = claims s"
    by (rule evm_owned_cong, simp) (simp add: claims_def)
  have h: "wallet_holds ?t b pid \<longleftrightarrow> (if b = a then map_of w (int pid) = Some pid else wallet_holds s b pid)" for b pid
  proof (cases "b = a")
    case True
    have "(\<exists>k. map_of w k = Some pid) \<longleftrightarrow> map_of w (int pid) = Some pid" using assms(3) by blast
    then show ?thesis using True by (simp add: wallet_holds_def)
  next
    case False
    then show ?thesis by (simp add: wallet_holds_def)
  qed
  have single: "b = c" if "wallet_holds ?t b pid" "wallet_holds ?t c pid" for b c pid
  proof -
    have "d = a" if "wallet_holds ?t a pid" "wallet_holds ?t d pid" for d
    proof (rule ccontr)
      assume "d \<noteq> a"
      then have "wallet_holds s d pid" "map_of w (int pid) = Some pid" using that h by simp_all
      then show False using assms(5) [of pid] ok \<open>d \<noteq> a\<close> unfolding wallets_ok_def unheld_def by blast
    qed
    then show ?thesis
      using that h [of b pid] h [of c pid] ok unfolding wallets_ok_def by (metis (no_types))
  qed
  have "wallets_ok ?t"
    using ok assms(2,3) single unfolding wallets_ok_def e by auto
  moreover have "kits_ok pw att ?t" using assms(1) by (simp add: holdings_ok_def kits_ok_def)
  moreover have "list_all (turn_fits ?t) (walletTurns ?t)"
    using assms(1) more_wallets_fit [of ?t s] by (auto simp: holdings_ok_def list_all_iff has_wallet_def)
  moreover have "list_all (unheld ?t) (claims ?t)"
    unfolding list_all_iff
  proof (intro ballI)
    fix pid
    assume "pid \<in> set (claims ?t)"
    then have c: "pid \<in> set (claims s)" "unheld s pid" using assms(1) e by (auto simp: holdings_ok_def list_all_iff)
    then have "map_of w (int pid) \<noteq> Some pid" using assms(5) [of pid] by (auto simp: unheld_def)
    then show "unheld ?t pid" using c(2) h by (simp add: unheld_def)
  qed
  ultimately show ?thesis using assms(1) e by (simp add: holdings_ok_def)
qed

text \<open>Attaching always succeeds: the wallet exists, and nobody holds the portfolio yet.\<close>

lemma attach_run:
  assumes "turn_ready pw att s (AttachTurn env pid)"
  shows "\<exists>w. map_of (walletByAddress s) (env_address env) = Some w \<and> \<not> store_has w (int pid) \<and>
    attachPortfolio env pid s = (Inr (store_values (put_entry (int pid) pid w)),
      put_wallets (put_entry (env_address env) (put_entry (int pid) pid w) (walletByAddress s)) s)"
proof -
  have s: "holdings_ok pw att s" "signer_known s env" "evm_owned s pid (env_address env)" "unheld s pid"
    using assms by (simp_all add: turn_ready_def)
  obtain w where w: "map_of (walletByAddress s) (env_address env) = Some w"
    using s(2) by (auto simp: signer_known_def has_wallet_def store_has_iff)
  obtain r where r: "map_of (portfolios s) pid = Some r" using s(3) by (auto simp: evm_owned_def)
  have kits: "kits_ok pw att s" using s(1) by (simp add: holdings_ok_def)
  then have n: "portfolioId (portfolio r) = pid" using r kit_ok_id unfolding kits_ok_def by blast
  have "\<not> store_has w (int pid)"
  proof
    assume "store_has w (int pid)"
    then obtain p where p: "map_of w (int pid) = Some p" by (auto simp: store_has_iff)
    then have "p = pid" using held_owned [OF _ w p] s(1) by (auto simp: holdings_ok_def)
    then show False using p w s(4) by (auto simp: unheld_def wallet_holds_def)
  qed
  then show ?thesis
    using w r n
    by (simp add: attachPortfolio_def callPortfolio_reading [OF kits] store_init_def store_get_def store_set_def store_has_def)
qed

lemma attach_ok:
  assumes "turn_ready pw att s (AttachTurn env pid)"
  shows "leads (idle pw att env) (\<lambda>paths t. awaits pw att env (PathsTurn env pid paths) t) (attachPortfolio env pid) s"
proof -
  obtain w where w: "map_of (walletByAddress s) (env_address env) = Some w" "\<not> store_has w (int pid)"
    "attachPortfolio env pid s = (Inr (store_values (put_entry (int pid) pid w)),
      put_wallets (put_entry (env_address env) (put_entry (int pid) pid w) (walletByAddress s)) s)"
    using attach_run [OF assms] by blast
  let ?w = "put_entry (int pid) pid w"
  let ?t = "put_wallets (put_entry (env_address env) ?w (walletByAddress s)) s"
  have s: "holdings_ok pw att s" "signer_known s env" "evm_owned s pid (env_address env)" "unheld s pid" "pid \<notin> set (claims s)"
    using assms by (simp_all add: turn_ready_def)
  have ok: "wallets_ok s" using s(1) by (simp add: holdings_ok_def)
  note h = held_owned [OF ok w(1)]
  have "holdings_ok pw att ?t"
  proof (rule put_wallet_ok [OF s(1)])
    show "store_ok ?w" using ok w(1) by (auto simp: wallets_ok_def)
    show "map_of ?w k = Some p \<Longrightarrow> k = int p \<and> evm_owned s p (env_address env)" for k p
      using h s(3) by (auto split: if_splits)
    show "map_of ?w (int p) = Some p" if "wallet_holds s (env_address env) p" for p
      using that w(1) h by (auto simp: wallet_holds_def)
    show "wallet_holds s (env_address env) p \<or> unheld s p \<and> p \<notin> set (claims s)" if "map_of ?w (int p) = Some p" for p
      using that w(1) s(4,5) by (auto simp: wallet_holds_def split: if_splits)
  qed
  moreover have "signer_known ?t env" using s(2) by (auto simp: signer_known_def has_wallet_def)
  ultimately have "idle pw att env ?t" by (simp add: idle_def)
  then have "awaits pw att env (PathsTurn env pid paths) ?t" for paths
    by (intro turn_ready_plain) (simp_all add: idle_def)
  then show ?thesis using w(3) by (simp add: leads_def)
qed

section \<open>Every turn and every step\<close>

lemma operationTurn_ok:
  assumes "turn_ready pw att s t" "operating t"
  shows "leads (idle pw att (envelope_of t)) (outcome_ok pw att (envelope_of t)) (operationTurn pw now outcome t) s"
proof -
  have i: "idle pw att (envelope_of t) s" by (rule ready_idle [OF assms])
  have fits: "turn_fits s t" using assms(1) by (simp add: turn_ready_def)
  have finish: "outcome_ok pw att env None u" if "idle pw att env u" for env u
    using that by (simp add: outcome_ok_def all_some_def)
  have wait: "outcome_ok pw att env (Some t') u" if "awaits pw att env t' u" for env t' u
    using that by (simp add: outcome_ok_def awaits_def all_some_def)
  have fresh: "fresh_for s env pid" if "t = FeaturesTurn env rq pid \<or> t = GranteeTurn env rq pid" for env rq pid
    using that assms(1) by (auto simp: turn_ready_def fresh_for_def)
  show ?thesis
  proof (cases t)
    case (OperateTurn env)
    then show ?thesis using i by (simp add: leads_next operate_ok)
  next
    case (DomainTurn env held)
    have w: "outcome_ok pw att env (Some (SwitchTurn env held v)) s" for v
      using i fits DomainTurn by (intro wait turn_ready_plain) simp_all
    have "snd (validateEVMMessageDomain pw env held s) = s" using domain_ok(2) i DomainTurn by simp
    then show ?thesis using DomainTurn w by (cases "validateEVMMessageDomain pw env held s") (auto simp: leads_def split: sum.split)
  next
    case (SwitchTurn env held v)
    then show ?thesis using i fits by (auto intro!: leads_bindp leads_liftp leads_next switch_ok)
  next
    case (CallTurn env pid req)
    have "leads (idle pw att env) (awaits pw att env) (thenp (runRequest pw pid req)
        (ret (if answers_at_once req then SettledTurn env (Inr ()) else VowTurn env))) s"
      using i fits CallTurn
      by (intro leads_thenp leads_weaken [OF call_ok_turn]) (auto intro!: leads_ret idle_plain)
    then show ?thesis using CallTurn by (simp add: leads_watched)
  next
    case (VowTurn env)
    then show ?thesis using i finish by (auto intro!: leads_intros)
  next
    case (SettledTurn env res)
    then show ?thesis using i finish by (auto intro!: leads_intros)
  next
    case (AcceptTurn env p)
    have "leads (idle pw att env) (awaits pw att env)
        (bindp (beginOwnershipTransfer pw env p) (\<lambda>pid. ret (CompleteTurn env pid))) s"
      using i AcceptTurn unfolding beginOwnershipTransfer_def
      by (auto intro!: leads_intros leads_reading validateRepresentative_reads turn_ready_plain dest: idleD(4))
    then show ?thesis using AcceptTurn by (simp add: leads_watched)
  next
    case (CompleteTurn env pid)
    then show ?thesis using i by (simp add: leads_watched complete_ok)
  next
    case (OpeningTurn env als f g permit)
    have "leads (idle pw att env) (awaits pw att env)
        (bindp (liftp (checkOpening pw als f g permit)) (\<lambda>rq. ret (PreflightTurn env rq))) s"
      using i fits OpeningTurn checkOpening_ok [of pw als f g permit]
      by (auto intro!: leads_intros turn_ready_plain)
    then show ?thesis using OpeningTurn by (simp add: leads_watched)
  next
    case (PreflightTurn env rq)
    have "leads (idle pw att env) (awaits pw att env)
        (thenp (case open_grantee rq of None \<Rightarrow> ret () | Some _ \<Rightarrow> liftp outcome) (openKit env rq)) s"
      using i fits PreflightTurn by (auto intro!: leads_intros open_kit_ok split: option.split)
    then show ?thesis using PreflightTurn by (simp add: leads_watched)
  next
    case (FeaturesTurn env rq pid)
    have "leads (idle pw att env) (awaits pw att env) (thenp (liftp outcome) (grantOpening env rq pid)) s"
      using i fits FeaturesTurn fresh by (intro leads_thenp leads_liftp grant_opening_ok) auto
    then show ?thesis using FeaturesTurn by (simp add: leads_watched)
  next
    case (GranteeTurn env rq pid)
    have "leads (idle pw att env) (awaits pw att env)
        (thenp (liftp outcome) (thenp (startOpening pid rq) (ret (AttachTurn env pid)))) s"
      using i fits GranteeTurn fresh by (intro leads_thenp [of _ _ "thenp _ _"] leads_liftp start_attach) auto
    then show ?thesis using GranteeTurn by (simp add: leads_watched)
  next
    case (AttachTurn env pid)
    then have "turn_ready pw att s (AttachTurn env pid)" using assms(1) by simp
    from attach_ok [OF this] show ?thesis
      unfolding AttachTurn operationTurn.simps envelope_of.simps
      by (intro leads_bindp, elim leads_weaken) (auto intro: leads_ret wait)
  next
    case (PathsTurn env pid paths)
    have "idle pw att env (s\<lparr>walletPaths := ps\<rparr>)" for ps
      using i PathsTurn holdings_cong [of "s\<lparr>walletPaths := ps\<rparr>" s] signer_known_cong [of "s\<lparr>walletPaths := ps\<rparr>" s]
      by (simp add: idle_def)
    then show ?thesis using PathsTurn finish by (auto intro!: leads_intros)
  qed (use assms(2) in simp_all)
qed

lemma run_operation_holdings:
  assumes "turn_ready pw att s t" "operating t"
  shows "holdings_ok pw att (snd (runOperation pw now outcome t s))"
proof -
  obtain res u where u: "operationTurn pw now outcome t s = (res, u)" by fastforce
  have l: "case res of Inl _ \<Rightarrow> idle pw att (envelope_of t) u | Inr x \<Rightarrow> outcome_ok pw att (envelope_of t) x u"
    using operationTurn_ok [OF assms, of now outcome] u by (simp add: leads_def)
  have publish: "holdings_ok pw att (snd (publishUpdate env st u))" if "holdings_ok pw att u" for env st
    using that holdings_cong [of "snd (publishUpdate env st u)" u] by (simp add: publishUpdate_def)
  show ?thesis
  proof (cases res)
    case (Inl e)
    then show ?thesis using l u publish by (simp add: runOperation_def idle_def)
  next
    case (Inr x)
    then show ?thesis
      using l u publish add_turn [of pw att u]
      by (cases x) (auto simp: runOperation_def outcome_ok_def idle_def all_some_def later_def)
  qed
qed

lemma new_wallet_ok:
  assumes "holdings_ok pw att s" "\<not> has_wallet s a"
  shows "holdings_ok pw att (put_wallets (put_entry a [] (walletByAddress s)) s)"
  using assms(2) by (intro put_wallet_ok [OF assms(1)]) (auto simp: wallet_holds_def has_wallet_def store_has_def)

lemma accept_holdings:
  assumes "holdings_ok pw att s" "envelope_ok env"
  shows "holdings_ok pw att (snd (acceptMessage env now s))"
proof -
  let ?I = "holdings_ok pw att"
  have nonces: "leads ?I (\<lambda>_. ?I) (zoomp nonceStores put_nonces m) u" if "?I u" for m :: "unit nonce_method" and u
    using that holdings_cong [of "put_nonces n u" u for n]
    by (auto simp: leads_def put_nonces_def split: prod.splits sum.splits)
  have node: "?I (snd (later (NodeTurn env) u))" if "?I u" "has_wallet u (env_address env)" for u
    using that assms(2) add_turn [of pw att u "NodeTurn env"] by (simp add: turn_ready_def signer_known_def later_def)
  have wallet: "?I (snd (thenp (getWalletForAddress (env_address env)) (later (NodeTurn env)) u))" if "?I u" for u
  proof (cases "has_wallet u (env_address env)")
    case True
    then show ?thesis using node [OF that] by (simp add: getWalletForAddress_def has_wallet_def)
  next
    case False
    have "has_wallet (put_wallets (put_entry (env_address env) [] (walletByAddress u)) u) (env_address env)"
      by (simp add: has_wallet_def)
    from node [OF new_wallet_ok [OF that False] this] show ?thesis
      using False by (simp add: getWalletForAddress_def has_wallet_def store_init_def)
  qed
  have "leads ?I (\<lambda>_. ?I) (acceptMessage env now) s"
    unfolding acceptMessage_def
    by (rule leads_thenp, rule leads_weaken [OF nonces [OF assms(1)]], assumption,
        rule leads_thenp, rule leads_requirep, assumption,
        rule leads_thenp, rule leads_requirep, assumption,
        rule leads_thenp, rule leads_weaken [OF nonces], assumption, assumption,
        rule leads_snd, rule wallet)
  then show ?thesis by (rule snd_leads)
qed

lemma message_holdings:
  assumes "holdings_ok pw att s" "data_ok wp d"
  shows "holdings_ok pw att (snd (handleMessage wp d s))"
proof -
  have "envelope_ok (extractOperationDetails m a)" if "operation_ok (tm_operation m)" for m a
    using that by (auto simp: envelope_ok_def extractOperationDetails_def extractPermitDetails_def)
  then have "holdings_ok pw att (snd (later (TimeTurn (extractOperationDetails m a)) s))" if "operation_ok (tm_operation m)" for m a
    using that assms(1) add_turn [of pw att s] by (simp add: turn_ready_def later_def)
  then show ?thesis
    using assms by (auto simp: handleMessage_def data_ok_def split: sum.splits)
qed

lemma step_open:
  assumes "opening_ok rq"
  shows "any_step pw att r (spawn (\<lambda>v. [OpenTurn (Some (open_amount rq)) (Some (open_chain rq)) (committed_open (open_target rq) v)])
    (setTargetAllocation (open_target rq)) r)"
  using assms open_step [of "open_target rq" "Some (open_amount rq)" pw att r "Some (open_chain rq)"]
  unfolding any_step_def by (auto simp: opening_ok_def all_some_def AnyNatAmountShape_def)

lemma holdings_step:
  assumes "wallet_step pw wp att s t" "holdings_ok pw att s"
  shows "holdings_ok pw att t"
  using assms(1)
proof (cases rule: wallet_step.cases)
  case (message_step d)
  then show ?thesis using message_holdings [OF assms(2)] by simp
next
  case (wallet_turn_step w now outcome)
  let ?s = "s\<lparr>walletTurns := remove1 w (walletTurns s), chainTime := now\<rparr>"
  have r: "turn_ready pw att ?s w" by (rule take_turn [OF assms(2) wallet_turn_step(2)])
  show ?thesis
  proof (cases "operating w")
    case True
    then have "runWalletTurn pw now outcome w = (runOperation pw now outcome w :: ('b, unit) wallet_method)" by (cases w) auto
    then show ?thesis using run_operation_holdings [OF r True] wallet_turn_step(1) by simp
  next
    case False
    have node: "holdings_ok pw att (snd (publishPending env ?s))" if "w = NodeTurn env" for env
    proof -
      let ?u = "snd (publishUpdate env UpdatePending ?s)"
      have "turn_ready pw att ?u (OperateTurn env)"
        using r that holdings_cong [of ?u ?s] signer_known_cong [of ?u ?s] by (simp add: turn_ready_def publishUpdate_def)
      from add_turn [OF this] show ?thesis by (simp add: publishPending_def publishUpdate_def later_def)
    qed
    show ?thesis
      using False wallet_turn_step(1) node accept_holdings [of pw att ?s] r by (cases w) (auto simp: turn_ready_def)
  qed
next
  case kit_step
  have "kits_ok pw att s" using assms(2) by (simp add: holdings_ok_def)
  from makeKit_run [OF this, of None] kit_step have "kits_grow pw att s t" by auto
  then show ?thesis using assms(2) by (rule grows_holdings)
next
  case (flow_step pid rq)
  let ?s = "s\<lparr>openFlows := remove1 (pid, rq) (openFlows s)\<rparr>"
  have ok: "opening_ok rq" using assms(2) flow_step(2) by (auto simp: holdings_ok_def list_all_iff)
  have c: "turn_fits ?s = turn_fits s" "evm_owned ?s = evm_owned s" "wallet_holds ?s = wallet_holds s"
    using turn_fits_cong [of ?s s] by (auto simp: evm_owned_def wallet_holds_def fun_eq_iff)
  then have "unheld ?s = unheld s" by (simp add: unheld_def fun_eq_iff)
  then have s: "holdings_ok pw att ?s"
    using assms(2) c by (auto simp: holdings_ok_def kits_ok_def wallets_ok_def claims_def list_all_iff dest: notin_set_remove1)
  obtain res u where u: "runOpening pid rq ?s = (res, u)" by fastforce
  have "kits_ok pw att ?s" using s by (simp add: holdings_ok_def)
  from onPortfolio_grows [OF this step_open [OF ok] u [unfolded runOpening_def]] have "kits_grow pw att ?s u" .
  then show ?thesis using grows_holdings s u flow_step(1) by simp
next
  case (holder_step pid r r')
  have "kits_ok pw att s" using assms(2) by (simp add: holdings_ok_def)
  from grows_put [OF this holder_step(2,3)] holder_step(1) have "kits_grow pw att s t" by simp
  then show ?thesis using assms(2) by (rule grows_holdings)
qed

lemma new_wallets_holdings: "new_wallets s \<Longrightarrow> holdings_ok pw att s"
  by (auto simp: new_wallets_def holdings_ok_def kits_ok_def wallets_ok_def wallet_holds_def claims_def store_size_def)

interpretation holding: machine new_wallets "wallet_step pw wp att" "holdings_ok pw att" for pw wp att
  by unfold_locales (auto intro: new_wallets_holdings holdings_step)

end
