(* ===== verification/WalletFacts.thy ===== *)
theory WalletFacts
  imports WalletBooks WalletHoldings
begin

text \<open>
  What holds of the wallets in every state they can reach: messages are accepted once and
  concluded once, nonces remember exactly the messages that could be replayed, and wallets act
  on and hold only portfolios of their own account.
\<close>

section \<open>A message, carried through\<close>

definition ex_wallet_ports :: "typed_message wallet_ports" where
  "ex_wallet_ports = \<lparr>hashTypedData = (\<lambda>_. ''0xAA''), recoverAddress = (\<lambda>_ _. Inr ''0xAB''), getAddress = Inr,
     validateTypedData = Inr\<rparr>"

definition ex_open :: "(string \<times> wire_permissions) option \<Rightarrow> typed_message eip712_data" where
  "ex_open g = \<lparr>signedData = \<lparr>tm_operation = OpOpenPortfolio [(''Aave_Ethereum'', 1)] None g,
     tm_chainId = ''1'', tm_contract = ''0xPermit2'', tm_permit = Some (''0xUSDC'', 100, ''0xDF''), tm_nonce = 5, tm_deadline = 200\<rparr>,
     verifiedSigner = None, expectedHash = Some ''0xaa''\<rparr>"

definition ex_wallets :: "nat wallet_state" where
  "ex_wallets = \<lparr>chainTime = 50, nonceStores = \<lparr>noncesByDeadline = [], noncesByOwner = []\<rparr>,
     walletByAddress = [], portfolios = [], walletTurns = [], openFlows = [], messageUpdates = [], walletPaths = []\<rparr>"

lemma ex_wallets_new: "new_wallets ex_wallets"
  by (simp add: new_wallets_def ex_wallets_def)

definition ex_turn :: "nat wallet_state \<Rightarrow> nat wallet_state" where
  "ex_turn s = (case walletTurns s of [] \<Rightarrow> s
    | t # ts \<Rightarrow> snd (runWalletTurn ex_ports 100 (Inr ()) t (s\<lparr>walletTurns := ts, chainTime := 100\<rparr>)))"

fun ex_turns :: "nat \<Rightarrow> nat wallet_state \<Rightarrow> nat wallet_state" where
  "ex_turns 0 s = s"
| "ex_turns (Suc n) s = ex_turns n (ex_turn s)"

definition ex_handled :: "(string \<times> wire_permissions) option \<Rightarrow> nat \<Rightarrow> nat wallet_state" where
  "ex_handled g n = ex_turns n (snd (handleMessage ex_wallet_ports (ex_open g) ex_wallets))"

lemma time_kept: "keeps (\<lambda>s :: 'g wallet_state. chainTime s = c) (runWalletTurn pw now outcome t)"
proof -
  have op: "keeps (\<lambda>s :: 'g wallet_state. chainTime s = c) (runOperation pw now outcome t)"
  proof (rule keepsI)
    fix s :: "'g wallet_state"
    assume c: "chainTime s = c"
    obtain res u where u: "operationTurn pw now outcome t s = (res, u)" by fastforce
    have "books (snd (operationTurn pw now outcome t s)) = books s" by (rule keepsD [OF books_operation refl])
    then have "chainTime u = c" using u c books_fields(1) by force
    then show "chainTime (snd (runOperation pw now outcome t s)) = c"
      using u by (auto simp: runOperation_def publishUpdate_def later_def split: sum.split option.split)
  qed
  have zoom: "keeps (\<lambda>s :: 'g wallet_state. chainTime s = c) (zoomp nonceStores put_nonces m)" for m :: "unit nonce_method"
    by (auto simp: keeps_def put_nonces_def split: prod.split)
  have "keeps (\<lambda>s :: 'g wallet_state. chainTime s = c) (acceptMessage env now)" "keeps (\<lambda>s :: 'g wallet_state. chainTime s = c) (publishPending env)" for env
    unfolding acceptMessage_def publishPending_def later_def publishUpdate_def getWalletForAddress_def
    by (intro keeps_intros zoom keeps_modifyp keeps_writeStore; simp add: put_wallets_def)+
  then show ?thesis using op by (cases t) simp_all
qed

lemma ex_turn_step:
  assumes "chainTime s \<le> 100"
  shows "(wallet_step ex_ports wp ex_attestation)\<^sup>*\<^sup>* s (ex_turn s) \<and> chainTime (ex_turn s) \<le> 100"
proof (cases "walletTurns s")
  case Nil
  then show ?thesis using assms by (simp add: ex_turn_def)
next
  case (Cons t ts)
  have "wallet_step ex_ports wp ex_attestation s (ex_turn s)"
    using wallet_turn_step [of t s 100 ex_ports wp ex_attestation "Inr ()"] Cons assms by (simp add: ex_turn_def)
  moreover have "chainTime (ex_turn s) = 100"
    using keepsD [OF time_kept, of "s\<lparr>walletTurns := ts, chainTime := 100\<rparr>" 100] Cons by (simp add: ex_turn_def)
  ultimately show ?thesis by auto
qed

lemma ex_turns_steps:
  "chainTime s \<le> 100 \<Longrightarrow> (wallet_step ex_ports wp ex_attestation)\<^sup>*\<^sup>* s (ex_turns n s)"
proof (induction n arbitrary: s)
  case (Suc n)
  then show ?case using ex_turn_step [OF Suc.prems, of wp] by (auto intro: rtranclp_trans)
qed simp

lemma ex_handled_reached: "(wallet_step ex_ports ex_wallet_ports ex_attestation)\<^sup>*\<^sup>* ex_wallets (ex_handled g n)"
proof -
  let ?s = "snd (handleMessage ex_wallet_ports (ex_open g) ex_wallets)"
  have "data_ok ex_wallet_ports (ex_open g)" by (simp add: data_ok_def ex_wallet_ports_def ex_open_def)
  from message_step [OF this] have "wallet_step ex_ports ex_wallet_ports ex_attestation ex_wallets ?s" .
  moreover have "chainTime ?s \<le> 100"
    by (auto simp: handleMessage_def later_def ex_wallets_def split: sum.split)
  ultimately show ?thesis
    unfolding ex_handled_def using ex_turns_steps converse_rtranclp_into_rtranclp by metis
qed

lemma ex_wallet_runs:
  "accepted (ex_handled None 3) = [(''0xAB'', 5, 200)]"
  "map fst (walletByAddress (ex_handled None 9)) = [''0xAB'']"
  "map upd_status (messageUpdates (ex_handled None 9)) = [UpdatePending, UpdateOk]"
  by code_simp+

text \<open>A second message of the owner, and a grant without allocation.\<close>

definition ex_rebalance :: "typed_message eip712_data" where
  "ex_rebalance = \<lparr>signedData = \<lparr>tm_operation = OpRebalance 0, tm_chainId = ''1'', tm_contract = ''0xDF'',
     tm_permit = None, tm_nonce = 6, tm_deadline = 200\<rparr>, verifiedSigner = Some ''0xAB'', expectedHash = None\<rparr>"

definition ex_lca :: account_info where
  "ex_lca = \<lparr>info_chain = ''agoric'', info_err = None,
     info_detail = AgoricAccount (''agoric-3'', ''agoric1lca'') (''agoric-3'', ''agoric1in'')\<rparr>"

definition ex_account :: "nat wallet_state \<Rightarrow> nat wallet_state" where
  "ex_account s = (case map_of (portfolios s) 0 of None \<Rightarrow> s
     | Some r \<Rightarrow> put_portfolios (put_entry 0 (call (run_call ex_ports (InitAccountInfo ex_lca)) r) (portfolios s)) s)"

definition ex_called :: "nat wallet_state" where
  "ex_called = ex_turns 5 (snd (handleMessage ex_wallet_ports ex_rebalance (ex_account (ex_handled None 9))))"

lemma ex_called_reached: "(wallet_step ex_ports ex_wallet_ports ex_attestation)\<^sup>*\<^sup>* ex_wallets ex_called"
proof -
  let ?r = "ex_handled None 9"
  let ?s = "snd (handleMessage ex_wallet_ports ex_rebalance (ex_account ?r))"
  have "call_ok (InitAccountInfo ex_lca)" by simp
  then have "(wallet_step ex_ports ex_wallet_ports ex_attestation)\<^sup>*\<^sup>* ?r (ex_account ?r)"
    unfolding ex_account_def
    by (auto simp del: run_call.simps split: option.split intro!: r_into_rtranclp holder_step any_step_call)
  moreover have "data_ok ex_wallet_ports ex_rebalance" by (simp add: data_ok_def ex_wallet_ports_def ex_rebalance_def)
  from message_step [OF this] have "wallet_step ex_ports ex_wallet_ports ex_attestation (ex_account ?r) ?s" .
  moreover have "chainTime ?s \<le> 100" by code_simp
  ultimately show ?thesis
    unfolding ex_called_def using ex_turns_steps ex_handled_reached rtranclp_trans converse_rtranclp_into_rtranclp by metis
qed

definition ex_grantee :: "(string \<times> wire_permissions) option" where
  "ex_grantee = Some (''agoric1x'', \<lparr>wire_allocation = Some False, wire_limits = no_limits\<rparr>)"

section \<open>Messages and nonces\<close>

text \<open>C3: A signed message is acted on at most once: in every state the wallets can reach, a message
  (its signer, nonce and deadline) that was accepted was accepted once, and presented again, at
  this time or any later one, it is refused.\<close>

theorem message_accepted_once:
  assumes "new_wallets s0" "(wallet_step pw wp att)\<^sup>*\<^sup>* s0 s"
    and "key_of env \<in> set (accepted s)" "chainTime s \<le> now"
  shows "count (mset (accepted s)) (key_of env) = 1 \<and>
    (\<exists>e t. acceptMessage env now (s\<lparr>chainTime := now\<rparr>) = (Inl e, t) \<and> accepted t = accepted s)"
proof -
  let ?s = "s\<lparr>chainTime := now\<rparr>"
  have okay: "books_ok s" by (rule booked.inv_reachable [OF assms(1,2)])
  have ok: "books_ok ?s" by (rule books_clock [OF okay assms(4)])
  have one: "count (mset (accepted s)) (key_of env) = 1"
    using distinct_count_atmost_1 [THEN iffD1, OF books_okD(4) [OF okay], rule_format, of "key_of env"] assms(3)
    by (simp only: if_True)
  have acc: "accepted ?s = accepted s" by (simp add: accepted_def begun_def)
  have "\<not> acceptable env ?s" using assms(3) acceptable_iff [OF ok] acc by (auto simp: key_of_def)
  then show ?thesis using one acceptMessage_run(2) [OF ok] after_expiry_books(4) [OF ok] acc by fastforce
qed

lemma message_accepted_once_witness:
  "\<exists>e t. acceptMessage (extractOperationDetails (signedData (ex_open None)) ''0xAB'') 150 ((ex_handled None 3)\<lparr>chainTime := 150\<rparr>) = (Inl e, t)"
proof -
  let ?env = "extractOperationDetails (signedData (ex_open None)) ''0xAB''"
  have "key_of ?env \<in> set (accepted (ex_handled None 3))" "chainTime (ex_handled None 3) \<le> 150" by code_simp+
  from message_accepted_once [OF ex_wallets_new ex_handled_reached this] show ?thesis by blast
qed

text \<open>C13: The handling of a message is published in order: a message is published as pending at most
  once, and while it is being handled no outcome is published for it, and once its handling has
  ended exactly one is.\<close>

theorem message_concluded_once:
  assumes "new_wallets s0" "(wallet_step pw wp att)\<^sup>*\<^sup>* s0 s"
  shows "count (mset (begun s)) k \<le> 1 \<and>
    count (mset (turn_keys operating s)) k + count (mset (concluded s)) k = count (mset (begun s)) k"
proof -
  have ok: "books_ok s" by (rule booked.inv_reachable [OF assms])
  have "distinct (begun s)" using books_okD(4) [OF ok] unfolding accepted_def distinct_append by blast
  then have "count (mset (begun s)) k = (if k \<in> set (begun s) then 1 else 0)" by (simp only: distinct_count_atmost_1)
  moreover have "count (mset (begun s)) k = count (mset (concluded s)) k + count (mset (turn_keys operating s)) k"
    unfolding books_okD(6) [OF ok] by (rule count_union)
  ultimately show ?thesis by (simp split: if_splits)
qed

lemma message_concluded_once_witness:
  "count (mset (turn_keys operating (ex_handled None 9))) (''0xAB'', 5, 200) +
     count (mset (concluded (ex_handled None 9))) (''0xAB'', 5, 200) = count (mset (begun (ex_handled None 9))) (''0xAB'', 5, 200)"
  using message_concluded_once [OF ex_wallets_new ex_handled_reached] by blast

text \<open>C14: Whether a message is accepted depends only on the time and the messages accepted before:
  it is accepted exactly when its deadline is now or within a day, and no accepted message of
  its signer with its nonce is still in time. A refused message accepts nothing.\<close>

theorem acceptance_decided:
  assumes "new_wallets s0" "(wallet_step pw wp att)\<^sup>*\<^sup>* s0 s"
  shows "if chainTime s \<le> env_deadline env \<and> env_deadline env \<le> chainTime s + 86400 \<and>
      \<not> (\<exists>dl. (env_address env, env_nonce env, dl) \<in> set (accepted s) \<and> chainTime s \<le> dl)
    then \<exists>t. acceptMessage env (chainTime s) s = (Inr (), t) \<and> accepted t = accepted s @ [key_of env]
    else \<exists>e t. acceptMessage env (chainTime s) s = (Inl e, t) \<and> accepted t = accepted s"
proof -
  have ok: "books_ok s" by (rule booked.inv_reachable [OF assms])
  have day: "MAX_YMAX_DEADLINE_OFFSET_SECONDS = 86400" by (simp add: MAX_YMAX_DEADLINE_OFFSET_SECONDS_def)
  show ?thesis
    using acceptMessage_run [OF ok, of env] accepted_keys [OF ok, of env] after_expiry_books(4) [OF ok]
    unfolding acceptable_iff [OF ok, unfolded day] by auto
qed

lemma acceptance_decided_witness:
  "\<exists>t. acceptMessage (extractOperationDetails (signedData (ex_open None)) ''0xCD'') 100 (ex_handled None 3) = (Inr (), t)"
proof -
  let ?env = "extractOperationDetails (signedData (ex_open None)) ''0xCD''"
  have "chainTime (ex_handled None 3) = 100 \<and> env_deadline ?env = 200 \<and> env_address ?env = ''0xCD''" by code_simp
  with acceptance_decided [OF ex_wallets_new ex_handled_reached [of None 3], of ?env] ex_wallet_runs(1) show ?thesis by auto
qed

text \<open>The nonce stores remember what they must and nothing else: until its deadline a nonce is
  stored exactly when a message with it was accepted, both stores hold the same keys, and no
  stored deadline is more than a day ahead.\<close>

theorem nonces_remember_accepted:
  assumes "new_wallets s0" "(wallet_step pw wp att)\<^sup>*\<^sup>* s0 s" "chainTime s \<le> dl"
  shows "(store_has (noncesByOwner (nonceStores s)) (owner, n, dl) \<longleftrightarrow> (owner, n, dl) \<in> set (accepted s)) \<and>
    (store_has (noncesByDeadline (nonceStores s)) (dl, owner, n) \<longleftrightarrow> (owner, n, dl) \<in> set (accepted s)) \<and>
    (store_has (noncesByOwner (nonceStores s)) (owner, n, dl) \<longrightarrow> dl \<le> chainTime s + 86400)"
proof -
  have ok: "books_ok s" by (rule booked.inv_reachable [OF assms(1,2)])
  have same: "store_has (noncesByDeadline (nonceStores s)) (dl, owner, n) \<longleftrightarrow> remembered s (owner, n, dl)"
    using books_okD(5) [OF ok] by (simp add: nonces_ok_def remembered_def)
  have "remembered s (owner, n, dl) \<longleftrightarrow> (owner, n, dl) \<in> set (accepted s)"
    using books_okD(1,2) [OF ok, of "(owner, n, dl)"] assms(3) by auto
  then show ?thesis
    using same books_okD(3) [OF ok, of "(owner, n, dl)"]
    by (auto simp: remembered_def live_def MAX_YMAX_DEADLINE_OFFSET_SECONDS_def)
qed

lemma nonces_remember_accepted_witness:
  "store_has (noncesByOwner (nonceStores (ex_handled None 3))) (''0xAB'', 5, 200)"
proof -
  have "chainTime (ex_handled None 3) \<le> 200" by code_simp
  from nonces_remember_accepted [OF ex_wallets_new ex_handled_reached this] ex_wallet_runs(1) show ?thesis by simp
qed

section \<open>Portfolios and wallets\<close>

text \<open>C5: A wallet holds only portfolios of its account: a portfolio in the wallet of an EVM address
  is a portfolio of the contract, listed under its own number, whose owner is that address, and
  no other wallet holds it.\<close>

theorem wallets_hold_own:
  assumes "new_wallets s0" "(wallet_step pw wp att)\<^sup>*\<^sup>* s0 s"
    and "map_of (walletByAddress s) a = Some w" "map_of w k = Some pid"
  shows "k = int pid \<and> {b. wallet_holds s b pid} = {a} \<and>
    (\<exists>r chain. map_of (portfolios s) pid = Some r \<and> portfolioId (portfolio r) = pid \<and>
      sourceAccountId (portfolio r) = Some (''eip155:'' @ chain @ '':'' @ toLowerCase a))"
proof -
  have h: "holdings_ok pw att s" by (rule holding.inv_reachable [OF assms(1,2)])
  then have ok: "wallets_ok s" and kits: "kits_ok pw att s" by (simp_all add: holdings_ok_def)
  have "wallet_holds s a pid" using assms(3,4) by (auto simp: wallet_holds_def)
  then have "{b. wallet_holds s b pid} = {a}" using ok unfolding wallets_ok_def by blast
  then show ?thesis
    using held_owned [OF ok assms(3,4)] kits kit_ok_id unfolding evm_owned_def evm_account_def kits_ok_def by blast
qed

lemma wallets_hold_own_witness: "{b. wallet_holds (ex_handled None 9) b 0} = {''0xAB''}"
proof -
  have "map_of (walletByAddress (ex_handled None 9)) ''0xAB'' = Some [(0, 0)]" by code_simp
  from wallets_hold_own [OF ex_wallets_new ex_handled_reached this, of 0 0] show ?thesis by simp
qed



text \<open>C15: A portfolio that was opened or accepted for an account always reaches its wallet: once it
  waits to be attached, attaching it succeeds whenever it is resumed.\<close>

theorem attaching_succeeds:
  assumes "new_wallets s0" "(wallet_step pw wp att)\<^sup>*\<^sup>* s0 s" "AttachTurn env pid \<in> set (walletTurns s)"
  shows "\<exists>paths t. attachPortfolio env pid (s\<lparr>walletTurns := remove1 (AttachTurn env pid) (walletTurns s), chainTime := now\<rparr>) = (Inr paths, t) \<and>
    wallet_holds t (env_address env) pid \<and> pid \<in> set paths"
proof -
  let ?s = "s\<lparr>walletTurns := remove1 (AttachTurn env pid) (walletTurns s), chainTime := now\<rparr>"
  have "holdings_ok pw att s" by (rule holding.inv_reachable [OF assms(1,2)])
  then have "turn_ready pw att ?s (AttachTurn env pid)" using take_turn assms(3) by blast
  from attach_run [OF this] obtain w where w:
    "attachPortfolio env pid ?s = (Inr (store_values (put_entry (int pid) pid w)),
      put_wallets (put_entry (env_address env) (put_entry (int pid) pid w) (walletByAddress ?s)) ?s)"
    by blast
  have "map_of (put_entry (int pid) pid w) (int pid) = Some pid" by simp
  then have "pid \<in> set (store_values (put_entry (int pid) pid w))"
    unfolding store_values_def by (metis image_eqI list.set_map map_of_SomeD snd_conv)
  moreover have "wallet_holds (put_wallets (put_entry (env_address env) (put_entry (int pid) pid w) (walletByAddress ?s)) ?s) (env_address env) pid"
    by (auto simp: wallet_holds_def intro!: exI [of _ "int pid"])
  ultimately show ?thesis using w by blast
qed

lemma attaching_succeeds_witness:
  "\<exists>paths t. attachPortfolio (extractOperationDetails (signedData (ex_open None)) ''0xAB'') 0
     ((ex_handled None 7)\<lparr>walletTurns := [], chainTime := 300\<rparr>) = (Inr paths, t) \<and> 0 \<in> set paths"
proof -
  let ?t = "AttachTurn (extractOperationDetails (signedData (ex_open None)) ''0xAB'') 0"
  have t: "walletTurns (ex_handled None 7) = [?t]" by code_simp
  then have "?t \<in> set (walletTurns (ex_handled None 7))" by simp
  from attaching_succeeds [OF ex_wallets_new ex_handled_reached this, of 300] t show ?thesis by auto
qed

text \<open>C16: The wallets drive the portfolio machine: every portfolio of the contract, in every state of
  the wallets, is a state its own machine reaches from a new portfolio of that number, so
  everything proved of portfolios holds of it.\<close>

theorem wallet_portfolios_reachable:
  assumes "new_wallets s0" "(wallet_step pw wp att)\<^sup>*\<^sup>* s0 s" "map_of (portfolios s) pid = Some r"
  shows "(\<exists>owner. (any_step pw att)\<^sup>*\<^sup>* \<lparr>portfolio = makePortfolio pid owner, turns = []\<rparr> r) \<and>
    portfolioId (portfolio r) = pid \<and> pid < length (portfolios s) \<and> portfolio_run_inv r"
proof -
  have "kits_ok pw att s" using holding.inv_reachable [OF assms(1,2)] unfolding holdings_ok_def by blast
  then have k: "kit_ok pw att pid r" "pid < length (portfolios s)"
    using assms(3) by (auto simp: kits_ok_def store_size_def store_has_def)
  obtain owner where o: "(any_step pw att)\<^sup>*\<^sup>* (new_run pid owner) r" using k(1) by (auto simp: kit_ok_def)
  have "new_portfolio (new_run pid owner)" by (auto simp: new_portfolio_def new_run_def)
  from prun.inv_reachable [OF this o] show ?thesis using k o kit_ok_id [OF k(1)] by (auto simp: new_run_def)
qed

lemma wallet_portfolios_reachable_witness:
  "map fst (portfolios (ex_handled None 9)) = [0] \<and>
   portfolio_run_inv (the (map_of (portfolios (ex_handled None 9)) 0))"
proof -
  have "map fst (portfolios (ex_handled None 9)) = [0]" by code_simp
  then obtain r where r: "portfolios (ex_handled None 9) = [(0, r)]" by auto
  then have "map_of (portfolios (ex_handled None 9)) 0 = Some r" by simp
  from wallet_portfolios_reachable [OF ex_wallets_new ex_handled_reached this] r show ?thesis by simp
qed

section \<open>A refused grant leaves a portfolio behind\<close>


definition ex_allocate_false :: permissions where
  "ex_allocate_false = \<lparr>perm_allocation = Some (AllowAll False), perm_rebalance = None, perm_claimRewards = None\<rparr>"

definition ex_request :: open_request where
  "ex_request = \<lparr>open_target = [(''Aave_Ethereum'', Some 1)], open_chain = ''Ethereum'', open_amount = 100,
     open_source = ''eip155:1:0xab'', open_features = None, open_grantee = Some (''agoric1x'', ex_allocate_false)\<rparr>"


end
