(* ===== verification/Spec2Isabelle.thy ===== *)
theory Spec2Isabelle
  imports RouteHealth SettlementMatcher StatusManager StatusMachine PoolMachine TransactionFeed MintedEarlyKey
    FlowInvariant Contract ContractFacts DelegationFacts
    PortfolioFacts SubmissionFacts PlanFacts OwnershipFacts PortfolioCaveats
    WalletFacts
begin

text \<open>
  Two contracts of agoric-sdk: Fast USDC (\<open>packages/fast-usdc\<close>, \<open>packages/fast-usdc-contract\<close>)
  with what it uses of ERTP, Zoe and orchestration, and the part of the portfolio contract
  (\<open>packages/portfolio-contract\<close>, \<open>packages/portfolio-api\<close>) that decides whether a delegated agent
  may rebalance and schedules the steps of its plan.

  Fast USDC. Operators attest CCTP burns to the transaction feed; at quorum the evidence is
  published and the advancer starts the \<open>advanceFunds\<close> flow, which borrows from the liquidity
  pool and pays the user early. When the burned amount is minted, the settler matches it with
  the pending transactions and either repays the pool (\<open>disburse\<close>) or forwards the funds
  (\<open>forwardFunds\<close>). The status manager keeps the state of every transaction; the forward
  retrier starts failed forwards again when their route works.

  Portfolios. A portfolio (\<open>portfolio.exo.ts\<close>) has an owner, an Agoric account or an EVM
  account, a target allocation under a policy version, accounts, positions and running flows.
  The owner starts flows, sets targets and grants delegations; an Agoric owner can transfer the
  portfolio to an EVM account. An agent submits target allocations, rebalances and claims of
  rewards through its client (\<open>delegation.exo.ts\<close>), the planner resolves the plans of flows
  (\<open>planner.exo.ts\<close>). A target allocation with a plan comes with signed observations
  (\<open>observation-verifier.ts\<close>), and \<open>delegation-limits.ts\<close> vets it against the agent's permissions:
  it projects the balances along the schedule of the plan, bounds the final excess per chain,
  and bounds, with a maximum-weight closure, what any partial execution can leave in a position.
  The flow then runs the plan with the scheduler of \<open>schedule-order.ts\<close>, and
  \<open>partial_failure_within_target\<close> joins the two: the sets of steps a run can have touched are the
  dependency-closed sets the closure maximises over.

  Wallets. The owner of a portfolio with an EVM account signs messages that an off-chain service
  relays to the message handler (\<open>evm-wallet-handler.exo.ts\<close>). It recovers the signer, uses up
  the nonce, and then finds the portfolio of an operation in the wallet of the signer and calls
  its facet, opens a new portfolio through the contract, or completes a transfer of ownership to
  the signer; a new portfolio is attached to the wallet. The outcome is published. \<open>wallet_step\<close>
  drives the wallets together with the portfolios of the contract, each of which may take any
  step of its own machine at any time, so that what is proved of a portfolio holds of each of
  them (\<open>wallet_portfolios_reachable\<close>).

  The theories of Fast USDC, bottom up.
  \<^item> \<open>Prelude\<close>: errors, the error and state monads, the locale \<open>machine\<close> of invariants.
  \<^item> \<open>Store\<close>, \<open>StoreUtils\<close>: map stores as sorted association lists, the multiset operations and
    the sorted insertion of \<open>utils/store.ts\<close>, with the locales they are interpretations of.
  \<^item> \<open>Types\<close>: records and statuses of \<open>types.ts\<close>, \<open>constants.js\<close>, \<open>typeGuards.ts\<close>; account ids.
  \<^item> \<open>RouteHealth\<close>, \<open>ForwardRetrier\<close>: \<open>utils/route-health.ts\<close>, \<open>utils/forward-retrier.ts\<close>.
  \<^item> \<open>SettlementMatcher\<close>: \<open>utils/settlement-matcher.ts\<close>, the memoised search and its plain
    specification.
  \<^item> \<open>StatusManager\<close>, \<open>StatusMachine\<close>: \<open>exos/status-manager.ts\<close>, its methods and their invariant.
  \<^item> \<open>Amounts\<close>, \<open>PoolShareMath\<close>, \<open>Fees\<close>: ratios with banker's rounding, the pool share
    calculations and the fee split.
  \<^item> \<open>Zcf\<close>: seats, \<open>atomicRearrange\<close> with rights conservation and offer safety, mint and burn.
  \<^item> \<open>LiquidityPool\<close>, \<open>PoolMachine\<close>: \<open>exos/liquidity-pool.ts\<close>, its methods and its balance
    invariant.
  \<^item> \<open>TransactionFeed\<close>: \<open>exos/transaction-feed.ts\<close>, \<open>exos/operator-kit.ts\<close>.
  \<^item> \<open>MintedEarlyKey\<close>, \<open>ChainHub\<close>, \<open>Settler\<close>, \<open>SettlerFacts\<close>: \<open>exos/settler.ts\<close>.
  \<^item> \<open>Flows\<close>, \<open>FlowFacts\<close>, \<open>FlowInvariant\<close>: \<open>fast-usdc.flows.ts\<close>, one definition per await, and
    that every part keeps the invariants of the pool, the status manager and the settler.
  \<^item> \<open>Contract\<close>, \<open>ContractFacts\<close>: \<open>fast-usdc.contract.ts\<close>, the operations of its facets, the events
    that drive it, and the invariants of the whole contract.

  The theories of the portfolio.
  \<^item> \<open>JsCollections\<close>: sets and maps of JavaScript in the order of insertion.
  \<^item> \<open>ScheduleOrder\<close>, \<open>JobRuns\<close>: \<open>schedule-order.ts\<close>, the dependency graph, the schedule, and \<open>runJob\<close>
    as a step relation over the ways its promises settle; its ordering, termination and results.
  \<^item> \<open>MaxWeightClosure\<close>: \<open>max-weight-closure.ts\<close>, the Edmonds-Karp loops over arrays, and that they
    end with the largest weight of a closed set (maximum flow and minimum cut).
  \<^item> \<open>Places\<close>: \<open>places.ts\<close>, the place parsers of \<open>type-guards-steps.ts\<close>, \<open>flow-plan-places.ts\<close>.
  \<^item> \<open>Permissions\<close>: \<open>portfolio-permissions.ts\<close>.
  \<^item> \<open>DelegationLimits\<close>, \<open>DelegationFacts\<close>: \<open>delegation-limits.ts\<close>, and what a plan that passes
    guarantees.
  \<^item> \<open>Observations\<close>: \<open>observation-messages.ts\<close> and \<open>observation-verifier.ts\<close>.
  \<^item> \<open>PortfolioState\<close>: the state of \<open>portfolio.exo.ts\<close>, its publishing, and the facets \<open>reader\<close>,
    \<open>reporter\<close>, \<open>planner\<close>, \<open>accountWatcher\<close> and the accounts, flows, positions and policy of
    \<open>manager\<close>; \<open>pos.exo.ts\<close>.
  \<^item> \<open>Delegation\<close>: the facet \<open>delegationHelper\<close>, the delegations and auto-features of \<open>manager\<close>,
    \<open>delegation.exo.ts\<close>, \<open>planner.exo.ts\<close>, and the delivery of clients in \<open>portfolio.contract.ts\<close>.
  \<^item> \<open>PortfolioOwner\<close>: the facet \<open>evmHandler\<close>, the offer handlers and the facet \<open>ownerTransfer\<close>.
  \<^item> \<open>PortfolioPolicy\<close>: the policy machine, the abstraction \<open>policy_of\<close> of a portfolio to it, the
    invariant, and the locale \<open>guarantee\<close> of methods that keep an invariant and stay within what
    their caller is allowed; interpreted for the policy (\<open>pol\<close>), for pending targets (\<open>np\<close>) and
    for ownership (\<open>own\<close>).
  \<^item> \<open>PolicyMethods\<close>, \<open>CallerMethods\<close>: that every method is safe in that sense.
  \<^item> \<open>PortfolioMachine\<close>: the portfolio with the turns that wait to be resumed as a step relation,
    and that each step refines the policy machine.
  \<^item> \<open>PortfolioFacts\<close>, \<open>SubmissionFacts\<close>, \<open>PlanFacts\<close>, \<open>OwnershipFacts\<close>: what holds of every
    reachable portfolio; \<open>PortfolioCaveats\<close>: runs that do not go as the code's readers rely on.
  \<^item> \<open>NonceManager\<close>: \<open>makeNonceManager\<close>, with its two sets of keys and their invariant.
  \<^item> \<open>EvmWallet\<close>: \<open>handleMessage\<close>, \<open>handleOperation\<close> and its watchers, \<open>evmPortfolioPowers\<close> of
    \<open>portfolio.contract.ts\<close> and the extraction of details of \<open>eip712-message-handler.ts\<close>; a turn
    (\<open>wallet_turn\<close>) is what a message being handled waits for.
  \<^item> \<open>WalletMachine\<close>: the wallets as a step relation. \<open>WalletBooks\<close> (invariant \<open>books_ok\<close>): messages,
    nonces and outcomes. \<open>WalletHoldings\<close> (invariant \<open>holdings_ok\<close>): who owns and holds portfolios.
  \<^item> \<open>WalletFacts\<close>: what holds of the wallets in every state they can reach.

  Conventions. A \<open>bigint\<close> is an \<open>int\<close>; the guards of the exo classes are hypotheses or the
  guards of the step relations. A method is a state transformer that returns a value or one of
  the values of \<open>error\<close>; a method that throws keeps the state it had reached, as the process
  does. A method that awaits is split: the part up to the await leaves an entry for the call in
  flight, and a resumption takes it with the outcome of the call. \<open>decodeAddressHook\<close> and the
  text of error messages are parameters (\<open>decodeHook\<close>, \<open>messageOf\<close>). The search of the matcher
  terminates by the measure of its remaining indices. The loops of the closure are
  \<open>while_option\<close>, proved to end. Fuel is used for the cycle check and the failure cascade of the
  scheduler (one more than the number of tasks: each call down marks another task) and for the
  rounds of the projection (each round takes a task); exhausted fuel is \<open>None\<close> or \<open>Diverges\<close> and is
  proved never to occur. A record of JavaScript is the list of its entries.

  Not modelled: the storage nodes and notifiers behind the logs, the account calls themselves
  (their outcomes are the arguments of the resumptions), brand checks, invitations, chain
  registration, and the Zoe side of seats. Of the portfolio: the steps of its flows (a running
  plan is one event that ends the flow), the
  GMP flows and the resolver. The planner's lookup of a portfolio by its number is left out; the flow keys and agent keys are their numbers; the Noble
  forwarding address of the published status, the limits on the number of steps in an offer and
  the flow that may come with opening a portfolio are left out. The address predictions and the
  contracts' addresses are the parameter \<open>portfolio_ports\<close>, the recovery of a signer and the
  fields of a signed message the parameter \<open>attestation\<close>. A delegation client is a number that
  is never used twice; that only its holder can call it is the platform's. Of the wallets, hashing,
  recovery of signers, checksum addresses and the validation of typed data are the parameter
  \<open>wallet_ports\<close>; the encoded keys of nonces are the tuples they encode, in the order of the
  encoding; the three operations that open a portfolio are one; reading the number and the path
  of a portfolio takes no turn of its own, and the results in published updates are left out.
\<close>

end
